(* ===== verification/Prelude.thy ===== *)
theory Prelude
  imports Complex_Main "HOL-Library.Word" "HOL-Library.More_List" "HOL-Library.Monad_Syntax"
begin

text \<open>
  Shared vocabulary of the development: the machine integer types of the Rust sources, the
  ordering type of \<open>std::cmp\<close>, Rust's panics as \<open>None\<close>, and the generic lemmas on
  words, lists and powers of two that the component theories use.
\<close>

unbundle bit_operations_syntax

section \<open>Machine integers and results\<close>

type_synonym u8 = "8 word"
type_synonym u32 = "32 word"
type_synonym u64 = "64 word"
type_synonym u128 = "128 word"

text \<open>
  A function that can panic (a failed \<open>assert!\<close>, an index out of range, an \<open>unwrap\<close> of
  \<open>None\<close>) returns \<open>'a panics\<close>: \<open>None\<close> is the panic. Rust's own \<open>Option\<close> inside
  such a function is a second \<open>option\<close> below it.
\<close>

type_synonym 'a panics = "'a option"

datatype ordering = Less | Equal | Greater

named_theorems unat_simps \<open>reading word operations as operations on naturals\<close>
named_theorems bound_intros \<open>upper bounds of word operations\<close>

section \<open>Words read as naturals\<close>

lemma unat_lt_exp [bound_intros]: "unat (x :: 'a::len word) < 2 ^ LENGTH('a)"
  by (rule unsigned_less)

lemma unat_lt_u64 [bound_intros]: "unat (x :: u64) < 18446744073709551616"
  using unat_lt_exp [of x] by simp

lemma unat_push_bit: "unat (push_bit n (w :: 'a::len word)) = (unat w * 2 ^ n) mod 2 ^ LENGTH('a)"
  by (cases "n < LENGTH('a)")
    (simp_all only: unsigned_push_bit_eq, simp_all add: push_bit_eq_mult take_bit_eq_mod mult.commute)

lemma unat_push_bit_small [unat_simps]:
  "unat w * 2 ^ n < 2 ^ LENGTH('a) \<Longrightarrow> unat (push_bit n (w :: 'a::len word)) = unat w * 2 ^ n"
  by (simp add: unat_push_bit)

lemma unat_push_bit_1 [unat_simps]:
  "n < LENGTH('a) \<Longrightarrow> unat (push_bit n (1 :: 'a::len word)) = 2 ^ n"
  by (subst unat_push_bit) simp

lemma unat_drop_bit [unat_simps]: "unat (drop_bit n (w :: 'a::len word)) = unat w div 2 ^ n"
  by (simp only: unat_drop_bit_eq) (rule drop_bit_eq_div)

lemma push_bit_1_minus_1: "push_bit n 1 - 1 = (mask n :: 'a::len word)"
  by (simp add: mask_eq_exp_minus_1 push_bit_eq_mult)

lemma unat_and_mask [unat_simps]:
  "n < LENGTH('a) \<Longrightarrow> unat ((w :: 'a::len word) AND (push_bit n 1 - 1)) = unat w mod 2 ^ n"
  by (simp only: push_bit_1_minus_1 flip: take_bit_eq_mask)
    (simp only: unsigned_take_bit_eq, simp add: take_bit_eq_mod)

lemma unat_mask_1 [unat_simps]:
  "n < LENGTH('a) \<Longrightarrow> unat (push_bit n 1 - 1 :: 'a::len word) = 2 ^ n - 1"
proof -
  assume n: "n < LENGTH('a)"
  have "1 \<le> unat (push_bit n (1 :: 'a word))"
    using n by (simp only: unat_push_bit_1) simp
  then have "(1 :: 'a word) \<le> push_bit n 1"
    by (simp add: word_le_nat_alt)
  then show ?thesis
    using n by (simp only: unat_sub unat_push_bit_1) simp
qed

lemma unat_ucast_mod:
  "unat (ucast (w :: 'a::len word) :: 'b::len word) = unat w mod 2 ^ LENGTH('b)"
  by (simp only: unsigned_ucast_eq) (simp add: take_bit_eq_mod)

lemma unat_ucast_le [unat_simps]:
  assumes "LENGTH('a) \<le> LENGTH('b)"
  shows "unat (ucast (w :: 'a::len word) :: 'b::len word) = unat w"
proof -
  have "unat w < 2 ^ LENGTH('b)"
    using unat_lt_exp [of w] assms by (meson order_less_le_trans power_increasing one_le_numeral)
  then show ?thesis by (simp add: unat_ucast_mod)
qed

lemma unat_of_nat_small [unat_simps]:
  "n < 2 ^ LENGTH('a) \<Longrightarrow> unat (word_of_nat n :: 'a::len word) = n"
  by (simp add: unat_of_nat)

lemma unat_of_int_small [unat_simps]:
  "0 \<le> i \<Longrightarrow> i < 2 ^ LENGTH('a) \<Longrightarrow> unat (word_of_int i :: 'a::len word) = nat i"
  by (simp add: unsigned_of_int take_bit_int_eq_self)

lemma unat_add_small [unat_simps]:
  "unat x + unat y < 2 ^ LENGTH('a) \<Longrightarrow> unat (x + y :: 'a::len word) = unat x + unat y"
  by (simp add: unat_word_ariths)

lemma unat_mult_small [unat_simps]:
  "unat x * unat y < 2 ^ LENGTH('a) \<Longrightarrow> unat (x * y :: 'a::len word) = unat x * unat y"
  by (simp add: unat_word_ariths)

lemma word_eq_iff_unat: "(x :: 'a::len word) = y \<longleftrightarrow> unat x = unat y"
  by (simp add: word_unat_eq_iff)

lemma bit_unat_less: "unat c < 2 ^ b \<Longrightarrow> b \<le> n \<Longrightarrow> \<not> bit (c :: 'a::len word) n"
proof -
  assume c: "unat c < 2 ^ b" and n: "b \<le> n"
  have "(2 :: nat) ^ b \<le> 2 ^ n" using n by simp
  with c have "unat c < 2 ^ n" by linarith
  then have "unat c div 2 ^ n = 0" by simp
  then have "\<not> bit (unat c) n" by (simp add: bit_iff_odd)
  then show ?thesis by (simp add: bit_unsigned_iff)
qed

lemma push_or_add:
  assumes "unat c < 2 ^ b"
  shows "push_bit b x OR c = push_bit b x + (c :: 'a::len word)"
  using bit_unat_less [OF assms]
  by (subst disjunctive_add) (auto simp: bit_push_bit_iff not_le)

end
