(* ===== verification/Ptx_Big.thy ===== *)
theory Ptx_Big
  imports Prelude
begin

text \<open>
  The unsigned big integer of \<open>crates/e5r-ptx/src/fp.rs\<close> (\<open>struct Big\<close>): little-endian
  64-bit limbs without trailing zero limbs. Each method is the loop of the source over the limbs;
  the interface \<open>exact_nat\<close> states what the rounding code relies on (the methods compute
  on the represented natural number), and the last section interprets it on these definitions.
\<close>

section \<open>The limbs and their methods\<close>

datatype big = Big (limbs: "u64 list")

definition big_norm :: "u64 list \<Rightarrow> big" where
  "big_norm v = Big (strip_while (\<lambda>x. x = 0) v)"

text \<open>\<open>u128\<close> values of this file are naturals below \<open>2 ^ 128\<close>; \<open>as u64\<close> truncates.\<close>

definition big_from :: "nat \<Rightarrow> big" where
  "big_from x = big_norm [word_of_nat x, word_of_nat (x div 2 ^ 64)]"

definition big_is_zero :: "big \<Rightarrow> bool" where
  "big_is_zero a \<longleftrightarrow> limbs a = []"

text \<open>\<open>u64::leading_zeros\<close>: the zero bits above the highest set bit.\<close>

definition leading_zeros :: "u64 \<Rightarrow> nat" where
  "leading_zeros w = length (takeWhile Not (map (bit w) (rev [0..<64])))"

definition big_bits :: "big \<Rightarrow> nat" where
  "big_bits a = (if limbs a = [] then 0
     else 64 * (length (limbs a) - 1) + (64 - leading_zeros (last (limbs a))))"

text \<open>The loop of \<open>shl\<close>: \<open>b\<close> is the shift below a limb, \<open>c\<close> the carry.\<close>

fun shl_loop :: "nat \<Rightarrow> u64 list \<Rightarrow> u64 \<Rightarrow> u64 list" where
  "shl_loop b [] c = (if c \<noteq> 0 then [c] else [])"
| "shl_loop b (x # xs) c =
     (if b = 0 then x # shl_loop b xs c
      else (push_bit b x OR c) # shl_loop b xs (drop_bit (64 - b) x))"

definition big_shl :: "big \<Rightarrow> nat \<Rightarrow> big" where
  "big_shl a n = (if big_is_zero a then a
     else big_norm (replicate (n div 64) 0 @ shl_loop (n mod 64) (limbs a) 0))"

definition u64_cmp :: "u64 \<Rightarrow> u64 \<Rightarrow> ordering" where
  "u64_cmp x y = (if x < y then Less else if x = y then Equal else Greater)"

definition nat_cmp :: "nat \<Rightarrow> nat \<Rightarrow> ordering" where
  "nat_cmp x y = (if x < y then Less else if x = y then Equal else Greater)"

text \<open>The loop of \<open>cmp\<close> from the most significant limb down.\<close>

fun cmp_loop :: "u64 list \<Rightarrow> u64 list \<Rightarrow> ordering" where
  "cmp_loop (x # xs) (y # ys) =
     (case u64_cmp x y of Equal \<Rightarrow> cmp_loop xs ys | c \<Rightarrow> c)"
| "cmp_loop _ _ = Equal"

definition big_cmp :: "big \<Rightarrow> big \<Rightarrow> ordering" where
  "big_cmp a b = (if length (limbs a) \<noteq> length (limbs b)
     then nat_cmp (length (limbs a)) (length (limbs b))
     else cmp_loop (rev (limbs a)) (rev (limbs b)))"

text \<open>The loop of \<open>add\<close>: missing limbs of the shorter operand read as 0, the carry is a \<open>u128\<close>.\<close>

fun add_loop :: "u64 list \<Rightarrow> u64 list \<Rightarrow> u128 \<Rightarrow> u64 list" where
  "add_loop [] [] c = (if c \<noteq> 0 then [ucast c] else [])"
| "add_loop (x # xs) [] c =
     (let s = ucast x + c in ucast s # add_loop xs [] (drop_bit 64 s))"
| "add_loop [] (y # ys) c =
     (let s = ucast y + c in ucast s # add_loop [] ys (drop_bit 64 s))"
| "add_loop (x # xs) (y # ys) c =
     (let s = ucast x + ucast y + c in ucast s # add_loop xs ys (drop_bit 64 s))"

definition big_add :: "big \<Rightarrow> big \<Rightarrow> big" where
  "big_add a b = big_norm (add_loop (limbs a) (limbs b) 0)"

text \<open>
  The loop of \<open>sub\<close> over the limbs of \<open>self\<close> with an \<open>i128\<close> difference; the borrow left at
  the end is dropped, as in the source, which requires \<open>self \<ge> o\<close>.
\<close>

fun sub_loop :: "u64 list \<Rightarrow> u64 list \<Rightarrow> int \<Rightarrow> u64 list" where
  "sub_loop [] ys borrow = []"
| "sub_loop (x # xs) ys borrow =
     (let d = uint x - (case ys of [] \<Rightarrow> 0 | y # _ \<Rightarrow> uint y) - borrow
      in if d < 0 then word_of_int (d + 2 ^ 64) # sub_loop xs (tl ys) 1
         else word_of_int d # sub_loop xs (tl ys) 0)"

definition big_sub :: "big \<Rightarrow> big \<Rightarrow> big" where
  "big_sub a b = big_norm (sub_loop (limbs a) (limbs b) 0)"

text \<open>
  Schoolbook multiplication. The lists \<open>v\<close> below are the suffix \<open>v[i..]\<close> of the source's
  result array in the \<open>i\<close>-th round, which no later round reads before \<open>i\<close>. The carry loop
  \<open>while c != 0 { v[k] .. }\<close> panics when \<open>k\<close> runs past the array: \<open>None\<close>.
\<close>

fun mul_carry :: "u64 list \<Rightarrow> u128 \<Rightarrow> u64 list panics" where
  "mul_carry [] c = (if c = 0 then Some [] else None)"
| "mul_carry (x # v) c = (if c = 0 then Some (x # v)
     else let t = ucast x + c in map_option (Cons (ucast t)) (mul_carry v (drop_bit 64 t)))"

fun mul_row :: "u64 \<Rightarrow> u64 list \<Rightarrow> u64 list \<Rightarrow> u128 \<Rightarrow> u64 list panics" where
  "mul_row a [] v c = mul_carry v c"
| "mul_row a (b # bs) [] c = None"
| "mul_row a (b # bs) (x # v) c =
     (let t = ucast x + ucast a * ucast b + c
      in map_option (Cons (ucast t)) (mul_row a bs v (drop_bit 64 t)))"

fun mul_rows :: "u64 list \<Rightarrow> u64 list \<Rightarrow> u64 list \<Rightarrow> u64 list panics" where
  "mul_rows [] bs v = Some v"
| "mul_rows (a # as) bs v =
     (case mul_row a bs v 0 of
        Some (x # v') \<Rightarrow> map_option (Cons x) (mul_rows as bs v')
      | _ \<Rightarrow> None)"

definition big_mul :: "big \<Rightarrow> big \<Rightarrow> big panics" where
  "big_mul a b = map_option big_norm
     (mul_rows (limbs a) (limbs b) (replicate (length (limbs a) + length (limbs b)) 0))"

text \<open>
  Binary long division; the \<open>u128\<close> quotient collects the bits from \<open>top\<close> down to 0.
  \<open>assert!(top < 128)\<close> is the panic.
\<close>

fun divrem_loop :: "nat \<Rightarrow> big \<Rightarrow> big \<Rightarrow> nat \<Rightarrow> nat \<times> big" where
  "divrem_loop 0 d r q = (q, r)"
| "divrem_loop (Suc i) d r q =
     (let t = big_shl d i
      in if big_cmp r t \<noteq> Less then divrem_loop i d (big_sub r t) (q OR push_bit i 1)
         else divrem_loop i d r q)"

definition divrem_small :: "big \<Rightarrow> big \<Rightarrow> (nat \<times> big) panics" where
  "divrem_small a d = (if big_cmp a d = Less then Some (0, a)
     else let top = big_bits a - big_bits d
          in if top < 128 then Some (divrem_loop (Suc top) d a 0) else None)"

section \<open>The represented natural\<close>

fun limbs_val :: "u64 list \<Rightarrow> nat" where
  "limbs_val [] = 0"
| "limbs_val (x # xs) = unat x + 2 ^ 64 * limbs_val xs"

definition big_val :: "big \<Rightarrow> nat" where
  "big_val a = limbs_val (limbs a)"

text \<open>The invariant of the type: no trailing zero limb.\<close>

definition big_ok :: "big \<Rightarrow> bool" where
  "big_ok a \<longleftrightarrow> limbs a = [] \<or> last (limbs a) \<noteq> 0"

lemma limbs_val_append: "limbs_val (xs @ ys) = limbs_val xs + 2 ^ (64 * length xs) * limbs_val ys"
  by (induction xs) (simp_all add: algebra_simps power_add)

lemma limbs_val_replicate_0 [simp]: "limbs_val (replicate n 0) = 0"
  by (induction n) simp_all

lemma limbs_val_less: "limbs_val xs < 2 ^ (64 * length xs)"
proof (induction xs)
  case (Cons x xs)
  have "unat x + 2 ^ 64 * limbs_val xs < 2 ^ 64 + 2 ^ 64 * limbs_val xs"
    using unat_lt_exp [of x] by simp
  also have "\<dots> = 2 ^ 64 * (1 + limbs_val xs)" by simp
  also have "\<dots> \<le> 2 ^ 64 * 2 ^ (64 * length xs)"
    using Cons.IH by (intro mult_le_mono2) simp
  finally show ?case by (simp add: power_add)
qed simp

lemma limbs_val_strip_while [simp]: "limbs_val (strip_while (\<lambda>x. x = 0) v) = limbs_val v"
  by (induction v rule: rev_induct) (simp_all add: limbs_val_append)

lemma big_val_norm [simp]: "big_val (big_norm v) = limbs_val v"
  by (simp add: big_val_def big_norm_def)

lemma big_ok_norm [simp]: "big_ok (big_norm v)"
  unfolding big_ok_def big_norm_def
  by (induction v rule: rev_induct) simp_all

lemma limbs_val_ge:
  assumes "xs \<noteq> []" and "last xs \<noteq> 0"
  shows "2 ^ (64 * (length xs - 1)) * unat (last xs) \<le> limbs_val xs"
    and "2 ^ (64 * (length xs - 1)) \<le> limbs_val xs"
proof -
  have xs: "limbs_val xs = limbs_val (butlast xs) + 2 ^ (64 * (length xs - 1)) * unat (last xs)"
    using limbs_val_append [of "butlast xs" "[last xs]"] assms(1) by simp
  then show "2 ^ (64 * (length xs - 1)) * unat (last xs) \<le> limbs_val xs" by simp
  have "1 \<le> unat (last xs)"
    using assms(2) by (metis One_nat_def Suc_leI unat_gt_0)
  with xs show "2 ^ (64 * (length xs - 1)) \<le> limbs_val xs"
    by (metis le_add2 mult.right_neutral mult_le_mono2 order_trans)
qed

lemma big_val_from [simp]: "x < 2 ^ 128 \<Longrightarrow> big_val (big_from x) = x"
  by (simp add: big_from_def unat_of_nat less_mult_imp_div_less)

lemma limbs_val_pos: "xs \<noteq> [] \<Longrightarrow> last xs \<noteq> 0 \<Longrightarrow> 0 < limbs_val xs"
  using limbs_val_ge(2) [of xs] by (metis order_less_le_trans zero_less_numeral zero_less_power)

lemma big_val_eq_0_iff: "big_ok a \<Longrightarrow> big_val a = 0 \<longleftrightarrow> big_is_zero a"
  unfolding big_val_def big_is_zero_def big_ok_def
  using limbs_val_pos [of "limbs a"] by (cases "limbs a = []") auto

section \<open>Each method computes on the represented natural\<close>

text \<open>Splitting a \<open>u128\<close> accumulator into the limb pushed and the carry kept.\<close>

lemma u128_split: "unat (ucast s :: u64) + 2 ^ 64 * unat (drop_bit 64 s) = unat (s :: u128)"
  by (simp add: unat_ucast_mod unat_drop_bit)

lemma u128_carry: "unat (s :: u128) < 2 ^ 64 * k \<Longrightarrow> unat (drop_bit 64 s) < k"
  by (simp add: unat_drop_bit less_mult_imp_div_less mult.commute)

subsection \<open>Shift\<close>

lemma shl_limb:
  assumes b: "0 < b" "b < 64" and c: "unat c < 2 ^ b"
  shows "unat (push_bit b x OR c) + 2 ^ 64 * unat (drop_bit (64 - b) x) = unat (x :: u64) * 2 ^ b + unat c"
proof -
  define k where "k = (2 :: nat) ^ (64 - b)"
  define m d where "m = unat x mod k" and "d = unat x div k"
  have e: "(2 :: nat) ^ 64 = k * 2 ^ b"
    unfolding k_def using b by (simp flip: power_add)
  have x: "unat x = m + k * d" and m: "m + 1 \<le> k"
    by (simp_all add: m_def d_def k_def Suc_le_eq)
  have p: "unat (push_bit b x) = m * 2 ^ b"
    unfolding unat_push_bit m_def using e by (simp add: mult_mod_left)
  have "unat (push_bit b x) + unat c < (m + 1) * 2 ^ b"
    using c p by simp
  also have "\<dots> \<le> 2 ^ 64"
    unfolding e using m by (rule mult_le_mono1)
  finally have s: "unat (push_bit b x + c) = unat (push_bit b x) + unat c"
    by (intro unat_add_small) simp
  have "unat (push_bit b x OR c) + 2 ^ 64 * unat (drop_bit (64 - b) x) = m * 2 ^ b + unat c + k * 2 ^ b * d"
    unfolding push_or_add [OF c] s p e unat_drop_bit by (simp add: d_def k_def)
  also have "\<dots> = unat x * 2 ^ b + unat c"
    unfolding x by (simp add: algebra_simps)
  finally show ?thesis .
qed

lemma limbs_val_shl_loop:
  "b < 64 \<Longrightarrow> unat c < 2 ^ b \<Longrightarrow> limbs_val (shl_loop b xs c) = limbs_val xs * 2 ^ b + unat c"
proof (induction xs arbitrary: c)
  case (Cons x xs)
  show ?case
  proof (cases "b = 0")
    case True
    with Cons show ?thesis by simp
  next
    case False
    have "unat x < 2 ^ b * 2 ^ (64 - b)"
      using unat_lt_u64 [of x] Cons.prems(1) by (simp flip: power_add)
    then have "unat (drop_bit (64 - b) x) < 2 ^ b"
      by (simp add: unat_drop_bit less_mult_imp_div_less)
    from Cons.IH [OF Cons.prems(1) this] False shl_limb [of b c x] Cons.prems
    show ?thesis by (simp add: algebra_simps)
  qed
qed simp

lemma big_shl_val: "big_ok a \<Longrightarrow> big_val (big_shl a n) = big_val a * 2 ^ n"
proof -
  assume ok: "big_ok a"
  have "2 ^ (64 * (n div 64)) * 2 ^ (n mod 64) = (2 :: nat) ^ n"
    by (simp flip: power_add)
  then show ?thesis
    using ok limbs_val_shl_loop [of "n mod 64" 0 "limbs a"]
    by (auto simp: big_shl_def big_val_eq_0_iff [symmetric] limbs_val_append)
      (simp_all add: big_val_def mult.assoc [symmetric] algebra_simps)
qed

lemma big_shl_ok: "big_ok a \<Longrightarrow> big_ok (big_shl a n)"
  by (simp add: big_shl_def)

subsection \<open>Comparison\<close>

lemma nat_cmp_mult_add:
  "a < k \<Longrightarrow> b < k \<Longrightarrow> nat_cmp (a + k * x) (b + k * y) = (if x = y then nat_cmp a b else nat_cmp x y)"
proof -
  assume a: "a < k" and b: "b < k"
  have *: "c + k * u < d + k * v" if "u < v" "c < k" for c d u v
  proof -
    have "c + k * u < k * Suc u" using that by simp
    also have "\<dots> \<le> k * v" using that by (intro mult_le_mono2) simp
    finally show ?thesis by simp
  qed
  consider "x < y" | "x = y" | "y < x" by linarith
  then show ?thesis
    using * [of x y a b] * [of y x b a] a b by cases (simp_all add: nat_cmp_def)
qed

lemma u64_cmp_nat: "u64_cmp x y = nat_cmp (unat x) (unat y)"
  by (simp add: u64_cmp_def nat_cmp_def word_less_nat_alt word_eq_iff_unat)

lemma nat_cmp_simps [simp]:
  "nat_cmp a b = Less \<longleftrightarrow> a < b" "nat_cmp a b = Equal \<longleftrightarrow> a = b" "nat_cmp a b = Greater \<longleftrightarrow> b < a"
  by (auto simp: nat_cmp_def)

lemma cmp_loop_val:
  "length xs = length ys \<Longrightarrow> cmp_loop xs ys = nat_cmp (limbs_val (rev xs)) (limbs_val (rev ys))"
proof (induction xs ys rule: list_induct2)
  case (Cons x xs y ys)
  have "nat_cmp (limbs_val (rev (x # xs))) (limbs_val (rev (y # ys)))
      = (if unat x = unat y then nat_cmp (limbs_val (rev xs)) (limbs_val (rev ys))
         else nat_cmp (unat x) (unat y))"
    using nat_cmp_mult_add [of "limbs_val (rev xs)" "2 ^ (64 * length xs)" "limbs_val (rev ys)"]
      limbs_val_less [of "rev xs"] limbs_val_less [of "rev ys"] Cons.hyps
    by (simp add: limbs_val_append)
  with Cons.IH show ?case
    by (auto simp: u64_cmp_nat nat_cmp_def split: ordering.splits)
qed (simp add: nat_cmp_def)

lemma limbs_val_length_less:
  assumes "length xs < length ys" and "last ys \<noteq> 0"
  shows "limbs_val xs < limbs_val ys"
proof -
  have "limbs_val xs < 2 ^ (64 * length xs)" by (rule limbs_val_less)
  also have "\<dots> \<le> 2 ^ (64 * (length ys - 1))" using assms(1) by simp
  also have "\<dots> \<le> limbs_val ys" using assms by (intro limbs_val_ge(2)) auto
  finally show ?thesis .
qed

lemma big_cmp_val: "big_ok a \<Longrightarrow> big_ok b \<Longrightarrow> big_cmp a b = nat_cmp (big_val a) (big_val b)"
proof -
  assume ok: "big_ok a" "big_ok b"
  consider "length (limbs a) < length (limbs b)" | "length (limbs b) < length (limbs a)"
    | "length (limbs a) = length (limbs b)" by linarith
  then show ?thesis
  proof cases
    case 1
    then have "limbs_val (limbs a) < limbs_val (limbs b)"
      using ok by (intro limbs_val_length_less) (auto simp: big_ok_def)
    with 1 show ?thesis by (simp add: big_cmp_def big_val_def nat_cmp_def)
  next
    case 2
    then have "limbs_val (limbs b) < limbs_val (limbs a)"
      using ok by (intro limbs_val_length_less) (auto simp: big_ok_def)
    with 2 show ?thesis by (simp add: big_cmp_def big_val_def nat_cmp_def)
  next
    case 3
    then show ?thesis by (simp add: big_cmp_def big_val_def cmp_loop_val)
  qed
qed

subsection \<open>Addition and subtraction\<close>

lemma u128_limb:
  "unat (s :: u128) = n \<Longrightarrow> n < 2 ^ 64 * k
    \<Longrightarrow> unat (ucast s :: u64) + 2 ^ 64 * unat (drop_bit 64 s) = n \<and> unat (drop_bit 64 s) < k"
  using u128_split [of s] u128_carry [of s k] by simp

lemma limbs_val_add_loop:
  "unat c < 2 \<Longrightarrow> limbs_val (add_loop xs ys c) = limbs_val xs + limbs_val ys + unat c"
proof (induction xs ys c rule: add_loop.induct)
  case (1 c)
  then show ?case by (auto simp: unat_ucast_mod)
next
  case (2 x xs c)
  let ?s = "ucast x + c :: u128"
  have "unat ?s = unat x + unat c"
    using 2(2) unat_lt_u64 [of x] by (simp add: unat_add_small unat_ucast_le)
  from u128_limb [OF this, of 2] 2 unat_lt_u64 [of x] show ?case
    by (simp add: Let_def)
next
  case (3 y ys c)
  let ?s = "ucast y + c :: u128"
  have "unat ?s = unat y + unat c"
    using 3(2) unat_lt_u64 [of y] by (simp add: unat_add_small unat_ucast_le)
  from u128_limb [OF this, of 2] 3 unat_lt_u64 [of y] show ?case
    by (simp add: Let_def)
next
  case (4 x xs y ys c)
  let ?s = "ucast x + ucast y + c :: u128"
  have "unat ?s = unat x + unat y + unat c"
    using 4(2) unat_lt_u64 [of x] unat_lt_u64 [of y] by (simp add: unat_add_small unat_ucast_le)
  from u128_limb [OF this, of 2] 4 unat_lt_u64 [of x] unat_lt_u64 [of y] show ?case
    by (simp add: Let_def)
qed

lemma big_add_val: "big_val (big_add a b) = big_val a + big_val b"
  by (simp add: big_add_def limbs_val_add_loop) (simp add: big_val_def)

lemma limbs_val_hd_tl: "limbs_val ys = (case ys of [] \<Rightarrow> 0 | y # _ \<Rightarrow> unat y) + 2 ^ 64 * limbs_val (tl ys)"
  by (cases ys) simp_all

lemma limbs_val_sub_loop:
  assumes "b = 0 \<or> b = 1" and "limbs_val ys + nat b \<le> limbs_val xs"
  shows "limbs_val (sub_loop xs ys b) = limbs_val xs - limbs_val ys - nat b"
  using assms
proof (induction xs arbitrary: ys b)
  case (Cons x xs)
  define y where "y = (case ys of [] \<Rightarrow> 0 | y # _ \<Rightarrow> unat y)"
  define Y where "Y = limbs_val (tl ys)"
  define u where "u = unat x"
  define d where "d = int u - int y - b"
  have ys: "limbs_val ys = y + 2 ^ 64 * Y"
    unfolding y_def Y_def by (rule limbs_val_hd_tl)
  have y64: "y < 2 ^ 64"
    by (auto simp: y_def intro: unat_lt_u64 split: list.split)
  have x64: "u < 2 ^ 64" using unat_lt_u64 [of x] by (simp add: u_def)
  have le: "y + 2 ^ 64 * Y + nat b \<le> u + 2 ^ 64 * limbs_val xs"
    using Cons.prems(2) ys by (simp add: u_def)
  have d': "uint x - (case ys of [] \<Rightarrow> 0 | y # _ \<Rightarrow> uint y) - b = d"
    by (simp add: d_def u_def y_def split: list.split)
  have xs: "limbs_val (x # xs) = u + 2 ^ 64 * limbs_val xs"
    by (simp add: u_def)
  show ?case
  proof (cases "d < 0")
    case True
    have "Y + nat 1 \<le> limbs_val xs"
      using True le Cons.prems(1) x64 unfolding d_def by auto
    moreover have "unat (word_of_int (d + 2 ^ 64) :: u64) = nat (d + 2 ^ 64)"
      using True y64 Cons.prems(1) unfolding d_def by (subst unat_of_int_small) auto
    ultimately show ?thesis
      using Cons.IH [of 1 "tl ys"] True Cons.prems(1) le x64 y64
      unfolding ys xs by (auto simp: Let_def d' Y_def [symmetric]) (auto simp: d_def nat_add_distrib nat_diff_distrib)
  next
    case False
    have "Y + nat 0 \<le> limbs_val xs"
      using False le Cons.prems(1) x64 unfolding d_def by auto
    moreover have "unat (word_of_int d :: u64) = nat d"
      using False x64 Cons.prems(1) unfolding d_def by (subst unat_of_int_small) auto
    ultimately show ?thesis
      using Cons.IH [of 0 "tl ys"] False Cons.prems(1) le x64 y64
      unfolding ys xs by (auto simp: Let_def d' Y_def [symmetric]) (auto simp: d_def)
  qed
qed simp

lemma big_sub_val: "big_val b \<le> big_val a \<Longrightarrow> big_val (big_sub a b) = big_val a - big_val b"
  using limbs_val_sub_loop [of 0 "limbs b" "limbs a"] by (simp add: big_sub_def) (simp add: big_val_def)

subsection \<open>Multiplication\<close>

text \<open>The carry loop and the rows stay inside the array whenever the result fits it.\<close>

lemma mul_carry_val:
  assumes "unat c < 2 ^ 64" and "limbs_val v + unat c < 2 ^ (64 * length v)"
  shows "\<exists>v'. mul_carry v c = Some v' \<and> length v' = length v \<and> limbs_val v' = limbs_val v + unat c"
  using assms
proof (induction v arbitrary: c)
  case Nil
  then show ?case by (simp add: unsigned_eq_0_iff)
next
  case (Cons x v)
  let ?s = "ucast x + c :: u128"
  have s: "unat ?s = unat x + unat c"
    using Cons.prems(1) unat_lt_u64 [of x] by (simp add: unat_add_small unat_ucast_le)
  have split: "unat (ucast ?s :: u64) + 2 ^ 64 * unat (drop_bit 64 ?s) = unat x + unat c"
    using u128_split [of ?s] s by simp
  have c': "unat (drop_bit 64 ?s) < 2 ^ 64"
    using s Cons.prems(1) unat_lt_u64 [of x] by (simp add: unat_drop_bit less_mult_imp_div_less)
  have "2 ^ 64 * (limbs_val v + unat (drop_bit 64 ?s)) < 2 ^ 64 * 2 ^ (64 * length v)"
    using Cons.prems(2) split by (simp add: power_add)
  then have "limbs_val v + unat (drop_bit 64 ?s) < 2 ^ (64 * length v)" by simp
  from Cons.IH [OF c' this] obtain v' where "mul_carry v (drop_bit 64 ?s) = Some v'"
    and "length v' = length v" and "limbs_val v' = limbs_val v + unat (drop_bit 64 ?s)" by auto
  then show ?case
    using split by (auto simp: Let_def)
qed

lemma u64_mul_add_less:
  fixes x a b c :: nat
  assumes "x < 2 ^ 64" "a < 2 ^ 64" "b < 2 ^ 64" "c < 2 ^ 64"
  shows "x + a * b + c < 2 ^ 64 * 2 ^ 64"
proof -
  have "a * b \<le> (2 ^ 64 - 1) * (2 ^ 64 - 1)"
    using assms by (intro mult_mono) auto
  with assms show ?thesis by simp
qed

lemma mul_row_val:
  assumes "unat c < 2 ^ 64" and "length bs \<le> length v"
    and "limbs_val v + unat a * limbs_val bs + unat c < 2 ^ (64 * length v)"
  shows "\<exists>v'. mul_row a bs v c = Some v' \<and> length v' = length v
    \<and> limbs_val v' = limbs_val v + unat a * limbs_val bs + unat c"
  using assms
proof (induction a bs v c rule: mul_row.induct)
  case (1 a v c)
  then show ?case using mul_carry_val by simp
next
  case (3 a b bs x v c)
  let ?s = "ucast x + ucast a * ucast b + c :: u128"
  have fits: "unat x + unat a * unat b + unat c < 2 ^ 64 * 2 ^ 64"
    using 3(2) unat_lt_u64 by (intro u64_mul_add_less) simp_all
  have s: "unat ?s = unat x + unat a * unat b + unat c"
    using fits by (simp add: unat_add_small unat_mult_small unat_ucast_le)
  have split: "unat (ucast ?s :: u64) + 2 ^ 64 * unat (drop_bit 64 ?s) = unat x + unat a * unat b + unat c"
    using u128_split [of ?s] s by simp
  have c': "unat (drop_bit 64 ?s) < 2 ^ 64"
    using s fits by (intro u128_carry) simp
  have "2 ^ 64 * (limbs_val v + unat a * limbs_val bs + unat (drop_bit 64 ?s)) < 2 ^ 64 * 2 ^ (64 * length v)"
    using 3(4) split by (simp add: power_add algebra_simps)
  then have "limbs_val v + unat a * limbs_val bs + unat (drop_bit 64 ?s) < 2 ^ (64 * length v)" by simp
  from 3(1) [OF refl c' _ this] 3(3) obtain v' where "mul_row a bs v (drop_bit 64 ?s) = Some v'"
    and "length v' = length v"
    and "limbs_val v' = limbs_val v + unat a * limbs_val bs + unat (drop_bit 64 ?s)" by auto
  then show ?case
    using split by (auto simp: Let_def algebra_simps)
qed simp

lemma mul_rows_val:
  assumes "length as + length bs \<le> length v"
    and "limbs_val v + limbs_val as * limbs_val bs < 2 ^ (64 * length v)"
  shows "\<exists>v'. mul_rows as bs v = Some v' \<and> limbs_val v' = limbs_val v + limbs_val as * limbs_val bs"
  using assms
proof (induction as bs v rule: mul_rows.induct)
  case (2 a as bs v)
  have "limbs_val v + unat a * limbs_val bs + unat (0 :: u128) < 2 ^ (64 * length v)"
    using 2(3) by (simp add: algebra_simps)
  from mul_row_val [OF _ _ this] 2(2) obtain v' where v': "mul_row a bs v 0 = Some v'"
    and len: "length v' = length v" and val: "limbs_val v' = limbs_val v + unat a * limbs_val bs" by auto
  obtain x w where w: "v' = x # w"
    using len 2(2) by (cases v') auto
  have "2 ^ 64 * (limbs_val w + limbs_val as * limbs_val bs) \<le> limbs_val v + limbs_val (a # as) * limbs_val bs"
    using val w by (simp add: algebra_simps)
  also have "\<dots> < 2 ^ 64 * 2 ^ (64 * length w)"
  proof -
    have "length v = Suc (length w)" using len w by simp
    then show ?thesis using 2(3) by (simp add: power_add)
  qed
  finally have "limbs_val w + limbs_val as * limbs_val bs < 2 ^ (64 * length w)" by simp
  from 2(1) [OF v' w _ this] 2(2) len w obtain w' where "mul_rows as bs w = Some w'"
    and "limbs_val w' = limbs_val w + limbs_val as * limbs_val bs" by auto
  then show ?case
    using v' w val by (auto simp: algebra_simps)
qed simp

lemma big_mul_val: "\<exists>c. big_mul a b = Some c \<and> big_ok c \<and> big_val c = big_val a * big_val b"
proof -
  have "limbs_val (limbs a) * limbs_val (limbs b) < 2 ^ (64 * length (limbs a)) * 2 ^ (64 * length (limbs b))"
    by (intro mult_strict_mono limbs_val_less) auto
  then have "limbs_val (limbs a) * limbs_val (limbs b) < 2 ^ (64 * (length (limbs a) + length (limbs b)))"
    by (simp add: power_add distrib_left)
  then show ?thesis
    using mul_rows_val [of "limbs a" "limbs b" "replicate (length (limbs a) + length (limbs b)) 0"]
    by (auto simp: big_mul_def) (simp add: big_val_def)
qed

subsection \<open>Significant bits\<close>

lemma take_bit_eq_if_high_clear:
  assumes "\<And>j. k \<le> j \<Longrightarrow> j < 64 \<Longrightarrow> \<not> bit w j"
  shows "take_bit k (w :: u64) = w"
proof (rule bit_word_eqI)
  fix n assume "n < LENGTH(64)"
  then show "bit (take_bit k w) n = bit w n"
    using assms [of n] by (cases "k \<le> n") (auto simp: bit_take_bit_iff)
qed

lemma leading_zeros_bounds:
  assumes "w \<noteq> 0"
  shows "leading_zeros w < 64"
    and "2 ^ (63 - leading_zeros w) \<le> unat w" and "unat w < 2 ^ (64 - leading_zeros w)"
proof -
  define bs where "bs = map (bit w) (rev [0..<64])"
  have nth: "bs ! k = bit w (63 - k)" if "k < 64" for k
    using that by (simp add: bs_def rev_nth)
  have lz: "leading_zeros w = length (takeWhile Not bs)"
    by (simp add: leading_zeros_def bs_def)
  have "\<exists>j < 64. bit w j"
  proof (rule ccontr)
    assume "\<not> ?thesis"
    then have "take_bit 0 w = w" by (intro take_bit_eq_if_high_clear) auto
    with assms show False by simp
  qed
  then obtain j where "j < 64" "bit w j" by blast
  then have "bs ! (63 - j)" by (simp add: nth)
  moreover have "63 - j < length bs" by (simp add: bs_def)
  ultimately have "\<exists>b \<in> set bs. b" by (meson nth_mem)
  then show l: "leading_zeros w < 64"
    unfolding lz using takeWhile_eq_take [of Not bs] length_takeWhile_le [of Not bs]
    by (auto simp: bs_def takeWhile_eq_all_conv dest!: le_imp_less_or_eq)
  then have hd: "bit w (63 - leading_zeros w)"
    using nth_length_takeWhile [of Not bs] nth [of "leading_zeros w"]
    by (simp add: lz bs_def)
  have "\<not> bit w i" if "64 - leading_zeros w \<le> i" "i < 64" for i
  proof -
    have "63 - i < length (takeWhile Not bs)" using that l lz by simp
    then have "\<not> bs ! (63 - i)"
      by (metis nth_mem set_takeWhileD takeWhile_nth)
    then show ?thesis using that by (simp add: nth)
  qed
  then have "take_bit (64 - leading_zeros w) w = w"
    by (intro take_bit_eq_if_high_clear) auto
  then have "unat w = take_bit (64 - leading_zeros w) (unat w)"
    by (metis unsigned_take_bit_eq)
  then show "unat w < 2 ^ (64 - leading_zeros w)"
    by (metis take_bit_nat_less_exp)
  have "odd (unat w div 2 ^ (63 - leading_zeros w))"
    using hd by (simp add: bit_iff_odd [symmetric] bit_unsigned_iff)
  then show "2 ^ (63 - leading_zeros w) \<le> unat w"
    by (metis div_less even_zero not_le)
qed

lemma big_bits_val:
  assumes "big_ok a"
  shows "big_val a < 2 ^ big_bits a"
    and "0 < big_val a \<Longrightarrow> 0 < big_bits a \<and> 2 ^ (big_bits a - 1) \<le> big_val a"
proof -
  let ?xs = "limbs a"
  have split: "limbs_val ?xs = limbs_val (butlast ?xs) + 2 ^ (64 * (length ?xs - 1)) * unat (last ?xs)"
    if "?xs \<noteq> []"
    using limbs_val_append [of "butlast ?xs" "[last ?xs]"] that by simp
  have ne: "last ?xs \<noteq> 0" if "?xs \<noteq> []"
    using assms that by (simp add: big_ok_def)
  have bits: "big_bits a = 64 * (length ?xs - 1) + (64 - leading_zeros (last ?xs))" if "?xs \<noteq> []"
    using that by (simp add: big_bits_def)
  show "big_val a < 2 ^ big_bits a"
  proof (cases "?xs = []")
    case False
    let ?k = "2 ^ (64 * (length ?xs - 1)) :: nat"
    have "limbs_val (butlast ?xs) < ?k"
      using limbs_val_less [of "butlast ?xs"] by simp
    then have "limbs_val ?xs < ?k * (unat (last ?xs) + 1)"
      using split [OF False] by simp
    also have "\<dots> \<le> ?k * 2 ^ (64 - leading_zeros (last ?xs))"
      using leading_zeros_bounds(3) [OF ne [OF False]] by (intro mult_le_mono2) simp
    finally show ?thesis
      using bits [OF False] by (simp add: big_val_def power_add)
  qed (simp add: big_val_def)
  show "0 < big_bits a \<and> 2 ^ (big_bits a - 1) \<le> big_val a" if pos: "0 < big_val a"
  proof -
    have ne': "?xs \<noteq> []" using pos by (auto simp: big_val_def)
    note lz = leading_zeros_bounds [OF ne [OF ne']]
    have "2 ^ (big_bits a - 1) = 2 ^ (64 * (length ?xs - 1)) * (2 :: nat) ^ (63 - leading_zeros (last ?xs))"
      using bits [OF ne'] lz(1) by (simp flip: power_add)
    also have "\<dots> \<le> 2 ^ (64 * (length ?xs - 1)) * unat (last ?xs)"
      using lz(2) by (intro mult_le_mono2)
    also have "\<dots> \<le> limbs_val ?xs"
      using limbs_val_ge(1) ne' ne by blast
    finally show ?thesis
      using bits [OF ne'] lz(1) by (simp add: big_val_def)
  qed
qed

section \<open>The interface of exact naturals\<close>

text \<open>
  What the rounding code asks of its big integers: every operation keeps the invariant and
  computes on the represented natural. The long division is proved here once, for any loop that
  satisfies the equations of \<open>divrem_small\<close>'s loop.
\<close>

locale exact_nat =
  fixes val :: "'b \<Rightarrow> nat" and ok :: "'b \<Rightarrow> bool"
    and from_nat :: "nat \<Rightarrow> 'b" and bits :: "'b \<Rightarrow> nat"
    and shl :: "'b \<Rightarrow> nat \<Rightarrow> 'b" and cmp :: "'b \<Rightarrow> 'b \<Rightarrow> ordering"
    and plus :: "'b \<Rightarrow> 'b \<Rightarrow> 'b" and minus :: "'b \<Rightarrow> 'b \<Rightarrow> 'b" and times :: "'b \<Rightarrow> 'b \<Rightarrow> 'b panics"
  assumes from_nat: "n < 2 ^ 128 \<Longrightarrow> ok (from_nat n) \<and> val (from_nat n) = n"
    and bits_upper: "ok a \<Longrightarrow> val a < 2 ^ bits a"
    and bits_lower: "ok a \<Longrightarrow> 0 < val a \<Longrightarrow> 0 < bits a \<and> 2 ^ (bits a - 1) \<le> val a"
    and shl: "ok a \<Longrightarrow> ok (shl a n) \<and> val (shl a n) = val a * 2 ^ n"
    and cmp: "ok a \<Longrightarrow> ok b \<Longrightarrow> cmp a b = nat_cmp (val a) (val b)"
    and plus: "ok (plus a b) \<and> val (plus a b) = val a + val b"
    and minus: "val b \<le> val a \<Longrightarrow> ok (minus a b) \<and> val (minus a b) = val a - val b"
    and times: "\<exists>c. times a b = Some c \<and> ok c \<and> val c = val a * val b"
begin

lemma mult_pow2_le_iff: "ok a \<Longrightarrow> ok d \<Longrightarrow> cmp a (shl d i) \<noteq> Less \<longleftrightarrow> val d * 2 ^ i \<le> val a"
  using shl [of d i] cmp [of a "shl d i"] by (auto simp: nat_cmp_def)

text \<open>One quotient bit per round: with \<open>val r < 2 ^ n * val d\<close> the loop ends with the division.\<close>

lemma long_division:
  assumes F0: "\<And>d r q. F 0 d r q = (q, r)"
    and FS: "\<And>i d r q. F (Suc i) d r q = (let t = shl d i
      in if cmp r t \<noteq> Less then F i d (minus r t) (q OR push_bit i 1) else F i d r q)"
    and "ok d" and "ok r" and "val r < 2 ^ n * val d" and "2 ^ n dvd q"
  shows "\<exists>r'. F n d r q = (q + val r div val d, r') \<and> ok r' \<and> val r' = val r mod val d"
  using assms(3-)
proof (induction n arbitrary: r q)
  case 0
  then show ?case by (simp add: F0)
next
  case (Suc i)
  have dvd: "2 ^ i dvd q" using Suc.prems(4) by (auto elim: dvd_trans [rotated] simp: le_imp_power_dvd)
  have or: "q OR 2 ^ i = q + 2 ^ i"
  proof -
    have "\<not> bit q i"
      using Suc.prems(4) by (auto simp: bit_iff_odd elim!: dvdE)
    then show ?thesis
      by (subst disjunctive_add) (auto simp: bit_exp_iff)
  qed
  show ?case
  proof (cases "val d * 2 ^ i \<le> val r")
    case True
    let ?r = "minus r (shl d i)"
    have r: "ok ?r" "val ?r = val r - val d * 2 ^ i"
      using minus [of "shl d i" r] shl [of d i] Suc.prems True by auto
    have "2 ^ Suc i * val d = 2 ^ i * val d + val d * 2 ^ i" by simp
    with Suc.prems(3) r True have lt: "val ?r < 2 ^ i * val d" by linarith
    have "2 ^ i dvd q + 2 ^ i" using dvd by simp
    from Suc.IH [OF Suc.prems(1) r(1) lt this] obtain r' where
      r': "F i d ?r (q + 2 ^ i) = (q + 2 ^ i + val ?r div val d, r')" "ok r'" "val r' = val ?r mod val d" by auto
    have pos: "0 < val d" using Suc.prems(3) by (cases "val d") auto
    have "val r = val ?r + 2 ^ i * val d" using r True by simp
    then have "val r div val d = 2 ^ i + val ?r div val d" "val r mod val d = val ?r mod val d"
      using pos by simp_all
    with r' show ?thesis
      using True mult_pow2_le_iff [of r d i] Suc.prems by (simp add: FS Let_def or)
  next
    case False
    with Suc.IH [OF Suc.prems(1,2) _ dvd] show ?thesis
      using mult_pow2_le_iff [of r d i] Suc.prems by (simp add: FS Let_def mult.commute)
  qed
qed

lemma quotient_bits:
  assumes "ok a" and "ok d" and "val d \<le> val a" and "0 < val d"
  shows "val a < 2 ^ Suc (bits a - bits d) * val d"
    and "val a < 2 ^ k * val d \<Longrightarrow> bits a - bits d \<le> k"
proof -
  have d: "0 < bits d" "2 ^ (bits d - 1) \<le> val d" using bits_lower [OF assms(2,4)] by auto
  have le: "bits d \<le> bits a"
  proof (rule ccontr)
    assume "\<not> ?thesis"
    then have "2 ^ bits a \<le> (2 :: nat) ^ (bits d - 1)" by simp
    with bits_upper [OF assms(1)] d(2) assms(3) show False by simp
  qed
  have "val a < 2 ^ bits a" by (rule bits_upper [OF assms(1)])
  also have "\<dots> = 2 ^ Suc (bits a - bits d) * 2 ^ (bits d - 1)"
    using le d(1) by (simp flip: power_add power_Suc)
  also have "\<dots> \<le> 2 ^ Suc (bits a - bits d) * val d"
    using d(2) by (rule mult_le_mono2)
  finally show "val a < 2 ^ Suc (bits a - bits d) * val d" .
  assume "val a < 2 ^ k * val d"
  also have "\<dots> < 2 ^ k * 2 ^ bits d"
    using bits_upper [OF assms(2)] by simp
  finally have *: "val a < 2 ^ (k + bits d)" by (simp add: power_add)
  have "2 ^ (bits a - 1) \<le> val a"
    using bits_lower [OF assms(1)] assms(3,4) by simp
  from le_less_trans [OF this *] have "bits a - 1 < k + bits d"
    by (rule power_less_imp_less_exp [rotated]) simp
  then show "bits a - bits d \<le> k" by simp
qed

end

interpretation big: exact_nat big_val big_ok big_from big_bits big_shl big_cmp big_add big_sub big_mul
proof unfold_locales
  show "big_ok (big_from n) \<and> big_val (big_from n) = n" if "n < 2 ^ 128" for n
    using that by (simp add: big_val_from) (simp add: big_from_def)
  show "big_ok (big_add a b) \<and> big_val (big_add a b) = big_val a + big_val b" for a b
    by (simp add: big_add_val) (simp add: big_add_def)
  show "big_ok (big_sub a b) \<and> big_val (big_sub a b) = big_val a - big_val b"
    if "big_val b \<le> big_val a" for a b
    using that by (simp add: big_sub_val) (simp add: big_sub_def)
  show "0 < big_bits a \<and> 2 ^ (big_bits a - 1) \<le> big_val a" if "big_ok a" "0 < big_val a" for a
    using big_bits_val(2) [OF that] .
qed (simp_all add: big_bits_val(1) big_shl_val big_shl_ok big_cmp_val big_mul_val)

section \<open>Division\<close>

text \<open>Below \<open>2 ^ 127\<close> the quotient assertion cannot fail.\<close>

lemma divrem_small_val:
  assumes "big_ok a" and "big_ok d" and "0 < big_val d" and "big_val a < 2 ^ 127 * big_val d"
  shows "\<exists>r. divrem_small a d = Some (big_val a div big_val d, r)
    \<and> big_ok r \<and> big_val r = big_val a mod big_val d"
proof (cases "big_val a < big_val d")
  case True
  then show ?thesis
    using assms by (simp add: divrem_small_def big_cmp_val)
next
  case False
  let ?top = "big_bits a - big_bits d"
  have top: "?top < 128"
    using big.quotient_bits(2) [OF assms(1,2) _ assms(3,4)] False by simp
  have "big_val a < 2 ^ Suc ?top * big_val d"
    using big.quotient_bits(1) [OF assms(1,2) _ assms(3)] False by simp
  from big.long_division [of divrem_loop d a "Suc ?top" 0, OF _ _ assms(2,1) this] obtain r where
    "divrem_loop (Suc ?top) d a 0 = (big_val a div big_val d, r)" "big_ok r"
    "big_val r = big_val a mod big_val d" by (auto simp: Let_def)
  then show ?thesis
    using False top assms by (simp add: divrem_small_def big_cmp_val Let_def del: divrem_loop.simps)
qed

end
