(* ===== verification/Ptx_Fmt.thy ===== *)
theory Ptx_Fmt
  imports Ptx_Big
begin

text \<open>
  The formats and the rounding of \<open>crates/e5r-ptx/src/fp.rs\<close>: \<open>RMode\<close>, \<open>Fmt\<close> with its
  bit-pattern classification, the exact values \<open>Q\<close>, and \<open>round\<close> with its helpers
  \<open>round_at\<close> and \<open>encode\<close>. Bit patterns are \<open>u64\<close> words; the exponents (\<open>i64\<close>) are
  integers and the significands (\<open>u128\<close>) naturals, which stay far from their machine bounds.
\<close>

section \<open>Rounding modes and formats\<close>

datatype rmode = Rn | Rz | Rm | Rp

record fmt =
  fb :: nat
  eb :: nat

definition F32_fmt :: fmt where "F32_fmt = \<lparr>fb = 23, eb = 8\<rparr>"
definition F64_fmt :: fmt where "F64_fmt = \<lparr>fb = 52, eb = 11\<rparr>"

definition f_bias :: "fmt \<Rightarrow> int" where "f_bias f = 2 ^ (eb f - 1) - 1"
definition f_emin :: "fmt \<Rightarrow> int" where "f_emin f = 1 - f_bias f"
definition f_emax :: "fmt \<Rightarrow> int" where "f_emax f = f_bias f"
definition f_sign_bit :: "fmt \<Rightarrow> u64" where "f_sign_bit f = push_bit (eb f + fb f) 1"
definition f_exp_max :: "fmt \<Rightarrow> u64" where "f_exp_max f = push_bit (eb f) 1 - 1"
definition f_sgn :: "fmt \<Rightarrow> u64 \<Rightarrow> bool" where "f_sgn f x \<longleftrightarrow> x AND f_sign_bit f \<noteq> 0"
definition f_bexp :: "fmt \<Rightarrow> u64 \<Rightarrow> u64" where "f_bexp f x = drop_bit (fb f) x AND f_exp_max f"
definition f_frac :: "fmt \<Rightarrow> u64 \<Rightarrow> u64" where "f_frac f x = x AND (push_bit (fb f) 1 - 1)"

definition f_is_nan :: "fmt \<Rightarrow> u64 \<Rightarrow> bool" where
  "f_is_nan f x \<longleftrightarrow> f_bexp f x = f_exp_max f \<and> f_frac f x \<noteq> 0"
definition f_is_inf :: "fmt \<Rightarrow> u64 \<Rightarrow> bool" where
  "f_is_inf f x \<longleftrightarrow> f_bexp f x = f_exp_max f \<and> f_frac f x = 0"
definition f_is_zero :: "fmt \<Rightarrow> u64 \<Rightarrow> bool" where
  "f_is_zero f x \<longleftrightarrow> f_bexp f x = 0 \<and> f_frac f x = 0"
definition f_is_sub :: "fmt \<Rightarrow> u64 \<Rightarrow> bool" where
  "f_is_sub f x \<longleftrightarrow> f_bexp f x = 0 \<and> f_frac f x \<noteq> 0"

definition f_zero :: "fmt \<Rightarrow> bool \<Rightarrow> u64" where
  "f_zero f neg = (if neg then f_sign_bit f else 0)"
definition f_inf :: "fmt \<Rightarrow> bool \<Rightarrow> u64" where
  "f_inf f neg = f_zero f neg + push_bit (fb f) (f_exp_max f)"
definition f_max_fin :: "fmt \<Rightarrow> bool \<Rightarrow> u64" where
  "f_max_fin f neg = f_zero f neg + push_bit (fb f) (f_exp_max f - 1) + (push_bit (fb f) 1 - 1)"
definition f_one :: "fmt \<Rightarrow> u64" where
  "f_one f = push_bit (fb f) (word_of_int (f_bias f))"
definition f_qnan :: "fmt \<Rightarrow> u64" where
  "f_qnan f = push_bit (fb f) (f_exp_max f) + push_bit (fb f - 1) 1"

text \<open>Mantissa and exponent of a finite pattern.\<close>

definition f_me :: "fmt \<Rightarrow> u64 \<Rightarrow> u64 \<times> int" where
  "f_me f x = (if f_bexp f x = 0 then (f_frac f x, f_emin f - int (fb f))
     else (f_frac f x + push_bit (fb f) 1, uint (f_bexp f x) - f_bias f - int (fb f)))"

section \<open>Exact values\<close>

record qval =
  q_neg :: bool
  q_n :: big
  q_d :: big
  q_e :: int

definition q_is_zero :: "qval \<Rightarrow> bool" where "q_is_zero q \<longleftrightarrow> big_is_zero (q_n q)"

text \<open>\<open>(A, B)\<close> with \<open>|q| / 2^k = A / B\<close>.\<close>

definition q_scaled :: "qval \<Rightarrow> int \<Rightarrow> big \<times> big" where
  "q_scaled q k = (let s = q_e q - k
     in if 0 \<le> s then (big_shl (q_n q) (nat s), q_d q) else (q_n q, big_shl (q_d q) (nat (- s))))"

definition q_lt_pow2 :: "qval \<Rightarrow> int \<Rightarrow> bool" where
  "q_lt_pow2 q k = (case q_scaled q k of (a, b) \<Rightarrow> big_cmp a b = Less)"

definition q_ilog2 :: "qval \<Rightarrow> int" where
  "q_ilog2 q = (let k = int (big_bits (q_n q)) - int (big_bits (q_d q))
     in if q_lt_pow2 q (k + q_e q) then k + q_e q - 1 else k + q_e q)"

definition f_to_q :: "fmt \<Rightarrow> u64 \<Rightarrow> qval" where
  "f_to_q f x = (case f_me f x of (m, e) \<Rightarrow>
     \<lparr>q_neg = f_sgn f x, q_n = big_from (unat m), q_d = big_from 1, q_e = e\<rparr>)"

definition f_flush :: "fmt \<Rightarrow> bool \<Rightarrow> u64 \<Rightarrow> u64" where
  "f_flush f ftz x = (if ftz \<and> f_is_sub f x then f_zero f (f_sgn f x) else x)"

definition f_neg_bits :: "fmt \<Rightarrow> u64 \<Rightarrow> u64" where "f_neg_bits f x = x XOR f_sign_bit f"

section \<open>Rounding\<close>

text \<open>\<open>|q|\<close> rounded at last-place exponent \<open>qe\<close>; the division can panic.\<close>

definition f_round_at :: "fmt \<Rightarrow> rmode \<Rightarrow> qval \<Rightarrow> int \<Rightarrow> nat panics" where
  "f_round_at f m q qe = (case q_scaled q qe of (a, b) \<Rightarrow> do {
     (k, r) \<leftarrow> divrem_small a b;
     let r2 = big_shl r 1;
     let up = (case m of
         Rn \<Rightarrow> (case big_cmp r2 b of Greater \<Rightarrow> True | Equal \<Rightarrow> k mod 2 = 1 | Less \<Rightarrow> False)
       | Rz \<Rightarrow> False
       | Rm \<Rightarrow> q_neg q \<and> \<not> big_is_zero r
       | Rp \<Rightarrow> \<not> q_neg q \<and> \<not> big_is_zero r);
     Some (k + of_bool up) })"

text \<open>The two normalising loops of \<open>encode\<close>; the first asserts that no set bit is shifted out.\<close>

function enc_shr :: "nat \<Rightarrow> nat \<Rightarrow> int \<Rightarrow> (nat \<times> int) panics" where
  "enc_shr p mm qe = (if 2 ^ p \<le> mm then
     (if mm mod 2 = 0 then enc_shr p (mm div 2) (qe + 1) else None)
     else Some (mm, qe))"
  by pat_completeness auto
termination
proof (relation "measure (\<lambda>(p, mm, qe). mm)")
  fix p mm :: nat and qe :: int
  assume "2 ^ p \<le> mm"
  then have "0 < mm" by (cases mm) auto
  then show "((p, mm div 2, qe + 1), p, mm, qe) \<in> measure (\<lambda>(p, mm, qe). mm)" by simp
qed simp

function enc_shl :: "nat \<Rightarrow> int \<Rightarrow> nat \<Rightarrow> int \<Rightarrow> nat \<times> int" where
  "enc_shl w lo mm qe = (if mm < 2 ^ w \<and> lo < qe then enc_shl w lo (mm * 2) (qe - 1) else (mm, qe))"
  by pat_completeness auto
termination
  by (relation "measure (\<lambda>(w, lo, mm, qe). nat (qe - lo))") auto

declare enc_shr.simps [simp del] enc_shl.simps [simp del]

definition f_encode :: "fmt \<Rightarrow> bool \<Rightarrow> nat \<Rightarrow> int \<Rightarrow> u64 panics" where
  "f_encode f neg mm qe = do {
     (mm, qe) \<leftarrow> enc_shr (fb f + 1) mm qe;
     let (mm, qe) = enc_shl (fb f) (f_emin f - int (fb f)) mm qe;
     let s = f_zero f neg;
     Some (if mm < 2 ^ fb f then s + word_of_nat mm
       else s + push_bit (fb f) (word_of_int (qe + int (fb f) + f_bias f))
              + (word_of_nat mm - push_bit (fb f) 1)) }"

definition f_round :: "fmt \<Rightarrow> rmode \<Rightarrow> bool \<Rightarrow> qval \<Rightarrow> bool \<Rightarrow> u64 panics" where
  "f_round f m ftz q zneg = (if q_is_zero q then Some (f_zero f zneg)
     else let neg = q_neg q; e = q_ilog2 q; w = int (fb f); p = fb f + 1 in do {
       pm \<leftarrow> f_round_at f m q (e - w);
       if e > f_emax f \<or> (e = f_emax f \<and> pm = 2 ^ p) then
         Some (if m = Rn \<or> (m = Rm \<and> neg) \<or> (m = Rp \<and> \<not> neg) then f_inf f neg else f_max_fin f neg)
       else if ftz \<and> e < f_emin f \<and> \<not> (e = f_emin f - 1 \<and> pm = 2 ^ p) then Some (f_zero f neg)
       else do {
         let qe = max e (f_emin f) - w;
         mm \<leftarrow> f_round_at f m q qe;
         if mm = 0 then Some (f_zero f neg) else f_encode f neg mm qe } })"

definition f_gt_one :: "fmt \<Rightarrow> u64 \<Rightarrow> bool" where "f_gt_one f x \<longleftrightarrow> f_one f < x"

definition f_sat :: "fmt \<Rightarrow> bool \<Rightarrow> u64 option \<Rightarrow> u64 option" where
  "f_sat f on r = (if \<not> on then r else
     (case r of None \<Rightarrow> Some 0
      | Some x \<Rightarrow> if f_is_nan f x \<or> f_sgn f x then Some 0
               else if f_is_inf f x \<or> f_gt_one f x then Some (f_one f) else Some x))"

definition add_q :: "qval \<Rightarrow> qval \<Rightarrow> qval" where
  "add_q a b = (let e = min (q_e a) (q_e b);
      x = big_shl (q_n a) (nat (q_e a - e));
      y = big_shl (q_n b) (nat (q_e b - e));
      (neg, n) = (if q_neg a = q_neg b then (q_neg a, big_add x y)
        else (case big_cmp x y of Less \<Rightarrow> (q_neg b, big_sub y x) | _ \<Rightarrow> (q_neg a, big_sub x y)))
    in \<lparr>q_neg = neg, q_n = n, q_d = big_from 1, q_e = e\<rparr>)"

definition mul_q :: "qval \<Rightarrow> qval \<Rightarrow> qval panics" where
  "mul_q a b = do {
     n \<leftarrow> big_mul (q_n a) (q_n b);
     d \<leftarrow> big_mul (q_d a) (q_d b);
     Some \<lparr>q_neg = (q_neg a \<noteq> q_neg b), q_n = n, q_d = d, q_e = q_e a + q_e b\<rparr> }"

end
