(* ===== verification/Ptx_Round.thy ===== *)
theory Ptx_Round
  imports Ptx_Fmt
begin

text \<open>
  What rounding means: the real value of a bit pattern and of an exact \<open>Q\<close>, the rounding of a
  real to an integer in each mode, and \<open>frnd\<close>, the rounding of a real to a format with an
  unbounded exponent range above. The theorem of this file is that the limb computation
  \<open>f_round\<close> never panics and returns the pattern of \<open>frnd\<close> of the represented real, or the
  overflow result of the mode.
\<close>

section \<open>Rounding a real to an integer\<close>

text \<open>The interface every mode satisfies; error bounds and grid rounding follow from it.\<close>

locale int_rounding =
  fixes R :: "real \<Rightarrow> int"
  assumes exact: "R (of_int n) = n"
    and mono: "x \<le> y \<Longrightarrow> R x \<le> R y"
begin

lemma between: "\<lfloor>x\<rfloor> \<le> R x \<and> R x \<le> \<lceil>x\<rceil>"
  using mono [of "of_int \<lfloor>x\<rfloor>" x] mono [of x "of_int \<lceil>x\<rceil>"] by (simp add: exact)

lemma error_less_1: "\<bar>of_int (R x) - x\<bar> < 1"
  using between [of x] by linarith

lemma le_int: "x \<le> of_int n \<Longrightarrow> R x \<le> n"
  using mono [of x "of_int n"] by (simp add: exact)

lemma ge_int: "of_int n \<le> x \<Longrightarrow> n \<le> R x"
  using mono [of "of_int n" x] by (simp add: exact)

text \<open>Rounding to the multiples of a positive unit \<open>u\<close>.\<close>

lemma grid_error: "0 < u \<Longrightarrow> \<bar>of_int (R (x / u)) * u - x\<bar> < u"
proof -
  assume u: "0 < u"
  have "of_int (R (x / u)) * u - x = (of_int (R (x / u)) - x / u) * u"
    using u by (simp add: field_simps)
  then have "\<bar>of_int (R (x / u)) * u - x\<bar> = \<bar>of_int (R (x / u)) - x / u\<bar> * u"
    using u by (simp add: abs_mult)
  also have "\<dots> < 1 * u"
    using u error_less_1 [of "x / u"] by (intro mult_strict_right_mono)
  finally show ?thesis by simp
qed

lemma grid_mono: "0 < u \<Longrightarrow> x \<le> y \<Longrightarrow> of_int (R (x / u)) * u \<le> of_int (R (y / u)) * u"
  by (intro mult_right_mono) (simp_all add: mono divide_right_mono)

lemma grid_exact: "0 < u \<Longrightarrow> of_int (R (of_int k * u / u)) * u = of_int k * u"
  by (simp add: exact)

end

locale nearest_rounding = int_rounding +
  assumes half: "\<bar>of_int (R x) - x\<bar> \<le> 1 / 2"
begin

lemma nearest: "\<bar>of_int (R x) - x\<bar> \<le> \<bar>of_int n - x\<bar>"
proof (cases "n = R x")
  case False
  then have "1 \<le> \<bar>of_int n - of_int (R x) :: real\<bar>"
    by (metis of_int_1_le_iff of_int_abs of_int_diff zero_less_abs_iff int_one_le_iff_zero_less right_minus_eq)
  with half [of x] show ?thesis by linarith
qed simp

end

definition rne :: "real \<Rightarrow> int" where
  "rne x = (let k = \<lfloor>x\<rfloor>; r = x - of_int k
     in if r > 1 / 2 \<or> (r = 1 / 2 \<and> odd k) then k + 1 else k)"

definition rnd_int :: "rmode \<Rightarrow> real \<Rightarrow> int" where
  "rnd_int m x = (case m of Rn \<Rightarrow> rne x | Rz \<Rightarrow> if x < 0 then \<lceil>x\<rceil> else \<lfloor>x\<rfloor> | Rm \<Rightarrow> \<lfloor>x\<rfloor> | Rp \<Rightarrow> \<lceil>x\<rceil>)"

lemma rne_floor: "rne x = \<lfloor>x\<rfloor> \<or> rne x = \<lfloor>x\<rfloor> + 1"
  by (simp add: rne_def Let_def)

lemma rne_mono: "x \<le> y \<Longrightarrow> rne x \<le> rne y"
proof -
  assume xy: "x \<le> y"
  then have fl: "\<lfloor>x\<rfloor> \<le> \<lfloor>y\<rfloor>" by (rule floor_mono)
  show ?thesis
  proof (cases "\<lfloor>x\<rfloor> = \<lfloor>y\<rfloor>")
    case True
    with xy show ?thesis by (auto simp: rne_def Let_def)
  next
    case False
    with fl rne_floor [of x] rne_floor [of y] show ?thesis by linarith
  qed
qed

lemma rne_half: "\<bar>of_int (rne x) - x\<bar> \<le> 1 / 2"
  unfolding rne_def Let_def by (cases "x - of_int \<lfloor>x\<rfloor> > 1 / 2") (simp_all; linarith)+

lemma trunc_mono: "x \<le> y \<Longrightarrow> (if x < 0 then \<lceil>x\<rceil> else \<lfloor>x\<rfloor>) \<le> (if y < 0 then \<lceil>y\<rceil> else \<lfloor>y :: real\<rfloor>)"
  by (auto simp: floor_mono ceiling_mono intro: order_trans [of _ "0 :: int"])

interpretation rnd: int_rounding "rnd_int m" for m
proof unfold_locales
  show "rnd_int m (of_int n) = n" for n
    by (cases m) (simp_all add: rnd_int_def rne_def)
  show "rnd_int m x \<le> rnd_int m y" if "x \<le> y" for x y
    using that trunc_mono [OF that]
    by (cases m) (simp_all add: rnd_int_def rne_mono floor_mono ceiling_mono)
qed

interpretation rnd_nearest: nearest_rounding "rnd_int Rn"
  using rne_half by unfold_locales (simp add: rnd_int_def)

text \<open>The symmetric view of the source: the magnitude is rounded, knowing the sign.\<close>

definition rnd_mag :: "rmode \<Rightarrow> bool \<Rightarrow> real \<Rightarrow> nat" where
  "rnd_mag m neg x = nat (case m of Rn \<Rightarrow> rne x | Rz \<Rightarrow> \<lfloor>x\<rfloor>
     | Rm \<Rightarrow> if neg then \<lceil>x\<rceil> else \<lfloor>x\<rfloor> | Rp \<Rightarrow> if neg then \<lfloor>x\<rfloor> else \<lceil>x\<rceil>)"

lemma rne_minus: "rne (- x) = - rne x"
proof (cases "x = of_int \<lfloor>x\<rfloor>")
  case True
  then obtain n :: int where "x = of_int n" by blast
  then show ?thesis by (simp add: rne_def Let_def flip: of_int_minus)
next
  case False
  then have "\<lfloor>- x\<rfloor> = - \<lfloor>x\<rfloor> - 1"
    by (simp add: floor_minus ceiling_altdef)
  then show ?thesis
    by (auto simp: rne_def Let_def)
qed

lemma rnd_int_mag: "0 \<le> x \<Longrightarrow> rnd_int m (if neg then - x else x) = (if neg then - int (rnd_mag m neg x) else int (rnd_mag m neg x))"
proof -
  assume x: "0 \<le> x"
  have "0 \<le> rne x" using rne_mono [OF x] by (simp add: rne_def)
  with x show ?thesis
    by (cases m) (auto simp: rnd_int_def rnd_mag_def rne_minus ceiling_minus floor_minus)
qed

section \<open>Values and the rounding of reals to a format\<close>

text \<open>The condition on a format under which the word arithmetic of \<open>Fmt\<close> fits 64 bits.\<close>

definition fmt_ok :: "fmt \<Rightarrow> bool" where
  "fmt_ok f \<longleftrightarrow> 1 \<le> fb f \<and> 2 \<le> eb f \<and> eb f + fb f \<le> 63"

lemma fmt_ok_F32 [simp]: "fmt_ok F32_fmt" and fmt_ok_F64 [simp]: "fmt_ok F64_fmt"
  by (simp_all add: fmt_ok_def F32_fmt_def F64_fmt_def)

definition q_ok :: "qval \<Rightarrow> bool" where
  "q_ok q \<longleftrightarrow> big_ok (q_n q) \<and> big_ok (q_d q) \<and> 0 < big_val (q_d q)"

definition q_mag :: "qval \<Rightarrow> real" where
  "q_mag q = real (big_val (q_n q)) / real (big_val (q_d q)) * 2 powi q_e q"

definition q_val :: "qval \<Rightarrow> real" where
  "q_val q = (if q_neg q then - q_mag q else q_mag q)"

definition f_finite :: "fmt \<Rightarrow> u64 \<Rightarrow> bool" where
  "f_finite f x \<longleftrightarrow> f_bexp f x \<noteq> f_exp_max f"

definition f_mag :: "fmt \<Rightarrow> u64 \<Rightarrow> real" where
  "f_mag f x = (case f_me f x of (m, e) \<Rightarrow> real (unat m) * 2 powi e)"

definition f_val :: "fmt \<Rightarrow> u64 \<Rightarrow> real" where
  "f_val f x = (if f_sgn f x then - f_mag f x else f_mag f x)"

text \<open>The exponent of the last place of a magnitude, and rounding to that place.\<close>

definition f_lsb :: "fmt \<Rightarrow> real \<Rightarrow> int" where
  "f_lsb f x = max \<lfloor>log 2 \<bar>x\<bar>\<rfloor> (f_emin f) - int (fb f)"

definition frnd :: "fmt \<Rightarrow> rmode \<Rightarrow> real \<Rightarrow> real" where
  "frnd f m x = (if x = 0 then 0
     else of_int (rnd_int m (x / 2 powi f_lsb f x)) * 2 powi f_lsb f x)"

text \<open>The finite patterns reach below \<open>2 powi (emax + 1)\<close>; above it the result overflows.\<close>

definition f_limit :: "fmt \<Rightarrow> real" where "f_limit f = 2 powi (f_emax f + 1)"

definition f_overflow :: "fmt \<Rightarrow> rmode \<Rightarrow> bool \<Rightarrow> u64" where
  "f_overflow f m neg = (if m = Rn \<or> (m = Rm \<and> neg) \<or> (m = Rp \<and> \<not> neg)
     then f_inf f neg else f_max_fin f neg)"

section \<open>Powers of two\<close>

lemma powi_pos [simp]: "0 < (2 :: real) powi k" by simp

lemma powi_add2: "(2 :: real) powi (a + b) = 2 powi a * 2 powi b"
  by (simp add: power_int_add)

lemma powi_diff2: "(2 :: real) powi (a - b) = 2 powi a / 2 powi b"
  by (simp add: power_int_diff)

lemma powi_nat: "(2 :: real) powi int n = 2 ^ n"
  by simp

lemma powi_less_iff [simp]: "(2 :: real) powi a < 2 powi b \<longleftrightarrow> a < b"
  by (metis not_less order.asym power_int_increasing power_int_strict_increasing one_le_numeral one_less_numeral_iff semiring_norm(76) leD)

lemma powi_le_iff [simp]: "(2 :: real) powi a \<le> 2 powi b \<longleftrightarrow> a \<le> b"
  by (metis powi_less_iff not_less)

lemma floor_log2_iff: "0 < x \<Longrightarrow> \<lfloor>log 2 x\<rfloor> = k \<longleftrightarrow> 2 powi k \<le> x \<and> x < 2 powi (k + 1)"
  by (simp add: floor_log_eq_powr_iff powr_real_of_int' del: of_int_add)

section \<open>The exact values of the implementation\<close>

lemma q_mag_nonneg [simp]: "0 \<le> q_mag q"
  by (simp add: q_mag_def)

lemma q_mag_pos: "q_ok q \<Longrightarrow> \<not> q_is_zero q \<Longrightarrow> 0 < q_mag q"
  by (auto simp: q_ok_def q_is_zero_def q_mag_def big_val_eq_0_iff [symmetric])

lemma abs_q_val [simp]: "\<bar>q_val q\<bar> = q_mag q"
  by (simp add: q_val_def)

lemma powi_of_nat: "0 \<le> k \<Longrightarrow> (2 :: real) ^ nat k = 2 powi k"
  by (simp add: power_int_def)

lemma q_scaled_val:
  assumes "q_ok q" and "q_scaled q k = (a, b)"
  shows "big_ok a" and "big_ok b" and "0 < big_val b"
    and "real (big_val a) / real (big_val b) = q_mag q / 2 powi k"
proof -
  have n: "big_ok (q_n q)" and d: "big_ok (q_d q)" "0 < big_val (q_d q)"
    using assms(1) by (simp_all add: q_ok_def)
  have *: "2 powi (q_e q) = 2 powi (q_e q - k) * (2 :: real) powi k"
    by (simp flip: powi_add2)
  have **: "2 powi k = 2 powi (k - q_e q) * (2 :: real) powi (q_e q)"
    by (simp flip: powi_add2)
  show "big_ok a" "big_ok b" "0 < big_val b"
    using assms(2) n d by (auto simp: q_scaled_def Let_def big_shl_ok big_shl_val split: if_splits)
  show "real (big_val a) / real (big_val b) = q_mag q / 2 powi k"
  proof (cases "0 \<le> q_e q - k")
    case True
    then show ?thesis
      using assms(2) n unfolding q_mag_def *
      by (auto simp: q_scaled_def big_shl_val powi_of_nat)
  next
    case False
    then show ?thesis
      using assms(2) d unfolding q_mag_def **
      by (auto simp: q_scaled_def big_shl_val powi_of_nat)
  qed
qed

lemma q_lt_pow2_iff: "q_ok q \<Longrightarrow> q_lt_pow2 q k \<longleftrightarrow> q_mag q < 2 powi k"
proof -
  assume ok: "q_ok q"
  obtain a b where ab: "q_scaled q k = (a, b)" by fastforce
  note v = q_scaled_val [OF ok ab]
  have "q_lt_pow2 q k \<longleftrightarrow> big_val a < big_val b"
    using v by (simp add: q_lt_pow2_def ab big_cmp_val)
  also have "\<dots> \<longleftrightarrow> real (big_val a) / real (big_val b) < 1"
    using v(3) by simp
  also have "\<dots> \<longleftrightarrow> q_mag q < 2 powi k"
    unfolding v(4) by simp
  finally show ?thesis .
qed

lemma q_ilog2_bounds:
  assumes ok: "q_ok q" and nz: "\<not> q_is_zero q"
  shows "2 powi (q_ilog2 q) \<le> q_mag q" and "q_mag q < 2 powi (q_ilog2 q + 1)"
proof -
  let ?N = "big_val (q_n q)" and ?D = "big_val (q_d q)"
  let ?bn = "big_bits (q_n q)" and ?bd = "big_bits (q_d q)"
  define k where "k = int ?bn - int ?bd"
  have okn: "big_ok (q_n q)" and okd: "big_ok (q_d q)" and D: "0 < ?D"
    using ok by (simp_all add: q_ok_def)
  have N: "0 < ?N" using nz big_val_eq_0_iff [OF okn] by (auto simp: q_is_zero_def)
  note bn = big_bits_val [OF okn] and bd = big_bits_val [OF okd]
  have un: "real ?N < 2 powi int ?bn" and ud: "real ?D < 2 powi int ?bd"
    using bn(1) bd(1) by (simp_all flip: of_nat_power_less_of_nat_cancel_iff)
  have "real (2 ^ (?bn - 1)) \<le> real ?N" "real (2 ^ (?bd - 1)) \<le> real ?D"
    using bn(2) [OF N] bd(2) [OF D] by (simp_all only: of_nat_le_iff)
  then have ln: "2 powi (int ?bn - 1) \<le> real ?N" and ld: "2 powi (int ?bd - 1) \<le> real ?D"
    using bn(2) [OF N] bd(2) [OF D] by (simp_all add: of_nat_diff flip: powi_nat)
  have "real ?N < 2 powi (k + 1) * 2 powi (int ?bd - 1)"
    using un by (simp add: k_def flip: powi_add2)
  also have "\<dots> \<le> 2 powi (k + 1) * real ?D"
    using ld by (intro mult_left_mono) simp_all
  finally have up: "real ?N / real ?D < 2 powi (k + 1)"
    using D by (simp add: divide_less_eq)
  have "2 powi (k - 1) * real ?D < 2 powi (k - 1) * 2 powi int ?bd"
    using ud by (intro mult_strict_left_mono) simp_all
  also have "\<dots> = 2 powi (int ?bn - 1)"
    unfolding powi_add2 [symmetric] by (simp add: k_def)
  also have "\<dots> \<le> real ?N" by (rule ln)
  finally have low: "2 powi (k - 1) < real ?N / real ?D"
    using D by (simp add: less_divide_eq)
  have "q_mag q < 2 powi (k + 1) * 2 powi q_e q" and "2 powi (k - 1) * 2 powi q_e q < q_mag q"
    unfolding q_mag_def using up low by (intro mult_strict_right_mono; simp)+
  then have "q_mag q < 2 powi (k + q_e q + 1)" and "2 powi (k + q_e q - 1) < q_mag q"
    by (simp_all add: algebra_simps flip: powi_add2)
  then show "2 powi (q_ilog2 q) \<le> q_mag q" and "q_mag q < 2 powi (q_ilog2 q + 1)"
    using q_lt_pow2_iff [OF ok] by (auto simp: q_ilog2_def Let_def k_def)
qed

lemma q_ilog2_floor: "q_ok q \<Longrightarrow> \<not> q_is_zero q \<Longrightarrow> q_ilog2 q = \<lfloor>log 2 (q_mag q)\<rfloor>"
  using q_ilog2_bounds [of q] floor_log2_iff [OF q_mag_pos] by (metis q_mag_pos)

section \<open>Rounding at a given last place\<close>

lemma div_frac: "0 < b \<Longrightarrow> real a / real b - real_of_int \<lfloor>real a / real b\<rfloor> = real (a mod b) / real b"
proof -
  assume b: "0 < b"
  have "real a = real (a div b) * real b + real (a mod b)"
    by (metis div_mult_mod_eq of_nat_add of_nat_mult)
  moreover have "\<lfloor>real a / real b\<rfloor> = int (a div b)"
    by (simp add: floor_divide_of_nat_eq)
  ultimately show ?thesis using b by (simp add: field_simps)
qed

lemma rne_div: "0 < b \<Longrightarrow> rne (real a / real b)
    = int (a div b) + of_bool (b < 2 * (a mod b) \<or> (2 * (a mod b) = b \<and> odd (a div b)))"
proof -
  assume b: "0 < b"
  have "real (a mod b) / real b > 1 / 2 \<longleftrightarrow> b < 2 * (a mod b)"
    and "real (a mod b) / real b = 1 / 2 \<longleftrightarrow> 2 * (a mod b) = b"
    using b by (auto simp: field_simps)
  then show ?thesis
    unfolding rne_def Let_def div_frac [OF b] by (simp add: floor_divide_of_nat_eq)
qed

lemma ceiling_div: "0 < b \<Longrightarrow> \<lceil>real a / real b\<rceil> = int (a div b) + of_bool (a mod b \<noteq> 0)"
proof -
  assume b: "0 < b"
  have "real a / real b = real_of_int \<lfloor>real a / real b\<rfloor> \<longleftrightarrow> a mod b = 0"
    using div_frac [OF b, of a] b by auto
  then show ?thesis
    by (auto simp: ceiling_altdef floor_divide_of_nat_eq)
qed

lemma nat_less_of_real: "real a < n * real b \<Longrightarrow> n = real m \<Longrightarrow> a < m * b"
  by (simp only: of_nat_mult [symmetric] of_nat_less_iff)

lemma f_round_at_val:
  assumes ok: "q_ok q" and small: "q_mag q / 2 powi qe < 2 ^ 127"
  shows "f_round_at f m q qe = Some (rnd_mag m (q_neg q) (q_mag q / 2 powi qe))"
proof -
  obtain a b where ab: "q_scaled q qe = (a, b)" by fastforce
  let ?a = "big_val a" and ?b = "big_val b"
  note v = q_scaled_val [OF ok ab]
  have "real ?a < 2 ^ 127 * real ?b"
    using small v(3) unfolding v(4) [symmetric] by (simp add: divide_less_eq)
  then have "?a < 2 ^ 127 * ?b"
    by (rule nat_less_of_real) simp
  from divrem_small_val [OF v(1,2,3) this] obtain r where
    r: "divrem_small a b = Some (?a div ?b, r)" "big_ok r" "big_val r = ?a mod ?b" by auto
  have cmp: "big_cmp (big_shl r 1) b = nat_cmp (2 * (?a mod ?b)) ?b"
    using r v(2) by (simp add: big_cmp_val big_shl_ok big_shl_val mult.commute)
  have zero: "big_is_zero r \<longleftrightarrow> ?a mod ?b = 0"
    using r by (simp add: big_val_eq_0_iff [symmetric])
  have up: "(case big_cmp (big_shl r 1) b of Greater \<Rightarrow> True | Equal \<Rightarrow> ?a div ?b mod 2 = 1 | Less \<Rightarrow> False)
      \<longleftrightarrow> ?b < 2 * (?a mod ?b) \<or> (2 * (?a mod ?b) = ?b \<and> odd (?a div ?b))"
    unfolding cmp by (auto simp: nat_cmp_def odd_iff_mod_2_eq_one)
  show ?thesis
    unfolding v(4) [symmetric]
    by (cases m) (simp_all add: f_round_at_def ab r(1) up zero rnd_mag_def rne_div [OF v(3)] ceiling_div [OF v(3)]
      floor_divide_of_nat_eq nat_add_distrib del: One_nat_def)
qed

section \<open>Fields of a bit pattern\<close>

lemma fmt_okD:
  assumes "fmt_ok f"
  shows "1 \<le> fb f" "2 \<le> eb f" "eb f + fb f \<le> 63" "fb f < 64" "eb f < 64" "eb f + fb f < 64"
  using assms by (auto simp: fmt_ok_def)

lemma unat_f_exp_max: "fmt_ok f \<Longrightarrow> unat (f_exp_max f) = 2 ^ eb f - 1"
  unfolding f_exp_max_def by (rule unat_mask_1) (simp add: fmt_okD)

lemma unat_f_bexp: "fmt_ok f \<Longrightarrow> unat (f_bexp f x) = unat x div 2 ^ fb f mod 2 ^ eb f"
  unfolding f_bexp_def f_exp_max_def
  by (subst unat_and_mask) (simp_all add: fmt_okD unat_drop_bit)

lemma unat_f_frac: "fmt_ok f \<Longrightarrow> unat (f_frac f x) = unat x mod 2 ^ fb f"
  unfolding f_frac_def by (subst unat_and_mask) (simp_all add: fmt_okD)

lemma f_sgn_iff: "fmt_ok f \<Longrightarrow> f_sgn f x \<longleftrightarrow> odd (unat x div 2 ^ (eb f + fb f))"
proof -
  assume ok: "fmt_ok f"
  have "f_sgn f x \<longleftrightarrow> bit x (eb f + fb f)"
    unfolding f_sgn_def f_sign_bit_def
    using fmt_okD [OF ok] by (simp add: and_exp_eq_0_iff_not_bit push_bit_eq_mult)
  then show ?thesis by (simp add: bit_iff_odd [symmetric] bit_unsigned_iff)
qed

text \<open>A pattern assembled from a sign, a biased exponent and a fraction.\<close>

definition f_pack :: "fmt \<Rightarrow> bool \<Rightarrow> nat \<Rightarrow> nat \<Rightarrow> nat" where
  "f_pack f neg E F = of_bool neg * 2 ^ (eb f + fb f) + E * 2 ^ fb f + F"

lemma f_pack_less:
  assumes "fmt_ok f" "E < 2 ^ eb f" "F < 2 ^ fb f"
  shows "E * 2 ^ fb f + F < 2 ^ (eb f + fb f)" and "f_pack f neg E F < 2 ^ (eb f + fb f + 1)"
    and "f_pack f neg E F < 2 ^ 64"
proof -
  have "E * 2 ^ fb f + F < (E + 1) * 2 ^ fb f" using assms(3) by simp
  also have "\<dots> \<le> 2 ^ eb f * 2 ^ fb f" using assms(2) by (intro mult_le_mono1) simp
  finally show less: "E * 2 ^ fb f + F < 2 ^ (eb f + fb f)" by (simp add: power_add)
  then show *: "f_pack f neg E F < 2 ^ (eb f + fb f + 1)" by (cases neg) (simp_all add: f_pack_def)
  have "(2 :: nat) ^ (eb f + fb f + 1) \<le> 2 ^ 64"
    using assms(1) by (intro power_increasing) (auto simp: fmt_ok_def)
  with * show "f_pack f neg E F < 2 ^ 64" by linarith
qed

lemma f_pack_fields:
  assumes ok: "fmt_ok f" and "E < 2 ^ eb f" "F < 2 ^ fb f" and x: "unat x = f_pack f neg E F"
  shows "f_sgn f x = neg" and "unat (f_bexp f x) = E" and "unat (f_frac f x) = F"
proof -
  note less = f_pack_less(1) [OF assms(1-3)]
  have "unat x div 2 ^ (eb f + fb f) = of_bool neg"
    using less by (cases neg) (simp_all add: x f_pack_def add.assoc)
  then show "f_sgn f x = neg" by (simp add: f_sgn_iff [OF ok])
  have "unat x div 2 ^ fb f = of_bool neg * 2 ^ eb f + E"
    using assms(3) by (cases neg) (simp_all add: x f_pack_def power_add flip: distrib_right)
  then show "unat (f_bexp f x) = E"
    using assms(2) by (cases neg) (simp_all add: unat_f_bexp [OF ok])
  show "unat (f_frac f x) = F"
    using assms(3) by (cases neg) (simp_all add: unat_f_frac [OF ok] x f_pack_def power_add flip: distrib_right)
qed

section \<open>Encoding\<close>

lemma enc_shr_val:
  "mm \<le> 2 ^ p \<Longrightarrow> 1 \<le> p \<Longrightarrow> enc_shr p mm qe = Some (if mm = 2 ^ p then (2 ^ (p - 1), qe + 1) else (mm, qe))"
proof -
  assume mm: "mm \<le> 2 ^ p" and p: "1 \<le> p"
  have e: "(2 :: nat) ^ p = 2 * 2 ^ (p - 1)" using p by (cases p) auto
  have stop: "enc_shr p (2 ^ (p - 1)) (qe + 1) = Some (2 ^ (p - 1), qe + 1)"
    using e by (subst enc_shr.simps) simp
  show ?thesis
  proof (cases "mm = 2 ^ p")
    case True
    then show ?thesis using e stop by (subst enc_shr.simps) simp
  next
    case False
    then show ?thesis using mm by (subst enc_shr.simps) simp
  qed
qed

lemma enc_shl_val:
  assumes "0 < mm" and "mm < 2 ^ (w + 1)" and "lo \<le> qe" and "enc_shl w lo mm qe = (mm', qe')"
  shows "real mm' * 2 powi qe' = real mm * 2 powi qe" and "0 < mm'" and "mm' < 2 ^ (w + 1)" and "lo \<le> qe'"
    and "2 ^ w \<le> mm' \<or> qe' = lo"
  using assms
proof (induction w lo mm qe rule: enc_shl.induct)
  case (1 w lo mm qe)
  {
    case 1
    then show ?case using "1.IH" by (cases "mm < 2 ^ w \<and> lo < qe") (auto simp: enc_shl.simps [of w lo mm] powi_diff2)
  next
    case 2
    then show ?case using "1.IH" by (cases "mm < 2 ^ w \<and> lo < qe") (auto simp: enc_shl.simps [of w lo mm])
  next
    case 3
    then show ?case using "1.IH" by (cases "mm < 2 ^ w \<and> lo < qe") (auto simp: enc_shl.simps [of w lo mm])
  next
    case 4
    then show ?case using "1.IH" by (cases "mm < 2 ^ w \<and> lo < qe") (auto simp: enc_shl.simps [of w lo mm])
  next
    case 5
    then show ?case using "1.IH" by (cases "mm < 2 ^ w \<and> lo < qe") (auto simp: enc_shl.simps [of w lo mm])
  }
qed

lemma f_bias_pow: "fmt_ok f \<Longrightarrow> 2 * f_bias f = 2 ^ eb f - 2" and f_bias_ge: "fmt_ok f \<Longrightarrow> 1 \<le> f_bias f"
proof -
  assume ok: "fmt_ok f"
  then obtain k where k: "eb f = Suc (Suc k)"
    by (metis add_2_eq_Suc fmt_okD(2) le_Suc_ex)
  show "2 * f_bias f = 2 ^ eb f - 2" by (simp add: f_bias_def k)
  have "1 \<le> (2 :: int) ^ k" by simp
  moreover have "f_bias f = 2 * 2 ^ k - 1" by (simp add: f_bias_def k)
  ultimately show "1 \<le> f_bias f" by linarith
qed

lemma exp_max_ge: "fmt_ok f \<Longrightarrow> (4 :: nat) \<le> 2 ^ eb f"
  using power_increasing [of 2 "eb f" "2 :: nat"] fmt_okD(2) [of f] by simp

lemma unat_f_zero: "fmt_ok f \<Longrightarrow> unat (f_zero f neg) = of_bool neg * 2 ^ (eb f + fb f)"
  using unat_push_bit_1 [of "eb f + fb f", where ?'a = 64] fmt_okD(6) [of f]
  by (simp add: f_zero_def f_sign_bit_def del: push_bit_of_1)

text \<open>The value of a pattern from its fields.\<close>

lemma f_mag_fields:
  assumes ok: "fmt_ok f" and E: "unat (f_bexp f x) = E" and F: "unat (f_frac f x) = F"
  shows "f_mag f x = (if E = 0 then real F * 2 powi (f_emin f - int (fb f))
    else (real F + 2 ^ fb f) * 2 powi (int E - f_bias f - int (fb f)))"
proof -
  have "F < 2 ^ fb f" using F unat_f_frac [OF ok, of x]
    by (metis mod_less_divisor zero_less_numeral zero_less_power)
  moreover have "2 ^ fb f + 2 ^ fb f \<le> (2 :: nat) ^ 64"
    using power_increasing [of "fb f + 1" 64 "2 :: nat"] fmt_okD [OF ok] by simp
  ultimately have "unat (f_frac f x + push_bit (fb f) 1) = F + 2 ^ fb f"
    using fmt_okD [OF ok] by (subst unat_add_small) (simp_all add: F unat_push_bit_1 del: push_bit_of_1)
  moreover have "f_bexp f x = 0 \<longleftrightarrow> E = 0"
    using E by (simp add: word_eq_iff_unat)
  moreover have "uint (f_bexp f x) = int E"
    by (simp flip: E)
  ultimately show ?thesis
    using F by (simp add: f_mag_def f_me_def del: push_bit_of_1 of_nat_unat)
qed

lemma encode_correct:
  assumes ok: "fmt_ok f" and mm: "0 < mm" "mm \<le> 2 ^ (fb f + 1)" and qe: "f_emin f - int (fb f) \<le> qe"
    and lim: "real mm * 2 powi qe < f_limit f"
  obtains r where "f_encode f neg mm qe = Some r" and "f_finite f r" and "f_sgn f r = neg"
    and "f_mag f r = real mm * 2 powi qe" and "unat r < 2 ^ (eb f + fb f + 1)"
proof -
  let ?w = "fb f" and ?lo = "f_emin f - int (fb f)"
  define mm1 qe1 where "mm1 = (if mm = 2 ^ (?w + 1) then 2 ^ ?w else mm)"
    and "qe1 = (if mm = 2 ^ (?w + 1) then qe + 1 else qe)"
  have shr: "enc_shr (?w + 1) mm qe = Some (mm1, qe1)"
    using enc_shr_val [of mm "?w + 1" qe] mm(2) by (simp add: mm1_def qe1_def)
  have v1: "real mm1 * 2 powi qe1 = real mm * 2 powi qe"
    by (simp add: mm1_def qe1_def powi_add2)
  have mm1: "0 < mm1" "mm1 < 2 ^ (?w + 1)" "?lo \<le> qe1"
    using mm qe by (auto simp: mm1_def qe1_def)
  obtain mm2 qe2 where shl: "enc_shl ?w ?lo mm1 qe1 = (mm2, qe2)" by fastforce
  note e2 = enc_shl_val [OF mm1 shl]
  have v2: "real mm2 * 2 powi qe2 = real mm * 2 powi qe" using e2(1) v1 by simp
  have w64: "(2 :: nat) ^ (?w + 1) \<le> 2 ^ 64"
    using fmt_okD [OF ok] by (intro power_increasing) auto
  show thesis
  proof (cases "mm2 < 2 ^ ?w")
    case True
    then have lo: "qe2 = ?lo" using e2(5) by auto
    let ?r = "f_zero f neg + word_of_nat mm2"
    have pack: "f_pack f neg 0 mm2 < 2 ^ 64"
      using True by (intro f_pack_less(3) [OF ok]) simp_all
    have r: "unat ?r = f_pack f neg 0 mm2"
      using pack True w64 by (subst unat_add_small) (simp_all add: unat_f_zero [OF ok] unat_of_nat_small f_pack_def)
    note fields = f_pack_fields [OF ok _ True r, simplified]
    show thesis
    proof (rule that)
      show "f_encode f neg mm qe = Some ?r"
        using True by (simp add: f_encode_def shr [simplified] shl)
      show "f_finite f ?r"
        using fields(2) exp_max_ge [OF ok] unat_f_exp_max [OF ok] by (auto simp: f_finite_def word_eq_iff_unat)
      show "f_sgn f ?r = neg" by (rule fields(1))
      show "f_mag f ?r = real mm * 2 powi qe"
        using f_mag_fields [OF ok fields(2,3)] v2 lo by simp
      show "unat ?r < 2 ^ (eb f + fb f + 1)"
        unfolding r using True by (intro f_pack_less(2) [OF ok]) simp_all
    qed
  next
    case False
    define E where "E = nat (qe2 + int ?w + f_bias f)"
    define F where "F = mm2 - 2 ^ ?w"
    have "2 powi (int ?w + qe2) \<le> real mm2 * 2 powi qe2"
      using False by (simp add: powi_add2)
    also have "\<dots> < 2 powi (f_emax f + 1)" using v2 lim by (simp add: f_limit_def)
    finally have "int ?w + qe2 < f_emax f + 1" by simp
    then have up: "int ?w + qe2 \<le> f_bias f" by (simp add: f_emax_def)
    have low: "1 \<le> qe2 + int ?w + f_bias f" using e2(4) by (simp add: f_emin_def)
    have E: "int E = qe2 + int ?w + f_bias f" "0 < E"
      using low by (simp_all add: E_def)
    have "int E + 2 \<le> 2 ^ eb f" using up E(1) f_bias_pow [OF ok] by linarith
    then have E2: "E + 2 \<le> 2 ^ eb f"
      by (metis (mono_tags) of_nat_add of_nat_le_iff of_nat_numeral of_nat_power)
    have F: "F < 2 ^ ?w" "mm2 = F + 2 ^ ?w" using e2(3) False by (auto simp: F_def)
    define W :: u64 where "W = push_bit ?w (word_of_int (qe2 + int ?w + f_bias f))"
    define G :: u64 where "G = word_of_nat mm2 - push_bit ?w 1"
    let ?r = "f_zero f neg + W + G"
    have pack: "f_pack f neg E F < 2 ^ 64"
      using E2 F by (intro f_pack_less(3) [OF ok]) simp_all
    have "(2 :: nat) ^ eb f \<le> 2 ^ 64"
      using fmt_okD [OF ok] by (intro power_increasing) auto
    then have E64: "E < 2 ^ 64" using E2 by linarith
    have "W = push_bit ?w (word_of_nat E)"
      by (simp only: W_def E(1) [symmetric] of_int_of_nat_eq)
    then have W: "unat W = E * 2 ^ ?w"
      using pack E64 by (simp add: unat_push_bit unat_of_nat f_pack_def)
    have "G = word_of_nat F"
      using F by (simp add: G_def push_bit_eq_mult)
    then have G: "unat G = F"
      using F w64 by (simp add: unat_of_nat_small)
    have r: "unat ?r = f_pack f neg E F"
      using pack by (simp add: unat_word_ariths unat_f_zero [OF ok] W G f_pack_def)
    have E_less: "E < 2 ^ eb f" using E2 by simp
    note fields = f_pack_fields [OF ok E_less F(1) r]
    show thesis
    proof (rule that)
      show "f_encode f neg mm qe = Some ?r"
        using False by (simp add: f_encode_def shr [simplified] shl W_def G_def)
      show "f_finite f ?r"
        using fields(2) E2 unat_f_exp_max [OF ok] by (auto simp: f_finite_def word_eq_iff_unat)
      show "f_sgn f ?r = neg" by (rule fields(1))
      show "f_mag f ?r = real mm * 2 powi qe"
        using f_mag_fields [OF ok fields(2,3)] v2 E F by simp
      show "unat ?r < 2 ^ (eb f + fb f + 1)"
        unfolding r using E_less F(1) by (rule f_pack_less(2) [OF ok])
    qed
  qed
qed

section \<open>The rounding of an exact value\<close>

lemma rnd_mag_le: "0 \<le> x \<Longrightarrow> x \<le> real n \<Longrightarrow> rnd_mag m neg x \<le> n"
  using rnd_int_mag [of x m neg] rnd.le_int [of x "int n" m] rnd.ge_int [of "- int n" "- x" m]
  by (cases neg) simp_all

lemma rnd_mag_ge: "real n \<le> x \<Longrightarrow> n \<le> rnd_mag m neg x"
  using rnd_int_mag [of x m neg] rnd.ge_int [of "int n" x m] rnd.le_int [of "- x" "- int n" m]
  by (cases neg) simp_all

text \<open>Rounding to the precision of a format with no bound on the exponent (\<open>precRoundQ\<close>).\<close>

definition prnd :: "fmt \<Rightarrow> rmode \<Rightarrow> real \<Rightarrow> real" where
  "prnd f m x = (let u = 2 powi (\<lfloor>log 2 \<bar>x\<bar>\<rfloor> - int (fb f)) in of_int (rnd_int m (x / u)) * u)"

lemma grid_q_val:
  assumes "q_ok q"
  shows "of_int (rnd_int m (q_val q / 2 powi l)) * 2 powi l
    = (if q_neg q then - 1 else 1) * (real (rnd_mag m (q_neg q) (q_mag q / 2 powi l)) * 2 powi l)"
  using rnd_int_mag [of "q_mag q / 2 powi l" m "q_neg q"]
  by (cases "q_neg q") (simp_all add: q_val_def)

text \<open>The quantities \<open>f_round\<close> computes on the way, and what is known of them.\<close>

definition rounding_step :: "fmt \<Rightarrow> rmode \<Rightarrow> qval \<Rightarrow> int \<Rightarrow> int \<Rightarrow> nat \<Rightarrow> nat \<Rightarrow> bool" where
  "rounding_step f m q e l pm mm \<longleftrightarrow> fmt_ok f \<and> q_ok q \<and> \<not> q_is_zero q
     \<and> e = q_ilog2 q \<and> l = f_lsb f (q_val q)
     \<and> pm = rnd_mag m (q_neg q) (q_mag q / 2 powi (e - int (fb f)))
     \<and> mm = rnd_mag m (q_neg q) (q_mag q / 2 powi l)"

lemma rounding_stepD:
  assumes "rounding_step f m q e l pm mm"
  shows "fmt_ok f" and "q_ok q" and "\<not> q_is_zero q"
    and "2 powi e \<le> q_mag q" and "q_mag q < 2 powi (e + 1)"
    and "l = max e (f_emin f) - int (fb f)" and "q_val q \<noteq> 0"
    and "\<bar>frnd f m (q_val q)\<bar> = real mm * 2 powi l"
    and "\<bar>prnd f m (q_val q)\<bar> = real pm * 2 powi (e - int (fb f))"
    and "frnd f m (q_val q) = (if q_neg q then - 1 else 1) * (real mm * 2 powi l)"
proof -
  show ok: "fmt_ok f" and qok: "q_ok q" and nz: "\<not> q_is_zero q"
    using assms by (simp_all add: rounding_step_def)
  show "2 powi e \<le> q_mag q" and "q_mag q < 2 powi (e + 1)"
    using assms q_ilog2_bounds [OF qok nz] by (simp_all add: rounding_step_def)
  show "l = max e (f_emin f) - int (fb f)"
    using assms q_ilog2_floor [OF qok nz] by (simp add: rounding_step_def f_lsb_def)
  show v: "q_val q \<noteq> 0"
    using q_mag_pos [OF qok nz] by (simp add: q_val_def)
  show fr: "frnd f m (q_val q) = (if q_neg q then - 1 else 1) * (real mm * 2 powi l)"
    using v assms grid_q_val [OF qok, of m l] by (auto simp: frnd_def rounding_step_def)
  show "\<bar>frnd f m (q_val q)\<bar> = real mm * 2 powi l"
    by (simp add: fr abs_mult)
  show "\<bar>prnd f m (q_val q)\<bar> = real pm * 2 powi (e - int (fb f))"
    using assms grid_q_val [OF qok, of m "e - int (fb f)"] q_ilog2_floor [OF qok nz]
    by (auto simp: prnd_def Let_def rounding_step_def abs_mult)
qed

lemma scaled_bounds:
  assumes "rounding_step f m q e l pm mm"
  shows "2 ^ fb f \<le> q_mag q / 2 powi (e - int (fb f))" and "q_mag q / 2 powi (e - int (fb f)) < 2 ^ (fb f + 1)"
    and "q_mag q / 2 powi l \<le> q_mag q / 2 powi (e - int (fb f))"
proof -
  note D = rounding_stepD [OF assms]
  have "2 ^ fb f * 2 powi (e - int (fb f)) = (2 :: real) powi e"
    by (simp add: powi_diff2)
  with D(4) show "2 ^ fb f \<le> q_mag q / 2 powi (e - int (fb f))"
    by (simp add: le_divide_eq)
  have "2 ^ (fb f + 1) * 2 powi (e - int (fb f)) = (2 :: real) powi (e + 1)"
    by (simp add: powi_diff2 powi_add2)
  with D(5) show "q_mag q / 2 powi (e - int (fb f)) < 2 ^ (fb f + 1)"
    by (simp add: divide_less_eq)
  show "q_mag q / 2 powi l \<le> q_mag q / 2 powi (e - int (fb f))"
    by (intro divide_left_mono) (simp_all add: D(6))
qed

lemma pm_bounds:
  assumes "rounding_step f m q e l pm mm"
  shows "2 ^ fb f \<le> pm" and "pm \<le> 2 ^ (fb f + 1)" and "mm \<le> 2 ^ (fb f + 1)"
  using assms scaled_bounds [OF assms] rnd_mag_ge [of "2 ^ fb f" "q_mag q / 2 powi (e - int (fb f))" m "q_neg q"]
    rnd_mag_le [of "q_mag q / 2 powi (e - int (fb f))" "2 ^ (fb f + 1)" m "q_neg q"]
    rnd_mag_le [of "q_mag q / 2 powi l" "2 ^ (fb f + 1)" m "q_neg q"]
  by (simp_all add: rounding_step_def)

lemma mm_le_sub:
  assumes "rounding_step f m q e l pm mm" and sub: "e < f_emin f"
  shows "mm \<le> 2 ^ fb f"
proof -
  note D = rounding_stepD [OF assms(1)]
  have "2 powi (e + 1) \<le> (2 :: real) powi f_emin f" using sub by simp
  with D(5) have "q_mag q \<le> 2 powi f_emin f" by linarith
  also have "\<dots> = 2 ^ fb f * 2 powi l"
    using sub by (simp add: D(6) powi_diff2)
  finally have "q_mag q / 2 powi l \<le> 2 ^ fb f" by (simp add: divide_le_eq)
  then show ?thesis
    using assms rnd_mag_le [of "q_mag q / 2 powi l" "2 ^ fb f" m "q_neg q"] by (simp add: rounding_step_def)
qed

lemma round_at_step:
  assumes "rounding_step f m q e l pm mm"
  shows "f_round_at f m q (e - int (fb f)) = Some pm" and "f_round_at f m q l = Some mm"
proof -
  note D = rounding_stepD [OF assms] and S = scaled_bounds [OF assms]
  have "(2 :: real) ^ (fb f + 1) \<le> 2 ^ 127"
    using fmt_okD [OF D(1)] by (intro power_increasing) auto
  then have *: "q_mag q / 2 powi (e - int (fb f)) < 2 ^ 127"
    using S(2) by linarith
  show "f_round_at f m q (e - int (fb f)) = Some pm"
    using f_round_at_val [OF D(2) *] assms by (simp add: rounding_step_def)
  have "q_mag q / 2 powi l < 2 ^ 127" using S(3) * by linarith
  from f_round_at_val [OF D(2) this] show "f_round_at f m q l = Some mm"
    using assms by (simp add: rounding_step_def)
qed

lemma mag_pow: "real (2 ^ (fb f + 1)) * 2 powi (e - int (fb f)) = 2 powi (e + 1)"
  "real (2 ^ fb f) * 2 powi (e - int (fb f)) = 2 powi e"
  by (simp_all add: powi_diff2 powi_add2)

lemma pm_scaled:
  assumes "rounding_step f m q e l pm mm"
  shows "2 powi e \<le> real pm * 2 powi (e - int (fb f))" and "real pm * 2 powi (e - int (fb f)) \<le> 2 powi (e + 1)"
    and "real pm * 2 powi (e - int (fb f)) = 2 powi (e + 1) \<longleftrightarrow> pm = 2 ^ (fb f + 1)"
  unfolding mag_pow(2) [of f e, symmetric] mag_pow(1) [of f e, symmetric] using pm_bounds [OF assms]
  by (intro mult_right_mono; simp flip: of_nat_power of_nat_mult; fail)+
    (simp only: mult_cancel_right of_nat_eq_iff, simp)

text \<open>The overflow test of the code is the bound on the rounded magnitude.\<close>

lemma overflow_iff:
  assumes "rounding_step f m q e l pm mm"
  shows "e > f_emax f \<or> (e = f_emax f \<and> pm = 2 ^ (fb f + 1)) \<longleftrightarrow> f_limit f \<le> \<bar>frnd f m (q_val q)\<bar>"
proof -
  note D = rounding_stepD [OF assms] and S = pm_scaled [OF assms]
  have bias: "1 \<le> f_bias f" by (rule f_bias_ge [OF D(1)])
  show ?thesis
  proof (cases "e < f_emin f")
    case True
    have "real mm * 2 powi l \<le> 2 ^ fb f * 2 powi l"
      using mm_le_sub [OF assms True] by (intro mult_right_mono) (simp_all flip: of_nat_power)
    also have "\<dots> = 2 powi f_emin f"
      using True by (simp add: D(6) powi_diff2)
    also have "\<dots> < f_limit f"
      using bias by (simp add: f_limit_def f_emin_def f_emax_def)
    finally show ?thesis
      using True bias unfolding D(8) by (auto simp: f_emin_def f_emax_def)
  next
    case False
    then have l': "l = e - int (fb f)" by (simp add: D(6))
    then have pm': "mm = pm" using assms by (simp add: rounding_step_def)
    consider "e > f_emax f" | "e = f_emax f" | "e < f_emax f" by linarith
    then show ?thesis
    proof cases
      case 1
      then have "f_limit f \<le> 2 powi e" by (simp add: f_limit_def)
      then show ?thesis using 1 S(1) unfolding D(8) l' pm' by linarith
    next
      case 2
      then show ?thesis using S(2,3) unfolding D(8) l' pm' f_limit_def by force
    next
      case 3
      then have "2 powi (e + 1) < f_limit f" by (simp add: f_limit_def)
      then show ?thesis using 3 S(2) unfolding D(8) l' pm' by linarith
    qed
  qed
qed

text \<open>The flush-to-zero test is the bound on the value rounded with unbounded exponent.\<close>

lemma tiny_iff:
  assumes "rounding_step f m q e l pm mm"
  shows "e < f_emin f \<and> \<not> (e = f_emin f - 1 \<and> pm = 2 ^ (fb f + 1)) \<longleftrightarrow> \<bar>prnd f m (q_val q)\<bar> < 2 powi f_emin f"
proof -
  note D = rounding_stepD [OF assms] and S = pm_scaled [OF assms]
  consider "f_emin f \<le> e" | "e = f_emin f - 1" | "e < f_emin f - 1" by linarith
  then show ?thesis
  proof cases
    case 1
    then have "2 powi f_emin f \<le> (2 :: real) powi e" by simp
    with 1 S(1) show ?thesis unfolding D(9) by linarith
  next
    case 2
    then show ?thesis using S(2,3) unfolding D(9) by force
  next
    case 3
    then have "2 powi (e + 1) < (2 :: real) powi f_emin f" by simp
    with 3 S(2) show ?thesis unfolding D(9) by linarith
  qed
qed

section \<open>The result of \<open>f_round\<close>\<close>

lemma f_finite_zero:
  assumes "fmt_ok f"
  shows "f_finite f (f_zero f neg)" and "f_mag f (f_zero f neg) = 0" and "f_sgn f (f_zero f neg) = neg"
    and "f_val f (f_zero f neg) = 0" and "unat (f_zero f neg) < 2 ^ (eb f + fb f + 1)"
proof -
  have r: "unat (f_zero f neg) = f_pack f neg 0 0"
    by (simp add: unat_f_zero [OF assms] f_pack_def)
  note fields = f_pack_fields [OF assms _ _ r, simplified]
  show "f_finite f (f_zero f neg)"
    using fields(2) exp_max_ge [OF assms] unat_f_exp_max [OF assms] by (auto simp: f_finite_def word_eq_iff_unat)
  show "f_sgn f (f_zero f neg) = neg" by (rule fields(1))
  show m: "f_mag f (f_zero f neg) = 0"
    using f_mag_fields [OF assms fields(2,3)] by simp
  then show "f_val f (f_zero f neg) = 0" by (simp add: f_val_def)
  show "unat (f_zero f neg) < 2 ^ (eb f + fb f + 1)"
    unfolding r by (intro f_pack_less(2) [OF assms]) simp_all
qed

text \<open>The pattern \<open>r\<close> is the finite value \<open>v\<close> with the given sign, inside the format's width.\<close>

definition f_repr :: "fmt \<Rightarrow> u64 \<Rightarrow> bool \<Rightarrow> real \<Rightarrow> bool" where
  "f_repr f r neg v \<longleftrightarrow> f_finite f r \<and> f_sgn f r = neg \<and> f_val f r = v \<and> unat r < 2 ^ (eb f + fb f + 1)"

definition round_result :: "fmt \<Rightarrow> rmode \<Rightarrow> bool \<Rightarrow> real \<Rightarrow> u64 \<Rightarrow> bool" where
  "round_result f m neg x r \<longleftrightarrow> (if \<bar>frnd f m x\<bar> < f_limit f then f_repr f r neg (frnd f m x)
     else r = f_overflow f m neg)"

lemma f_round_correct:
  assumes ok: "fmt_ok f" and qok: "q_ok q" and nz: "\<not> q_is_zero q"
  shows "\<exists>r. f_round f m False q z = Some r \<and> round_result f m (q_neg q) (q_val q) r"
    and "f_round f m True q z = (if \<bar>prnd f m (q_val q)\<bar> < 2 powi f_emin f \<and> \<bar>frnd f m (q_val q)\<bar> < f_limit f
      then Some (f_zero f (q_neg q)) else f_round f m False q z)"
proof -
  define e l pm mm where "e = q_ilog2 q" and "l = f_lsb f (q_val q)"
    and "pm = rnd_mag m (q_neg q) (q_mag q / 2 powi (e - int (fb f)))"
    and "mm = rnd_mag m (q_neg q) (q_mag q / 2 powi l)"
  have s: "rounding_step f m q e l pm mm"
    using assms by (simp add: rounding_step_def e_def l_def pm_def mm_def)
  note D = rounding_stepD [OF s] and A = round_at_step [OF s]
  have l: "max e (f_emin f) - int (fb f) = l" by (simp add: D(6))
  have round: "f_round f m ftz q z = (if f_limit f \<le> \<bar>frnd f m (q_val q)\<bar> then Some (f_overflow f m (q_neg q))
    else if ftz \<and> \<bar>prnd f m (q_val q)\<bar> < 2 powi f_emin f then Some (f_zero f (q_neg q))
    else if mm = 0 then Some (f_zero f (q_neg q)) else f_encode f (q_neg q) mm l)" for ftz
    unfolding overflow_iff [OF s, symmetric] tiny_iff [OF s, symmetric]
    using nz A l by (auto simp: f_round_def Let_def f_overflow_def simp flip: e_def)
  show "\<exists>r. f_round f m False q z = Some r \<and> round_result f m (q_neg q) (q_val q) r"
  proof (cases "f_limit f \<le> \<bar>frnd f m (q_val q)\<bar>")
    case True
    then show ?thesis by (simp add: round round_result_def)
  next
    case fits: False
    show ?thesis
    proof (cases "mm = 0")
      case True
      then show ?thesis
        using fits D(8,10) f_finite_zero [OF ok] by (simp add: round round_result_def f_repr_def)
    next
      case False
      have "real mm * 2 powi l < f_limit f" using fits D(8) by simp
      then obtain r where "f_encode f (q_neg q) mm l = Some r" "f_finite f r" "f_sgn f r = q_neg q"
        "f_mag f r = real mm * 2 powi l" "unat r < 2 ^ (eb f + fb f + 1)"
        using False pm_bounds(3) [OF s] l by (auto elim: encode_correct [OF ok, of mm l "q_neg q"])
      then show ?thesis
        using fits False D(10) by (auto simp: round round_result_def f_repr_def f_val_def)
    qed
  qed
  show "f_round f m True q z = (if \<bar>prnd f m (q_val q)\<bar> < 2 powi f_emin f \<and> \<bar>frnd f m (q_val q)\<bar> < f_limit f
      then Some (f_zero f (q_neg q)) else f_round f m False q z)"
    by (auto simp: round)
qed

end
