(* ===== verification/Ptx_Fp.thy ===== *)
theory Ptx_Fp
  imports Ptx_Round
begin

text \<open>
  The floating-point operations of \<open>crates/e5r-ptx/src/fp.rs\<close> over bit patterns: \<open>add_core\<close>,
  \<open>fadd\<close>, \<open>fsub\<close>, \<open>fmul\<close>, \<open>ffma\<close>, \<open>fdiv\<close>, \<open>frcp\<close>, \<open>fsqrt\<close>, \<open>fneg\<close>, \<open>fabs\<close>, \<open>fminmax\<close>,
  \<open>fsetp\<close>, \<open>to_int\<close>, \<open>of_int\<close>, \<open>round_integral\<close> and \<open>convert_f\<close>. An operation that rounds
  has a result \<open>u64 option panics\<close>: the outer \<open>None\<close> is a panic of the code (a failed assertion),
  the inner \<open>None\<close> the code's own "some NaN".
\<close>

section \<open>Arithmetic\<close>

definition add_core :: "fmt \<Rightarrow> rmode \<Rightarrow> bool \<Rightarrow> u64 \<Rightarrow> u64 \<Rightarrow> u64 option panics" where
  "add_core f m ftz a b = (
     if f_is_nan f a \<or> f_is_nan f b then Some None
     else if f_is_inf f a \<and> f_is_inf f b then
       (if f_sgn f a = f_sgn f b then Some (Some (f_inf f (f_sgn f a))) else Some None)
     else if f_is_inf f a then Some (Some a)
     else if f_is_inf f b then Some (Some b)
     else let zneg = (if f_is_zero f a \<and> f_is_zero f b \<and> f_sgn f a = f_sgn f b then f_sgn f a else m = Rm)
       in map_option Some (f_round f m ftz (add_q (f_to_q f a) (f_to_q f b)) zneg))"

definition fadd :: "fmt \<Rightarrow> rmode \<Rightarrow> bool \<Rightarrow> bool \<Rightarrow> u64 \<Rightarrow> u64 \<Rightarrow> u64 option panics" where
  "fadd f m ftz sat a b = map_option (f_sat f sat) (add_core f m ftz (f_flush f ftz a) (f_flush f ftz b))"

definition fsub :: "fmt \<Rightarrow> rmode \<Rightarrow> bool \<Rightarrow> bool \<Rightarrow> u64 \<Rightarrow> u64 \<Rightarrow> u64 option panics" where
  "fsub f m ftz sat a b = (let b = f_flush f ftz b;
     b = (if f_is_nan f b then b else f_neg_bits f b)
   in map_option (f_sat f sat) (add_core f m ftz (f_flush f ftz a) b))"

definition fmul :: "fmt \<Rightarrow> rmode \<Rightarrow> bool \<Rightarrow> bool \<Rightarrow> u64 \<Rightarrow> u64 \<Rightarrow> u64 option panics" where
  "fmul f m ftz sat a b = (let a = f_flush f ftz a; b = f_flush f ftz b;
     neg = (f_sgn f a \<noteq> f_sgn f b);
     invalid = (f_is_zero f a \<and> f_is_inf f b \<or> f_is_inf f a \<and> f_is_zero f b)
   in map_option (f_sat f sat) (
     if f_is_nan f a \<or> f_is_nan f b \<or> invalid then Some None
     else if f_is_inf f a \<or> f_is_inf f b then Some (Some (f_inf f neg))
     else do {
       q \<leftarrow> mul_q (f_to_q f a) (f_to_q f b);
       map_option Some (f_round f m ftz q neg) }))"

definition ffma :: "fmt \<Rightarrow> rmode \<Rightarrow> bool \<Rightarrow> bool \<Rightarrow> u64 \<Rightarrow> u64 \<Rightarrow> u64 \<Rightarrow> u64 option panics" where
  "ffma f m ftz sat a b c = (let a = f_flush f ftz a; b = f_flush f ftz b; c = f_flush f ftz c;
     pneg = (f_sgn f a \<noteq> f_sgn f b);
     invalid = (f_is_zero f a \<and> f_is_inf f b \<or> f_is_inf f a \<and> f_is_zero f b)
   in map_option (f_sat f sat) (
     if f_is_nan f a \<or> f_is_nan f b \<or> f_is_nan f c \<or> invalid then Some None
     else if f_is_inf f a \<or> f_is_inf f b then
       (if f_is_inf f c \<and> f_sgn f c \<noteq> pneg then Some None else Some (Some (f_inf f pneg)))
     else if f_is_inf f c then Some (Some c)
     else let zneg = (if (f_is_zero f a \<or> f_is_zero f b) \<and> f_is_zero f c \<and> pneg = f_sgn f c then pneg else m = Rm)
       in do {
         p \<leftarrow> mul_q (f_to_q f a) (f_to_q f b);
         map_option Some (f_round f m ftz (add_q p (f_to_q f c)) zneg) }))"

definition fdiv :: "fmt \<Rightarrow> rmode \<Rightarrow> bool \<Rightarrow> u64 \<Rightarrow> u64 \<Rightarrow> u64 option panics" where
  "fdiv f m ftz a b = (let a = f_flush f ftz a; b = f_flush f ftz b;
     neg = (f_sgn f a \<noteq> f_sgn f b)
   in if f_is_nan f a \<or> f_is_nan f b then Some None
     else if f_is_inf f a \<and> f_is_inf f b \<or> f_is_zero f a \<and> f_is_zero f b then Some None
     else if f_is_inf f a then Some (Some (f_inf f neg))
     else if f_is_inf f b then Some (Some (f_zero f neg))
     else if f_is_zero f b then Some (Some (f_inf f neg))
     else let qa = f_to_q f a; qb = f_to_q f b;
         q = \<lparr>q_neg = neg, q_n = q_n qa, q_d = q_n qb, q_e = q_e qa - q_e qb\<rparr>
       in map_option Some (f_round f m ftz q neg))"

definition frcp :: "fmt \<Rightarrow> rmode \<Rightarrow> bool \<Rightarrow> u64 \<Rightarrow> u64 option panics" where
  "frcp f m ftz a = fdiv f m ftz (f_one f) a"

section \<open>Square root\<close>

text \<open>
  \<open>(n as f64).sqrt() as u128\<close>: the conversion and the square root of the standard library each
  round the exact real once, to nearest, in binary64; the cast truncates. \<open>isqrt\<close> repairs the
  estimate with two loops, whose \<open>u128\<close> products panic when they overflow.
\<close>

definition f64_sqrt_est :: "nat \<Rightarrow> nat" where
  "f64_sqrt_est n = nat \<lfloor>frnd F64_fmt Rn (sqrt (frnd F64_fmt Rn (real n)))\<rfloor>"

definition u128_mul :: "nat \<Rightarrow> nat \<Rightarrow> nat panics" where
  "u128_mul x y = (if x * y < 2 ^ 128 then Some (x * y) else None)"

fun isqrt_down :: "nat \<Rightarrow> nat \<Rightarrow> nat panics" where
  "isqrt_down n x = do {
     xx \<leftarrow> u128_mul x x;
     if n < xx then (case x of 0 \<Rightarrow> None | Suc y \<Rightarrow> isqrt_down n y) else Some x }"

function isqrt_up :: "nat \<Rightarrow> nat \<Rightarrow> nat panics" where
  "isqrt_up n x = (case u128_mul (x + 1) (x + 1) of None \<Rightarrow> None
     | Some xx \<Rightarrow> if xx \<le> n then isqrt_up n (x + 1) else Some x)"
  by pat_completeness auto
termination
proof (relation "measure (\<lambda>(n, x). n - x)")
  fix n x xx :: nat
  assume "u128_mul (x + 1) (x + 1) = Some xx" and "xx \<le> n"
  then have "(x + 1) * (x + 1) \<le> n" by (simp add: u128_mul_def split: if_splits)
  moreover have "x + 1 \<le> (x + 1) * (x + 1)" by simp
  ultimately have "x + 1 \<le> n" by (rule order_trans [rotated])
  then show "((n, x + 1), n, x) \<in> measure (\<lambda>(n, x). n - x)" by simp
qed simp

declare isqrt_down.simps [simp del] isqrt_up.simps [simp del]

definition isqrt :: "nat \<Rightarrow> nat panics" where
  "isqrt n = (if n = 0 then Some 0 else do {
     x \<leftarrow> isqrt_down n (f64_sqrt_est n);
     isqrt_up n x })"

definition fsqrt :: "fmt \<Rightarrow> rmode \<Rightarrow> bool \<Rightarrow> u64 \<Rightarrow> u64 option panics" where
  "fsqrt f m ftz a = (let a = f_flush f ftz a
   in if f_is_nan f a then Some None
     else if f_is_zero f a then Some (Some a)
     else if f_sgn f a then Some None
     else if f_is_inf f a then Some (Some a)
     else let q = f_to_q f a; lg = q_ilog2 q; e = max (lg div 2) (f_emin f) - int (fb f);
         (ya, yb) = q_scaled q (2 * e)
       in do {
         (fl, _) \<leftarrow> divrem_small ya yb;
         k \<leftarrow> isqrt fl;
         let h = big_from (2 * k + 1);
         let lhs = big_shl ya 2;
         hh \<leftarrow> big_mul h h;
         rhs \<leftarrow> big_mul hh yb;
         kk \<leftarrow> big_mul (big_from (k * k)) yb;
         let exact = (big_cmp ya kk = Equal);
         let r = (case m of
             Rn \<Rightarrow> (case big_cmp lhs rhs of Less \<Rightarrow> k | Greater \<Rightarrow> k + 1 | Equal \<Rightarrow> k + k mod 2)
           | Rz \<Rightarrow> k
           | Rm \<Rightarrow> k
           | Rp \<Rightarrow> if exact then k else k + 1);
         map_option Some (f_encode f False r e) })"

section \<open>Sign operations, order and comparison\<close>

definition fneg :: "fmt \<Rightarrow> bool \<Rightarrow> u64 \<Rightarrow> u64 option" where
  "fneg f ftz a = (let a = f_flush f ftz a in if f_is_nan f a then None else Some (f_neg_bits f a))"

definition fabs :: "fmt \<Rightarrow> bool \<Rightarrow> u64 \<Rightarrow> u64 option" where
  "fabs f ftz a = (let a = f_flush f ftz a in if f_is_nan f a then None else Some (a AND NOT (f_sign_bit f)))"

text \<open>Sign-magnitude to a key: \<open>-0\<close> gets \<open>-1\<close>, below the \<open>0\<close> of \<open>+0\<close>.\<close>

definition f_key :: "fmt \<Rightarrow> u64 \<Rightarrow> int" where
  "f_key f x = (let mag = uint (x AND NOT (f_sign_bit f)) in if f_sgn f x then - mag - 1 else mag)"

definition lt_signed :: "fmt \<Rightarrow> u64 \<Rightarrow> u64 \<Rightarrow> bool" where
  "lt_signed f a b \<longleftrightarrow> f_key f a < f_key f b"

definition fminmax :: "fmt \<Rightarrow> bool \<Rightarrow> bool \<Rightarrow> bool \<Rightarrow> u64 \<Rightarrow> u64 \<Rightarrow> u64 option" where
  "fminmax f is_max ftz nan a b = (let a = f_flush f ftz a; b = f_flush f ftz b
   in if f_is_nan f a \<and> f_is_nan f b then None
     else if nan \<and> (f_is_nan f a \<or> f_is_nan f b) then None
     else if f_is_nan f a then Some b
     else if f_is_nan f b then Some a
     else Some (if is_max then (if lt_signed f b a then a else b)
       else if lt_signed f a b then a else b))"

datatype fcmp = FEq | FNe | FLt | FLe | FGt | FGe | FEqu | FNeu | FLtu | FLeu | FGtu | FGeu | FNum | FNan

fun fcmp_name :: "fcmp \<Rightarrow> string" where
  "fcmp_name FEq = ''eq''"
| "fcmp_name FNe = ''ne''"
| "fcmp_name FLt = ''lt''"
| "fcmp_name FLe = ''le''"
| "fcmp_name FGt = ''gt''"
| "fcmp_name FGe = ''ge''"
| "fcmp_name FEqu = ''equ''"
| "fcmp_name FNeu = ''neu''"
| "fcmp_name FLtu = ''ltu''"
| "fcmp_name FLeu = ''leu''"
| "fcmp_name FGtu = ''gtu''"
| "fcmp_name FGeu = ''geu''"
| "fcmp_name FNum = ''num''"
| "fcmp_name FNan = ''nan''"

definition fcmp_from_name :: "string \<Rightarrow> fcmp option" where
  "fcmp_from_name s = (
     if s = ''eq'' then Some FEq
     else if s = ''ne'' then Some FNe
     else if s = ''lt'' then Some FLt
     else if s = ''le'' then Some FLe
     else if s = ''gt'' then Some FGt
     else if s = ''ge'' then Some FGe
     else if s = ''equ'' then Some FEqu
     else if s = ''neu'' then Some FNeu
     else if s = ''ltu'' then Some FLtu
     else if s = ''leu'' then Some FLeu
     else if s = ''gtu'' then Some FGtu
     else if s = ''geu'' then Some FGeu
     else if s = ''num'' then Some FNum
     else if s = ''nan'' then Some FNan
     else None)"

definition int_cmp :: "int \<Rightarrow> int \<Rightarrow> ordering" where
  "int_cmp x y = (if x < y then Less else if x = y then Equal else Greater)"

definition fsetp :: "fmt \<Rightarrow> fcmp \<Rightarrow> bool \<Rightarrow> u64 \<Rightarrow> u64 \<Rightarrow> bool" where
  "fsetp f c ftz a b = (let a = f_flush f ftz a; b = f_flush f ftz b;
     un = (f_is_nan f a \<or> f_is_nan f b);
     ord = (if f_is_zero f a \<and> f_is_zero f b then Equal
       else if \<not> un then int_cmp (f_key f a) (f_key f b) else Equal)
   in (case c of
       FEq \<Rightarrow> \<not> un \<and> ord = Equal
     | FNe \<Rightarrow> \<not> un \<and> ord \<noteq> Equal
     | FLt \<Rightarrow> \<not> un \<and> ord = Less
     | FLe \<Rightarrow> \<not> un \<and> ord \<noteq> Greater
     | FGt \<Rightarrow> \<not> un \<and> ord = Greater
     | FGe \<Rightarrow> \<not> un \<and> ord \<noteq> Less
     | FEqu \<Rightarrow> un \<or> ord = Equal
     | FNeu \<Rightarrow> un \<or> ord \<noteq> Equal
     | FLtu \<Rightarrow> un \<or> ord = Less
     | FLeu \<Rightarrow> un \<or> ord \<noteq> Greater
     | FGtu \<Rightarrow> un \<or> ord = Greater
     | FGeu \<Rightarrow> un \<or> ord \<noteq> Less
     | FNum \<Rightarrow> \<not> un
     | FNan \<Rightarrow> un))"

section \<open>Conversions\<close>

definition round_int :: "fmt \<Rightarrow> rmode \<Rightarrow> u64 \<Rightarrow> int panics" where
  "round_int f m a = (let q = f_to_q f a
   in if q_is_zero q then Some 0
     else if 70 \<le> q_ilog2 q then Some (if q_neg q then - (2 ^ 70) else 2 ^ 70)
     else do {
       mag \<leftarrow> f_round_at f m q 0;
       Some (if q_neg q then - int mag else int mag) })"

definition int_lo :: "bool \<Rightarrow> nat \<Rightarrow> int" where
  "int_lo sgd w = (if sgd then - (2 ^ (w - 1)) else 0)"

definition int_hi :: "bool \<Rightarrow> nat \<Rightarrow> int" where
  "int_hi sgd w = (if sgd then 2 ^ (w - 1) - 1 else 2 ^ w - 1)"

definition to_int :: "fmt \<Rightarrow> rmode \<Rightarrow> bool \<Rightarrow> bool \<Rightarrow> nat \<Rightarrow> u64 \<Rightarrow> u64 panics" where
  "to_int f m ftz sgd w a = (let a = f_flush f ftz a;
     lo = int_lo sgd w; hi = int_hi sgd w;
     enc = (\<lambda>v :: int. word_of_int (v mod 2 ^ w))
   in if f_is_nan f a then Some (if f = F64_fmt \<or> w = 64 then push_bit (w - 1) 1 else 0)
     else if f_is_inf f a then Some (enc (if f_sgn f a then lo else hi))
     else do { v \<leftarrow> round_int f m a; Some (enc (max lo (min hi v))) })"

definition of_int_bits :: "fmt \<Rightarrow> rmode \<Rightarrow> bool \<Rightarrow> int \<Rightarrow> u64 panics" where
  "of_int_bits f m ftz v = f_round f m ftz
     \<lparr>q_neg = (v < 0), q_n = big_from (nat \<bar>v\<bar>), q_d = big_from 1, q_e = 0\<rparr> False"

definition round_integral :: "fmt \<Rightarrow> rmode \<Rightarrow> bool \<Rightarrow> u64 \<Rightarrow> u64 option panics" where
  "round_integral f m ftz a = (let a = f_flush f ftz a
   in if f_is_nan f a then Some None
     else if f_is_inf f a \<or> f_is_zero f a then Some (Some a)
     else let q = f_to_q f a
       in if int (fb f) \<le> q_ilog2 q then Some (Some a)
       else do {
         v \<leftarrow> f_round_at f m q 0;
         if v = 0 then Some (Some (f_zero f (f_sgn f a)))
         else map_option Some (f_encode f (q_neg q) v 0) })"

definition sat_bits :: "fmt \<Rightarrow> bool \<Rightarrow> u64 option \<Rightarrow> u64 option" where
  "sat_bits f on r = f_sat f on r"

definition convert_f :: "fmt \<Rightarrow> fmt \<Rightarrow> rmode \<Rightarrow> bool \<Rightarrow> bool \<Rightarrow> u64 \<Rightarrow> u64 option panics" where
  "convert_f d s m ftz sat a = (let a = f_flush s (ftz \<and> s = F32_fmt) a
   in map_option (f_sat d sat) (
     if f_is_nan s a then Some None
     else if f_is_inf s a then Some (Some (f_inf d (f_sgn s a)))
     else if f_is_zero s a then Some (Some (f_zero d (f_sgn s a)))
     else map_option Some (f_round d m (ftz \<and> d = F32_fmt) (f_to_q s a) (f_sgn s a))))"

end
