(* ===== verification/Ptx_Fp_Ok.thy ===== *)
theory Ptx_Fp_Ok
  imports Ptx_Fp
begin

text \<open>
  The operations of \<open>fp.rs\<close> against real arithmetic. A bit pattern denotes an extended real
  \<open>xval\<close>; the specification of an operation is the exact operation on extended reals followed
  by one rounding \<open>x_result\<close>, which is IEEE 754 with PTX's flushing to zero.
\<close>

section \<open>Extended reals and exact operations\<close>

datatype xval = XNaN | XInf bool | XReal bool real

definition f_xval :: "fmt \<Rightarrow> u64 \<Rightarrow> xval" where
  "f_xval f x = (if f_is_nan f x then XNaN else if f_is_inf f x then XInf (f_sgn f x)
     else XReal (f_sgn f x) (f_val f x))"

text \<open>The sign of \<open>XReal\<close> matters for zeros only: it is the sign of an exact zero result.\<close>

fun x_add :: "rmode \<Rightarrow> xval \<Rightarrow> xval \<Rightarrow> xval" where
  "x_add m XNaN _ = XNaN"
| "x_add m _ XNaN = XNaN"
| "x_add m (XInf s) (XInf t) = (if s = t then XInf s else XNaN)"
| "x_add m (XInf s) (XReal _ _) = XInf s"
| "x_add m (XReal _ _) (XInf t) = XInf t"
| "x_add m (XReal s x) (XReal t y) = XReal (if x = 0 \<and> y = 0 \<and> s = t then s else m = Rm) (x + y)"

fun x_neg :: "xval \<Rightarrow> xval" where
  "x_neg XNaN = XNaN"
| "x_neg (XInf s) = XInf (\<not> s)"
| "x_neg (XReal s x) = XReal (\<not> s) (- x)"

fun x_mul :: "xval \<Rightarrow> xval \<Rightarrow> xval" where
  "x_mul XNaN _ = XNaN"
| "x_mul _ XNaN = XNaN"
| "x_mul (XInf s) (XInf t) = XInf (s \<noteq> t)"
| "x_mul (XInf s) (XReal t y) = (if y = 0 then XNaN else XInf (s \<noteq> t))"
| "x_mul (XReal s x) (XInf t) = (if x = 0 then XNaN else XInf (s \<noteq> t))"
| "x_mul (XReal s x) (XReal t y) = XReal (s \<noteq> t) (x * y)"

fun x_div :: "xval \<Rightarrow> xval \<Rightarrow> xval" where
  "x_div XNaN _ = XNaN"
| "x_div _ XNaN = XNaN"
| "x_div (XInf s) (XInf t) = XNaN"
| "x_div (XInf s) (XReal t y) = XInf (s \<noteq> t)"
| "x_div (XReal s x) (XInf t) = XReal (s \<noteq> t) 0"
| "x_div (XReal s x) (XReal t y) = (if y = 0 then (if x = 0 then XNaN else XInf (s \<noteq> t))
     else XReal (s \<noteq> t) (x / y))"

fun x_sqrt :: "xval \<Rightarrow> xval" where
  "x_sqrt XNaN = XNaN"
| "x_sqrt (XInf s) = (if s then XNaN else XInf False)"
| "x_sqrt (XReal s x) = (if x = 0 then XReal s 0 else if s then XNaN else XReal s (sqrt x))"

text \<open>\<open>p\<close> is the pattern to which the exact real \<open>x\<close> rounds: the signed zero for an exact zero,
  a zero of its sign for a tiny result under \<open>ftz\<close>, the overflow result of the mode, or the
  pattern of \<open>frnd f m x\<close>.\<close>

definition f_rounds :: "fmt \<Rightarrow> rmode \<Rightarrow> bool \<Rightarrow> bool \<Rightarrow> real \<Rightarrow> u64 \<Rightarrow> bool" where
  "f_rounds f m ftz s x p \<longleftrightarrow> (if x = 0 then p = f_zero f s
     else if ftz \<and> \<bar>prnd f m x\<bar> < 2 powi f_emin f \<and> \<bar>frnd f m x\<bar> < f_limit f then p = f_zero f (x < 0)
     else round_result f m (x < 0) x p)"

fun x_result :: "fmt \<Rightarrow> rmode \<Rightarrow> bool \<Rightarrow> xval \<Rightarrow> u64 option \<Rightarrow> bool" where
  "x_result f m ftz XNaN r \<longleftrightarrow> r = None"
| "x_result f m ftz (XInf s) r \<longleftrightarrow> r = Some (f_inf f s)"
| "x_result f m ftz (XReal s x) r \<longleftrightarrow> (\<exists>p. r = Some p \<and> f_rounds f m ftz s x p)"

text \<open>A pattern inside the format's width: what an \<open>.f32\<close> or \<open>.f64\<close> register holds.\<close>

definition f_fits :: "fmt \<Rightarrow> u64 \<Rightarrow> bool" where
  "f_fits f x \<longleftrightarrow> unat x < 2 ^ (eb f + fb f + 1)"

lemma f_rounds_0 [simp]: "f_rounds f m ftz s 0 p \<longleftrightarrow> p = f_zero f s"
  by (simp add: f_rounds_def)

lemma f_fits_iff: "f_fits f x \<longleftrightarrow> take_bit (eb f + fb f + 1) x = x"
  by (simp add: f_fits_def word_eq_iff_unat unsigned_take_bit_eq take_bit_nat_eq_self_iff)

section \<open>The exact values of patterns\<close>

lemma big_ok_from [simp]: "big_ok (big_from x)"
  by (simp add: big_from_def)

lemma big_val_from_1 [simp]: "big_val (big_from 1) = 1"
  by simp

lemma big_val_from_Suc_0 [simp]: "big_val (big_from (Suc 0)) = 1"
  using big_val_from_1 by simp

lemma f_to_q_ok [simp]: "q_ok (f_to_q f x)" and f_to_q_d [simp]: "q_d (f_to_q f x) = big_from 1"
  and f_to_q_neg [simp]: "q_neg (f_to_q f x) = f_sgn f x"
  by (simp_all add: f_to_q_def q_ok_def split: prod.splits)

lemma f_to_q_mag [simp]: "q_mag (f_to_q f x) = f_mag f x"
proof -
  have "unat (w :: u64) < 2 ^ 128" for w
    using unat_lt_exp [of w] by simp
  then show ?thesis
    by (simp add: f_to_q_def q_mag_def f_mag_def split: prod.splits del: of_nat_unat)
qed

lemma f_to_q_val [simp]: "q_val (f_to_q f x) = f_val f x"
  by (simp add: q_val_def f_val_def)

lemma q_is_zero_iff: "q_ok q \<Longrightarrow> q_is_zero q \<longleftrightarrow> q_val q = 0"
  by (auto simp: q_ok_def q_is_zero_def q_val_def q_mag_def big_val_eq_0_iff [symmetric])

lemma q_neg_iff: "q_ok q \<Longrightarrow> q_val q \<noteq> 0 \<Longrightarrow> q_neg q \<longleftrightarrow> q_val q < 0"
  using q_mag_pos [of q] by (auto simp: q_is_zero_iff q_val_def)

lemma f_is_zero_iff: "fmt_ok f \<Longrightarrow> f_is_zero f x \<longleftrightarrow> f_val f x = 0"
proof -
  assume ok: "fmt_ok f"
  have pos: "0 < real n + 2 ^ fb f" for n
    by (meson add_nonneg_pos of_nat_0_le_iff zero_less_numeral zero_less_power)
  show ?thesis
    using f_mag_fields [OF ok refl refl, of x] pos [of "unat (f_frac f x)"]
    by (auto simp: f_is_zero_def f_val_def word_eq_iff_unat simp del: of_nat_unat split: if_splits)
qed

lemma f_class: "f_is_nan f x \<or> f_is_inf f x \<longleftrightarrow> \<not> f_finite f x"
  by (auto simp: f_is_nan_def f_is_inf_def f_finite_def)

lemma f_round_rounds:
  assumes "fmt_ok f" and "q_ok q"
  obtains p where "f_round f m ftz q z = Some p" and "f_rounds f m ftz z (q_val q) p"
proof (cases "q_val q = 0")
  case True
  then have "f_round f m ftz q z = Some (f_zero f z)" "f_rounds f m ftz z (q_val q) (f_zero f z)"
    using assms by (simp_all add: f_round_def q_is_zero_iff f_rounds_def)
  then show ?thesis by (rule that)
next
  case nz: False
  then have z: "\<not> q_is_zero q" by (simp add: q_is_zero_iff assms)
  note R = f_round_correct [OF assms z, of m z]
  obtain r where r: "f_round f m False q z = Some r" "round_result f m (q_neg q) (q_val q) r"
    using R(1) by blast
  show ?thesis
  proof (cases "ftz \<and> \<bar>prnd f m (q_val q)\<bar> < 2 powi f_emin f \<and> \<bar>frnd f m (q_val q)\<bar> < f_limit f")
    case True
    then show ?thesis
      using R(2) nz that [of "f_zero f (q_neg q)"] by (simp add: f_rounds_def q_neg_iff assms)
  next
    case False
    then have "f_round f m ftz q z = Some r" using R(2) r by (cases ftz) auto
    moreover have "f_rounds f m ftz z (q_val q) r"
      unfolding f_rounds_def if_not_P [OF nz] if_not_P [OF False] using nz r(2) by (simp add: q_neg_iff assms)
    ultimately show ?thesis by (rule that)
  qed
qed

lemma add_q_val:
  assumes a: "q_ok a" "big_val (q_d a) = 1" and b: "q_ok b" "big_val (q_d b) = 1"
  shows "q_ok (add_q a b)" and "q_val (add_q a b) = q_val a + q_val b"
proof -
  define e where "e = min (q_e a) (q_e b)"
  define x where "x = big_shl (q_n a) (nat (q_e a - e))"
  define y where "y = big_shl (q_n b) (nat (q_e b - e))"
  have ok: "big_ok (q_n a)" "big_ok (q_n b)" using a b by (simp_all add: q_ok_def)
  have xy: "big_ok x" "big_ok y" by (simp_all add: x_def y_def big_shl_ok ok)
  have vx: "real (big_val x) * 2 powi e = q_mag a" and vy: "real (big_val y) * 2 powi e = q_mag b"
    using ok a(2) b(2)
    by (simp_all add: x_def y_def big_shl_val q_mag_def powi_of_nat e_def mult.assoc flip: powi_add2)
  have add: "add_q a b = (if q_neg a = q_neg b then \<lparr>q_neg = q_neg a, q_n = big_add x y, q_d = big_from 1, q_e = e\<rparr>
      else if big_cmp x y = Less then \<lparr>q_neg = q_neg b, q_n = big_sub y x, q_d = big_from 1, q_e = e\<rparr>
      else \<lparr>q_neg = q_neg a, q_n = big_sub x y, q_d = big_from 1, q_e = e\<rparr>)"
    unfolding add_q_def Let_def e_def [symmetric] x_def [symmetric] y_def [symmetric]
    by (simp split: ordering.split)
  show "q_ok (add_q a b)"
    by (simp add: add q_ok_def big_add_def big_sub_def)
  have less: "big_cmp x y = Less \<longleftrightarrow> big_val x < big_val y"
    using xy by (simp add: big_cmp_val nat_cmp_def)
  show "q_val (add_q a b) = q_val a + q_val b"
    by (auto simp: add less q_val_def [of "\<lparr>q_neg = _, q_n = _, q_d = _, q_e = _\<rparr>"] q_val_def [of a] q_val_def [of b]
        q_mag_def [of "\<lparr>q_neg = _, q_n = _, q_d = _, q_e = _\<rparr>"]
        big_add_val big_sub_val of_nat_diff left_diff_distrib distrib_right vx vy)
qed

lemma mul_q_val:
  assumes "q_ok a" and "q_ok b"
  obtains q where "mul_q a b = Some q" and "q_ok q" and "q_val q = q_val a * q_val b"
    and "big_val (q_d a) = 1 \<Longrightarrow> big_val (q_d b) = 1 \<Longrightarrow> big_val (q_d q) = 1"
proof -
  obtain n where n: "big_mul (q_n a) (q_n b) = Some n" "big_ok n" "big_val n = big_val (q_n a) * big_val (q_n b)"
    using big_mul_val by blast
  obtain d where d: "big_mul (q_d a) (q_d b) = Some d" "big_ok d" "big_val d = big_val (q_d a) * big_val (q_d b)"
    using big_mul_val by blast
  define q where "q = \<lparr>q_neg = (q_neg a \<noteq> q_neg b), q_n = n, q_d = d, q_e = q_e a + q_e b\<rparr>"
  have "q_mag q = q_mag a * q_mag b"
    by (simp add: q_def q_mag_def n d powi_add2)
  then have "q_val q = q_val a * q_val b"
    by (simp add: q_val_def) (auto simp: q_def)
  moreover have "q_ok q" "mul_q a b = Some q"
    using assms n d by (simp_all add: q_def q_ok_def mul_q_def)
  moreover have "big_val (q_d a) = 1 \<Longrightarrow> big_val (q_d b) = 1 \<Longrightarrow> big_val (q_d q) = 1"
    by (simp add: q_def d)
  ultimately show ?thesis using that by blast
qed

section \<open>Patterns and their classes\<close>

lemma f_unpack: "fmt_ok f \<Longrightarrow> f_fits f x \<Longrightarrow> unat x = f_pack f (f_sgn f x) (unat (f_bexp f x)) (unat (f_frac f x))"
proof -
  assume ok: "fmt_ok f" and fits: "f_fits f x"
  have "unat x div 2 ^ (eb f + fb f) < 2"
    using fits by (simp add: f_fits_def less_mult_imp_div_less power_add)
  then consider "unat x div 2 ^ (eb f + fb f) = 0" | "unat x div 2 ^ (eb f + fb f) = 1" by linarith
  then have top: "of_bool (f_sgn f x) = unat x div 2 ^ (eb f + fb f)"
    unfolding f_sgn_iff [OF ok] by cases (simp_all only: even_zero odd_one, simp_all)
  have "unat x mod 2 ^ (eb f + fb f) = 2 ^ fb f * (unat x div 2 ^ fb f mod 2 ^ eb f) + unat x mod 2 ^ fb f"
    using mod_mult2_eq [of "unat x" "2 ^ fb f" "2 ^ eb f"] by (simp add: power_add mult.commute)
  moreover have "unat x = unat x div 2 ^ (eb f + fb f) * 2 ^ (eb f + fb f) + unat x mod 2 ^ (eb f + fb f)"
    by (rule div_mult_mod_eq [symmetric])
  ultimately show ?thesis
    unfolding f_pack_def top unat_f_bexp [OF ok] unat_f_frac [OF ok] by (metis add.assoc mult.commute)
qed

lemma f_eqI:
  assumes "fmt_ok f" "f_fits f x" "f_fits f y" "f_sgn f x = f_sgn f y" "f_bexp f x = f_bexp f y" "f_frac f x = f_frac f y"
  shows "x = y"
  using f_unpack [OF assms(1,2)] f_unpack [OF assms(1,3)] assms(4-6) by (simp add: word_eq_iff_unat)

lemma f_inf_fields:
  assumes ok: "fmt_ok f"
  shows "f_is_inf f (f_inf f s)" and "f_sgn f (f_inf f s) = s" and "f_fits f (f_inf f s)"
proof -
  have e: "unat (f_exp_max f) = 2 ^ eb f - 1" by (rule unat_f_exp_max [OF ok])
  have less: "f_pack f s (2 ^ eb f - 1) 0 < 2 ^ (eb f + fb f + 1)" "f_pack f s (2 ^ eb f - 1) 0 < 2 ^ 64"
    by (rule f_pack_less [OF ok]; simp)+
  have push: "unat (push_bit (fb f) (f_exp_max f)) = (2 ^ eb f - 1) * 2 ^ fb f"
    using less(2) by (subst unat_push_bit_small) (simp_all add: e f_pack_def)
  have u: "unat (f_inf f s) = f_pack f s (2 ^ eb f - 1) 0"
    using less(2) unfolding f_inf_def
    by (subst unat_add_small) (simp_all add: push unat_f_zero [OF ok] f_pack_def)
  note F = f_pack_fields [OF ok _ _ u, simplified]
  show "f_is_inf f (f_inf f s)" "f_sgn f (f_inf f s) = s" "f_fits f (f_inf f s)"
    using F less by (simp_all add: f_is_inf_def word_eq_iff_unat e f_fits_def u)
qed

lemma f_infD:
  assumes "fmt_ok f" "f_fits f x" "f_is_inf f x"
  shows "x = f_inf f (f_sgn f x)"
  using assms f_inf_fields [OF assms(1), of "f_sgn f x"] by (intro f_eqI [OF assms(1,2)]) (auto simp: f_is_inf_def)

lemma f_zero_fields:
  assumes "fmt_ok f"
  shows "f_is_zero f (f_zero f s)" and "f_sgn f (f_zero f s) = s" and "f_fits f (f_zero f s)"
  using f_finite_zero [OF assms, of s] by (simp_all add: f_is_zero_iff [OF assms] f_fits_def)

lemma f_zeroD:
  assumes "fmt_ok f" "f_fits f x" "f_is_zero f x"
  shows "x = f_zero f (f_sgn f x)"
  using assms f_zero_fields [OF assms(1), of "f_sgn f x"] by (intro f_eqI [OF assms(1,2)]) (auto simp: f_is_zero_def)

lemma f_fits_flush: "fmt_ok f \<Longrightarrow> f_fits f x \<Longrightarrow> f_fits f (f_flush f ftz x)"
  by (simp add: f_flush_def f_zero_fields)

lemma f_flush_sgn [simp]: "fmt_ok f \<Longrightarrow> f_sgn f (f_flush f ftz x) = f_sgn f x"
  by (simp add: f_flush_def f_zero_fields)

text \<open>The class of a pattern is the constructor of its extended real.\<close>

lemma f_xval_cases:
  obtains (nan) "f_is_nan f x" "\<not> f_is_inf f x" "f_xval f x = XNaN"
  | (inf) "\<not> f_is_nan f x" "f_is_inf f x" "f_xval f x = XInf (f_sgn f x)"
  | (real) "\<not> f_is_nan f x" "\<not> f_is_inf f x" "f_xval f x = XReal (f_sgn f x) (f_val f x)"
  by (auto simp: f_xval_def f_is_nan_def f_is_inf_def)

lemma f_inf_not_zero: "fmt_ok f \<Longrightarrow> f_is_inf f x \<Longrightarrow> \<not> f_is_zero f x"
  using exp_max_ge [of f] unat_f_exp_max [of f] by (auto simp: f_is_inf_def f_is_zero_def)

section \<open>Addition, multiplication, fused multiply-add, division\<close>

lemma add_core_correct:
  assumes ok: "fmt_ok f" and a: "f_fits f a" and b: "f_fits f b"
  shows "\<exists>r. add_core f m ftz a b = Some r \<and> x_result f m ftz (x_add m (f_xval f a) (f_xval f b)) r"
proof (cases rule: f_xval_cases [of f a])
  case A: real
  show ?thesis
  proof (cases rule: f_xval_cases [of f b])
    case B: real
    define z where "z = (if f_is_zero f a \<and> f_is_zero f b \<and> f_sgn f a = f_sgn f b then f_sgn f a else m = Rm)"
    have q: "q_ok (add_q (f_to_q f a) (f_to_q f b))" "q_val (add_q (f_to_q f a) (f_to_q f b)) = f_val f a + f_val f b"
      by (simp_all add: add_q_val)
    obtain p where "f_round f m ftz (add_q (f_to_q f a) (f_to_q f b)) z = Some p" "f_rounds f m ftz z (f_val f a + f_val f b) p"
      using f_round_rounds [OF ok q(1)] unfolding q(2) .
    then show ?thesis
      using A B by (auto simp: add_core_def z_def f_is_zero_iff ok split: if_splits)
  qed (use A f_infD [OF ok b] in \<open>auto simp: add_core_def\<close>)
next
  case inf
  then show ?thesis
    using f_infD [OF ok a] by (cases rule: f_xval_cases [of f b]) (auto simp: add_core_def)
qed (simp add: add_core_def)

lemma mul_core_correct:
  assumes "fmt_ok f"
  shows "\<exists>q. mul_q (f_to_q f a) (f_to_q f b) = Some q \<and> q_ok q \<and> big_val (q_d q) = 1 \<and> q_val q = f_val f a * f_val f b"
  by (rule mul_q_val [of "f_to_q f a" "f_to_q f b"]) auto

definition fits2 :: "fmt \<Rightarrow> u64 \<Rightarrow> u64 \<Rightarrow> bool" where
  "fits2 f a b \<longleftrightarrow> fmt_ok f \<and> f_fits f a \<and> f_fits f b"

lemma fadd_exact:
  assumes "fits2 f a b"
  shows "\<exists>r. fadd f m ftz sat a b = Some (f_sat f sat r) \<and>
    x_result f m ftz (x_add m (f_xval f (f_flush f ftz a)) (f_xval f (f_flush f ftz b))) r"
  using assms add_core_correct [of f "f_flush f ftz a" "f_flush f ftz b" m ftz]
  by (auto simp: fits2_def fadd_def f_fits_flush)

lemma neg_bits_fields:
  assumes ok: "fmt_ok f"
  shows "f_sgn f (f_neg_bits f x) = (\<not> f_sgn f x)" and "f_bexp f (f_neg_bits f x) = f_bexp f x"
    and "f_frac f (f_neg_bits f x) = f_frac f x" and "f_fits f x \<Longrightarrow> f_fits f (f_neg_bits f x)"
proof -
  have b: "bit (f_neg_bits f x) n = (if n = eb f + fb f then \<not> bit x n else bit x n)" if "n < 64" for n
    using fmt_okD(6) [OF ok] that
    by (auto simp: f_neg_bits_def f_sign_bit_def bit_xor_iff bit_push_bit_iff bit_1_iff simp del: push_bit_of_1)
  have sgn: "f_sgn f y = bit y (eb f + fb f)" for y
    unfolding f_sgn_def f_sign_bit_def
    using fmt_okD(6) [OF ok] by (simp add: and_exp_eq_0_iff_not_bit push_bit_eq_mult)
  show "f_sgn f (f_neg_bits f x) = (\<not> f_sgn f x)"
    using fmt_okD(6) [OF ok] by (simp add: sgn b)
  show "f_bexp f (f_neg_bits f x) = f_bexp f x"
    unfolding f_bexp_def f_exp_max_def push_bit_1_minus_1
    using fmt_okD [OF ok] by (intro bit_word_eqI) (auto simp: bit_and_iff bit_drop_bit_eq bit_mask_iff b)
  show "f_frac f (f_neg_bits f x) = f_frac f x"
    unfolding f_frac_def push_bit_1_minus_1
    using fmt_okD [OF ok] by (intro bit_word_eqI) (auto simp: bit_and_iff bit_mask_iff b)
  show "f_fits f (f_neg_bits f x)" if "f_fits f x"
    using that unfolding f_fits_iff f_neg_bits_def f_sign_bit_def by (simp add: take_bit_xor take_bit_push_bit del: push_bit_of_1)
qed

lemma neg_bits_class:
  assumes "fmt_ok f"
  shows "f_is_nan f (f_neg_bits f x) = f_is_nan f x" and "f_is_inf f (f_neg_bits f x) = f_is_inf f x"
    and "f_val f (f_neg_bits f x) = - f_val f x" and "f_xval f (f_neg_bits f x) = x_neg (f_xval f x)"
proof -
  note N = neg_bits_fields [OF assms, of x]
  show 1: "f_is_nan f (f_neg_bits f x) = f_is_nan f x" "f_is_inf f (f_neg_bits f x) = f_is_inf f x"
    by (simp_all add: f_is_nan_def f_is_inf_def N)
  show "f_val f (f_neg_bits f x) = - f_val f x"
    by (simp add: f_val_def f_mag_def f_me_def N split: prod.splits)
  then show "f_xval f (f_neg_bits f x) = x_neg (f_xval f x)"
    by (simp add: f_xval_def 1 N)
qed

lemma fsub_exact:
  assumes "fits2 f a b"
  shows "\<exists>r. fsub f m ftz sat a b = Some (f_sat f sat r) \<and>
    x_result f m ftz (x_add m (f_xval f (f_flush f ftz a)) (x_neg (f_xval f (f_flush f ftz b)))) r"
proof -
  have ok: "fmt_ok f" and fits: "f_fits f (f_flush f ftz a)" "f_fits f (f_flush f ftz b)"
    using assms by (simp_all add: fits2_def f_fits_flush)
  define b' where "b' = (if f_is_nan f (f_flush f ftz b) then f_flush f ftz b else f_neg_bits f (f_flush f ftz b))"
  have "f_xval f b' = x_neg (f_xval f (f_flush f ftz b))"
    by (simp add: b'_def neg_bits_class ok) (simp add: f_xval_def)
  moreover have "f_fits f b'" using fits neg_bits_fields [OF ok] by (simp add: b'_def)
  moreover have "fsub f m ftz sat a b = map_option (f_sat f sat) (add_core f m ftz (f_flush f ftz a) b')"
    by (simp add: fsub_def b'_def Let_def)
  ultimately show ?thesis using add_core_correct [OF ok fits(1), of b' m ftz] by auto
qed

lemma fmul_exact:
  assumes "fits2 f a b"
  shows "\<exists>r. fmul f m ftz sat a b = Some (f_sat f sat r) \<and>
    x_result f m ftz (x_mul (f_xval f (f_flush f ftz a)) (f_xval f (f_flush f ftz b))) r"
proof -
  have ok: "fmt_ok f" using assms by (simp add: fits2_def)
  define a' b' where "a' = f_flush f ftz a" and "b' = f_flush f ftz b"
  note inf = f_inf_not_zero [OF ok]
  obtain q where q: "mul_q (f_to_q f a') (f_to_q f b') = Some q" "q_ok q" "q_val q = f_val f a' * f_val f b'"
    using mul_core_correct [OF ok, of a' b'] by blast
  obtain p where p: "f_round f m ftz q (f_sgn f a' \<noteq> f_sgn f b') = Some p"
      "f_rounds f m ftz (f_sgn f a' \<noteq> f_sgn f b') (f_val f a' * f_val f b') p"
    using f_round_rounds [OF ok q(2)] unfolding q(3) .
  have "fmul f m ftz sat a b = map_option (f_sat f sat) (
     if f_is_nan f a' \<or> f_is_nan f b' \<or> (f_is_zero f a' \<and> f_is_inf f b' \<or> f_is_inf f a' \<and> f_is_zero f b') then Some None
     else if f_is_inf f a' \<or> f_is_inf f b' then Some (Some (f_inf f (f_sgn f a' \<noteq> f_sgn f b')))
     else Some (Some p))"
    using p(1) by (simp add: fmul_def Let_def q flip: a'_def b'_def)
  then show ?thesis
    unfolding a'_def [symmetric] b'_def [symmetric]
    using p(2) by (cases rule: f_xval_cases [of f a']; cases rule: f_xval_cases [of f b'])
      (auto simp: f_is_zero_iff ok dest: inf)
qed

lemma fma_core:
  assumes ok: "fmt_ok f"
  obtains p r where "mul_q (f_to_q f a) (f_to_q f b) = Some p"
    and "f_round f m ftz (add_q p (f_to_q f c)) z = Some r"
    and "f_rounds f m ftz z (f_val f a * f_val f b + f_val f c) r"
proof -
  obtain q where q: "mul_q (f_to_q f a) (f_to_q f b) = Some q" "q_ok q" "big_val (q_d q) = 1"
      "q_val q = f_val f a * f_val f b"
    using mul_core_correct [OF ok, of a b] by blast
  have s: "q_ok (add_q q (f_to_q f c))" "q_val (add_q q (f_to_q f c)) = f_val f a * f_val f b + f_val f c"
    using add_q_val [OF q(2,3), of "f_to_q f c"] q(4) by simp_all
  show ?thesis using f_round_rounds [OF ok s(1), of m ftz z] q(1) that unfolding s(2) by blast
qed

lemma ffma_exact:
  assumes "fits2 f a b" and "f_fits f c"
  shows "\<exists>r. ffma f m ftz sat a b c = Some (f_sat f sat r) \<and>
    x_result f m ftz (x_add m (x_mul (f_xval f (f_flush f ftz a)) (f_xval f (f_flush f ftz b))) (f_xval f (f_flush f ftz c))) r"
proof -
  have ok: "fmt_ok f" using assms by (simp add: fits2_def)
  define a' b' c' where "a' = f_flush f ftz a" and "b' = f_flush f ftz b" and "c' = f_flush f ftz c"
  have c': "f_fits f c'" using assms ok by (simp add: c'_def f_fits_flush)
  note inf = f_inf_not_zero [OF ok] and ci = f_infD [OF ok c']
  define n where "n = (f_sgn f a' \<noteq> f_sgn f b')"
  define z where "z = (if (f_is_zero f a' \<or> f_is_zero f b') \<and> f_is_zero f c' \<and> n = f_sgn f c' then n else m = Rm)"
  obtain q p where q: "mul_q (f_to_q f a') (f_to_q f b') = Some q" "f_round f m ftz (add_q q (f_to_q f c')) z = Some p"
      "f_rounds f m ftz z (f_val f a' * f_val f b' + f_val f c') p"
    by (rule fma_core [OF ok])
  have cc: "(if f_is_inf f c' then Some (Some c') else X) = (if f_is_inf f c' then Some (Some (f_inf f (f_sgn f c'))) else X)" for X
    using ci by metis
  have *: "ffma f m ftz sat a b c = map_option (f_sat f sat) (
     if f_is_nan f a' \<or> f_is_nan f b' \<or> f_is_nan f c' \<or> (f_is_zero f a' \<and> f_is_inf f b' \<or> f_is_inf f a' \<and> f_is_zero f b') then Some None
     else if f_is_inf f a' \<or> f_is_inf f b' then (if f_is_inf f c' \<and> f_sgn f c' \<noteq> n then Some None else Some (Some (f_inf f n)))
     else if f_is_inf f c' then Some (Some (f_inf f (f_sgn f c')))
     else Some (Some p))"
    unfolding ffma_def Let_def a'_def [symmetric] b'_def [symmetric] c'_def [symmetric] n_def [symmetric] z_def [symmetric] cc
    by (simp add: q)
  have z: "z = (if f_val f a' * f_val f b' = 0 \<and> f_val f c' = 0 \<and> n = f_sgn f c' then n else m = Rm)"
    by (simp add: z_def f_is_zero_iff ok)
  show ?thesis
    unfolding a'_def [symmetric] b'_def [symmetric] c'_def [symmetric] *
    using q(3) inf unfolding z n_def
    by (cases rule: f_xval_cases [of f a']; cases rule: f_xval_cases [of f b']; cases rule: f_xval_cases [of f c'])
      (auto simp: f_is_zero_iff ok)
qed

lemma fdiv_exact:
  assumes "fits2 f a b"
  shows "\<exists>r. fdiv f m ftz a b = Some r \<and>
    x_result f m ftz (x_div (f_xval f (f_flush f ftz a)) (f_xval f (f_flush f ftz b))) r"
proof -
  have ok: "fmt_ok f" using assms by (simp add: fits2_def)
  define a' b' where "a' = f_flush f ftz a" and "b' = f_flush f ftz b"
  note inf = f_inf_not_zero [OF ok]
  define n where "n = (f_sgn f a' \<noteq> f_sgn f b')"
  define q where "q = \<lparr>q_neg = n, q_n = q_n (f_to_q f a'), q_d = q_n (f_to_q f b'), q_e = q_e (f_to_q f a') - q_e (f_to_q f b')\<rparr>"
  have *: "fdiv f m ftz a b = (if f_is_nan f a' \<or> f_is_nan f b' then Some None
     else if f_is_inf f a' \<and> f_is_inf f b' \<or> f_is_zero f a' \<and> f_is_zero f b' then Some None
     else if f_is_inf f a' then Some (Some (f_inf f n))
     else if f_is_inf f b' then Some (Some (f_zero f n))
     else if f_is_zero f b' then Some (Some (f_inf f n))
     else map_option Some (f_round f m ftz q n))"
    by (simp add: fdiv_def Let_def q_def n_def flip: a'_def b'_def)
  have "\<exists>p. f_round f m ftz q n = Some p \<and> f_rounds f m ftz n (f_val f a' / f_val f b') p" if "f_val f b' \<noteq> 0"
  proof -
    have "\<not> q_is_zero (f_to_q f b')" using that by (simp add: q_is_zero_iff)
    then have q: "q_ok q"
      using f_to_q_ok [of f a'] f_to_q_ok [of f b']
      by (simp add: q_ok_def q_def q_is_zero_def) (metis big_val_eq_0_iff gr0I)
    have "q_mag q = q_mag (f_to_q f a') / q_mag (f_to_q f b')"
      by (simp add: q_def q_mag_def powi_diff2 del: f_to_q_mag)
    then have "q_val q = f_val f a' / f_val f b'"
      by (simp add: q_val_def f_val_def) (simp add: q_def n_def)
    then show ?thesis using f_round_rounds [OF ok q, of m ftz n] by auto
  qed
  then show ?thesis
    unfolding a'_def [symmetric] b'_def [symmetric] *
    by (cases rule: f_xval_cases [of f a']; cases rule: f_xval_cases [of f b'])
      (auto simp: f_is_zero_iff ok n_def dest: inf)
qed

end
