(* ===== verification/Ptx_Sqrt.thy ===== *)
theory Ptx_Sqrt
  imports Ptx_Fp_Ok
begin

text \<open>
  The square root of \<open>fp.rs\<close>: \<open>isqrt\<close> is the integer square root, whatever the error of the
  floating-point estimate it starts from, and \<open>fsqrt\<close> is the correctly rounded real square root.
\<close>

section \<open>The integer square root\<close>

lemma isqrt_down_val:
  "x < 2 ^ 64 \<Longrightarrow> \<exists>y\<le>x. isqrt_down n x = Some y \<and> y * y \<le> n"
proof (induction x)
  case (Suc x)
  have "Suc x * Suc x < 2 ^ 64 * 2 ^ 64"
    using Suc.prems by (intro mult_strict_mono) auto
  then have m: "u128_mul (Suc x) (Suc x) = Some (Suc x * Suc x)"
    by (simp add: u128_mul_def)
  show ?case
  proof (cases "n < Suc x * Suc x")
    case True
    then have "isqrt_down n (Suc x) = isqrt_down n x"
      by (subst isqrt_down.simps) (simp add: m del: mult_Suc mult_Suc_right)
    moreover have "x < 2 ^ 64" using Suc.prems by simp
    ultimately show ?thesis using Suc.IH le_SucI by metis
  next
    case False
    then show ?thesis
      by (intro exI [of _ "Suc x"], subst isqrt_down.simps) (simp add: m not_less del: mult_Suc mult_Suc_right)
  qed
qed (subst isqrt_down.simps, simp add: u128_mul_def)

lemma isqrt_up_val:
  "x * x \<le> n \<Longrightarrow> n < 2 ^ 124 \<Longrightarrow> \<exists>y. isqrt_up n x = Some y \<and> y * y \<le> n \<and> n < (y + 1) * (y + 1)"
proof (induction n x rule: isqrt_up.induct)
  case (1 n x)
  have "x < 2 ^ 62"
  proof (rule ccontr)
    assume "\<not> x < 2 ^ 62"
    then have "2 ^ 62 * 2 ^ 62 \<le> x * x" by (intro mult_le_mono) simp_all
    with "1.prems" show False by simp
  qed
  then have "(x + 1) * (x + 1) < 2 ^ 64 * 2 ^ 64" by (intro mult_strict_mono) auto
  then have m: "u128_mul (x + 1) (x + 1) = Some ((x + 1) * (x + 1))" by (simp add: u128_mul_def)
  show ?case
  proof (cases "(x + 1) * (x + 1) \<le> n")
    case True
    then have "isqrt_up n x = isqrt_up n (x + 1)" by (subst isqrt_up.simps) (simp only: m option.case if_True)
    then show ?thesis using "1.IH" [OF m True True] "1.prems"(2) by presburger
  next
    case False
    then show ?thesis using "1.prems"(1) by (intro exI [of _ x], subst isqrt_up.simps) (simp only: m option.case if_False, simp)
  qed
qed

lemma frnd_le:
  assumes "0 \<le> y"
  shows "\<bar>frnd f m y\<bar> \<le> 2 * y + 2 powi f_emin f"
proof (cases "y = 0")
  case False
  with assms have y: "0 < y" by simp
  define u where "u = (2 :: real) powi f_lsb f y"
  have "2 powi \<lfloor>log 2 y\<rfloor> \<le> y" using floor_log2_iff [OF y] by blast
  moreover have "u \<le> 2 powi (max \<lfloor>log 2 y\<rfloor> (f_emin f))"
    using y by (simp add: u_def f_lsb_def)
  moreover have "(2 :: real) powi (max \<lfloor>log 2 y\<rfloor> (f_emin f)) \<le> max (2 powi \<lfloor>log 2 y\<rfloor>) (2 powi f_emin f)"
    by (simp add: max_def)
  ultimately have "u \<le> y + 2 powi f_emin f"
    using powi_pos [of "f_emin f"] y by (smt (verit))
  moreover have "\<bar>frnd f m y - y\<bar> < u"
    using rnd.grid_error [of u m y] y by (simp add: frnd_def u_def)
  ultimately show ?thesis using y by linarith
qed (simp add: frnd_def)

lemma f64_sqrt_est_less: "n < 2 ^ 120 \<Longrightarrow> f64_sqrt_est n < 2 ^ 64"
proof -
  assume n: "n < 2 ^ 120"
  have e: "(2 :: real) powi f_emin F64_fmt \<le> 1"
    by (simp add: F64_fmt_def f_emin_def f_bias_def power_int_def power_le_one)
  define v where "v = frnd F64_fmt Rn (real n)"
  define w where "w = frnd F64_fmt Rn (sqrt \<bar>v\<bar>)"
  have v0: "0 \<le> v"
    using rnd.ge_int [of 0 "real n / 2 powi f_lsb F64_fmt (real n)" Rn] by (simp add: v_def frnd_def)
  have "real n < real (2 ^ 120)" using n by (simp only: of_nat_less_iff)
  then have "\<bar>v\<bar> \<le> 2 ^ 122" using frnd_le [of "real n" F64_fmt Rn] e by (simp add: v_def)
  then have "sqrt \<bar>v\<bar> \<le> sqrt ((2 ^ 61)\<^sup>2)" by (intro real_sqrt_le_mono) simp
  then have "sqrt \<bar>v\<bar> \<le> 2 ^ 61" by simp
  then have "\<bar>w\<bar> < 2 ^ 64" using frnd_le [of "sqrt \<bar>v\<bar>" F64_fmt Rn] e by (simp add: w_def)
  then have "w < 2 ^ 64" by linarith
  then have "\<lfloor>w\<rfloor> < 2 ^ 64" by (simp add: floor_less_iff)
  then have "nat \<lfloor>w\<rfloor> \<le> nat (2 ^ 64 - 1)" by (intro nat_mono) simp
  then have "nat \<lfloor>w\<rfloor> < 2 ^ 64" by simp
  then show ?thesis using v0 by (simp add: f64_sqrt_est_def w_def v_def)
qed

lemma isqrt_val:
  assumes "n < 2 ^ 120"
  shows "\<exists>k. isqrt n = Some k \<and> k * k \<le> n \<and> n < (k + 1) * (k + 1)"
proof (cases "n = 0")
  case False
  obtain y where y: "isqrt_down n (f64_sqrt_est n) = Some y" "y * y \<le> n"
    using isqrt_down_val [OF f64_sqrt_est_less [OF assms], of n] by blast
  have "n < 2 ^ 124" using assms by simp
  from isqrt_up_val [OF y(2) this] y(1) show ?thesis using False by (auto simp: isqrt_def)
qed (simp add: isqrt_def)

section \<open>Finite patterns are below the overflow limit\<close>

lemma f_mag_bounds:
  assumes ok: "fmt_ok f" and fin: "f_finite f x"
  shows "f_mag f x < f_limit f" and "f_mag f x \<noteq> 0 \<Longrightarrow> 2 powi (f_emin f - int (fb f)) \<le> f_mag f x"
    and "f_mag f x \<noteq> 0 \<Longrightarrow> \<not> f_is_sub f x \<Longrightarrow> 2 powi f_emin f \<le> f_mag f x"
proof -
  define E F where "E = unat (f_bexp f x)" and "F = unat (f_frac f x)"
  have mag: "f_mag f x = (if E = 0 then real F * 2 powi (f_emin f - int (fb f))
      else (real F + 2 ^ fb f) * 2 powi (int E - f_bias f - int (fb f)))"
    using f_mag_fields [OF ok] E_def F_def by simp
  have F: "F < 2 ^ fb f" unfolding F_def unat_f_frac [OF ok] by simp
  have "E < 2 ^ eb f" unfolding E_def unat_f_bexp [OF ok] by simp
  moreover have "E \<noteq> 2 ^ eb f - 1"
    using fin unat_f_exp_max [OF ok] by (simp add: f_finite_def E_def word_eq_iff_unat)
  ultimately have "E + 1 < 2 ^ eb f" by linarith
  then have "int (E + 1) < int (2 ^ eb f)" by (simp only: of_nat_less_iff)
  then have "int E < 2 ^ eb f - 1" by simp
  then have E: "int E \<le> 2 * f_bias f" using f_bias_pow [OF ok] by linarith
  have b: "1 \<le> f_bias f" by (rule f_bias_ge [OF ok])
  have real_F: "real F < 2 ^ fb f" using F by (metis of_nat_less_iff of_nat_numeral of_nat_power)
  have step: "(2 :: real) ^ fb f * 2 powi (k - int (fb f)) = 2 powi k" for k
    unfolding powi_nat [symmetric] powi_add2 [symmetric] by simp
  show "f_mag f x < f_limit f"
  proof (cases "E = 0")
    case True
    have "real F * 2 powi (f_emin f - int (fb f)) < 2 ^ fb f * 2 powi (f_emin f - int (fb f))"
      using real_F by (intro mult_strict_right_mono) simp_all
    then have "f_mag f x < 2 powi f_emin f" unfolding mag step using True by simp
    also have "\<dots> < f_limit f" using b by (simp add: f_limit_def f_emin_def f_emax_def)
    finally show ?thesis .
  next
    case False
    have "(real F + 2 ^ fb f) * 2 powi (int E - f_bias f - int (fb f)) < 2 ^ fb f * 2 powi (int E - f_bias f + 1 - int (fb f))"
      using real_F by (simp add: powi_add2 powi_diff2 field_simps)
    also have "\<dots> = 2 powi (int E - f_bias f + 1)" by (rule step)
    also have "\<dots> \<le> f_limit f" using E by (simp add: f_limit_def f_emax_def)
    finally show ?thesis using False mag by simp
  qed
  have norm: "2 powi f_emin f \<le> f_mag f x" if "E \<noteq> 0"
  proof -
    have "(2 :: real) powi f_emin f \<le> 2 powi (int E - f_bias f)" using that by (simp add: f_emin_def)
    also have "\<dots> = 2 ^ fb f * 2 powi (int E - f_bias f - int (fb f))" by (rule step [symmetric])
    also have "\<dots> \<le> (real F + 2 ^ fb f) * 2 powi (int E - f_bias f - int (fb f))" by (intro mult_right_mono) simp_all
    finally show ?thesis using that mag by simp
  qed
  show "2 powi (f_emin f - int (fb f)) \<le> f_mag f x" if nz: "f_mag f x \<noteq> 0"
  proof (cases "E = 0")
    case True
    then have "1 \<le> real F" using nz mag by (cases F) simp_all
    then have "1 * 2 powi (f_emin f - int (fb f)) \<le> real F * 2 powi (f_emin f - int (fb f))"
      by (intro mult_right_mono) simp_all
    then show ?thesis using True mag by simp
  next
    case False
    have "(2 :: real) powi (f_emin f - int (fb f)) \<le> 2 powi f_emin f" by simp
    with norm [OF False] show ?thesis by linarith
  qed
  show "2 powi f_emin f \<le> f_mag f x" if nz: "f_mag f x \<noteq> 0" and "\<not> f_is_sub f x"
  proof (rule norm)
    show "E \<noteq> 0"
    proof
      assume E: "E = 0"
      then have "F \<noteq> 0" using nz by (intro notI) (simp add: mag)
      with E have "f_is_sub f x" by (simp add: f_is_sub_def word_eq_iff_unat flip: E_def F_def)
      with that(2) show False by contradiction
    qed
  qed
qed

section \<open>The rounded square root\<close>

text \<open>The rounding of \<open>s\<close> decided by comparing \<open>s\<^sup>2 = A / B\<close> with squares, as \<open>fsqrt\<close> does.\<close>

lemma rne_sqrt:
  assumes s: "0 \<le> s" and k: "real k \<le> s" "s < real k + 1"
  shows "rne s = (if s\<^sup>2 < (real k + 1 / 2)\<^sup>2 then int k else if s\<^sup>2 = (real k + 1 / 2)\<^sup>2 then int (k + k mod 2) else int (k + 1))"
proof -
  have fl: "\<lfloor>s\<rfloor> = int k" using k by (simp add: floor_eq_iff)
  have "s\<^sup>2 < (real k + 1 / 2)\<^sup>2 \<longleftrightarrow> s < real k + 1 / 2"
    using s power_mono_iff [of "real k + 1 / 2" s 2] by (simp flip: not_le)
  moreover have "s\<^sup>2 = (real k + 1 / 2)\<^sup>2 \<longleftrightarrow> s = real k + 1 / 2"
    using s by (simp add: power2_eq_iff_nonneg)
  ultimately show ?thesis
    by (auto simp: rne_def Let_def fl mod2_eq_if)
qed

lemma ceiling_sqrt: "real k \<le> s \<Longrightarrow> s < real k + 1 \<Longrightarrow> \<lceil>s\<rceil> = (if s\<^sup>2 = (real k)\<^sup>2 then int k else int (k + 1))"
proof -
  assume k: "real k \<le> s" "s < real k + 1"
  then have "0 \<le> s" by (meson of_nat_0_le_iff order_trans)
  then have "s\<^sup>2 = (real k)\<^sup>2 \<longleftrightarrow> s = real k" by (simp add: power2_eq_iff_nonneg)
  moreover have "\<lceil>s\<rceil> = int k + 1" if "s \<noteq> real k" using k that by (simp add: ceiling_eq_iff)
  ultimately show ?thesis by auto
qed

lemma sqrt_floor:
  assumes "0 < B" and "k * k \<le> A div B" and "A div B < (k + 1) * (k + 1)" and s: "0 \<le> s" "s\<^sup>2 = real A / real B"
  shows "real k \<le> s" and "s < real k + 1"
proof -
  have "k * k * B \<le> A" using assms(1,2) by (simp add: less_eq_div_iff_mult_less_eq)
  then have "real (k * k * B) \<le> real A" by (simp only: of_nat_le_iff)
  then have "(real k)\<^sup>2 \<le> s\<^sup>2" using assms(1) unfolding s(2) by (simp add: pos_le_divide_eq power2_eq_square)
  then show "real k \<le> s" using s(1) by (rule power2_le_imp_le)
  have "A < (k + 1) * (k + 1) * B" using assms(1,3) by (simp add: div_less_iff_less_mult)
  then have "real A < real ((k + 1) * (k + 1) * B)" by (simp only: of_nat_less_iff)
  then have "s\<^sup>2 < (real k + 1)\<^sup>2" using assms(1) unfolding s(2) by (simp add: pos_divide_less_eq power2_eq_square algebra_simps)
  then show "s < real k + 1" using s by (simp add: power2_less_imp_less)
qed

lemma f_lsb_sqrt:
  assumes "0 < x"
  shows "f_lsb f (sqrt x) = max (\<lfloor>log 2 x\<rfloor> div 2) (f_emin f) - int (fb f)"
    and "2 powi (\<lfloor>log 2 x\<rfloor> div 2) \<le> sqrt x" and "sqrt x < 2 powi (\<lfloor>log 2 x\<rfloor> div 2 + 1)"
proof -
  define l where "l = \<lfloor>log 2 x\<rfloor> div 2"
  have d: "2 * (k div 2) \<le> k" "k + 1 \<le> 2 * (k div 2 + 1)" for k :: int by presburger+
  have x: "2 powi \<lfloor>log 2 x\<rfloor> \<le> x" "x < 2 powi (\<lfloor>log 2 x\<rfloor> + 1)"
    using floor_log2_iff [OF assms] by blast+
  have "(2 :: real) powi (2 * l) \<le> 2 powi \<lfloor>log 2 x\<rfloor>" "(2 :: real) powi (\<lfloor>log 2 x\<rfloor> + 1) \<le> 2 powi (2 * (l + 1))"
    by (simp_all only: powi_le_iff l_def d)
  moreover have sq: "(2 powi k)\<^sup>2 = (2 :: real) powi (2 * k)" for k
    unfolding power2_eq_square mult_2 by (rule powi_add2 [symmetric])
  ultimately have sqs: "(2 powi l)\<^sup>2 \<le> x" "x < (2 powi (l + 1))\<^sup>2" unfolding sq using x by linarith+
  show b: "2 powi (\<lfloor>log 2 x\<rfloor> div 2) \<le> sqrt x" "sqrt x < 2 powi (\<lfloor>log 2 x\<rfloor> div 2 + 1)"
    unfolding l_def [symmetric]
    by (rule real_le_rsqrt [OF sqs(1)], rule real_less_lsqrt [OF _ sqs(2)]) simp
  have "\<lfloor>log 2 (sqrt x)\<rfloor> = \<lfloor>log 2 x\<rfloor> div 2"
    using b assms by (simp add: floor_log2_iff)
  then show "f_lsb f (sqrt x) = max (\<lfloor>log 2 x\<rfloor> div 2) (f_emin f) - int (fb f)"
    using assms by (simp add: f_lsb_def)
qed

lemma prnd_ge: "2 powi e \<le> y \<Longrightarrow> 2 powi e \<le> prnd f m y"
proof -
  assume e: "2 powi e \<le> y"
  then have y: "0 < y" using powi_pos [of e] by linarith
  define l where "l = \<lfloor>log 2 y\<rfloor>"
  have pr: "prnd f m y = of_int (rnd_int m (y / 2 powi (l - int (fb f)))) * 2 powi (l - int (fb f))"
    using y by (simp add: prnd_def Let_def l_def)
  have l: "2 powi l \<le> y" "y < 2 powi (l + 1)" using floor_log2_iff [OF y] l_def by blast+
  then have "(2 :: real) powi e < 2 powi (l + 1)" using e by linarith
  then have el: "(2 :: real) powi e \<le> 2 powi l" by simp
  have "of_int (2 ^ fb f) \<le> y / 2 powi (l - int (fb f))"
    using l(1) unfolding powi_diff2 powi_nat by (simp add: field_simps)
  then have "2 ^ fb f \<le> rnd_int m (y / 2 powi (l - int (fb f)))" by (rule rnd.ge_int)
  then have "real_of_int (2 ^ fb f) \<le> of_int (rnd_int m (y / 2 powi (l - int (fb f))))"
    by (simp only: of_int_le_iff)
  then have "real_of_int (2 ^ fb f) * 2 powi (l - int (fb f)) \<le> prnd f m y"
    unfolding pr by (intro mult_right_mono) simp_all
  then have "2 powi l \<le> prnd f m y" unfolding powi_diff2 powi_nat by simp
  with el show ?thesis by linarith
qed

text \<open>The significand \<open>fsqrt\<close> computes is the rounded root, counted in units of \<open>2 ^ e\<close>.\<close>

definition sqrt_mag :: "rmode \<Rightarrow> nat \<Rightarrow> bool \<Rightarrow> ordering \<Rightarrow> nat" where
  "sqrt_mag m k exact c = (case m of
      Rn \<Rightarrow> (case c of Less \<Rightarrow> k | Greater \<Rightarrow> k + 1 | Equal \<Rightarrow> k + k mod 2)
    | Rz \<Rightarrow> k
    | Rm \<Rightarrow> k
    | Rp \<Rightarrow> if exact then k else k + 1)"

lemma sqrt_mag_val:
  assumes B: "0 < B" and k: "k * k \<le> A div B" "A div B < (k + 1) * (k + 1)" and s: "0 \<le> s" "s\<^sup>2 = real A / real B"
  shows "int (sqrt_mag m k (nat_cmp A (k * k * B) = Equal) (nat_cmp (A * 2 ^ 2) ((2 * k + 1) * (2 * k + 1) * B))) = rnd_int m s"
proof -
  note ks = sqrt_floor [OF assms]
  have exact: "s\<^sup>2 = (real k)\<^sup>2 \<longleftrightarrow> A = k * k * B"
  proof -
    have "s\<^sup>2 = (real k)\<^sup>2 \<longleftrightarrow> real A = real (k * k * B)" using B unfolding s(2) by (simp add: divide_eq_eq power2_eq_square)
    then show ?thesis by (simp only: of_nat_eq_iff)
  qed
  let ?H = "(2 * k + 1) * (2 * k + 1) * B"
  have H: "(real k + 1 / 2)\<^sup>2 = real ?H / real (4 * B)" using B by (simp add: power2_eq_square field_simps)
  have A: "s\<^sup>2 = real (A * 4) / real (4 * B)" using B by (simp add: s(2))
  have c: "0 < real (4 * B)" using B by simp
  have less: "s\<^sup>2 < (real k + 1 / 2)\<^sup>2 \<longleftrightarrow> A * 4 < ?H" and eq: "s\<^sup>2 = (real k + 1 / 2)\<^sup>2 \<longleftrightarrow> A * 4 = ?H"
    unfolding A H using c by (simp_all only: divide_less_cancel divide_cancel_right of_nat_less_iff of_nat_eq_iff) auto
  have fl: "\<lfloor>s\<rfloor> = int k" using ks by (simp add: floor_eq_iff)
  show ?thesis
    using s(1) unfolding rnd_int_def sqrt_mag_def rne_sqrt [OF s(1) ks] ceiling_sqrt [OF ks] less eq exact fl
    by (cases m) (auto simp: nat_cmp_def split: ordering.split simp del: of_nat_add)
qed

lemma rnd_pos_bounds:
  assumes "1 \<le> s" and "s < 2 ^ n"
  shows "0 < rnd_int m s" and "rnd_int m s \<le> 2 ^ n"
  using rnd.ge_int [of 1 s m] rnd.le_int [of s "2 ^ n" m] assms by simp_all

lemma fsqrt_core:
  assumes ok: "fmt_ok f" and w: "fb f \<le> 52" and x: "x = f_mag f a" "x \<noteq> 0" and fin: "f_finite f a" and sgn: "\<not> f_sgn f a"
    and lg: "lg = q_ilog2 (f_to_q f a)" and e: "e = max (lg div 2) (f_emin f) - int (fb f)"
    and sc: "q_scaled (f_to_q f a) (2 * e) = (A, B)"
  obtains r k p where "divrem_small A B = Some (big_val A div big_val B, r)"
    and "isqrt (big_val A div big_val B) = Some k" and "k < 2 ^ 63" and "k * k < 2 ^ 128"
    and "f_encode f False (sqrt_mag m k (nat_cmp (big_val A) (k * k * big_val B) = Equal)
        (nat_cmp (big_val A * 2 ^ 2) ((2 * k + 1) * (2 * k + 1) * big_val B))) e = Some p"
    and "round_result f m False (sqrt x) p" and "0 < sqrt x" and "\<bar>frnd f m (sqrt x)\<bar> < f_limit f"
proof -
  have x0: "0 < x" using x q_mag_nonneg [of "f_to_q f a"] by simp
  have nz: "\<not> q_is_zero (f_to_q f a)" using x by (simp add: q_is_zero_iff f_val_def)
  have lg': "lg = \<lfloor>log 2 x\<rfloor>" using q_ilog2_floor [OF f_to_q_ok nz] by (simp add: lg x)
  note L = f_lsb_sqrt [OF x0, folded lg']
  have lsb: "f_lsb f (sqrt x) = e" by (simp add: L(1) e)
  define s where "s = sqrt x / 2 powi e"
  note v = q_scaled_val [OF f_to_q_ok sc, unfolded f_to_q_mag x(1) [symmetric]]
  have s0: "0 \<le> s" using x0 by (simp add: s_def)
  have "(2 powi e)\<^sup>2 = (2 :: real) powi (2 * e)"
    unfolding power2_eq_square mult_2 by (rule powi_add2 [symmetric])
  then have s2: "s\<^sup>2 = real (big_val A) / real (big_val B)"
    unfolding v(4) s_def using x0 by (simp add: power_divide)
  have one: "2 powi (f_emin f) \<le> (1 :: real)"
    using f_bias_ge [OF ok] power_int_increasing [of "f_emin f" 0 "2 :: real"] by (simp add: f_emin_def)
  have elo: "f_emin f - int (fb f) \<le> e" by (simp add: e)
  have s1: "1 \<le> s"
  proof -
    have "(2 :: real) powi e \<le> sqrt x"
    proof (cases "f_emin f \<le> lg div 2")
      case True
      have "(2 :: real) powi e \<le> 2 powi (lg div 2)" using True by (simp add: e)
      with L(2) show ?thesis by linarith
    next
      case False
      have "2 powi (f_emin f - int (fb f)) \<le> x" using f_mag_bounds(2) [OF ok fin] x by simp
      moreover have "(2 powi (f_emin f - int (fb f)))\<^sup>2 \<le> 1 * (2 :: real) powi (f_emin f - int (fb f))"
        unfolding power2_eq_square
      proof (rule mult_right_mono)
        have "(2 :: real) powi (f_emin f - int (fb f)) \<le> 2 powi f_emin f" by simp
        with one show "(2 :: real) powi (f_emin f - int (fb f)) \<le> 1" by linarith
      qed simp
      ultimately have "(2 powi (f_emin f - int (fb f)))\<^sup>2 \<le> x" by linarith
      then have "2 powi (f_emin f - int (fb f)) \<le> sqrt x" by (rule real_le_rsqrt)
      then show ?thesis using False by (simp add: e)
    qed
    then show ?thesis by (simp add: s_def)
  qed
  have top: "sqrt x < 2 ^ (fb f + 1) * 2 powi e"
  proof -
    have "(2 :: real) powi (lg div 2 + 1) \<le> 2 powi (max (lg div 2) (f_emin f) + 1)" by simp
    also have "\<dots> = 2 ^ (fb f + 1) * 2 powi e"
      unfolding powi_nat [symmetric] powi_add2 [symmetric] by (simp add: e add.commute)
    finally show ?thesis using L(3) by linarith
  qed
  then have st: "s < 2 ^ (fb f + 1)" by (simp add: s_def pos_divide_less_eq)
  have "s\<^sup>2 < (2 ^ 53)\<^sup>2"
  proof (rule power_strict_mono)
    have "(2 :: real) ^ (fb f + 1) \<le> 2 ^ 53" using w by (intro power_increasing) simp_all
    with st show "s < 2 ^ 53" by linarith
  qed (simp_all add: s0)
  then have AB: "real (big_val A) < 2 ^ 106 * real (big_val B)"
    unfolding s2 using v(3) by (simp add: pos_divide_less_eq)
  then have AB': "big_val A < 2 ^ 106 * big_val B"
    by (rule nat_less_of_real) simp
  then have q: "big_val A div big_val B < 2 ^ 106" using v(3) by (simp add: div_less_iff_less_mult)
  have "big_val A < 2 ^ 127 * big_val B" by (rule less_le_trans [OF AB' mult_le_mono1]) simp
  then obtain r where r: "divrem_small A B = Some (big_val A div big_val B, r)"
    using divrem_small_val [OF v(1,2,3)] by blast
  obtain k where k: "isqrt (big_val A div big_val B) = Some k" "k * k \<le> big_val A div big_val B"
      "big_val A div big_val B < (k + 1) * (k + 1)"
    using isqrt_val [of "big_val A div big_val B"] q by auto
  have kk: "k * k < 2 ^ 128" using k(2) q by simp
  have k63: "k < 2 ^ 63"
  proof (rule ccontr)
    assume "\<not> k < 2 ^ 63"
    then have "2 ^ 63 * 2 ^ 63 \<le> k * k" by (intro mult_le_mono) simp_all
    with k(2) q show False by simp
  qed
  define mm where "mm = sqrt_mag m k (nat_cmp (big_val A) (k * k * big_val B) = Equal)
        (nat_cmp (big_val A * 2 ^ 2) ((2 * k + 1) * (2 * k + 1) * big_val B))"
  have mm: "int mm = rnd_int m s" unfolding mm_def by (rule sqrt_mag_val [OF v(3) k(2,3) s0 s2])
  have fr: "frnd f m (sqrt x) = real mm * 2 powi e"
    using x0 by (simp add: frnd_def lsb flip: s_def mm)
  have "0 < int mm" "int mm \<le> int (2 ^ (fb f + 1))"
    using rnd_pos_bounds [OF s1 st, of m] unfolding mm [symmetric] by simp_all
  then have mmb: "0 < mm" "mm \<le> 2 ^ (fb f + 1)" by (simp_all only: of_nat_le_iff of_nat_0_less_iff)
  have lim: "real mm * 2 powi e < f_limit f"
  proof -
    have "real mm * 2 powi e \<le> 2 ^ (fb f + 1) * 2 powi e"
    proof (rule mult_right_mono)
      show "real mm \<le> 2 ^ (fb f + 1)" using mmb(2) by (metis of_nat_le_iff of_nat_numeral of_nat_power)
    qed simp
    also have "\<dots> = 2 powi (max (lg div 2) (f_emin f) + 1)"
      unfolding powi_nat [symmetric] powi_add2 [symmetric] by (simp add: e add.commute)
    also have "\<dots> < f_limit f"
    proof -
      have "(2 :: real) powi lg \<le> x" using floor_log2_iff [OF x0] lg' by blast
      also have "x < 2 powi (f_emax f + 1)" using f_mag_bounds(1) [OF ok fin] by (simp add: x f_limit_def)
      finally have "lg < f_emax f + 1" by simp
      then show ?thesis using f_bias_ge [OF ok] by (simp add: f_limit_def f_emax_def f_emin_def)
    qed
    finally show ?thesis .
  qed
  obtain p where p: "f_encode f False mm e = Some p" "f_finite f p" "f_sgn f p = False"
      "f_mag f p = real mm * 2 powi e" "unat p < 2 ^ (eb f + fb f + 1)"
    using encode_correct [OF ok mmb elo lim] by blast
  have rr: "round_result f m False (sqrt x) p"
    using p lim mmb by (simp add: round_result_def f_repr_def f_val_def fr)
  show ?thesis
    using x0 lim by (intro that [OF r k(1) k63 kk p(1) [unfolded mm_def] rr]) (simp_all add: fr)
qed

lemma fsqrt_exact:
  assumes ok: "fmt_ok f" and w: "fb f \<le> 52" and fits: "f_fits f a"
  shows "\<exists>r. fsqrt f m ftz a = Some r \<and> x_result f m ftz (x_sqrt (f_xval f (f_flush f ftz a))) r"
proof -
  define a' where "a' = f_flush f ftz a"
  have fits': "f_fits f a'" using f_fits_flush [OF ok fits] by (simp add: a'_def)
  have fold: "fsqrt f m ftz a = (if f_is_nan f a' then Some None else if f_is_zero f a' then Some (Some a')
     else if f_sgn f a' then Some None else if f_is_inf f a' then Some (Some a') else fsqrt f m ftz a)"
    by (simp add: fsqrt_def Let_def flip: a'_def)
  show ?thesis
  proof (cases rule: f_xval_cases [of f a'])
    case nan
    then show ?thesis by (subst fold) (simp flip: a'_def)
  next
    case inf
    then show ?thesis using f_inf_not_zero [OF ok, of a'] f_infD [OF ok fits']
      by (subst fold) (cases "f_sgn f a'"; simp flip: a'_def)
  next
    case real
    show ?thesis
    proof (cases "f_val f a' = 0 \<or> f_sgn f a'")
      case True
      then show ?thesis using real f_zeroD [OF ok fits']
        by (subst fold) (auto simp: f_is_zero_iff ok simp flip: a'_def)
    next
      case False
      define x lg e where "x = f_mag f a'" and "lg = q_ilog2 (f_to_q f a')" and "e = max (lg div 2) (f_emin f) - int (fb f)"
      have x: "x \<noteq> 0" "f_val f a' = x" using False by (auto simp: x_def f_val_def)
      have fin: "f_finite f a'" using real f_class by blast
      obtain A B where AB: "q_scaled (f_to_q f a') (2 * e) = (A, B)" by fastforce
      note v = q_scaled_val [OF f_to_q_ok AB]
      obtain r k p where R: "divrem_small A B = Some (big_val A div big_val B, r)"
        "isqrt (big_val A div big_val B) = Some k" "k < 2 ^ 63" "k * k < 2 ^ 128"
        "f_encode f False (sqrt_mag m k (nat_cmp (big_val A) (k * k * big_val B) = Equal)
          (nat_cmp (big_val A * 2 ^ 2) ((2 * k + 1) * (2 * k + 1) * big_val B))) e = Some p"
        "round_result f m False (sqrt x) p" "0 < sqrt x" "\<bar>frnd f m (sqrt x)\<bar> < f_limit f"
        using fsqrt_core [OF ok w x_def x(1) fin _ lg_def e_def AB] False by metis
      obtain hh where hh: "big_mul (big_from (2 * k + 1)) (big_from (2 * k + 1)) = Some hh" "big_ok hh"
        "big_val hh = (2 * k + 1) * (2 * k + 1)"
        using big_mul_val [of "big_from (2 * k + 1)" "big_from (2 * k + 1)"] R(3) by auto
      obtain rhs where rhs: "big_mul hh B = Some rhs" "big_ok rhs" "big_val rhs = (2 * k + 1) * (2 * k + 1) * big_val B"
        using big_mul_val [of hh B] hh by auto
      obtain kk where kk: "big_mul (big_from (k * k)) B = Some kk" "big_ok kk" "big_val kk = k * k * big_val B"
        using big_mul_val [of "big_from (k * k)" B] R(4) by auto
      have "fsqrt f m ftz a = Some (Some p)"
        using False real R(1,2,5) v(1) hh rhs kk unfolding fsqrt_def Let_def a'_def [symmetric] lg_def [symmetric] e_def [symmetric]
        by (simp add: f_is_zero_iff ok AB big_cmp_val big_shl_ok big_shl_val sqrt_mag_def cong: rmode.case_cong)
      moreover have "\<not> (ftz \<and> \<bar>prnd f m (sqrt x)\<bar> < 2 powi f_emin f)"
      proof
        assume tiny: "ftz \<and> \<bar>prnd f m (sqrt x)\<bar> < 2 powi f_emin f"
        then have "\<not> f_is_sub f a'"
          using f_zero_fields [OF ok] by (auto simp: a'_def f_flush_def f_is_sub_def f_is_zero_def)
        then have "2 powi f_emin f \<le> x" using f_mag_bounds(3) [OF ok fin] x by (simp add: x_def)
        moreover have "(2 powi f_emin f)\<^sup>2 \<le> 1 * (2 :: real) powi f_emin f"
          unfolding power2_eq_square
          using f_bias_ge [OF ok] power_int_increasing [of "f_emin f" 0 "2 :: real"]
          by (intro mult_right_mono) (simp_all add: f_emin_def)
        ultimately have "(2 powi f_emin f)\<^sup>2 \<le> x" by linarith
        then have "2 powi f_emin f \<le> sqrt x" by (rule real_le_rsqrt)
        then have "2 powi f_emin f \<le> prnd f m (sqrt x)" by (rule prnd_ge)
        with tiny show False by linarith
      qed
      ultimately show ?thesis
        using real False x R(6-8) by (auto simp: f_rounds_def simp flip: a'_def)
    qed
  qed
qed

end
