(* ===== verification/Ptx_Order.thy ===== *)
theory Ptx_Order
  imports Ptx_Sqrt
begin

text \<open>
  The order of \<open>fp.rs\<close> on bit patterns: the sign-magnitude \<open>f_key\<close> orders patterns as the numbers
  they denote, so \<open>fsetp\<close> and \<open>fminmax\<close> compare extended reals; a pattern is determined by its
  sign and its value, and decoding then rounding it gives it back.
\<close>

section \<open>The rank of a magnitude\<close>

definition f_rank :: "fmt \<Rightarrow> u64 \<Rightarrow> nat" where
  "f_rank f x = unat x mod 2 ^ (eb f + fb f)"

definition rank_mag :: "nat \<Rightarrow> nat \<Rightarrow> nat" where
  "rank_mag w N = (if N div 2 ^ w = 0 then N mod 2 ^ w else (N mod 2 ^ w + 2 ^ w) * 2 ^ (N div 2 ^ w - 1))"

lemma rank_mag_Suc: "rank_mag w N < rank_mag w (Suc N)"
proof -
  define E F where "E = N div 2 ^ w" and "F = N mod 2 ^ w"
  have F: "F < 2 ^ w" by (simp add: F_def)
  show ?thesis
  proof (cases "Suc F = 2 ^ w")
    case True
    then have "Suc N div 2 ^ w = Suc E" "Suc N mod 2 ^ w = 0"
      by (simp_all add: div_Suc mod_Suc E_def F_def)
    then have S: "rank_mag w (Suc N) = 2 ^ w * 2 ^ E" by (simp add: rank_mag_def)
    show ?thesis
    proof (cases E)
      case 0
      then show ?thesis using F unfolding S by (simp add: rank_mag_def flip: E_def F_def)
    next
      case (Suc e)
      have "(F + 2 ^ w) * 2 ^ e < (2 * 2 ^ w) * 2 ^ e" using F by (intro mult_strict_right_mono) simp_all
      then show ?thesis using Suc unfolding S by (simp add: rank_mag_def flip: E_def F_def)
    qed
  next
    case False
    then have "Suc N div 2 ^ w = E" "Suc N mod 2 ^ w = Suc F"
      by (simp_all add: div_Suc mod_Suc E_def F_def)
    then show ?thesis by (simp add: rank_mag_def flip: E_def F_def)
  qed
qed

lemma rank_mag_less_iff: "rank_mag w M < rank_mag w N \<longleftrightarrow> M < N"
  using lift_Suc_mono_less_iff [of "rank_mag w"] rank_mag_Suc by blast

lemma rank_fields: "fmt_ok f \<Longrightarrow> f_rank f x div 2 ^ fb f = unat (f_bexp f x) \<and> f_rank f x mod 2 ^ fb f = unat (f_frac f x)"
proof -
  assume ok: "fmt_ok f"
  have "f_rank f x = 2 ^ fb f * unat (f_bexp f x) + unat (f_frac f x)"
    using mod_mult2_eq [of "unat x" "2 ^ fb f" "2 ^ eb f"]
    by (simp add: f_rank_def unat_f_bexp ok unat_f_frac power_add mult.commute)
  moreover have "unat (f_frac f x) < 2 ^ fb f" by (simp add: unat_f_frac ok)
  ultimately show ?thesis by simp
qed

lemma f_mag_rank: "fmt_ok f \<Longrightarrow> f_mag f x = real (rank_mag (fb f) (f_rank f x)) * 2 powi (f_emin f - int (fb f))"
proof -
  assume ok: "fmt_ok f"
  define E F where "E = unat (f_bexp f x)" and "F = unat (f_frac f x)"
  have r: "rank_mag (fb f) (f_rank f x) = (if E = 0 then F else (F + 2 ^ fb f) * 2 ^ (E - 1))"
    unfolding rank_mag_def rank_fields [OF ok, THEN conjunct1] rank_fields [OF ok, THEN conjunct2] E_def F_def ..
  have *: "2 powi (int E - f_bias f - int (fb f)) = 2 ^ (E - 1) * (2 :: real) powi (f_emin f - int (fb f))" if "0 < E"
    using that unfolding powi_nat [symmetric] powi_add2 [symmetric] by (simp add: f_emin_def of_nat_diff algebra_simps)
  show ?thesis
    unfolding r f_mag_fields [OF ok E_def [symmetric] F_def [symmetric]] by (cases "E = 0") (simp_all add: *)
qed

lemma f_mag_less_iff: "fmt_ok f \<Longrightarrow> f_mag f x < f_mag f y \<longleftrightarrow> f_rank f x < f_rank f y"
  by (simp add: f_mag_rank rank_mag_less_iff)

lemma f_mag_eq_iff: "fmt_ok f \<Longrightarrow> f_mag f x = f_mag f y \<longleftrightarrow> f_rank f x = f_rank f y"
  using f_mag_less_iff [of f x y] f_mag_less_iff [of f y x] by (metis f_mag_rank less_irrefl linorder_neqE_nat)

lemma f_mag_0_iff: "fmt_ok f \<Longrightarrow> f_mag f x = 0 \<longleftrightarrow> f_rank f x = 0"
proof -
  assume ok: "fmt_ok f"
  have "rank_mag (fb f) N = 0 \<longleftrightarrow> N = 0" for N
    using rank_mag_less_iff [of "fb f" 0 N] by (auto simp: rank_mag_def)
  then show ?thesis by (simp add: f_mag_rank ok)
qed

text \<open>A pattern of the format's width is its sign and its magnitude.\<close>

lemma f_repr_unique:
  assumes ok: "fmt_ok f" and "f_fits f x" "f_fits f y" and "f_sgn f x = f_sgn f y" "f_mag f x = f_mag f y"
  shows "x = y"
proof (rule f_eqI [OF ok assms(2-4)])
  have "f_rank f x = f_rank f y" using assms(5) f_mag_eq_iff [OF ok] by blast
  then show "f_bexp f x = f_bexp f y" "f_frac f x = f_frac f y"
    using rank_fields [OF ok, of x] rank_fields [OF ok, of y] by (auto simp: word_eq_iff_unat)
qed

section \<open>The key\<close>

lemma f_abs_bits:
  assumes ok: "fmt_ok f" and fits: "f_fits f x"
  shows "x AND NOT (f_sign_bit f) = take_bit (eb f + fb f) x"
proof (rule bit_word_eqI)
  fix n assume n: "n < LENGTH(64)"
  have hi: "\<not> bit x n" if "eb f + fb f < n"
  proof -
    have "bit x n = bit (take_bit (eb f + fb f + 1) x) n" using fits by (simp add: f_fits_iff)
    then show ?thesis using that by (simp add: bit_take_bit_iff)
  qed
  show "bit (x AND NOT (f_sign_bit f)) n = bit (take_bit (eb f + fb f) x) n"
    using n hi by (cases "eb f + fb f < n") (auto simp: not_less le_less f_sign_bit_def bit_and_iff bit_not_iff bit_push_bit_iff bit_1_iff bit_take_bit_iff simp del: push_bit_of_1)
qed

lemma f_key_rank:
  assumes "fmt_ok f" and "f_fits f x"
  shows "f_key f x = (if f_sgn f x then - int (f_rank f x) - 1 else int (f_rank f x))"
proof -
  have "uint (x AND NOT (f_sign_bit f)) = int (f_rank f x)"
    unfolding f_abs_bits [OF assms] f_rank_def unsigned_take_bit_eq by (simp add: take_bit_eq_mod zmod_int del: unsigned_take_bit_eq)
  then show ?thesis by (simp add: f_key_def Let_def)
qed

section \<open>Comparison of extended reals\<close>

definition real_cmp :: "real \<Rightarrow> real \<Rightarrow> ordering" where
  "real_cmp x y = (if x < y then Less else if x = y then Equal else Greater)"

fun x_cmp :: "xval \<Rightarrow> xval \<Rightarrow> ordering option" where
  "x_cmp XNaN _ = None"
| "x_cmp _ XNaN = None"
| "x_cmp (XInf s) (XInf t) = Some (if s = t then Equal else if s then Less else Greater)"
| "x_cmp (XInf s) (XReal _ _) = Some (if s then Less else Greater)"
| "x_cmp (XReal _ _) (XInf t) = Some (if t then Greater else Less)"
| "x_cmp (XReal _ x) (XReal _ y) = Some (real_cmp x y)"

text \<open>The predicates of PTX \<open>setp\<close>: the unordered ones also hold when an operand is a NaN.\<close>

fun fcmp_holds :: "fcmp \<Rightarrow> ordering option \<Rightarrow> bool" where
  "fcmp_holds FEq r \<longleftrightarrow> r = Some Equal"
| "fcmp_holds FNe r \<longleftrightarrow> r = Some Less \<or> r = Some Greater"
| "fcmp_holds FLt r \<longleftrightarrow> r = Some Less"
| "fcmp_holds FLe r \<longleftrightarrow> r = Some Less \<or> r = Some Equal"
| "fcmp_holds FGt r \<longleftrightarrow> r = Some Greater"
| "fcmp_holds FGe r \<longleftrightarrow> r = Some Greater \<or> r = Some Equal"
| "fcmp_holds FEqu r \<longleftrightarrow> r = None \<or> r = Some Equal"
| "fcmp_holds FNeu r \<longleftrightarrow> r = None \<or> r = Some Less \<or> r = Some Greater"
| "fcmp_holds FLtu r \<longleftrightarrow> r = None \<or> r = Some Less"
| "fcmp_holds FLeu r \<longleftrightarrow> r = None \<or> r = Some Less \<or> r = Some Equal"
| "fcmp_holds FGtu r \<longleftrightarrow> r = None \<or> r = Some Greater"
| "fcmp_holds FGeu r \<longleftrightarrow> r = None \<or> r = Some Greater \<or> r = Some Equal"
| "fcmp_holds FNum r \<longleftrightarrow> r \<noteq> None"
| "fcmp_holds FNan r \<longleftrightarrow> r = None"

lemma f_rank_inf:
  assumes ok: "fmt_ok f"
  shows "f_is_inf f x \<Longrightarrow> f_rank f x = 2 ^ fb f * (2 ^ eb f - 1)"
    and "f_finite f x \<Longrightarrow> f_rank f x < 2 ^ fb f * (2 ^ eb f - 1)"
proof -
  have e: "unat (f_exp_max f) = 2 ^ eb f - 1" by (rule unat_f_exp_max [OF ok])
  have r: "f_rank f x = 2 ^ fb f * unat (f_bexp f x) + unat (f_frac f x)"
    using rank_fields [OF ok, of x] mult_div_mod_eq [of "2 ^ fb f" "f_rank f x"] by simp
  show "f_rank f x = 2 ^ fb f * (2 ^ eb f - 1)" if "f_is_inf f x"
    using that by (simp add: r f_is_inf_def e)
  have F: "unat (f_frac f x) < 2 ^ fb f" by (simp add: unat_f_frac [OF ok])
  assume fin: "f_finite f x"
  have "unat (f_bexp f x) < 2 ^ eb f" by (simp add: unat_f_bexp [OF ok])
  moreover have "unat (f_bexp f x) \<noteq> 2 ^ eb f - 1"
    using fin e by (simp add: f_finite_def word_eq_iff_unat)
  ultimately have "unat (f_bexp f x) + 1 \<le> 2 ^ eb f - 1" by linarith
  then have "2 ^ fb f * (unat (f_bexp f x) + 1) \<le> 2 ^ fb f * (2 ^ eb f - 1)" by (rule mult_le_mono2)
  then show "f_rank f x < 2 ^ fb f * (2 ^ eb f - 1)" using F unfolding r distrib_left by linarith
qed

lemma x_cmp_key:
  assumes ok: "fmt_ok f" and a: "f_fits f a" "\<not> f_is_nan f a" and b: "f_fits f b" "\<not> f_is_nan f b"
    and z: "\<not> (f_is_zero f a \<and> f_is_zero f b)"
  shows "x_cmp (f_xval f a) (f_xval f b) = Some (int_cmp (f_key f a) (f_key f b))"
proof -
  note K = f_key_rank [OF ok]
  have val: "f_val f x = (if f_sgn f x then - f_mag f x else f_mag f x)" for x by (simp add: f_val_def)
  have zero: "f_is_zero f x \<longleftrightarrow> f_rank f x = 0" for x
    by (simp add: f_is_zero_iff ok val f_mag_0_iff [symmetric])
  have fin: "f_is_inf f x \<or> f_finite f x" if "\<not> f_is_nan f x" for x using that f_class by blast
  have nonneg: "0 \<le> f_mag f x" for x using q_mag_nonneg [of "f_to_q f x"] by simp
  have pos: "0 < f_mag f x \<longleftrightarrow> 0 < f_rank f x" for x
    using f_mag_0_iff [OF ok, of x] nonneg [of x] by linarith
  note inf = f_rank_inf [OF ok]
  show ?thesis
  proof (cases rule: f_xval_cases [of f a])
    case A: inf
    then have ra: "f_rank f a = 2 ^ fb f * (2 ^ eb f - 1)" using inf by blast
    show ?thesis
    proof (cases rule: f_xval_cases [of f b])
      case B: inf
      then have "f_rank f a = f_rank f b" using ra inf(1) [of b] by simp
      then show ?thesis using A B by (cases "f_sgn f a"; cases "f_sgn f b") (simp_all add: int_cmp_def K a b)
    next
      case B: real
      then have "f_rank f b < f_rank f a" using inf(2) [of b] fin [of b] ra by auto
      then show ?thesis using A B by (simp add: int_cmp_def K a b)
    qed (use b in simp)
  next
    case A: real
    show ?thesis
    proof (cases rule: f_xval_cases [of f b])
      case B: inf
      then have "f_rank f a < f_rank f b" using inf(1) [of b] inf(2) [of a] fin [of a] A by auto
      then show ?thesis using A B by (simp add: int_cmp_def K a b)
    next
      case B: real
      have "real_cmp (f_val f a) (f_val f b) = int_cmp (f_key f a) (f_key f b)"
        using z pos [of a] pos [of b] nonneg [of a] nonneg [of b] f_mag_less_iff [OF ok, of a b] f_mag_eq_iff [OF ok, of a b]
        unfolding real_cmp_def int_cmp_def val zero K [OF a(1)] K [OF b(1)]
        by (cases "f_sgn f a"; cases "f_sgn f b") (simp_all; linarith)+
      then show ?thesis using A B by simp
    qed (use b in simp)
  qed (use a in simp)
qed

lemma fsetp_exact:
  assumes "fits2 f a b"
  shows "fsetp f c ftz a b = fcmp_holds c (x_cmp (f_xval f (f_flush f ftz a)) (f_xval f (f_flush f ftz b)))"
proof -
  have ok: "fmt_ok f" using assms by (simp add: fits2_def)
  define a' b' where "a' = f_flush f ftz a" and "b' = f_flush f ftz b"
  have fits: "f_fits f a'" "f_fits f b'" using assms by (simp_all add: fits2_def a'_def b'_def f_fits_flush)
  define un where "un = (f_is_nan f a' \<or> f_is_nan f b')"
  define ord where "ord = (if f_is_zero f a' \<and> f_is_zero f b' then Equal
    else if \<not> un then int_cmp (f_key f a') (f_key f b') else Equal)"
  have x: "x_cmp (f_xval f a') (f_xval f b') = (if un then None else Some ord)"
  proof (cases "un \<or> f_is_zero f a' \<and> f_is_zero f b'")
    case True
    have nz: "\<not> f_is_nan f x" if "f_is_zero f x" for x
      using that exp_max_ge [OF ok] unat_f_exp_max [OF ok] by (auto simp: f_is_nan_def f_is_zero_def)
    have "x_cmp x XNaN = None" for x by (cases x) simp_all
    then show ?thesis
      using True nz f_inf_not_zero [OF ok]
      by (cases rule: f_xval_cases [of f a']; cases rule: f_xval_cases [of f b'])
        (auto simp: un_def ord_def real_cmp_def f_is_zero_iff ok)
  next
    case False
    then show ?thesis using x_cmp_key [OF ok fits(1) _ fits(2)] by (auto simp: un_def ord_def)
  qed
  have "fsetp f c ftz a b = fcmp_holds c (if un then None else Some ord)"
    unfolding fsetp_def Let_def a'_def [symmetric] b'_def [symmetric] un_def [symmetric] ord_def [symmetric]
    by (cases c; cases ord; simp)
  then show ?thesis by (simp add: x flip: a'_def b'_def)
qed

text \<open>The order with \<open>-0\<close> below \<open>+0\<close> that \<open>lt_signed\<close> decides, and the selection of \<open>min\<close> and \<open>max\<close>.\<close>

fun x_lt :: "xval \<Rightarrow> xval \<Rightarrow> bool" where
  "x_lt (XReal s x) (XReal t y) \<longleftrightarrow> x < y \<or> (x = 0 \<and> y = 0 \<and> s \<and> \<not> t)"
| "x_lt x y \<longleftrightarrow> x_cmp x y = Some Less"

lemma lt_signed_x:
  assumes ok: "fmt_ok f" and a: "f_fits f a" "\<not> f_is_nan f a" and b: "f_fits f b" "\<not> f_is_nan f b"
  shows "lt_signed f a b \<longleftrightarrow> x_lt (f_xval f a) (f_xval f b)"
proof (cases "f_is_zero f a \<and> f_is_zero f b")
  case True
  then have v: "f_val f a = 0" "f_val f b = 0" by (simp_all add: f_is_zero_iff ok)
  then have "f_mag f a = 0" "f_mag f b = 0" by (auto simp: f_val_def split: if_splits)
  then have "f_rank f a = 0" "f_rank f b = 0" by (simp_all add: f_mag_0_iff ok)
  then have "lt_signed f a b \<longleftrightarrow> f_sgn f a \<and> \<not> f_sgn f b"
    by (simp add: lt_signed_def f_key_rank [OF ok] a b)
  then show ?thesis using True v f_inf_not_zero [OF ok]
    by (cases rule: f_xval_cases [of f a]; cases rule: f_xval_cases [of f b]) (auto simp: a b)
next
  case False
  have c: "x_cmp (f_xval f a) (f_xval f b) = Some (int_cmp (f_key f a) (f_key f b))"
    by (rule x_cmp_key [OF ok a b False])
  have l: "lt_signed f a b \<longleftrightarrow> x_cmp (f_xval f a) (f_xval f b) = Some Less"
    unfolding c by (simp add: lt_signed_def int_cmp_def)
  show ?thesis unfolding l using False
    by (cases rule: f_xval_cases [of f a]; cases rule: f_xval_cases [of f b]) (auto simp: a b real_cmp_def f_is_zero_iff ok)
qed

lemma x_lt_irrefl: "\<not> x_lt x x" and x_lt_asym: "x_lt x y \<Longrightarrow> \<not> x_lt y x"
  by (cases x; cases y; auto simp: real_cmp_def split: if_splits)+

lemma fminmax_exact:
  assumes "fits2 f a b" and a': "a' = f_flush f ftz a" and b': "b' = f_flush f ftz b"
  shows "case fminmax f is_max ftz nan a b of
      None \<Rightarrow> f_is_nan f a' \<and> f_is_nan f b' \<or> nan \<and> (f_is_nan f a' \<or> f_is_nan f b')
    | Some r \<Rightarrow> \<not> f_is_nan f r \<and> (r = a' \<or> r = b')
        \<and> (\<forall>s\<in>{a', b'}. if is_max then \<not> x_lt (f_xval f r) (f_xval f s) else \<not> x_lt (f_xval f s) (f_xval f r))"
proof -
  have ok: "fmt_ok f" and fits: "f_fits f a'" "f_fits f b'"
    using assms by (simp_all add: fits2_def f_fits_flush)
  have nan: "\<not> x_lt x (f_xval f n)" "\<not> x_lt (f_xval f n) x" if "f_is_nan f n" for x n
    using that by (cases x; simp add: f_xval_def)+
  have ab: "lt_signed f a' b' \<longleftrightarrow> x_lt (f_xval f a') (f_xval f b')" "lt_signed f b' a' \<longleftrightarrow> x_lt (f_xval f b') (f_xval f a')"
    if "\<not> f_is_nan f a'" "\<not> f_is_nan f b'"
    using lt_signed_x [OF ok] fits that by blast+
  show ?thesis
    unfolding fminmax_def Let_def a' [symmetric] b' [symmetric]
    by (cases "f_is_nan f a'"; cases "f_is_nan f b'"; cases is_max)
      (simp_all add: ab nan x_lt_irrefl, (use x_lt_asym in blast)+)
qed

section \<open>Representable values round to themselves\<close>

lemma f_lsb_repr:
  assumes ok: "fmt_ok f" and fin: "f_finite f x" and nz: "f_val f x \<noteq> 0"
  obtains n where "f_mag f x = real n * 2 powi f_lsb f (f_val f x)"
proof -
  define E F where "E = unat (f_bexp f x)" and "F = unat (f_frac f x)"
  note mag = f_mag_fields [OF ok E_def [symmetric] F_def [symmetric]]
  have F: "real F < 2 ^ fb f"
    unfolding F_def unat_f_frac [OF ok]
    by (metis (no_types, lifting) mod_less_divisor of_nat_less_iff of_nat_numeral of_nat_power zero_less_numeral zero_less_power)
  have abs: "\<bar>f_val f x\<bar> = f_mag f x" using q_mag_nonneg [of "f_to_q f x"] by (simp add: f_val_def)
  have pos: "0 < f_mag f x" using nz abs by linarith
  have split: "(2 :: real) ^ fb f * 2 powi (k - int (fb f)) = 2 powi k" for k
    unfolding powi_nat [symmetric] powi_add2 [symmetric] by simp
  show ?thesis
  proof (cases "E = 0")
    case True
    have "f_mag f x < 2 powi f_emin f"
      using F split [of "f_emin f"] mult_strict_right_mono [OF F, of "2 powi (f_emin f - int (fb f))"] True mag by simp
    moreover have "2 powi \<lfloor>log 2 (f_mag f x)\<rfloor> \<le> f_mag f x" using floor_log2_iff [OF pos] by blast
    ultimately have "(2 :: real) powi \<lfloor>log 2 (f_mag f x)\<rfloor> < 2 powi f_emin f" by linarith
    then have "f_lsb f (f_val f x) = f_emin f - int (fb f)" by (simp add: f_lsb_def abs)
    then show ?thesis using True mag that [of F] by simp
  next
    case False
    have "2 powi (int E - f_bias f) \<le> f_mag f x"
      using False mag split [of "int E - f_bias f"] by (simp add: distrib_right)
    moreover have "f_mag f x < 2 powi (int E - f_bias f + 1)"
      using False mag split [of "int E - f_bias f"] mult_strict_right_mono [OF F, of "2 powi (int E - f_bias f - int (fb f))"]
      by (simp add: distrib_right powi_add2 [of _ 1])
    ultimately have "\<lfloor>log 2 (f_mag f x)\<rfloor> = int E - f_bias f" using pos by (simp add: floor_log2_iff)
    then have "f_lsb f (f_val f x) = int E - f_bias f - int (fb f)" using False by (simp add: f_lsb_def abs f_emin_def)
    then show ?thesis using False mag that [of "F + 2 ^ fb f"] by simp
  qed
qed

lemma frnd_repr:
  assumes "fmt_ok f" and "f_finite f x"
  shows "frnd f m (f_val f x) = f_val f x"
proof (cases "f_val f x = 0")
  case False
  obtain n where n: "f_mag f x = real n * 2 powi f_lsb f (f_val f x)" by (rule f_lsb_repr [OF assms False])
  define l where "l = f_lsb f (f_val f x)"
  define k where "k = (if f_sgn f x then - int n else int n)"
  have "f_mag f x = real n * 2 powi l" unfolding l_def by (rule n)
  then have v: "f_val f x = of_int k * 2 powi l"
    unfolding f_val_def k_def by simp
  have "frnd f m (f_val f x) = of_int (rnd_int m (f_val f x / 2 powi l)) * 2 powi l"
    using False unfolding frnd_def l_def by simp
  also have "\<dots> = f_val f x" unfolding v by (rule rnd.grid_exact) simp
  finally show ?thesis .
qed (simp add: frnd_def)

lemma round_repr:
  assumes ok: "fmt_ok f" and fin: "f_finite f x" and fits: "f_fits f x" and z: "f_is_zero f x \<Longrightarrow> z = f_sgn f x"
  shows "f_round f m False (f_to_q f x) z = Some x"
proof -
  obtain p where p: "f_round f m False (f_to_q f x) z = Some p" "f_rounds f m False z (f_val f x) p"
    using f_round_rounds [OF ok f_to_q_ok] unfolding f_to_q_val by blast
  show ?thesis
  proof (cases "f_val f x = 0")
    case True
    then show ?thesis using p z f_zeroD [OF ok fits] by (simp add: f_is_zero_iff ok)
  next
    case False
    have abs: "\<bar>f_val f x\<bar> = f_mag f x" using q_mag_nonneg [of "f_to_q f x"] by (simp add: f_val_def)
    have "f_repr f p (f_val f x < 0) (f_val f x)"
      using p(2) False f_mag_bounds(1) [OF ok fin] by (simp add: f_rounds_def round_result_def frnd_repr [OF ok fin] abs)
    then have "f_fits f p" "f_sgn f p = f_sgn f x" "f_mag f p = f_mag f x"
      using abs False by (auto simp: f_repr_def f_val_def f_fits_def split: if_splits)
    then have "p = x" by (intro f_repr_unique [OF ok _ fits])
    then show ?thesis using p(1) by simp
  qed
qed

end
