(* ===== verification/Ptx_Convert.thy ===== *)
theory Ptx_Convert
  imports Ptx_Order
begin

text \<open>
  The conversions of \<open>fp.rs\<close> (\<open>to_int\<close>, \<open>of_int\<close>, \<open>round_integral\<close>, \<open>convert_f\<close>) and its bitwise
  sign operations, against the real values of the patterns.
\<close>

section \<open>To integers\<close>

lemma int_bounds: "1 \<le> w \<Longrightarrow> w \<le> 64 \<Longrightarrow> - (2 ^ 70) \<le> int_lo sg w \<and> int_lo sg w \<le> int_hi sg w \<and> int_hi sg w \<le> 2 ^ 70"
proof -
  assume w: "1 \<le> w" "w \<le> 64"
  have "(2 :: int) ^ w \<le> 2 ^ 64" and "(2 :: int) ^ (w - 1) \<le> 2 ^ 64" using w by (intro power_increasing; simp)+
  moreover have "(1 :: int) \<le> 2 ^ w" "(1 :: int) \<le> 2 ^ (w - 1)" by simp_all
  moreover have "(2 :: int) ^ 64 \<le> 2 ^ 70" by simp
  ultimately show ?thesis unfolding int_lo_def int_hi_def by (cases sg) (simp only: if_True if_False; linarith)+
qed

text \<open>Beyond \<open>2 ^ 70\<close> the code does not round; the clamps that follow hide it.\<close>

lemma round_int_clamp:
  assumes lo: "- (2 ^ 70) \<le> lo" and hi: "lo \<le> hi" "hi \<le> (2 :: int) ^ 70"
  obtains v where "round_int f m a = Some v" and "max lo (min hi v) = max lo (min hi (rnd_int m (f_val f a)))"
proof -
  define q where "q = f_to_q f a"
  have ok: "q_ok q" by (simp add: q_def)
  have mag: "q_mag q = f_mag f a" and neg: "q_neg q = f_sgn f a" by (simp_all add: q_def)
  have nn: "0 \<le> f_mag f a" using q_mag_nonneg [of q] unfolding mag .
  show ?thesis
  proof (cases "q_is_zero q")
    case True
    then have "f_val f a = 0" by (simp add: q_is_zero_iff q_def)
    then show ?thesis using True that [of 0] rnd.ge_int [of 0 0 m] rnd.le_int [of 0 0 m] by (simp add: round_int_def flip: q_def)
  next
    case nz: False
    note b = q_ilog2_bounds [OF ok nz]
    show ?thesis
    proof (cases "70 \<le> q_ilog2 q")
      case True
      then have "(2 :: real) powi 70 \<le> 2 powi q_ilog2 q" by (simp only: powi_le_iff)
      with b(1) have big: "2 ^ 70 \<le> f_mag f a" unfolding mag by simp
      have "max lo (min hi (if f_sgn f a then - (2 ^ 70) else 2 ^ 70)) = max lo (min hi (rnd_int m (f_val f a)))"
      proof (cases "f_sgn f a")
        case True
        then have "rnd_int m (f_val f a) \<le> - (2 ^ 70)" using big by (intro rnd.le_int) (simp add: f_val_def)
        then show ?thesis using True lo hi by simp
      next
        case False
        then have "2 ^ 70 \<le> rnd_int m (f_val f a)" using big by (intro rnd.ge_int) (simp add: f_val_def)
        then show ?thesis using False lo hi by simp
      qed
      then show ?thesis using True nz that by (simp add: round_int_def neg flip: q_def)
    next
      case False
      then have "(2 :: real) powi (q_ilog2 q + 1) \<le> 2 powi 70" by (simp only: powi_le_iff)
      with b(2) have "q_mag q / 2 powi 0 < 2 ^ 127" by simp
      from f_round_at_val [OF ok this] have
        "round_int f m a = Some (if q_neg q then - int (rnd_mag m (q_neg q) (q_mag q)) else int (rnd_mag m (q_neg q) (q_mag q)))"
        using nz False by (simp add: round_int_def flip: q_def)
      also have "\<dots> = Some (rnd_int m (f_val f a))"
        unfolding mag neg using rnd_int_mag [OF nn, of m "f_sgn f a"] by (simp add: f_val_def)
      finally show ?thesis using that by blast
    qed
  qed
qed

text \<open>What \<open>cvt\<close> to an integer type promises: NaN to a fixed pattern, the rest rounded and clamped.\<close>

fun x_to_int :: "rmode \<Rightarrow> bool \<Rightarrow> bool \<Rightarrow> nat \<Rightarrow> xval \<Rightarrow> u64" where
  "x_to_int m wide sg w XNaN = (if wide \<or> w = 64 then push_bit (w - 1) 1 else 0)"
| "x_to_int m wide sg w (XInf s) = word_of_int ((if s then int_lo sg w else int_hi sg w) mod 2 ^ w)"
| "x_to_int m wide sg w (XReal _ x) = word_of_int (max (int_lo sg w) (min (int_hi sg w) (rnd_int m x)) mod 2 ^ w)"

lemma to_int_exact:
  assumes "1 \<le> w" and "w \<le> 64"
  shows "to_int f m ftz sg w a = Some (x_to_int m (f = F64_fmt) sg w (f_xval f (f_flush f ftz a)))"
proof -
  define a' where "a' = f_flush f ftz a"
  obtain v where v: "round_int f m a' = Some v"
      "max (int_lo sg w) (min (int_hi sg w) v) = max (int_lo sg w) (min (int_hi sg w) (rnd_int m (f_val f a')))"
    using int_bounds [OF assms, of sg] round_int_clamp [of "int_lo sg w" "int_hi sg w" f m a'] by metis
  show ?thesis
    unfolding to_int_def Let_def a'_def [symmetric]
    by (cases rule: f_xval_cases [of f a']) (simp_all add: v)
qed

section \<open>From integers\<close>

lemma of_int_exact:
  assumes ok: "fmt_ok f" and v: "\<bar>v\<bar> < 2 ^ 127"
  shows "\<exists>p. of_int_bits f m ftz v = Some p \<and> f_rounds f m ftz False (of_int v) p"
proof -
  define q where "q = \<lparr>q_neg = (v < 0), q_n = big_from (nat \<bar>v\<bar>), q_d = big_from 1, q_e = 0\<rparr>"
  have "nat \<bar>v\<bar> < 2 ^ 128" using v by (simp add: nat_less_iff)
  then have "q_ok q" "q_val q = of_int v"
    by (simp_all add: q_def q_ok_def q_val_def q_mag_def)
  then show ?thesis using f_round_rounds [OF ok, of q m ftz False] by (auto simp: of_int_bits_def q_def)
qed

section \<open>To integral floating-point values\<close>

lemma f_mag_integral:
  assumes ok: "fmt_ok f" and big: "2 ^ fb f \<le> f_mag f x"
  obtains n :: nat where "f_mag f x = real n"
proof -
  define E F where "E = unat (f_bexp f x)" and "F = unat (f_frac f x)"
  note mag = f_mag_fields [OF ok E_def [symmetric] F_def [symmetric]]
  have F: "real F < 2 ^ fb f"
    unfolding F_def unat_f_frac [OF ok]
    by (metis (no_types, lifting) mod_less_divisor of_nat_less_iff of_nat_numeral of_nat_power zero_less_numeral zero_less_power)
  define k where "k = (if E = 0 then f_emin f else int E - f_bias f) - int (fb f)"
  define M where "M = (if E = 0 then F else F + 2 ^ fb f)"
  have mk: "f_mag f x = real M * 2 powi k" by (simp add: mag M_def k_def)
  have "0 \<le> k"
  proof (rule ccontr)
    assume "\<not> 0 \<le> k"
    then have "(2 :: real) powi k \<le> 2 powi (- 1)" by (simp only: powi_le_iff)
    then have "real M * 2 powi k \<le> real M * (1 / 2)" by (intro mult_left_mono) (simp_all add: power_int_def)
    moreover have "real M \<le> real F + 2 ^ fb f" by (simp add: M_def)
    ultimately show False using big mk F by linarith
  qed
  then have "f_mag f x = real (M * 2 ^ nat k)" unfolding mk by (simp add: powi_of_nat)
  then show ?thesis by (rule that)
qed

lemma round_integral_exact:
  assumes ok: "fmt_ok f" and w: "int (fb f) \<le> f_emax f" and fits: "f_fits f a" and a': "a' = f_flush f ftz a"
  shows "case f_xval f a' of
      XNaN \<Rightarrow> round_integral f m ftz a = Some None
    | XInf s \<Rightarrow> round_integral f m ftz a = Some (Some (f_inf f s))
    | XReal s x \<Rightarrow> \<exists>r. round_integral f m ftz a = Some (Some r) \<and> f_repr f r s (of_int (rnd_int m x))"
proof -
  have fits': "f_fits f a'" using fits by (simp add: a' f_fits_flush ok)
  have fold: "round_integral f m ftz a = (if f_is_nan f a' then Some None
     else if f_is_inf f a' \<or> f_is_zero f a' then Some (Some a')
     else if int (fb f) \<le> q_ilog2 (f_to_q f a') then Some (Some a')
     else do { v \<leftarrow> f_round_at f m (f_to_q f a') 0;
       if v = 0 then Some (Some (f_zero f (f_sgn f a'))) else map_option Some (f_encode f (f_sgn f a') v 0) })"
    by (simp add: round_integral_def Let_def flip: a' cong: if_cong)
  show ?thesis
  proof (cases rule: f_xval_cases [of f a'])
    case inf
    then show ?thesis using f_infD [OF ok fits'] by (simp add: fold)
  next
    case real
    have fin: "f_finite f a'" using real f_class by blast
    have self: "f_repr f a' (f_sgn f a') (f_val f a')" using fin fits' by (simp add: f_repr_def f_fits_def)
    have val: "of_int (rnd_int m (f_val f a')) = f_val f a'" if n: "f_mag f a' = real n" for n
      using rnd.exact [of m "- int n"] rnd.exact [of m "int n"] n by (simp add: f_val_def)
    show ?thesis
    proof (cases "f_is_zero f a'")
      case True
      then have "f_mag f a' = real 0" by (simp add: f_is_zero_iff ok f_val_def split: if_splits)
      from val [OF this] show ?thesis using real True self by (simp add: fold)
    next
      case nz: False
      then have z: "\<not> q_is_zero (f_to_q f a')" by (simp add: q_is_zero_iff f_is_zero_iff ok)
      note b = q_ilog2_bounds [OF f_to_q_ok z, unfolded f_to_q_mag]
      show ?thesis
      proof (cases "int (fb f) \<le> q_ilog2 (f_to_q f a')")
        case True
        then have "(2 :: real) powi int (fb f) \<le> 2 powi q_ilog2 (f_to_q f a')" by (simp only: powi_le_iff)
        with b(1) have "2 ^ fb f \<le> f_mag f a'" by simp
        then obtain n where "f_mag f a' = real n" by (rule f_mag_integral [OF ok])
        from val [OF this] show ?thesis using real True self by (simp add: fold)
      next
        case False
        define v where "v = rnd_mag m (f_sgn f a') (f_mag f a')"
        have "(2 :: real) powi (q_ilog2 (f_to_q f a') + 1) \<le> 2 powi int (fb f)" using False by (simp only: powi_le_iff)
        with b(2) have small: "f_mag f a' < 2 ^ fb f" by simp
        also have "(2 :: real) ^ fb f \<le> 2 ^ 127" using fmt_okD(4) [OF ok] by (intro power_increasing) simp_all
        finally have "q_mag (f_to_q f a') / 2 powi 0 < 2 ^ 127" by simp
        from f_round_at_val [OF f_to_q_ok this] have at: "f_round_at f m (f_to_q f a') 0 = Some v"
          by (simp add: v_def)
        have nn: "0 \<le> f_mag f a'" using q_mag_nonneg [of "f_to_q f a'"] by simp
        have vle: "v \<le> 2 ^ fb f" unfolding v_def using small nn by (intro rnd_mag_le) simp_all
        have rv: "of_int (rnd_int m (f_val f a')) = (if f_sgn f a' then - real v else real v)"
          using rnd_int_mag [OF nn, of m "f_sgn f a'"] by (simp add: f_val_def v_def)
        show ?thesis
        proof (cases "v = 0")
          case True
          then have "rnd_int m (f_val f a') = 0" using rv by (auto split: if_splits)
          then show ?thesis using True real False nz at f_finite_zero [OF ok, of "f_sgn f a'"]
            by (simp add: fold f_repr_def)
        next
          case v0: False
          have "real v \<le> 2 ^ fb f" using vle by (metis of_nat_le_iff of_nat_numeral of_nat_power)
          also have "\<dots> = 2 powi int (fb f)" by simp
          also have "\<dots> < f_limit f" unfolding f_limit_def powi_less_iff using w by simp
          finally have lim: "real v * 2 powi 0 < f_limit f" by simp
          have lo: "f_emin f - int (fb f) \<le> 0" using f_bias_ge [OF ok] by (simp add: f_emin_def)
          have vle': "v \<le> 2 ^ (fb f + 1)" using vle by simp
          obtain r where r: "f_encode f (f_sgn f a') v 0 = Some r" "f_finite f r" "f_sgn f r = f_sgn f a'"
              "f_mag f r = real v * 2 powi 0" "unat r < 2 ^ (eb f + fb f + 1)"
            using encode_correct [OF ok _ vle' lo lim] v0 by blast
          then show ?thesis using real False nz at v0 rv
            by (simp add: fold f_repr_def f_val_def)
        qed
      qed
    qed
  qed (simp add: fold)
qed

section \<open>Between formats\<close>

lemma convert_exact:
  assumes d: "fmt_ok d" and s: "fmt_ok s"
  shows "\<exists>r. convert_f d s m ftz sat a = Some (f_sat d sat r)
    \<and> x_result d m (ftz \<and> d = F32_fmt) (f_xval s (f_flush s (ftz \<and> s = F32_fmt) a)) r"
proof -
  define a' where "a' = f_flush s (ftz \<and> s = F32_fmt) a"
  obtain p where p: "f_round d m (ftz \<and> d = F32_fmt) (f_to_q s a') (f_sgn s a') = Some p"
      "f_rounds d m (ftz \<and> d = F32_fmt) (f_sgn s a') (f_val s a') p"
    using f_round_rounds [OF d f_to_q_ok] unfolding f_to_q_val by blast
  show ?thesis
    unfolding convert_f_def Let_def a'_def [symmetric]
    using p f_inf_not_zero [OF s, of a']
    by (cases rule: f_xval_cases [of s a']) (auto simp: f_is_zero_iff s)
qed

section \<open>Saturation\<close>

lemma f_one_fields:
  assumes ok: "fmt_ok f"
  shows "f_fits f (f_one f)" and "\<not> f_sgn f (f_one f)" and "f_finite f (f_one f)" and "f_val f (f_one f) = 1"
    and "unat (f_one f) = nat (f_bias f) * 2 ^ fb f"
proof -
  have b: "1 \<le> f_bias f" "2 * f_bias f = 2 ^ eb f - 2" using f_bias_ge [OF ok] f_bias_pow [OF ok] by simp_all
  define E where "E = nat (f_bias f)"
  have iE: "int E = f_bias f" using b by (simp add: E_def)
  have "int E < int (2 ^ eb f - 1)" using b iE by (simp add: of_nat_diff)
  then have E: "E < 2 ^ eb f - 1" by (simp only: of_nat_less_iff)
  then have E': "E < 2 ^ eb f" by simp
  have F0: "(0 :: nat) < 2 ^ fb f" by simp
  note less = f_pack_less(2,3) [OF ok E' F0, of False]
  have "E < 2 ^ 64"
  proof -
    have "(2 :: nat) ^ eb f \<le> 2 ^ 64" using fmt_okD [OF ok] by (intro power_increasing) simp_all
    with E' show ?thesis by linarith
  qed
  then have "unat (word_of_int (f_bias f) :: u64) = E"
    by (simp add: unat_of_nat_small flip: iE)
  then show u0: "unat (f_one f) = nat (f_bias f) * 2 ^ fb f"
    unfolding f_one_def using less(2) by (subst unat_push_bit_small) (simp_all add: f_pack_def E_def)
  then have u: "unat (f_one f) = f_pack f False E 0" by (simp add: f_pack_def E_def)
  note F = f_pack_fields [OF ok E' _ u, simplified]
  show "f_fits f (f_one f)" using less(1) by (simp add: f_fits_def u)
  show s: "\<not> f_sgn f (f_one f)" by (rule F(1))
  show "f_finite f (f_one f)"
    using F(2) E by (simp add: f_finite_def word_eq_iff_unat unat_f_exp_max [OF ok])
  have "0 < E" using b iE by linarith
  then show "f_val f (f_one f) = 1"
    using f_mag_fields [OF ok F(2,3)] s unfolding f_val_def powi_diff2 by (simp add: iE)
qed

text \<open>With \<open>.sat\<close> a result is clamped to the interval from 0 to 1, and a NaN becomes \<open>+0\<close>.\<close>

lemma f_sat_exact:
  assumes ok: "fmt_ok f" and fits: "\<And>x. r = Some x \<Longrightarrow> f_fits f x"
  obtains p where "f_sat f True r = Some p" and "f_finite f p" and "f_fits f p"
    and "f_val f p = (case map_option (f_xval f) r of None \<Rightarrow> 0 | Some XNaN \<Rightarrow> 0 | Some (XInf s) \<Rightarrow> if s then 0 else 1
      | Some (XReal _ x) \<Rightarrow> max 0 (min 1 x))"
proof -
  note one = f_one_fields [OF ok]
  have nn: "0 \<le> f_mag f x" for x using q_mag_nonneg [of "f_to_q f x"] by simp
  have zero: "f_zero f False = 0" by (simp add: f_zero_def)
  note Z = f_finite_zero [OF ok, of False, unfolded zero]
  show ?thesis
  proof (cases r)
    case None
    show ?thesis by (rule that [of 0]) (use Z None in \<open>auto simp: f_sat_def f_fits_def\<close>)
  next
    case (Some x)
    have fx: "f_fits f x" using fits Some by simp
    show ?thesis
    proof (cases "f_is_nan f x \<or> f_sgn f x")
      case True
      have "f_val f x \<le> 0" if "f_sgn f x" using that nn [of x] by (simp add: f_val_def)
      then show ?thesis
        by (intro that [of 0]) (use Z Some True in \<open>auto simp: f_sat_def f_fits_def f_xval_def\<close>)
    next
      case pos: False
      show ?thesis
      proof (cases "f_is_inf f x")
        case True
        then show ?thesis by (intro that [of "f_one f"]) (use one Some pos in \<open>auto simp: f_sat_def f_xval_def\<close>)
      next
        case False
        have "f_rank f y = unat y" if "f_fits f y" "\<not> f_sgn f y" for y
        proof -
          have "unat y div 2 ^ (eb f + fb f) < 2" using that(1) by (simp add: f_fits_def less_mult_imp_div_less)
          then have "unat y div 2 ^ (eb f + fb f) = 0" using that(2) f_sgn_iff [OF ok, of y] by (metis less_2_cases odd_one One_nat_def)
          then show ?thesis unfolding f_rank_def by (metis div_eq_0_iff mod_less power_eq_0_iff zero_neq_numeral)
        qed
        then have "f_gt_one f x \<longleftrightarrow> 1 < f_val f x"
          using f_mag_less_iff [OF ok, of "f_one f" x] pos one fx
          by (simp add: f_gt_one_def word_less_nat_alt f_val_def)
        moreover have "f_finite f x" using False pos f_class by blast
        ultimately show ?thesis
          by (intro that [of "if f_gt_one f x then f_one f else x"])
            (use one Some pos False fx nn [of x] in \<open>auto simp: f_sat_def f_xval_def f_val_def\<close>)
      qed
    qed
  qed
qed

end
