(* ===== verification/Ptx_Fp_Props.thy ===== *)
theory Ptx_Fp_Props
  imports Ptx_Convert
begin

text \<open>
  The properties of \<open>crates/e5r-ptx/src/fp.rs\<close>: the big-number routines compute the natural numbers
  they stand for, and every floating-point operation is the exact operation on extended reals
  followed by the one rounding of \<open>Ptx_Fp_Ok\<close>.
\<close>

lemmas fits_defs = fits2_def f_fits_def F32_fmt_def F64_fmt_def

section \<open>Arithmetic\<close>

text \<open>C6: \<open>fadd\<close> and \<open>fsub\<close> do not panic, and their result before saturation is the exact sum or
  difference of the flushed operands, rounded once in the given mode: NaN for NaN operands and for
  opposed infinities, the infinity of an infinite operand, the right signed zero.\<close>

theorem fadd_fsub_correct:
  assumes "fits2 f a b"
  shows "(\<exists>r. fadd f m ftz sat a b = Some (f_sat f sat r) \<and>
      x_result f m ftz (x_add m (f_xval f (f_flush f ftz a)) (f_xval f (f_flush f ftz b))) r)
    \<and> (\<exists>r. fsub f m ftz sat a b = Some (f_sat f sat r) \<and>
      x_result f m ftz (x_add m (f_xval f (f_flush f ftz a)) (x_neg (f_xval f (f_flush f ftz b)))) r)"
  using fadd_exact [OF assms] fsub_exact [OF assms] by blast

theorem fadd_fsub_correct_witness:
  "\<exists>r. fsub F32_fmt Rz True False 0x3F800000 0x00000001 = Some (f_sat F32_fmt False r) \<and>
    x_result F32_fmt Rz True (x_add Rz (f_xval F32_fmt (f_flush F32_fmt True 0x3F800000))
      (x_neg (f_xval F32_fmt (f_flush F32_fmt True 0x00000001)))) r"
  by (rule fadd_fsub_correct [THEN conjunct2]) (simp add: fits_defs fmt_ok_def)

text \<open>C7: \<open>fmul\<close> does not panic, and its result before saturation is the exact product of the flushed
  operands, rounded once.\<close>

theorem fmul_correct:
  assumes "fits2 f a b"
  shows "\<exists>r. fmul f m ftz sat a b = Some (f_sat f sat r) \<and>
    x_result f m ftz (x_mul (f_xval f (f_flush f ftz a)) (f_xval f (f_flush f ftz b))) r"
  by (rule fmul_exact [OF assms])

theorem fmul_correct_witness:
  "\<exists>r. fmul F32_fmt Rn False True 0x40400000 0xBF000000 = Some (f_sat F32_fmt True r) \<and>
    x_result F32_fmt Rn False (x_mul (f_xval F32_fmt (f_flush F32_fmt False 0x40400000))
      (f_xval F32_fmt (f_flush F32_fmt False 0xBF000000))) r"
  by (rule fmul_correct) (simp add: fits_defs fmt_ok_def)

text \<open>C5: \<open>ffma\<close> is fused: the exact product plus the third operand is rounded once, never the product
  by itself; it does not panic.\<close>

theorem ffma_correct:
  assumes "fits2 f a b" and "f_fits f c"
  shows "\<exists>r. ffma f m ftz sat a b c = Some (f_sat f sat r) \<and>
    x_result f m ftz (x_add m (x_mul (f_xval f (f_flush f ftz a)) (f_xval f (f_flush f ftz b))) (f_xval f (f_flush f ftz c))) r"
  by (rule ffma_exact [OF assms])

theorem ffma_correct_witness:
  "\<exists>r. ffma F64_fmt Rm False False 0x3FF8000000000000 0x4000000000000000 0xC008000000000000 = Some (f_sat F64_fmt False r) \<and>
    x_result F64_fmt Rm False (x_add Rm (x_mul (f_xval F64_fmt (f_flush F64_fmt False 0x3FF8000000000000))
      (f_xval F64_fmt (f_flush F64_fmt False 0x4000000000000000))) (f_xval F64_fmt (f_flush F64_fmt False 0xC008000000000000))) r"
  by (rule ffma_correct) (simp_all add: fits_defs fmt_ok_def)

text \<open>C8: \<open>fdiv\<close> and \<open>frcp\<close> do not panic and give the exact quotient rounded once, with infinities for
  a zero divisor and NaN for \<open>0/0\<close> and \<open>inf/inf\<close>.\<close>

theorem fdiv_frcp_correct:
  assumes "fits2 f a b"
  shows "(\<exists>r. fdiv f m ftz a b = Some r \<and>
      x_result f m ftz (x_div (f_xval f (f_flush f ftz a)) (f_xval f (f_flush f ftz b))) r)
    \<and> (\<exists>r. frcp f m ftz b = Some r \<and>
      x_result f m ftz (x_div (f_xval f (f_flush f ftz (f_one f))) (f_xval f (f_flush f ftz b))) r)"
proof -
  have "fits2 f (f_one f) b" using assms f_one_fields(1) by (simp add: fits2_def)
  then show ?thesis using fdiv_exact [OF assms] fdiv_exact [of f "f_one f" b] unfolding frcp_def by blast
qed

theorem fdiv_frcp_correct_witness:
  "\<exists>r. fdiv F32_fmt Rn False 0x3F800000 0x40400000 = Some r \<and>
    x_result F32_fmt Rn False (x_div (f_xval F32_fmt (f_flush F32_fmt False 0x3F800000))
      (f_xval F32_fmt (f_flush F32_fmt False 0x40400000))) r"
  by (rule fdiv_frcp_correct [THEN conjunct1]) (simp add: fits_defs fmt_ok_def)

text \<open>C9: \<open>fsqrt\<close> does not panic and gives the exact square root rounded once, although it starts from
  a rounded estimate: the two correction loops of \<open>isqrt\<close> and the halfway comparison repair it.\<close>

theorem fsqrt_correct:
  assumes "fmt_ok f" and "fb f \<le> 52" and "f_fits f a"
  shows "\<exists>r. fsqrt f m ftz a = Some r \<and> x_result f m ftz (x_sqrt (f_xval f (f_flush f ftz a))) r"
  by (rule fsqrt_exact [OF assms])

theorem fsqrt_correct_witness:
  "\<exists>r. fsqrt F64_fmt Rp False 0x4000000000000000 = Some r
    \<and> x_result F64_fmt Rp False (x_sqrt (f_xval F64_fmt (f_flush F64_fmt False 0x4000000000000000))) r"
  by (rule fsqrt_correct) (simp_all add: fits_defs fmt_ok_def)

section \<open>Rounding\<close>

text \<open>C10: \<open>f_round\<close> gives the pattern of the exact value: below the overflow threshold the value of the
  result is the value rounded to the format's grid in the given mode, above it is the infinity or
  the largest finite number the mode asks for, and a tiny value is flushed under \<open>ftz\<close>.\<close>

theorem round_correct:
  assumes "fmt_ok f" and "q_ok q"
  shows "\<exists>p. f_round f m ftz q z = Some p \<and> f_rounds f m ftz z (q_val q) p"
  using f_round_rounds [OF assms] by metis

theorem round_correct_witness:
  "\<exists>p. f_round F32_fmt Rn False (f_to_q F64_fmt 0x3FB999999999999A) False = Some p
    \<and> f_rounds F32_fmt Rn False False (q_val (f_to_q F64_fmt 0x3FB999999999999A)) p"
  by (rule round_correct) simp_all

text \<open>Decoding a finite pattern to its exact value and rounding it in any mode gives the pattern
  back, the sign of a zero included.\<close>

theorem decode_round_roundtrip:
  assumes "fmt_ok f" and "f_finite f x" and "f_fits f x" and "f_is_zero f x \<Longrightarrow> z = f_sgn f x"
  shows "f_round f m False (f_to_q f x) z = Some x"
  by (rule round_repr [OF assms])

theorem decode_round_roundtrip_witness:
  "f_round F32_fmt Rp False (f_to_q F32_fmt 0x80000001) False = Some 0x80000001"
  by (rule decode_round_roundtrip)
    (simp_all add: fmt_ok_def fits_defs f_finite_def f_bexp_def f_exp_max_def f_is_zero_def f_frac_def mask_eq_exp_minus_1)

text \<open>Saturation: \<open>sat_bits\<close> clamps to the unit interval: NaN and negative results give a zero, results above
  one give one, the rest keep their value.\<close>

theorem sat_correct:
  assumes "fmt_ok f" and "\<And>x. r = Some x \<Longrightarrow> f_fits f x"
  shows "\<exists>p. sat_bits f True r = Some p \<and> f_finite f p \<and> f_fits f p \<and>
    f_val f p = (case map_option (f_xval f) r of None \<Rightarrow> 0 | Some XNaN \<Rightarrow> 0 | Some (XInf s) \<Rightarrow> if s then 0 else 1
      | Some (XReal _ x) \<Rightarrow> max 0 (min 1 x))"
  using f_sat_exact [OF assms] unfolding sat_bits_def by metis

theorem sat_correct_witness:
  "\<exists>p. sat_bits F32_fmt True (Some 0x40000000) = Some p \<and> f_finite F32_fmt p \<and> f_fits F32_fmt p \<and>
    f_val F32_fmt p = (case map_option (f_xval F32_fmt) (Some 0x40000000) of None \<Rightarrow> 0 | Some XNaN \<Rightarrow> 0
      | Some (XInf s) \<Rightarrow> if s then 0 else 1 | Some (XReal _ x) \<Rightarrow> max 0 (min 1 x))"
  by (rule sat_correct) (simp_all add: fmt_ok_def fits_defs)

section \<open>Comparison and selection\<close>

text \<open>C11: \<open>fsetp\<close> decides its predicate of the order of the extended reals, for each of the fourteen
  comparisons: the integer keys of the patterns order them, signed zeros are equal, and the unordered
  predicates hold exactly when an operand is a NaN or the ordered one holds.\<close>

theorem fsetp_correct:
  assumes "fits2 f a b"
  shows "fsetp f c ftz a b = fcmp_holds c (x_cmp (f_xval f (f_flush f ftz a)) (f_xval f (f_flush f ftz b)))"
  by (rule fsetp_exact [OF assms])

theorem fsetp_correct_witness:
  "fsetp F32_fmt FLeu True 0x80000001 0x7FC00000
    = fcmp_holds FLeu (x_cmp (f_xval F32_fmt (f_flush F32_fmt True 0x80000001)) (f_xval F32_fmt (f_flush F32_fmt True 0x7FC00000)))"
  by (rule fsetp_correct) (simp add: fits_defs fmt_ok_def)

text \<open>C12: \<open>fminmax\<close> gives no number exactly when both operands are NaN, or one is under \<open>.NaN\<close>; otherwise
  it returns one of the flushed operands that is not a NaN and that bounds both, with \<open>-0\<close> below \<open>+0\<close>.\<close>

theorem fminmax_correct:
  assumes "fits2 f a b" and "a' = f_flush f ftz a" and "b' = f_flush f ftz b"
  shows "case fminmax f is_max ftz nan a b of
      None \<Rightarrow> f_is_nan f a' \<and> f_is_nan f b' \<or> nan \<and> (f_is_nan f a' \<or> f_is_nan f b')
    | Some r \<Rightarrow> \<not> f_is_nan f r \<and> (r = a' \<or> r = b')
        \<and> (\<forall>s\<in>{a', b'}. if is_max then \<not> x_lt (f_xval f r) (f_xval f s) else \<not> x_lt (f_xval f s) (f_xval f r))"
  by (rule fminmax_exact [OF assms])

theorem fminmax_correct_witness:
  "case fminmax F32_fmt True False False 0x80000000 0x00000000 of
      None \<Rightarrow> f_is_nan F32_fmt (f_flush F32_fmt False 0x80000000) \<and> f_is_nan F32_fmt (f_flush F32_fmt False 0)
        \<or> False \<and> (f_is_nan F32_fmt (f_flush F32_fmt False 0x80000000) \<or> f_is_nan F32_fmt (f_flush F32_fmt False 0))
    | Some r \<Rightarrow> \<not> f_is_nan F32_fmt r \<and> (r = f_flush F32_fmt False 0x80000000 \<or> r = f_flush F32_fmt False 0)
        \<and> (\<forall>s\<in>{f_flush F32_fmt False 0x80000000, f_flush F32_fmt False 0}.
            if True then \<not> x_lt (f_xval F32_fmt r) (f_xval F32_fmt s) else \<not> x_lt (f_xval F32_fmt s) (f_xval F32_fmt r))"
  by (rule fminmax_correct) (simp_all add: fits_defs fmt_ok_def)

section \<open>Conversions\<close>

text \<open>C13: \<open>to_int\<close> rounds the exact value to an integer and clamps it to the type, and gives the fixed
  pattern of a NaN; its early clamp at \<open>2 ^ 70\<close> does not show.\<close>

theorem to_int_correct:
  assumes "1 \<le> w" and "w \<le> 64"
  shows "to_int f m ftz sg w a = Some (x_to_int m (f = F64_fmt) sg w (f_xval f (f_flush f ftz a)))"
  by (rule to_int_exact [OF assms])

theorem to_int_correct_witness:
  "to_int F32_fmt Rz False True 32 0xC0200000
    = Some (x_to_int Rz (F32_fmt = F64_fmt) True 32 (f_xval F32_fmt (f_flush F32_fmt False 0xC0200000)))"
  by (rule to_int_correct) simp_all

text \<open>From integers: \<open>of_int\<close> rounds an \<open>i128\<close> integer once to the format, and does not panic.\<close>

theorem of_int_correct:
  assumes "fmt_ok f" and "\<bar>v\<bar> < 2 ^ 127"
  shows "\<exists>p. of_int_bits f m ftz v = Some p \<and> f_rounds f m ftz False (of_int v) p"
  by (rule of_int_exact [OF assms])

theorem of_int_correct_witness:
  "\<exists>p. of_int_bits F32_fmt Rn False (-16777217) = Some p \<and> f_rounds F32_fmt Rn False False (of_int (-16777217)) p"
  by (rule of_int_correct) simp_all

text \<open>Rounding to an integer: \<open>round_integral\<close> keeps infinities and gives the pattern of the value rounded to an integer, with
  the sign of its operand also when it rounds to zero.\<close>

theorem round_integral_correct:
  assumes "fmt_ok f" and "int (fb f) \<le> f_emax f" and "f_fits f a" and "a' = f_flush f ftz a"
  shows "case f_xval f a' of
      XNaN \<Rightarrow> round_integral f m ftz a = Some None
    | XInf s \<Rightarrow> round_integral f m ftz a = Some (Some (f_inf f s))
    | XReal s x \<Rightarrow> \<exists>r. round_integral f m ftz a = Some (Some r) \<and> f_repr f r s (of_int (rnd_int m x))"
  by (rule round_integral_exact [OF assms])

theorem round_integral_correct_witness:
  "case f_xval F32_fmt (f_flush F32_fmt False 0xBE800000) of
      XNaN \<Rightarrow> round_integral F32_fmt Rn False 0xBE800000 = Some None
    | XInf s \<Rightarrow> round_integral F32_fmt Rn False 0xBE800000 = Some (Some (f_inf F32_fmt s))
    | XReal s x \<Rightarrow> \<exists>r. round_integral F32_fmt Rn False 0xBE800000 = Some (Some r) \<and> f_repr F32_fmt r s (of_int (rnd_int Rn x))"
  by (rule round_integral_correct) (simp_all add: fmt_ok_def fits_defs f_emax_def f_bias_def)

text \<open>C14: \<open>convert\<close> between formats rounds the exact value once to the target, keeps infinities and the
  signs of zeros, and flushes on the \<open>.f32\<close> side only.\<close>

theorem convert_correct:
  assumes "fmt_ok d" and "fmt_ok s"
  shows "\<exists>r. convert_f d s m ftz sat a = Some (f_sat d sat r)
    \<and> x_result d m (ftz \<and> d = F32_fmt) (f_xval s (f_flush s (ftz \<and> s = F32_fmt) a)) r"
  by (rule convert_exact [OF assms])

theorem convert_correct_witness:
  "\<exists>r. convert_f F32_fmt F64_fmt Rn True False 0x3FB999999999999A = Some (f_sat F32_fmt False r)
    \<and> x_result F32_fmt Rn (True \<and> F32_fmt = F32_fmt) (f_xval F64_fmt (f_flush F64_fmt (True \<and> F64_fmt = F32_fmt) 0x3FB999999999999A)) r"
  by (rule convert_correct) simp_all

section \<open>Big numbers and the integer square root\<close>

text \<open>C15: the operations of \<open>Big\<close> compute the numbers that the limbs stand for, of any size: sum, product
  and shift, the difference of a number and one not above it, the comparison. Each result has no
  zero at the top of its limbs, and the product does not panic. The bitwise division gives the quotient and the remainder by a nonzero
  divisor, without panic whenever the quotient is below \<open>2 ^ 127\<close>, which is the width its loop has.\<close>

theorem big_arithmetic_correct:
  assumes "big_ok a" and "big_ok b"
  shows "(\<exists>c. big_mul a b = Some c \<and> big_ok c \<and> big_val c = big_val a * big_val b)
    \<and> big_ok (big_add a b) \<and> big_val (big_add a b) = big_val a + big_val b
    \<and> (big_val b \<le> big_val a \<longrightarrow> big_ok (big_sub a b) \<and> big_val (big_sub a b) = big_val a - big_val b)
    \<and> big_cmp a b = nat_cmp (big_val a) (big_val b)
    \<and> big_ok (big_shl a n) \<and> big_val (big_shl a n) = big_val a * 2 ^ n
    \<and> (0 < big_val b \<longrightarrow> big_val a < 2 ^ 127 * big_val b \<longrightarrow>
        (\<exists>r. divrem_small a b = Some (big_val a div big_val b, r) \<and> big_ok r \<and> big_val r = big_val a mod big_val b))"
  using big_mul_val [of a b] divrem_small_val [OF assms] big_add_val [of a b] big_cmp_val [OF assms]
    big_shl_val [OF assms(1), of n] big_shl_ok [OF assms(1), of n] big_sub_val [of b a]
  by (simp add: big_add_def big_sub_def)

theorem big_arithmetic_correct_witness:
  "big_val (big_add (big_shl (big_from 3) 200) (big_from 7)) = 3 * 2 ^ 200 + 7
    \<and> (\<exists>r. divrem_small (big_from 100) (big_from 7) = Some (100 div 7, r) \<and> big_ok r \<and> big_val r = 100 mod 7)"
proof -
  have s: "big_ok (big_shl (big_from 3) 200)" "big_val (big_shl (big_from 3) 200) = 3 * 2 ^ 200"
    using big_arithmetic_correct [of "big_from 3" "big_from 7" 200] by simp_all
  have "big_val (big_add (big_shl (big_from 3) 200) (big_from 7)) = 3 * 2 ^ 200 + 7"
    using big_arithmetic_correct [OF s(1), of "big_from 7" 0] s(2) by simp
  then show ?thesis using big_arithmetic_correct [of "big_from 100" "big_from 7" 0] by simp
qed

text \<open>C16: \<open>isqrt\<close> returns the integer square root for every argument the code gives it: the loops that
  repair the floating-point estimate end, and their products do not overflow.\<close>

theorem isqrt_correct:
  assumes "n < 2 ^ 120"
  shows "\<exists>k. isqrt n = Some k \<and> k * k \<le> n \<and> n < (k + 1) * (k + 1)"
  by (rule isqrt_val [OF assms])

theorem isqrt_correct_witness:
  "\<exists>k. isqrt 1000003 = Some k \<and> k * k \<le> 1000003 \<and> 1000003 < (k + 1) * (k + 1)"
  by (rule isqrt_correct) simp

end
