(* ===== verification/Ptx_Num.thy ===== *)
theory Ptx_Num
  imports Prelude "HOL-Library.Char_ord"
begin

text \<open>
  The decimal and hexadecimal numerals of the Rust formatting and parsing functions that the
  printer, the lexer and the checker use (\<open>to_string\<close>, \<open>{v:08X}\<close>, \<open>from_str_radix\<close>, \<open>parse\<close>),
  and that parsing a printed numeral gives the number back.
\<close>

section \<open>Digits\<close>

definition digit_char :: "nat \<Rightarrow> char" where
  "digit_char d = (if d < 10 then char_of (48 + d) else char_of (55 + d))"

definition char_code :: "char \<Rightarrow> nat" where "char_code c = of_char c"

definition is_ascii_digit :: "char \<Rightarrow> bool" where
  "is_ascii_digit c \<longleftrightarrow> 48 \<le> char_code c \<and> char_code c \<le> 57"

definition is_ascii_alphabetic :: "char \<Rightarrow> bool" where
  "is_ascii_alphabetic c \<longleftrightarrow> 65 \<le> char_code c \<and> char_code c \<le> 90 \<or> 97 \<le> char_code c \<and> char_code c \<le> 122"

definition is_ascii_alphanumeric :: "char \<Rightarrow> bool" where
  "is_ascii_alphanumeric c \<longleftrightarrow> is_ascii_alphabetic c \<or> is_ascii_digit c"

text \<open>\<open>char::to_digit\<close> for a radix up to 16.\<close>

definition to_digit :: "nat \<Rightarrow> char \<Rightarrow> nat option" where
  "to_digit radix c = (let n = char_code c;
     d = (if 48 \<le> n \<and> n \<le> 57 then Some (n - 48)
       else if 65 \<le> n \<and> n \<le> 90 then Some (n - 55)
       else if 97 \<le> n \<and> n \<le> 122 then Some (n - 87)
       else None)
   in case d of Some d \<Rightarrow> if d < radix then Some d else None | None \<Rightarrow> None)"

section \<open>Printing and parsing\<close>

text \<open>The digits of \<open>n\<close> to base \<open>radix\<close>, most significant first.\<close>

fun show_radix :: "nat \<Rightarrow> nat \<Rightarrow> string" where
  "show_radix radix n = (if n < radix \<or> radix < 2 then [digit_char n] else show_radix radix (n div radix) @ [digit_char (n mod radix)])"

declare show_radix.simps [simp del]

definition show_nat :: "nat \<Rightarrow> string" where "show_nat n = show_radix 10 n"

definition show_int :: "int \<Rightarrow> string" where
  "show_int v = (if v < 0 then CHR ''-'' # show_nat (nat (- v)) else show_nat (nat v))"

definition show_hex :: "nat \<Rightarrow> nat \<Rightarrow> string" where
  "show_hex w n = (let s = show_radix 16 n in replicate (w - length s) (CHR ''0'') @ s)"

fun digits_val :: "nat \<Rightarrow> nat \<Rightarrow> string \<Rightarrow> nat option" where
  "digits_val radix acc [] = Some acc"
| "digits_val radix acc (c # cs) = (case to_digit radix c of
     None \<Rightarrow> None | Some d \<Rightarrow> digits_val radix (acc * radix + d) cs)"

text \<open>\<open>from_str_radix\<close> for an unsigned or signed type whose values are below \<open>limit\<close>, on text
  without a sign: an empty text is an error, and so is a value that does not fit.\<close>

definition from_str_radix :: "nat \<Rightarrow> nat \<Rightarrow> string \<Rightarrow> nat option" where
  "from_str_radix limit radix s = (if s = [] then None
     else case digits_val radix 0 s of Some v \<Rightarrow> if v < limit then Some v else None | None \<Rightarrow> None)"

section \<open>Round trip\<close>

lemma to_digit_char: "d < 16 \<Longrightarrow> d < radix \<Longrightarrow> to_digit radix (digit_char d) = Some d"
  by (auto simp: to_digit_def digit_char_def char_code_def)

lemma digits_val_append: "digits_val radix acc (xs @ ys) = Option.bind (digits_val radix acc xs) (\<lambda>v. digits_val radix v ys)"
  by (induction xs arbitrary: acc) (simp_all split: option.split)

lemma digits_val_show: "2 \<le> radix \<Longrightarrow> radix \<le> 16 \<Longrightarrow> digits_val radix 0 (show_radix radix n) = Some n"
proof (induction n rule: less_induct)
  case (less n)
  show ?case
  proof (cases "n < radix")
    case True
    then show ?thesis using less.prems by (subst show_radix.simps) (simp add: to_digit_char)
  next
    case False
    then have "n div radix < n" using less.prems by simp
    then have IH: "digits_val radix 0 (show_radix radix (n div radix)) = Some (n div radix)"
      using less by blast
    have "n mod radix < radix" using less.prems by simp
    then have d: "to_digit radix (digit_char (n mod radix)) = Some (n mod radix)"
      using less.prems by (intro to_digit_char) linarith
    have "show_radix radix n = show_radix radix (n div radix) @ [digit_char (n mod radix)]"
      using False less.prems by (subst show_radix.simps) simp
    then show ?thesis by (simp add: digits_val_append IH d)
  qed
qed

lemma show_radix_ne: "show_radix radix n \<noteq> []"
  by (subst show_radix.simps) simp

lemma from_str_show: "2 \<le> radix \<Longrightarrow> radix \<le> 16 \<Longrightarrow> n < limit \<Longrightarrow> from_str_radix limit radix (show_radix radix n) = Some n"
  by (simp add: from_str_radix_def digits_val_show show_radix_ne)

lemma show_radix_digits: "2 \<le> radix \<Longrightarrow> radix \<le> 16 \<Longrightarrow> c \<in> set (show_radix radix n) \<Longrightarrow> \<exists>d<radix. c = digit_char d"
proof (induction n rule: less_induct)
  case (less n)
  show ?case
  proof (cases "n < radix")
    case True
    then have "show_radix radix n = [digit_char n]" by (subst show_radix.simps) simp
    then show ?thesis using less.prems(3) True by auto
  next
    case False
    then have "n div radix < n" using less.prems by simp
    then have IH: "c \<in> set (show_radix radix (n div radix)) \<Longrightarrow> \<exists>d<radix. c = digit_char d"
      using less by blast
    have "show_radix radix n = show_radix radix (n div radix) @ [digit_char (n mod radix)]"
      using False less.prems by (subst show_radix.simps) simp
    moreover have "n mod radix < radix" using less.prems by simp
    ultimately show ?thesis using less.prems(3) IH by auto
  qed
qed

lemma show_radix_inj: "2 \<le> radix \<Longrightarrow> radix \<le> 16 \<Longrightarrow> show_radix radix m = show_radix radix n \<longleftrightarrow> m = n"
  using digits_val_show [of radix m] digits_val_show [of radix n] by (metis option.inject)

end
