(* ===== verification/Ptx_Lex.thy ===== *)
theory Ptx_Lex
  imports Ptx_Num
begin

text \<open>
  The tokens of \<open>crates/e5r-ptx/src/lex.rs\<close>: \<open>int_value\<close>, \<open>float_value\<close> and \<open>lex\<close>, over text whose
  characters are code points below 256.
\<close>

section \<open>Tokens\<close>

datatype tok = TWord string | TInt int | TNum string | TFloat u64 nat | TPunct char

record token =
  tk_tok :: tok
  tk_line :: nat

datatype lex_err = Unterminated nat | Unexpected nat char

definition word_start :: "char \<Rightarrow> bool" where
  "word_start c \<longleftrightarrow> is_ascii_alphabetic c \<or> c \<in> {CHR ''_'', CHR ''$'', CHR ''%'', CHR ''.''}"

definition word_char :: "char \<Rightarrow> bool" where
  "word_char c \<longleftrightarrow> is_ascii_alphanumeric c \<or> c \<in> {CHR ''_'', CHR ''$'', CHR ''%'', CHR ''.''}"

definition num_char :: "char \<Rightarrow> bool" where
  "num_char c \<longleftrightarrow> is_ascii_alphanumeric c \<or> c = CHR ''.''"

definition is_whitespace :: "char \<Rightarrow> bool" where
  "is_whitespace c \<longleftrightarrow> char_code c \<in> {9, 10, 11, 12, 13, 32, 133, 160}"

definition punct_chars :: string where "punct_chars = ''{}()[]<>,;:@!+-''"

definition newline :: char where "newline = CHR 0x0A"

section \<open>Numeric literals\<close>

fun strip_prefix :: "string \<Rightarrow> string \<Rightarrow> string option" where
  "strip_prefix [] s = Some s"
| "strip_prefix (p # ps) (c # s) = (if p = c then strip_prefix ps s else None)"
| "strip_prefix (p # ps) [] = None"

definition strip_suffix_U :: "string \<Rightarrow> string" where
  "strip_suffix_U s = (if s \<noteq> [] \<and> last s = CHR ''U'' then butlast s else s)"

text \<open>The text of a numeral has no sign: the lexer gives these functions letters, digits and dots.\<close>

definition int_value :: "string \<Rightarrow> int option" where
  "int_value s = (let s = strip_suffix_U s in
     case (case strip_prefix ''0x'' s of Some h \<Rightarrow> Some h | None \<Rightarrow> strip_prefix ''0X'' s) of
       Some h \<Rightarrow> map_option int (from_str_radix (2 ^ 127) 16 h)
     | None \<Rightarrow> if length s > 1 \<and> hd s = CHR ''0'' then None
         else map_option int (from_str_radix (2 ^ 127) 10 s))"

text \<open>The same over integers, so that a run of the lexer does not count to \<open>2 ^ 127\<close> in unary.\<close>

lemma int_value_code [code]: "int_value s = (let s = strip_suffix_U s;
    fit = (\<lambda>d. case d of Some v \<Rightarrow> if int v < 2 ^ 127 then Some (int v) else None | None \<Rightarrow> None) in
  case (case strip_prefix ''0x'' s of Some h \<Rightarrow> Some h | None \<Rightarrow> strip_prefix ''0X'' s) of
    Some h \<Rightarrow> (if h = [] then None else fit (digits_val 16 0 h))
  | None \<Rightarrow> if length s > 1 \<and> hd s = CHR ''0'' then None
      else (if s = [] then None else fit (digits_val 10 0 s)))"
proof -
  have "int v < 2 ^ 127 \<longleftrightarrow> v < 2 ^ 127" for v :: nat
    using of_nat_less_iff [where 'a = int, of v "2 ^ 127"] by simp
  then show ?thesis
    by (simp add: int_value_def from_str_radix_def Let_def del: of_nat_less_iff split: option.split)
qed

definition is_ascii_hexdigit :: "char \<Rightarrow> bool" where
  "is_ascii_hexdigit c \<longleftrightarrow> to_digit 16 c \<noteq> None"

definition float_digits :: "string \<Rightarrow> nat \<Rightarrow> (u64 \<times> nat) option" where
  "float_digits h w = (if length h \<noteq> w div 4 \<or> \<not> list_all is_ascii_hexdigit h then None
     else map_option (\<lambda>v. (of_nat v, w)) (from_str_radix (2 ^ 64) 16 h))"

definition float_value :: "string \<Rightarrow> (u64 \<times> nat) option" where
  "float_value s = (
     case (case strip_prefix ''0f'' s of Some h \<Rightarrow> Some h | None \<Rightarrow> strip_prefix ''0F'' s) of
       Some h \<Rightarrow> float_digits h 32
     | None \<Rightarrow> (case (case strip_prefix ''0d'' s of Some h \<Rightarrow> Some h | None \<Rightarrow> strip_prefix ''0D'' s) of
         Some h \<Rightarrow> float_digits h 64
       | None \<Rightarrow> None))"

section \<open>The lexer\<close>

text \<open>The block comment that opened at line \<open>start\<close>: the line and the text after it.\<close>

fun skip_comment :: "nat \<Rightarrow> nat \<Rightarrow> string \<Rightarrow> lex_err + nat \<times> string" where
  "skip_comment start line [] = Inl (Unterminated start)"
| "skip_comment start line (c # cs) = (if c = CHR ''*'' \<and> cs \<noteq> [] \<and> hd cs = CHR ''/'' then Inr (line, tl cs)
     else skip_comment start (if c = newline then line + 1 else line) cs)"

lemma skip_comment_length: "skip_comment start line cs = Inr (line', cs') \<Longrightarrow> length cs' < length cs"
  by (induction start line cs rule: skip_comment.induct) (auto split: if_splits)

definition number_tok :: "string \<Rightarrow> tok" where
  "number_tok text = (case float_value text of
     Some (v, w) \<Rightarrow> TFloat v w
   | None \<Rightarrow> (case int_value text of Some v \<Rightarrow> TInt v | None \<Rightarrow> TNum text))"

definition push_tok :: "tok \<Rightarrow> nat \<Rightarrow> lex_err + token list \<Rightarrow> lex_err + token list" where
  "push_tok t line r = (case r of Inl e \<Rightarrow> Inl e | Inr ts \<Rightarrow> Inr (\<lparr>tk_tok = t, tk_line = line\<rparr> # ts))"

lemma dropWhile_length: "P c \<Longrightarrow> length (dropWhile P (c # cs)) < Suc (length cs)"
  using length_dropWhile_le [of P cs] by simp

function lex_from :: "nat \<Rightarrow> string \<Rightarrow> lex_err + token list" where
  "lex_from line [] = Inr []"
| "lex_from line (c # cs) = (
     if c = newline then lex_from (line + 1) cs
     else if is_whitespace c then lex_from line cs
     else if c = CHR ''/'' \<and> cs \<noteq> [] \<and> hd cs = CHR ''/'' then lex_from line (dropWhile (\<lambda>x. x \<noteq> newline) (c # cs))
     else if c = CHR ''/'' \<and> cs \<noteq> [] \<and> hd cs = CHR ''*'' then
       (case skip_comment line line (tl cs) of
          Inl e \<Rightarrow> Inl e
        | Inr (line, rest) \<Rightarrow> lex_from line rest)
     else if word_start c then
       push_tok (TWord (takeWhile word_char (c # cs))) line (lex_from line (dropWhile word_char (c # cs)))
     else if is_ascii_digit c then
       push_tok (number_tok (takeWhile num_char (c # cs))) line (lex_from line (dropWhile num_char (c # cs)))
     else if c \<in> set punct_chars then push_tok (TPunct c) line (lex_from line cs)
     else Inl (Unexpected line c))"
  by pat_completeness auto
termination
proof (relation "measure (\<lambda>(line, cs). length cs)", goal_cases)
  case (4 line c cs)
  then show ?case using dropWhile_length [of "\<lambda>x. x \<noteq> newline" c cs] by simp
next
  case (5 line c cs x line' rest)
  then show ?case using skip_comment_length [of line line "tl cs" line' rest] by (cases cs) auto
next
  case (6 line c cs)
  then have "word_char c" by (auto simp: word_start_def word_char_def is_ascii_alphanumeric_def)
  then show ?case using dropWhile_length [of word_char c cs] by simp
next
  case (7 line c cs)
  then have "num_char c" by (simp add: num_char_def is_ascii_alphanumeric_def)
  then show ?case using dropWhile_length [of num_char c cs] by simp
qed auto

declare lex_from.simps(2) [simp del]

definition lex :: "string \<Rightarrow> lex_err + token list" where
  "lex s = lex_from 1 s"

section \<open>Integer literals\<close>

text \<open>The digits that the printer writes, as the lexer sees them.\<close>

lemma digit_char_code: "d < 10 \<Longrightarrow> char_code (digit_char d) = 48 + d"
  by (simp add: digit_char_def char_code_def)

lemma show_nat_digits: "c \<in> set (show_nat n) \<Longrightarrow> is_ascii_digit c"
  using show_radix_digits [of 10 c n] by (auto simp: show_nat_def is_ascii_digit_def digit_char_code)

lemma show_nat_ne [simp]: "show_nat n \<noteq> []"
  by (simp add: show_nat_def show_radix_ne)

lemma zero_code: "char_code (CHR ''0'') = 48" "char_code (CHR ''U'') = 85"
  by (simp_all add: char_code_def)

lemma show_nat_hd: "0 < n \<Longrightarrow> hd (show_nat n) \<noteq> CHR ''0''"
  unfolding show_nat_def
proof (induction n rule: less_induct)
  case (less n)
  show ?case
  proof (cases "n < 10")
    case True
    then have "char_code (hd (show_radix 10 n)) = 48 + n" by (subst show_radix.simps) (simp add: digit_char_code)
    then show ?thesis using less.prems zero_code by force
  next
    case False
    then have "hd (show_radix 10 (n div 10)) \<noteq> CHR ''0''" using less by simp
    moreover have "show_radix 10 n = show_radix 10 (n div 10) @ [digit_char (n mod 10)]"
      using False by (subst show_radix.simps) simp
    ultimately show ?thesis by (simp add: show_radix_ne)
  qed
qed

lemma show_nat_0: "show_nat 0 = ''0''"
proof -
  have "digit_char 0 = CHR ''0''" by code_simp
  then show ?thesis unfolding show_nat_def by (subst show_radix.simps) simp
qed

lemma show_nat_prefix: "c \<noteq> CHR ''0'' \<Longrightarrow> strip_prefix (CHR ''0'' # c # cs) (show_nat n) = None"
proof (cases "n = 0")
  case False
  then show ?thesis using show_nat_hd [of n] by (cases "show_nat n") auto
qed (simp add: show_nat_0)

lemma show_nat_float: "float_value (show_nat n) = None"
  by (simp add: float_value_def show_nat_prefix)

lemma show_nat_suffix: "strip_suffix_U (show_nat n) = show_nat n"
proof -
  have "last (show_nat n) \<noteq> CHR ''U''"
    using show_nat_digits [of "last (show_nat n)" n] by (auto simp: is_ascii_digit_def zero_code)
  then show ?thesis by (simp add: strip_suffix_U_def)
qed

lemma show_nat_int: "n < 2 ^ 127 \<Longrightarrow> int_value (show_nat n) = Some (int n)"
proof -
  assume n: "n < 2 ^ 127"
  have "\<not> (1 < length (show_nat n) \<and> hd (show_nat n) = CHR ''0'')"
    using show_nat_hd [of n] by (cases "n = 0") (auto simp: show_nat_0)
  moreover have "from_str_radix (2 ^ 127) 10 (show_nat n) = Some n"
    unfolding show_nat_def by (rule from_str_show) (use n in simp_all)
  ultimately show ?thesis by (simp add: int_value_def Let_def show_nat_suffix show_nat_prefix)
qed

lemma show_nat_tok: "n < 2 ^ 127 \<Longrightarrow> number_tok (show_nat n) = TInt (int n)"
  by (simp add: number_tok_def show_nat_float show_nat_int)

end
