(* ===== verification/Ptx_Ast.thy ===== *)
theory Ptx_Ast
  imports Ptx_Fp
begin

text \<open>
  The abstract syntax of \<open>crates/e5r-ptx/src/ast.rs\<close>: one datatype per enum, one record per
  struct, with the source's spelling tables. A spelling table and its parser are an instance of
  the locale \<open>spelling\<close>: parsing a spelling gives the constructor back, and nothing else does.
\<close>

section \<open>Spelling tables\<close>

locale spelling =
  fixes name :: "'a \<Rightarrow> string" and from_name :: "string \<Rightarrow> 'a option"
  assumes parse_iff: "from_name s = Some x \<longleftrightarrow> s = name x"
begin

lemma parse_name: "from_name (name x) = Some x"
  by (simp add: parse_iff)

lemma name_inj: "name x = name y \<longleftrightarrow> x = y"
  using parse_iff [of "name x" y] parse_iff [of "name x" x] by auto

lemma parse_none: "from_name s = None \<longleftrightarrow> s \<notin> range name"
  using parse_iff by (metis option.exhaust option.distinct(1) rangeE rangeI)

end

section \<open>Types\<close>

datatype ty = U32 | S32 | B32 | U64 | S64 | B64 | Pred | F32 | F64

fun ty_name :: "ty \<Rightarrow> string" where
  "ty_name U32 = ''u32''"
| "ty_name S32 = ''s32''"
| "ty_name B32 = ''b32''"
| "ty_name U64 = ''u64''"
| "ty_name S64 = ''s64''"
| "ty_name B64 = ''b64''"
| "ty_name Pred = ''pred''"
| "ty_name F32 = ''f32''"
| "ty_name F64 = ''f64''"

definition ty_from_name :: "string \<Rightarrow> ty option" where
  "ty_from_name s = (
     if s = ''u32'' then Some U32
     else if s = ''s32'' then Some S32
     else if s = ''b32'' then Some B32
     else if s = ''u64'' then Some U64
     else if s = ''s64'' then Some S64
     else if s = ''b64'' then Some B64
     else if s = ''pred'' then Some Pred
     else if s = ''f32'' then Some F32
     else if s = ''f64'' then Some F64
     else None)"

fun ty_width :: "ty \<Rightarrow> nat option" where
  "ty_width U32 = Some 32"
| "ty_width S32 = Some 32"
| "ty_width B32 = Some 32"
| "ty_width F32 = Some 32"
| "ty_width U64 = Some 64"
| "ty_width S64 = Some 64"
| "ty_width B64 = Some 64"
| "ty_width F64 = Some 64"
| "ty_width Pred = None"

definition is_bits :: "ty \<Rightarrow> bool" where "is_bits t \<longleftrightarrow> t \<in> {B32, B64}"
definition is_float :: "ty \<Rightarrow> bool" where "is_float t \<longleftrightarrow> t \<in> {F32, F64}"
definition is_int :: "ty \<Rightarrow> bool" where "is_int t \<longleftrightarrow> t \<in> {U32, S32, U64, S64}"
definition ty_fmt :: "ty \<Rightarrow> fmt" where "ty_fmt t = (if t = F64 then F64_fmt else F32_fmt)"

interpretation ty_spelling: spelling ty_name ty_from_name
proof unfold_locales
  show "ty_from_name s = Some x \<longleftrightarrow> s = ty_name x" for s x
    by (cases x) (auto simp: ty_from_name_def)
qed

section \<open>Registers, operands, addresses\<close>

datatype dim = DX | DY | DZ

datatype sreg = Tid dim | Ntid dim | Ctaid dim | Nctaid dim

datatype operand =
    OReg string
  | OImm int
  | OSreg sreg
  | OSym string
  | OFImm u64 nat

datatype address = AReg string "int option" | AParam string "int option"

section \<open>Operators\<close>

datatype cmp_op = CEq | CNe | CLt | CLe | CGt | CGe | CLo | CLs | CHi | CHs

fun cmp_name :: "cmp_op \<Rightarrow> string" where
  "cmp_name CEq = ''eq''"
| "cmp_name CNe = ''ne''"
| "cmp_name CLt = ''lt''"
| "cmp_name CLe = ''le''"
| "cmp_name CGt = ''gt''"
| "cmp_name CGe = ''ge''"
| "cmp_name CLo = ''lo''"
| "cmp_name CLs = ''ls''"
| "cmp_name CHi = ''hi''"
| "cmp_name CHs = ''hs''"

definition cmp_from_name :: "string \<Rightarrow> cmp_op option" where
  "cmp_from_name s = (
     if s = ''eq'' then Some CEq
     else if s = ''ne'' then Some CNe
     else if s = ''lt'' then Some CLt
     else if s = ''le'' then Some CLe
     else if s = ''gt'' then Some CGt
     else if s = ''ge'' then Some CGe
     else if s = ''lo'' then Some CLo
     else if s = ''ls'' then Some CLs
     else if s = ''hi'' then Some CHi
     else if s = ''hs'' then Some CHs
     else None)"

definition is_ordered :: "cmp_op \<Rightarrow> bool" where "is_ordered c \<longleftrightarrow> c \<notin> {CEq, CNe}"

datatype space = Global | Param | Shared

fun space_name :: "space \<Rightarrow> string" where
  "space_name Global = ''global''"
| "space_name Param = ''param''"
| "space_name Shared = ''shared''"

datatype atom_op = AAdd | AMin | AMax | AExch | AAnd | AOr | AXor

fun atom_name :: "atom_op \<Rightarrow> string" where
  "atom_name AAdd = ''add''"
| "atom_name AMin = ''min''"
| "atom_name AMax = ''max''"
| "atom_name AExch = ''exch''"
| "atom_name AAnd = ''and''"
| "atom_name AOr = ''or''"
| "atom_name AXor = ''xor''"

definition atom_from_name :: "string \<Rightarrow> atom_op option" where
  "atom_from_name s = (
     if s = ''add'' then Some AAdd
     else if s = ''min'' then Some AMin
     else if s = ''max'' then Some AMax
     else if s = ''exch'' then Some AExch
     else if s = ''and'' then Some AAnd
     else if s = ''or'' then Some AOr
     else if s = ''xor'' then Some AXor
     else None)"

datatype bin_op = BAdd | BSub | BMulLo | BMulWide | BAnd | BOr | BXor | BShl | BShr

fun bin_opcode :: "bin_op \<Rightarrow> string" where
  "bin_opcode BAdd = ''add''"
| "bin_opcode BSub = ''sub''"
| "bin_opcode BMulLo = ''mul.lo''"
| "bin_opcode BMulWide = ''mul.wide''"
| "bin_opcode BAnd = ''and''"
| "bin_opcode BOr = ''or''"
| "bin_opcode BXor = ''xor''"
| "bin_opcode BShl = ''shl''"
| "bin_opcode BShr = ''shr''"

fun bin_lean :: "bin_op \<Rightarrow> string" where
  "bin_lean BAdd = ''add''"
| "bin_lean BSub = ''sub''"
| "bin_lean BMulLo = ''mulLo''"
| "bin_lean BMulWide = ''mulWide''"
| "bin_lean BAnd = ''and''"
| "bin_lean BOr = ''or''"
| "bin_lean BXor = ''xor''"
| "bin_lean BShl = ''shl''"
| "bin_lean BShr = ''shr''"

datatype fbin_op = FAdd | FSub | FMul | FDiv

fun fbin_name :: "fbin_op \<Rightarrow> string" where
  "fbin_name FAdd = ''add''"
| "fbin_name FSub = ''sub''"
| "fbin_name FMul = ''mul''"
| "fbin_name FDiv = ''div''"

fun rmode_name :: "rmode \<Rightarrow> string" where
  "rmode_name Rn = ''rn''"
| "rmode_name Rz = ''rz''"
| "rmode_name Rm = ''rm''"
| "rmode_name Rp = ''rp''"

definition rmode_from_name :: "string \<Rightarrow> rmode option" where
  "rmode_from_name s = (
     if s = ''rn'' then Some Rn
     else if s = ''rz'' then Some Rz
     else if s = ''rm'' then Some Rm
     else if s = ''rp'' then Some Rp
     else None)"

datatype cvt_rnd = CvtNone | CvtF rmode | CvtI rmode

interpretation cmp_spelling: spelling cmp_name cmp_from_name
proof unfold_locales
  show "cmp_from_name s = Some x \<longleftrightarrow> s = cmp_name x" for s x
    by (cases x) (auto simp: cmp_from_name_def)
qed

interpretation atom_spelling: spelling atom_name atom_from_name
proof unfold_locales
  show "atom_from_name s = Some x \<longleftrightarrow> s = atom_name x" for s x
    by (cases x) (auto simp: atom_from_name_def)
qed

interpretation rmode_spelling: spelling rmode_name rmode_from_name
proof unfold_locales
  show "rmode_from_name s = Some x \<longleftrightarrow> s = rmode_name x" for s x
    by (cases x) (auto simp: rmode_from_name_def)
qed

interpretation fcmp_spelling: spelling fcmp_name fcmp_from_name
proof unfold_locales
  show "fcmp_from_name s = Some x \<longleftrightarrow> s = fcmp_name x" for s x
    by (cases x) (auto simp: fcmp_from_name_def)
qed

section \<open>Instructions\<close>

datatype instr =
    Bin bin_op ty string operand operand
  | MadLo ty string operand operand operand
  | Notb ty string operand
  | Mov ty string operand
  | Setp cmp_op ty string operand operand
  | Selp ty string operand operand string
  | Cvt ty ty string operand
  | CvtaGlobal string operand
  | Ld space ty string address
  | St space ty address operand
  | Bra bool string
  | Ret
  | Exit
  | Atom space atom_op ty string address operand
  | Cas space ty string address operand operand
  | Red space atom_op ty address operand
  | Bar
  | FBin fbin_op rmode bool bool ty string operand operand
  | Ffma rmode bool bool ty string operand operand operand
  | Fsqrt rmode bool ty string operand
  | Frcp rmode bool ty string operand
  | Fneg bool ty string operand
  | Fabs bool ty string operand
  | Fminmax bool bool bool ty string operand operand
  | Fsetp fcmp bool ty string operand operand
  | CvtFlt ty ty cvt_rnd bool bool string operand

record guard =
  g_pred :: string
  g_neg :: bool

record stmt =
  s_guard :: "guard option"
  s_instr :: instr

section \<open>Declarations, kernels, modules\<close>

record reg_decl =
  rd_ty :: ty
  rd_name :: string
  rd_count :: "nat option"

record shared_decl =
  sd_align :: "nat option"
  sd_elem :: string
  sd_name :: string
  sd_count :: "nat option"

definition elem_bytes :: "string \<Rightarrow> nat option" where
  "elem_bytes e = (if e \<in> {''b8'', ''u8'', ''s8''} then Some 1
     else if e \<in> {''b16'', ''u16'', ''s16''} then Some 2
     else if e \<in> {''b32'', ''u32'', ''s32''} then Some 4
     else if e \<in> {''b64'', ''u64'', ''s64''} then Some 8
     else None)"

definition unwrap_or :: "'a option \<Rightarrow> 'a \<Rightarrow> 'a" where
  "unwrap_or x d = (case x of None \<Rightarrow> d | Some y \<Rightarrow> y)"

definition sd_size :: "shared_decl \<Rightarrow> nat" where
  "sd_size d = unwrap_or (elem_bytes (sd_elem d)) 1 * unwrap_or (sd_count d) 1"

definition sd_alignment :: "shared_decl \<Rightarrow> nat" where
  "sd_alignment d = (case sd_align d of Some a \<Rightarrow> a | None \<Rightarrow> unwrap_or (elem_bytes (sd_elem d)) 1)"

datatype decl = DReg nat | DShared nat

record kernel =
  k_visible :: bool
  k_name :: string
  k_params :: "(string \<times> ty) list"
  k_regs :: "reg_decl list"
  k_shared :: "shared_decl list"
  k_decls :: "decl list"
  k_body :: "stmt list"
  k_labels :: "(string \<times> nat) list"

record ptx_module =
  m_version :: string
  m_target :: string
  m_address_size :: nat
  m_kernels :: "kernel list"

lemma unwrap_or_simps [simp]: "unwrap_or None d = d" "unwrap_or (Some x) d = x"
  by (simp_all add: unwrap_or_def)

end
