(* ===== verification/Ptx_Check.thy ===== *)
theory Ptx_Check
  imports Ptx_Ast Ptx_Num
begin

text \<open>
  The type checker of \<open>crates/e5r-ptx/src/parse.rs\<close>: \<open>types_ok\<close>, \<open>operands_ok\<close>, \<open>typed_uses\<close>,
  \<open>compatible\<close> and \<open>check\<close>. A refusal is a constructor of \<open>cerr\<close> where the source formats a
  message; \<open>check\<close> can also panic, at the \<open>unwrap\<close> of the width of a type that has none.
\<close>

section \<open>Refusals and sequencing\<close>

datatype cerr =
    E_types instr
  | E_imm_range int nat
  | E_float_literal
  | E_literal_width ty
  | E_int_literal ty
  | E_special_in_float
  | E_sreg_outside sreg
  | E_var_outside string
  | E_offset int
  | E_mov_address ty string
  | E_mov_sreg_float
  | E_undeclared string
  | E_not_pred string
  | E_not_width string nat
  | E_sreg_width
  | E_not_shared string
  | E_fimm_width
  | E_not_addr string
  | E_needs_register instr
  | E_not_data_space
  | E_used_at string ty ty
  | E_pred_bar
  | E_pred_bra
  | E_mul_wide
  | E_ordered_bits
  | E_param ty string
  | E_ld_param
  | E_st_param
  | E_label string
  | E_reg_twice string
  | E_name_twice string
  | E_reg_and_var string
  | E_small_shared string
  | E_label_twice string

type_synonym verdict = "cerr + unit"

abbreviation accept :: verdict where "accept \<equiv> Inr ()"

text \<open>A chain of \<open>?\<close>: the first refusal is the result.\<close>

fun all_ok :: "verdict list \<Rightarrow> verdict" where
  "all_ok [] = accept"
| "all_ok (v # vs) = (case v of Inl e \<Rightarrow> Inl e | Inr _ \<Rightarrow> all_ok vs)"

text \<open>The same where a check can panic.\<close>

fun all_checks :: "verdict panics list \<Rightarrow> verdict panics" where
  "all_checks [] = Some accept"
| "all_checks (v # vs) = (case v of None \<Rightarrow> None | Some (Inl e) \<Rightarrow> Some (Inl e) | Some (Inr _) \<Rightarrow> all_checks vs)"

definition require :: "bool \<Rightarrow> cerr \<Rightarrow> verdict" where
  "require b e = (if b then accept else Inl e)"

section \<open>Instruction types\<close>

definition ty_arith :: "ty \<Rightarrow> bool" where "ty_arith t \<longleftrightarrow> t \<in> {U32, S32, U64, S64}"

fun types_ok :: "instr \<Rightarrow> bool" where
  "types_ok (Bin b t _ _ _) = (case b of
      BAdd \<Rightarrow> ty_arith t
    | BSub \<Rightarrow> ty_arith t
    | BMulLo \<Rightarrow> ty_arith t
    | BMulWide \<Rightarrow> t \<in> {U32, S32}
    | BAnd \<Rightarrow> is_bits t
    | BOr \<Rightarrow> is_bits t
    | BXor \<Rightarrow> is_bits t
    | BShl \<Rightarrow> is_bits t
    | BShr \<Rightarrow> ty_arith t \<or> is_bits t)"
| "types_ok (MadLo t _ _ _ _) = ty_arith t"
| "types_ok (Notb t _ _) = is_bits t"
| "types_ok (Mov t _ _) = (t \<noteq> Pred)"
| "types_ok (Selp t _ _ _ _) = (t \<noteq> Pred)"
| "types_ok (Setp c t _ _ _) = (if t \<in> {F32, F64} then False else
     if c \<in> {CEq, CNe} then True
     else if c \<in> {CLt, CLe, CGt, CGe} then ty_arith t
     else t \<in> {U32, U64})"
| "types_ok (Cvt dt st _ _) = (ty_arith dt \<and> ty_arith st)"
| "types_ok (Atom _ p t _ _ _) = (case p of
      AAdd \<Rightarrow> t \<in> {U32, S32, U64}
    | AMin \<Rightarrow> ty_arith t
    | AMax \<Rightarrow> ty_arith t
    | _ \<Rightarrow> is_bits t)"
| "types_ok (Red _ p t _ _) = (case p of
      AAdd \<Rightarrow> t \<in> {U32, S32, U64}
    | AMin \<Rightarrow> ty_arith t
    | AMax \<Rightarrow> ty_arith t
    | _ \<Rightarrow> is_bits t)"
| "types_ok (Cas _ t _ _ _ _) = is_bits t"
| "types_ok _ = True"

text \<open>Which rounding each \<open>cvt\<close> with a floating-point side takes (the table of \<open>float_instr\<close>).\<close>

definition cvt_form :: "ty \<Rightarrow> ty \<Rightarrow> cvt_rnd \<Rightarrow> bool" where
  "cvt_form dt st rnd = (case (is_float dt, is_float st, rnd) of
      (False, True, CvtI _) \<Rightarrow> is_int dt
    | (True, False, CvtF _) \<Rightarrow> is_int st
    | (True, True, CvtI _) \<Rightarrow> dt = st
    | (True, True, CvtF _) \<Rightarrow> dt = F32 \<and> st = F64
    | (True, True, CvtNone) \<Rightarrow> dt = F64 \<and> st = F32
    | _ \<Rightarrow> False)"

section \<open>Operands\<close>

definition w_of :: "ty \<Rightarrow> nat" where "w_of t = unwrap_or (ty_width t) 32"

fun imm_ok :: "operand \<Rightarrow> nat \<Rightarrow> verdict" where
  "imm_ok (OImm v) w = require (- (2 ^ (w - 1)) \<le> v \<and> v \<le> 2 ^ w - 1) (E_imm_range v w)"
| "imm_ok (OFImm _ _) w = Inl E_float_literal"
| "imm_ok _ w = accept"

fun fsrc :: "operand \<Rightarrow> ty \<Rightarrow> verdict" where
  "fsrc (OReg _) t = accept"
| "fsrc (OFImm _ w) t = require (Some w = ty_width t) (E_literal_width t)"
| "fsrc (OImm _) t = Inl (E_int_literal t)"
| "fsrc (OSreg _) t = Inl E_special_in_float"
| "fsrc (OSym _) t = Inl E_special_in_float"

definition src_at :: "operand \<Rightarrow> ty \<Rightarrow> verdict" where
  "src_at x t = (if is_float t then fsrc x t else imm_ok x (w_of t))"

fun nosreg :: "operand \<Rightarrow> verdict" where
  "nosreg (OSreg s) = Inl (E_sreg_outside s)"
| "nosreg (OSym n) = Inl (E_var_outside n)"
| "nosreg _ = accept"

definition addr_off :: "address \<Rightarrow> int option" where
  "addr_off a = (case a of AReg _ off \<Rightarrow> off | AParam _ off \<Rightarrow> off)"

definition off_ok :: "address \<Rightarrow> verdict" where
  "off_ok a = (case addr_off a of
     Some v \<Rightarrow> require (\<not> (v < - (2 ^ 31) \<or> 2 ^ 31 \<le> v)) (E_offset v)
   | None \<Rightarrow> accept)"

fun operands_ok :: "instr \<Rightarrow> verdict" where
  "operands_ok (Bin b t _ x y) = (let
      wx = (if b = BMulWide then 32 else w_of t);
      wy = (if b \<in> {BMulWide, BShl, BShr} then 32 else w_of t)
    in all_ok [nosreg x, nosreg y, imm_ok x wx, imm_ok y wy])"
| "operands_ok (MadLo t _ a b c) = all_ok [nosreg a, imm_ok a (w_of t), nosreg b, imm_ok b (w_of t), nosreg c, imm_ok c (w_of t)]"
| "operands_ok (Notb t _ a) = all_ok [nosreg a, imm_ok a (w_of t)]"
| "operands_ok (Mov t _ a) = (case a of
      OSym n \<Rightarrow> require (t \<in> {U32, B32, U64, B64}) (E_mov_address t n)
    | OSreg _ \<Rightarrow> require (\<not> is_float t) E_mov_sreg_float
    | _ \<Rightarrow> src_at a t)"
| "operands_ok (Setp _ t _ a b) = all_ok [nosreg a, nosreg b, src_at a t, src_at b t]"
| "operands_ok (Selp t _ a b _) = all_ok [nosreg a, nosreg b, src_at a t, src_at b t]"
| "operands_ok (Cvt _ st _ a) = (case a of OSym n \<Rightarrow> Inl (E_var_outside n) | _ \<Rightarrow> imm_ok a (w_of st))"
| "operands_ok (CvtaGlobal _ a) = all_ok [nosreg a, imm_ok a 64]"
| "operands_ok (Ld _ _ _ a) = off_ok a"
| "operands_ok (St _ t a v) = all_ok [nosreg v, src_at v t, off_ok a]"
| "operands_ok (Atom _ _ t _ a b) = all_ok [nosreg b, imm_ok b (w_of t), off_ok a]"
| "operands_ok (Red _ _ t a b) = all_ok [nosreg b, imm_ok b (w_of t), off_ok a]"
| "operands_ok (Cas _ t _ a b c) = all_ok [nosreg b, imm_ok b (w_of t), nosreg c, imm_ok c (w_of t), off_ok a]"
| "operands_ok (Bra _ _) = accept"
| "operands_ok Ret = accept"
| "operands_ok Exit = accept"
| "operands_ok Bar = accept"
| "operands_ok (FBin _ _ _ _ t _ a b) = all_ok [fsrc a t, fsrc b t]"
| "operands_ok (Fminmax _ _ _ t _ a b) = all_ok [fsrc a t, fsrc b t]"
| "operands_ok (Fsetp _ _ t _ a b) = all_ok [fsrc a t, fsrc b t]"
| "operands_ok (Ffma _ _ _ t _ a b c) = all_ok [fsrc a t, fsrc b t, fsrc c t]"
| "operands_ok (Fsqrt _ _ t _ a) = fsrc a t"
| "operands_ok (Frcp _ _ t _ a) = fsrc a t"
| "operands_ok (Fneg _ t _ a) = fsrc a t"
| "operands_ok (Fabs _ t _ a) = fsrc a t"
| "operands_ok (CvtFlt _ st _ _ _ _ a) = all_ok [nosreg a, src_at a st]"

section \<open>Typed uses\<close>

fun use_op :: "operand \<Rightarrow> ty \<Rightarrow> (string \<times> ty) list" where
  "use_op (OReg r) t = [(r, t)]"
| "use_op _ t = []"

fun use_addr :: "space \<Rightarrow> address \<Rightarrow> (string \<times> ty) list" where
  "use_addr s (AReg r _) = (if s \<noteq> Shared then [(r, B64)] else [])"
| "use_addr s (AParam _ _) = []"

fun typed_uses :: "instr \<Rightarrow> (string \<times> ty) list" where
  "typed_uses (Bin b t d x y) = (case b of
      BMulWide \<Rightarrow> (d, U64) # use_op x t @ use_op y t
    | BShl \<Rightarrow> (d, t) # use_op x t @ use_op y U32
    | BShr \<Rightarrow> (d, t) # use_op x t @ use_op y U32
    | _ \<Rightarrow> (d, t) # use_op x t @ use_op y t)"
| "typed_uses (MadLo t d a b c) = (d, t) # use_op a t @ use_op b t @ use_op c t"
| "typed_uses (Notb t d a) = (d, t) # use_op a t"
| "typed_uses (Mov t d a) = (d, t) # use_op a t"
| "typed_uses (Setp _ t _ a b) = use_op a t @ use_op b t"
| "typed_uses (Selp t d a b _) = (d, t) # use_op a t @ use_op b t"
| "typed_uses (Cvt dt st d a) = (d, dt) # use_op a st"
| "typed_uses (CvtFlt dt st _ _ _ d a) = (d, dt) # use_op a st"
| "typed_uses (CvtaGlobal d a) = (d, U64) # use_op a U64"
| "typed_uses (Ld s t d a) = (d, t) # use_addr s a"
| "typed_uses (St s t a x) = use_op x t @ use_addr s a"
| "typed_uses (Atom s _ t d a b) = (d, t) # use_op b t @ use_addr s a"
| "typed_uses (Cas s t d a b c) = (d, t) # use_op b t @ use_op c t @ use_addr s a"
| "typed_uses (Red s _ t a b) = use_op b t @ use_addr s a"
| "typed_uses (FBin _ _ _ _ t d a b) = (d, t) # use_op a t @ use_op b t"
| "typed_uses (Fminmax _ _ _ t d a b) = (d, t) # use_op a t @ use_op b t"
| "typed_uses (Ffma _ _ _ t d a b c) = (d, t) # use_op a t @ use_op b t @ use_op c t"
| "typed_uses (Fsqrt _ _ t d a) = (d, t) # use_op a t"
| "typed_uses (Frcp _ _ t d a) = (d, t) # use_op a t"
| "typed_uses (Fneg _ t d a) = (d, t) # use_op a t"
| "typed_uses (Fabs _ t d a) = (d, t) # use_op a t"
| "typed_uses (Fsetp _ _ t _ a b) = use_op a t @ use_op b t"
| "typed_uses (Bra _ _) = []"
| "typed_uses Ret = []"
| "typed_uses Exit = []"
| "typed_uses Bar = []"

definition compatible :: "ty \<Rightarrow> ty \<Rightarrow> bool" where
  "compatible declared used = (if is_float declared
     then used = declared \<or> (is_bits used \<and> ty_width used = ty_width declared)
     else \<not> is_float used)"

section \<open>Declarations\<close>

definition reg_names :: "reg_decl \<Rightarrow> string list" where
  "reg_names d = (case rd_count d of
     Some n \<Rightarrow> map (\<lambda>i. rd_name d @ show_nat i) [0..<n]
   | None \<Rightarrow> [rd_name d])"

type_synonym reg_env = "string \<rightharpoonup> ty"

fun declare_names :: "string list \<Rightarrow> ty \<Rightarrow> reg_env \<Rightarrow> cerr + reg_env" where
  "declare_names [] t m = Inr m"
| "declare_names (n # ns) t m = (if m n \<noteq> None then Inl (E_reg_twice n) else declare_names ns t (m(n \<mapsto> t)))"

fun declare_regs :: "reg_decl list \<Rightarrow> reg_env \<Rightarrow> cerr + reg_env" where
  "declare_regs [] m = Inr m"
| "declare_regs (d # ds) m = (case declare_names (reg_names d) (rd_ty d) m of
     Inl e \<Rightarrow> Inl e | Inr m \<Rightarrow> declare_regs ds m)"

text \<open>The last binding of a name wins, as when a \<open>HashMap\<close> is collected.\<close>

definition param_env :: "(string \<times> ty) list \<Rightarrow> string \<rightharpoonup> ty" where
  "param_env ps = map_of (rev ps)"

text \<open>\<open>d.size() % d.alignment()\<close> panics at a zero alignment.\<close>

fun check_shared :: "reg_env \<Rightarrow> (string \<rightharpoonup> ty) \<Rightarrow> shared_decl list \<Rightarrow> string list \<Rightarrow> verdict panics" where
  "check_shared regs params [] seen = Some accept"
| "check_shared regs params (d # ds) seen = (
     if sd_name d \<in> set seen \<or> params (sd_name d) \<noteq> None then Some (Inl (E_name_twice (sd_name d)))
     else if regs (sd_name d) \<noteq> None then Some (Inl (E_reg_and_var (sd_name d)))
     else if sd_alignment d = 0 then None
     else if sd_size d mod sd_alignment d \<noteq> 0 \<and> sd_count d = None then Some (Inl (E_small_shared (sd_name d)))
     else check_shared regs params ds (sd_name d # seen))"

fun check_labels :: "(string \<times> nat) list \<Rightarrow> string list \<Rightarrow> verdict" where
  "check_labels [] seen = accept"
| "check_labels ((l, _) # ls) seen = (if l \<in> set seen then Inl (E_label_twice l) else check_labels ls (l # seen))"

section \<open>Statements\<close>

text \<open>What a statement is checked against: the registers, the parameters, the shared names, the labels.\<close>

record check_env =
  ce_regs :: reg_env
  ce_params :: "string \<rightharpoonup> ty"
  ce_shared :: "string list"
  ce_labels :: "(string \<times> nat) list"

definition chk_pred :: "check_env \<Rightarrow> string \<Rightarrow> verdict" where
  "chk_pred e r = (case ce_regs e r of
     None \<Rightarrow> Inl (E_undeclared r) | Some t \<Rightarrow> require (t = Pred) (E_not_pred r))"

definition chk_data :: "check_env \<Rightarrow> string \<Rightarrow> nat \<Rightarrow> verdict" where
  "chk_data e r w = (case ce_regs e r of
     None \<Rightarrow> Inl (E_undeclared r) | Some t \<Rightarrow> require (ty_width t = Some w) (E_not_width r w))"

fun chk_src :: "check_env \<Rightarrow> operand \<Rightarrow> nat \<Rightarrow> verdict" where
  "chk_src e (OReg r) w = chk_data e r w"
| "chk_src e (OImm _) w = accept"
| "chk_src e (OSreg _) w = require (w = 32) E_sreg_width"
| "chk_src e (OSym n) w = require (n \<in> set (ce_shared e)) (E_not_shared n)"
| "chk_src e (OFImm _ fw) w = require (fw = w) E_fimm_width"

fun chk_addr :: "check_env \<Rightarrow> instr \<Rightarrow> space \<Rightarrow> address \<Rightarrow> verdict" where
  "chk_addr e i Global (AReg r _) = chk_data e r 64"
| "chk_addr e i Shared (AReg r _) = (case ce_regs e r of
     None \<Rightarrow> Inl (E_undeclared r)
   | Some t \<Rightarrow> require (ty_width t = Some 32 \<or> ty_width t = Some 64) (E_not_addr r))"
| "chk_addr e i Shared (AParam n _) = require (n \<in> set (ce_shared e)) (E_not_shared n)"
| "chk_addr e i _ (AParam _ _) = Inl (E_needs_register i)"
| "chk_addr e i Param _ = Inl E_not_data_space"

definition at_w :: "ty \<Rightarrow> (nat \<Rightarrow> verdict) \<Rightarrow> verdict panics" where
  "at_w t f = map_option f (ty_width t)"

abbreviation dst :: "check_env \<Rightarrow> string \<Rightarrow> ty \<Rightarrow> verdict panics" where
  "dst e d t \<equiv> at_w t (chk_data e d)"

abbreviation src :: "check_env \<Rightarrow> operand \<Rightarrow> ty \<Rightarrow> verdict panics" where
  "src e x t \<equiv> at_w t (chk_src e x)"

fun check_instr :: "check_env \<Rightarrow> instr \<Rightarrow> verdict panics" where
  "check_instr e (Bin b t d x y) = (case b of
      BMulWide \<Rightarrow> all_checks [Some (require (t \<in> {U32, S32}) E_mul_wide),
        Some (chk_data e d 64), Some (chk_src e x 32), Some (chk_src e y 32)]
    | BShl \<Rightarrow> all_checks [dst e d t, src e x t, Some (chk_src e y 32)]
    | BShr \<Rightarrow> all_checks [dst e d t, src e x t, Some (chk_src e y 32)]
    | _ \<Rightarrow> all_checks [dst e d t, src e x t, src e y t])"
| "check_instr e (MadLo t d a b c) = all_checks [dst e d t, src e a t, src e b t, src e c t]"
| "check_instr e (Notb t d a) = all_checks [dst e d t, src e a t]"
| "check_instr e (Mov t d a) = all_checks [dst e d t, src e a t]"
| "check_instr e (Setp c t d a b) = all_checks [Some (require (\<not> (is_ordered c \<and> is_bits t)) E_ordered_bits),
     Some (chk_pred e d), src e a t, src e b t]"
| "check_instr e (Selp t d a b q) = all_checks [dst e d t, src e a t, src e b t, Some (chk_pred e q)]"
| "check_instr e (Cvt dt st d a) = all_checks [dst e d dt, src e a st]"
| "check_instr e (CvtaGlobal d a) = all_checks [Some (chk_data e d 64), Some (chk_src e a 64)]"
| "check_instr e (Ld s t d a) = (if s = Param
     then all_checks [dst e d t, Some (case a of
         AParam n off \<Rightarrow> if unwrap_or off 0 = 0 then require (ce_params e n = Some t) (E_param t n) else Inl E_ld_param
       | _ \<Rightarrow> Inl E_ld_param)]
     else all_checks [dst e d t, Some (chk_addr e (Ld s t d a) s a)])"
| "check_instr e (St s t a v) = (if s = Param then Some (Inl E_st_param)
     else all_checks [src e v t, Some (chk_addr e (St s t a v) s a)])"
| "check_instr e (Atom s p t d a b) = all_checks [dst e d t, src e b t, Some (chk_addr e (Atom s p t d a b) s a)]"
| "check_instr e (Cas s t d a b c) = all_checks [dst e d t, src e b t, src e c t, Some (chk_addr e (Cas s t d a b c) s a)]"
| "check_instr e (Red s p t a b) = all_checks [src e b t, Some (chk_addr e (Red s p t a b) s a)]"
| "check_instr e Bar = Some accept"
| "check_instr e (Bra _ l) = Some (require (list_ex (\<lambda>(m, _). m = l) (ce_labels e)) (E_label l))"
| "check_instr e Ret = Some accept"
| "check_instr e Exit = Some accept"
| "check_instr e (FBin _ _ _ _ t d a b) = all_checks [dst e d t, src e a t, src e b t]"
| "check_instr e (Fminmax _ _ _ t d a b) = all_checks [dst e d t, src e a t, src e b t]"
| "check_instr e (Ffma _ _ _ t d a b c) = all_checks [dst e d t, src e a t, src e b t, src e c t]"
| "check_instr e (Fsqrt _ _ t d a) = all_checks [dst e d t, src e a t]"
| "check_instr e (Frcp _ _ t d a) = all_checks [dst e d t, src e a t]"
| "check_instr e (Fneg _ t d a) = all_checks [dst e d t, src e a t]"
| "check_instr e (Fabs _ t d a) = all_checks [dst e d t, src e a t]"
| "check_instr e (Fsetp _ _ t d a b) = all_checks [Some (chk_pred e d), src e a t, src e b t]"
| "check_instr e (CvtFlt dt st _ _ _ d a) = all_checks [dst e d dt, src e a st]"

definition check_use :: "check_env \<Rightarrow> string \<times> ty \<Rightarrow> verdict" where
  "check_use e u = (case u of (r, t) \<Rightarrow> (case ce_regs e r of
     Some dt \<Rightarrow> require (compatible dt t) (E_used_at r dt t)
   | None \<Rightarrow> accept))"

fun is_bra_uni :: "instr \<Rightarrow> bool" where
  "is_bra_uni (Bra u _) = u"
| "is_bra_uni _ = False"

definition check_stmt :: "check_env \<Rightarrow> stmt \<Rightarrow> verdict panics" where
  "check_stmt e s = all_checks [
     Some (case s_guard s of Some g \<Rightarrow> chk_pred e (g_pred g) | None \<Rightarrow> accept),
     Some (require (types_ok (s_instr s)) (E_types (s_instr s))),
     Some (operands_ok (s_instr s)),
     Some (all_ok (map (check_use e) (typed_uses (s_instr s)))),
     Some (require (\<not> (s_guard s \<noteq> None \<and> s_instr s = Bar)) E_pred_bar),
     Some (require (\<not> (s_guard s \<noteq> None \<and> is_bra_uni (s_instr s))) E_pred_bra),
     check_instr e (s_instr s)]"

text \<open>The refusal of a statement names its line; the others name the kernel, so they have none.\<close>

type_synonym kerr = "nat option \<times> cerr"

fun check_body :: "check_env \<Rightarrow> (stmt \<times> nat) list \<Rightarrow> (kerr + unit) panics" where
  "check_body e [] = Some (Inr ())"
| "check_body e ((s, line) # ss) = (case check_stmt e s of
     None \<Rightarrow> None
   | Some (Inl x) \<Rightarrow> Some (Inl (Some line, x))
   | Some (Inr _) \<Rightarrow> check_body e ss)"

definition check :: "kernel \<Rightarrow> nat list \<Rightarrow> (kerr + unit) panics" where
  "check k lines = (case declare_regs (k_regs k) Map.empty of
     Inl x \<Rightarrow> Some (Inl (None, x))
   | Inr regs \<Rightarrow> let params = param_env (k_params k) in
       (case check_shared regs params (k_shared k) [] of
          None \<Rightarrow> None
        | Some (Inl x) \<Rightarrow> Some (Inl (None, x))
        | Some (Inr _) \<Rightarrow> (case check_labels (k_labels k) [] of
            Inl x \<Rightarrow> Some (Inl (None, x))
          | Inr _ \<Rightarrow> check_body \<lparr>ce_regs = regs, ce_params = params,
              ce_shared = map sd_name (k_shared k), ce_labels = k_labels k\<rparr> (zip (k_body k) lines))))"

end
