(* ===== verification/Ptx_Parse.thy ===== *)
theory Ptx_Parse
  imports Ptx_Lex Ptx_Check
begin

text \<open>
  The recursive-descent parser of \<open>crates/e5r-ptx/src/parse.rs\<close>. A parser maps the token position
  to a value and a position, a refusal with its line, or a panic (the \<open>unwrap\<close>s and, through the
  checker, the width of a type that has none). Every parser that succeeds moves forward inside the
  tokens, which is why the source's loops end.
\<close>

section \<open>Positions, refusals, results\<close>

record parser =
  p_toks :: "token list"
  p_pos :: nat

datatype pmsg =
    M_eof
  | M_expected_punct char tok
  | M_expected_name tok
  | M_expected_keyword string string
  | M_negative_zero
  | M_expected_int tok
  | M_type string
  | M_version tok
  | M_single_target
  | M_address_size
  | M_no_entry
  | M_pred_param
  | M_param_attr string
  | M_reg_count
  | M_one_reg
  | M_align int
  | M_elem string
  | M_shared_name string
  | M_shared_no_size
  | M_shared_size int
  | M_one_shared
  | M_shared_big string nat
  | M_sreg string
  | M_operand string
  | M_register operand
  | M_sreg_address
  | M_float string string
  | M_float_mod string string
  | M_float_order string string
  | M_unsupported string
  | M_type_in string string
  | M_bar
  | M_bar_count
  | M_lex lex_err
  | M_check cerr

text \<open>A refusal names its line, except those of \<open>check\<close> that name the kernel.\<close>

type_synonym perr = "nat option \<times> pmsg"

type_synonym 'a parses = "parser \<Rightarrow> (perr + 'a \<times> parser) panics"

definition preturn :: "'a \<Rightarrow> 'a parses" where
  "preturn x = (\<lambda>p. Some (Inr (x, p)))"

definition pbind :: "'a parses \<Rightarrow> ('a \<Rightarrow> 'b parses) \<Rightarrow> 'b parses" where
  "pbind m f = (\<lambda>p. case m p of
     None \<Rightarrow> None
   | Some (Inl e) \<Rightarrow> Some (Inl e)
   | Some (Inr (x, p)) \<Rightarrow> f x p)"

definition pthen :: "'a parses \<Rightarrow> 'b parses \<Rightarrow> 'b parses" where
  "pthen m n = pbind m (\<lambda>_. n)"

definition ppanic :: "'a parses" where "ppanic = (\<lambda>p. None)"

definition p_line :: "parser \<Rightarrow> nat" where
  "p_line p = (if p_pos p < length (p_toks p) then tk_line (p_toks p ! p_pos p)
     else if p_toks p = [] then 0 else tk_line (last (p_toks p)))"

definition p_err :: "pmsg \<Rightarrow> 'a parses" where
  "p_err m = (\<lambda>p. Some (Inl (Some (p_line p), m)))"

text \<open>\<open>p.pos -= 1; return p.err(m)\<close>.\<close>

definition p_err_back :: "pmsg \<Rightarrow> 'a parses" where
  "p_err_back m = (\<lambda>p. p_err m (p\<lparr>p_pos := p_pos p - 1\<rparr>))"

definition p_peek :: "parser \<Rightarrow> tok option" where
  "p_peek p = (if p_pos p < length (p_toks p) then Some (tk_tok (p_toks p ! p_pos p)) else None)"

definition p_next :: "tok parses" where
  "p_next = (\<lambda>p. case p_peek p of
     Some t \<Rightarrow> Some (Inr (t, p\<lparr>p_pos := p_pos p + 1\<rparr>))
   | None \<Rightarrow> p_err M_eof p)"

definition is_punct :: "char \<Rightarrow> parser \<Rightarrow> bool" where
  "is_punct c p \<longleftrightarrow> p_peek p = Some (TPunct c)"

text \<open>\<open>if p.is_punct(c) { p.pos += 1; ... } else { ... }\<close>, and a test that consumes nothing.\<close>

definition p_if_punct :: "char \<Rightarrow> 'a parses \<Rightarrow> 'a parses \<Rightarrow> 'a parses" where
  "p_if_punct c m n = (\<lambda>p. if is_punct c p then m (p\<lparr>p_pos := p_pos p + 1\<rparr>) else n p)"

definition p_when :: "(parser \<Rightarrow> bool) \<Rightarrow> 'a parses \<Rightarrow> 'a parses \<Rightarrow> 'a parses" where
  "p_when b m n = (\<lambda>p. if b p then m p else n p)"

definition p_punct :: "char \<Rightarrow> unit parses" where
  "p_punct c = pbind p_next (\<lambda>t. if t = TPunct c then preturn () else p_err_back (M_expected_punct c t))"

definition p_word :: "string parses" where
  "p_word = pbind p_next (\<lambda>t. case t of TWord w \<Rightarrow> preturn w | _ \<Rightarrow> p_err_back (M_expected_name t))"

definition p_keyword :: "string \<Rightarrow> unit parses" where
  "p_keyword k = pbind p_word (\<lambda>w. if w = k then preturn () else p_err_back (M_expected_keyword k w))"

definition p_int_tok :: "bool \<Rightarrow> int parses" where
  "p_int_tok neg = pbind p_next (\<lambda>t. case t of
     TInt v \<Rightarrow> if v = 0 \<and> neg then p_err_back M_negative_zero else preturn (if neg then - v else v)
   | _ \<Rightarrow> p_err_back (M_expected_int t))"

definition p_int :: "int parses" where
  "p_int = p_if_punct (CHR ''-'') (p_int_tok True) (p_int_tok False)"

definition strip_dot :: "string \<Rightarrow> string option" where
  "strip_dot w = strip_prefix ''.'' w"

definition ty_directive :: "ty parses" where
  "ty_directive = pbind p_word (\<lambda>w. case Option.bind (strip_dot w) ty_from_name of
     Some t \<Rightarrow> preturn t | None \<Rightarrow> p_err_back (M_type w))"

section \<open>Operands\<close>

text \<open>\<open>w.rsplit_once('.')\<close>: before and after the last dot.\<close>

definition rsplit_dot :: "string \<Rightarrow> (string \<times> string) option" where
  "rsplit_dot w = (let r = rev w; after = takeWhile (\<lambda>c. c \<noteq> CHR ''.'') r; rest = dropWhile (\<lambda>c. c \<noteq> CHR ''.'') r
     in if rest = [] then None else Some (rev (tl rest), rev after))"

definition dim_from :: "string \<Rightarrow> dim option" where
  "dim_from s = (if s = ''x'' then Some DX else if s = ''y'' then Some DY else if s = ''z'' then Some DZ else None)"

definition parse_sreg :: "string \<Rightarrow> sreg option" where
  "parse_sreg w = (case rsplit_dot w of
     None \<Rightarrow> None
   | Some (b, d) \<Rightarrow> (case dim_from d of
       None \<Rightarrow> None
     | Some d \<Rightarrow> if b = ''%tid'' then Some (Tid d)
         else if b = ''%ntid'' then Some (Ntid d)
         else if b = ''%ctaid'' then Some (Ctaid d)
         else if b = ''%nctaid'' then Some (Nctaid d)
         else None))"

definition starts_with :: "char \<Rightarrow> string \<Rightarrow> bool" where
  "starts_with c w \<longleftrightarrow> w \<noteq> [] \<and> hd w = c"

definition word_operand :: "string \<Rightarrow> operand parses" where
  "word_operand w = (case parse_sreg w of
     Some s \<Rightarrow> preturn (OSreg s)
   | None \<Rightarrow>
       if starts_with (CHR ''%'') w then
         (if CHR ''.'' \<in> set w then p_err_back (M_sreg w) else preturn (OReg w))
       else if starts_with (CHR ''.'') w \<or> CHR ''.'' \<in> set w then p_err_back (M_operand w)
       else preturn (OSym w))"

definition p_operand :: "operand parses" where
  "p_operand = (\<lambda>p. case p_peek p of
     Some (TFloat v w) \<Rightarrow> Some (Inr (OFImm v w, p\<lparr>p_pos := p_pos p + 1\<rparr>))
   | Some (TInt _) \<Rightarrow> pbind p_int (\<lambda>v. preturn (OImm v)) p
   | Some (TPunct c) \<Rightarrow> if c = CHR ''-'' then pbind p_int (\<lambda>v. preturn (OImm v)) p else pbind p_word word_operand p
   | _ \<Rightarrow> pbind p_word word_operand p)"

definition p_reg :: "string parses" where
  "p_reg = pbind p_operand (\<lambda>x. case x of OReg r \<Rightarrow> preturn r | _ \<Rightarrow> p_err_back (M_register x))"

definition address_of :: "string \<Rightarrow> int option \<Rightarrow> address parses" where
  "address_of w off = (if starts_with (CHR ''%'') w
     then (if parse_sreg w \<noteq> None \<or> CHR ''.'' \<in> set w then p_err M_sreg_address else preturn (AReg w off))
     else preturn (AParam w off))"

definition p_address :: "address parses" where
  "p_address = pthen (p_punct (CHR ''['')) (pbind p_word (\<lambda>w.
     pbind (p_if_punct (CHR ''+'') (pbind p_int (\<lambda>v. preturn (Some v))) (preturn None)) (\<lambda>off.
     pthen (p_punct (CHR '']'')) (address_of w off))))"

definition p_comma :: "unit parses" where "p_comma = p_punct (CHR '','')"

section \<open>Floating-point instructions\<close>

text \<open>What a modifier is, given which roundings the instruction takes: \<open>"f"\<close>, \<open>"i"\<close> or \<open>"fi"\<close>.\<close>

definition mod_kind :: "string \<Rightarrow> string \<Rightarrow> string option" where
  "mod_kind rk m = (let f = {''rn'', ''rz'', ''rm'', ''rp''}; i = {''rni'', ''rzi'', ''rmi'', ''rpi''} in
     if m \<in> f \<and> rk = ''f'' then Some ''rnd''
     else if m \<in> i \<and> rk = ''i'' then Some ''rnd''
     else if m \<in> f \<union> i \<and> rk = ''fi'' then Some ''rnd''
     else if m = ''ftz'' then Some ''ftz''
     else if m = ''sat'' then Some ''sat''
     else if m = ''NaN'' then Some ''NaN''
     else None)"

definition mod_order :: "string \<Rightarrow> nat" where
  "mod_order kind = (if kind = ''rnd'' then 0 else if kind = ''ftz'' then 1 else if kind = ''sat'' then 2 else 3)"

datatype mod_err = Bad_mod string | Mod_order string

record mods =
  md_rnd :: "string option"
  md_ftz :: bool
  md_sat :: bool
  md_nan :: bool

definition no_mods :: mods where
  "no_mods = \<lparr>md_rnd = None, md_ftz = False, md_sat = False, md_nan = False\<rparr>"

definition set_mod :: "string \<Rightarrow> string \<Rightarrow> mods \<Rightarrow> mods" where
  "set_mod kind m r = (if kind = ''rnd'' then r\<lparr>md_rnd := Some m\<rparr>
     else if kind = ''ftz'' then r\<lparr>md_ftz := True\<rparr>
     else if kind = ''sat'' then r\<lparr>md_sat := True\<rparr>
     else r\<lparr>md_nan := True\<rparr>)"

fun float_mods_loop :: "string list \<Rightarrow> string \<Rightarrow> string list \<Rightarrow> nat \<Rightarrow> mods \<Rightarrow> mod_err + mods" where
  "float_mods_loop [] rk allow cur r = Inr r"
| "float_mods_loop (m # ms) rk allow cur r = (case mod_kind rk m of
     None \<Rightarrow> Inl (Bad_mod m)
   | Some kind \<Rightarrow>
       if kind \<notin> set allow then Inl (Bad_mod m)
       else if mod_order kind < cur then Inl (Mod_order m)
       else float_mods_loop ms rk allow (mod_order kind + 1) (set_mod kind m r))"

definition float_mods :: "string list \<Rightarrow> string \<Rightarrow> string list \<Rightarrow> mod_err + mods" where
  "float_mods ms rk allow = float_mods_loop ms rk allow 0 no_mods"

text \<open>\<open>RMode::from_name(s.trim_end_matches('i')).unwrap()\<close>.\<close>

definition rmode_of :: "string \<Rightarrow> rmode panics" where
  "rmode_of s = rmode_from_name (rev (dropWhile (\<lambda>c. c = CHR ''i'') (rev s)))"

definition unsup_mod :: "string \<Rightarrow> mod_err \<Rightarrow> 'a parses" where
  "unsup_mod p e = (case e of Bad_mod m \<Rightarrow> p_err (M_float_mod p m) | Mod_order m \<Rightarrow> p_err (M_float_order p m))"

definition is_float_name :: "string \<Rightarrow> bool" where "is_float_name s \<longleftrightarrow> s = ''f32'' \<or> s = ''f64''"
definition float_ty :: "string \<Rightarrow> ty" where "float_ty s = (if s = ''f32'' then F32 else F64)"

definition rounded_ops :: "string list" where
  "rounded_ops = [''add'', ''sub'', ''mul'', ''fma'', ''div'', ''sqrt'', ''rcp'']"

definition arith_ops :: "string list" where
  "arith_ops = [''add'', ''sub'', ''mul'', ''div'', ''fma'', ''sqrt'', ''rcp'', ''neg'', ''abs'', ''min'', ''max'']"

definition allowed_mods :: "string \<Rightarrow> ty \<Rightarrow> string list" where
  "allowed_mods opc t = (
     if opc \<in> {''add'', ''sub'', ''mul'', ''fma''} \<and> t = F32 then [''rnd'', ''ftz'', ''sat'']
     else if opc \<in> {''div'', ''sqrt'', ''rcp''} \<and> t = F32 then [''rnd'', ''ftz'']
     else if opc \<in> set rounded_ops then [''rnd'']
     else if opc \<in> {''neg'', ''abs''} \<and> t = F32 then [''ftz'']
     else if opc \<in> {''min'', ''max''} \<and> t = F32 then [''ftz'', ''NaN'']
     else [])"

definition fbin_of :: "string \<Rightarrow> fbin_op" where
  "fbin_of opc = (if opc = ''add'' then FAdd else if opc = ''sub'' then FSub else if opc = ''mul'' then FMul else FDiv)"

definition float_operands :: "string \<Rightarrow> rmode \<Rightarrow> mods \<Rightarrow> ty \<Rightarrow> instr parses" where
  "float_operands opc m md t = pbind p_reg (\<lambda>d. pthen p_comma (pbind p_operand (\<lambda>a.
     if opc = ''sqrt'' then preturn (Fsqrt m (md_ftz md) t d a)
     else if opc = ''rcp'' then preturn (Frcp m (md_ftz md) t d a)
     else if opc = ''neg'' then preturn (Fneg (md_ftz md) t d a)
     else if opc = ''abs'' then preturn (Fabs (md_ftz md) t d a)
     else pthen p_comma (pbind p_operand (\<lambda>b.
       if opc = ''fma'' then pthen p_comma (pbind p_operand (\<lambda>c. preturn (Ffma m (md_ftz md) (md_sat md) t d a b c)))
       else if opc = ''min'' \<or> opc = ''max'' then preturn (Fminmax (opc = ''max'') (md_ftz md) (md_nan md) t d a b)
       else preturn (FBin (fbin_of opc) m (md_ftz md) (md_sat md) t d a b))))))"

definition float_arith :: "string \<Rightarrow> string \<Rightarrow> string list \<Rightarrow> ty \<Rightarrow> instr parses" where
  "float_arith p opc ms t = (
     if list_ex (\<lambda>m. m = ''approx'' \<or> m = ''full'') ms then p_err (M_float p ''approximate instructions are not modelled'')
     else case float_mods ms ''f'' (allowed_mods opc t) of
       Inl e \<Rightarrow> unsup_mod p e
     | Inr md \<Rightarrow>
         if opc \<in> set rounded_ops \<and> md_rnd md = None then p_err (M_float p
           (if opc \<in> {''add'', ''sub'', ''mul''} then ''no rounding modifier'' else ''a rounding modifier is required''))
         else (case md_rnd md of
           None \<Rightarrow> float_operands opc Rn md t
         | Some r \<Rightarrow> (case rmode_of r of None \<Rightarrow> ppanic | Some m \<Rightarrow> float_operands opc m md t)))"

definition float_setp :: "string \<Rightarrow> string list \<Rightarrow> ty \<Rightarrow> instr parses" where
  "float_setp p rest t = (case fcmp_from_name (hd rest) of
     None \<Rightarrow> p_err (M_float p ''comparison'')
   | Some c \<Rightarrow> (case float_mods (butlast (tl rest)) ''f'' (if t = F32 then [''ftz''] else []) of
       Inl e \<Rightarrow> unsup_mod p e
     | Inr md \<Rightarrow> pbind p_reg (\<lambda>d. pthen p_comma (pbind p_operand (\<lambda>a. pthen p_comma (pbind p_operand (\<lambda>b.
         preturn (Fsetp c (md_ftz md) t d a b))))))))"

definition cvt_rnd_of :: "string option \<Rightarrow> cvt_rnd panics" where
  "cvt_rnd_of r = (case r of
     None \<Rightarrow> Some CvtNone
   | Some s \<Rightarrow> if s \<noteq> [] \<and> last s = CHR ''i'' then map_option CvtI (rmode_of s) else map_option CvtF (rmode_of s))"

definition float_cvt :: "string \<Rightarrow> string list \<Rightarrow> ty \<Rightarrow> ty \<Rightarrow> instr parses" where
  "float_cvt p ms dt st = (case float_mods ms ''fi'' [''rnd'', ''ftz'', ''sat''] of
     Inl e \<Rightarrow> unsup_mod p e
   | Inr md \<Rightarrow> (case cvt_rnd_of (md_rnd md) of
       None \<Rightarrow> ppanic
     | Some rnd \<Rightarrow>
         if \<not> cvt_form dt st rnd then p_err (M_float p ''rounding modifier or types outside the subset'')
         else if md_ftz md \<and> dt \<noteq> F32 \<and> st \<noteq> F32 then p_err (M_float p ''.ftz needs an .f32 side'')
         else pbind p_reg (\<lambda>d. pthen p_comma (pbind p_operand (\<lambda>a.
           preturn (CvtFlt dt st rnd (md_ftz md) (md_sat md) d a))))))"

text \<open>\<open>None\<close>: not a floating-point instruction.\<close>

definition float_instr :: "string \<Rightarrow> string list \<Rightarrow> instr parses option" where
  "float_instr p parts = (case parts of
     [] \<Rightarrow> None
   | opc # rest \<Rightarrow>
       if rest = [] then None
       else if opc \<in> set arith_ops \<and> is_float_name (last rest)
       then Some (float_arith p opc (butlast rest) (float_ty (last rest)))
       else if opc = ''setp'' \<and> is_float_name (last rest) \<and> length rest \<ge> 2
       then Some (float_setp p rest (float_ty (last rest)))
       else if opc = ''cvt'' \<and> length rest \<ge> 2
       then (case (ty_from_name (last (butlast rest)), ty_from_name (last rest)) of
           (Some dt, Some st) \<Rightarrow> if \<not> is_float dt \<and> \<not> is_float st then None
             else Some (float_cvt p (butlast (butlast rest)) dt st)
         | _ \<Rightarrow> None)
       else None)"

section \<open>Statements\<close>

text \<open>\<open>op.split('.')\<close>.\<close>

fun split_dots :: "string \<Rightarrow> string list" where
  "split_dots [] = [[]]"
| "split_dots (c # cs) = (if c = CHR ''.'' then [] # split_dots cs
     else (c # hd (split_dots cs)) # tl (split_dots cs))"

definition p_ty :: "string \<Rightarrow> string \<Rightarrow> ty parses" where
  "p_ty p s = (case ty_from_name s of
     Some t \<Rightarrow> if t \<noteq> Pred then preturn t else p_err (M_type_in s p)
   | None \<Rightarrow> p_err (M_type_in s p))"

definition p_bin :: "string \<Rightarrow> bin_op \<Rightarrow> string \<Rightarrow> instr parses" where
  "p_bin p b s = pbind (p_ty p s) (\<lambda>t. pbind p_reg (\<lambda>d. pthen p_comma (pbind p_operand (\<lambda>a.
     pthen p_comma (pbind p_operand (\<lambda>b'. preturn (Bin b t d a b')))))))"

definition bin_ops1 :: "(string \<times> bin_op) list" where
  "bin_ops1 = [(''add'', BAdd), (''sub'', BSub), (''and'', BAnd), (''or'', BOr), (''xor'', BXor), (''shl'', BShl), (''shr'', BShr)]"

definition data_space :: "string \<Rightarrow> space option" where
  "data_space s = (if s = ''global'' then Some Global else if s = ''shared'' then Some Shared else None)"

definition ld_space :: "string \<Rightarrow> space option" where
  "ld_space s = (if s = ''param'' then Some Param else data_space s)"

definition p_unary :: "(ty \<Rightarrow> string \<Rightarrow> operand \<Rightarrow> instr) \<Rightarrow> string \<Rightarrow> string \<Rightarrow> instr parses" where
  "p_unary f p s = pbind (p_ty p s) (\<lambda>t. pbind p_reg (\<lambda>d. pthen p_comma (pbind p_operand (\<lambda>a. preturn (f t d a)))))"

definition p_mad :: "string \<Rightarrow> string \<Rightarrow> instr parses" where
  "p_mad p s = pbind (p_ty p s) (\<lambda>t. pbind p_reg (\<lambda>d. pthen p_comma (pbind p_operand (\<lambda>a.
     pthen p_comma (pbind p_operand (\<lambda>b. pthen p_comma (pbind p_operand (\<lambda>c. preturn (MadLo t d a b c)))))))))"

definition p_setp :: "string \<Rightarrow> string \<Rightarrow> string \<Rightarrow> instr parses" where
  "p_setp p c s = (case cmp_from_name c of
     None \<Rightarrow> p_err (M_unsupported p)
   | Some c \<Rightarrow> pbind (p_ty p s) (\<lambda>t. pbind p_reg (\<lambda>d. pthen p_comma (pbind p_operand (\<lambda>a.
       pthen p_comma (pbind p_operand (\<lambda>b. preturn (Setp c t d a b))))))))"

definition p_selp :: "string \<Rightarrow> string \<Rightarrow> instr parses" where
  "p_selp p s = pbind (p_ty p s) (\<lambda>t. pbind p_reg (\<lambda>d. pthen p_comma (pbind p_operand (\<lambda>a.
     pthen p_comma (pbind p_operand (\<lambda>b. pthen p_comma (pbind p_reg (\<lambda>q. preturn (Selp t d a b q)))))))))"

definition p_cvt :: "string \<Rightarrow> string \<Rightarrow> string \<Rightarrow> instr parses" where
  "p_cvt p dt st = pbind (p_ty p dt) (\<lambda>dt. pbind (p_ty p st) (\<lambda>st. pbind p_reg (\<lambda>d. pthen p_comma
     (pbind p_operand (\<lambda>a. preturn (Cvt dt st d a))))))"

definition p_cvta :: "instr parses" where
  "p_cvta = pbind p_reg (\<lambda>d. pthen p_comma (pbind p_operand (\<lambda>a. preturn (CvtaGlobal d a))))"

definition p_ld :: "string \<Rightarrow> string \<Rightarrow> string \<Rightarrow> instr parses" where
  "p_ld p x s = (case ld_space x of
     None \<Rightarrow> p_err (M_unsupported p)
   | Some x \<Rightarrow> pbind (p_ty p s) (\<lambda>t. pbind p_reg (\<lambda>d. pthen p_comma (pbind p_address (\<lambda>a. preturn (Ld x t d a))))))"

definition p_st :: "string \<Rightarrow> space \<Rightarrow> string \<Rightarrow> instr parses" where
  "p_st p x s = pbind (p_ty p s) (\<lambda>t. pbind p_address (\<lambda>a. pthen p_comma (pbind p_operand (\<lambda>v. preturn (St x t a v)))))"

definition p_atom :: "string \<Rightarrow> space \<Rightarrow> string \<Rightarrow> string \<Rightarrow> instr parses" where
  "p_atom p x n s = pbind (p_ty p s) (\<lambda>t. pbind p_reg (\<lambda>d. pthen p_comma (pbind p_address (\<lambda>a.
     pthen p_comma (pbind p_operand (\<lambda>b.
       if n = ''cas'' then pthen p_comma (pbind p_operand (\<lambda>c. preturn (Cas x t d a b c)))
       else (case atom_from_name n of
           None \<Rightarrow> p_err (M_unsupported p)
         | Some f \<Rightarrow> preturn (Atom x f t d a b))))))))"

definition p_red :: "string \<Rightarrow> space \<Rightarrow> string \<Rightarrow> string \<Rightarrow> instr parses" where
  "p_red p x n s = (case atom_from_name n of
     None \<Rightarrow> p_err (M_unsupported p)
   | Some f \<Rightarrow> if f = AExch then p_err (M_unsupported p)
       else pbind (p_ty p s) (\<lambda>t. pbind p_address (\<lambda>a. pthen p_comma (pbind p_operand (\<lambda>b. preturn (Red x f t a b))))))"

definition p_bar :: "instr parses" where
  "p_bar = pbind p_operand (\<lambda>x. if x = OImm 0
     then p_when (is_punct (CHR '','')) (p_err M_bar_count) (preturn Bar)
     else p_err M_bar)"

text \<open>The match on the parts of the opcode.\<close>

definition stmt1 :: "string \<Rightarrow> string \<Rightarrow> instr parses" where
  "stmt1 p a = (if a = ''bra'' then pbind p_word (\<lambda>l. preturn (Bra False l))
     else if a = ''ret'' then preturn Ret
     else if a = ''exit'' then preturn Exit
     else p_err_back (M_unsupported p))"

definition stmt2 :: "string \<Rightarrow> string \<Rightarrow> string \<Rightarrow> instr parses" where
  "stmt2 p a t = (case map_of bin_ops1 a of
     Some b \<Rightarrow> p_bin p b t
   | None \<Rightarrow> if a = ''not'' then p_unary Notb p t
       else if a = ''mov'' then p_unary Mov p t
       else if a = ''selp'' then p_selp p t
       else if a = ''bar'' \<and> t = ''sync'' then p_bar
       else if a = ''bra'' \<and> t = ''uni'' then pbind p_word (\<lambda>l. preturn (Bra True l))
       else p_err_back (M_unsupported p))"

definition stmt3 :: "string \<Rightarrow> string \<Rightarrow> string \<Rightarrow> string \<Rightarrow> instr parses" where
  "stmt3 p a b t = (
     if a = ''mul'' \<and> b = ''lo'' then p_bin p BMulLo t
     else if a = ''mul'' \<and> b = ''wide'' then p_bin p BMulWide t
     else if a = ''mad'' \<and> b = ''lo'' then p_mad p t
     else if a = ''setp'' then p_setp p b t
     else if a = ''cvt'' then p_cvt p b t
     else if a = ''ld'' then p_ld p b t
     else if a = ''st'' then (case data_space b of Some x \<Rightarrow> p_st p x t | None \<Rightarrow> p_err_back (M_unsupported p))
     else p_err_back (M_unsupported p))"

definition stmt4 :: "string \<Rightarrow> string \<Rightarrow> string \<Rightarrow> string \<Rightarrow> string \<Rightarrow> instr parses" where
  "stmt4 p a b n t = (
     if a = ''cvta'' \<and> b = ''to'' \<and> n = ''global'' \<and> t = ''u64'' then p_cvta
     else if a = ''atom'' then (case data_space b of Some x \<Rightarrow> p_atom p x n t | None \<Rightarrow> p_err_back (M_unsupported p))
     else if a = ''red'' then (case data_space b of Some x \<Rightarrow> p_red p x n t | None \<Rightarrow> p_err_back (M_unsupported p))
     else p_err_back (M_unsupported p))"

definition stmt_instr :: "string \<Rightarrow> string list \<Rightarrow> instr parses" where
  "stmt_instr p parts = (case parts of
     [a] \<Rightarrow> stmt1 p a
   | [a, t] \<Rightarrow> stmt2 p a t
   | [a, b, t] \<Rightarrow> stmt3 p a b t
   | [a, b, n, t] \<Rightarrow> stmt4 p a b n t
   | _ \<Rightarrow> p_err_back (M_unsupported p))"

definition p_guard :: "guard option parses" where
  "p_guard = p_if_punct (CHR ''@'')
     (p_if_punct (CHR ''!'') (pbind p_reg (\<lambda>r. preturn (Some \<lparr>g_pred = r, g_neg = True\<rparr>)))
       (pbind p_reg (\<lambda>r. preturn (Some \<lparr>g_pred = r, g_neg = False\<rparr>))))
     (preturn None)"

definition p_stmt :: "stmt parses" where
  "p_stmt = pbind p_guard (\<lambda>g. pbind p_word (\<lambda>w.
     pbind (case float_instr w (split_dots w) of Some m \<Rightarrow> m | None \<Rightarrow> stmt_instr w (split_dots w)) (\<lambda>i.
     pthen (p_punct (CHR '';'')) (preturn \<lparr>s_guard = g, s_instr = i\<rparr>))))"

section \<open>Declarations\<close>

definition p_align :: "nat option parses" where
  "p_align = (\<lambda>p. if p_peek p = Some (TWord ''.align'')
     then pbind p_int (\<lambda>a. if a \<in> {1, 2, 4, 8, 16, 32, 64, 128, 256} then preturn (Some (nat a)) else p_err (M_align a))
       (p\<lparr>p_pos := p_pos p + 1\<rparr>)
     else preturn None p)"

definition p_elem :: "string parses" where
  "p_elem = pbind p_word (\<lambda>w. case strip_dot w of
     Some e \<Rightarrow> if elem_bytes e \<noteq> None then preturn e else p_err_back (M_elem w)
   | None \<Rightarrow> p_err_back (M_elem w))"

definition p_shared_name :: "string parses" where
  "p_shared_name = pbind p_word (\<lambda>n. if starts_with (CHR ''%'') n \<or> starts_with (CHR ''.'') n
     then p_err_back (M_shared_name n) else preturn n)"

definition p_shared_count :: "nat option parses" where
  "p_shared_count = p_if_punct (CHR ''['')
     (p_when (is_punct (CHR '']'')) (p_err M_shared_no_size)
       (pbind p_int (\<lambda>n. pthen (p_punct (CHR '']''))
         (if 0 < n \<and> n < 2 ^ 32 then preturn (Some (nat n)) else p_err (M_shared_size n)))))
     (preturn None)"

definition p_shared_decl :: "shared_decl parses" where
  "p_shared_decl = pbind p_align (\<lambda>al. pbind p_elem (\<lambda>e. pbind p_shared_name (\<lambda>n. pbind p_shared_count (\<lambda>c.
     p_when (\<lambda>p. is_punct (CHR ''='') p \<or> is_punct (CHR '','') p) (p_err M_one_shared)
     (pthen (p_punct (CHR '';'')) (let d = \<lparr>sd_align = al, sd_elem = e, sd_name = n, sd_count = c\<rparr> in
       if sd_size d > 48 * 1024 then p_err (M_shared_big n (sd_size d)) else preturn d))))))"

definition p_reg_count :: "nat option parses" where
  "p_reg_count = p_if_punct (CHR ''<'')
     (pbind p_int (\<lambda>n. pthen (p_punct (CHR ''>'')) (if 0 \<le> n \<and> n < 2 ^ 32 then preturn (Some (nat n)) else p_err M_reg_count)))
     (preturn None)"

definition p_reg_decl :: "reg_decl parses" where
  "p_reg_decl = pbind ty_directive (\<lambda>t. pbind p_word (\<lambda>n. pbind p_reg_count (\<lambda>c.
     p_when (is_punct (CHR '','')) (p_err M_one_reg)
     (pthen (p_punct (CHR '';'')) (preturn \<lparr>rd_ty = t, rd_name = n, rd_count = c\<rparr>)))))"

definition p_param :: "(string \<times> ty) parses" where
  "p_param = pthen (p_keyword ''.param'') (pbind ty_directive (\<lambda>t.
     if t = Pred then p_err M_pred_param
     else pbind p_word (\<lambda>n. if starts_with (CHR ''.'') n then p_err_back (M_param_attr n) else preturn (n, t))))"

section \<open>Parsers move forward\<close>

text \<open>\<open>adv n m\<close>: when \<open>m\<close> succeeds it has consumed at least \<open>n\<close> tokens and stands inside the input.\<close>

definition adv :: "nat \<Rightarrow> 'a parses \<Rightarrow> bool" where
  "adv n m \<longleftrightarrow> (\<forall>p x p'. m p = Some (Inr (x, p')) \<longrightarrow>
     p_toks p' = p_toks p \<and> p_pos p + n \<le> p_pos p' \<and> (p_pos p \<le> length (p_toks p) \<longrightarrow> p_pos p' \<le> length (p_toks p)))"

named_theorems adv_intros

lemma adv_weaken: "adv n m \<Longrightarrow> adv 0 m"
  by (fastforce simp: adv_def)

lemma adv_return [adv_intros]: "adv 0 (preturn x)"
  by (simp add: adv_def preturn_def)

lemma adv_err [adv_intros]: "adv n (p_err e)" "adv n (p_err_back e)" "adv n ppanic" "adv n (unsup_mod s me)"
  by (simp_all add: adv_def p_err_def p_err_back_def ppanic_def unsup_mod_def split: mod_err.split)

lemma adv_next: "adv 1 p_next"
  by (auto simp: adv_def p_next_def p_err_def p_peek_def split: option.splits if_splits)

lemma adv_bind: "adv a m \<Longrightarrow> (\<And>x. adv b (f x)) \<Longrightarrow> adv (a + b) (pbind m f)"
  by (fastforce simp: adv_def pbind_def split: option.splits sum.splits)

lemma adv_bind0 [adv_intros]: "adv 0 m \<Longrightarrow> (\<And>x. adv 0 (f x)) \<Longrightarrow> adv 0 (pbind m f)"
  using adv_bind [of 0 m 0 f] by simp

lemma adv_bind1 [adv_intros]: "adv 1 m \<Longrightarrow> (\<And>x. adv 0 (f x)) \<Longrightarrow> adv 1 (pbind m f)"
  using adv_bind [of 1 m 0 f] by simp

lemma adv_bind2: "adv 0 m \<Longrightarrow> (\<And>x. adv 1 (f x)) \<Longrightarrow> adv 1 (pbind m f)"
  using adv_bind [of 0 m 1 f] by simp

lemma adv_then [adv_intros]: "adv 0 m \<Longrightarrow> adv 0 n \<Longrightarrow> adv 0 (pthen m n)" "adv 1 m \<Longrightarrow> adv 0 n \<Longrightarrow> adv 1 (pthen m n)"
  unfolding pthen_def by (rule adv_bind0, simp, simp, rule adv_bind1, simp, simp)

lemma adv_if_punct [adv_intros]: "adv 0 m \<Longrightarrow> adv 0 n \<Longrightarrow> adv 0 (p_if_punct c m n)"
  by (fastforce simp: adv_def p_if_punct_def is_punct_def p_peek_def split: if_splits)

lemma adv_when [adv_intros]: "adv k m \<Longrightarrow> adv k n \<Longrightarrow> adv k (p_when b m n)"
  by (simp add: adv_def p_when_def)

lemma adv_if [adv_intros]: "(b \<Longrightarrow> adv k m) \<Longrightarrow> (\<not> b \<Longrightarrow> adv k n) \<Longrightarrow> adv k (if b then m else n)"
  by simp

lemma adv_option [adv_intros]: "adv k m \<Longrightarrow> (\<And>x. adv k (f x)) \<Longrightarrow> adv k (case z of None \<Rightarrow> m | Some x \<Rightarrow> f x)"
  by (cases z) simp_all

lemma adv_sum [adv_intros]: "(\<And>x. adv k (g x)) \<Longrightarrow> (\<And>x. adv k (f x)) \<Longrightarrow> adv k (case z of Inl x \<Rightarrow> g x | Inr x \<Rightarrow> f x)"
  by (cases z) simp_all

lemma adv_tokens: "adv 1 (p_punct c)" "adv 1 p_word" "adv 1 (p_keyword k)" "adv 1 (p_int_tok neg)" "adv 1 p_int" "adv 1 ty_directive"
proof -
  show "adv 1 (p_punct c)" unfolding p_punct_def by (intro adv_intros adv_next)
  show w: "adv 1 p_word" unfolding p_word_def
  proof (rule adv_bind1 [OF adv_next])
    show "adv 0 (case x of TWord w \<Rightarrow> preturn w | _ \<Rightarrow> p_err_back (M_expected_name x))" for x
      by (cases x) (simp_all add: adv_intros)
  qed
  show "adv 1 (p_keyword k)" unfolding p_keyword_def by (intro adv_intros w)
  show i: "adv 1 (p_int_tok neg)" for neg unfolding p_int_tok_def
  proof (rule adv_bind1 [OF adv_next])
    show "adv 0 (case x of TInt v \<Rightarrow> if v = 0 \<and> neg then p_err_back M_negative_zero else preturn (if neg then - v else v)
        | _ \<Rightarrow> p_err_back (M_expected_int x))" for x
      by (cases x) (simp_all add: adv_intros)
  qed
  show "adv 1 p_int" unfolding p_int_def
    using i [of True] i [of False] by (fastforce simp: adv_def p_if_punct_def is_punct_def p_peek_def split: if_splits)
  show "adv 1 ty_directive" unfolding ty_directive_def by (intro adv_intros w)
qed

lemmas adv_tokens0 = adv_tokens [THEN adv_weaken]

lemma adv_operand: "adv 1 p_operand"
proof -
  have i: "adv 1 (pbind p_int (\<lambda>v. preturn (OImm v)))" by (intro adv_intros adv_tokens)
  have w: "adv 1 (pbind p_word word_operand)" unfolding word_operand_def by (intro adv_intros adv_tokens)
  show ?thesis
    using i w unfolding adv_def p_operand_def
    by (auto simp: p_peek_def split: option.splits tok.splits if_splits)
qed

lemma adv_reg: "adv 1 p_reg"
  unfolding p_reg_def
proof (rule adv_bind1 [OF adv_operand])
  show "adv 0 (case x of OReg r \<Rightarrow> preturn r | _ \<Rightarrow> p_err_back (M_register x))" for x
    by (cases x) (simp_all add: adv_intros)
qed

lemma adv_address: "adv 1 p_address"
  unfolding p_address_def address_of_def by (intro adv_intros adv_tokens adv_tokens0)

lemma adv_comma: "adv 1 p_comma"
  unfolding p_comma_def by (rule adv_tokens)

lemmas adv_parts = adv_tokens0 adv_operand [THEN adv_weaken] adv_reg [THEN adv_weaken] adv_address [THEN adv_weaken]
  adv_comma [THEN adv_weaken]

lemma adv_float_instr: "float_instr s parts = Some m \<Longrightarrow> adv 0 m"
proof -
  assume "float_instr s parts = Some m"
  moreover have "adv 0 (float_arith s opc ms t)" for opc ms t
    unfolding float_arith_def float_operands_def by (intro adv_intros adv_parts)
  moreover have "adv 0 (float_setp s rest t)" for rest t
    unfolding float_setp_def by (intro adv_intros adv_parts)
  moreover have "adv 0 (float_cvt s ms dt st)" for ms dt st
    unfolding float_cvt_def by (intro adv_intros adv_parts)
  ultimately show ?thesis
    by (auto simp: float_instr_def split: list.splits if_splits option.splits)
qed

lemma adv_ty [adv_intros]: "adv 0 (p_ty s t)"
  unfolding p_ty_def by (intro adv_intros)

lemma adv_stmt_instr: "adv 0 (stmt_instr s parts)"
proof -
  have 1: "adv 0 (stmt1 s a)" for a unfolding stmt1_def by (intro adv_intros adv_parts)
  have 2: "adv 0 (stmt2 s a b)" for a b
    unfolding stmt2_def p_bin_def p_unary_def p_selp_def p_bar_def by (intro adv_intros adv_parts)
  have 3: "adv 0 (stmt3 s a b c)" for a b c
    unfolding stmt3_def p_bin_def p_mad_def p_setp_def p_cvt_def p_ld_def p_st_def by (intro adv_intros adv_parts)
  have 4: "adv 0 (stmt4 s a b c d)" for a b c d
    unfolding stmt4_def p_cvta_def p_atom_def p_red_def by (intro adv_intros adv_parts)
  show ?thesis using 1 2 3 4 by (auto simp: stmt_instr_def adv_intros split: list.split)
qed

lemma adv_stmt: "adv 1 p_stmt"
  unfolding p_stmt_def
proof (rule adv_bind2)
  show "adv 0 p_guard" unfolding p_guard_def by (intro adv_intros adv_parts)
  have "adv 0 (case float_instr w ws of Some m \<Rightarrow> m | None \<Rightarrow> stmt_instr w ws)" for w ws
    using adv_float_instr adv_stmt_instr by (cases "float_instr w ws") simp_all
  then show "adv 1 (pbind p_word (\<lambda>w. pbind (case float_instr w (split_dots w) of Some m \<Rightarrow> m | None \<Rightarrow> stmt_instr w (split_dots w)) (\<lambda>i.
     pthen (p_punct (CHR '';'')) (preturn \<lparr>s_guard = g, s_instr = i\<rparr>))))" for g
    by (intro adv_bind1 adv_bind0 adv_then adv_return adv_tokens adv_tokens0)
qed

lemma adv_decl: "adv 1 p_reg_decl" "adv 1 p_param" "adv 0 p_shared_decl"
proof -
  show "adv 1 p_reg_decl" unfolding p_reg_decl_def p_reg_count_def by (intro adv_intros adv_tokens adv_parts)
  show "adv 1 p_param" unfolding p_param_def by (intro adv_intros adv_tokens adv_parts)
  have "adv 0 (pbind p_int (\<lambda>a. if a \<in> {1, 2, 4, 8, 16, 32, 64, 128, 256} then preturn (Some (nat a)) else p_err (M_align a)))"
    by (intro adv_intros adv_parts)
  then have "adv 0 p_align"
    unfolding adv_def p_align_def by (fastforce simp: p_peek_def preturn_def split: if_splits)
  then show "adv 0 p_shared_decl"
    unfolding p_shared_decl_def p_elem_def p_shared_name_def p_shared_count_def Let_def by (intro adv_intros adv_parts)
qed

lemma adv_progress: "adv 1 m \<Longrightarrow> m p = Some (Inr (x, p')) \<Longrightarrow> p_pos p < p_pos p' \<and> p_toks p' = p_toks p"
  unfolding adv_def by (metis Suc_eq_plus1 Suc_le_eq)

section \<open>Kernels and modules\<close>

definition p_remaining :: "parser \<Rightarrow> nat" where
  "p_remaining p = length (p_toks p) - p_pos p"

definition p_skip :: "nat \<Rightarrow> parser \<Rightarrow> parser" where
  "p_skip n p = p\<lparr>p_pos := p_pos p + n\<rparr>"

lemma p_remaining_punct: "is_punct c p \<Longrightarrow> p_pos p < length (p_toks p)"
  by (simp add: is_punct_def p_peek_def split: if_splits)

function p_params :: "(string \<times> ty) list \<Rightarrow> (string \<times> ty) list parses" where
  "p_params acc p = (case p_param p of
     None \<Rightarrow> None
   | Some (Inl e) \<Rightarrow> Some (Inl e)
   | Some (Inr (x, p)) \<Rightarrow>
       if is_punct (CHR '','') p then p_params (acc @ [x]) (p_skip 1 p) else Some (Inr (acc @ [x], p)))"
  by pat_completeness auto
termination
proof (relation "measure (\<lambda>(acc, p). p_remaining p)", goal_cases)
  case (2 acc p x2 y xa p')
  then show ?case
    using adv_progress [OF adv_decl(2), of p xa p'] p_remaining_punct [of "CHR '',''" p']
    by (auto simp: p_remaining_def p_skip_def)
qed simp

type_synonym decls = "reg_decl list \<times> shared_decl list \<times> decl list"

function p_decls :: "reg_decl list \<Rightarrow> shared_decl list \<Rightarrow> decl list \<Rightarrow> decls parses" where
  "p_decls regs shared ds p = (
     if p_peek p = Some (TWord ''.reg'') then (case p_reg_decl (p_skip 1 p) of
         None \<Rightarrow> None
       | Some (Inl e) \<Rightarrow> Some (Inl e)
       | Some (Inr (r, p)) \<Rightarrow> p_decls (regs @ [r]) shared (ds @ [DReg (length regs)]) p)
     else if p_peek p = Some (TWord ''.shared'') then (case p_shared_decl (p_skip 1 p) of
         None \<Rightarrow> None
       | Some (Inl e) \<Rightarrow> Some (Inl e)
       | Some (Inr (d, p)) \<Rightarrow> p_decls regs (shared @ [d]) (ds @ [DShared (length shared)]) p)
     else Some (Inr ((regs, shared, ds), p)))"
  by pat_completeness auto
termination
proof (relation "measure (\<lambda>(regs, shared, ds, p). p_remaining p)", goal_cases)
  case (2 regs shared ds p x2 y r p')
  then show ?case
    using adv_decl(1) [unfolded adv_def, rule_format, of "p_skip 1 p" r p']
    by (auto simp: p_remaining_def p_skip_def p_peek_def split: if_splits)
next
  case (3 regs shared ds p x2 y d p')
  then show ?case
    using adv_decl(3) [unfolded adv_def, rule_format, of "p_skip 1 p" d p']
    by (auto simp: p_remaining_def p_skip_def p_peek_def split: if_splits)
qed simp

definition label_at :: "parser \<Rightarrow> string option" where
  "label_at p = (case p_peek p of
     Some (TWord w) \<Rightarrow> if p_peek (p_skip 1 p) = Some (TPunct (CHR '':'')) then Some w else None
   | _ \<Rightarrow> None)"

type_synonym kbody = "stmt list \<times> (string \<times> nat) list \<times> nat list"

function p_body :: "stmt list \<Rightarrow> (string \<times> nat) list \<Rightarrow> nat list \<Rightarrow> kbody parses" where
  "p_body body labels lines p = (
     if is_punct (CHR ''}'') p then Some (Inr ((body, labels, lines), p_skip 1 p))
     else (case label_at p of
       Some w \<Rightarrow> p_body body (labels @ [(w, length body)]) lines (p_skip 2 p)
     | None \<Rightarrow> (case p_stmt p of
         None \<Rightarrow> None
       | Some (Inl e) \<Rightarrow> Some (Inl e)
       | Some (Inr (s, p')) \<Rightarrow> p_body (body @ [s]) labels (lines @ [p_line p]) p')))"
  by pat_completeness auto
termination
proof (relation "measure (\<lambda>(body, labels, lines, p). p_remaining p)", goal_cases)
  case (2 body labels lines p x2 y s p')
  moreover have "p_pos p < length (p_toks p)"
  proof (rule ccontr)
    assume "\<not> p_pos p < length (p_toks p)"
    then have "p_stmt p = p_err M_eof p"
      by (simp add: p_stmt_def p_guard_def p_if_punct_def is_punct_def p_peek_def pbind_def preturn_def p_word_def p_next_def p_err_def)
    with 2 show False by (simp add: p_err_def)
  qed
  ultimately show ?case
    using adv_progress [OF adv_stmt, of p s p'] by (auto simp: p_remaining_def)
next
  case (3 body labels lines p w)
  then show ?case
    by (auto simp: p_remaining_def p_skip_def label_at_def p_peek_def split: option.splits tok.splits if_splits)
qed simp

declare p_params.simps [simp del] p_decls.simps [simp del] p_body.simps [simp del]

definition p_visible :: "bool parses" where
  "p_visible = (\<lambda>p. if p_peek p = Some (TWord ''.visible'') then preturn True (p_skip 1 p) else preturn False p)"

definition p_param_list :: "(string \<times> ty) list parses" where
  "p_param_list = p_when (is_punct (CHR '')'')) (preturn []) (p_params [])"

text \<open>A parsed kernel is checked before it is returned.\<close>

definition p_check :: "kernel \<Rightarrow> nat list \<Rightarrow> kernel parses" where
  "p_check k lines = (\<lambda>p. case check k lines of
     None \<Rightarrow> None
   | Some (Inl (l, e)) \<Rightarrow> Some (Inl (l, M_check e))
   | Some (Inr _) \<Rightarrow> Some (Inr (k, p)))"

definition p_kernel :: "kernel parses" where
  "p_kernel = pbind p_visible (\<lambda>vis. pthen (p_keyword ''.entry'') (pbind p_word (\<lambda>n.
     pthen (p_punct (CHR ''('')) (pbind p_param_list (\<lambda>ps. pthen (p_punct (CHR '')'')) (pthen (p_punct (CHR ''{''))
     (pbind (p_decls [] [] []) (\<lambda>(regs, shared, ds). pbind (p_body [] [] []) (\<lambda>(body, labels, lines).
       p_check \<lparr>k_visible = vis, k_name = n, k_params = ps, k_regs = regs, k_shared = shared, k_decls = ds,
         k_body = body, k_labels = labels\<rparr> lines)))))))))"

subsection \<open>They move forward too\<close>

definition moved :: "parser \<Rightarrow> parser \<Rightarrow> bool" where
  "moved p p' \<longleftrightarrow> p_toks p' = p_toks p \<and> p_pos p \<le> p_pos p' \<and> (p_pos p \<le> length (p_toks p) \<longrightarrow> p_pos p' \<le> length (p_toks p))"

lemma moved_trans: "moved p q \<Longrightarrow> moved q r \<Longrightarrow> moved p r"
  by (auto simp: moved_def)

lemma moved_refl [simp]: "moved p p"
  by (simp add: moved_def)

lemma adv_moved: "adv 0 m \<longleftrightarrow> (\<forall>p x p'. m p = Some (Inr (x, p')) \<longrightarrow> moved p p')"
  by (simp add: adv_def moved_def)

lemma adv_movedD: "adv 0 m \<Longrightarrow> m p = Some (Inr (x, p')) \<Longrightarrow> moved p p'"
  by (simp add: adv_moved)

lemma moved_skip: "p_pos p + n \<le> length (p_toks p) \<Longrightarrow> moved p (p_skip n p)"
  by (simp add: moved_def p_skip_def)

lemma p_peek_Some: "p_peek p = Some t \<Longrightarrow> p_pos p + 1 \<le> length (p_toks p)"
  by (simp add: p_peek_def split: if_splits)

lemma moved_punct: "is_punct c p \<Longrightarrow> moved p (p_skip 1 p)"
  using moved_skip [of p 1] p_peek_Some [of p "TPunct c"] by (simp add: is_punct_def)

lemma moved_params: "p_params acc p = Some (Inr (xs, p')) \<Longrightarrow> moved p p'"
proof (induction acc p rule: p_params.induct)
  case (1 acc p)
  from 1(2) obtain x q where q: "p_param p = Some (Inr (x, q))"
    by (subst (asm) p_params.simps) (auto split: option.splits sum.splits)
  note m = adv_movedD [OF adv_decl(2) [THEN adv_weaken] q]
  show ?case
  proof (cases "is_punct (CHR '','') q")
    case True
    then have "p_params (acc @ [x]) (p_skip 1 q) = Some (Inr (xs, p'))"
      using 1(2) q by (subst (asm) p_params.simps) simp
    then have "moved (p_skip 1 q) p'" using 1(1) [OF q] True by blast
    then show ?thesis using m moved_punct [OF True] moved_trans by blast
  next
    case False
    then show ?thesis using 1(2) q m by (subst (asm) p_params.simps) simp
  qed
qed

lemma moved_decls: "p_decls regs shared ds p = Some (Inr (r, p')) \<Longrightarrow> moved p p'"
proof (induction regs shared ds p rule: p_decls.induct)
  case (1 regs shared ds p)
  consider (reg) x q where "p_peek p = Some (TWord ''.reg'')" "p_reg_decl (p_skip 1 p) = Some (Inr (x, q))"
      "p_decls (regs @ [x]) shared (ds @ [DReg (length regs)]) q = Some (Inr (r, p'))"
    | (shared) x q where "p_peek p = Some (TWord ''.shared'')" "p_shared_decl (p_skip 1 p) = Some (Inr (x, q))"
      "p_decls regs (shared @ [x]) (ds @ [DShared (length shared)]) q = Some (Inr (r, p'))"
    | (stop) "p' = p"
    using 1(3) by (subst (asm) p_decls.simps) (auto split: option.splits sum.splits if_splits)
  then show ?case
  proof cases
    case reg
    have "moved p (p_skip 1 p)" by (rule moved_skip [OF p_peek_Some [OF reg(1)]])
    moreover have "moved (p_skip 1 p) q" by (rule adv_movedD [OF adv_decl(1) [THEN adv_weaken] reg(2)])
    moreover have "moved q p'" using 1(1) [OF reg(1,2)] reg(3) by blast
    ultimately show ?thesis using moved_trans by blast
  next
    case shared
    have "moved p (p_skip 1 p)" by (rule moved_skip [OF p_peek_Some [OF shared(1)]])
    moreover have "moved (p_skip 1 p) q" by (rule adv_movedD [OF adv_decl(3) shared(2)])
    moreover have "moved q p'" using 1(2) [OF _ shared(1,2)] shared(1,3) by simp
    ultimately show ?thesis using moved_trans by blast
  qed simp
qed

lemma label_at_pos: "label_at p = Some w \<Longrightarrow> p_pos p + 2 \<le> length (p_toks p)"
  by (auto simp: label_at_def p_peek_def p_skip_def split: option.splits tok.splits if_splits)

lemma moved_body: "p_body body labels lines p = Some (Inr (r, p')) \<Longrightarrow> moved p p'"
proof (induction body labels lines p rule: p_body.induct)
  case (1 body labels lines p)
  consider (stop) "is_punct (CHR ''}'') p" "p' = p_skip 1 p"
    | (label) w where "\<not> is_punct (CHR ''}'') p" "label_at p = Some w"
      "p_body body (labels @ [(w, length body)]) lines (p_skip 2 p) = Some (Inr (r, p'))"
    | (one) s q where "\<not> is_punct (CHR ''}'') p" "label_at p = None" "p_stmt p = Some (Inr (s, q))"
      "p_body (body @ [s]) labels (lines @ [p_line p]) q = Some (Inr (r, p'))"
    using 1(3) by (subst (asm) p_body.simps) (auto split: option.splits sum.splits if_splits)
  then show ?case
  proof cases
    case stop
    then show ?thesis using moved_punct by simp
  next
    case label
    then show ?thesis
      using 1(2) [OF label(1,2)] moved_trans [OF moved_skip [OF label_at_pos [OF label(2)]]] by blast
  next
    case one
    then show ?thesis
      using 1(1) [OF one(1,2,3)] moved_trans [OF adv_movedD [OF adv_stmt [THEN adv_weaken] one(3)]] by blast
  qed
qed

lemma adv_visible: "adv 0 p_visible"
  using moved_skip [of _ 1] p_peek_Some by (auto simp: adv_moved p_visible_def preturn_def split: if_splits)

lemma adv_param_list: "adv 0 p_param_list"
proof -
  have "adv 0 (p_params [])" using moved_params by (simp add: adv_moved)
  then show ?thesis unfolding p_param_list_def by (intro adv_intros)
qed

lemma adv_check: "adv 0 (p_check k lines)"
  by (auto simp: adv_moved p_check_def split: option.splits sum.splits prod.splits)

lemma adv_rest: "adv 0 (p_decls regs shared ds)" "adv 0 (p_body body labels lines)"
  using moved_decls moved_body by (simp_all add: adv_moved)

lemma adv_prod [adv_intros]: "(\<And>x y. adv k (f x y)) \<Longrightarrow> adv k (case z of (x, y) \<Rightarrow> f x y)"
  by (cases z) simp

lemma adv_kernel: "adv 1 p_kernel"
  unfolding p_kernel_def
proof (rule adv_bind2 [OF adv_visible])
  show "adv 1 (pthen (p_keyword ''.entry'') (pbind p_word (\<lambda>n.
     pthen (p_punct (CHR ''('')) (pbind p_param_list (\<lambda>ps. pthen (p_punct (CHR '')'')) (pthen (p_punct (CHR ''{''))
     (pbind (p_decls [] [] []) (\<lambda>(regs, shared, ds). pbind (p_body [] [] []) (\<lambda>(body, labels, lines).
       p_check \<lparr>k_visible = vis, k_name = n, k_params = ps, k_regs = regs, k_shared = shared, k_decls = ds,
         k_body = body, k_labels = labels\<rparr> lines)))))))))" for vis
    by (intro adv_intros adv_tokens adv_parts adv_param_list adv_check adv_rest)
qed

text \<open>\<open>while p.peek().is_some() { kernels.push(kernel(&mut p)?); }\<close>.\<close>

function p_kernels :: "kernel list \<Rightarrow> kernel list parses" where
  "p_kernels ks p = (if p_peek p = None then Some (Inr (ks, p))
     else (case p_kernel p of
       None \<Rightarrow> None
     | Some (Inl e) \<Rightarrow> Some (Inl e)
     | Some (Inr (k, p)) \<Rightarrow> p_kernels (ks @ [k]) p))"
  by pat_completeness auto
termination
proof (relation "measure (\<lambda>(ks, p). p_remaining p)", goal_cases)
  case (2 ks p x2 y k p')
  then show ?case
    using adv_progress [OF adv_kernel, of p k p'] by (auto simp: p_remaining_def p_peek_def split: if_splits)
qed simp

declare p_kernels.simps [simp del]

definition p_version :: "string parses" where
  "p_version = pbind p_next (\<lambda>t. case t of TNum v \<Rightarrow> preturn v | _ \<Rightarrow> p_err (M_version t))"

definition p_module :: "ptx_module parses" where
  "p_module = pthen (p_keyword ''.version'') (pbind p_version (\<lambda>v. pthen (p_keyword ''.target'') (pbind p_word (\<lambda>t.
     p_when (is_punct (CHR '','')) (p_err M_single_target)
     (pthen (p_keyword ''.address_size'') (pbind p_int (\<lambda>n. if n \<noteq> 64 then p_err M_address_size
       else pbind (p_kernels []) (\<lambda>ks. if ks = [] then p_err M_no_entry
         else preturn \<lparr>m_version = v, m_target = t, m_address_size = 64, m_kernels = ks\<rparr>))))))))"

definition parse_module :: "string \<Rightarrow> (perr + ptx_module) panics" where
  "parse_module s = (case lex s of
     Inl e \<Rightarrow> Some (Inl (None, M_lex e))
   | Inr ts \<Rightarrow> (case p_module \<lparr>p_toks = ts, p_pos = 0\<rparr> of
       None \<Rightarrow> None
     | Some (Inl e) \<Rightarrow> Some (Inl e)
     | Some (Inr (m, _)) \<Rightarrow> Some (Inr m)))"

end
