(* ===== verification/Ptx_Print.thy ===== *)
theory Ptx_Print
  imports Ptx_Ast Ptx_Num
begin

text \<open>
  The canonical text of a module, \<open>crates/e5r-ptx/src/print.rs\<close>, one definition per function and
  one equation per instruction form.
\<close>

section \<open>Operands and addresses\<close>

definition tab :: char where "tab = CHR 0x09"
definition nl :: char where "nl = CHR 0x0A"

fun print_dim :: "dim \<Rightarrow> string" where
  "print_dim DX = ''x''"
| "print_dim DY = ''y''"
| "print_dim DZ = ''z''"

fun print_sreg :: "sreg \<Rightarrow> string" where
  "print_sreg (Tid d) = ''%tid'' @ ''.'' @ print_dim d"
| "print_sreg (Ntid d) = ''%ntid'' @ ''.'' @ print_dim d"
| "print_sreg (Ctaid d) = ''%ctaid'' @ ''.'' @ print_dim d"
| "print_sreg (Nctaid d) = ''%nctaid'' @ ''.'' @ print_dim d"

fun print_operand :: "operand \<Rightarrow> string" where
  "print_operand (OReg r) = r"
| "print_operand (OImm v) = show_int v"
| "print_operand (OSreg s) = print_sreg s"
| "print_operand (OSym n) = n"
| "print_operand (OFImm v w) = (if w = 32 then ''0f'' @ show_hex 8 (unat v) else ''0d'' @ show_hex 16 (unat v))"

definition print_mods :: "bool \<Rightarrow> bool \<Rightarrow> string" where
  "print_mods ftz sat = (if ftz then ''.ftz'' else []) @ (if sat then ''.sat'' else [])"

fun print_cvt_rnd :: "cvt_rnd \<Rightarrow> string" where
  "print_cvt_rnd CvtNone = []"
| "print_cvt_rnd (CvtF m) = ''.'' @ rmode_name m"
| "print_cvt_rnd (CvtI m) = ''.'' @ rmode_name m @ ''i''"

fun print_address :: "address \<Rightarrow> string" where
  "print_address (AReg n off) = (case off of None \<Rightarrow> ''['' @ n @ '']'' | Some v \<Rightarrow> ''['' @ n @ ''+'' @ show_int v @ '']'')"
| "print_address (AParam n off) = (case off of None \<Rightarrow> ''['' @ n @ '']'' | Some v \<Rightarrow> ''['' @ n @ ''+'' @ show_int v @ '']'')"

section \<open>Instructions\<close>

text \<open>An opcode and its operands: \<open>"op \t{a}, {b}, ..."\<close>.\<close>

fun commas :: "string list \<Rightarrow> string" where
  "commas [] = []"
| "commas [x] = x"
| "commas (x # xs) = x @ '', '' @ commas xs"

definition line_of :: "string \<Rightarrow> string list \<Rightarrow> string" where
  "line_of p xs = p @ '' '' @ [tab] @ commas xs"

fun print_opcode :: "instr \<Rightarrow> string" where
  "print_opcode (Bin b t _ _ _) = bin_opcode b @ ''.'' @ ty_name t"
| "print_opcode (MadLo t _ _ _ _) = ''mad.lo.'' @ ty_name t"
| "print_opcode (Notb t _ _) = ''not.'' @ ty_name t"
| "print_opcode (Mov t _ _) = ''mov.'' @ ty_name t"
| "print_opcode (Setp c t _ _ _) = ''setp.'' @ cmp_name c @ ''.'' @ ty_name t"
| "print_opcode (Selp t _ _ _ _) = ''selp.'' @ ty_name t"
| "print_opcode (Cvt dt st _ _) = ''cvt.'' @ ty_name dt @ ''.'' @ ty_name st"
| "print_opcode (CvtaGlobal _ _) = ''cvta.to.global.u64''"
| "print_opcode (Ld s t _ _) = ''ld.'' @ space_name s @ ''.'' @ ty_name t"
| "print_opcode (St s t _ _) = ''st.'' @ space_name s @ ''.'' @ ty_name t"
| "print_opcode (Bra u _) = (if u then ''bra.uni'' else ''bra'')"
| "print_opcode Ret = ''ret''"
| "print_opcode Exit = ''exit''"
| "print_opcode (Atom s p t _ _ _) = ''atom.'' @ space_name s @ ''.'' @ atom_name p @ ''.'' @ ty_name t"
| "print_opcode (Cas s t _ _ _ _) = ''atom.'' @ space_name s @ ''.cas.'' @ ty_name t"
| "print_opcode (Red s p t _ _) = ''red.'' @ space_name s @ ''.'' @ atom_name p @ ''.'' @ ty_name t"
| "print_opcode Bar = ''bar.sync''"
| "print_opcode (FBin p m ftz sat t _ _ _) = fbin_name p @ ''.'' @ rmode_name m @ print_mods ftz sat @ ''.'' @ ty_name t"
| "print_opcode (Ffma m ftz sat t _ _ _ _) = ''fma.'' @ rmode_name m @ print_mods ftz sat @ ''.'' @ ty_name t"
| "print_opcode (Fsqrt m ftz t _ _) = ''sqrt.'' @ rmode_name m @ print_mods ftz False @ ''.'' @ ty_name t"
| "print_opcode (Frcp m ftz t _ _) = ''rcp.'' @ rmode_name m @ print_mods ftz False @ ''.'' @ ty_name t"
| "print_opcode (Fneg ftz t _ _) = ''neg'' @ print_mods ftz False @ ''.'' @ ty_name t"
| "print_opcode (Fabs ftz t _ _) = ''abs'' @ print_mods ftz False @ ''.'' @ ty_name t"
| "print_opcode (Fminmax mx ftz nan t _ _ _) = (if mx then ''max'' else ''min'') @ print_mods ftz False
     @ (if nan then ''.NaN'' else []) @ ''.'' @ ty_name t"
| "print_opcode (Fsetp c ftz t _ _ _) = ''setp.'' @ fcmp_name c @ print_mods ftz False @ ''.'' @ ty_name t"
| "print_opcode (CvtFlt dt st r ftz sat _ _) = ''cvt'' @ print_cvt_rnd r @ print_mods ftz sat @ ''.'' @ ty_name dt @ ''.'' @ ty_name st"

fun print_args :: "instr \<Rightarrow> string list" where
  "print_args (Bin _ _ d x y) = [d, print_operand x, print_operand y]"
| "print_args (MadLo _ d a b c) = [d, print_operand a, print_operand b, print_operand c]"
| "print_args (Notb _ d a) = [d, print_operand a]"
| "print_args (Mov _ d a) = [d, print_operand a]"
| "print_args (Setp _ _ d a b) = [d, print_operand a, print_operand b]"
| "print_args (Selp _ d a b p) = [d, print_operand a, print_operand b, p]"
| "print_args (Cvt _ _ d a) = [d, print_operand a]"
| "print_args (CvtaGlobal d a) = [d, print_operand a]"
| "print_args (Ld _ _ d a) = [d, print_address a]"
| "print_args (St _ _ a v) = [print_address a, print_operand v]"
| "print_args (Bra _ l) = [l]"
| "print_args Ret = []"
| "print_args Exit = []"
| "print_args (Atom _ _ _ d a b) = [d, print_address a, print_operand b]"
| "print_args (Cas _ _ d a b c) = [d, print_address a, print_operand b, print_operand c]"
| "print_args (Red _ _ _ a b) = [print_address a, print_operand b]"
| "print_args Bar = [''0'']"
| "print_args (FBin _ _ _ _ _ d a b) = [d, print_operand a, print_operand b]"
| "print_args (Ffma _ _ _ _ d a b c) = [d, print_operand a, print_operand b, print_operand c]"
| "print_args (Fsqrt _ _ _ d a) = [d, print_operand a]"
| "print_args (Frcp _ _ _ d a) = [d, print_operand a]"
| "print_args (Fneg _ _ d a) = [d, print_operand a]"
| "print_args (Fabs _ _ d a) = [d, print_operand a]"
| "print_args (Fminmax _ _ _ _ d a b) = [d, print_operand a, print_operand b]"
| "print_args (Fsetp _ _ _ p a b) = [p, print_operand a, print_operand b]"
| "print_args (CvtFlt _ _ _ _ _ d a) = [d, print_operand a]"

definition print_instr :: "instr \<Rightarrow> string" where
  "print_instr i = (if i = Ret \<or> i = Exit then print_opcode i else line_of (print_opcode i) (print_args i))"

section \<open>Declarations and modules\<close>

definition print_shared :: "shared_decl \<Rightarrow> string" where
  "print_shared d = (let al = (case sd_align d of None \<Rightarrow> [] | Some a \<Rightarrow> ''.align '' @ show_nat a @ '' '');
      n = (case sd_count d of None \<Rightarrow> [] | Some n \<Rightarrow> ''['' @ show_nat n @ '']'')
    in ''.shared '' @ al @ ''.'' @ sd_elem d @ '' '' @ sd_name d @ n @ '';'')"

fun print_params :: "(string \<times> ty) list \<Rightarrow> string" where
  "print_params [] = []"
| "print_params ((n, t) # ps) = [tab] @ ''.param .'' @ ty_name t @ '' '' @ n @ (if ps \<noteq> [] then '','' else []) @ [nl] @ print_params ps"

definition print_reg :: "reg_decl \<Rightarrow> string" where
  "print_reg r = [tab] @ ''.reg .'' @ ty_name (rd_ty r) @ '' '' @ [tab] @ rd_name r
     @ (case rd_count r of Some n \<Rightarrow> ''<'' @ show_nat n @ ''>;'' | None \<Rightarrow> '';'') @ [nl]"

text \<open>The indices of \<open>decls\<close> panic when they are out of range.\<close>

fun print_decl :: "kernel \<Rightarrow> decl \<Rightarrow> string panics" where
  "print_decl k (DReg i) = (if i < length (k_regs k) then Some (print_reg (k_regs k ! i)) else None)"
| "print_decl k (DShared i) = (if i < length (k_shared k) then Some ([tab] @ print_shared (k_shared k ! i) @ [nl]) else None)"

definition print_labels :: "kernel \<Rightarrow> nat \<Rightarrow> string" where
  "print_labels k i = concat (map (\<lambda>(l, _). l @ '':'' @ [nl]) (filter (\<lambda>(_, pos). pos = i) (k_labels k)))"

definition print_stmt :: "stmt \<Rightarrow> string" where
  "print_stmt st = [tab] @ (case s_guard st of
      None \<Rightarrow> []
    | Some g \<Rightarrow> (if g_neg g then ''@!'' else ''@'') @ g_pred g @ '' '') @ print_instr (s_instr st) @ '';'' @ [nl]"

definition print_body :: "kernel \<Rightarrow> string" where
  "print_body k = concat (map (\<lambda>(i, st). print_labels k i @ print_stmt st) (zip [0..<length (k_body k)] (k_body k)))
     @ print_labels k (length (k_body k))"

definition print_kernel :: "kernel \<Rightarrow> string panics" where
  "print_kernel k = map_option (\<lambda>ds. [nl] @ (if k_visible k then ''.visible '' else []) @ ''.entry '' @ k_name k @ ''('' @ [nl]
     @ print_params (k_params k) @ '')'' @ [nl] @ ''{'' @ [nl]
     @ concat ds @ [nl] @ print_body k @ ''}'' @ [nl]) (those (map (print_decl k) (k_decls k)))"

definition print_module :: "ptx_module \<Rightarrow> string panics" where
  "print_module m = map_option (\<lambda>ks. ''.version '' @ m_version m @ [nl] @ ''.target '' @ m_target m @ [nl]
     @ ''.address_size '' @ show_nat (m_address_size m) @ [nl] @ concat ks) (those (map print_kernel (m_kernels m)))"

end
