(* ===== verification/Ptx_Roundtrip.thy ===== *)
theory Ptx_Roundtrip
  imports Ptx_Parse Ptx_Print
begin

text \<open>
  \<open>crates/e5r-ptx/src/lib.rs\<close>: \<open>roundtrip\<close> parses a text, prints it, and accepts it only when the printed
  text has the tokens of the source and parses to the same module; what acceptance means.
\<close>

datatype rt_err =
    Rt_parse perr
  | Rt_lex lex_err
  | Rt_token nat
  | Rt_reparse perr
  | Rt_differs

definition toks_of :: "token list \<Rightarrow> tok list" where
  "toks_of ts = map tk_tok ts"

definition nth_opt :: "'a list \<Rightarrow> nat \<Rightarrow> 'a option" where
  "nth_opt xs i = (if i < length xs then Some (xs ! i) else None)"

text \<open>\<open>(0..a.len().max(b.len())).find(|&i| a.get(i) != b.get(i))\<close>.\<close>

definition first_diff :: "tok list \<Rightarrow> tok list \<Rightarrow> nat option" where
  "first_diff a b = find (\<lambda>i. nth_opt a i \<noteq> nth_opt b i) [0..<max (length a) (length b)]"

definition check_printed :: "string \<Rightarrow> string \<Rightarrow> ptx_module \<Rightarrow> (rt_err + ptx_module) panics" where
  "check_printed s printed m = (case lex s of
     Inl e \<Rightarrow> Some (Inl (Rt_lex e))
   | Inr a \<Rightarrow> (case lex printed of
       Inl e \<Rightarrow> Some (Inl (Rt_lex e))
     | Inr b \<Rightarrow> (case first_diff (toks_of a) (toks_of b) of
         Some i \<Rightarrow> Some (Inl (Rt_token i))
       | None \<Rightarrow> (case parse_module printed of
           None \<Rightarrow> None
         | Some (Inl e) \<Rightarrow> Some (Inl (Rt_reparse e))
         | Some (Inr again) \<Rightarrow> Some (if again \<noteq> m then Inl Rt_differs else Inr m)))))"

definition roundtrip :: "string \<Rightarrow> (rt_err + ptx_module) panics" where
  "roundtrip s = (case parse_module s of
     None \<Rightarrow> None
   | Some (Inl e) \<Rightarrow> Some (Inl (Rt_parse e))
   | Some (Inr m) \<Rightarrow> (case print_module m of
       None \<Rightarrow> None
     | Some printed \<Rightarrow> check_printed s printed m))"

lemma nth_opt_eq: "(\<And>i. i < max (length a) (length b) \<Longrightarrow> nth_opt a i = nth_opt b i) \<Longrightarrow> a = b"
proof (rule nth_equalityI)
  assume *: "\<And>i. i < max (length a) (length b) \<Longrightarrow> nth_opt a i = nth_opt b i"
  show len: "length a = length b"
    using * [of "min (length a) (length b)"] by (cases "length a" "length b" rule: linorder_cases) (auto simp: nth_opt_def)
  show "a ! i = b ! i" if "i < length a" for i
    using * [of i] that len by (simp add: nth_opt_def)
qed

lemma first_diff_None: "first_diff a b = None \<longleftrightarrow> a = b"
  using nth_opt_eq [of a b] by (auto simp: first_diff_def find_None_iff)

lemma first_diff_same [simp]: "first_diff a a = None"
  by (simp add: first_diff_None)

lemma check_printed_ok: "check_printed s printed m = Some (Inr m') \<longleftrightarrow>
  m' = m \<and> parse_module printed = Some (Inr m)
  \<and> (\<exists>a b. lex s = Inr a \<and> lex printed = Inr b \<and> toks_of a = toks_of b)"
  by (auto simp: check_printed_def first_diff_None split: sum.splits option.splits if_splits)

lemma roundtrip_accepts: "roundtrip s = Some (Inr m) \<longleftrightarrow>
  parse_module s = Some (Inr m) \<and> (\<exists>printed a b. print_module m = Some printed \<and> parse_module printed = Some (Inr m)
     \<and> lex s = Inr a \<and> lex printed = Inr b \<and> toks_of a = toks_of b)"
  by (auto simp: roundtrip_def check_printed_ok split: sum.splits option.splits)

end
