(* ===== verification/Ptx_Mem.thy ===== *)
theory Ptx_Mem
  imports Ptx_Ast
begin

text \<open>
  The memory of \<open>crates/e5r-ptx/src/interp.rs\<close>: \<open>Mem\<close>, a byte map with a default of zero and
  little-endian reads and writes of \<open>n\<close> bytes, and the locale \<open>byte_memory\<close> of what a client
  of such a memory may rely on, proved for \<open>Mem\<close>.
\<close>

section \<open>Mem\<close>

record mem =
  m_bytes :: "u64 \<rightharpoonup> u8"

definition mem_default :: mem where "mem_default = \<lparr>m_bytes = Map.empty\<rparr>"

definition mem_get :: "mem \<Rightarrow> u64 \<Rightarrow> u8" where
  "mem_get m a = unwrap_or (m_bytes m a) 0"

definition mem_rd :: "mem \<Rightarrow> u64 \<Rightarrow> nat \<Rightarrow> u64" where
  "mem_rd m a n = fold (\<lambda>i v. push_bit 8 v OR ucast (mem_get m (a + of_nat i))) (rev [0..<n]) 0"

definition mem_wr :: "mem \<Rightarrow> u64 \<Rightarrow> nat \<Rightarrow> u64 \<Rightarrow> mem" where
  "mem_wr m a n v = fold (\<lambda>i m. m\<lparr>m_bytes := (m_bytes m)(a + of_nat i \<mapsto> ucast (drop_bit (8 * i) v))\<rparr>) [0..<n] m"

section \<open>What a byte memory promises\<close>

text \<open>
  \<open>get\<close> observes one byte, \<open>rd\<close> and \<open>wr\<close> move \<open>n\<close> bytes: a write changes exactly its own
  bytes, to the bytes of the value, and a read is determined by the bytes in its range.
\<close>

definition in_range :: "u64 \<Rightarrow> nat \<Rightarrow> u64 \<Rightarrow> bool" where
  "in_range a n x \<longleftrightarrow> unat (x - a) < n"

definition byte_of :: "u64 \<Rightarrow> nat \<Rightarrow> u8" where
  "byte_of v i = ucast (drop_bit (8 * i) v)"

locale byte_memory =
  fixes get :: "'m \<Rightarrow> u64 \<Rightarrow> u8" and rd :: "'m \<Rightarrow> u64 \<Rightarrow> nat \<Rightarrow> u64" and wr :: "'m \<Rightarrow> u64 \<Rightarrow> nat \<Rightarrow> u64 \<Rightarrow> 'm"
  assumes get_wr: "n \<le> 8 \<Longrightarrow> get (wr m a n v) x = (if in_range a n x then byte_of v (unat (x - a)) else get m x)"
    and byte_rd: "n \<le> 8 \<Longrightarrow> byte_of (rd m a n) i = (if i < n then get m (a + of_nat i) else 0)"
begin

lemma frame: "n \<le> 8 \<Longrightarrow> \<not> in_range a n x \<Longrightarrow> get (wr m a n v) x = get m x"
  by (simp add: get_wr)

lemma word_eqI_bytes: "(\<And>i. i < 8 \<Longrightarrow> byte_of v i = byte_of w i) \<Longrightarrow> v = w"
proof (rule bit_word_eqI)
  fix n assume *: "\<And>i. i < 8 \<Longrightarrow> byte_of v i = byte_of w i" and n: "n < LENGTH(64)"
  have "bit (byte_of v (n div 8)) (n mod 8) = bit (byte_of w (n div 8)) (n mod 8)"
    using * [of "n div 8"] n by simp
  then show "bit v n = bit w n"
    by (simp add: byte_of_def bit_unsigned_iff bit_drop_bit_eq)
qed

lemma rd_cong: "n \<le> 8 \<Longrightarrow> (\<And>i. i < n \<Longrightarrow> get m (a + of_nat i) = get m' (a + of_nat i)) \<Longrightarrow> rd m a n = rd m' a n"
  by (rule word_eqI_bytes) (simp add: byte_rd)

lemma in_range_offset: "i < 8 \<Longrightarrow> in_range a n (a + of_nat i) \<longleftrightarrow> i < n"
  by (simp add: in_range_def unat_of_nat_small)

text \<open>A read returns what was written, cut to its width.\<close>

lemma rd_wr_same:
  assumes "n \<le> 8"
  shows "rd (wr m a n v) a n = take_bit (8 * n) v"
proof (rule word_eqI_bytes)
  fix i :: nat assume i: "i < 8"
  have "byte_of (take_bit (8 * n) v) i = (if i < n then byte_of v i else 0)"
    by (rule bit_word_eqI) (auto simp: byte_of_def bit_unsigned_iff bit_drop_bit_eq bit_take_bit_iff)
  then show "byte_of (rd (wr m a n v) a n) i = byte_of (take_bit (8 * n) v) i"
    using i assms by (simp add: byte_rd get_wr in_range_offset unat_of_nat_small)
qed

lemma rd_width: "n \<le> 8 \<Longrightarrow> take_bit (8 * n) (rd m a n) = rd m a n"
proof (rule word_eqI_bytes)
  fix i :: nat assume n: "n \<le> 8" and i: "i < 8"
  have "byte_of (take_bit (8 * n) w) i = (if i < n then byte_of w i else 0)" for w
    by (rule bit_word_eqI) (auto simp: byte_of_def bit_unsigned_iff bit_drop_bit_eq bit_take_bit_iff)
  then show "byte_of (take_bit (8 * n) (rd m a n)) i = byte_of (rd m a n) i"
    using n by (simp add: byte_rd)
qed

lemma rd_wr_other:
  assumes "n \<le> 8" "k \<le> 8" and "\<And>i. i < k \<Longrightarrow> \<not> in_range a n (b + of_nat i)"
  shows "rd (wr m a n v) b k = rd m b k"
  using assms by (intro rd_cong) (simp_all add: get_wr)

end

section \<open>Mem keeps the promise\<close>

lemma mem_wr_Suc: "mem_wr m a (Suc n) v =
  (mem_wr m a n v)\<lparr>m_bytes := (m_bytes (mem_wr m a n v))(a + of_nat n \<mapsto> ucast (drop_bit (8 * n) v))\<rparr>"
  by (simp add: mem_wr_def)

lemma mem_rd_rec: "mem_rd m a (Suc n) = push_bit 8 (mem_rd m (a + 1) n) OR ucast (mem_get m a)"
proof -
  have "rev [0..<Suc n] = map Suc (rev [0..<n]) @ [0]"
    by (simp add: rev_map [symmetric] map_Suc_upt upt_conv_Cons del: upt_Suc)
  then show ?thesis
    by (simp add: mem_rd_def fold_map comp_def add.assoc)
qed

lemma mem_get_wr:
  "n \<le> 8 \<Longrightarrow> mem_get (mem_wr m a n v) x = (if in_range a n x then byte_of v (unat (x - a)) else mem_get m x)"
proof (induction n)
  case (Suc n)
  have eq: "x = a + of_nat n \<longleftrightarrow> unat (x - a) = n"
  proof
    assume "unat (x - a) = n"
    then have "x - a = of_nat n" by auto
    then show "x = a + of_nat n" by (simp add: diff_eq_eq)
  qed (use Suc.prems in \<open>simp add: unat_of_nat_small\<close>)
  show ?case
    using Suc.IH Suc.prems eq unfolding mem_wr_Suc
    by (auto simp: mem_get_def in_range_def byte_of_def less_Suc_eq)
qed (simp add: mem_wr_def in_range_def)

lemma byte_mem_rd: "n \<le> 8 \<Longrightarrow> byte_of (mem_rd m a n) i = (if i < n then mem_get m (a + of_nat i) else 0)"
proof (induction n arbitrary: a i)
  case (Suc n)
  have step: "byte_of (push_bit 8 w OR ucast (b :: u8)) i = (case i of 0 \<Rightarrow> b | Suc j \<Rightarrow> byte_of w j)"
    if "i < 8" for w :: u64 and b
  proof (rule bit_word_eqI)
    fix j :: nat assume "j < LENGTH(8)"
    then show "bit (byte_of (push_bit 8 w OR ucast b) i) j = bit (case i of 0 \<Rightarrow> b | Suc j \<Rightarrow> byte_of w j) j"
      using that by (cases i) (auto simp: byte_of_def bit_unsigned_iff bit_drop_bit_eq bit_or_iff bit_push_bit_iff
        dest: bit_imp_le_length)
  qed
  show ?case
  proof (cases "i < 8")
    case True
    then show ?thesis using Suc by (simp add: mem_rd_rec step add.assoc split: nat.split)
  next
    case False
    have "byte_of w i = 0" for w
      by (rule bit_word_eqI) (use False in \<open>auto simp: byte_of_def bit_unsigned_iff bit_drop_bit_eq dest: bit_imp_le_length\<close>)
    then show ?thesis using False Suc.prems by simp
  qed
qed (simp add: mem_rd_def byte_of_def)

interpretation mem: byte_memory mem_get mem_rd mem_wr
  by unfold_locales (simp_all add: mem_get_wr byte_mem_rd)

end
