(* ===== verification/Ptx_Interp.thy ===== *)
theory Ptx_Interp
  imports Ptx_Mem
begin

text \<open>
  One step of one thread, as \<open>crates/e5r-ptx/src/interp.rs\<close> has it: the launch geometry, the
  allocations and the access check, the integer operations at their width, and \<open>step\<close> with one
  definition per group of instructions. A fault carries its reason as a constructor of \<open>fault\<close>
  where the source formats a message. The outer \<open>option\<close> of \<open>step\<close> is a panic of the code, which
  only the floating-point operations could raise.
\<close>

section \<open>Launch geometry, allocations, thread state\<close>

record dim3 =
  d_x :: u32
  d_y :: u32
  d_z :: u32

definition dim3_get :: "dim3 \<Rightarrow> dim \<Rightarrow> u32" where
  "dim3_get v d = (case d of DX \<Rightarrow> d_x v | DY \<Rightarrow> d_y v | DZ \<Rightarrow> d_z v)"

record region =
  r_base :: u64
  r_size :: nat

record ctx =
  c_tid :: dim3
  c_ntid :: dim3
  c_ctaid :: dim3
  c_nctaid :: dim3
  c_params :: "string \<rightharpoonup> u64"
  c_sym :: "string \<rightharpoonup> u64"

record tstate =
  t_pc :: nat
  t_r :: "string \<rightharpoonup> u64"
  t_p :: "string \<rightharpoonup> bool"

definition tstate_default :: tstate where
  "tstate_default = \<lparr>t_pc = 0, t_r = Map.empty, t_p = Map.empty\<rparr>"

datatype sp = SpGlobal | SpShared

datatype kind = Read | Write | Atomic

record access =
  a_sp :: sp
  a_addr :: u64
  a_size :: nat
  a_kind :: kind

datatype fault =
    Fault_pc nat
  | Fault_mul_wide
  | Fault_ordered_bits
  | Fault_mem_form
  | Fault_load nat sp u64
  | Fault_store nat sp u64
  | Fault_atomic nat sp u64
  | Fault_label string
  | Fault_cvt

datatype res = ROk "access option" | RWait | RHalted | RFault fault

record allocs =
  al_global :: "region list"
  al_shared :: "region list"

definition al_of :: "allocs \<Rightarrow> sp \<Rightarrow> region list" where
  "al_of al s = (case s of SpGlobal \<Rightarrow> al_global al | SpShared \<Rightarrow> al_shared al)"

definition shared_regions :: "kernel \<Rightarrow> (string \<rightharpoonup> u64) \<Rightarrow> region list" where
  "shared_regions k pl = map (\<lambda>d. \<lparr>r_base = unwrap_or (pl (sd_name d)) 0, r_size = sd_size d\<rparr>) (k_shared k)"

text \<open>A placement of the shared variables; the \<open>u64\<close> division by a zero alignment and the
  overflow of the cursor panic.\<close>

fun layout_loop :: "shared_decl list \<Rightarrow> nat \<Rightarrow> (string \<rightharpoonup> u64) \<Rightarrow> (string \<rightharpoonup> u64) panics" where
  "layout_loop [] cur pl = Some pl"
| "layout_loop (d # ds) cur pl = (let a = sd_alignment d in
     if a = 0 then None
     else let cur = (cur + a - 1) div a * a
       in if cur + sd_size d < 2 ^ 64 then layout_loop ds (cur + sd_size d) (pl(sd_name d \<mapsto> of_nat cur)) else None)"

definition layout :: "kernel \<Rightarrow> nat \<Rightarrow> (string \<rightharpoonup> u64) panics" where
  "layout k start = layout_loop (k_shared k) start Map.empty"

section \<open>Integer operations\<close>

definition width :: "ty \<Rightarrow> nat" where "width t = unwrap_or (ty_width t) 32"
definition lo32 :: "u64 \<Rightarrow> u64" where "lo32 v = v AND 0xffffffff"
definition sext32 :: "u64 \<Rightarrow> u64" where "sext32 v = scast (ucast v :: u32)"
definition imm :: "int \<Rightarrow> u64" where "imm v = word_of_int v"

definition access_ok :: "region list \<Rightarrow> u64 \<Rightarrow> nat \<Rightarrow> bool" where
  "access_ok al a n \<longleftrightarrow> unat a mod n = 0
     \<and> list_ex (\<lambda>r. unat (r_base r) \<le> unat a \<and> unat a + n \<le> unat (r_base r) + r_size r) al"

definition t_reg :: "tstate \<Rightarrow> string \<Rightarrow> u64" where "t_reg s r = unwrap_or (t_r s r) 0"
definition t_pred :: "tstate \<Rightarrow> string \<Rightarrow> bool" where "t_pred s r = unwrap_or (t_p s r) False"

definition sreg_val :: "ctx \<Rightarrow> sreg \<Rightarrow> u32" where
  "sreg_val c r = (case r of
      Tid d \<Rightarrow> dim3_get (c_tid c) d
    | Ntid d \<Rightarrow> dim3_get (c_ntid c) d
    | Ctaid d \<Rightarrow> dim3_get (c_ctaid c) d
    | Nctaid d \<Rightarrow> dim3_get (c_nctaid c) d)"

fun t_op :: "tstate \<Rightarrow> ctx \<Rightarrow> operand \<Rightarrow> u64" where
  "t_op s c (OReg r) = t_reg s r"
| "t_op s c (OImm v) = imm v"
| "t_op s c (OSreg r) = ucast (sreg_val c r)"
| "t_op s c (OSym n) = unwrap_or (c_sym c n) 0"
| "t_op s c (OFImm v _) = v"

definition t_next :: "tstate \<Rightarrow> tstate" where "t_next s = s\<lparr>t_pc := t_pc s + 1\<rparr>"

definition t_set :: "tstate \<Rightarrow> string \<Rightarrow> u64 \<Rightarrow> tstate" where
  "t_set s d v = s\<lparr>t_r := (t_r s)(d \<mapsto> v), t_pc := t_pc s + 1\<rparr>"

definition t_setp :: "tstate \<Rightarrow> string \<Rightarrow> bool \<Rightarrow> tstate" where
  "t_setp s d v = s\<lparr>t_p := (t_p s)(d \<mapsto> v), t_pc := t_pc s + 1\<rparr>"

definition at_width :: "nat \<Rightarrow> (u64 \<Rightarrow> u64 \<Rightarrow> u64) \<Rightarrow> u64 \<Rightarrow> u64 \<Rightarrow> u64" where
  "at_width w f a b = (if w = 32 then lo32 (f (lo32 a) (lo32 b)) else f a b)"

definition fit :: "ty \<Rightarrow> u64 \<Rightarrow> u64" where
  "fit t v = (if width t = 32 then lo32 v else v)"

definition is_signed :: "ty \<Rightarrow> bool" where "is_signed t \<longleftrightarrow> t \<in> {S32, S64}"

definition cmp_s :: "nat \<Rightarrow> u64 \<Rightarrow> int" where
  "cmp_s w v = (if w = 32 then sint (ucast v :: u32) else sint v)"

definition cmp :: "cmp_op \<Rightarrow> ty \<Rightarrow> u64 \<Rightarrow> u64 \<Rightarrow> bool option" where
  "cmp c t a b = (let
      w = (if width t = 32 then 32 else 64);
      x = (if width t = 32 then lo32 a else a);
      y = (if width t = 32 then lo32 b else b);
      s = cmp_s w
    in case c of
        CEq \<Rightarrow> Some (x = y)
      | CNe \<Rightarrow> Some (x \<noteq> y)
      | _ \<Rightarrow> if is_bits t \<or> t = Pred then None else Some (case c of
          CLt \<Rightarrow> if is_signed t then s x < s y else x < y
        | CLe \<Rightarrow> if is_signed t then s x \<le> s y else x \<le> y
        | CGt \<Rightarrow> if is_signed t then s x > s y else x > y
        | CGe \<Rightarrow> if is_signed t then s x \<ge> s y else x \<ge> y
        | CLo \<Rightarrow> x < y
        | CLs \<Rightarrow> x \<le> y
        | CHi \<Rightarrow> x > y
        | _ \<Rightarrow> x \<ge> y))"

definition convert :: "ty \<Rightarrow> ty \<Rightarrow> u64 \<Rightarrow> u64" where
  "convert dt st a = (if width dt = 32 \<and> (width st = 32 \<or> width st = 64) then lo32 a
     else if width st = 64 \<and> width dt = 64 then a
     else if is_signed st then sext32 a else lo32 a)"

text \<open>The shifts: kind 0 left, 1 logical right, 2 arithmetic right; the amount is clamped to the width.\<close>

definition shift :: "nat \<Rightarrow> u64 \<Rightarrow> u64 \<Rightarrow> nat \<Rightarrow> u64" where
  "shift w a b kind = (let n = min (unat (lo32 b)) w in
     if w = 32 then let x = (ucast (lo32 a) :: u32) in
       lo32 (if kind = 0 then (if n \<ge> 32 then 0 else ucast (push_bit n x))
         else if kind = 1 then (if n \<ge> 32 then 0 else ucast (drop_bit n x))
         else ucast (signed_drop_bit (min n 31) x))
     else if kind = 0 then (if n \<ge> 64 then 0 else push_bit n a)
     else if kind = 1 then (if n \<ge> 64 then 0 else drop_bit n a)
     else signed_drop_bit (min n 63) a)"

definition atom_le :: "ty \<Rightarrow> u64 \<Rightarrow> u64 \<Rightarrow> bool" where
  "atom_le t x y \<longleftrightarrow> (if is_signed t
     then (if width t = 32 then sint (ucast x :: u32) \<le> sint (ucast y :: u32) else sint x \<le> sint y)
     else x \<le> y)"

definition atom_val :: "atom_op \<Rightarrow> ty \<Rightarrow> u64 \<Rightarrow> u64 \<Rightarrow> u64" where
  "atom_val p t old b = (let w = width t in case p of
      AAdd \<Rightarrow> at_width w (+) old b
    | AAnd \<Rightarrow> at_width w (AND) old b
    | AOr \<Rightarrow> at_width w (OR) old b
    | AXor \<Rightarrow> at_width w (XOR) old b
    | AExch \<Rightarrow> fit t b
    | AMin \<Rightarrow> at_width w (\<lambda>x y. if atom_le t x y then x else y) old b
    | AMax \<Rightarrow> at_width w (\<lambda>x y. if atom_le t y x then x else y) old b)"

fun data_addr :: "ctx \<Rightarrow> tstate \<Rightarrow> space \<Rightarrow> address \<Rightarrow> (sp \<times> u64) option" where
  "data_addr c s Global (AReg r off) = Some (SpGlobal, t_reg s r + imm (unwrap_or off 0))"
| "data_addr c s Shared (AReg r off) = Some (SpShared, t_reg s r + imm (unwrap_or off 0))"
| "data_addr c s Shared (AParam n off) = Some (SpShared, unwrap_or (c_sym c n) 0 + imm (unwrap_or off 0))"
| "data_addr c s _ _ = None"

section \<open>Floating-point operands and conversions\<close>

definition fbits :: "ty \<Rightarrow> u64 \<Rightarrow> u64" where "fbits t v = fit t v"

definition fres :: "ty \<Rightarrow> u64 option \<Rightarrow> u64" where "fres t r = unwrap_or r (f_qnan (ty_fmt t))"

definition int_of :: "ty \<Rightarrow> u64 \<Rightarrow> int" where
  "int_of t v = (if width t = 32 then (if is_signed t then sint (ucast v :: u32) else uint (ucast v :: u32))
     else if is_signed t then sint v else uint v)"

definition cvt_float :: "ty \<Rightarrow> ty \<Rightarrow> cvt_rnd \<Rightarrow> bool \<Rightarrow> bool \<Rightarrow> u64 \<Rightarrow> u64 option panics" where
  "cvt_float dt st r ftz sat a = (let df = ty_fmt dt; sf = ty_fmt st in
     case (is_float dt, is_float st, r) of
       (False, True, CvtI m) \<Rightarrow>
         map_option (\<lambda>v. Some (fit dt v)) (to_int sf m (ftz \<and> st = F32) (is_signed dt) (width dt) (fbits st a))
     | (True, False, CvtF m) \<Rightarrow>
         map_option (\<lambda>v. Some (fres dt (sat_bits df sat (Some v)))) (of_int_bits df m False (int_of st a))
     | (True, True, CvtI m) \<Rightarrow> if dt = st
         then map_option (\<lambda>v. Some (fres dt (sat_bits df sat v))) (round_integral df m (ftz \<and> dt = F32) (fbits st a))
         else Some None
     | (True, True, CvtF m) \<Rightarrow> if dt = F32 \<and> st = F64
         then map_option (\<lambda>v. Some (fres dt v)) (convert_f df sf m ftz sat (fbits st a))
         else Some None
     | (True, True, CvtNone) \<Rightarrow> if dt = F64 \<and> st = F32
         then map_option (\<lambda>v. Some (fres dt v)) (convert_f df sf Rn ftz sat (fbits st a))
         else Some None
     | _ \<Rightarrow> Some None)"

section \<open>Steps\<close>

type_synonym tcfg = "tstate \<times> mem \<times> mem"

definition bin_val :: "bin_op \<Rightarrow> ty \<Rightarrow> u64 \<Rightarrow> u64 \<Rightarrow> u64 option" where
  "bin_val b t x y = (let w = width t in case b of
      BAdd \<Rightarrow> Some (at_width w (+) x y)
    | BSub \<Rightarrow> Some (at_width w (-) x y)
    | BMulLo \<Rightarrow> Some (at_width w (*) x y)
    | BAnd \<Rightarrow> Some (at_width w (AND) x y)
    | BOr \<Rightarrow> Some (at_width w (OR) x y)
    | BXor \<Rightarrow> Some (at_width w (XOR) x y)
    | BShl \<Rightarrow> Some (shift w x y 0)
    | BShr \<Rightarrow> if is_signed t then Some (shift w x y 2) else Some (shift w x y 1)
    | BMulWide \<Rightarrow> (case t of
        U32 \<Rightarrow> Some (lo32 x * lo32 y)
      | S32 \<Rightarrow> Some (sext32 x * sext32 y)
      | _ \<Rightarrow> None))"

text \<open>The integer, move and predicate instructions: a new thread state or a fault.\<close>

fun exec_int :: "ctx \<Rightarrow> tstate \<Rightarrow> instr \<Rightarrow> fault + tstate" where
  "exec_int c s (Bin b t d x y) = (case bin_val b t (t_op s c x) (t_op s c y) of
     Some v \<Rightarrow> Inr (t_set s d v) | None \<Rightarrow> Inl Fault_mul_wide)"
| "exec_int c s (MadLo t d x y z) = (let w = width t;
     p = at_width w (*) (t_op s c x) (t_op s c y)
   in Inr (t_set s d (at_width w (+) p (t_op s c z))))"
| "exec_int c s (Notb t d a) = Inr (t_set s d (fit t (NOT (t_op s c a))))"
| "exec_int c s (Mov t d a) = Inr (t_set s d (fit t (t_op s c a)))"
| "exec_int c s (Setp p t d a b) = (case cmp p t (t_op s c a) (t_op s c b) of
     Some v \<Rightarrow> Inr (t_setp s d v) | None \<Rightarrow> Inl Fault_ordered_bits)"
| "exec_int c s (Selp t d a b p) = Inr (t_set s d (fit t (if t_pred s p then t_op s c a else t_op s c b)))"
| "exec_int c s (Cvt dt st d a) = Inr (t_set s d (convert dt st (t_op s c a)))"
| "exec_int c s (CvtaGlobal d a) = Inr (t_set s d (t_op s c a))"
| "exec_int c s _ = Inr s"

definition mem_of :: "sp \<Rightarrow> tcfg \<Rightarrow> mem" where
  "mem_of x cfg = (case cfg of (s, g, sh) \<Rightarrow> if x = SpGlobal then g else sh)"

definition put_mem :: "sp \<Rightarrow> mem \<Rightarrow> tstate \<Rightarrow> tcfg \<Rightarrow> tcfg" where
  "put_mem x m s cfg = (case cfg of (_, g, sh) \<Rightarrow> if x = SpGlobal then (s, m, sh) else (s, g, m))"

definition exec_ld :: "allocs \<Rightarrow> ctx \<Rightarrow> space \<Rightarrow> ty \<Rightarrow> string \<Rightarrow> address \<Rightarrow> tcfg \<Rightarrow> res \<times> tcfg" where
  "exec_ld al c x t d a cfg = (case cfg of (s, g, sh) \<Rightarrow>
     if x = Param then (case a of
         AParam n off \<Rightarrow> if unwrap_or off 0 = 0
           then (ROk None, (t_set s d (fit t (unwrap_or (c_params c n) 0)), g, sh))
           else (RFault Fault_mem_form, cfg)
       | _ \<Rightarrow> (RFault Fault_mem_form, cfg))
     else (case data_addr c s x a of
         None \<Rightarrow> (RFault Fault_mem_form, cfg)
       | Some (y, ad) \<Rightarrow> let n = width t div 8 in
           if \<not> access_ok (al_of al y) ad n then (RFault (Fault_load n y ad), cfg)
           else (ROk (Some \<lparr>a_sp = y, a_addr = ad, a_size = n, a_kind = Read\<rparr>),
             (t_set s d (mem_rd (mem_of y cfg) ad n), g, sh))))"

definition exec_st :: "allocs \<Rightarrow> ctx \<Rightarrow> space \<Rightarrow> ty \<Rightarrow> address \<Rightarrow> operand \<Rightarrow> tcfg \<Rightarrow> res \<times> tcfg" where
  "exec_st al c x t a v cfg = (case cfg of (s, g, sh) \<Rightarrow>
     if x = Param then (RFault Fault_mem_form, cfg)
     else (case data_addr c s x a of
         None \<Rightarrow> (RFault Fault_mem_form, cfg)
       | Some (y, ad) \<Rightarrow> let n = width t div 8 in
           if \<not> access_ok (al_of al y) ad n then (RFault (Fault_store n y ad), cfg)
           else (ROk (Some \<lparr>a_sp = y, a_addr = ad, a_size = n, a_kind = Write\<rparr>),
             put_mem y (mem_wr (mem_of y cfg) ad n (t_op s c v)) (t_next s) cfg)))"

text \<open>\<open>atom\<close>, \<open>cas\<close> and \<open>red\<close>: \<open>new\<close> computes the stored value from the old one, \<open>d\<close> is the
  destination that receives the old value, where there is one.\<close>

definition exec_rmw :: "allocs \<Rightarrow> ctx \<Rightarrow> space \<Rightarrow> ty \<Rightarrow> address \<Rightarrow> (u64 \<Rightarrow> u64) \<Rightarrow> string option \<Rightarrow> tcfg \<Rightarrow> res \<times> tcfg" where
  "exec_rmw al c x t a new d cfg = (case cfg of (s, g, sh) \<Rightarrow>
     (case data_addr c s x a of
         None \<Rightarrow> (RFault Fault_mem_form, cfg)
       | Some (y, ad) \<Rightarrow> let n = width t div 8 in
           if \<not> access_ok (al_of al y) ad n then (RFault (Fault_atomic n y ad), cfg)
           else let m = mem_of y cfg; old = mem_rd m ad n;
             s' = (case d of Some d \<Rightarrow> t_set s d (fit t old) | None \<Rightarrow> t_next s)
           in (ROk (Some \<lparr>a_sp = y, a_addr = ad, a_size = n, a_kind = Atomic\<rparr>),
             put_mem y (mem_wr m ad n (new old)) s' cfg)))"

definition cas_val :: "ty \<Rightarrow> u64 \<Rightarrow> u64 \<Rightarrow> u64 \<Rightarrow> u64" where
  "cas_val t b e old = (if fit t old = fit t b then e else old)"

definition fbin_val :: "fbin_op \<Rightarrow> fmt \<Rightarrow> rmode \<Rightarrow> bool \<Rightarrow> bool \<Rightarrow> u64 \<Rightarrow> u64 \<Rightarrow> u64 option panics" where
  "fbin_val p f m ftz sat x y = (case p of
      FAdd \<Rightarrow> fadd f m ftz sat x y
    | FSub \<Rightarrow> fsub f m ftz sat x y
    | FMul \<Rightarrow> fmul f m ftz sat x y
    | FDiv \<Rightarrow> fdiv f m ftz x y)"

definition set_fres :: "tstate \<Rightarrow> string \<Rightarrow> ty \<Rightarrow> u64 option panics \<Rightarrow> (res \<times> tstate) panics" where
  "set_fres s d t r = map_option (\<lambda>r. (ROk None, t_set s d (fres t r))) r"

text \<open>The floating-point instructions.\<close>

fun exec_flt :: "ctx \<Rightarrow> tstate \<Rightarrow> instr \<Rightarrow> (res \<times> tstate) panics" where
  "exec_flt c s (FBin p m ftz sat t d a b) =
     set_fres s d t (fbin_val p (ty_fmt t) m ftz sat (fbits t (t_op s c a)) (fbits t (t_op s c b)))"
| "exec_flt c s (Ffma m ftz sat t d a b e) =
     set_fres s d t (ffma (ty_fmt t) m ftz sat (fbits t (t_op s c a)) (fbits t (t_op s c b)) (fbits t (t_op s c e)))"
| "exec_flt c s (Fsqrt m ftz t d a) = set_fres s d t (fsqrt (ty_fmt t) m ftz (fbits t (t_op s c a)))"
| "exec_flt c s (Frcp m ftz t d a) = set_fres s d t (frcp (ty_fmt t) m ftz (fbits t (t_op s c a)))"
| "exec_flt c s (Fneg ftz t d a) = set_fres s d t (Some (fneg (ty_fmt t) ftz (fbits t (t_op s c a))))"
| "exec_flt c s (Fabs ftz t d a) = set_fres s d t (Some (fabs (ty_fmt t) ftz (fbits t (t_op s c a))))"
| "exec_flt c s (Fminmax mx ftz nan t d a b) =
     set_fres s d t (Some (fminmax (ty_fmt t) mx ftz nan (fbits t (t_op s c a)) (fbits t (t_op s c b))))"
| "exec_flt c s (Fsetp p ftz t d a b) =
     Some (ROk None, t_setp s d (fsetp (ty_fmt t) p ftz (fbits t (t_op s c a)) (fbits t (t_op s c b))))"
| "exec_flt c s (CvtFlt dt st r ftz sat d a) =
     map_option (\<lambda>v. case v of Some v \<Rightarrow> (ROk None, t_set s d v) | None \<Rightarrow> (RFault Fault_cvt, s))
       (cvt_float dt st r ftz sat (t_op s c a))"
| "exec_flt c s _ = Some (ROk None, s)"

fun is_flt_instr :: "instr \<Rightarrow> bool" where
  "is_flt_instr (FBin _ _ _ _ _ _ _ _) = True"
| "is_flt_instr (Ffma _ _ _ _ _ _ _ _) = True"
| "is_flt_instr (Fsqrt _ _ _ _ _) = True"
| "is_flt_instr (Frcp _ _ _ _ _) = True"
| "is_flt_instr (Fneg _ _ _ _) = True"
| "is_flt_instr (Fabs _ _ _ _) = True"
| "is_flt_instr (Fminmax _ _ _ _ _ _ _) = True"
| "is_flt_instr (Fsetp _ _ _ _ _ _) = True"
| "is_flt_instr (CvtFlt _ _ _ _ _ _ _) = True"
| "is_flt_instr _ = False"

definition find_label :: "kernel \<Rightarrow> string \<Rightarrow> nat option" where
  "find_label k l = map_option snd (find (\<lambda>(m, _). m = l) (k_labels k))"

fun exec :: "kernel \<Rightarrow> allocs \<Rightarrow> ctx \<Rightarrow> instr \<Rightarrow> tcfg \<Rightarrow> (res \<times> tcfg) panics" where
  "exec k al c (Ld x t d a) cfg = Some (exec_ld al c x t d a cfg)"
| "exec k al c (St x t a v) cfg = Some (exec_st al c x t a v cfg)"
| "exec k al c (Atom x p t d a b) (s, g, sh) =
     Some (exec_rmw al c x t a (\<lambda>old. atom_val p t old (t_op s c b)) (Some d) (s, g, sh))"
| "exec k al c (Red x p t a b) (s, g, sh) =
     Some (exec_rmw al c x t a (\<lambda>old. atom_val p t old (t_op s c b)) None (s, g, sh))"
| "exec k al c (Cas x t d a b e) (s, g, sh) =
     Some (exec_rmw al c x t a (cas_val t (t_op s c b) (t_op s c e)) (Some d) (s, g, sh))"
| "exec k al c Bar cfg = Some (RWait, cfg)"
| "exec k al c (Bra _ l) (s, g, sh) = Some (case find_label k l of
      Some pc \<Rightarrow> (ROk None, (s\<lparr>t_pc := pc\<rparr>, g, sh))
    | None \<Rightarrow> (RFault (Fault_label l), (s, g, sh)))"
| "exec k al c Ret cfg = Some (RHalted, cfg)"
| "exec k al c Exit cfg = Some (RHalted, cfg)"
| "exec k al c i (s, g, sh) = (if is_flt_instr i
     then map_option (\<lambda>(r, s'). (r, (s', g, sh))) (exec_flt c s i)
     else Some (case exec_int c s i of
         Inl f \<Rightarrow> (RFault f, (s, g, sh))
       | Inr s' \<Rightarrow> (ROk None, (s', g, sh))))"

definition step :: "kernel \<Rightarrow> allocs \<Rightarrow> ctx \<Rightarrow> tcfg \<Rightarrow> (res \<times> tcfg) panics" where
  "step k al c cfg = (case cfg of (s, g, sh) \<Rightarrow>
     if length (k_body k) \<le> t_pc s then Some (RFault (Fault_pc (t_pc s)), cfg)
     else let st = k_body k ! t_pc s
       in if (case s_guard st of Some gd \<Rightarrow> t_pred s (g_pred gd) = g_neg gd | None \<Rightarrow> False)
          then Some (ROk None, (t_next s, g, sh))
          else exec k al c (s_instr st) cfg)"

end
