(* ===== verification/Ptx_Run.thy ===== *)
theory Ptx_Run
  imports Ptx_Interp
begin

text \<open>
  Runs of \<open>interp.rs\<close>: \<open>run_until_wait\<close> and \<open>run_solo\<close> drive one thread under fuel, and \<open>run_grid\<close>
  drives a whole launch, CTA after CTA, releasing a barrier when every thread of the CTA waits at
  the same statement. The fuel is the source's own; a CTA's rounds end because each barrier
  release uses some of it.
\<close>

section \<open>One thread\<close>

datatype run_end = EHalted nat | EWait nat | EFault nat fault | EOutOfFuel

type_synonym run_log = "(nat \<times> access) list"

text \<open>The loop \<open>for i in 0..fuel\<close>, from iteration \<open>i\<close> with \<open>n\<close> iterations left.\<close>

fun run_from :: "kernel \<Rightarrow> allocs \<Rightarrow> ctx \<Rightarrow> tcfg \<Rightarrow> nat \<Rightarrow> nat \<Rightarrow> run_log \<Rightarrow> (run_end \<times> run_log \<times> tcfg) panics" where
  "run_from k al c cfg i 0 acc = Some (EOutOfFuel, acc, cfg)"
| "run_from k al c cfg i (Suc n) acc = do {
     (r, cfg) \<leftarrow> step k al c cfg;
     case r of
       ROk a \<Rightarrow> run_from k al c cfg (i + 1) n (acc @ (case a of None \<Rightarrow> [] | Some a \<Rightarrow> [(i, a)]))
     | RWait \<Rightarrow> Some (EWait i, acc, cfg)
     | RHalted \<Rightarrow> Some (EHalted i, acc, cfg)
     | RFault why \<Rightarrow> Some (EFault i why, acc, cfg) }"

definition run_until_wait :: "kernel \<Rightarrow> allocs \<Rightarrow> ctx \<Rightarrow> tcfg \<Rightarrow> nat \<Rightarrow> (run_end \<times> run_log \<times> tcfg) panics" where
  "run_until_wait k al c cfg fuel = run_from k al c cfg 0 fuel []"

definition run_solo :: "kernel \<Rightarrow> allocs \<Rightarrow> ctx \<Rightarrow> mem \<Rightarrow> mem \<Rightarrow> nat \<Rightarrow> (run_end \<times> access list \<times> mem \<times> mem) panics" where
  "run_solo k al c g sh fuel = do {
     (e, acc, (_, g, sh)) \<leftarrow> run_until_wait k al c (tstate_default, g, sh) fuel;
     Some (e, map snd acc, g, sh) }"

section \<open>A launch\<close>

record event =
  ev_thread :: nat
  ev_phase :: nat
  ev_step :: nat
  ev_access :: access

record launch =
  l_grid :: dim3
  l_block :: dim3
  l_params :: "string \<rightharpoonup> u64"
  l_sym :: "string \<rightharpoonup> u64"
  l_alloc :: "region list"

definition upto_u32 :: "u32 \<Rightarrow> u32 list" where
  "upto_u32 n = map of_nat [0..<unat n]"

definition launch_threads :: "launch \<Rightarrow> (dim3 \<times> dim3) list" where
  "launch_threads l =
     [(\<lparr>d_x = cx, d_y = cy, d_z = cz\<rparr>, \<lparr>d_x = tx, d_y = ty, d_z = tz\<rparr>).
       cz \<leftarrow> upto_u32 (d_z (l_grid l)), cy \<leftarrow> upto_u32 (d_y (l_grid l)), cx \<leftarrow> upto_u32 (d_x (l_grid l)),
       tz \<leftarrow> upto_u32 (d_z (l_block l)), ty \<leftarrow> upto_u32 (d_y (l_block l)), tx \<leftarrow> upto_u32 (d_x (l_block l))]"

definition launch_ctx :: "launch \<Rightarrow> dim3 \<Rightarrow> dim3 \<Rightarrow> ctx" where
  "launch_ctx l cta tid = \<lparr>c_tid = tid, c_ntid = l_block l, c_ctaid = cta, c_nctaid = l_grid l,
     c_params = l_params l, c_sym = l_sym l\<rparr>"

definition launch_allocs :: "launch \<Rightarrow> kernel \<Rightarrow> allocs" where
  "launch_allocs l k = \<lparr>al_global = l_alloc l, al_shared = shared_regions k (l_sym l)\<rparr>"

datatype grid_end = GDone | GFault nat fault | GDiverged nat | GOutOfFuel

text \<open>The threads of a CTA, each with its context, its state and the steps it has taken.\<close>

type_synonym cta_thread = "ctx \<times> tstate \<times> nat"

definition log_events :: "nat \<Rightarrow> nat \<Rightarrow> nat \<Rightarrow> run_log \<Rightarrow> event list" where
  "log_events idx phase steps acc =
     map (\<lambda>(st, a). \<lparr>ev_thread = idx, ev_phase = phase, ev_step = steps + st, ev_access = a\<rparr>) acc"

text \<open>One round: every thread in order runs until it waits or halts. \<open>Inl\<close> ends the launch.\<close>

type_synonym round_end = "(grid_end \<times> mem \<times> event list) + (cta_thread list \<times> run_end list \<times> mem \<times> mem \<times> nat \<times> event list)"

fun cta_round :: "kernel \<Rightarrow> allocs \<Rightarrow> nat \<Rightarrow> nat \<Rightarrow> cta_thread list \<Rightarrow> mem \<Rightarrow> mem \<Rightarrow> nat \<Rightarrow> event list \<Rightarrow> round_end panics" where
  "cta_round k al idx phase [] g sh left ev = Some (Inr ([], [], g, sh, left, ev))"
| "cta_round k al idx phase ((c, s, steps) # ts) g sh left ev = do {
     (e, acc, (s, g, sh)) \<leftarrow> run_until_wait k al c (s, g, sh) left;
     let ev = ev @ log_events idx phase steps acc;
     case e of
       EFault _ why \<Rightarrow> Some (Inl (GFault idx why, g, ev))
     | EOutOfFuel \<Rightarrow> Some (Inl (GOutOfFuel, g, ev))
     | _ \<Rightarrow> do {
         let used = (case e of EHalted n \<Rightarrow> n | EWait n \<Rightarrow> n | _ \<Rightarrow> 0);
         r \<leftarrow> cta_round k al (idx + 1) phase ts g sh (left - used) ev;
         Some (case r of
             Inl x \<Rightarrow> Inl x
           | Inr (ts, ends, rest) \<Rightarrow> Inr ((c, s, steps + used) # ts, e # ends, rest)) } }"

definition is_wait :: "run_end \<Rightarrow> bool" where
  "is_wait e = (case e of EWait _ \<Rightarrow> True | _ \<Rightarrow> False)"

definition waiting :: "run_end list \<Rightarrow> nat list" where
  "waiting ends = filter (\<lambda>i. is_wait (ends ! i)) [0..<length ends]"

definition thread_pc :: "cta_thread \<Rightarrow> nat" where "thread_pc t = t_pc (fst (snd t))"

definition release :: "cta_thread \<Rightarrow> cta_thread" where
  "release t = (case t of (c, s, n) \<Rightarrow> (c, t_next s, n))"

lemma cta_round_left:
  "cta_round k al idx phase ts g sh left ev = Some (Inr (ts', ends, g', sh', left', ev')) \<Longrightarrow> left' \<le> left"
proof (induction ts arbitrary: idx g sh left ev ts' ends)
  case (Cons t ts)
  obtain c s n where t: "t = (c, s, n)" by (cases t) auto
  show ?case
    using Cons.prems unfolding t
    by (auto simp: Let_def split: run_end.splits sum.splits Option.bind_splits prod.splits
        dest!: Cons.IH intro: order_trans [OF _ diff_le_self])
qed simp

text \<open>The barrier loop of one CTA.\<close>

function cta_loop :: "kernel \<Rightarrow> allocs \<Rightarrow> nat \<Rightarrow> nat \<Rightarrow> cta_thread list \<Rightarrow> mem \<Rightarrow> mem \<Rightarrow> nat \<Rightarrow> event list
    \<Rightarrow> ((grid_end \<times> mem \<times> event list) + (mem \<times> nat \<times> event list)) panics" where
  "cta_loop k al base phase ts g sh left ev = (case cta_round k al base phase ts g sh left ev of
     None \<Rightarrow> None
   | Some (Inl x) \<Rightarrow> Some (Inl x)
   | Some (Inr (ts, ends, g, sh, left, ev)) \<Rightarrow>
       (case waiting ends of
          [] \<Rightarrow> Some (Inr (g, left, ev))
        | w # ws \<Rightarrow>
            if length (w # ws) \<noteq> length ts \<or> list_ex (\<lambda>i. thread_pc (ts ! i) \<noteq> thread_pc (ts ! w)) (w # ws)
            then Some (Inl (GDiverged (base + w), g, ev))
            else if left = 0 then Some (Inl (GOutOfFuel, g, ev))
            else cta_loop k al base (phase + 1) (map release ts) g sh (left - 1) ev))"
  by pat_completeness auto
termination
  by (relation "measure (\<lambda>(k, al, base, phase, ts, g, sh, left, ev). left)") (auto dest!: cta_round_left)

declare cta_loop.simps [simp del]

section \<open>The whole grid\<close>

function chunks :: "nat \<Rightarrow> 'a list \<Rightarrow> 'a list list" where
  "chunks n xs = (if n = 0 \<or> xs = [] then [] else take n xs # chunks n (drop n xs))"
  by pat_completeness auto
termination
  by (relation "measure (\<lambda>(n, xs). length xs)") auto

declare chunks.simps [simp del]

fun grid_loop :: "kernel \<Rightarrow> launch \<Rightarrow> nat \<Rightarrow> nat \<Rightarrow> (dim3 \<times> dim3) list list \<Rightarrow> mem \<Rightarrow> mem \<Rightarrow> nat \<Rightarrow> event list
    \<Rightarrow> (grid_end \<times> mem \<times> event list) panics" where
  "grid_loop k l per ci [] g sh0 left ev = Some (GDone, g, ev)"
| "grid_loop k l per ci (chunk # rest) g sh0 left ev = do {
     r \<leftarrow> cta_loop k (launch_allocs l k) (ci * per) 0
       (map (\<lambda>(c, t). (launch_ctx l c t, tstate_default, 0)) chunk) g sh0 left ev;
     case r of
       Inl x \<Rightarrow> Some x
     | Inr (g, left, ev) \<Rightarrow> grid_loop k l per (ci + 1) rest g sh0 left ev }"

text \<open>The threads per CTA, a \<open>usize\<close> product.\<close>

definition cta_size :: "dim3 \<Rightarrow> nat panics" where
  "cta_size b = (let xy = unat (d_x b) * unat (d_y b) in
     if xy < 2 ^ 64 \<and> xy * unat (d_z b) < 2 ^ 64 then Some (xy * unat (d_z b)) else None)"

definition run_grid :: "kernel \<Rightarrow> launch \<Rightarrow> mem \<Rightarrow> mem \<Rightarrow> nat \<Rightarrow> (grid_end \<times> mem \<times> event list) panics" where
  "run_grid k l g sh0 fuel = do {
     per \<leftarrow> cta_size (l_block l);
     if per = 0 then Some (GDone, g, [])
     else grid_loop k l per 0 (chunks (max per 1) (launch_threads l)) g sh0 fuel [] }"

end
