(* ===== verification/Ptx_Sound.thy ===== *)
theory Ptx_Sound
  imports Ptx_Check Ptx_Run Ptx_Convert
begin

text \<open>
  What the checker buys: a step of a checked kernel neither panics nor faults except at a memory
  access outside the allocations or past the end of the body, and it keeps every 32-bit register
  below \<open>2 ^ 32\<close>. Memory safety and the frame of a step hold of every kernel.
\<close>

section \<open>Floating-point results stay in their format\<close>

definition opt_fits :: "fmt \<Rightarrow> u64 option \<Rightarrow> bool" where
  "opt_fits f r \<longleftrightarrow> (case r of None \<Rightarrow> True | Some p \<Rightarrow> f_fits f p)"

lemma f_max_fin_fits: "fmt_ok f \<Longrightarrow> f_fits f (f_max_fin f s)"
proof -
  assume ok: "fmt_ok f"
  have e: "unat (f_exp_max f) = 2 ^ eb f - 1" and e2: "(4 :: nat) \<le> 2 ^ eb f"
    by (rule unat_f_exp_max [OF ok], rule exp_max_ge [OF ok])
  then have e1: "unat (f_exp_max f - 1) = 2 ^ eb f - 2"
    by (subst unat_sub) (simp_all add: word_le_nat_alt)
  have m: "unat (push_bit (fb f) 1 - 1 :: u64) = 2 ^ fb f - 1" by (rule unat_mask_1) (use fmt_okD [OF ok] in simp)
  have F: "2 ^ fb f - 1 < (2 :: nat) ^ fb f" and E: "2 ^ eb f - 2 < (2 :: nat) ^ eb f" by simp_all
  note less = f_pack_less(2,3) [OF ok E F, of s]
  have "(1 :: nat) \<le> 2 ^ fb f" by simp
  then have small: "(2 ^ eb f - 2) * 2 ^ fb f < (2 :: nat) ^ 64" "(of_bool s * 2 ^ (eb f + fb f) + (2 ^ eb f - 2) * 2 ^ fb f :: nat) < 2 ^ 64"
    using less(2) unfolding f_pack_def by linarith+
  have p: "unat (push_bit (fb f) (f_exp_max f - 1)) = (2 ^ eb f - 2) * 2 ^ fb f"
    using small by (subst unat_push_bit_small) (simp_all add: e1)
  have z: "unat (f_zero f s + push_bit (fb f) (f_exp_max f - 1)) = of_bool s * 2 ^ (eb f + fb f) + (2 ^ eb f - 2) * 2 ^ fb f"
    using small by (subst unat_add_small) (simp_all add: p unat_f_zero ok)
  have "unat (f_max_fin f s) = f_pack f s (2 ^ eb f - 2) (2 ^ fb f - 1)"
    unfolding f_max_fin_def f_pack_def using less(2) by (subst unat_add_small) (simp_all add: z m f_pack_def del: push_bit_of_1)
  then show ?thesis using less(1) by (simp add: f_fits_def)
qed

lemma f_fitsI: "unat p < 2 * 2 ^ (eb f + fb f) \<Longrightarrow> f_fits f p"
  by (simp add: f_fits_def)

lemma f_repr_fits: "f_repr f p s v \<Longrightarrow> f_fits f p"
  by (simp add: f_repr_def f_fits_def)

lemma f_rounds_fits: "fmt_ok f \<Longrightarrow> f_rounds f m ftz s x p \<Longrightarrow> f_fits f p"
  by (auto simp: f_rounds_def round_result_def f_repr_def f_overflow_def f_zero_fields
      f_inf_fields f_max_fin_fits intro: f_fitsI split: if_splits)

lemma x_result_fits: "fmt_ok f \<Longrightarrow> x_result f m ftz x r \<Longrightarrow> opt_fits f r"
  by (cases x) (auto simp: opt_fits_def f_inf_fields f_rounds_fits)

lemma f_sat_fits: "fmt_ok f \<Longrightarrow> opt_fits f r \<Longrightarrow> opt_fits f (f_sat f sat r)"
  using f_one_fields(1) [of f] by (auto simp: f_sat_def opt_fits_def f_fits_def split: option.splits)

lemma f_fits_32: "f_fits F32_fmt x \<longleftrightarrow> unat x < 2 ^ 32" and f_fits_64: "f_fits F64_fmt x"
  using unat_lt_exp [of x] by (simp_all add: f_fits_def F32_fmt_def F64_fmt_def)

lemma f_qnan_fits: "f_fits F32_fmt (f_qnan F32_fmt)"
  unfolding f_fits_32 by (simp add: f_qnan_def f_exp_max_def F32_fmt_def)

lemma fabs_bits_fits: "fmt_ok f \<Longrightarrow> f_fits f x \<Longrightarrow> f_fits f (x AND NOT (f_sign_bit f))"
  by (simp add: f_abs_bits) (simp add: f_fits_iff)

section \<open>Values at their width\<close>

text \<open>\<open>vfits w v\<close>: what a \<open>w\<close>-bit register may hold.\<close>

definition vfits :: "nat \<Rightarrow> u64 \<Rightarrow> bool" where
  "vfits w v \<longleftrightarrow> (w = 32 \<longrightarrow> unat v < 2 ^ 32)"

named_theorems vfits_intros

lemma unat_take_bit: "unat (take_bit n v) = unat v mod 2 ^ n"
  by (metis take_bit_eq_mod unsigned_take_bit_eq)

lemma lo32_mod: "unat (lo32 v) = unat v mod 2 ^ 32"
proof -
  have "lo32 v = take_bit 32 v" by (simp add: lo32_def take_bit_eq_mask mask_eq_exp_minus_1)
  then show ?thesis by (simp only: unat_take_bit)
qed

lemma lo32_less [vfits_intros]: "vfits w (lo32 v)"
  by (simp add: vfits_def lo32_mod)

lemma vfits_64 [vfits_intros]: "vfits 64 v"
  by (simp add: vfits_def)

lemma at_width_fits [vfits_intros]: "vfits w (at_width w f a b)"
  by (simp add: vfits_def at_width_def lo32_mod)

lemma shift_fits [vfits_intros]: "vfits w (shift w a b k)"
  by (simp add: vfits_def shift_def lo32_mod Let_def)

lemma fit_fits [vfits_intros]: "ty_width t = Some w \<Longrightarrow> vfits w (fit t v)"
  by (simp add: vfits_def fit_def width_def lo32_mod)

lemma convert_fits [vfits_intros]: "ty_width t = Some w \<Longrightarrow> ty_width st \<noteq> None \<Longrightarrow> vfits w (convert t st v)"
  by (cases t; cases st; simp add: vfits_def convert_def width_def lo32_mod)

lemma rd_fits [vfits_intros]: "ty_width t = Some w \<Longrightarrow> vfits w (mem_rd m a (width t div 8))"
proof -
  assume t: "ty_width t = Some w"
  have "unat (mem_rd m a 4) < 2 ^ 32"
  proof -
    have "unat (take_bit 32 (mem_rd m a 4)) < 2 ^ 32" by (simp only: unat_take_bit) simp
    moreover have "take_bit 32 (mem_rd m a 4) = mem_rd m a 4" using mem.rd_width [of 4 m a] by simp
    ultimately show ?thesis by simp
  qed
  then show ?thesis using t by (cases t) (auto simp: vfits_def width_def)
qed

lemma fres_fits: "t \<in> {F32, F64} \<Longrightarrow> ty_width t = Some w \<Longrightarrow> opt_fits (ty_fmt t) r \<Longrightarrow> vfits w (fres t r)"
  using f_qnan_fits by (auto simp: vfits_def fres_def ty_fmt_def opt_fits_def f_fits_32 split: option.splits)

lemma fbits_fits: "is_float t \<Longrightarrow> f_fits (ty_fmt t) (fbits t v)"
  by (auto simp: is_float_def ty_fmt_def fbits_def fit_def width_def f_fits_32 f_fits_64 lo32_mod)

lemma ty_fmt_ok [simp]: "fmt_ok (ty_fmt t)" and ty_fmt_fb: "fb (ty_fmt t) \<le> 52" "int (fb (ty_fmt t)) \<le> f_emax (ty_fmt t)"
  by (simp_all add: ty_fmt_def F32_fmt_def F64_fmt_def f_emax_def f_bias_def fmt_ok_def)

section \<open>Floating-point instructions as the parser forms them\<close>

fun flt_form :: "instr \<Rightarrow> bool" where
  "flt_form (FBin _ _ _ _ t _ _ _) \<longleftrightarrow> is_float t"
| "flt_form (Ffma _ _ _ t _ _ _ _) \<longleftrightarrow> is_float t"
| "flt_form (Fsqrt _ _ t _ _) \<longleftrightarrow> is_float t"
| "flt_form (Frcp _ _ t _ _) \<longleftrightarrow> is_float t"
| "flt_form (Fneg _ t _ _) \<longleftrightarrow> is_float t"
| "flt_form (Fabs _ t _ _) \<longleftrightarrow> is_float t"
| "flt_form (Fminmax _ _ _ t _ _ _) \<longleftrightarrow> is_float t"
| "flt_form (Fsetp _ _ t _ _ _) \<longleftrightarrow> is_float t"
| "flt_form (CvtFlt dt st rnd _ _ _ _) \<longleftrightarrow> cvt_form dt st rnd"
| "flt_form _ \<longleftrightarrow> True"

text \<open>A float operation returns, and a result that is not "some NaN" is a pattern of its format.\<close>

definition flt_returns :: "ty \<Rightarrow> u64 option panics \<Rightarrow> bool" where
  "flt_returns t r \<longleftrightarrow> (case r of None \<Rightarrow> False | Some r \<Rightarrow> opt_fits (ty_fmt t) r)"

lemma flt_returnsI: "x = Some r \<Longrightarrow> opt_fits (ty_fmt t) r \<Longrightarrow> flt_returns t x"
  by (simp add: flt_returns_def)

lemma fits2_bits: "is_float t \<Longrightarrow> fits2 (ty_fmt t) (fbits t x) (fbits t y)"
  using fbits_fits [of t] by (simp add: fits2_def)

lemma fbin_returns: "is_float t \<Longrightarrow> flt_returns t (fbin_val p (ty_fmt t) m ftz sat (fbits t x) (fbits t y))"
  using fadd_exact [OF fits2_bits, of t m ftz sat x y] fsub_exact [OF fits2_bits, of t m ftz sat x y]
    fmul_exact [OF fits2_bits, of t m ftz sat x y] fdiv_exact [OF fits2_bits, of t m ftz x y]
  by (cases p) (auto simp: fbin_val_def intro!: flt_returnsI f_sat_fits dest: x_result_fits [OF ty_fmt_ok])

lemma ffma_returns: "is_float t \<Longrightarrow> flt_returns t (ffma (ty_fmt t) m ftz sat (fbits t x) (fbits t y) (fbits t z))"
  using ffma_exact [OF fits2_bits, of t "fbits t z" m ftz sat x y] fbits_fits [of t z]
  by (auto intro!: flt_returnsI f_sat_fits dest: x_result_fits [OF ty_fmt_ok])

lemma fsqrt_returns: "is_float t \<Longrightarrow> flt_returns t (fsqrt (ty_fmt t) m ftz (fbits t x))"
  using fsqrt_exact [OF ty_fmt_ok ty_fmt_fb(1), of t "fbits t x" m ftz] fbits_fits [of t x]
  by (auto intro!: flt_returnsI dest: x_result_fits [OF ty_fmt_ok])

lemma frcp_returns: "is_float t \<Longrightarrow> flt_returns t (frcp (ty_fmt t) m ftz (fbits t x))"
  using fdiv_exact [of "ty_fmt t" "f_one (ty_fmt t)" "fbits t x" m ftz] fbits_fits [of t x] f_one_fields(1) [OF ty_fmt_ok]
  by (auto simp: fits2_def frcp_def intro!: flt_returnsI dest: x_result_fits [OF ty_fmt_ok])

lemma fsign_returns:
  assumes "is_float t"
  shows "flt_returns t (Some (fneg (ty_fmt t) ftz (fbits t x)))" and "flt_returns t (Some (fabs (ty_fmt t) ftz (fbits t x)))"
    and "flt_returns t (Some (fminmax (ty_fmt t) mx ftz nan (fbits t x) (fbits t y)))"
proof -
  have fits: "f_fits (ty_fmt t) (f_flush (ty_fmt t) ftz (fbits t v))" for v
    using assms fbits_fits [of t v] by (simp add: f_fits_flush)
  show "flt_returns t (Some (fneg (ty_fmt t) ftz (fbits t x)))" and "flt_returns t (Some (fabs (ty_fmt t) ftz (fbits t x)))"
    and "flt_returns t (Some (fminmax (ty_fmt t) mx ftz nan (fbits t x) (fbits t y)))"
    using fits by (simp_all add: flt_returns_def opt_fits_def fneg_def fabs_def fminmax_def Let_def neg_bits_fields fabs_bits_fits)
qed

lemma int_of_bound: "\<bar>int_of t v\<bar> < 2 ^ 127"
proof -
  have "\<bar>sint (w :: 'a::len word)\<bar> \<le> 2 ^ (LENGTH('a) - 1)" for w
    using sint_greater_eq [of w] sint_less [of w] by simp
  from this [of "ucast v :: u32"] this [of v] show ?thesis
    using uint_lt2p [of "ucast v :: u32"] uint_lt2p [of v] uint_ge_0 [of "ucast v :: u32"] uint_ge_0 [of v]
    unfolding int_of_def by (auto simp del: uint_ge_0)
qed

lemma cvt_returns:
  assumes "cvt_form dt st rnd" and w: "ty_width dt = Some w"
  obtains v where "cvt_float dt st rnd ftz sat a = Some (Some v)" and "vfits w v"
proof -
  have fits: "fmt_ok (ty_fmt st)" "f_fits (ty_fmt st) (fbits st a)" if "is_float st"
    using that fbits_fits [of st] by simp_all
  note sat = f_sat_fits [OF ty_fmt_ok]
  have fr: "vfits w (fres dt r)" if "is_float dt" "opt_fits (ty_fmt dt) r" for r
    using that w by (intro fres_fits) (simp_all add: is_float_def)
  consider (int) m where "\<not> is_float dt" "is_float st" "rnd = CvtI m" | (float) m where "is_float dt" "\<not> is_float st" "rnd = CvtF m"
    | (integral) m where "is_float dt" "is_float st" "rnd = CvtI m" "dt = st"
    | (narrow) m where "is_float dt" "is_float st" "rnd = CvtF m" "dt = F32" "st = F64"
    | (widen) "is_float dt" "is_float st" "rnd = CvtNone" "dt = F64" "st = F32"
    using assms(1) by (cases rnd) (auto simp: cvt_form_def split: bool.splits)
  then show ?thesis
  proof cases
    case int
    have "1 \<le> width dt" "width dt \<le> 64" by (cases dt; simp add: width_def)+
    then obtain v where "to_int (ty_fmt st) m (ftz \<and> st = F32) (is_signed dt) (width dt) (fbits st a) = Some v"
      using to_int_exact by blast
    then show ?thesis using int that [of "fit dt v"] fit_fits [OF w] by (simp add: cvt_float_def Let_def)
  next
    case float
    obtain p where p: "of_int_bits (ty_fmt dt) m False (int_of st a) = Some p" "f_rounds (ty_fmt dt) m False False (of_int (int_of st a)) p"
      using of_int_exact [OF ty_fmt_ok int_of_bound] by blast
    have "opt_fits (ty_fmt dt) (Some p)" using f_rounds_fits [OF ty_fmt_ok p(2)] by (simp add: opt_fits_def)
    then show ?thesis using float p(1) fr [OF _ sat] that by (simp add: cvt_float_def Let_def sat_bits_def)
  next
    case integral
    obtain r where r: "round_integral (ty_fmt dt) m (ftz \<and> dt = F32) (fbits st a) = Some r" "opt_fits (ty_fmt dt) r"
      using round_integral_exact [OF ty_fmt_ok ty_fmt_fb(2) _ refl, of dt "fbits st a" m "ftz \<and> dt = F32"] fits integral
      by (auto simp: opt_fits_def f_inf_fields dest: f_repr_fits split: xval.splits)
    then show ?thesis using integral fr [OF _ sat] that by (simp add: cvt_float_def Let_def sat_bits_def)
  next
    case narrow
    obtain r where r: "convert_f (ty_fmt dt) (ty_fmt st) m ftz sat (fbits st a) = Some r" "opt_fits (ty_fmt dt) r"
      using convert_exact [OF ty_fmt_ok ty_fmt_ok, of dt st m ftz sat "fbits st a"] sat x_result_fits [OF ty_fmt_ok] by blast
    then show ?thesis using narrow fr that by (simp add: cvt_float_def Let_def)
  next
    case widen
    obtain r where r: "convert_f (ty_fmt dt) (ty_fmt st) Rn ftz sat (fbits st a) = Some r" "opt_fits (ty_fmt dt) r"
      using convert_exact [OF ty_fmt_ok ty_fmt_ok, of dt st Rn ftz sat "fbits st a"] sat x_result_fits [OF ty_fmt_ok] by blast
    then show ?thesis using widen fr that by (simp add: cvt_float_def Let_def)
  qed
qed


section \<open>Memory safety and the frame of a step\<close>

text \<open>The effect of a step on the two memories, given what it reports: an access lies in the
  allocations of its space, a load or a step without access changes nothing, and a store or an
  atomic changes only the bytes it reports, in the space it reports.\<close>

definition frame_ok :: "allocs \<Rightarrow> res \<Rightarrow> tcfg \<Rightarrow> tcfg \<Rightarrow> bool" where
  "frame_ok al r cfg cfg' \<longleftrightarrow> (case r of
      ROk (Some a) \<Rightarrow> access_ok (al_of al (a_sp a)) (a_addr a) (a_size a) \<and> a_size a \<in> {4, 8}
        \<and> (\<forall>x. x \<noteq> a_sp a \<longrightarrow> mem_of x cfg' = mem_of x cfg)
        \<and> (if a_kind a = Read then mem_of (a_sp a) cfg' = mem_of (a_sp a) cfg
           else \<forall>x. \<not> in_range (a_addr a) (a_size a) x \<longrightarrow> mem_get (mem_of (a_sp a) cfg') x = mem_get (mem_of (a_sp a) cfg) x)
    | _ \<Rightarrow> snd cfg' = snd cfg)"

lemma sp_not_global [simp]: "x \<noteq> SpGlobal \<longleftrightarrow> x = SpShared"
  by (cases x) simp_all

lemma width_bytes: "width t div 8 \<in> {4, 8}" and width_bytes_le: "width t div 8 \<le> 8"
  by (cases t; simp add: width_def)+

lemma exec_ld_frame: "exec_ld al c x t d a cfg = (r, cfg') \<Longrightarrow> frame_ok al r cfg cfg'"
  using width_bytes [of t]
  by (auto simp: exec_ld_def frame_ok_def mem_of_def Let_def split: prod.splits if_splits address.splits option.splits)

lemma exec_st_frame: "exec_st al c x t a v cfg = (r, cfg') \<Longrightarrow> frame_ok al r cfg cfg'"
  using width_bytes [of t]
  by (auto simp: exec_st_def frame_ok_def mem_of_def put_mem_def Let_def mem.frame width_bytes_le
      split: prod.splits if_splits option.splits)

lemma exec_rmw_frame: "exec_rmw al c x t a new d cfg = (r, cfg') \<Longrightarrow> frame_ok al r cfg cfg'"
  using width_bytes [of t]
  by (auto simp: exec_rmw_def frame_ok_def mem_of_def put_mem_def Let_def mem.frame width_bytes_le
      split: prod.splits if_splits option.splits)

lemma exec_frame:
  assumes "exec k al c i cfg = Some (r, cfg')"
  shows "frame_ok al r cfg cfg'"
proof -
  obtain s g sh where cfg: "cfg = (s, g, sh)" by (cases cfg) auto
  have flt: "r' = ROk None \<or> (\<exists>f. r' = RFault f)" if "exec_flt c s i = Some (r', s')" for r' s'
    using that by (cases i) (auto simp: set_fres_def split: option.splits)
  show ?thesis
    using assms exec_ld_frame exec_st_frame exec_rmw_frame flt unfolding cfg
    by (cases i) (auto simp: frame_ok_def split: option.splits sum.splits)
qed

text \<open>A step is past the end, skipped by its guard, or the execution of its instruction.\<close>

lemma step_cases:
  assumes "step k al c cfg = res"
  obtains (past) "length (k_body k) \<le> t_pc (fst cfg)" "res = Some (RFault (Fault_pc (t_pc (fst cfg))), cfg)"
  | (skip) "t_pc (fst cfg) < length (k_body k)" "res = Some (ROk None, (t_next (fst cfg), snd cfg))"
  | (exec) "t_pc (fst cfg) < length (k_body k)" "res = exec k al c (s_instr (k_body k ! t_pc (fst cfg))) cfg"
  using assms by (cases cfg) (auto simp: step_def Let_def not_le split: if_splits)

lemma step_frame:
  assumes "step k al c cfg = Some (r, cfg')"
  shows "frame_ok al r cfg cfg'"
  using assms
proof (cases rule: step_cases)
  case exec
  then show ?thesis using exec_frame by metis
qed (auto simp: frame_ok_def)

section \<open>Progress of checked statements\<close>

lemma all_ok_iff [simp]: "all_ok vs = accept \<longleftrightarrow> (\<forall>v\<in>set vs. v = accept)"
  by (induction vs) (auto split: sum.splits)

lemma all_checks_iff [simp]: "all_checks vs = Some accept \<longleftrightarrow> (\<forall>v\<in>set vs. v = Some accept)"
  by (induction vs) (auto split: option.splits sum.splits)

declare all_ok.simps(2) [simp del] all_checks.simps(2) [simp del]

lemma require_iff [simp]: "require b e = accept \<longleftrightarrow> b"
  by (simp add: require_def)

lemma at_w_iff [simp]: "at_w t f = Some accept \<longleftrightarrow> (\<exists>w. ty_width t = Some w \<and> f w = accept)"
  by (auto simp: at_w_def)

lemma chk_data_iff [simp]: "chk_data e r w = accept \<longleftrightarrow> (\<exists>t. ce_regs e r = Some t \<and> ty_width t = Some w)"
  by (simp add: chk_data_def split: option.split)

text \<open>The registers a checker environment declares 32 bits wide hold 32-bit values.\<close>

definition regs_ok :: "reg_env \<Rightarrow> tstate \<Rightarrow> bool" where
  "regs_ok regs s \<longleftrightarrow> (\<forall>r t w. regs r = Some t \<longrightarrow> ty_width t = Some w \<longrightarrow> vfits w (t_reg s r))"

lemma regs_ok_default: "regs_ok regs tstate_default"
  by (simp add: regs_ok_def tstate_default_def t_reg_def vfits_def)

lemma regs_ok_set: "regs_ok (ce_regs e) s \<Longrightarrow> chk_data e d w = accept \<Longrightarrow> vfits w v \<Longrightarrow> regs_ok (ce_regs e) (t_set s d v)"
  by (auto simp: regs_ok_def t_set_def t_reg_def)

lemma regs_ok_other [simp]: "regs_ok regs (t_setp s d v) = regs_ok regs s" "regs_ok regs (t_next s) = regs_ok regs s"
    "regs_ok regs (s\<lparr>t_pc := n\<rparr>) = regs_ok regs s"
  by (simp_all add: regs_ok_def t_setp_def t_next_def t_reg_def)

text \<open>The only faults of a checked kernel.\<close>

fun benign :: "res \<Rightarrow> bool" where
  "benign (RFault (Fault_pc _)) = True"
| "benign (RFault (Fault_load _ _ _)) = True"
| "benign (RFault (Fault_store _ _ _)) = True"
| "benign (RFault (Fault_atomic _ _ _)) = True"
| "benign (RFault _) = False"
| "benign _ = True"

definition good_result :: "reg_env \<Rightarrow> (res \<times> tcfg) panics \<Rightarrow> bool" where
  "good_result regs r \<longleftrightarrow> (case r of None \<Rightarrow> False | Some (x, cfg) \<Rightarrow> benign x \<and> regs_ok regs (fst cfg))"

lemma set_fres_good:
  assumes "regs_ok (ce_regs e) s" and "dst e d t = Some accept" and "is_float t" and "flt_returns t r"
  obtains s' where "set_fres s d t r = Some (ROk None, s')" and "regs_ok (ce_regs e) s'"
proof -
  obtain r' where r: "r = Some r'" "opt_fits (ty_fmt t) r'" using assms(4) by (auto simp: flt_returns_def split: option.splits)
  obtain w where w: "ty_width t = Some w" "chk_data e d w = accept" using assms(2) by (auto simp del: chk_data_iff)
  have "regs_ok (ce_regs e) (t_set s d (fres t r'))"
    using assms(3) r w by (intro regs_ok_set [OF assms(1) w(2)] fres_fits) (simp_all add: is_float_def)
  then show ?thesis using that r by (simp add: set_fres_def)
qed

lemma data_addr_checked: "chk_addr e i s a = accept \<Longrightarrow> \<exists>y ad. data_addr c ts s a = Some (y, ad)"
  by (cases "(e, i, s, a)" rule: chk_addr.cases) simp_all

lemma find_label_Some: "list_ex (\<lambda>(m, _). m = l) (k_labels k) \<Longrightarrow> \<exists>n. find_label k l = Some n"
  by (cases "find (\<lambda>(m, _). m = l) (k_labels k)") (auto simp: find_label_def list_ex_iff find_None_iff)

lemma fault_simps [simp]: "benign (ROk a)" "benign RWait" "benign RHalted"
  by simp_all

lemma exec_ld_good:
  assumes "check_instr e (Ld x t d a) = Some accept" and "regs_ok (ce_regs e) (fst cfg)"
  shows "good_result (ce_regs e) (Some (exec_ld al c x t d a cfg))"
proof -
  obtain s g sh where cfg: "cfg = (s, g, sh)" by (cases cfg) auto
  obtain w where w: "ty_width t = Some w" "chk_data e d w = accept"
    using assms(1) by (auto simp del: chk_data_iff split: if_splits)
  have set: "regs_ok (ce_regs e) (t_set s d v)" if "vfits w v" for v
    using regs_ok_set [OF _ w(2) that] assms(2) by (simp add: cfg)
  show ?thesis
  proof (cases "x = Param")
    case True
    then show ?thesis
      using assms w(1) set [OF fit_fits [OF w(1)]]
      by (auto simp: exec_ld_def cfg good_result_def split: address.splits if_splits)
  next
    case False
    then have "chk_addr e (Ld x t d a) x a = accept" using assms(1) by auto
    then obtain y ad where "data_addr c s x a = Some (y, ad)" using data_addr_checked by blast
    then show ?thesis
      using False assms(2) set [OF rd_fits [OF w(1)]] by (simp add: exec_ld_def cfg good_result_def Let_def)
  qed
qed

lemma exec_st_good:
  assumes "check_instr e (St x t a v) = Some accept" and "regs_ok (ce_regs e) (fst cfg)"
  shows "good_result (ce_regs e) (Some (exec_st al c x t a v cfg))"
proof -
  obtain s g sh where cfg: "cfg = (s, g, sh)" by (cases cfg) auto
  have "x \<noteq> Param" "chk_addr e (St x t a v) x a = accept" using assms(1) by (auto split: if_splits)
  moreover from this obtain y ad where "data_addr c s x a = Some (y, ad)" using data_addr_checked by blast
  ultimately show ?thesis
    using assms(2) by (simp add: exec_st_def cfg good_result_def Let_def put_mem_def)
qed

lemma exec_rmw_good:
  assumes "chk_addr e i x a = accept" and "regs_ok (ce_regs e) (fst cfg)" and d: "\<And>d'. d = Some d' \<Longrightarrow> dst e d' t = Some accept"
  shows "good_result (ce_regs e) (Some (exec_rmw al c x t a new d cfg))"
proof -
  obtain s g sh where cfg: "cfg = (s, g, sh)" by (cases cfg) auto
  obtain y ad where "data_addr c s x a = Some (y, ad)" using data_addr_checked [OF assms(1)] by blast
  moreover have "regs_ok (ce_regs e) (case d of Some d \<Rightarrow> t_set s d (fit t v) | None \<Rightarrow> t_next s)" for v
    using assms(2) d by (cases d) (auto simp: cfg intro: regs_ok_set fit_fits simp del: chk_data_iff)
  ultimately show ?thesis
    using assms(2) by (simp add: exec_rmw_def cfg good_result_def Let_def put_mem_def)
qed

lemma exec_flt_good:
  assumes "check_instr e i = Some accept" and "flt_form i" and "is_flt_instr i" and "regs_ok (ce_regs e) s"
  shows "\<exists>s'. exec_flt c s i = Some (ROk None, s') \<and> regs_ok (ce_regs e) s'"
proof -
  have S: "\<exists>s'. set_fres s d t r = Some (ROk None, s') \<and> regs_ok (ce_regs e) s'"
    if "dst e d t = Some accept" "is_float t" "flt_returns t r" for d t r
    using set_fres_good [OF assms(4) that] by metis
  show ?thesis
  proof (cases i)
    case (FBin p m ftz sat t d a b)
    then show ?thesis using assms(1,2) S [OF _ _ fbin_returns] by (simp del: at_w_iff)
  next
    case (Ffma m ftz sat t d a b f)
    then show ?thesis using assms(1,2) S [OF _ _ ffma_returns] by (simp del: at_w_iff)
  next
    case (Fsqrt m ftz t d a)
    then show ?thesis using assms(1,2) S [OF _ _ fsqrt_returns] by (simp del: at_w_iff)
  next
    case (Frcp m ftz t d a)
    then show ?thesis using assms(1,2) S [OF _ _ frcp_returns] by (simp del: at_w_iff)
  next
    case (Fneg ftz t d a)
    then show ?thesis using assms(1,2) S [OF _ _ fsign_returns(1)] by (simp del: at_w_iff)
  next
    case (Fabs ftz t d a)
    then show ?thesis using assms(1,2) S [OF _ _ fsign_returns(2)] by (simp del: at_w_iff)
  next
    case (Fminmax mx ftz nan t d a b)
    then show ?thesis using assms(1,2) S [OF _ _ fsign_returns(3)] by (simp del: at_w_iff)
  next
    case (CvtFlt dt st rnd ftz sat d a)
    then have f: "cvt_form dt st rnd" using assms(2) by simp
    obtain w where w: "ty_width dt = Some w" "chk_data e d w = accept"
      using assms(1) CvtFlt by (auto simp del: chk_data_iff)
    obtain v where "cvt_float dt st rnd ftz sat (t_op s c a) = Some (Some v)" "vfits w v"
      by (rule cvt_returns [OF f w(1)])
    then show ?thesis using CvtFlt regs_ok_set [OF assms(4) w(2)] by simp
  qed (use assms in simp_all)
qed

lemma bin_val_good:
  assumes "check_instr e (Bin b t d x y) = Some accept"
  obtains v w where "bin_val b t p q = Some v" and "chk_data e d w = accept" and "vfits w v"
proof (cases "b = BMulWide")
  case True
  then show ?thesis using assms that [of _ 64]
    by (auto simp: bin_val_def Let_def vfits_64 simp del: chk_data_iff)
next
  case False
  then obtain w where w: "ty_width t = Some w" "chk_data e d w = accept"
    using assms by (auto simp del: chk_data_iff split: bin_op.splits)
  then have "width t = w" by (simp add: width_def)
  then have "\<exists>v. bin_val b t p q = Some v \<and> vfits w v"
    using False by (cases b) (auto simp: bin_val_def Let_def intro: vfits_intros)
  then show ?thesis using that w(2) by blast
qed

lemma cmp_some:
  "ty_width t \<noteq> None \<Longrightarrow> \<not> (is_ordered p \<and> is_bits t) \<Longrightarrow> \<exists>v. cmp p t a b = Some v"
  by (cases p; cases t; simp add: cmp_def is_ordered_def is_bits_def Let_def)

lemma exec_int_good:
  assumes "check_instr e i = Some accept" and "\<not> is_flt_instr i" and "regs_ok (ce_regs e) s"
  shows "\<exists>s'. exec_int c s i = Inr s' \<and> regs_ok (ce_regs e) s'"
proof -
  note set = regs_ok_set [OF assms(3)]
  show ?thesis
  proof (cases i)
    case (Bin b t d x y)
    obtain v w where "bin_val b t (t_op s c x) (t_op s c y) = Some v" "chk_data e d w = accept" "vfits w v"
      using bin_val_good assms(1) Bin by metis
    then show ?thesis using Bin set by simp
  next
    case (Setp p t d a b)
    then obtain v where "cmp p t (t_op s c a) (t_op s c b) = Some v"
      using assms(1) cmp_some [of t p] by fastforce
    then show ?thesis using Setp assms(3) by simp
  next
    case (MadLo t d x y z)
    then obtain w where w: "ty_width t = Some w" "chk_data e d w = accept"
      using assms(1) by (auto simp del: chk_data_iff)
    then have "width t = w" by (simp add: width_def)
    then show ?thesis using MadLo set [OF w(2)] at_width_fits by (simp add: Let_def)
  next
    case (Cvt dt st d a)
    then obtain w where w: "ty_width dt = Some w" "chk_data e d w = accept" "ty_width st \<noteq> None"
      using assms(1) by (auto simp del: chk_data_iff)
    then show ?thesis using Cvt set [OF w(2)] convert_fits [OF w(1,3)] by simp
  next
    case (CvtaGlobal d a)
    then have "chk_data e d 64 = accept" using assms(1) by (simp del: chk_data_iff)
    then show ?thesis using CvtaGlobal set vfits_64 by simp
  qed (use assms set fit_fits in \<open>auto simp del: chk_data_iff\<close>)
qed

lemma exec_good:
  assumes "check_stmt e st = Some accept" and "flt_form (s_instr st)" and labels: "ce_labels e = k_labels k"
    and regs: "regs_ok (ce_regs e) (fst cfg)"
  shows "good_result (ce_regs e) (exec k al c (s_instr st) cfg)"
proof -
  obtain s g sh where cfg: "cfg = (s, g, sh)" by (cases cfg) auto
  have ci: "check_instr e (s_instr st) = Some accept" using assms(1) by (simp add: check_stmt_def)
  have s: "regs_ok (ce_regs e) s" using regs by (simp add: cfg)
  have other: "good_result (ce_regs e) (if is_flt_instr i
       then map_option (\<lambda>(r, s'). (r, (s', g, sh))) (exec_flt c s i)
       else Some (case exec_int c s i of Inl f \<Rightarrow> (RFault f, (s, g, sh)) | Inr s' \<Rightarrow> (ROk None, (s', g, sh))))"
    if "i = s_instr st" for i
    using exec_flt_good [OF ci assms(2) _ s, of c] exec_int_good [OF ci _ s, of c] that
    by (auto simp: good_result_def)
  show ?thesis
  proof (cases "s_instr st")
    case (Bra u l)
    then obtain n where "find_label k l = Some n" using ci labels find_label_Some by auto
    then show ?thesis using Bra s by (simp add: cfg good_result_def)
  next
    case (Ld x t d a)
    then show ?thesis using exec_ld_good ci regs by simp
  next
    case (St x t a v)
    then show ?thesis using exec_st_good ci regs by simp
  next
    case (Atom x p t d a b)
    then show ?thesis using exec_rmw_good [of e "Atom x p t d a b" x a cfg "Some d" t] ci regs by (simp add: cfg)
  next
    case (Cas x t d a b f)
    then show ?thesis using exec_rmw_good [of e "Cas x t d a b f" x a cfg "Some d" t] ci regs by (simp add: cfg)
  next
    case (Red x p t a b)
    then show ?thesis using exec_rmw_good [of e "Red x p t a b" x a cfg None t] ci regs by (simp add: cfg)
  qed (use other s in \<open>simp_all add: cfg good_result_def\<close>)
qed

end
