(* ===== verification/Ptx_Safety.thy ===== *)
theory Ptx_Safety
  imports Ptx_Sound
begin

text \<open>
  Runs: the step relation \<open>tstep\<close> of one thread, invariants along its executions (a locale that
  every invariant of the model interprets), and what \<open>run_until_wait\<close>, \<open>run_solo\<close> and \<open>run_grid\<close>
  inherit from it: memory safety for every kernel, and for checked kernels progress and the width
  of the registers.
\<close>

section \<open>Executions of a labelled step relation\<close>

inductive steps :: "('s \<Rightarrow> 'a \<Rightarrow> 's \<Rightarrow> bool) \<Rightarrow> 's \<Rightarrow> 'a list \<Rightarrow> 's \<Rightarrow> bool" for R where
  steps_refl: "steps R s [] s"
| steps_step: "R s a t \<Longrightarrow> steps R t as u \<Longrightarrow> steps R s (a # as) u"

locale step_invariant =
  fixes R :: "'s \<Rightarrow> 'a \<Rightarrow> 's \<Rightarrow> bool" and I :: "'s \<Rightarrow> bool" and P :: "'a \<Rightarrow> bool"
  assumes keeps: "I s \<Longrightarrow> R s a t \<Longrightarrow> I t" and labels: "I s \<Longrightarrow> R s a t \<Longrightarrow> P a"
begin

lemma steps_keep: "steps R s as t \<Longrightarrow> I s \<Longrightarrow> I t"
  by (induction rule: steps.induct) (auto intro: keeps)

lemma steps_labels: "steps R s as t \<Longrightarrow> I s \<Longrightarrow> \<forall>a\<in>set as. P a"
  by (induction rule: steps.induct) (auto intro: keeps labels)

end

inductive tstep :: "kernel \<Rightarrow> allocs \<Rightarrow> ctx \<Rightarrow> tcfg \<Rightarrow> access option \<Rightarrow> tcfg \<Rightarrow> bool" for k al c where
  "step k al c cfg = Some (ROk a, cfg') \<Longrightarrow> tstep k al c cfg a cfg'"

inductive_simps tstep_iff: "tstep k al c cfg a cfg'"

lemma steps_append: "steps R s as t \<Longrightarrow> steps R t bs u \<Longrightarrow> steps R s (as @ bs) u"
  by (induction rule: steps.induct) (auto intro: steps.intros)

section \<open>Runs are executions\<close>

text \<open>A run that returns is an execution, followed by one step that waits, halts or faults unless
  the fuel is spent; the log holds the accesses of the execution.\<close>

definition run_stop :: "kernel \<Rightarrow> allocs \<Rightarrow> ctx \<Rightarrow> run_end \<Rightarrow> tcfg \<Rightarrow> tcfg \<Rightarrow> bool" where
  "run_stop k al c e cfg cfg' \<longleftrightarrow> (case e of
      EOutOfFuel \<Rightarrow> cfg' = cfg
    | EWait _ \<Rightarrow> step k al c cfg = Some (RWait, cfg')
    | EHalted _ \<Rightarrow> step k al c cfg = Some (RHalted, cfg')
    | EFault _ f \<Rightarrow> step k al c cfg = Some (RFault f, cfg'))"

lemma run_from_steps:
  "run_from k al c cfg i n acc = Some (e, acc', cfg') \<Longrightarrow>
    \<exists>as mid. steps (tstep k al c) cfg as mid \<and> run_stop k al c e mid cfg'
      \<and> map snd acc' = map snd acc @ List.map_filter id as"
proof (induction n arbitrary: cfg i acc)
  case 0
  then show ?case by (intro exI [of _ "[]"] exI [of _ cfg]) (auto simp: run_stop_def map_filter_def intro: steps_refl)
next
  case (Suc n)
  obtain r cfg1 where st: "step k al c cfg = Some (r, cfg1)"
    using Suc.prems by (cases "step k al c cfg") auto
  show ?case
  proof (cases r)
    case (ROk a)
    define acc1 where "acc1 = acc @ (case a of None \<Rightarrow> [] | Some a \<Rightarrow> [(i, a)])"
    have "run_from k al c cfg1 (i + 1) n acc1 = Some (e, acc', cfg')"
      using Suc.prems by (simp add: st ROk acc1_def)
    from Suc.IH [OF this] obtain as mid where IH: "steps (tstep k al c) cfg1 as mid" "run_stop k al c e mid cfg'"
      "map snd acc' = map snd acc1 @ List.map_filter id as" by blast
    have "steps (tstep k al c) cfg (a # as) mid"
      using st ROk IH(1) by (auto intro: steps_step tstep.intros)
    moreover have "map snd acc' = map snd acc @ List.map_filter id (a # as)"
      using IH(3) by (cases a) (simp_all add: acc1_def map_filter_def)
    ultimately show ?thesis using IH(2) by blast
  next
    case RWait
    then show ?thesis using Suc.prems st
      by (intro exI [of _ "[]"] exI [of _ cfg]) (auto simp: run_stop_def map_filter_def intro: steps_refl)
  next
    case RHalted
    then show ?thesis using Suc.prems st
      by (intro exI [of _ "[]"] exI [of _ cfg]) (auto simp: run_stop_def map_filter_def intro: steps_refl)
  next
    case (RFault f)
    then show ?thesis using Suc.prems st
      by (intro exI [of _ "[]"] exI [of _ cfg]) (auto simp: run_stop_def map_filter_def intro: steps_refl)
  qed
qed

section \<open>Memory safety\<close>

definition region_has :: "region list \<Rightarrow> u64 \<Rightarrow> bool" where
  "region_has rs x \<longleftrightarrow> (\<exists>r\<in>set rs. unat (r_base r) \<le> unat x \<and> unat x < unat (r_base r) + r_size r)"

text \<open>An aligned access does not wrap around the address space, so its bytes lie in its region.\<close>

lemma access_in_region:
  assumes ok: "access_ok rs a n" and n: "n \<in> {4, 8}" and x: "in_range a n x"
  shows "region_has rs x"
proof -
  have mod: "unat a mod n = 0" using ok by (simp add: access_ok_def)
  have "n dvd 2 ^ 64" using n by auto
  moreover have "n dvd unat a" using mod by (simp add: mod_eq_0_iff_dvd)
  ultimately have "n dvd 2 ^ 64 - unat a" by (simp add: dvd_diff_nat)
  moreover have "0 < 2 ^ 64 - unat a" using unat_lt_exp [of a] by simp
  ultimately have "n \<le> 2 ^ 64 - unat a" by (rule dvd_imp_le)
  then have top: "unat a + n \<le> 2 ^ 64" using unat_lt_exp [of a] by simp
  define d where "d = unat (x - a)"
  have d: "d < n" using x by (simp add: in_range_def d_def)
  have "x = a + of_nat d" by (simp add: d_def)
  then have "unat x = unat a + d"
    using d top n by (simp add: unat_add_small unat_of_nat_small)
  moreover obtain r where "r \<in> set rs" "unat (r_base r) \<le> unat a" "unat a + n \<le> unat (r_base r) + r_size r"
    using ok unfolding access_ok_def list_ex_iff by blast
  ultimately have "unat (r_base r) \<le> unat x" "unat x < unat (r_base r) + r_size r" "r \<in> set rs"
    using d by (simp_all only:)
  then show ?thesis unfolding region_has_def by blast
qed

definition only_inside :: "region list \<Rightarrow> mem \<Rightarrow> mem \<Rightarrow> bool" where
  "only_inside rs m m' \<longleftrightarrow> (\<forall>x. \<not> region_has rs x \<longrightarrow> mem_get m' x = mem_get m x)"

lemma only_inside_refl [simp]: "only_inside rs m m"
  by (simp add: only_inside_def)

lemma only_inside_trans: "only_inside rs m m' \<Longrightarrow> only_inside rs m' m'' \<Longrightarrow> only_inside rs m m''"
  by (simp add: only_inside_def)

lemma frame_only_inside:
  assumes "frame_ok al r cfg cfg'"
  shows "only_inside (al_of al x) (mem_of x cfg) (mem_of x cfg')"
proof (cases r)
  case (ROk a)
  show ?thesis
  proof (cases a)
    case None
    then have "snd cfg' = snd cfg" using assms ROk by (simp add: frame_ok_def)
    then show ?thesis by (cases cfg; cases cfg') (simp add: mem_of_def)
  next
    case (Some b)
    then show ?thesis
      using assms ROk access_in_region [of "al_of al (a_sp b)" "a_addr b" "a_size b"]
      by (cases "x = a_sp b"; cases "a_kind b = Read") (auto simp: frame_ok_def only_inside_def)
  qed
qed (use assms in \<open>cases cfg; cases cfg'; simp add: frame_ok_def mem_of_def\<close>)+

definition access_inside :: "allocs \<Rightarrow> access \<Rightarrow> bool" where
  "access_inside al a \<longleftrightarrow> access_ok (al_of al (a_sp a)) (a_addr a) (a_size a)"

definition mems_inside :: "allocs \<Rightarrow> tcfg \<Rightarrow> tcfg \<Rightarrow> bool" where
  "mems_inside al cfg cfg' \<longleftrightarrow> (\<forall>x. only_inside (al_of al x) (mem_of x cfg) (mem_of x cfg'))"

interpretation safe: step_invariant "tstep k al c" "mems_inside al cfg0" "\<lambda>a. \<forall>b. a = Some b \<longrightarrow> access_inside al b" for k al c cfg0
proof unfold_locales
  fix s a t
  assume I: "mems_inside al cfg0 s" and "tstep k al c s a t"
  then have F: "frame_ok al (ROk a) s t" by (simp add: tstep_iff step_frame)
  show "mems_inside al cfg0 t"
    using I frame_only_inside [OF F] only_inside_trans unfolding mems_inside_def by blast
  show "\<forall>b. a = Some b \<longrightarrow> access_inside al b"
    using F by (auto simp: frame_ok_def access_inside_def)
qed

lemma run_until_wait_safe:
  assumes "run_until_wait k al c cfg fuel = Some (e, acc, cfg')"
  shows "mems_inside al cfg cfg'" and "\<forall>(i, a)\<in>set acc. access_inside al a"
proof -
  obtain as mid where R: "steps (tstep k al c) cfg as mid" "run_stop k al c e mid cfg'" "map snd acc = List.map_filter id as"
    using run_from_steps [of k al c cfg 0 fuel "[]" e acc cfg'] assms by (auto simp: run_until_wait_def)
  have refl: "mems_inside al cfg cfg" by (simp add: mems_inside_def)
  have "mems_inside al mid cfg'"
  proof (cases "cfg' = mid")
    case False
    then obtain r where "step k al c mid = Some (r, cfg')" using R(2) by (cases e) (auto simp: run_stop_def)
    then show ?thesis unfolding mems_inside_def using frame_only_inside [OF step_frame] by blast
  qed (simp add: mems_inside_def)
  moreover have "mems_inside al cfg mid" by (rule safe.steps_keep [OF R(1) refl])
  ultimately show "mems_inside al cfg cfg'"
    unfolding mems_inside_def using only_inside_trans by blast
  have "\<forall>a\<in>set (List.map_filter id as). access_inside al a"
    using safe.steps_labels [OF R(1) refl] by (force simp: map_filter_def)
  then have "\<forall>a\<in>set (map snd acc). access_inside al a" by (simp add: R(3))
  then show "\<forall>(i, a)\<in>set acc. access_inside al a" by auto
qed

section \<open>Checked kernels\<close>

definition kernel_env :: "kernel \<Rightarrow> check_env" where
  "kernel_env k = \<lparr>ce_regs = (case declare_regs (k_regs k) Map.empty of Inr m \<Rightarrow> m | Inl _ \<Rightarrow> Map.empty),
     ce_params = param_env (k_params k), ce_shared = map sd_name (k_shared k), ce_labels = k_labels k\<rparr>"

text \<open>\<open>check\<close> accepted the kernel, with a line for each statement, and its float instructions have
  the forms that \<open>float_instr\<close> builds.\<close>

definition checked :: "kernel \<Rightarrow> nat list \<Rightarrow> bool" where
  "checked k lines \<longleftrightarrow> length lines = length (k_body k) \<and> check k lines = Some (Inr ())
     \<and> list_all (\<lambda>st. flt_form (s_instr st)) (k_body k)"

lemma check_body_stmts:
  "check_body e ss = Some (Inr ()) \<Longrightarrow> (s, l) \<in> set ss \<Longrightarrow> check_stmt e s = Some accept"
  by (induction ss) (auto split: option.splits sum.splits)

lemma checked_stmt:
  assumes "checked k lines" and "n < length (k_body k)"
  shows "check_stmt (kernel_env k) (k_body k ! n) = Some accept"
proof -
  have "check_body (kernel_env k) (zip (k_body k) lines) = Some (Inr ())"
    using assms(1) by (auto simp: checked_def check_def kernel_env_def Let_def split: sum.splits option.splits)
  moreover have "(k_body k ! n, lines ! n) \<in> set (zip (k_body k) lines)"
    using assms by (auto simp: checked_def set_zip)
  ultimately show ?thesis by (rule check_body_stmts)
qed

lemma step_good:
  assumes "checked k lines" and "regs_ok (ce_regs (kernel_env k)) (fst cfg)"
  shows "good_result (ce_regs (kernel_env k)) (step k al c cfg)"
proof (cases rule: step_cases [of k al c cfg, OF refl, case_names past skip exec])
  case exec
  have "good_result (ce_regs (kernel_env k)) (exec k al c (s_instr (k_body k ! t_pc (fst cfg))) cfg)"
    using exec checked_stmt [OF assms(1)] assms by (intro exec_good) (simp_all add: checked_def list_all_length kernel_env_def)
  then show ?thesis by (simp add: exec)
qed (use assms in \<open>simp_all add: good_result_def\<close>)

interpretation typed: step_invariant "tstep k al c"
  "\<lambda>cfg. (\<exists>lines. checked k lines) \<and> regs_ok (ce_regs (kernel_env k)) (fst cfg)" "\<lambda>a. True" for k al c
proof unfold_locales
  fix s a t
  assume "(\<exists>lines. checked k lines) \<and> regs_ok (ce_regs (kernel_env k)) (fst s)" and "tstep k al c s a t"
  then show "(\<exists>lines. checked k lines) \<and> regs_ok (ce_regs (kernel_env k)) (fst t)"
    using step_good [of k _ s al c] by (auto simp: tstep_iff good_result_def)
qed simp

lemma run_from_good:
  assumes "checked k lines" and "regs_ok (ce_regs (kernel_env k)) (fst cfg)"
  shows "\<exists>e acc' cfg'. run_from k al c cfg i n acc = Some (e, acc', cfg') \<and> regs_ok (ce_regs (kernel_env k)) (fst cfg')
    \<and> (\<forall>j f. e = EFault j f \<longrightarrow> benign (RFault f))"
  using assms(2)
proof (induction n arbitrary: cfg i acc)
  case (Suc n)
  obtain r cfg1 where st: "step k al c cfg = Some (r, cfg1)" "benign r" "regs_ok (ce_regs (kernel_env k)) (fst cfg1)"
    using step_good [OF assms(1) Suc.prems, of al c] by (auto simp: good_result_def split: option.splits)
  then show ?case using Suc.IH [OF st(3)] by (cases r) simp_all
qed simp

section \<open>The whole launch\<close>

lemma log_events_inside:
  "\<forall>(i, a)\<in>set acc. access_inside al a \<Longrightarrow> \<forall>v\<in>set (log_events idx phase n acc). access_inside al (ev_access v)"
  by (auto simp: log_events_def)

definition events_inside :: "allocs \<Rightarrow> event list \<Rightarrow> bool" where
  "events_inside al ev \<longleftrightarrow> (\<forall>v\<in>set ev. access_inside al (ev_access v))"

definition launch_inv :: "allocs \<Rightarrow> mem \<Rightarrow> mem \<Rightarrow> event list \<Rightarrow> bool" where
  "launch_inv al g0 g ev \<longleftrightarrow> only_inside (al_global al) g0 g \<and> events_inside al ev"

lemma run_launch_inv:
  assumes "run_until_wait k al c (s, g, sh) fuel = Some (e, acc, (s', g', sh'))" and "launch_inv al g0 g ev"
  shows "launch_inv al g0 g' (ev @ log_events idx phase n acc)"
proof -
  note S = run_until_wait_safe [OF assms(1)]
  have "only_inside (al_of al SpGlobal) (mem_of SpGlobal (s, g, sh)) (mem_of SpGlobal (s', g', sh'))"
    using S(1) unfolding mems_inside_def by blast
  then have "only_inside (al_global al) g g'" by (simp add: al_of_def mem_of_def)
  then show ?thesis
    using assms(2) log_events_inside [OF S(2), of idx phase n] only_inside_trans
    by (auto simp: launch_inv_def events_inside_def)
qed

lemma cta_round_inv:
  "cta_round k al idx phase ts g sh left ev = Some r \<Longrightarrow> launch_inv al g0 g ev \<Longrightarrow>
    (case r of Inl (_, g', ev') \<Rightarrow> launch_inv al g0 g' ev' | Inr (_, _, g', _, _, ev') \<Rightarrow> launch_inv al g0 g' ev')"
proof (induction ts arbitrary: idx g sh left ev r)
  case (Cons t ts)
  obtain c s n where t: "t = (c, s, n)" by (cases t) auto
  obtain e acc s1 g1 sh1 where run: "run_until_wait k al c (s, g, sh) left = Some (e, acc, (s1, g1, sh1))"
    using Cons.prems(1) unfolding t by (cases "run_until_wait k al c (s, g, sh) left") auto
  note inv = run_launch_inv [OF run Cons.prems(2), of idx phase n]
  show ?case
  proof (cases e)
    case (EHalted u)
    then show ?thesis using Cons.prems(1) inv Cons.IH unfolding t
      by (auto simp: run split: option.splits sum.splits prod.splits Option.bind_splits) (fastforce+)?
  next
    case (EWait u)
    then show ?thesis using Cons.prems(1) inv Cons.IH unfolding t
      by (auto simp: run split: option.splits sum.splits prod.splits Option.bind_splits) (fastforce+)?
  qed (use Cons.prems(1) inv in \<open>auto simp: t run\<close>)
qed auto

lemma cta_loop_inv:
  "cta_loop k al base phase ts g sh left ev = Some r \<Longrightarrow> launch_inv al g0 g ev \<Longrightarrow>
    (case r of Inl (_, g', ev') \<Rightarrow> launch_inv al g0 g' ev' | Inr (g', _, ev') \<Rightarrow> launch_inv al g0 g' ev')"
proof (induction k al base phase ts g sh left ev arbitrary: r rule: cta_loop.induct)
  case (1 k al base phase ts g sh left ev)
  obtain q where q: "cta_round k al base phase ts g sh left ev = Some q"
    using "1.prems"(1) by (subst (asm) cta_loop.simps) (auto split: option.splits)
  note inv = cta_round_inv [OF q "1.prems"(2)]
  show ?case
  proof (cases q)
    case (Inl x)
    then show ?thesis using "1.prems"(1) inv by (subst (asm) cta_loop.simps) (auto simp: q)
  next
    case (Inr y)
    obtain ts' ends g' sh' left' ev' where y: "y = (ts', ends, g', sh', left', ev')" by (cases y) auto
    have inv': "launch_inv al g0 g' ev'" using inv by (simp add: Inr y)
    show ?thesis
    proof (cases "waiting ends")
      case Nil
      then show ?thesis using "1.prems"(1) inv' by (subst (asm) cta_loop.simps) (auto simp: q Inr y)
    next
      case (Cons w ws)
      let ?D = "length (w # ws) \<noteq> length ts' \<or> list_ex (\<lambda>i. thread_pc (ts' ! i) \<noteq> thread_pc (ts' ! w)) (w # ws)"
      have unfold: "cta_loop k al base phase ts g sh left ev = (if ?D then Some (Inl (GDiverged (base + w), g', ev'))
          else if left' = 0 then Some (Inl (GOutOfFuel, g', ev'))
          else cta_loop k al base (phase + 1) (map release ts') g' sh' (left' - 1) ev')"
        by (subst cta_loop.simps) (simp add: q Inr y Cons)
      show ?thesis
      proof (cases "?D \<or> left' = 0")
        case True
        then show ?thesis using "1.prems"(1) inv' unfolding unfold by (auto split: if_splits)
      next
        case False
        then have "cta_loop k al base (phase + 1) (map release ts') g' sh' (left' - 1) ev' = Some r"
          using "1.prems"(1) unfolding unfold by (simp split: if_splits)
        then show ?thesis
          using "1.IH" [OF q Inr y [symmetric] refl refl refl refl Cons] False inv' by blast
      qed
    qed
  qed
qed

lemma grid_loop_inv:
  "grid_loop k l per ci chs g sh0 left ev = Some (e, g', ev') \<Longrightarrow> launch_inv (launch_allocs l k) g0 g ev
    \<Longrightarrow> launch_inv (launch_allocs l k) g0 g' ev'"
proof (induction chs arbitrary: ci g left ev)
  case (Cons ch chs)
  obtain r where r: "cta_loop k (launch_allocs l k) (ci * per) 0
       (map (\<lambda>(c, t). (launch_ctx l c t, tstate_default, 0)) ch) g sh0 left ev = Some r"
    using Cons.prems(1) by (cases "cta_loop k (launch_allocs l k) (ci * per) 0
       (map (\<lambda>(c, t). (launch_ctx l c t, tstate_default, 0)) ch) g sh0 left ev") auto
  note inv = cta_loop_inv [OF r Cons.prems(2)]
  show ?case
    using Cons.prems(1) inv Cons.IH by (cases r) (auto simp: r)
qed simp

lemma run_grid_safe:
  assumes "run_grid k l g sh0 fuel = Some (e, g', ev)"
  shows "only_inside (l_alloc l) g g'" and "events_inside (launch_allocs l k) ev"
proof -
  have "launch_inv (launch_allocs l k) g g []" by (simp add: launch_inv_def events_inside_def)
  then have "launch_inv (launch_allocs l k) g g' ev"
    using assms grid_loop_inv [of k l _ 0 _ g sh0 fuel "[]" e g' ev g]
    by (auto simp: run_grid_def split: Option.bind_splits if_splits)
  then show "only_inside (l_alloc l) g g'" and "events_inside (launch_allocs l k) ev"
    by (simp_all add: launch_inv_def launch_allocs_def)
qed

section \<open>The launch of a checked kernel\<close>

definition threads_ok :: "kernel \<Rightarrow> cta_thread list \<Rightarrow> bool" where
  "threads_ok k ts \<longleftrightarrow> (\<forall>(c, s, n)\<in>set ts. regs_ok (ce_regs (kernel_env k)) s)"

definition benign_end :: "grid_end \<Rightarrow> bool" where
  "benign_end e \<longleftrightarrow> (case e of GFault _ f \<Rightarrow> benign (RFault f) | _ \<Rightarrow> True)"

lemma threads_ok_release: "threads_ok k ts \<Longrightarrow> threads_ok k (map release ts)"
  by (auto simp: threads_ok_def release_def)

lemma cta_round_good:
  assumes "checked k lines"
  shows "threads_ok k ts \<Longrightarrow> \<exists>r. cta_round k al idx phase ts g sh left ev = Some r \<and>
    (case r of Inl (e, _) \<Rightarrow> benign_end e | Inr (ts', _) \<Rightarrow> threads_ok k ts')"
proof (induction ts arbitrary: idx g sh left ev)
  case (Cons t ts)
  obtain c s n where t: "t = (c, s, n)" by (cases t) auto
  have s: "regs_ok (ce_regs (kernel_env k)) (fst (s, g, sh))" and ts: "threads_ok k ts"
    using Cons.prems by (auto simp: t threads_ok_def)
  obtain e acc s1 g1 sh1 where run: "run_until_wait k al c (s, g, sh) left = Some (e, acc, (s1, g1, sh1))"
    and s1: "regs_ok (ce_regs (kernel_env k)) s1" and f: "\<forall>j f. e = EFault j f \<longrightarrow> benign (RFault f)"
    using run_from_good [OF assms s, of al c 0 left "[]"] by (auto simp: run_until_wait_def)
  show ?case
  proof (cases e)
    case (EHalted u)
    obtain r where "cta_round k al (idx + 1) phase ts g1 sh1 (left - u) (ev @ log_events idx phase n acc) = Some r"
      "case r of Inl (e, _) \<Rightarrow> benign_end e | Inr (ts', _) \<Rightarrow> threads_ok k ts'" using Cons.IH [OF ts] by blast
    then show ?thesis using s1 by (cases r) (auto simp: t run EHalted threads_ok_def)
  next
    case (EWait u)
    obtain r where "cta_round k al (idx + 1) phase ts g1 sh1 (left - u) (ev @ log_events idx phase n acc) = Some r"
      "case r of Inl (e, _) \<Rightarrow> benign_end e | Inr (ts', _) \<Rightarrow> threads_ok k ts'" using Cons.IH [OF ts] by blast
    then show ?thesis using s1 by (cases r) (auto simp: t run EWait threads_ok_def)
  qed (use f in \<open>auto simp: t run benign_end_def\<close>)
qed (simp add: threads_ok_def)

lemma cta_loop_good:
  assumes "checked k lines"
  shows "threads_ok k ts \<Longrightarrow> \<exists>r. cta_loop k al base phase ts g sh left ev = Some r \<and>
    (case r of Inl (e, _) \<Rightarrow> benign_end e | Inr _ \<Rightarrow> True)"
proof (induction left arbitrary: phase ts g sh ev rule: less_induct)
  case (less left)
  obtain q where q: "cta_round k al base phase ts g sh left ev = Some q"
    "case q of Inl (e, _) \<Rightarrow> benign_end e | Inr (ts', _) \<Rightarrow> threads_ok k ts'"
    using cta_round_good [OF assms less.prems] by blast
  show ?case
  proof (cases q)
    case (Inl x)
    then show ?thesis using q by (subst cta_loop.simps) auto
  next
    case (Inr y)
    obtain ts' ends g' sh' left' ev' where y: "y = (ts', ends, g', sh', left', ev')" by (cases y) auto
    have ts': "threads_ok k ts'" using q by (simp add: Inr y)
    have left: "left' \<le> left" using cta_round_left q(1) unfolding Inr y by blast
    show ?thesis
    proof (cases "left' = 0")
      case True
      then show ?thesis using q(1) by (subst cta_loop.simps) (auto simp: Inr y benign_end_def split: list.split)
    next
      case False
      then have "left' - 1 < left" using left by simp
      from less.IH [OF this threads_ok_release [OF ts'], of "phase + 1" g' sh' ev']
      show ?thesis using False q(1) by (subst cta_loop.simps) (auto simp: Inr y benign_end_def split: list.split)
    qed
  qed
qed

lemma grid_loop_good:
  assumes "checked k lines"
  shows "\<exists>e g' ev'. grid_loop k l per ci chs g sh0 left ev = Some (e, g', ev') \<and> benign_end e"
proof (induction chs arbitrary: ci g left ev)
  case (Cons ch chs)
  have "threads_ok k (map (\<lambda>(c, t). (launch_ctx l c t, tstate_default, 0)) ch)"
    by (auto simp: threads_ok_def regs_ok_default)
  from cta_loop_good [OF assms this, of "launch_allocs l k" "ci * per" 0 g sh0 left ev] obtain r where
    r: "cta_loop k (launch_allocs l k) (ci * per) 0 (map (\<lambda>(c, t). (launch_ctx l c t, tstate_default, 0)) ch) g sh0 left ev = Some r"
      "case r of Inl (e, _) \<Rightarrow> benign_end e | Inr _ \<Rightarrow> True" by blast
  show ?case using r Cons.IH by (cases r) auto
qed (simp add: benign_end_def)

lemma run_grid_good:
  assumes "checked k lines" and "cta_size (l_block l) = Some per"
  shows "\<exists>e g' ev. run_grid k l g sh0 fuel = Some (e, g', ev) \<and> benign_end e"
proof (cases "per = 0")
  case False
  then show ?thesis using grid_loop_good [OF assms(1)] by (simp add: run_grid_def assms(2))
qed (simp add: run_grid_def assms(2) benign_end_def)

end
