(* ===== verification/Ptx_Parse_Ok.thy ===== *)
theory Ptx_Parse_Ok
  imports Ptx_Roundtrip Ptx_Safety
begin

text \<open>
  What the parser promises to its callers: it never panics, and a module it returns consists of
  checked kernels whose declarations index their own tables. With \<open>Ptx_Safety\<close> this makes every
  launch of a parsed kernel run without a panic, and the printer and \<open>roundtrip\<close> total on parsed modules.
\<close>

section \<open>Postconditions of parsers\<close>

text \<open>\<open>yields Q m\<close>: \<open>m\<close> does not panic, and what it returns satisfies \<open>Q\<close>.\<close>

definition yields :: "('a \<Rightarrow> bool) \<Rightarrow> 'a parses \<Rightarrow> bool" where
  "yields Q m \<longleftrightarrow> (\<forall>p. m p \<noteq> None \<and> (\<forall>x p'. m p = Some (Inr (x, p')) \<longrightarrow> Q x))"

abbreviation total :: "'a parses \<Rightarrow> bool" where "total m \<equiv> yields (\<lambda>_. True) m"

named_theorems yields_intros

lemma yields_weaken: "yields Q m \<Longrightarrow> (\<And>x. Q x \<Longrightarrow> R x) \<Longrightarrow> yields R m"
  by (auto simp: yields_def)

lemma yieldsD: "yields Q m \<Longrightarrow> m p = Some (Inr (x, p')) \<Longrightarrow> Q x"
  by (auto simp: yields_def)

lemma yields_some: "yields Q m \<Longrightarrow> m p \<noteq> None"
  by (auto simp: yields_def)

lemma yields_return [yields_intros]: "Q x \<Longrightarrow> yields Q (preturn x)"
  by (simp add: yields_def preturn_def)

lemma yields_err [yields_intros]: "yields Q (p_err e)" "yields Q (p_err_back e)" "yields Q (unsup_mod s me)"
  by (simp_all add: yields_def p_err_def p_err_back_def unsup_mod_def split: mod_err.split)

lemma yields_bind: "yields Q m \<Longrightarrow> (\<And>x. Q x \<Longrightarrow> yields R (f x)) \<Longrightarrow> yields R (pbind m f)"
  by (fastforce simp: yields_def pbind_def split: option.splits sum.splits)

lemma yields_bind_total [yields_intros]: "total m \<Longrightarrow> (\<And>x. yields R (f x)) \<Longrightarrow> yields R (pbind m f)"
  by (rule yields_bind)

lemma yields_then [yields_intros]: "total m \<Longrightarrow> yields R n \<Longrightarrow> yields R (pthen m n)"
  unfolding pthen_def by (rule yields_bind)

lemma yields_if_punct [yields_intros]: "yields Q m \<Longrightarrow> yields Q n \<Longrightarrow> yields Q (p_if_punct c m n)"
  by (simp add: yields_def p_if_punct_def)

lemma yields_when [yields_intros]: "yields Q m \<Longrightarrow> yields Q n \<Longrightarrow> yields Q (p_when b m n)"
  by (simp add: yields_def p_when_def)

lemma yields_if [yields_intros]: "(b \<Longrightarrow> yields Q m) \<Longrightarrow> (\<not> b \<Longrightarrow> yields Q n) \<Longrightarrow> yields Q (if b then m else n)"
  by simp

lemma yields_option [yields_intros]:
  "(z = None \<Longrightarrow> yields Q m) \<Longrightarrow> (\<And>x. z = Some x \<Longrightarrow> yields Q (f x)) \<Longrightarrow> yields Q (case z of None \<Rightarrow> m | Some x \<Rightarrow> f x)"
  by (cases z) simp_all

lemma yields_sum [yields_intros]:
  "(\<And>x. z = Inl x \<Longrightarrow> yields Q (g x)) \<Longrightarrow> (\<And>x. z = Inr x \<Longrightarrow> yields Q (f x)) \<Longrightarrow> yields Q (case z of Inl x \<Rightarrow> g x | Inr x \<Rightarrow> f x)"
  by (cases z) simp_all

lemma yields_tok [yields_intros]:
  "(\<And>w. yields Q (a w)) \<Longrightarrow> (\<And>v. yields Q (b v)) \<Longrightarrow> (\<And>v. yields Q (c v)) \<Longrightarrow> (\<And>v w. yields Q (d v w)) \<Longrightarrow> (\<And>x. yields Q (e x))
    \<Longrightarrow> yields Q (case t of TWord w \<Rightarrow> a w | TInt v \<Rightarrow> b v | TNum v \<Rightarrow> c v | TFloat v w \<Rightarrow> d v w | TPunct x \<Rightarrow> e x)"
  by (cases t) simp_all

lemma yields_operand [yields_intros]:
  "(\<And>r. yields Q (a r)) \<Longrightarrow> (\<And>v. yields Q (b v)) \<Longrightarrow> (\<And>s. yields Q (c s)) \<Longrightarrow> (\<And>n. yields Q (d n)) \<Longrightarrow> (\<And>v w. yields Q (e v w))
    \<Longrightarrow> yields Q (case x of OReg r \<Rightarrow> a r | OImm v \<Rightarrow> b v | OSreg s \<Rightarrow> c s | OSym n \<Rightarrow> d n | OFImm v w \<Rightarrow> e v w)"
  by (cases x) simp_all

section \<open>The parsers of tokens and operands are total\<close>

lemma total_next: "total p_next"
  by (simp add: yields_def p_next_def p_err_def split: option.split)

lemma total_tokens: "total (p_punct c)" "total p_word" "total (p_keyword k)" "total p_int" "total ty_directive" "total p_comma"
proof -
  show *: "total (p_punct c)" for c unfolding p_punct_def by (intro yields_intros total_next TrueI)
  show w: "total p_word" unfolding p_word_def by (intro yields_intros total_next TrueI)
  show "total (p_keyword k)" unfolding p_keyword_def by (intro yields_intros w TrueI)
  show "total p_int" unfolding p_int_def p_int_tok_def by (intro yields_intros total_next TrueI)
  show "total ty_directive" unfolding ty_directive_def by (intro yields_intros w TrueI)
  show "total p_comma" unfolding p_comma_def by (rule *)
qed

lemma total_operand: "total p_operand"
proof -
  have i: "total (pbind p_int (\<lambda>v. preturn (OImm v)))" by (intro yields_intros total_tokens TrueI)
  have w: "total (pbind p_word word_operand)" unfolding word_operand_def by (intro yields_intros total_tokens TrueI)
  show ?thesis
    using i w unfolding yields_def p_operand_def by (auto split: option.splits tok.splits if_splits)
qed

lemma total_reg: "total p_reg" and total_address: "total p_address"
  unfolding p_reg_def p_address_def address_of_def by (intro yields_intros total_tokens total_operand TrueI)+

lemmas total_parts = total_tokens total_operand total_reg total_address

section \<open>The instructions the parser forms\<close>

text \<open>Of the forms the checker does not refuse by itself: a type with a width, a float form.\<close>

definition parsed_form :: "instr \<Rightarrow> bool" where
  "parsed_form i \<longleftrightarrow> flt_form i \<and> (case i of
      Setp _ t _ _ _ \<Rightarrow> t \<noteq> Pred
    | Ld _ t _ _ \<Rightarrow> t \<noteq> Pred
    | St _ t _ _ \<Rightarrow> t \<noteq> Pred
    | Atom _ _ t _ _ _ \<Rightarrow> t \<noteq> Pred
    | _ \<Rightarrow> True)"

lemma set_mod_rnd: "md_rnd (set_mod kind m r) = (if kind = ''rnd'' then Some m else md_rnd r)"
  by (simp add: set_mod_def)

definition rnd_names :: "string set" where
  "rnd_names = {''rn'', ''rz'', ''rm'', ''rp'', ''rni'', ''rzi'', ''rmi'', ''rpi''}"

lemma mod_kind_rnd: "mod_kind rk m = Some ''rnd'' \<Longrightarrow> m \<in> rnd_names"
  by (auto simp: mod_kind_def rnd_names_def Let_def split: if_splits)

lemma rmode_of_names: "s \<in> rnd_names \<Longrightarrow> rmode_of s \<noteq> None"
  by (auto simp: rnd_names_def rmode_of_def rmode_from_name_def)

definition mods_ok :: "mods \<Rightarrow> bool" where
  "mods_ok r \<longleftrightarrow> (\<forall>m. md_rnd r = Some m \<longrightarrow> m \<in> rnd_names)"

lemma float_mods_loop_ok: "float_mods_loop ms rk allow cur r = Inr r' \<Longrightarrow> mods_ok r \<Longrightarrow> mods_ok r'"
proof (induction ms rk allow cur r rule: float_mods_loop.induct)
  case (2 m ms rk allow cur r)
  obtain kind where k: "mod_kind rk m = Some kind" "kind \<in> set allow" "\<not> mod_order kind < cur"
    "float_mods_loop ms rk allow (mod_order kind + 1) (set_mod kind m r) = Inr r'"
    using "2.prems"(1) by (auto split: option.splits if_splits)
  have "mods_ok (set_mod kind m r)"
    using "2.prems"(2) k(1) mod_kind_rnd by (auto simp: mods_ok_def set_mod_rnd)
  then show ?case using 2 k by auto
qed simp

lemma float_mods_ok: "float_mods ms rk allow = Inr r \<Longrightarrow> mods_ok r"
  using float_mods_loop_ok [of ms rk allow 0 no_mods r] by (simp add: float_mods_def mods_ok_def no_mods_def)

lemma mods_rmode: "mods_ok r \<Longrightarrow> md_rnd r = Some s \<Longrightarrow> rmode_of s \<noteq> None"
  by (simp add: mods_ok_def rmode_of_names)

lemma cvt_rnd_of_ok: "mods_ok r \<Longrightarrow> cvt_rnd_of (md_rnd r) \<noteq> None"
  by (auto simp: cvt_rnd_of_def dest: mods_rmode split: option.splits)

lemma float_ty_float: "is_float (float_ty s)"
  by (simp add: float_ty_def is_float_def)

lemma float_operands_form: "is_float t \<Longrightarrow> yields parsed_form (float_operands opc m md t)"
  unfolding float_operands_def by (intro yields_intros total_parts) (simp_all add: parsed_form_def)

lemma float_arith_form: "is_float t \<Longrightarrow> yields parsed_form (float_arith p opc ms t)"
  unfolding float_arith_def
  by (intro yields_intros float_operands_form) (auto dest!: float_mods_ok mods_rmode)

lemma float_setp_form: "is_float t \<Longrightarrow> yields parsed_form (float_setp p rest t)"
  unfolding float_setp_def by (intro yields_intros total_parts) (simp_all add: parsed_form_def)

lemma float_cvt_form: "yields parsed_form (float_cvt p ms dt st)"
  unfolding float_cvt_def
  by (intro yields_intros total_parts) (auto simp: parsed_form_def dest!: float_mods_ok cvt_rnd_of_ok)

lemma float_instr_form: "float_instr p parts = Some m \<Longrightarrow> yields parsed_form m"
  by (auto simp: float_instr_def float_arith_form float_setp_form float_cvt_form float_ty_float
      split: list.splits if_splits option.splits)

lemma p_ty_form: "yields (\<lambda>t. t \<noteq> Pred) (p_ty p s)"
  unfolding p_ty_def by (intro yields_intros) auto

lemmas total_ty = p_ty_form [THEN yields_weaken, of "\<lambda>_. True"]

lemma p_ty_bind [yields_intros]: "(\<And>t. t \<noteq> Pred \<Longrightarrow> yields Q (f t)) \<Longrightarrow> yields Q (pbind (p_ty p s) f)"
  by (rule yields_bind [OF p_ty_form])

lemma stmt_part_forms:
  "yields parsed_form (p_bin p op t)" "yields parsed_form (p_selp p t)"
  "yields parsed_form (p_mad p t)" "yields parsed_form (p_setp p c t)" "yields parsed_form (p_cvt p dt st)"
  "yields parsed_form (p_ld p sp t)" "yields parsed_form (p_st p x t)" "yields parsed_form p_cvta"
  "yields parsed_form (p_atom p x n t)" "yields parsed_form (p_red p x n t)"
  unfolding p_bin_def p_selp_def p_mad_def p_setp_def p_cvt_def p_ld_def p_st_def p_cvta_def p_atom_def p_red_def
  by (intro yields_intros total_parts; simp add: parsed_form_def)+

lemma stmt_instr_form: "yields parsed_form (stmt_instr s parts)"
proof -
  have 1: "yields parsed_form (stmt1 s a)" for a
    unfolding stmt1_def by (intro yields_intros total_parts) (simp_all add: parsed_form_def)
  have 2: "yields parsed_form (stmt2 s a b)" for a b
    unfolding stmt2_def p_unary_def p_bar_def by (intro yields_intros stmt_part_forms total_parts) (simp_all add: parsed_form_def)
  have 3: "yields parsed_form (stmt3 s a b c)" for a b c
    unfolding stmt3_def by (intro yields_intros stmt_part_forms)
  have 4: "yields parsed_form (stmt4 s a b c d)" for a b c d
    unfolding stmt4_def by (intro yields_intros stmt_part_forms)
  show ?thesis using 1 2 3 4 by (auto simp: stmt_instr_def intro: yields_err split: list.split)
qed

lemma total_guard: "total p_guard"
  unfolding p_guard_def by (intro yields_intros total_parts TrueI)

lemma stmt_form: "yields (\<lambda>s. parsed_form (s_instr s)) p_stmt"
proof -
  have i: "yields parsed_form (case float_instr w ws of Some m \<Rightarrow> m | None \<Rightarrow> stmt_instr w ws)" for w ws
    using float_instr_form stmt_instr_form by (cases "float_instr w ws") simp_all
  show ?thesis
    unfolding p_stmt_def by (intro yields_intros total_parts total_guard yields_bind [OF i]) simp
qed

section \<open>Declarations\<close>

lemma total_decl: "total p_reg_decl" "total p_param"
  unfolding p_reg_decl_def p_reg_count_def p_param_def by (intro yields_intros total_parts TrueI)+

definition shared_ok :: "shared_decl \<Rightarrow> bool" where
  "shared_ok d \<longleftrightarrow> sd_alignment d \<noteq> 0"

lemma elem_bytes_pos: "elem_bytes e = Some n \<Longrightarrow> 0 < n"
  by (auto simp: elem_bytes_def split: if_splits)

lemma shared_decl_ok: "yields shared_ok p_shared_decl"
proof -
  have "yields (\<lambda>al. \<forall>a. al = Some a \<longrightarrow> 0 < a)
      (pbind p_int (\<lambda>a. if a \<in> {1, 2, 4, 8, 16, 32, 64, 128, 256} then preturn (Some (nat a)) else p_err (M_align a)))"
    by (intro yields_intros total_parts) auto
  then have al: "yields (\<lambda>al. \<forall>a. al = Some a \<longrightarrow> 0 < a) p_align"
    unfolding yields_def p_align_def by (auto simp: preturn_def)
  have el: "yields (\<lambda>e. elem_bytes e \<noteq> None) p_elem"
    unfolding p_elem_def by (intro yields_intros total_parts) simp
  show ?thesis
    unfolding p_shared_decl_def p_shared_name_def p_shared_count_def Let_def
    by (intro yields_intros total_parts yields_bind [OF al] yields_bind [OF el])
      (auto simp: shared_ok_def sd_alignment_def dest: elem_bytes_pos split: option.splits)
qed

text \<open>The declarations read so far, and what the kernel's tables keep.\<close>

definition decl_in :: "nat \<Rightarrow> nat \<Rightarrow> decl \<Rightarrow> bool" where
  "decl_in r s d = (case d of DReg i \<Rightarrow> i < r | DShared i \<Rightarrow> i < s)"

definition decls_ok :: "decls \<Rightarrow> bool" where
  "decls_ok x = (case x of (regs, shared, ds) \<Rightarrow> list_all shared_ok shared \<and> list_all (decl_in (length regs) (length shared)) ds)"

lemma decl_in_mono: "decl_in r s d \<Longrightarrow> r \<le> r' \<Longrightarrow> s \<le> s' \<Longrightarrow> decl_in r' s' d"
  by (auto simp: decl_in_def split: decl.splits)

lemma decls_ok_reg: "decls_ok (regs, shared, ds) \<Longrightarrow> decls_ok (regs @ [r], shared, ds @ [DReg (length regs)])"
  by (auto simp: decls_ok_def list_all_iff decl_in_def split: decl.splits)

lemma decls_ok_shared: "decls_ok (regs, shared, ds) \<Longrightarrow> shared_ok d \<Longrightarrow> decls_ok (regs, shared @ [d], ds @ [DShared (length shared)])"
  by (auto simp: decls_ok_def list_all_iff decl_in_def split: decl.splits)

lemma p_params_total: "p_params acc p \<noteq> None"
proof (induction acc p rule: p_params.induct)
  case (1 acc p)
  show ?case
    using yields_some [OF total_decl(2)] 1
    by (subst p_params.simps) (auto split: option.split sum.split)
qed

lemma p_decls_ok:
  "decls_ok (regs, shared, ds) \<Longrightarrow> p_decls regs shared ds p \<noteq> None \<and>
    (\<forall>x p'. p_decls regs shared ds p = Some (Inr (x, p')) \<longrightarrow> decls_ok x)"
proof (induction regs shared ds p rule: p_decls.induct)
  case (1 regs shared ds p)
  consider (reg) "p_peek p = Some (TWord ''.reg'')" | (shared) "p_peek p = Some (TWord ''.shared'')"
    | (stop) "p_peek p \<noteq> Some (TWord ''.reg'')" "p_peek p \<noteq> Some (TWord ''.shared'')" by blast
  then show ?case
  proof cases
    case reg
    show ?thesis
    proof (cases "p_reg_decl (p_skip 1 p)")
      case None
      then show ?thesis using yields_some [OF total_decl(1)] by blast
    next
      case (Some r)
      then show ?thesis
        using 1(1) [OF reg Some] decls_ok_reg [OF "1.prems"] reg
        by (cases r) (auto simp: p_decls.simps [of regs shared ds p])
    qed
  next
    case shared
    show ?thesis
    proof (cases "p_shared_decl (p_skip 1 p)")
      case None
      then show ?thesis using yields_some [OF shared_decl_ok] by blast
    next
      case (Some r)
      then show ?thesis
        using 1(2) [OF _ shared Some] decls_ok_shared [OF "1.prems"] shared yieldsD [OF shared_decl_ok, of "p_skip 1 p"]
        by (cases r) (auto simp: p_decls.simps [of regs shared ds p])
    qed
  next
    case stop
    then show ?thesis using "1.prems" by (simp add: p_decls.simps [of regs shared ds p])
  qed
qed

definition body_ok :: "kbody \<Rightarrow> bool" where
  "body_ok x = (case x of (body, labels, lines) \<Rightarrow> length lines = length body
     \<and> list_all (\<lambda>s. parsed_form (s_instr s)) body \<and> (\<forall>(l, n)\<in>set labels. n \<le> length body))"

lemma p_body_ok:
  "body_ok (body, labels, lines) \<Longrightarrow> p_body body labels lines p \<noteq> None \<and>
    (\<forall>x p'. p_body body labels lines p = Some (Inr (x, p')) \<longrightarrow> body_ok x)"
proof (induction body labels lines p rule: p_body.induct)
  case (1 body labels lines p)
  show ?case
  proof (cases "is_punct (CHR ''}'') p")
    case True
    then show ?thesis using "1.prems" by (simp add: p_body.simps [of body labels lines p])
  next
    case close: False
    show ?thesis
    proof (cases "label_at p")
      case (Some w)
      have "body_ok (body, labels @ [(w, length body)], lines)" using "1.prems" by (auto simp: body_ok_def)
      then show ?thesis using 1(2) [OF close Some] close Some by (simp add: p_body.simps [of body labels lines p])
    next
      case lab: None
      show ?thesis
      proof (cases "p_stmt p")
        case None
        then show ?thesis using yields_some [OF stmt_form] by blast
      next
        case (Some r)
        show ?thesis
        proof (cases r)
          case (Inl e)
          then show ?thesis using close lab Some by (simp add: p_body.simps [of body labels lines p])
        next
          case (Inr sq)
          obtain s q where sq: "sq = (s, q)" by (cases sq)
          have "parsed_form (s_instr s)" using yieldsD [OF stmt_form] Some Inr sq by blast
          then have ok: "body_ok (body @ [s], labels, lines @ [p_line p])"
            using "1.prems" by (force simp: body_ok_def)
          have "p_body body labels lines p = p_body (body @ [s]) labels (lines @ [p_line p]) q"
            using close lab Some Inr sq by (simp add: p_body.simps [of body labels lines p])
          then show ?thesis using 1(1) [OF close lab Some Inr sq [symmetric] ok] by simp
        qed
      qed
    qed
  qed
qed

section \<open>The checker does not panic on what the parser forms\<close>

lemma all_checks_None: "all_checks vs = None \<Longrightarrow> None \<in> set vs"
  by (induction vs) (auto split: option.splits sum.splits)

lemma at_w_None: "at_w t f = None \<longleftrightarrow> t = Pred" "None = at_w t f \<longleftrightarrow> t = Pred"
  by (cases t; simp add: at_w_def)+

lemma is_float_not_Pred: "is_float t \<Longrightarrow> t \<noteq> Pred"
  by (auto simp: is_float_def)

lemma cvt_form_not_Pred: "cvt_form dt st rnd \<Longrightarrow> dt \<noteq> Pred \<and> st \<noteq> Pred"
  by (cases dt; cases st; cases rnd) (simp_all add: cvt_form_def is_float_def is_int_def)

lemma types_ok_width:
  assumes "check_instr e i = None" and "types_ok i" and "parsed_form i"
  shows False
proof (cases i)
  case (Bin b t d x y)
  then show ?thesis
    using assms by (cases b) (auto simp: at_w_None ty_arith_def is_bits_def simp del: all_checks.simps dest!: all_checks_None)
next
  case (CvtFlt dt st rnd ftz sat d a)
  then show ?thesis
    using assms cvt_form_not_Pred [of dt st rnd]
    by (auto simp: at_w_None parsed_form_def simp del: all_checks.simps dest!: all_checks_None)
qed (use assms in \<open>auto simp: at_w_None parsed_form_def ty_arith_def is_bits_def is_float_def simp del: all_checks.simps
    dest!: all_checks_None split: if_splits atom_op.splits\<close>)

lemma check_stmt_some: "parsed_form (s_instr s) \<Longrightarrow> check_stmt e s \<noteq> None"
proof
  assume form: "parsed_form (s_instr s)" and none: "check_stmt e s = None"
  show False
  proof (cases "types_ok (s_instr s)")
    case True
    have "check_instr e (s_instr s) = None"
      using all_checks_None [OF none [unfolded check_stmt_def]] by (simp del: all_checks.simps)
    then show False using types_ok_width True form by blast
  next
    case False
    then have "\<exists>v. check_stmt e s = Some v"
      by (cases "case s_guard s of Some g \<Rightarrow> chk_pred e (g_pred g) | None \<Rightarrow> accept")
        (simp_all add: check_stmt_def require_def)
    then show False using none by simp
  qed
qed

lemma check_body_some: "list_all (\<lambda>(s, l). parsed_form (s_instr s)) ss \<Longrightarrow> check_body e ss \<noteq> None"
proof (induction ss)
  case (Cons a ss)
  obtain s l where a: "a = (s, l)" by (cases a)
  have "parsed_form (s_instr s)" using Cons.prems by (simp add: a)
  from check_stmt_some [OF this] obtain v where "check_stmt e s = Some v" by blast
  then show ?case using Cons a by (cases v) auto
qed simp

lemma check_shared_some: "list_all shared_ok ds \<Longrightarrow> check_shared regs params ds seen \<noteq> None"
  by (induction ds arbitrary: seen) (auto simp: shared_ok_def)

lemma check_some:
  assumes "list_all shared_ok (k_shared k)" and "list_all (\<lambda>s. parsed_form (s_instr s)) (k_body k)"
  shows "check k lines \<noteq> None"
proof -
  have "list_all (\<lambda>(s, l). parsed_form (s_instr s)) (zip (k_body k) lines)"
    using assms(2) by (auto simp: list_all_iff dest: set_zip_leftD)
  then have B: "check_body e (zip (k_body k) lines) = None \<Longrightarrow> False" for e
    using check_body_some by blast
  have S: "check_shared regs params (k_shared k) seen = None \<Longrightarrow> False" for regs params seen
    using check_shared_some [OF assms(1)] by blast
  show ?thesis
  proof
    assume "check k lines = None"
    then show False by (auto simp: check_def Let_def split: sum.splits option.splits dest!: B S)
  qed
qed

section \<open>Kernels and modules\<close>

text \<open>What holds of a kernel the parser returns: \<open>check\<close> accepted it, its declarations index its
  tables, its labels stand inside its body.\<close>

definition kernel_ok :: "kernel \<Rightarrow> bool" where
  "kernel_ok k \<longleftrightarrow> (\<exists>lines. checked k lines) \<and> decls_ok (k_regs k, k_shared k, k_decls k)
     \<and> (\<forall>(l, n)\<in>set (k_labels k). n \<le> length (k_body k))"

lemma p_check_ok:
  assumes "decls_ok (k_regs k, k_shared k, k_decls k)" and "body_ok (k_body k, k_labels k, lines)"
  shows "yields kernel_ok (p_check k lines)"
proof -
  have "check k lines \<noteq> None"
    using assms by (intro check_some) (auto simp: decls_ok_def body_ok_def)
  moreover have "kernel_ok k" if "check k lines = Some (Inr ())"
    using assms that by (auto simp: kernel_ok_def checked_def body_ok_def list_all_iff parsed_form_def)
  ultimately show ?thesis
    by (auto simp: yields_def p_check_def split: option.split sum.split)
qed

lemma kernel_parsed: "yields kernel_ok p_kernel"
proof -
  have vis: "total p_visible" by (simp add: yields_def p_visible_def preturn_def)
  have "total (p_params [])" using p_params_total by (simp add: yields_def)
  then have ps: "total p_param_list" unfolding p_param_list_def by (intro yields_intros TrueI)
  have ds: "yields decls_ok (p_decls [] [] [])"
    using p_decls_ok [of "[]" "[]" "[]"] by (simp add: yields_def decls_ok_def)
  have bd: "yields body_ok (p_body [] [] [])"
    using p_body_ok [of "[]" "[]" "[]"] by (simp add: yields_def body_ok_def)
  have fin: "yields kernel_ok (case b of (body, labels, lines) \<Rightarrow>
       p_check \<lparr>k_visible = v, k_name = n, k_params = q, k_regs = regs, k_shared = shared, k_decls = d,
         k_body = body, k_labels = labels\<rparr> lines)"
    if "decls_ok (regs, shared, d)" "body_ok b" for regs shared d b v n q
    using that by (cases b) (auto intro!: p_check_ok)
  have dec: "yields kernel_ok (case x of (regs, shared, d) \<Rightarrow> pbind (p_body [] [] []) (\<lambda>(body, labels, lines).
       p_check \<lparr>k_visible = v, k_name = n, k_params = q, k_regs = regs, k_shared = shared, k_decls = d,
         k_body = body, k_labels = labels\<rparr> lines))" if "decls_ok x" for x v n q
  proof -
    obtain regs shared d where x: "x = (regs, shared, d)" by (cases x)
    show ?thesis unfolding x prod.case using that fin unfolding x by (intro yields_bind [OF bd])
  qed
  show ?thesis
    unfolding p_kernel_def by (intro yields_intros total_tokens vis ps yields_bind [OF ds] dec)
qed

lemma p_kernels_ok:
  "list_all kernel_ok ks \<Longrightarrow> p_kernels ks p \<noteq> None \<and> (\<forall>x p'. p_kernels ks p = Some (Inr (x, p')) \<longrightarrow> list_all kernel_ok x)"
proof (induction ks p rule: p_kernels.induct)
  case (1 ks p)
  show ?case
  proof (cases "p_peek p = None")
    case True
    then show ?thesis using "1.prems" by (simp add: p_kernels.simps [of ks p])
  next
    case more: False
    show ?thesis
    proof (cases "p_kernel p")
      case None
      then show ?thesis using yields_some [OF kernel_parsed] by blast
    next
      case (Some r)
      then show ?thesis
        using 1(1) [OF more Some] more "1.prems" yieldsD [OF kernel_parsed, of p]
        by (cases r) (auto simp: p_kernels.simps [of ks p])
    qed
  qed
qed

definition module_ok :: "ptx_module \<Rightarrow> bool" where
  "module_ok m \<longleftrightarrow> m_address_size m = 64 \<and> m_kernels m \<noteq> [] \<and> list_all kernel_ok (m_kernels m)"

lemma module_parsed: "yields module_ok p_module"
proof -
  have v: "total p_version" unfolding p_version_def by (intro yields_intros total_next TrueI)
  have ks: "yields (list_all kernel_ok) (p_kernels [])" using p_kernels_ok [of "[]"] by (simp add: yields_def)
  show ?thesis
    unfolding p_module_def
    by (intro yields_intros total_tokens v yields_bind [OF ks]) (simp add: module_ok_def)
qed

lemma parse_module_ok: "parse_module s \<noteq> None \<and> (\<forall>m. parse_module s = Some (Inr m) \<longrightarrow> module_ok m)"
proof -
  have P: "p_module p = None \<Longrightarrow> False" for p using yields_some [OF module_parsed] by blast
  show ?thesis
    by (auto simp: parse_module_def split: sum.splits option.splits prod.splits dest!: P dest: yieldsD [OF module_parsed])
qed

section \<open>Printing a parsed module\<close>

lemma those_some: "(\<And>x. x \<in> set xs \<Longrightarrow> x \<noteq> None) \<Longrightarrow> those xs \<noteq> None"
proof (induction xs)
  case (Cons x xs)
  then obtain y where "x = Some y" by fastforce
  then show ?case using Cons by auto
qed simp

lemma print_kernel_some: "kernel_ok k \<Longrightarrow> print_kernel k \<noteq> None"
proof -
  assume k: "kernel_ok k"
  have "print_decl k d \<noteq> None" if "d \<in> set (k_decls k)" for d
    using k that by (cases d) (auto simp: kernel_ok_def decls_ok_def list_all_iff decl_in_def)
  then show ?thesis using those_some [of "map (print_decl k) (k_decls k)"] by (auto simp: print_kernel_def)
qed

lemma print_module_some: "module_ok m \<Longrightarrow> print_module m \<noteq> None"
  using those_some [of "map print_kernel (m_kernels m)"] print_kernel_some
  by (auto simp: print_module_def module_ok_def list_all_iff)

lemma check_printed_some: "check_printed s printed m \<noteq> None"
proof -
  have "parse_module printed = None \<longleftrightarrow> False" using parse_module_ok by blast
  then show ?thesis by (auto simp: check_printed_def split: option.splits sum.splits)
qed

lemma roundtrip_some: "roundtrip s \<noteq> None"
proof -
  obtain r where r: "parse_module s = Some r" and ok: "r = Inr m \<Longrightarrow> module_ok m" for m
    using parse_module_ok [of s] by blast
  show ?thesis
  proof (cases r)
    case (Inr m)
    then obtain printed where "print_module m = Some printed" using print_module_some ok by blast
    then show ?thesis using check_printed_some r Inr by (simp add: roundtrip_def)
  qed (use r in \<open>simp add: roundtrip_def\<close>)
qed

end
