(* ===== verification/Ptx_Props.thy ===== *)
theory Ptx_Props
  imports Ptx_Parse_Ok
begin

text \<open>
  The properties of the memory, the interpreter, the runs, the parser and the printer of
  \<open>crates/e5r-ptx\<close>, each a short proof over the component's lemmas.
\<close>

section \<open>A kernel to apply the properties to\<close>

definition demo_source :: string where
  "demo_source = ''.version 7.0 .target sm_70 .address_size 64 .visible .entry k(.param .u64 p) { .reg .b64 %a; .reg .u32 %r<2>; ld.param.u64 %a, [p]; mov.u32 %r0, 7; L: add.u32 %r1, %r0, %r0; st.global.u32 [%a+4], %r1; ret; }''"

definition demo_kernel :: kernel where
  "demo_kernel = \<lparr>k_visible = True, k_name = ''k'', k_params = [(''p'', U64)],
     k_regs = [\<lparr>rd_ty = B64, rd_name = ''%a'', rd_count = None\<rparr>, \<lparr>rd_ty = U32, rd_name = ''%r'', rd_count = Some 2\<rparr>],
     k_shared = [], k_decls = [DReg 0, DReg 1],
     k_body = [\<lparr>s_guard = None, s_instr = Ld Param U64 ''%a'' (AParam ''p'' None)\<rparr>,
       \<lparr>s_guard = None, s_instr = Mov U32 ''%r0'' (OImm 7)\<rparr>,
       \<lparr>s_guard = None, s_instr = Bin BAdd U32 ''%r1'' (OReg ''%r0'') (OReg ''%r0'')\<rparr>,
       \<lparr>s_guard = None, s_instr = St Global U32 (AReg ''%a'' (Some 4)) (OReg ''%r1'')\<rparr>,
       \<lparr>s_guard = None, s_instr = Ret\<rparr>],
     k_labels = [(''L'', 2)]\<rparr>"

definition demo_module :: ptx_module where
  "demo_module = \<lparr>m_version = ''7.0'', m_target = ''sm_70'', m_address_size = 64, m_kernels = [demo_kernel]\<rparr>"

definition demo_launch :: launch where
  "demo_launch = \<lparr>l_grid = \<lparr>d_x = 1, d_y = 1, d_z = 1\<rparr>, l_block = \<lparr>d_x = 2, d_y = 1, d_z = 1\<rparr>,
     l_params = [''p'' \<mapsto> 64], l_sym = Map.empty, l_alloc = [\<lparr>r_base = 64, r_size = 8\<rparr>]\<rparr>"

definition demo_ctx :: ctx where
  "demo_ctx = launch_ctx demo_launch \<lparr>d_x = 0, d_y = 0, d_z = 0\<rparr> \<lparr>d_x = 0, d_y = 0, d_z = 0\<rparr>"

definition demo_allocs :: allocs where "demo_allocs = launch_allocs demo_launch demo_kernel"

lemma demo_parse: "parse_module demo_source = Some (Inr demo_module)"
  by code_simp

lemma demo_kernel_ok: "kernel_ok demo_kernel"
  using parse_module_ok [of demo_source] by (simp add: demo_parse module_ok_def demo_module_def)

lemma demo_checked: "\<exists>lines. checked demo_kernel lines"
  using demo_kernel_ok by (simp add: kernel_ok_def)

lemma demo_cta_size: "cta_size (l_block demo_launch) = Some 2"
  by (simp add: demo_launch_def cta_size_def Let_def)

lemma demo_grid: "\<exists>e g' ev. run_grid demo_kernel demo_launch g sh fuel = Some (e, g', ev)"
  using demo_checked run_grid_good [OF _ demo_cta_size] by blast

lemma demo_run: "\<exists>e acc cfg'. run_until_wait demo_kernel demo_allocs demo_ctx (tstate_default, g, sh) fuel = Some (e, acc, cfg')"
proof -
  obtain lines where "checked demo_kernel lines" using demo_checked by blast
  from run_from_good [OF this, of "(tstate_default, g, sh)"] show ?thesis
    unfolding run_until_wait_def by (metis regs_ok_default fst_conv)
qed

section \<open>Memory\<close>

text \<open>A read of up to eight bytes returns the little-endian value last written at that address, cut
  to its width; a write changes no byte outside its range, and a read of other bytes is unchanged.
  Addresses wrap around at \<open>2 ^ 64\<close> as the code's \<open>wrapping_add\<close> does.\<close>

theorem read_after_write:
  assumes "n \<le> 8" and "k \<le> 8"
  shows "mem_rd (mem_wr m a n v) a n = take_bit (8 * n) v
    \<and> ((\<forall>i<k. \<not> in_range a n (b + of_nat i)) \<longrightarrow> mem_rd (mem_wr m a n v) b k = mem_rd m b k)"
  using mem.rd_wr_same [OF assms(1)] mem.rd_wr_other [OF assms] by blast

theorem read_after_write_witness:
  "mem_rd (mem_wr mem_default 0xFFFFFFFFFFFFFFFE 4 0x11223344) 0xFFFFFFFFFFFFFFFE 4 = take_bit 32 0x11223344"
  using read_after_write [of 4 4 mem_default "0xFFFFFFFFFFFFFFFE" "0x11223344" 0] by simp

fun placed_from :: "(string \<rightharpoonup> u64) \<Rightarrow> nat \<Rightarrow> shared_decl list \<Rightarrow> bool" where
  "placed_from pl start [] \<longleftrightarrow> True"
| "placed_from pl start (d # ds) \<longleftrightarrow> (\<exists>b. pl (sd_name d) = Some b \<and> start \<le> unat b \<and> unat b mod sd_alignment d = 0
     \<and> unat b + sd_size d < 2 ^ 64 \<and> placed_from pl (unat b + sd_size d) ds)"

lemma placed_from_upd: "n \<notin> sd_name ` set ds \<Longrightarrow> placed_from (pl(n \<mapsto> b)) start ds = placed_from pl start ds"
  by (induction ds arbitrary: start) auto

lemma layout_loop_other: "layout_loop ds cur pl = Some pl' \<Longrightarrow> n \<notin> sd_name ` set ds \<Longrightarrow> pl' n = pl n"
  by (induction ds arbitrary: cur pl) (auto simp: Let_def split: if_splits)

lemma layout_loop_placed: "layout_loop ds cur pl = Some pl' \<Longrightarrow> distinct (map sd_name ds) \<Longrightarrow> placed_from pl' cur ds"
proof (induction ds arbitrary: cur pl)
  case (Cons d ds)
  define a where "a = sd_alignment d"
  define b where "b = (cur + a - 1) div a * a"
  have a: "0 < a" and b: "b + sd_size d < 2 ^ 64"
    and loop: "layout_loop ds (b + sd_size d) (pl(sd_name d \<mapsto> of_nat b)) = Some pl'"
    using Cons.prems(1) by (simp_all add: a_def [symmetric] b_def Let_def del: of_nat_mult split: if_splits)
  have "cur \<le> b"
  proof -
    have "cur + a - 1 = b + (cur + a - 1) mod a" by (simp add: b_def)
    moreover have "(cur + a - 1) mod a < a" using a by simp
    ultimately show ?thesis by linarith
  qed
  moreover have "pl' (sd_name d) = Some (of_nat b)"
    using layout_loop_other [OF loop, of "sd_name d"] Cons.prems(2) by simp
  moreover have "unat (of_nat b :: u64) = b" using b by (simp add: unat_of_nat_small)
  ultimately show ?case
    using Cons.IH [OF loop] Cons.prems(2) b by (simp add: a_def [symmetric]) (simp add: b_def)
qed simp

text \<open>\<open>layout\<close> places the shared variables of a kernel one after the other: each at or after the
  start, aligned as declared, below \<open>2 ^ 64\<close>, and no two overlap.\<close>

theorem layout_placed:
  assumes "layout k start = Some pl" and "distinct (map sd_name (k_shared k))"
  shows "placed_from pl start (k_shared k)"
  using assms layout_loop_placed unfolding layout_def by blast

theorem layout_placed_witness:
  "\<exists>pl. layout \<lparr>k_visible = True, k_name = ''k'', k_params = [], k_regs = [],
      k_shared = [\<lparr>sd_align = None, sd_elem = ''b8'', sd_name = ''a'', sd_count = Some 3\<rparr>,
        \<lparr>sd_align = Some 16, sd_elem = ''b32'', sd_name = ''b'', sd_count = None\<rparr>],
      k_decls = [], k_body = [], k_labels = []\<rparr> 5 = Some pl
    \<and> placed_from pl 5 [\<lparr>sd_align = None, sd_elem = ''b8'', sd_name = ''a'', sd_count = Some 3\<rparr>,
        \<lparr>sd_align = Some 16, sd_elem = ''b32'', sd_name = ''b'', sd_count = None\<rparr>]"
proof -
  let ?k = "\<lparr>k_visible = True, k_name = ''k'', k_params = [], k_regs = [],
      k_shared = [\<lparr>sd_align = None, sd_elem = ''b8'', sd_name = ''a'', sd_count = Some 3\<rparr>,
        \<lparr>sd_align = Some 16, sd_elem = ''b32'', sd_name = ''b'', sd_count = None\<rparr>],
      k_decls = [], k_body = [], k_labels = []\<rparr>"
  have "\<exists>pl. layout ?k 5 = Some pl" by (simp add: layout_def sd_alignment_def sd_size_def elem_bytes_def)
  then show ?thesis using layout_placed [of ?k 5] by auto
qed

section \<open>Steps and runs\<close>

text \<open>One step reads and writes memory as it reports: a step that reports an access touches only
  that space, at an address that is aligned and inside an allocation, and only the bytes of the
  access; every other step, and every fault, leaves both memories unchanged.\<close>

theorem step_reports_access:
  assumes "step k al c cfg = Some (r, cfg')"
  shows "case r of
      ROk (Some a) \<Rightarrow> access_ok (al_of al (a_sp a)) (a_addr a) (a_size a) \<and> a_size a \<in> {4, 8}
        \<and> (\<forall>x. x \<noteq> a_sp a \<longrightarrow> mem_of x cfg' = mem_of x cfg)
        \<and> (if a_kind a = Read then mem_of (a_sp a) cfg' = mem_of (a_sp a) cfg
           else \<forall>x. \<not> in_range (a_addr a) (a_size a) x \<longrightarrow> mem_get (mem_of (a_sp a) cfg') x = mem_get (mem_of (a_sp a) cfg) x)
    | _ \<Rightarrow> snd cfg' = snd cfg"
  using step_frame [OF assms] unfolding frame_ok_def .

theorem step_reports_access_witness:
  "\<exists>r cfg'. step demo_kernel demo_allocs demo_ctx (tstate_default\<lparr>t_pc := 3, t_r := [''%a'' \<mapsto> 64]\<rparr>, mem_default, mem_default) = Some (r, cfg')
    \<and> (case r of ROk (Some a) \<Rightarrow> access_ok (al_of demo_allocs (a_sp a)) (a_addr a) (a_size a) \<and> a_addr a = 68 \<and> a_kind a = Write
         \<and> (\<forall>x. \<not> in_range (a_addr a) (a_size a) x \<longrightarrow> mem_get (mem_of SpGlobal cfg') x = 0)
       | _ \<Rightarrow> False)"
proof -
  let ?s = "tstate_default\<lparr>t_pc := 3, t_r := [''%a'' \<mapsto> 64]\<rparr>"
  define cfg' where "cfg' = (t_next ?s, mem_wr mem_default 68 4 (t_op ?s demo_ctx (OReg ''%r1'')), mem_default)"
  have st: "step demo_kernel demo_allocs demo_ctx (?s, mem_default, mem_default)
      = Some (ROk (Some \<lparr>a_sp = SpGlobal, a_addr = 68, a_size = 4, a_kind = Write\<rparr>), cfg')"
    by (simp add: step_def demo_kernel_def exec_st_def t_reg_def imm_def access_ok_def al_of_def demo_allocs_def
        launch_allocs_def demo_launch_def width_def put_mem_def mem_of_def cfg'_def Let_def)
  show ?thesis
    using step_reports_access [OF st] st by (simp add: mem_of_def mem_get_def mem_default_def)
qed

text \<open>Why a step may fault, said without the interpreter's own test: the program counter is past the
  body, or the instruction at the program counter loads, stores or updates \<open>n\<close> bytes at an address
  that is no multiple of \<open>n\<close> or whose bytes lie in no single allocation of the space.\<close>

definition legal_access :: "region list \<Rightarrow> u64 \<Rightarrow> nat \<Rightarrow> bool" where
  "legal_access rs a n \<longleftrightarrow> n dvd unat a
     \<and> (\<exists>r \<in> set rs. {unat a ..< unat a + n} \<subseteq> {unat (r_base r) ..< unat (r_base r) + r_size r})"

fun mem_operand :: "instr \<Rightarrow> (space \<times> ty \<times> address) option" where
  "mem_operand (Ld x t d a) = Some (x, t, a)"
| "mem_operand (St x t a v) = Some (x, t, a)"
| "mem_operand (Atom x p t d a b) = Some (x, t, a)"
| "mem_operand (Cas x t d a b e) = Some (x, t, a)"
| "mem_operand (Red x p t a b) = Some (x, t, a)"
| "mem_operand _ = None"

definition illegal_here :: "kernel \<Rightarrow> allocs \<Rightarrow> ctx \<Rightarrow> tstate \<Rightarrow> nat \<Rightarrow> sp \<Rightarrow> u64 \<Rightarrow> bool" where
  "illegal_here k al c s n y a \<longleftrightarrow> t_pc s < length (k_body k)
     \<and> (\<exists>x t ad. mem_operand (s_instr (k_body k ! t_pc s)) = Some (x, t, ad)
          \<and> data_addr c s x ad = Some (y, a) \<and> n = width t div 8 \<and> \<not> legal_access (al_of al y) a n)"

definition fault_reason :: "kernel \<Rightarrow> allocs \<Rightarrow> ctx \<Rightarrow> tstate \<Rightarrow> fault \<Rightarrow> bool" where
  "fault_reason k al c s f \<longleftrightarrow> (case f of
      Fault_pc p \<Rightarrow> p = t_pc s \<and> length (k_body k) \<le> p
    | Fault_load n y a \<Rightarrow> illegal_here k al c s n y a
    | Fault_store n y a \<Rightarrow> illegal_here k al c s n y a
    | Fault_atomic n y a \<Rightarrow> illegal_here k al c s n y a
    | _ \<Rightarrow> False)"

lemma width_cases: "width t \<in> {32, 64}"
  by (cases t) (simp_all add: width_def)

lemma access_ok_legal: "access_ok rs a (width t div 8) = legal_access rs a (width t div 8)"
  using width_cases [of t] by (auto simp: access_ok_def legal_access_def list_ex_iff dvd_eq_mod_eq_0)

lemma exec_int_fault: "exec_int c s i = Inl f \<Longrightarrow> \<not> benign (RFault f)"
  by (cases i) (auto simp: Let_def split: option.splits)

lemma exec_flt_fault: "exec_flt c s i = Some (RFault f, s') \<Longrightarrow> \<not> benign (RFault f)"
  by (cases i) (auto simp: set_fres_def split: option.splits)

lemma exec_fault_reason:
  assumes "exec k al c i (s, g, sh) = Some (RFault f, cfg')" and "benign (RFault f)"
    and pc: "t_pc s < length (k_body k)" "s_instr (k_body k ! t_pc s) = i"
  shows "fault_reason k al c s f"
proof (cases "mem_operand i")
  case None
  have "\<not> benign (RFault f)"
    using None assms(1) exec_int_fault [of c s i f] exec_flt_fault [of c s i f]
    by (cases i) (auto simp del: exec_int.simps exec_flt.simps split: option.splits sum.splits if_splits)
  then show ?thesis using assms(2) by simp
next
  case (Some m)
  then show ?thesis using assms
    by (cases i; cases f) (auto simp: exec_ld_def exec_st_def exec_rmw_def fault_reason_def illegal_here_def access_ok_legal Let_def
      split: if_splits option.splits address.splits)
qed

lemma step_fault_reason:
  assumes "step k al c (s, g, sh) = Some (RFault f, cfg')" and "benign (RFault f)"
  shows "fault_reason k al c s f"
proof (cases "length (k_body k) \<le> t_pc s")
  case True
  then have "f = Fault_pc (t_pc s)" using assms(1) by (simp add: step_def)
  then show ?thesis using True by (simp add: fault_reason_def)
next
  case False
  then show ?thesis
    using assms exec_fault_reason [of k al c _ s g sh f cfg'] by (auto simp: step_def Let_def split: if_splits)
qed

text \<open>C3: a step of a checked kernel does not panic, keeps every declared register inside its width, and
  faults only when the program counter is past the body or the instruction there accesses memory at
  an address that is misaligned or not inside an allocation (\<open>fault_reason\<close>): no access that is
  aligned and inside an allocation faults.\<close>

theorem checked_step_progress:
  assumes "checked k lines" and "regs_ok (ce_regs (kernel_env k)) (fst cfg)"
  shows "\<exists>r cfg'. step k al c cfg = Some (r, cfg') \<and> regs_ok (ce_regs (kernel_env k)) (fst cfg')
    \<and> (case r of RFault f \<Rightarrow> fault_reason k al c (fst cfg) f | _ \<Rightarrow> True)"
  using step_good [OF assms, of al c] step_fault_reason [of k al c "fst cfg" "fst (snd cfg)" "snd (snd cfg)"]
  by (auto simp: good_result_def split: option.splits res.splits)

theorem checked_step_progress_witness:
  "step demo_kernel demo_allocs demo_ctx (tstate_default\<lparr>t_pc := 3, t_r := [''%a'' \<mapsto> 66]\<rparr>, mem_default, mem_default)
      = Some (RFault (Fault_store 4 SpGlobal 70), tstate_default\<lparr>t_pc := 3, t_r := [''%a'' \<mapsto> 66]\<rparr>, mem_default, mem_default)
    \<and> fault_reason demo_kernel demo_allocs demo_ctx (tstate_default\<lparr>t_pc := 3, t_r := [''%a'' \<mapsto> 66]\<rparr>) (Fault_store 4 SpGlobal 70)
    \<and> (\<exists>r cfg'. step demo_kernel demo_allocs demo_ctx (tstate_default, mem_default, mem_default) = Some (r, cfg')
         \<and> regs_ok (ce_regs (kernel_env demo_kernel)) (fst cfg'))"
proof -
  let ?s = "tstate_default\<lparr>t_pc := 3, t_r := [''%a'' \<mapsto> 66]\<rparr>"
  obtain lines where lines: "checked demo_kernel lines" using demo_checked by blast
  have st: "step demo_kernel demo_allocs demo_ctx (?s, mem_default, mem_default)
      = Some (RFault (Fault_store 4 SpGlobal 70), ?s, mem_default, mem_default)"
    by (simp add: step_def demo_kernel_def exec_st_def t_reg_def imm_def access_ok_def al_of_def demo_allocs_def
        launch_allocs_def demo_launch_def width_def Let_def)
  have env: "ce_regs (kernel_env demo_kernel) ''%a'' = Some B64" by code_simp
  have "regs_ok (ce_regs (kernel_env demo_kernel)) ?s"
    using env by (auto simp: regs_ok_def t_reg_def tstate_default_def vfits_def vfits_64)
  from checked_step_progress [OF lines, of "(?s, mem_default, mem_default)" demo_allocs demo_ctx] this st
  show ?thesis
    using checked_step_progress [OF lines, of "(tstate_default, mem_default, mem_default)" demo_allocs demo_ctx]
    by (auto simp: regs_ok_default)
qed

text \<open>C23: \<open>run_until_wait\<close> is an execution of the step relation followed by one step that waits, halts or
  faults (none when the fuel is spent); its log holds the accesses of the execution in order.\<close>

theorem run_is_execution:
  assumes "run_until_wait k al c cfg fuel = Some (e, acc, cfg')"
  shows "\<exists>as mid. steps (tstep k al c) cfg as mid \<and> run_stop k al c e mid cfg' \<and> map snd acc = List.map_filter id as"
  using run_from_steps [of k al c cfg 0 fuel "[]" e acc cfg'] assms by (simp add: run_until_wait_def)

theorem run_is_execution_witness:
  "\<exists>e acc cfg' as mid. run_until_wait demo_kernel demo_allocs demo_ctx (tstate_default, mem_default, mem_default) 9 = Some (e, acc, cfg')
    \<and> steps (tstep demo_kernel demo_allocs demo_ctx) (tstate_default, mem_default, mem_default) as mid
    \<and> run_stop demo_kernel demo_allocs demo_ctx e mid cfg' \<and> map snd acc = List.map_filter id as"
proof -
  obtain e acc cfg' where run: "run_until_wait demo_kernel demo_allocs demo_ctx (tstate_default, mem_default, mem_default) 9 = Some (e, acc, cfg')"
    using demo_run by blast
  show ?thesis using run_is_execution [OF run] run by blast
qed

lemma run_from_more: "run_from k al c cfg i n acc = Some (e, acc', cfg') \<Longrightarrow> e \<noteq> EOutOfFuel \<Longrightarrow>
  run_from k al c cfg i (n + m) acc = Some (e, acc', cfg')"
proof (induction n arbitrary: cfg i acc)
  case (Suc n)
  obtain r cfg1 where st: "step k al c cfg = Some (r, cfg1)"
    using Suc.prems by (cases "step k al c cfg") auto
  show ?case using Suc st by (cases r) auto
qed simp

text \<open>The fuel does not change what a run does: a run that ended by waiting, halting or faulting ends
  the same way, with the same log and state, under any larger fuel.\<close>

theorem fuel_monotone:
  assumes "run_until_wait k al c cfg n = Some (e, acc, cfg')" and "e \<noteq> EOutOfFuel"
  shows "run_until_wait k al c cfg (n + m) = Some (e, acc, cfg')"
  using assms run_from_more unfolding run_until_wait_def by blast

theorem fuel_monotone_witness:
  "\<exists>acc cfg'. run_until_wait demo_kernel demo_allocs demo_ctx (tstate_default\<lparr>t_pc := 4\<rparr>, mem_default, mem_default) (1 + 7)
    = Some (EHalted 0, acc, cfg')"
proof -
  have "run_until_wait demo_kernel demo_allocs demo_ctx (tstate_default\<lparr>t_pc := 4\<rparr>, mem_default, mem_default) 1
      = Some (EHalted 0, [], (tstate_default\<lparr>t_pc := 4\<rparr>, mem_default, mem_default))"
    by (simp add: run_until_wait_def step_def demo_kernel_def)
  from fuel_monotone [OF this, of 7] show ?thesis by auto
qed

text \<open>C2: \<open>run_grid\<close> is memory safe for every kernel: outside the global allocations the memory is
  unchanged, and every logged access is aligned and inside an allocation of its space.\<close>

theorem launch_memory_safe:
  assumes "run_grid k l g sh0 fuel = Some (e, g', ev)"
  shows "only_inside (l_alloc l) g g' \<and> events_inside (launch_allocs l k) ev"
  using run_grid_safe [OF assms] by blast

theorem launch_memory_safe_witness:
  "\<exists>e g' ev. run_grid demo_kernel demo_launch mem_default mem_default 100 = Some (e, g', ev)
    \<and> only_inside [\<lparr>r_base = 64, r_size = 8\<rparr>] mem_default g' \<and> events_inside demo_allocs ev"
proof -
  obtain e g' ev where run: "run_grid demo_kernel demo_launch mem_default mem_default 100 = Some (e, g', ev)"
    using demo_grid by blast
  show ?thesis using launch_memory_safe [OF run] run by (auto simp: demo_launch_def demo_allocs_def)
qed

section \<open>Parsing and printing\<close>

text \<open>C4: \<open>parse_module\<close> never panics, and a module it returns is for 64-bit addresses, has a kernel, and
  consists of kernels that \<open>check\<close> accepted, whose declarations index their tables and whose labels
  stand inside the body.\<close>

theorem parse_module_sound:
  "case parse_module s of None \<Rightarrow> False | Some (Inl e) \<Rightarrow> True | Some (Inr m) \<Rightarrow> module_ok m"
  using parse_module_ok [of s] by (auto split: option.split sum.split)

text \<open>C24: \<open>roundtrip\<close> never panics; it accepts exactly the texts that parse, whose canonical printing has
  the same tokens and parses to the same module, and it accepts the printing of what it accepted.\<close>

theorem roundtrip_sound:
  "roundtrip s \<noteq> None \<and>
   (roundtrip s = Some (Inr m) \<longleftrightarrow> parse_module s = Some (Inr m) \<and> (\<exists>printed a b. print_module m = Some printed
      \<and> parse_module printed = Some (Inr m) \<and> roundtrip printed = Some (Inr m)
      \<and> lex s = Inr a \<and> lex printed = Inr b \<and> toks_of a = toks_of b))"
proof -
  have again: "roundtrip printed = Some (Inr m)"
    if "print_module m = Some printed" "parse_module printed = Some (Inr m)" "lex printed = Inr b" for printed b
    using that roundtrip_accepts [of printed m] by blast
  show ?thesis using roundtrip_some [of s] roundtrip_accepts [of s m] again by fast
qed

text \<open>An integer the printer writes is the integer the lexer reads, for every value an \<open>i128\<close> can
  have without its sign.\<close>

theorem int_literal_roundtrip:
  assumes "n < 2 ^ 127"
  shows "int_value (show_nat n) = Some (int n) \<and> number_tok (show_nat n) = TInt (int n)"
  using show_nat_int [OF assms] show_nat_tok [OF assms] by blast

theorem int_literal_roundtrip_witness: "number_tok (show_nat 4096) = TInt 4096"
  using int_literal_roundtrip [of 4096] by simp

end
