(* ===== verification/Core_Addr.thy ===== *)
theory Core_Addr
  imports Ptx_Num
begin

text \<open>
  Addresses, ranges and errors of \<open>crates/e5r-core\<close>: \<open>addr.rs\<close>, \<open>error.rs\<close> with the text of its
  messages, and the byte order of \<open>arch.rs\<close>. A range is related to the set of addresses it covers.
\<close>

section \<open>Numbers in messages\<close>

text \<open>\<open>{:#x}\<close>, with lower-case digits.\<close>

definition to_ascii_lower :: "char \<Rightarrow> char" where
  "to_ascii_lower c = (if 65 \<le> char_code c \<and> char_code c \<le> 90 then char_of (char_code c + 32) else c)"

definition show_hex :: "nat \<Rightarrow> string" where
  "show_hex n = ''0x'' @ map to_ascii_lower (show_radix 16 n)"

definition addr_display :: "u64 \<Rightarrow> string" where "addr_display a = show_hex (unat a)"

section \<open>Errors and byte order\<close>

datatype core_error =
    Out_of_bounds string nat nat nat
  | Bad_field string nat string
  | Not_recognized string
  | Unsupported string
  | Unmapped u64
  | Cap_exceeded string nat nat
  | Inconsistent string
  | Io string string

definition is_not_recognized :: "core_error \<Rightarrow> bool" where
  "is_not_recognized e \<longleftrightarrow> (case e of Not_recognized _ \<Rightarrow> True | _ \<Rightarrow> False)"

fun error_display :: "core_error \<Rightarrow> string" where
  "error_display (Out_of_bounds what offset len available) =
     what @ '': read of '' @ show_hex len @ '' bytes at offset '' @ show_hex offset @ '' runs past the end ('' @ show_hex available @ '' bytes available)''"
| "error_display (Bad_field field v reason) = field @ '' is '' @ show_hex v @ '', which '' @ reason"
| "error_display (Not_recognized expected) = ''not a '' @ expected"
| "error_display (Unsupported what) = ''unsupported: '' @ what"
| "error_display (Unmapped a) = ''address '' @ addr_display a @ '' is not mapped''"
| "error_display (Cap_exceeded what requested limit) = what @ '': file asks for '' @ show_nat requested @ '', limit is ''
     @ show_nat limit @ ''. Raise it if the file is genuinely this large.''"
| "error_display (Inconsistent detail) = ''inconsistent: '' @ detail"
| "error_display (Io what detail) = what @ '': '' @ detail"

type_synonym 'a core_result = "core_error + 'a"

definition caps_check :: "string \<Rightarrow> nat \<Rightarrow> nat \<Rightarrow> unit core_result" where
  "caps_check what requested limit = (if requested > limit then Inl (Cap_exceeded what requested limit) else Inr ())"

datatype endian = Little | Big_endian

section \<open>Checked arithmetic\<close>

definition u64_checked_add :: "u64 \<Rightarrow> u64 \<Rightarrow> u64 option" where
  "u64_checked_add x y = (if unat x + unat y < 2 ^ 64 then Some (x + y) else None)"

definition u64_checked_sub :: "u64 \<Rightarrow> u64 \<Rightarrow> u64 option" where
  "u64_checked_sub x y = (if y \<le> x then Some (x - y) else None)"

lemma u64_checked_add_Some: "u64_checked_add x y = Some z \<longleftrightarrow> unat z = unat x + unat y"
proof
  assume "u64_checked_add x y = Some z"
  then show "unat z = unat x + unat y"
    by (auto simp: u64_checked_add_def unat_add_small split: if_splits)
next
  assume z: "unat z = unat x + unat y"
  then have "unat x + unat y < 2 ^ 64" using unat_lt_exp [of z] by simp
  moreover from this z have "z = x + y" by (simp add: word_eq_iff_unat unat_add_small)
  ultimately show "u64_checked_add x y = Some z" by (simp add: u64_checked_add_def)
qed

lemma u64_checked_sub_Some: "u64_checked_sub x y = Some z \<longleftrightarrow> unat x = unat y + unat z"
proof
  assume "u64_checked_sub x y = Some z"
  then show "unat x = unat y + unat z"
    by (auto simp: u64_checked_sub_def unat_sub word_le_nat_alt split: if_splits)
next
  assume x: "unat x = unat y + unat z"
  then have "y \<le> x" by (simp add: word_le_nat_alt)
  moreover from this x have "x - y = z" by (simp add: word_eq_iff_unat unat_sub)
  ultimately show "u64_checked_sub x y = Some z" by (simp add: u64_checked_sub_def)
qed

section \<open>Addresses\<close>

type_synonym addr = u64

definition wrapping_offset :: "addr \<Rightarrow> u64 \<Rightarrow> addr" where
  "wrapping_offset a delta = a + delta"

definition distance_to :: "addr \<Rightarrow> addr \<Rightarrow> u64 option" where
  "distance_to a b = u64_checked_sub b a"

text \<open>The debug assertion that the alignment is a power of two is a panic.\<close>

definition is_power_of_two :: "u64 \<Rightarrow> bool" where
  "is_power_of_two x \<longleftrightarrow> list_ex (\<lambda>n. x = push_bit n 1) [0..<64]"

definition align_down :: "addr \<Rightarrow> u64 \<Rightarrow> addr panics" where
  "align_down a align = (if is_power_of_two align then Some (a AND NOT (align - 1)) else None)"

definition align_up :: "addr \<Rightarrow> u64 \<Rightarrow> addr option panics" where
  "align_up a align = (if is_power_of_two align
     then Some (map_option (\<lambda>v. v AND NOT (align - 1)) (u64_checked_add a (align - 1))) else None)"

section \<open>Ranges\<close>

record addr_range =
  ar_start :: addr
  ar_end :: addr

definition range_new :: "addr \<Rightarrow> addr \<Rightarrow> addr_range option" where
  "range_new s e = (if e < s then None else Some \<lparr>ar_start = s, ar_end = e\<rparr>)"

definition range_sized :: "addr \<Rightarrow> u64 \<Rightarrow> addr_range option" where
  "range_sized s len = map_option (\<lambda>e. \<lparr>ar_start = s, ar_end = e\<rparr>) (u64_checked_add s len)"

definition range_empty_at :: "addr \<Rightarrow> addr_range" where
  "range_empty_at a = \<lparr>ar_start = a, ar_end = a\<rparr>"

definition range_len :: "addr_range \<Rightarrow> u64" where
  "range_len r = ar_end r - ar_start r"

definition range_is_empty :: "addr_range \<Rightarrow> bool" where
  "range_is_empty r \<longleftrightarrow> ar_start r = ar_end r"

definition range_contains :: "addr_range \<Rightarrow> addr \<Rightarrow> bool" where
  "range_contains r a \<longleftrightarrow> a \<ge> ar_start r \<and> a < ar_end r"

definition contains_range :: "addr_range \<Rightarrow> addr_range \<Rightarrow> bool" where
  "contains_range r q \<longleftrightarrow> ar_start q \<ge> ar_start r \<and> ar_end q \<le> ar_end r"

definition range_overlaps :: "addr_range \<Rightarrow> addr_range \<Rightarrow> bool" where
  "range_overlaps r q \<longleftrightarrow> \<not> range_is_empty r \<and> \<not> range_is_empty q \<and> ar_start r < ar_end q \<and> ar_start q < ar_end r"

definition range_intersect :: "addr_range \<Rightarrow> addr_range \<Rightarrow> addr_range option" where
  "range_intersect r q = (let s = max (ar_start r) (ar_start q); e = min (ar_end r) (ar_end q)
     in if s < e then Some \<lparr>ar_start = s, ar_end = e\<rparr> else None)"

definition range_display :: "addr_range \<Rightarrow> string" where
  "range_display r = show_hex (unat (ar_start r)) @ ''..'' @ show_hex (unat (ar_end r))"

text \<open>The constructors build only ranges whose start is not above their end.\<close>

definition range_ok :: "addr_range \<Rightarrow> bool" where
  "range_ok r \<longleftrightarrow> ar_start r \<le> ar_end r"

definition range_set :: "addr_range \<Rightarrow> addr set" where
  "range_set r = {a. range_contains r a}"

lemma range_set_iff [simp]: "a \<in> range_set r \<longleftrightarrow> ar_start r \<le> a \<and> a < ar_end r"
  by (simp add: range_set_def range_contains_def)

lemma range_new_ok: "range_new s e = Some r \<Longrightarrow> range_ok r"
  by (auto simp: range_new_def range_ok_def split: if_splits)

lemma range_sized_Some: "range_sized s len = Some r \<longleftrightarrow> ar_start r = s \<and> unat (ar_end r) = unat s + unat len"
  by (cases r) (auto simp: range_sized_def u64_checked_add_Some)

lemma range_sized_ok: "range_sized s len = Some r \<Longrightarrow> range_ok r"
  by (auto simp: range_sized_Some range_ok_def word_le_nat_alt)

lemma range_intersect_ok: "range_intersect r q = Some p \<Longrightarrow> range_ok p"
  by (auto simp: range_intersect_def range_ok_def Let_def split: if_splits)

lemma range_len_unat: "range_ok r \<Longrightarrow> unat (range_len r) = unat (ar_end r) - unat (ar_start r)"
  by (simp add: range_ok_def range_len_def unat_sub word_le_nat_alt)

lemma range_sized_len: "range_sized s len = Some r \<Longrightarrow> range_len r = len"
  using range_len_unat [of r] range_sized_ok [of s len r]
  by (simp add: range_sized_Some word_eq_iff_unat)

lemma range_set_empty_iff: "range_ok r \<Longrightarrow> range_set r = {} \<longleftrightarrow> range_is_empty r"
proof -
  assume ok: "range_ok r"
  have "ar_start r \<in> range_set r \<longleftrightarrow> \<not> range_is_empty r"
    using ok by (auto simp: range_ok_def range_is_empty_def)
  moreover have "range_set r = {}" if "range_is_empty r"
    using that by (auto simp: range_is_empty_def)
  ultimately show ?thesis by blast
qed

lemma range_intersect_set:
  "(case range_intersect r q of None \<Rightarrow> {} | Some p \<Rightarrow> range_set p) = range_set r \<inter> range_set q"
  by (rule set_eqI) (auto simp: range_intersect_def Let_def max_def min_def split: if_splits)

lemma range_overlaps_set:
  assumes "range_ok r" and "range_ok q"
  shows "range_overlaps r q \<longleftrightarrow> range_set r \<inter> range_set q \<noteq> {}"
proof
  assume o: "range_overlaps r q"
  have "max (ar_start r) (ar_start q) \<in> range_set r \<inter> range_set q"
    using o assms by (auto simp: range_overlaps_def range_is_empty_def range_ok_def max_def)
  then show "range_set r \<inter> range_set q \<noteq> {}" by blast
next
  assume "range_set r \<inter> range_set q \<noteq> {}"
  then obtain a where "ar_start r \<le> a" "a < ar_end r" "ar_start q \<le> a" "a < ar_end q" by auto
  then show "range_overlaps r q" by (auto simp: range_overlaps_def range_is_empty_def)
qed

lemma contains_range_set:
  assumes "range_ok q" and "\<not> range_is_empty q"
  shows "contains_range r q \<longleftrightarrow> range_set q \<subseteq> range_set r"
proof
  assume "contains_range r q"
  then show "range_set q \<subseteq> range_set r" by (auto simp: contains_range_def)
next
  assume sub: "range_set q \<subseteq> range_set r"
  have lt: "ar_start q < ar_end q" using assms by (auto simp: range_ok_def range_is_empty_def)
  then have "ar_start q \<in> range_set r" using sub by auto
  moreover have "ar_end q - 1 \<in> range_set r"
  proof -
    have "ar_start q \<le> ar_end q - 1" "ar_end q - 1 < ar_end q" using lt by (auto simp: word_le_nat_alt word_less_nat_alt unat_sub)
    then show ?thesis using sub by auto
  qed
  ultimately show "contains_range r q"
    using lt by (auto simp: contains_range_def word_le_nat_alt word_less_nat_alt unat_sub)
qed

section \<open>Alignment\<close>

lemma power_of_two_iff: "is_power_of_two x \<longleftrightarrow> (\<exists>n<64. x = push_bit n 1)"
  by (auto simp: is_power_of_two_def list_ex_iff simp del: push_bit_of_1)

lemma and_not_low: "(a :: u64) AND NOT (push_bit n 1 - 1) = push_bit n (drop_bit n a)"
  by (rule bit_word_eqI)
    (auto simp: push_bit_1_minus_1 bit_and_iff bit_not_iff bit_mask_iff bit_push_bit_iff bit_drop_bit_eq simp del: push_bit_of_1)

lemma unat_and_not_low: "n < 64 \<Longrightarrow> unat ((a :: u64) AND NOT (push_bit n 1 - 1)) = unat a div 2 ^ n * 2 ^ n"
proof -
  assume "n < 64"
  have "unat a div 2 ^ n * 2 ^ n < 2 ^ 64"
    using unat_lt_exp [of a] by (auto intro: le_less_trans [OF div_times_less_eq_dividend])
  then show ?thesis unfolding and_not_low by (subst unat_push_bit_small) (simp_all add: unat_drop_bit)
qed

lemma align_down_val:
  assumes "n < 64"
  shows "\<exists>r. align_down a (push_bit n 1) = Some r \<and> 2 ^ n dvd unat r \<and> unat r \<le> unat a \<and> unat a < unat r + 2 ^ n"
proof -
  have "unat a = unat a div 2 ^ n * 2 ^ n + unat a mod 2 ^ n" by (rule div_mult_mod_eq [symmetric])
  moreover have "unat a mod 2 ^ n < (2 :: nat) ^ n" by simp
  ultimately have "unat a < unat a div 2 ^ n * 2 ^ n + 2 ^ n" by linarith
  then show ?thesis
    using assms by (auto simp: align_down_def power_of_two_iff unat_and_not_low simp del: push_bit_of_1)
qed

lemma align_up_val:
  assumes "n < 64"
  shows "case align_up a (push_bit n 1) of
      None \<Rightarrow> False
    | Some None \<Rightarrow> \<forall>m. 2 ^ n dvd m \<longrightarrow> unat a \<le> m \<longrightarrow> 2 ^ 64 \<le> m
    | Some (Some r) \<Rightarrow> 2 ^ n dvd unat r \<and> unat a \<le> unat r \<and> unat r < unat a + 2 ^ n"
proof -
  let ?p = "(2 :: nat) ^ n"
  have one: "unat (push_bit n 1 - 1 :: u64) = ?p - 1" by (rule unat_mask_1) (use assms in simp)
  have dvd64: "?p dvd 2 ^ 64" by (rule le_imp_power_dvd) (use assms in simp)
  have up: "align_up a (push_bit n 1) = Some (map_option (\<lambda>v. v AND NOT (push_bit n 1 - 1)) (u64_checked_add a (push_bit n 1 - 1)))"
    using assms by (auto simp: align_up_def power_of_two_iff simp del: push_bit_of_1)
  show ?thesis
  proof (cases "u64_checked_add a (push_bit n 1 - 1)")
    case None
    then have over: "2 ^ 64 \<le> unat a + (?p - 1)" by (simp add: u64_checked_add_def one del: push_bit_of_1 split: if_splits)
    have "2 ^ 64 \<le> m" if "?p dvd m" "unat a \<le> m" for m
    proof (rule ccontr)
      assume "\<not> 2 ^ 64 \<le> m"
      then have lt: "m < 2 ^ 64" by simp
      then have "?p dvd 2 ^ 64 - m" using that(1) dvd64 by (simp add: dvd_diff_nat)
      then have "?p \<le> 2 ^ 64 - m" using lt by (intro dvd_imp_le) simp_all
      then show False using over that(2) lt by linarith
    qed
    then show ?thesis by (simp add: up None del: push_bit_of_1)
  next
    case (Some v)
    then have v: "unat v = unat a + (?p - 1)" by (simp add: u64_checked_add_Some one del: push_bit_of_1)
    have "unat v = unat v div ?p * ?p + unat v mod ?p" by (rule div_mult_mod_eq [symmetric])
    moreover have "unat v mod ?p < ?p" by simp
    ultimately have "unat a \<le> unat v div ?p * ?p" and "unat v div ?p * ?p < unat a + ?p" using v by linarith+
    then show ?thesis by (simp add: up Some unat_and_not_low [OF assms] del: push_bit_of_1)
  qed
qed

end
