(* ===== verification/Core_Bytes.thy ===== *)
theory Core_Bytes
  imports Core_Addr
begin

text \<open>
  Byte strings as numbers in either byte order: what \<open>from_le_bytes\<close> and \<open>from_be_bytes\<close> of the
  standard library compute, the locale \<open>byte_order\<close> of the laws their clients use, and the loops of
  \<open>read_ptr\<close> that compute the same values by shifting.
\<close>

section \<open>Byte orders\<close>

fun le_val :: "u8 list \<Rightarrow> nat" where
  "le_val [] = 0"
| "le_val (b # bs) = unat b + 256 * le_val bs"

fun le_bytes :: "nat \<Rightarrow> nat \<Rightarrow> u8 list" where
  "le_bytes 0 v = []"
| "le_bytes (Suc n) v = of_nat (v mod 256) # le_bytes n (v div 256)"

definition be_val :: "u8 list \<Rightarrow> nat" where "be_val bs = le_val (rev bs)"
definition be_bytes :: "nat \<Rightarrow> nat \<Rightarrow> u8 list" where "be_bytes n v = rev (le_bytes n v)"

locale byte_order =
  fixes enc :: "nat \<Rightarrow> nat \<Rightarrow> u8 list" and dec :: "u8 list \<Rightarrow> nat"
  assumes length_enc [simp]: "length (enc n v) = n"
    and dec_enc: "v < 256 ^ n \<Longrightarrow> dec (enc n v) = v"
    and enc_dec: "enc (length bs) (dec bs) = bs"
    and dec_less: "dec bs < 256 ^ length bs"
begin

lemma dec_inj: "length bs = length cs \<Longrightarrow> dec bs = dec cs \<Longrightarrow> bs = cs"
  by (metis enc_dec)

text \<open>A decoded field fits the word it is read into.\<close>

lemma dec_word: "length bs * 8 \<le> LENGTH('a) \<Longrightarrow> unat (of_nat (dec bs) :: 'a::len word) = dec bs"
proof -
  assume le: "length bs * 8 \<le> LENGTH('a)"
  have "dec bs < 2 ^ (length bs * 8)"
    using dec_less [of bs] power_mult [of "2 :: nat" 8 "length bs"] by (simp add: mult.commute)
  also have "\<dots> \<le> 2 ^ LENGTH('a)" using le by simp
  finally show ?thesis by (simp add: unat_of_nat_small)
qed

end

lemma unat_u8_less: "unat (b :: u8) < 256"
  using unat_lt_exp [of b] by simp

lemma le_val_less: "le_val bs < 256 ^ length bs"
proof (induction bs)
  case (Cons b bs)
  then show ?case using unat_u8_less [of b] by simp
qed simp

lemma le_val_bytes: "v < 256 ^ n \<Longrightarrow> le_val (le_bytes n v) = v"
proof (induction n arbitrary: v)
  case (Suc n)
  have "v div 256 < 256 ^ n" using Suc.prems by (simp add: less_mult_imp_div_less mult.commute)
  then show ?case using Suc.IH by (simp add: unat_of_nat_small)
qed simp

lemma le_bytes_val: "le_bytes (length bs) (le_val bs) = bs"
proof (induction bs)
  case (Cons b bs)
  have "(unat b + 256 * le_val bs) mod 256 = unat b" "(unat b + 256 * le_val bs) div 256 = le_val bs"
    using unat_u8_less [of b] by simp_all
  then show ?case using Cons by (simp del: of_nat_add)
qed simp

lemma le_bytes_length [simp]: "length (le_bytes n v) = n"
  by (induction n arbitrary: v) simp_all

interpretation le: byte_order le_bytes le_val
  by unfold_locales (simp_all add: le_val_bytes le_bytes_val le_val_less)

interpretation be: byte_order be_bytes be_val
proof unfold_locales
  fix n v and bs :: "u8 list"
  show "length (be_bytes n v) = n" by (simp add: be_bytes_def)
  show "v < 256 ^ n \<Longrightarrow> be_val (be_bytes n v) = v" by (simp add: be_bytes_def be_val_def le_val_bytes)
  show "be_bytes (length bs) (be_val bs) = bs"
    using le_bytes_val [of "rev bs"] by (simp add: be_bytes_def be_val_def)
  show "be_val bs < 256 ^ length bs" using le_val_less [of "rev bs"] by (simp add: be_val_def)
qed

definition order_val :: "endian \<Rightarrow> u8 list \<Rightarrow> nat" where
  "order_val e = (case e of Little \<Rightarrow> le_val | Big_endian \<Rightarrow> be_val)"

definition order_bytes :: "endian \<Rightarrow> nat \<Rightarrow> nat \<Rightarrow> u8 list" where
  "order_bytes e = (case e of Little \<Rightarrow> le_bytes | Big_endian \<Rightarrow> be_bytes)"

interpretation order: byte_order "order_bytes e" "order_val e" for e
  by (cases e) (simp_all add: order_bytes_def order_val_def le.byte_order_axioms be.byte_order_axioms)

section \<open>The loops of \<open>read_ptr\<close>\<close>

text \<open>A shift of a \<open>u64\<close> by 64 or more panics.\<close>

fun ptr_le :: "nat \<Rightarrow> u8 list \<Rightarrow> u64 \<Rightarrow> u64 panics" where
  "ptr_le i [] v = Some v"
| "ptr_le i (b # bs) v = (if 8 * i < 64 then ptr_le (i + 1) bs (v OR push_bit (8 * i) (ucast b)) else None)"

definition ptr_be :: "u8 list \<Rightarrow> u64" where
  "ptr_be bs = fold (\<lambda>b v. push_bit 8 v OR ucast b) bs 0"

lemma or_add: "unat v < 2 ^ n \<Longrightarrow> v OR push_bit n w = v + push_bit n (w :: 'a::len word)"
  using push_or_add [of v n w] by (simp add: or.commute add.commute)

lemma ptr_le_step:
  assumes "unat v < 256 ^ i" and "i < 8"
  shows "unat (v OR push_bit (8 * i) (ucast (b :: u8)) :: u64) = unat v + 256 ^ i * unat b"
    and "unat v + 256 ^ i * unat b < 256 ^ (i + 1)"
proof -
  have pow: "(256 :: nat) ^ i = 2 ^ (8 * i)" using power_mult [of "2 :: nat" 8 i] by simp
  have lt: "unat v + 256 ^ i * unat b < 256 ^ (i + 1)"
  proof -
    have "256 ^ i * unat b \<le> 256 ^ i * 255" using unat_u8_less [of b] by (intro mult_le_mono2) simp
    moreover have "(256 :: nat) ^ (i + 1) = 256 ^ i * 255 + 256 ^ i" by simp
    ultimately show ?thesis using assms(1) by linarith
  qed
  have top: "(256 :: nat) ^ (i + 1) \<le> 2 ^ 64"
  proof -
    have "(256 :: nat) ^ (i + 1) \<le> 256 ^ 8" by (rule power_increasing) (use assms(2) in simp_all)
    then show ?thesis by simp
  qed
  have b: "unat (ucast b :: u64) = unat b" by (rule unat_ucast_le) simp
  have pb: "unat (push_bit (8 * i) (ucast b :: u64)) = 256 ^ i * unat b"
    by (subst unat_push_bit_small) (use lt top in \<open>simp_all add: b pow mult.commute\<close>)
  have "v OR push_bit (8 * i) (ucast b) = v + push_bit (8 * i) (ucast b)"
    by (rule or_add) (use assms pow in simp)
  then show "unat (v OR push_bit (8 * i) (ucast b) :: u64) = unat v + 256 ^ i * unat b"
    by (simp only:) (subst unat_add_small; use pb lt top in simp)
  show "unat v + 256 ^ i * unat b < 256 ^ (i + 1)" by (rule lt)
qed

lemma ptr_le_val:
  assumes "i + length bs \<le> 8" and "unat v < 256 ^ i"
  shows "\<exists>w. ptr_le i bs v = Some w \<and> unat w = unat v + 256 ^ i * le_val bs"
  using assms
proof (induction bs arbitrary: i v)
  case (Cons b bs)
  have i: "i < 8" using Cons.prems(1) by simp
  note st = ptr_le_step [OF Cons.prems(2) i, of b]
  have "\<exists>w. ptr_le (i + 1) bs (v OR push_bit (8 * i) (ucast b)) = Some w
      \<and> unat w = unat (v OR push_bit (8 * i) (ucast b)) + 256 ^ (i + 1) * le_val bs"
    by (rule Cons.IH) (use Cons.prems st in simp_all)
  then show ?case using i st(1) by (simp add: algebra_simps)
qed simp

lemma ptr_be_val: "length bs \<le> 8 \<Longrightarrow> unat (ptr_be bs) = be_val bs"
proof (induction bs rule: rev_induct)
  case (snoc b bs)
  then have IH: "unat (ptr_be bs) = be_val bs" by simp
  have "be_val bs < 256 ^ length bs" by (rule be.dec_less)
  also have "\<dots> \<le> 256 ^ 7" by (rule power_increasing) (use snoc.prems in simp_all)
  finally have lt: "unat (ptr_be bs) < 256 ^ 7" by (simp add: IH)
  have p: "unat (push_bit 8 (ptr_be bs)) = 256 * be_val bs"
    by (subst unat_push_bit_small) (use lt IH in simp_all)
  have b: "unat (ucast b :: u64) = unat b" by (rule unat_ucast_le) simp
  have "ucast b OR push_bit 8 (ptr_be bs) = ucast b + push_bit 8 (ptr_be bs)"
    by (rule or_add) (use b unat_u8_less [of b] in simp)
  then have "ptr_be (bs @ [b]) = ucast b + push_bit 8 (ptr_be bs)" by (simp add: ptr_be_def or.commute)
  then show ?case
    using lt IH unat_u8_less [of b] by (simp add: be_val_def unat_add_small p b)
qed (simp add: ptr_be_def be_val_def)

end
