(* ===== verification/Core_Memory.thy ===== *)
theory Core_Memory
  imports Core_Bytes "HOL-Library.Multiset"
begin

text \<open>
  The memory map of \<open>crates/e5r-core/src/memory.rs\<close>: permissions, segments with a file-backed part
  and a zero tail, and the sorted list of segments with its lookup, reads and patches. The locale
  \<open>image\<close> is what a client of such a map relies on; the map provides it when no segments overlap.
\<close>

section \<open>Permissions and segments\<close>

record perms =
  pm_read :: bool
  pm_write :: bool
  pm_exec :: bool

definition perms_R :: perms where "perms_R = \<lparr>pm_read = True, pm_write = False, pm_exec = False\<rparr>"
definition perms_RW :: perms where "perms_RW = \<lparr>pm_read = True, pm_write = True, pm_exec = False\<rparr>"
definition perms_RX :: perms where "perms_RX = \<lparr>pm_read = True, pm_write = False, pm_exec = True\<rparr>"
definition perms_RWX :: perms where "perms_RWX = \<lparr>pm_read = True, pm_write = True, pm_exec = True\<rparr>"

definition perms_str :: "perms \<Rightarrow> string" where
  "perms_str p = (case (pm_read p, pm_write p, pm_exec p) of
      (False, False, False) \<Rightarrow> ''---''
    | (True, False, False) \<Rightarrow> ''r--''
    | (False, True, False) \<Rightarrow> ''-w-''
    | (False, False, True) \<Rightarrow> ''--x''
    | (True, True, False) \<Rightarrow> ''rw-''
    | (True, False, True) \<Rightarrow> ''r-x''
    | (False, True, True) \<Rightarrow> ''-wx''
    | (True, True, True) \<Rightarrow> ''rwx'')"

record segment =
  sg_range :: addr_range
  sg_perms :: perms
  sg_name :: string
  sg_file_offset :: u64
  sg_data :: "u8 list"

definition seg_new :: "addr_range \<Rightarrow> perms \<Rightarrow> string \<Rightarrow> u64 \<Rightarrow> u8 list \<Rightarrow> segment core_result" where
  "seg_new r p n off data = (if length data > unat (range_len r) then Inl (Inconsistent
       (''segment '' @ n @ '' at '' @ range_display r @ '' holds '' @ show_hex (length data) @ '' file bytes but spans only ''
         @ show_hex (unat (range_len r))))
     else Inr \<lparr>sg_range = r, sg_perms = p, sg_name = n, sg_file_offset = off, sg_data = data\<rparr>)"

definition seg_zeroed :: "addr_range \<Rightarrow> perms \<Rightarrow> string \<Rightarrow> segment" where
  "seg_zeroed r p n = \<lparr>sg_range = r, sg_perms = p, sg_name = n, sg_file_offset = 0, sg_data = []\<rparr>"

definition seg_file_len :: "segment \<Rightarrow> nat" where "seg_file_len s = length (sg_data s)"

definition seg_has_zero_fill :: "segment \<Rightarrow> bool" where
  "seg_has_zero_fill s \<longleftrightarrow> seg_file_len s < unat (range_len (sg_range s))"

text \<open>The sum \<open>offset + bytes.len()\<close> of the slice bounds is checked arithmetic of \<open>usize\<close>.\<close>

definition seg_patch :: "segment \<Rightarrow> addr \<Rightarrow> u8 list \<Rightarrow> (bool \<times> segment) panics" where
  "seg_patch s a bs = (case u64_checked_sub a (ar_start (sg_range s)) of
     None \<Rightarrow> Some (False, s)
   | Some off \<Rightarrow>
       if 2 ^ 64 \<le> unat off + length bs then None
       else if length (sg_data s) < unat off + length bs then Some (False, s)
       else Some (True, s\<lparr>sg_data := take (unat off) (sg_data s) @ bs @ drop (unat off + length bs) (sg_data s)\<rparr>))"

definition seg_read :: "segment \<Rightarrow> addr \<Rightarrow> u64 \<Rightarrow> u8 list option" where
  "seg_read s a len = do {
     want \<leftarrow> range_sized a len;
     if \<not> contains_range (sg_range s) want then None
     else do {
       off \<leftarrow> distance_to (ar_start (sg_range s)) a;
       let out = replicate (unat len) 0;
       Some (if unat off < length (sg_data s)
         then let n = min (unat len) (length (sg_data s) - unat off)
           in take n (drop (unat off) (sg_data s)) @ drop n out
         else out) } }"

definition seg_slice :: "segment \<Rightarrow> addr \<Rightarrow> u64 \<Rightarrow> u8 list option" where
  "seg_slice s a len = do {
     off \<leftarrow> distance_to (ar_start (sg_range s)) a;
     e \<leftarrow> u64_checked_add off len;
     if unat e > length (sg_data s) then None
     else Some (take (unat len) (drop (unat off) (sg_data s))) }"

definition seg_slice_to_end :: "segment \<Rightarrow> addr \<Rightarrow> u8 list option" where
  "seg_slice_to_end s a = do {
     off \<leftarrow> distance_to (ar_start (sg_range s)) a;
     if unat off \<ge> length (sg_data s) then None else Some (drop (unat off) (sg_data s)) }"

section \<open>The map\<close>

type_synonym memory_map = "segment list"

definition seg_start :: "segment \<Rightarrow> addr" where "seg_start s = ar_start (sg_range s)"

text \<open>\<open>partition_point\<close> on a list that the predicate partitions.\<close>

definition partition_point :: "('a \<Rightarrow> bool) \<Rightarrow> 'a list \<Rightarrow> nat" where
  "partition_point P xs = length (takeWhile P xs)"

definition mm_add :: "memory_map \<Rightarrow> segment \<Rightarrow> memory_map" where
  "mm_add m s = (let n = partition_point (\<lambda>t. seg_start t \<le> seg_start s) m in take n m @ [s] @ drop n m)"

fun mm_patch :: "memory_map \<Rightarrow> addr \<Rightarrow> u8 list \<Rightarrow> (bool \<times> memory_map) panics" where
  "mm_patch [] a bs = Some (False, [])"
| "mm_patch (s # m) a bs = (if range_contains (sg_range s) a
     then map_option (\<lambda>(ok, s). (ok, s # m)) (seg_patch s a bs)
     else map_option (\<lambda>(ok, m). (ok, s # m)) (mm_patch m a bs))"

definition mm_bounds :: "memory_map \<Rightarrow> addr_range option" where
  "mm_bounds m = (case m of [] \<Rightarrow> None
     | s # _ \<Rightarrow> range_new (seg_start s) (Max (set (map (\<lambda>t. ar_end (sg_range t)) m))))"

definition segment_at :: "memory_map \<Rightarrow> addr \<Rightarrow> segment option" where
  "segment_at m a = (let e = partition_point (\<lambda>t. seg_start t \<le> a) m
     in find (\<lambda>s. range_contains (sg_range s) a) (rev (take e m)))"

definition mm_is_mapped :: "memory_map \<Rightarrow> addr \<Rightarrow> bool" where
  "mm_is_mapped m a \<longleftrightarrow> segment_at m a \<noteq> None"

definition mm_is_executable :: "memory_map \<Rightarrow> addr \<Rightarrow> bool" where
  "mm_is_executable m a \<longleftrightarrow> (case segment_at m a of Some s \<Rightarrow> pm_exec (sg_perms s) | None \<Rightarrow> False)"

definition mm_is_writable :: "memory_map \<Rightarrow> addr \<Rightarrow> bool" where
  "mm_is_writable m a \<longleftrightarrow> (case segment_at m a of Some s \<Rightarrow> pm_write (sg_perms s) | None \<Rightarrow> False)"

definition mm_read :: "memory_map \<Rightarrow> addr \<Rightarrow> u64 \<Rightarrow> u8 list core_result" where
  "mm_read m a len = (case Option.bind (segment_at m a) (\<lambda>s. seg_read s a len) of
     None \<Rightarrow> Inl (Unmapped a) | Some bs \<Rightarrow> Inr bs)"

definition mm_slice :: "memory_map \<Rightarrow> addr \<Rightarrow> u64 \<Rightarrow> u8 list option" where
  "mm_slice m a len = Option.bind (segment_at m a) (\<lambda>s. seg_slice s a len)"

definition mm_decode_window :: "memory_map \<Rightarrow> addr \<Rightarrow> u64 \<Rightarrow> u8 list option" where
  "mm_decode_window m a mx = do {
     s \<leftarrow> segment_at m a;
     all \<leftarrow> seg_slice_to_end s a;
     Some (take (min (length all) (unat mx)) all) }"

definition mm_read_ptr :: "memory_map \<Rightarrow> addr \<Rightarrow> u64 \<Rightarrow> bool \<Rightarrow> u64 core_result panics" where
  "mm_read_ptr m a len little = (case mm_read m a len of
     Inl e \<Rightarrow> Some (Inl e)
   | Inr bs \<Rightarrow> if little then map_option Inr (ptr_le 0 bs 0) else Some (Inr (ptr_be bs)))"

section \<open>Invariants\<close>

definition seg_ok :: "segment \<Rightarrow> bool" where
  "seg_ok s \<longleftrightarrow> range_ok (sg_range s) \<and> length (sg_data s) \<le> unat (range_len (sg_range s))"

definition mm_sorted :: "memory_map \<Rightarrow> bool" where
  "mm_sorted m \<longleftrightarrow> sorted (map seg_start m)"

definition mm_ok :: "memory_map \<Rightarrow> bool" where
  "mm_ok m \<longleftrightarrow> mm_sorted m \<and> list_all seg_ok m"

definition mm_disjoint :: "memory_map \<Rightarrow> bool" where
  "mm_disjoint m \<longleftrightarrow> sorted_wrt (\<lambda>s t. range_set (sg_range s) \<inter> range_set (sg_range t) = {}) m"

lemma seg_new_ok: "range_ok r \<Longrightarrow> seg_new r p n off data = Inr s \<Longrightarrow> seg_ok s"
  by (auto simp: seg_new_def seg_ok_def split: if_splits)

lemma seg_zeroed_ok: "range_ok r \<Longrightarrow> seg_ok (seg_zeroed r p n)"
  by (simp add: seg_zeroed_def seg_ok_def)

lemma take_partition: "take (partition_point P xs) xs = takeWhile P xs"
  and drop_partition: "drop (partition_point P xs) xs = dropWhile P xs"
  by (induction xs) (simp_all add: partition_point_def)

lemma mm_add_eq: "mm_add m s = takeWhile (\<lambda>t. seg_start t \<le> seg_start s) m @ s # dropWhile (\<lambda>t. seg_start t \<le> seg_start s) m"
  by (simp add: mm_add_def Let_def take_partition drop_partition)

lemma mm_add_set [simp]: "set (mm_add m s) = insert s (set m)"
  unfolding mm_add_eq by (metis Un_insert_right list.set(2) set_append takeWhile_dropWhile_id)

lemma sorted_partition:
  assumes "sorted (map f xs)"
  shows "takeWhile (\<lambda>x. f x \<le> k) xs = filter (\<lambda>x. f x \<le> (k :: 'a::linorder)) xs"
    and "dropWhile (\<lambda>x. f x \<le> k) xs = filter (\<lambda>x. \<not> f x \<le> k) xs"
proof -
  have *: "takeWhile (\<lambda>x. f x \<le> k) xs = filter (\<lambda>x. f x \<le> k) xs \<and> dropWhile (\<lambda>x. f x \<le> k) xs = filter (\<lambda>x. \<not> f x \<le> k) xs"
    using assms
  proof (induction xs)
    case (Cons x xs)
    show ?case
    proof (cases "f x \<le> k")
      case False
      then have "\<not> f y \<le> k" if "y \<in> set xs" for y using Cons.prems that by fastforce
      then have "filter (\<lambda>x. f x \<le> k) xs = []" "filter (\<lambda>x. \<not> f x \<le> k) xs = xs"
        by (auto simp: filter_empty_conv filter_id_conv)
      then show ?thesis using False by simp
    qed (use Cons in simp)
  qed simp
  then show "takeWhile (\<lambda>x. f x \<le> k) xs = filter (\<lambda>x. f x \<le> k) xs"
    and "dropWhile (\<lambda>x. f x \<le> k) xs = filter (\<lambda>x. \<not> f x \<le> k) xs" by simp_all
qed

lemma mm_add_sorted: "mm_sorted m \<Longrightarrow> mm_sorted (mm_add m s)"
  by (auto simp: mm_sorted_def mm_add_eq sorted_partition sorted_append sorted_filter)

lemma mm_add_ok: "mm_ok m \<Longrightarrow> seg_ok s \<Longrightarrow> mm_ok (mm_add m s)"
  using mm_add_sorted [of m s] by (simp add: mm_ok_def list_all_iff)

lemma mm_adds: "mm_ok m \<Longrightarrow> list_all seg_ok ss \<Longrightarrow> mm_ok (foldl mm_add m ss) \<and> set (foldl mm_add m ss) = set m \<union> set ss"
  by (induction ss arbitrary: m) (auto simp: mm_add_ok)

lemma mset_add [simp]: "mset (mm_add m s) = add_mset s (mset m)"
proof -
  have "mset (take n m) + mset (drop n m) = mset m" for n
    by (metis append_take_drop_id mset_append)
  then show ?thesis by (simp add: mm_add_def Let_def)
qed

lemma mset_adds: "mset (foldl mm_add m ss) = mset m + mset ss"
  by (induction ss arbitrary: m) simp_all

section \<open>Lookup\<close>

text \<open>The prefix that \<open>segment_at\<close> searches holds every segment that contains the address, so the
  segment it returns is the last one that does.\<close>

lemma find_Some_split: "find P xs = Some x \<longleftrightarrow> (\<exists>ys zs. xs = ys @ x # zs \<and> P x \<and> (\<forall>y\<in>set ys. \<not> P y))"
proof (induction xs)
  case (Cons y xs)
  show ?case
  proof (cases "P y")
    case True
    then show ?thesis by (auto simp: Cons_eq_append_conv)
  next
    case False
    then show ?thesis using Cons by (auto simp: Cons_eq_append_conv) (metis append_Cons set_ConsD)
  qed
qed simp

lemma find_append_opt: "find P (xs @ ys) = (case find P xs of None \<Rightarrow> find P ys | Some x \<Rightarrow> Some x)"
  by (induction xs) simp_all

lemma segment_at_sorted: "mm_sorted m \<Longrightarrow> segment_at m a = find (\<lambda>s. range_contains (sg_range s) a) (rev m)"
proof -
  assume m: "mm_sorted m"
  have tw: "takeWhile (\<lambda>t. seg_start t \<le> a) m = filter (\<lambda>t. seg_start t \<le> a) m"
    using m sorted_partition(1) unfolding mm_sorted_def by blast
  have "find (\<lambda>s. range_contains (sg_range s) a) (filter (\<lambda>t. seg_start t \<le> a) xs) = find (\<lambda>s. range_contains (sg_range s) a) xs" for xs
    by (induction xs) (auto simp: range_contains_def seg_start_def)
  then show ?thesis
    by (simp add: segment_at_def Let_def take_partition tw rev_filter)
qed

lemma segment_at_Some:
  assumes "mm_sorted m"
  shows "segment_at m a = Some s \<longleftrightarrow> (\<exists>ys zs. m = ys @ s # zs \<and> range_contains (sg_range s) a
    \<and> (\<forall>t\<in>set zs. \<not> range_contains (sg_range t) a))"
proof -
  have "segment_at m a = Some s \<longleftrightarrow> (\<exists>ys zs. rev m = ys @ s # zs \<and> range_contains (sg_range s) a
      \<and> (\<forall>t\<in>set ys. \<not> range_contains (sg_range t) a))"
    unfolding segment_at_sorted [OF assms] by (rule find_Some_split)
  also have "\<dots> \<longleftrightarrow> (\<exists>ys zs. m = ys @ s # zs \<and> range_contains (sg_range s) a
      \<and> (\<forall>t\<in>set zs. \<not> range_contains (sg_range t) a))"
  proof safe
    fix ys zs assume "rev m = ys @ s # zs" and c: "range_contains (sg_range s) a" "\<forall>t\<in>set ys. \<not> range_contains (sg_range t) a"
    then have "m = rev zs @ s # rev ys" by (metis append.assoc append_Cons append_Nil rev.simps(2) rev_append rev_rev_ident)
    then show "\<exists>ys zs. m = ys @ s # zs \<and> range_contains (sg_range s) a \<and> (\<forall>t\<in>set zs. \<not> range_contains (sg_range t) a)"
      using c by (intro exI [of _ "rev zs"] exI [of _ "rev ys"]) simp
  next
    fix ys zs assume c: "range_contains (sg_range s) a" "\<forall>t\<in>set zs. \<not> range_contains (sg_range t) a" and m: "m = ys @ s # zs"
    then show "\<exists>ysa zsa. rev (ys @ s # zs) = ysa @ s # zsa \<and> range_contains (sg_range s) a \<and> (\<forall>t\<in>set ysa. \<not> range_contains (sg_range t) a)"
      by (intro exI [of _ "rev zs"] exI [of _ "rev ys"]) simp
  qed
  finally show ?thesis .
qed

lemma segment_at_last:
  "mm_sorted (ys @ s # zs) \<Longrightarrow> range_contains (sg_range s) a \<Longrightarrow> \<forall>t\<in>set zs. \<not> range_contains (sg_range t) a \<Longrightarrow>
    segment_at (ys @ s # zs) a = Some s"
  unfolding segment_at_Some by blast

lemma segment_at_None: "mm_sorted m \<Longrightarrow> segment_at m a = None \<longleftrightarrow> (\<forall>s\<in>set m. \<not> range_contains (sg_range s) a)"
  by (auto simp: segment_at_sorted find_None_iff)

lemma segment_at_mem: "mm_sorted m \<Longrightarrow> segment_at m a = Some s \<Longrightarrow> s \<in> set m \<and> range_contains (sg_range s) a"
  by (auto simp: segment_at_Some)

text \<open>Its start is the greatest among the segments that contain the address.\<close>

lemma segment_at_greatest:
  assumes "mm_sorted m" and "segment_at m a = Some s" and "t \<in> set m" and "range_contains (sg_range t) a"
  shows "seg_start t \<le> seg_start s"
proof -
  obtain ys zs where m: "m = ys @ s # zs" and zs: "\<forall>t\<in>set zs. \<not> range_contains (sg_range t) a"
    using assms(1,2) by (auto simp: segment_at_Some)
  then have "t \<in> set ys \<or> t = s" using assms(3,4) by auto
  moreover have "seg_start t \<le> seg_start s" if "t \<in> set ys"
    using assms(1) that by (simp add: m mm_sorted_def sorted_append)
  ultimately show ?thesis by auto
qed

text \<open>Adding a segment: it is found where it contains the address and starts no earlier than the others
  that do, and lookup is as before where it does not contain the address.\<close>

lemma mm_add_split: "mm_sorted m \<Longrightarrow> mm_add m s = filter (\<lambda>t. seg_start t \<le> seg_start s) m @ s # filter (\<lambda>t. \<not> seg_start t \<le> seg_start s) m"
  by (simp add: mm_add_eq sorted_partition mm_sorted_def)

lemma segment_at_add_new:
  assumes "mm_sorted m" and "range_contains (sg_range s) a"
    and "\<And>t. t \<in> set m \<Longrightarrow> range_contains (sg_range t) a \<Longrightarrow> seg_start t \<le> seg_start s"
  shows "segment_at (mm_add m s) a = Some s"
  using mm_add_sorted [OF assms(1), of s] assms(2,3) unfolding mm_add_split [OF assms(1)]
  by (intro segment_at_last) auto

lemma segment_at_add_other:
  assumes "mm_sorted m" and "\<not> range_contains (sg_range s) a"
  shows "segment_at (mm_add m s) a = segment_at m a"
proof -
  obtain xs ys where m: "m = xs @ ys" "mm_add m s = xs @ s # ys"
    using takeWhile_dropWhile_id [of "\<lambda>t. seg_start t \<le> seg_start s" m] mm_add_eq [of m s] by metis
  show ?thesis
    unfolding segment_at_sorted [OF assms(1)] segment_at_sorted [OF mm_add_sorted [OF assms(1)]]
    unfolding m(2) by (simp add: m(1) find_append_opt assms(2) split: option.split)
qed

lemma segment_at_adds_other:
  "mm_ok m \<Longrightarrow> list_all seg_ok ss \<Longrightarrow> \<forall>t\<in>set ss. \<not> range_contains (sg_range t) a \<Longrightarrow>
    segment_at (foldl mm_add m ss) a = segment_at m a"
  by (induction ss arbitrary: m) (simp_all add: mm_add_ok segment_at_add_other, simp add: mm_ok_def segment_at_add_other)

section \<open>Bytes\<close>

definition seg_byte :: "segment \<Rightarrow> addr \<Rightarrow> u8" where
  "seg_byte s a = (let off = unat a - unat (seg_start s) in if seg_start s \<le> a \<and> off < length (sg_data s) then sg_data s ! off else 0)"

definition mm_byte :: "memory_map \<Rightarrow> addr \<Rightarrow> u8 option" where
  "mm_byte m a = map_option (\<lambda>s. seg_byte s a) (segment_at m a)"

text \<open>The bytes at \<open>a\<close> and the addresses after it, without wrapping around.\<close>

definition span :: "addr \<Rightarrow> nat \<Rightarrow> addr set" where
  "span a n = {x. unat a \<le> unat x \<and> unat x < unat a + n}"

lemma nth_zero_filled:
  assumes "i < len"
  shows "(if off < length d then let n = min len (length d - off) in take n (drop off d) @ drop n (replicate len 0)
      else replicate len (0 :: u8)) ! i = (if off + i < length d then d ! (off + i) else 0)"
  using assms by (auto simp: Let_def nth_append min_def)

lemma eq_by_nth:
  "length xs = n \<Longrightarrow> (\<And>i. i < n \<Longrightarrow> xs ! i = g i) \<Longrightarrow> xs = ys \<longleftrightarrow> length ys = n \<and> (\<forall>i<n. ys ! i = g i)"
  by (auto intro: nth_equalityI)

lemma seg_read_Some:
  "seg_read s a len = Some bs \<longleftrightarrow> unat a + unat len < 2 ^ 64 \<and> ar_start (sg_range s) \<le> a
     \<and> unat a + unat len \<le> unat (ar_end (sg_range s))
     \<and> length bs = unat len \<and> (\<forall>i<unat len. bs ! i = seg_byte s (a + of_nat i))"
proof (cases "unat a + unat len < 2 ^ 64 \<and> ar_start (sg_range s) \<le> a \<and> unat a + unat len \<le> unat (ar_end (sg_range s))")
  case True
  then obtain want where w: "range_sized a len = Some want" by (auto simp: range_sized_def u64_checked_add_def)
  then have "ar_start want = a" "unat (ar_end want) = unat a + unat len" by (simp_all add: range_sized_Some)
  then have c: "contains_range (sg_range s) want" using True by (simp add: contains_range_def word_le_nat_alt)
  define off where "off = a - ar_start (sg_range s)"
  have off: "distance_to (ar_start (sg_range s)) a = Some off" "unat off = unat a - unat (seg_start s)"
    using True by (simp_all add: distance_to_def u64_checked_sub_def off_def unat_sub word_le_nat_alt seg_start_def)
  let ?out = "if unat off < length (sg_data s)
      then let n = min (unat len) (length (sg_data s) - unat off) in take n (drop (unat off) (sg_data s)) @ drop n (replicate (unat len) 0)
      else replicate (unat len) 0"
  have r: "seg_read s a len = Some ?out" by (simp add: seg_read_def w c off Let_def)
  have len: "length ?out = unat len" by (auto simp: Let_def)
  have "?out ! i = seg_byte s (a + of_nat i)" if i: "i < unat len" for i
  proof -
    have "unat (a + of_nat i) = unat a + i" using True i by (simp add: unat_add_small unat_of_nat_small)
    moreover have "unat (seg_start s) \<le> unat a" using True by (simp add: seg_start_def word_le_nat_alt)
    ultimately have "seg_byte s (a + of_nat i) = (if unat off + i < length (sg_data s) then sg_data s ! (unat off + i) else 0)"
      by (simp add: seg_byte_def off Let_def word_le_nat_alt)
    then show ?thesis using nth_zero_filled [OF i, of "unat off" "sg_data s"] by simp
  qed
  then have "?out = bs \<longleftrightarrow> length bs = unat len \<and> (\<forall>i<unat len. bs ! i = seg_byte s (a + of_nat i))"
    by (intro eq_by_nth) (use len in simp_all)
  then show ?thesis using True r by simp
next
  case False
  then have "seg_read s a len = None"
    by (auto simp: seg_read_def range_sized_def u64_checked_add_def contains_range_def unat_add_small word_le_nat_alt)
  then show ?thesis using False by auto
qed

lemma seg_read_bytes:
  "seg_read s a len = (if unat a + unat len < 2 ^ 64 \<and> seg_start s \<le> a \<and> unat a + unat len \<le> unat (ar_end (sg_range s))
    then Some (map (\<lambda>i. let off = unat a + i - unat (seg_start s) in if off < length (sg_data s) then sg_data s ! off else 0) [0..<unat len])
    else None)"
proof (cases "unat a + unat len < 2 ^ 64 \<and> seg_start s \<le> a \<and> unat a + unat len \<le> unat (ar_end (sg_range s))")
  case True
  have "seg_byte s (a + of_nat i) = (let off = unat a + i - unat (seg_start s) in if off < length (sg_data s) then sg_data s ! off else 0)"
    if i: "i < unat len" for i
  proof -
    have "unat (a + of_nat i) = unat a + i" using True i by (simp add: unat_add_small unat_of_nat_small)
    moreover from this have "seg_start s \<le> a + of_nat i" using True by (simp add: word_le_nat_alt)
    ultimately show ?thesis by (simp add: seg_byte_def Let_def)
  qed
  then show ?thesis using True by (simp add: seg_read_Some seg_start_def)
next
  case False
  then show ?thesis
    using seg_read_Some [of s a len] by (cases "seg_read s a len") (auto simp: seg_start_def)
qed

lemma mm_read_Inr: "mm_read m a len = Inr bs \<longleftrightarrow> (\<exists>s. segment_at m a = Some s \<and> seg_read s a len = Some bs)"
  by (auto simp: mm_read_def split: option.splits bind_splits)

text \<open>What a client of a memory image relies on: a read returns the bytes at its addresses, one after
  the other, and a patch that succeeded changed exactly the bytes it was given.\<close>

locale image =
  fixes inv :: "'m \<Rightarrow> bool" and byte :: "'m \<Rightarrow> addr \<Rightarrow> u8 option" and fetch :: "'m \<Rightarrow> addr \<Rightarrow> u64 \<Rightarrow> u8 list option"
    and patch :: "'m \<Rightarrow> addr \<Rightarrow> u8 list \<Rightarrow> 'm option"
  assumes fetch_bytes: "inv m \<Longrightarrow> fetch m a n = Some bs \<Longrightarrow> length bs = unat n \<and> unat a + unat n < 2 ^ 64
      \<and> (\<forall>i<unat n. byte m (a + of_nat i) = Some (bs ! i))"
    and patch_inv: "inv m \<Longrightarrow> patch m a bs = Some m' \<Longrightarrow> inv m'"
    and patch_byte: "inv m \<Longrightarrow> patch m a bs = Some m' \<Longrightarrow> unat a + length bs < 2 ^ 64 \<and> byte m' x
      = (if x \<in> span a (length bs) then Some (bs ! (unat x - unat a)) else byte m x)"
    and patch_reads: "inv m \<Longrightarrow> patch m a bs = Some m' \<Longrightarrow> fetch m' b n = None \<longleftrightarrow> fetch m b n = None"
    and patch_readable: "inv m \<Longrightarrow> patch m a bs = Some m' \<Longrightarrow> unat n = length bs \<Longrightarrow> fetch m a n \<noteq> None"
begin

lemma fetch_cong:
  assumes "inv m" "inv m'" "fetch m a n = Some bs" "fetch m' a n = Some bs'"
    and "\<And>i. i < unat n \<Longrightarrow> byte m (a + of_nat i) = byte m' (a + of_nat i)"
  shows "bs = bs'"
proof (rule nth_equalityI)
  show "length bs = length bs'" using fetch_bytes assms(1-4) by simp
  show "bs ! i = bs' ! i" if "i < length bs" for i
    using that fetch_bytes [OF assms(1,3)] fetch_bytes [OF assms(2,4)] assms(5) [of i] by simp
qed

lemma fetch_patched:
  assumes "inv m" "patch m a bs = Some m'" "fetch m' a n = Some cs" "unat n = length bs"
  shows "cs = bs"
proof (rule nth_equalityI)
  note F = fetch_bytes [OF patch_inv [OF assms(1,2)] assms(3)]
  show "length cs = length bs" using F assms(4) by simp
  show "cs ! i = bs ! i" if i: "i < length cs" for i
  proof -
    have "unat (a + of_nat i) = unat a + i" using F i by (simp add: unat_add_small unat_of_nat_small)
    moreover have "byte m' (a + of_nat i) = Some (cs ! i)" using F i by simp
    ultimately show ?thesis
      using patch_byte [OF assms(1,2), of "a + of_nat i"] i F assms(4) by (simp add: span_def)
  qed
qed

lemma fetch_elsewhere:
  assumes "inv m" "patch m a bs = Some m'" "fetch m b n = Some cs" "fetch m' b n = Some cs'"
    and "span a (length bs) \<inter> span b (unat n) = {}"
  shows "cs' = cs"
proof (rule fetch_cong [OF patch_inv [OF assms(1,2)] assms(1,4,3)])
  fix i assume i: "i < unat n"
  have "unat (b + of_nat i) = unat b + i"
    using fetch_bytes [OF assms(1,3)] i by (simp add: unat_add_small unat_of_nat_small)
  then have "b + of_nat i \<in> span b (unat n)" using i by (simp add: span_def)
  then show "byte m' (b + of_nat i) = byte m (b + of_nat i)"
    using patch_byte [OF assms(1,2), of "b + of_nat i"] assms(5) by auto
qed

lemma read_patched:
  assumes "inv m" "patch m a bs = Some m'" "unat n = length bs"
  shows "fetch m' a n = Some bs"
proof -
  obtain cs where "fetch m' a n = Some cs"
    using patch_readable [OF assms] patch_reads [OF assms(1,2), of a n] by auto
  then show ?thesis using fetch_patched [OF assms(1,2) _ assms(3)] by simp
qed

lemma read_elsewhere:
  assumes "inv m" "patch m a bs = Some m'" "span a (length bs) \<inter> span b (unat n) = {}"
  shows "fetch m' b n = fetch m b n"
proof (cases "fetch m b n")
  case None
  then show ?thesis using patch_reads [OF assms(1,2)] by simp
next
  case (Some cs)
  moreover from this obtain cs' where "fetch m' b n = Some cs'"
    using patch_reads [OF assms(1,2), of b n] by auto
  ultimately show ?thesis using fetch_elsewhere [OF assms(1,2) _ _ assms(3)] by simp
qed

text \<open>Any read, whatever part of the patch it meets.\<close>

lemma read_overlay:
  assumes "inv m" "patch m a bs = Some m'"
  shows "fetch m' b n = map_option (\<lambda>cs. map (\<lambda>i. let x = unat b + i in
      if unat a \<le> x \<and> x < unat a + length bs then bs ! (x - unat a) else cs ! i) [0..<unat n]) (fetch m b n)"
proof (cases "fetch m b n")
  case None
  then show ?thesis using patch_reads [OF assms] by simp
next
  case (Some cs)
  then obtain cs' where cs': "fetch m' b n = Some cs'"
    using patch_reads [OF assms, of b n] by auto
  note F = fetch_bytes [OF assms(1) Some] and F' = fetch_bytes [OF patch_inv [OF assms] cs']
  have "cs' = map (\<lambda>i. let x = unat b + i in
      if unat a \<le> x \<and> x < unat a + length bs then bs ! (x - unat a) else cs ! i) [0..<unat n]"
  proof (rule nth_equalityI)
    fix i assume "i < length cs'"
    then have i: "i < unat n" using F' by simp
    have "unat (b + of_nat i) = unat b + i" using F i by (simp add: unat_add_small unat_of_nat_small)
    moreover have "byte m (b + of_nat i) = Some (cs ! i)" "byte m' (b + of_nat i) = Some (cs' ! i)" using F F' i by simp_all
    ultimately show "cs' ! i = map (\<lambda>i. let x = unat b + i in
        if unat a \<le> x \<and> x < unat a + length bs then bs ! (x - unat a) else cs ! i) [0..<unat n] ! i"
      using patch_byte [OF assms, of "b + of_nat i"] i by (auto simp: span_def Let_def split: if_splits)
  qed (use F' in simp)
  then show ?thesis by (simp add: cs' Some)
qed

text \<open>Patches of different bytes do not depend on their order.\<close>

lemma patches_commute:
  assumes "inv m" "patch m a bs = Some m1" "patch m1 b cs = Some m12" "patch m b cs = Some m2" "patch m2 a bs = Some m21"
    and "span a (length bs) \<inter> span b (length cs) = {}"
  shows "byte m12 = byte m21"
proof
  fix x
  show "byte m12 x = byte m21 x"
    using patch_byte [OF assms(1,2), of x] patch_byte [OF patch_inv [OF assms(1,2)] assms(3), of x]
      patch_byte [OF assms(1,4), of x] patch_byte [OF patch_inv [OF assms(1,4)] assms(5), of x] assms(6)
    by auto
qed

end

section \<open>Patches of a map without overlaps\<close>

definition mm_patched :: "memory_map \<Rightarrow> addr \<Rightarrow> u8 list \<Rightarrow> memory_map option" where
  "mm_patched m a bs = (case mm_patch m a bs of Some (True, m') \<Rightarrow> Some m' | _ \<Rightarrow> None)"

definition mm_fetch :: "memory_map \<Rightarrow> addr \<Rightarrow> u64 \<Rightarrow> u8 list option" where
  "mm_fetch m a n = (case mm_read m a n of Inr bs \<Rightarrow> Some bs | Inl _ \<Rightarrow> None)"

definition mm_clean :: "memory_map \<Rightarrow> bool" where
  "mm_clean m \<longleftrightarrow> mm_ok m \<and> mm_disjoint m"

lemma seg_patch_True:
  assumes "seg_patch s a bs = Some (True, s')" and "range_contains (sg_range s) a" and "seg_ok s"
  shows "sg_range s' = sg_range s" and "seg_ok s'" and "span a (length bs) \<subseteq> range_set (sg_range s)"
    and "unat a + length bs < 2 ^ 64"
    and "seg_byte s' x = (if x \<in> span a (length bs) then bs ! (unat x - unat a) else seg_byte s x)"
proof -
  define off where "off = unat a - unat (seg_start s)"
  have st: "unat (seg_start s) \<le> unat a" using assms(2) by (simp add: range_contains_def seg_start_def word_le_nat_alt)
  then have sub: "u64_checked_sub a (ar_start (sg_range s)) = Some (a - seg_start s)" "unat (a - seg_start s) = off"
    by (simp_all add: u64_checked_sub_def seg_start_def word_le_nat_alt unat_sub off_def)
  then have fits: "off + length bs \<le> length (sg_data s)"
    and s': "s' = s\<lparr>sg_data := take off (sg_data s) @ bs @ drop (off + length bs) (sg_data s)\<rparr>"
    using assms(1) by (auto simp: seg_patch_def split: if_splits)
  show rng: "sg_range s' = sg_range s" by (simp add: s')
  have len: "length (sg_data s') = length (sg_data s)" using fits by (simp add: s')
  then show "seg_ok s'" using assms(3) by (simp add: seg_ok_def rng)
  have "range_ok (sg_range s)" using assms(3) by (simp add: seg_ok_def)
  then have "unat (range_len (sg_range s)) = unat (ar_end (sg_range s)) - unat (seg_start s)"
    by (simp add: range_len_unat seg_start_def)
  moreover have "length (sg_data s) \<le> unat (range_len (sg_range s))" using assms(3) by (simp add: seg_ok_def)
  moreover have "unat a < unat (ar_end (sg_range s))" using assms(2) by (simp add: range_contains_def word_less_nat_alt)
  ultimately have e: "unat a + length bs \<le> unat (ar_end (sg_range s))"
    using fits st unfolding off_def by linarith
  then show "span a (length bs) \<subseteq> range_set (sg_range s)"
    using assms(2) by (auto simp: span_def range_contains_def word_le_nat_alt word_less_nat_alt)
  show "unat a + length bs < 2 ^ 64" using e unat_lt_exp [of "ar_end (sg_range s)"] by simp
  show "seg_byte s' x = (if x \<in> span a (length bs) then bs ! (unat x - unat a) else seg_byte s x)"
  proof (cases "x \<in> span a (length bs)")
    case True
    then have x: "unat x - unat (seg_start s) = off + (unat x - unat a)" "unat x - unat a < length bs"
      using st by (auto simp: span_def off_def)
    then have "unat x - unat (seg_start s) < length (sg_data s')" using fits len by simp
    moreover have "seg_start s' = seg_start s" by (simp add: seg_start_def rng)
    moreover have "sg_data s' ! (off + (unat x - unat a)) = bs ! (unat x - unat a)"
      using fits x(2) by (simp add: s' nth_append)
    moreover have "seg_start s \<le> x" using True st by (simp add: span_def word_le_nat_alt)
    ultimately show ?thesis using True x by (simp add: seg_byte_def Let_def)
  next
    case False
    define j where "j = unat x - unat (seg_start s)"
    have start: "seg_start s' = seg_start s" by (simp add: seg_start_def rng)
    show ?thesis
    proof (cases "seg_start s \<le> x")
      case above: True
      then have "unat x = unat (seg_start s) + j" by (simp add: j_def word_le_nat_alt)
      then have j: "j < off \<or> off + length bs \<le> j" using False st by (auto simp: span_def off_def)
      have "sg_data s' ! j = sg_data s ! j" if "j < length (sg_data s)"
        using that fits j by (auto simp: s' nth_append)
      then show ?thesis using False above len by (simp add: seg_byte_def Let_def start j_def)
    qed (use False in \<open>simp add: seg_byte_def start\<close>)
  qed
qed

lemma seg_patch_None_True: "seg_patch s a bs = Some (ok, s') \<Longrightarrow> \<not> ok \<Longrightarrow> s' = s"
  by (auto simp: seg_patch_def split: option.splits if_splits)

lemma mm_patch_split: "\<forall>t\<in>set ys. \<not> range_contains (sg_range t) a \<Longrightarrow> range_contains (sg_range s) a \<Longrightarrow>
  mm_patch (ys @ s # zs) a bs = map_option (\<lambda>(ok, s). (ok, ys @ s # zs)) (seg_patch s a bs)"
  by (induction ys) (auto simp: option.map_comp intro!: option.map_cong0)

lemma mm_patch_True:
  assumes "mm_clean m" and "mm_patched m a bs = Some m'"
  obtains ys s s' zs where "m = ys @ s # zs" "m' = ys @ s' # zs" "range_contains (sg_range s) a" "seg_patch s a bs = Some (True, s')"
    "\<forall>t\<in>set ys \<union> set zs. range_set (sg_range t) \<inter> range_set (sg_range s) = {}"
proof -
  have "\<exists>s\<in>set m. range_contains (sg_range s) a"
  proof (rule ccontr)
    assume "\<not> ?thesis"
    then have "mm_patch m a bs = Some (False, m)" by (induction m) auto
    then show False using assms(2) by (simp add: mm_patched_def)
  qed
  from split_list_first_prop [OF this] obtain ys s zs where m: "m = ys @ s # zs" and s: "range_contains (sg_range s) a"
    and ys: "\<forall>t\<in>set ys. \<not> range_contains (sg_range t) a"
    by blast
  have d: "\<forall>t\<in>set ys \<union> set zs. range_set (sg_range t) \<inter> range_set (sg_range s) = {}"
  proof -
    have "\<forall>t\<in>set ys. range_set (sg_range t) \<inter> range_set (sg_range s) = {}"
      and "\<forall>t\<in>set zs. range_set (sg_range s) \<inter> range_set (sg_range t) = {}"
      using assms(1) unfolding m mm_clean_def mm_disjoint_def by (simp_all add: sorted_wrt_append)
    then show ?thesis by (metis Int_commute Un_iff)
  qed
  have p: "mm_patch m a bs = map_option (\<lambda>(ok, s). (ok, ys @ s # zs)) (seg_patch s a bs)"
    using mm_patch_split [OF ys s] m by simp
  obtain r where r: "seg_patch s a bs = Some r"
    using assms(2) p by (cases "seg_patch s a bs") (simp_all add: mm_patched_def)
  obtain ok s' where ok: "r = (ok, s')" by (cases r)
  have "ok \<and> m' = ys @ s' # zs" using assms(2) by (cases ok) (simp_all add: mm_patched_def p r ok)
  then show ?thesis by (intro that [OF m _ s _ d]) (simp_all add: r ok)
qed

lemma mm_patched_clean:
  assumes "mm_clean m" and "mm_patched m a bs = Some m'"
  shows "mm_clean m'"
proof -
  obtain ys s s' zs where m: "m = ys @ s # zs" "m' = ys @ s' # zs" and s: "range_contains (sg_range s) a" "seg_patch s a bs = Some (True, s')"
    using mm_patch_True [OF assms] by metis
  have "seg_ok s" using assms(1) by (simp add: m mm_clean_def mm_ok_def)
  note P = seg_patch_True [OF s(2,1) this]
  have "seg_start s' = seg_start s" by (simp add: seg_start_def P(1))
  then show ?thesis
    using assms(1) P(1,2) by (simp add: m mm_clean_def mm_ok_def mm_sorted_def mm_disjoint_def sorted_wrt_append)
qed

lemma mm_patched_byte:
  assumes "mm_clean m" and "mm_patched m a bs = Some m'"
  shows "unat a + length bs < 2 ^ 64 \<and> mm_byte m' x = (if x \<in> span a (length bs) then Some (bs ! (unat x - unat a)) else mm_byte m x)"
proof -
  obtain ys s s' zs where m: "m = ys @ s # zs" "m' = ys @ s' # zs" and s: "range_contains (sg_range s) a" "seg_patch s a bs = Some (True, s')"
    and d: "\<forall>t\<in>set ys \<union> set zs. range_set (sg_range t) \<inter> range_set (sg_range s) = {}"
    using mm_patch_True [OF assms] by metis
  have "seg_ok s" using assms(1) by (simp add: m mm_clean_def mm_ok_def)
  note P = seg_patch_True [OF s(2,1) this]
  have srt: "mm_sorted m" "mm_sorted m'"
    using assms(1) mm_patched_clean [OF assms] by (simp_all add: mm_clean_def mm_ok_def)
  show ?thesis
  proof (cases "range_contains (sg_range s) x")
    case True
    then have zs: "\<forall>t\<in>set zs. \<not> range_contains (sg_range t) x" using d by (auto simp: range_set_def)
    then have "segment_at m x = Some s" "segment_at m' x = Some s'"
      using srt True P(1) unfolding m by (auto intro: segment_at_last)
    then show ?thesis using P(4,5) by (simp add: mm_byte_def)
  next
    case False
    then have "segment_at m' x = segment_at m x"
      using P(1) by (simp add: segment_at_sorted [OF srt(1)] segment_at_sorted [OF srt(2)]) (auto simp: m find_append_opt split: option.split)
    moreover have "x \<notin> span a (length bs)" using P(3) False by (auto simp: range_set_def)
    ultimately show ?thesis using P(4) by (simp add: mm_byte_def)
  qed
qed

lemma mm_fetch_bytes:
  assumes "mm_clean m" and "mm_fetch m a n = Some bs"
  shows "length bs = unat n \<and> unat a + unat n < 2 ^ 64 \<and> (\<forall>i<unat n. mm_byte m (a + of_nat i) = Some (bs ! i))"
proof -
  have srt: "mm_sorted m" using assms(1) by (simp add: mm_clean_def mm_ok_def)
  obtain s where at: "segment_at m a = Some s" and r: "seg_read s a n = Some bs"
    using assms(2) by (auto simp: mm_fetch_def mm_read_Inr split: sum.splits)
  note R = r [unfolded seg_read_Some]
  obtain ys zs where m: "m = ys @ s # zs" and "range_contains (sg_range s) a"
    using at unfolding segment_at_Some [OF srt] by blast
  have d: "\<forall>t\<in>set zs. range_set (sg_range s) \<inter> range_set (sg_range t) = {}"
    using assms(1) unfolding m mm_clean_def mm_disjoint_def by (simp add: sorted_wrt_append)
  have "mm_byte m (a + of_nat i) = Some (bs ! i)" if i: "i < unat n" for i
  proof -
    have "unat (a + of_nat i) = unat a + i" using R i by (simp add: unat_add_small unat_of_nat_small)
    then have c: "range_contains (sg_range s) (a + of_nat i)"
      using R i by (simp add: range_contains_def word_le_nat_alt word_less_nat_alt)
    then have "\<forall>t\<in>set zs. \<not> range_contains (sg_range t) (a + of_nat i)" using d by (auto simp: range_set_def)
    then have "segment_at m (a + of_nat i) = Some s" using c srt unfolding m by (auto intro: segment_at_last)
    then show ?thesis using R i by (simp add: mm_byte_def)
  qed
  then show ?thesis using R by blast
qed

text \<open>A patch changes no range, so the reads that succeed are those of before; one that succeeded
  wrote inside the file part of a single segment.\<close>

lemma mm_fetch_None:
  "mm_fetch m b n = None \<longleftrightarrow> (case map_option sg_range (segment_at m b) of None \<Rightarrow> True
    | Some r \<Rightarrow> \<not> (unat b + unat n < 2 ^ 64 \<and> ar_start r \<le> b \<and> unat b + unat n \<le> unat (ar_end r)))"
  by (cases "segment_at m b") (simp_all add: mm_fetch_def mm_read_def seg_read_bytes seg_start_def del: not_less not_le)

lemma mm_patched_at:
  assumes "mm_clean m" and "mm_patched m a bs = Some m'"
  shows "map_option sg_range (segment_at m' b) = map_option sg_range (segment_at m b)"
    and "unat n = length bs \<Longrightarrow> mm_fetch m a n \<noteq> None"
proof -
  obtain ys s s' zs where m: "m = ys @ s # zs" "m' = ys @ s' # zs" and s: "range_contains (sg_range s) a" "seg_patch s a bs = Some (True, s')"
    and d: "\<forall>t\<in>set ys \<union> set zs. range_set (sg_range t) \<inter> range_set (sg_range s) = {}"
    using mm_patch_True [OF assms] by metis
  have ok: "seg_ok s" using assms(1) by (simp add: m mm_clean_def mm_ok_def)
  note P = seg_patch_True [OF s(2,1) ok]
  have srt: "mm_sorted m" "mm_sorted m'"
    using assms(1) mm_patched_clean [OF assms] by (simp_all add: mm_clean_def mm_ok_def)
  show "map_option sg_range (segment_at m' b) = map_option sg_range (segment_at m b)"
    by (simp add: segment_at_sorted [OF srt(1)] segment_at_sorted [OF srt(2)])
      (simp add: m find_append_opt P(1) split: option.split)
  show "mm_fetch m a n \<noteq> None" if n: "unat n = length bs"
  proof -
    have "\<forall>t\<in>set zs. \<not> range_contains (sg_range t) a" using d s(1) by (auto simp: range_set_def)
    then have at: "segment_at m a = Some s" using srt(1) s(1) unfolding m by (auto intro: segment_at_last)
    have "unat a + length bs \<le> unat (ar_end (sg_range s))"
    proof (cases "length bs")
      case 0
      then show ?thesis using s(1) by (simp add: range_contains_def word_less_nat_alt)
    next
      case (Suc j)
      then have "unat (a + of_nat j) = unat a + j" using P(4) by (simp add: unat_add_small unat_of_nat_small)
      then have "a + of_nat j \<in> span a (length bs)" by (simp add: span_def Suc)
      then have "a + of_nat j \<in> range_set (sg_range s)" using P(3) by blast
      then show ?thesis using \<open>unat (a + of_nat j) = _\<close> Suc by (simp add: range_set_def range_contains_def word_less_nat_alt)
    qed
    then show ?thesis using P(4) s(1) by (simp add: mm_fetch_None at n range_contains_def)
  qed
qed

interpretation mm: image mm_clean mm_byte mm_fetch mm_patched
proof (unfold_locales, goal_cases)
  case (4 m a bs m' b n)
  then show ?case by (simp add: mm_fetch_None mm_patched_at(1))
qed (fact mm_fetch_bytes mm_patched_clean mm_patched_byte mm_patched_at(2))+

lemma mm_read_fetch: "mm_read m a n = (case mm_fetch m a n of None \<Rightarrow> Inl (Unmapped a) | Some bs \<Rightarrow> Inr bs)"
  by (auto simp: mm_fetch_def mm_read_def split: option.split sum.split)

end
