(* ===== verification/Core_Reader.thy ===== *)
theory Core_Reader
  imports Core_Bytes
begin

text \<open>
  The bounds-checked cursor of \<open>crates/e5r-core/src/reader.rs\<close>. A read returns its result and the
  cursor after it, also when it refuses. A slice is at most \<open>isize::MAX\<close> bytes long, so the code's
  conversions between \<open>usize\<close> and \<open>u64\<close> lose nothing; the locale \<open>cursor\<close> is what a loader relies on.
\<close>

section \<open>The cursor\<close>

record reader =
  rdr_data :: "u8 list"
  rdr_pos :: nat
  rdr_endian :: endian

type_synonym 'a reads = "reader \<Rightarrow> 'a core_result \<times> reader"

definition reader_new :: "u8 list \<Rightarrow> endian \<Rightarrow> reader" where
  "reader_new d e = \<lparr>rdr_data = d, rdr_pos = 0, rdr_endian = e\<rparr>"

definition reader_le :: "u8 list \<Rightarrow> reader" where "reader_le d = reader_new d Little"

definition rdr_len :: "reader \<Rightarrow> nat" where "rdr_len r = length (rdr_data r)"
definition rdr_is_empty :: "reader \<Rightarrow> bool" where "rdr_is_empty r \<longleftrightarrow> rdr_data r = []"

text \<open>A subtraction of \<open>usize\<close>, which panics below zero.\<close>

definition rdr_remaining :: "reader \<Rightarrow> nat panics" where
  "rdr_remaining r = (if rdr_pos r \<le> length (rdr_data r) then Some (length (rdr_data r) - rdr_pos r) else None)"

definition rdr_set_endian :: "endian \<Rightarrow> reader \<Rightarrow> reader" where
  "rdr_set_endian e r = r\<lparr>rdr_endian := e\<rparr>"

definition rdr_seek :: "string \<Rightarrow> nat \<Rightarrow> unit reads" where
  "rdr_seek what off r = (if off > length (rdr_data r) then (Inl (Out_of_bounds what off 0 (length (rdr_data r))), r)
     else (Inr (), r\<lparr>rdr_pos := off\<rparr>))"

definition rdr_skip :: "string \<Rightarrow> nat \<Rightarrow> unit reads" where
  "rdr_skip what n r = (if 2 ^ 64 \<le> rdr_pos r + n then (Inl (Out_of_bounds what (rdr_pos r) n (length (rdr_data r))), r)
     else rdr_seek what (rdr_pos r + n) r)"

definition rdr_bytes_at :: "reader \<Rightarrow> string \<Rightarrow> nat \<Rightarrow> nat \<Rightarrow> u8 list core_result" where
  "rdr_bytes_at r what off len = (let refuse = Inl (Out_of_bounds what off len (length (rdr_data r))) in
     if 2 ^ 64 \<le> off + len then refuse
     else if off + len > length (rdr_data r) then refuse
     else Inr (take len (drop off (rdr_data r))))"

definition rdr_slice_at :: "reader \<Rightarrow> string \<Rightarrow> nat \<Rightarrow> nat \<Rightarrow> reader core_result" where
  "rdr_slice_at r what off len = (case rdr_bytes_at r what off len of
     Inl e \<Rightarrow> Inl e | Inr d \<Rightarrow> Inr \<lparr>rdr_data = d, rdr_pos = 0, rdr_endian = rdr_endian r\<rparr>)"

definition rdr_bytes :: "string \<Rightarrow> nat \<Rightarrow> u8 list reads" where
  "rdr_bytes what len r = (case rdr_bytes_at r what (rdr_pos r) len of
     Inl e \<Rightarrow> (Inl e, r)
   | Inr out \<Rightarrow> (Inr out, r\<lparr>rdr_pos := rdr_pos r + length out\<rparr>))"

definition rdr_array :: "nat \<Rightarrow> string \<Rightarrow> u8 list reads" where
  "rdr_array n what = rdr_bytes what n"

definition rdr_map :: "(reader \<Rightarrow> 'a \<Rightarrow> 'b) \<Rightarrow> 'a reads \<Rightarrow> 'b reads" where
  "rdr_map f m r = (case m r of (Inl e, r) \<Rightarrow> (Inl e, r) | (Inr x, r) \<Rightarrow> (Inr (f r x), r))"

section \<open>Fixed-width fields\<close>

definition rdr_u8 :: "string \<Rightarrow> u8 reads" where
  "rdr_u8 what = rdr_map (\<lambda>_ b. hd b) (rdr_array 1 what)"

definition rdr_u16 :: "string \<Rightarrow> 16 word reads" where
  "rdr_u16 what = rdr_map (\<lambda>r b. of_nat (order_val (rdr_endian r) b)) (rdr_array 2 what)"

definition rdr_u32 :: "string \<Rightarrow> u32 reads" where
  "rdr_u32 what = rdr_map (\<lambda>r b. of_nat (order_val (rdr_endian r) b)) (rdr_array 4 what)"

definition rdr_u64 :: "string \<Rightarrow> u64 reads" where
  "rdr_u64 what = rdr_map (\<lambda>r b. of_nat (order_val (rdr_endian r) b)) (rdr_array 8 what)"

text \<open>The signed fields have the same bits, read as two's complement.\<close>

definition rdr_i8 :: "string \<Rightarrow> int reads" where "rdr_i8 what = rdr_map (\<lambda>_ w. sint w) (rdr_u8 what)"
definition rdr_i16 :: "string \<Rightarrow> int reads" where "rdr_i16 what = rdr_map (\<lambda>_ w. sint w) (rdr_u16 what)"
definition rdr_i32 :: "string \<Rightarrow> int reads" where "rdr_i32 what = rdr_map (\<lambda>_ w. sint w) (rdr_u32 what)"
definition rdr_i64 :: "string \<Rightarrow> int reads" where "rdr_i64 what = rdr_map (\<lambda>_ w. sint w) (rdr_u64 what)"

definition rdr_uword :: "string \<Rightarrow> bool \<Rightarrow> u64 reads" where
  "rdr_uword what wide = (if wide then rdr_u64 what else rdr_map (\<lambda>_ w. ucast w) (rdr_u32 what))"

section \<open>Strings\<close>

definition no_nul :: string where
  "no_nul = ''starts a string with no NUL terminator before the end of the table''"

definition rdr_cstr_at :: "reader \<Rightarrow> string \<Rightarrow> nat \<Rightarrow> nat \<Rightarrow> u8 list core_result" where
  "rdr_cstr_at r what off mx = (let avail = length (rdr_data r) in
     if off \<ge> avail then Inl (Out_of_bounds what off 1 avail)
     else let limit = min (min (off + mx) (2 ^ 64 - 1)) avail;
         window = take (limit - off) (drop off (rdr_data r))
       in if 0 \<in> set window then Inr (takeWhile (\<lambda>b. b \<noteq> 0) window) else Inl (Bad_field what off no_nul))"

section \<open>LEB128\<close>

definition past_64 :: string where "past_64 = ''continues a LEB128 past 64 bits of significance''"
definition too_long :: string where "too_long = ''makes a LEB128 longer than any 64-bit value needs''"

function uleb_loop :: "string \<Rightarrow> u64 \<Rightarrow> nat \<Rightarrow> u64 reads" where
  "uleb_loop what out shift r = (case rdr_u8 what r of
     (Inl e, r) \<Rightarrow> (Inl e, r)
   | (Inr b, r) \<Rightarrow>
       if shift \<ge> 64 \<and> b AND 0x7f \<noteq> 0 then (Inl (Bad_field what (unat b) past_64), r)
       else let out = (if shift < 64 then out OR push_bit shift (ucast (b AND 0x7f)) else out); shift = shift + 7
         in if b AND 0x80 = 0 then (Inr out, r)
            else if shift > 70 then (Inl (Bad_field what shift too_long), r)
            else uleb_loop what out shift r)"
  by pat_completeness auto
termination
  by (relation "measure (\<lambda>(what, out, shift, r). 71 - shift)") auto

definition rdr_uleb128 :: "string \<Rightarrow> u64 reads" where
  "rdr_uleb128 what = uleb_loop what 0 0"

function sleb_loop :: "string \<Rightarrow> u64 \<Rightarrow> nat \<Rightarrow> u64 reads" where
  "sleb_loop what out shift r = (case rdr_u8 what r of
     (Inl e, r) \<Rightarrow> (Inl e, r)
   | (Inr b, r) \<Rightarrow>
       let out = (if shift < 64 then out OR push_bit shift (ucast (b AND 0x7f)) else out); shift = shift + 7
         in if b AND 0x80 = 0 then (Inr (if shift < 64 \<and> b AND 0x40 \<noteq> 0 then out OR push_bit shift (- 1) else out), r)
            else if shift > 70 then (Inl (Bad_field what shift too_long), r)
            else sleb_loop what out shift r)"
  by pat_completeness auto
termination
  by (relation "measure (\<lambda>(what, out, shift, r). 71 - shift)") auto

declare uleb_loop.simps [simp del] sleb_loop.simps [simp del]

definition rdr_sleb128 :: "string \<Rightarrow> int reads" where
  "rdr_sleb128 what = rdr_map (\<lambda>_ w. sint w) (sleb_loop what 0 0)"

section \<open>What a loader relies on\<close>

definition rdr_ok :: "reader \<Rightarrow> bool" where
  "rdr_ok r \<longleftrightarrow> rdr_pos r \<le> length (rdr_data r) \<and> length (rdr_data r) < 2 ^ 63"

definition rdr_rest :: "reader \<Rightarrow> u8 list" where
  "rdr_rest r = drop (rdr_pos r) (rdr_data r)"

text \<open>A read that succeeds returns the next bytes and moves past them, one that refuses says that the
  bytes are not there and does not move.\<close>

locale cursor =
  fixes ok :: "'r \<Rightarrow> bool" and rest :: "'r \<Rightarrow> u8 list" and get :: "nat \<Rightarrow> 'r \<Rightarrow> (core_error + u8 list) \<times> 'r"
  assumes get_ok: "ok r \<Longrightarrow> n \<le> length (rest r) \<Longrightarrow> \<exists>r'. get n r = (Inr (take n (rest r)), r') \<and> ok r' \<and> rest r' = drop n (rest r)"
    and get_refuse: "ok r \<Longrightarrow> length (rest r) < n \<Longrightarrow> \<exists>e. get n r = (Inl e, r)"
begin

lemma get_Inr: "ok r \<Longrightarrow> get n r = (Inr bs, r') \<Longrightarrow> rest r = bs @ rest r' \<and> length bs = n \<and> ok r'"
  using get_ok [of r n] get_refuse [of r n] by (cases "n \<le> length (rest r)") auto

lemma get_Inl: "ok r \<Longrightarrow> get n r = (Inl e, r') \<Longrightarrow> length (rest r) < n \<and> r' = r"
  using get_ok [of r n] get_refuse [of r n] by (cases "n \<le> length (rest r)") auto

lemma get_prefix: "ok r \<Longrightarrow> rest r = bs @ post \<Longrightarrow> \<exists>r'. get (length bs) r = (Inr bs, r') \<and> ok r' \<and> rest r' = post"
  using get_ok [of r "length bs"] by simp

text \<open>Two reads in a row read one after the other.\<close>

lemma get_twice:
  "ok r \<Longrightarrow> get n r = (Inr xs, r1) \<Longrightarrow> get k r1 = (Inr ys, r2) \<Longrightarrow> \<exists>r3. get (n + k) r = (Inr (xs @ ys), r3) \<and> rest r3 = rest r2"
  using get_Inr [of r n xs r1] get_Inr [of r1 k ys r2] get_ok [of r "n + k"] by auto

end

lemma rdr_bytes_spec:
  assumes "rdr_ok r" and "n < 2 ^ 63"
  shows "rdr_bytes what n r = (if n \<le> length (rdr_rest r)
    then (Inr (take n (rdr_rest r)), r\<lparr>rdr_pos := rdr_pos r + n\<rparr>)
    else (Inl (Out_of_bounds what (rdr_pos r) n (length (rdr_data r))), r))"
  using assms by (auto simp: rdr_bytes_def rdr_bytes_at_def rdr_rest_def rdr_ok_def Let_def)

lemma rdr_bytes_big: "rdr_ok r \<Longrightarrow> 2 ^ 63 \<le> n \<Longrightarrow> \<exists>e. rdr_bytes what n r = (Inl e, r)"
  by (auto simp: rdr_bytes_def rdr_bytes_at_def rdr_ok_def Let_def)

interpretation rdr: cursor rdr_ok rdr_rest "\<lambda>n. rdr_bytes what n" for what
proof unfold_locales
  fix r n
  assume r: "rdr_ok r"
  show "\<exists>r'. rdr_bytes what n r = (Inr (take n (rdr_rest r)), r') \<and> rdr_ok r' \<and> rdr_rest r' = drop n (rdr_rest r)"
    if n: "n \<le> length (rdr_rest r)"
  proof -
    have "n \<le> length (rdr_data r)" using n unfolding rdr_rest_def by (metis diff_le_self le_trans length_drop)
    moreover have "length (rdr_data r) < 2 ^ 63" using r unfolding rdr_ok_def by blast
    ultimately have "n < 2 ^ 63" by (rule le_less_trans)
    then show ?thesis
      using rdr_bytes_spec [OF r] n r by (auto simp: rdr_ok_def rdr_rest_def add.commute)
  qed
  show "\<exists>e. rdr_bytes what n r = (Inl e, r)" if "length (rdr_rest r) < n"
    using rdr_bytes_spec [OF r, of n what] rdr_bytes_big [OF r, of n what] that by (cases "n < 2 ^ 63") auto
qed

end
