(* ===== verification/Core_Leb.thy ===== *)
theory Core_Leb
  imports Core_Reader
begin

text \<open>
  What the field and LEB128 reads of \<open>Core_Reader\<close> return: the value of the bytes at the cursor, for
  every encoder's output (\<open>order_bytes\<close>, \<open>uleb_enc\<close>, \<open>sleb_enc\<close>) and every byte string.
\<close>

section \<open>Moving past a prefix\<close>

definition rdr_adv :: "nat \<Rightarrow> reader \<Rightarrow> reader" where
  "rdr_adv n r = r\<lparr>rdr_pos := rdr_pos r + n\<rparr>"

lemma rdr_adv_simps [simp]:
  "rdr_endian (rdr_adv n r) = rdr_endian r"
  "rdr_data (rdr_adv n r) = rdr_data r"
  "rdr_pos (rdr_adv n r) = rdr_pos r + n"
  "rdr_adv 0 r = r"
  "rdr_adv n (rdr_adv k r) = rdr_adv (k + n) r"
  by (simp_all add: rdr_adv_def add.assoc)

lemma rdr_adv_rest: "rdr_rest r = bs @ post \<Longrightarrow> rdr_rest (rdr_adv (length bs) r) = post"
proof -
  assume b: "rdr_rest r = bs @ post"
  have "rdr_rest (rdr_adv (length bs) r) = drop (length bs) (rdr_rest r)" by (simp add: rdr_rest_def add.commute)
  then show ?thesis by (simp add: b)
qed

lemma rdr_adv_ok: "rdr_ok r \<Longrightarrow> rdr_rest r = bs @ post \<Longrightarrow> rdr_ok (rdr_adv (length bs) r)"
proof -
  assume r: "rdr_ok r" and b: "rdr_rest r = bs @ post"
  have "length bs \<le> length (rdr_rest r)" by (simp add: b)
  then show ?thesis using r by (auto simp: rdr_ok_def rdr_rest_def)
qed

lemma rdr_bytes_prefix:
  assumes "rdr_ok r" and "rdr_rest r = bs @ post"
  shows "rdr_bytes what (length bs) r = (Inr bs, rdr_adv (length bs) r)"
proof -
  obtain r' where "rdr_bytes what (length bs) r = (Inr bs, r')" using rdr.get_prefix [OF assms] by blast
  then show ?thesis by (auto simp: rdr_bytes_def rdr_adv_def split: sum.splits)
qed

lemma rdr_array_prefix:
  "rdr_ok r \<Longrightarrow> rdr_rest r = bs @ post \<Longrightarrow> n = length bs \<Longrightarrow> rdr_array n what r = (Inr bs, rdr_adv n r)"
  by (simp add: rdr_array_def rdr_bytes_prefix)

lemma rdr_u8_Cons: "rdr_ok r \<Longrightarrow> rdr_rest r = b # post \<Longrightarrow> rdr_u8 what r = (Inr b, rdr_adv 1 r)"
  using rdr_array_prefix [of r "[b]" post 1 what] by (simp add: rdr_u8_def rdr_map_def)

lemma rdr_u8_Nil: "rdr_ok r \<Longrightarrow> rdr_rest r = [] \<Longrightarrow> \<exists>e. rdr_u8 what r = (Inl e, r)"
  using rdr.get_refuse [of r 1 what] by (auto simp: rdr_u8_def rdr_map_def rdr_array_def)

lemma rdr_adv_Cons:
  "rdr_ok r \<Longrightarrow> rdr_rest r = b # post \<Longrightarrow> rdr_ok (rdr_adv 1 r) \<and> rdr_rest (rdr_adv 1 r) = post"
  using rdr_adv_ok [of r "[b]" post] rdr_adv_rest [of r "[b]" post] by simp

section \<open>Fixed-width fields\<close>

lemma order_bytes_val_word:
  fixes v :: "'a::len word"
  assumes "256 ^ n = (2 :: nat) ^ LENGTH('a)"
  shows "of_nat (order_val e (order_bytes e n (unat v))) = v"
proof -
  have "unat v < 256 ^ n" using unat_lt_exp [of v] assms by simp
  then show ?thesis by (simp add: order.dec_enc)
qed

lemma rdr_field:
  fixes v :: "'a::len word"
  assumes "rdr_ok r" and "rdr_rest r = order_bytes (rdr_endian r) n (unat v) @ post" and "256 ^ n = (2 :: nat) ^ LENGTH('a)"
  shows "rdr_map (\<lambda>r b. of_nat (order_val (rdr_endian r) b)) (rdr_array n what) r = (Inr v, rdr_adv n r)"
  using rdr_array_prefix [OF assms(1,2), of n what] assms(3)
  by (simp add: rdr_map_def order_bytes_val_word)

section \<open>The groups of a LEB128\<close>

lemma u8_low: "ucast (b AND 0x7f :: u8) = (of_nat (unat b mod 128) :: u64)"
proof -
  have "b AND 0x7f = b AND mask 7" by (simp add: mask_eq_exp_minus_1)
  also have "\<dots> = take_bit 7 b" by (simp add: take_bit_eq_mask)
  finally have "unat (b AND 0x7f) = unat b mod 128"
    by (simp add: unsigned_take_bit_eq) (simp add: take_bit_eq_mod)
  then have "unat (ucast (b AND 0x7f) :: u64) = unat b mod 128" by (subst unat_ucast_le) simp_all
  moreover have "unat (of_nat (unat b mod 128) :: u64) = unat b mod 128"
    by (rule unat_of_nat_small) (use mod_less_divisor [of 128 "unat b"] in simp)
  ultimately show ?thesis by (simp only: word_eq_iff_unat)
qed

lemma u8_bit: "k < 8 \<Longrightarrow> (b :: u8) AND push_bit k 1 = 0 \<longleftrightarrow> even (unat b div 2 ^ k)"
proof -
  assume k: "k < 8"
  have "b AND push_bit k 1 = 0 \<longleftrightarrow> \<not> bit b k"
  proof
    assume z: "b AND push_bit k 1 = 0"
    then have "bit (b AND push_bit k 1) k = bit (0 :: u8) k" by simp
    then show "\<not> bit b k" using k by (simp add: bit_and_iff bit_push_bit_iff del: push_bit_of_1)
  next
    assume "\<not> bit b k"
    then show "b AND push_bit k 1 = 0"
      by (intro bit_eqI) (auto simp: bit_and_iff bit_push_bit_iff bit_1_iff simp del: push_bit_of_1)
  qed
  also have "\<dots> \<longleftrightarrow> even (unat b div 2 ^ k)"
    using k bit_unsigned_iff [of b k, where ?'a = nat] by (simp add: bit_iff_odd)
  finally show ?thesis .
qed

lemma u8_high: "(b :: u8) AND 0x80 = 0 \<longleftrightarrow> unat b < 128"
proof -
  have "(b AND 0x80 = 0) = even (unat b div 128)" using u8_bit [of 7 b] by (simp add: push_bit_eq_mult del: push_bit_of_1)
  moreover have "unat b div 128 = 0 \<or> unat b div 128 = 1" using unat_u8_less [of b] by linarith
  ultimately show ?thesis using unat_u8_less [of b] by auto
qed

lemma even_div_64: "even (n div 64) \<longleftrightarrow> n mod 128 < (64 :: nat)"
proof -
  have n: "n mod 128 = 64 * (n div 64 mod 2) + n mod 64" using mod_mult2_eq [of n 64 2] by simp
  show ?thesis
  proof (cases "even (n div 64)")
    case False
    then have "n div 64 mod 2 = 1" by (simp add: odd_iff_mod_2_eq_one)
    then show ?thesis using n False by simp
  qed (use n in \<open>simp add: even_iff_mod_2_eq_zero\<close>)
qed

lemma u8_sign: "(b :: u8) AND 0x40 = 0 \<longleftrightarrow> unat b mod 128 < 64"
  using u8_bit [of 6 b] by (simp add: push_bit_eq_mult even_div_64 del: push_bit_of_1)

section \<open>Unsigned values\<close>

text \<open>The encoding that the format describes: groups of seven bits, the lowest first, every group but
  the last marked with the high bit.\<close>

fun uleb_enc :: "nat \<Rightarrow> u8 list" where
  "uleb_enc v = (if v < 128 then [of_nat v] else of_nat (v mod 128 + 128) # uleb_enc (v div 128))"

declare uleb_enc.simps [simp del]

text \<open>A group list ends with its first unmarked byte; its value is the one the format gives it.\<close>

fun leb_groups :: "u8 list \<Rightarrow> bool" where
  "leb_groups [] = False"
| "leb_groups (b # bs) = (if unat b < 128 then bs = [] else leb_groups bs)"

fun leb_val :: "u8 list \<Rightarrow> nat" where
  "leb_val [] = 0"
| "leb_val (b # bs) = unat b mod 128 + 128 * leb_val bs"

lemma unat_group: "v < 256 \<Longrightarrow> unat (of_nat v :: u8) = v"
  by (rule unat_of_nat_small) simp

lemma unat_marked: "unat (of_nat (v mod 128 + 128) :: u8) = v mod 128 + 128"
  by (rule unat_group) (use mod_less_divisor [of 128 v] in linarith)

lemma uleb_enc_val: "leb_val (uleb_enc v) = v"
proof (induction v rule: uleb_enc.induct)
  case (1 v)
  show ?case using 1 by (subst uleb_enc.simps) (simp add: unat_group unat_marked del: of_nat_add)
qed

lemma uleb_enc_groups: "leb_groups (uleb_enc v)"
proof (induction v rule: uleb_enc.induct)
  case (1 v)
  show ?case using 1 by (subst uleb_enc.simps) (simp add: unat_group unat_marked del: of_nat_add)
qed

lemma leb_step:
  assumes "unat out < 2 ^ shift"
  shows "out OR push_bit shift (ucast (b AND 0x7f :: u8)) = out + (of_nat (2 ^ shift * (unat b mod 128)) :: u64)"
  using or_add [OF assms, of "ucast (b AND 0x7f)"] by (simp add: u8_low push_bit_eq_mult)

lemma leb_bound:
  assumes "n < 2 ^ shift"
  shows "n + 2 ^ shift * (k mod 128) < (2 :: nat) ^ (shift + 7)"
proof -
  have "k mod 128 \<le> (127 :: nat)" using mod_less_divisor [of 128 k] by linarith
  then have "2 ^ shift * (k mod 128) \<le> 2 ^ shift * (127 :: nat)" by (rule mult_le_mono2)
  moreover have "(2 :: nat) ^ (shift + 7) = 2 ^ shift * 127 + 2 ^ shift" by (simp add: power_add)
  ultimately show ?thesis using assms by linarith
qed

text \<open>A group below bit 57 fits whole.\<close>

lemma leb_fits:
  assumes "unat out < 2 ^ shift" and "shift + 7 \<le> 64"
  shows "unat (out + of_nat (2 ^ shift * (k mod 128)) :: u64) = unat out + 2 ^ shift * (k mod 128)"
    and "unat (out + of_nat (2 ^ shift * (k mod 128)) :: u64) < 2 ^ (shift + 7)"
proof -
  note b = leb_bound [OF assms(1), of k]
  have "(2 :: nat) ^ (shift + 7) \<le> 2 ^ 64" by (rule power_increasing) (use assms(2) in simp_all)
  then have lt: "unat out + 2 ^ shift * (k mod 128) < 2 ^ 64" using b by linarith
  have u: "unat (of_nat (2 ^ shift * (k mod 128)) :: u64) = 2 ^ shift * (k mod 128)"
    by (rule unat_of_nat_small) (use lt in simp)
  show e: "unat (out + of_nat (2 ^ shift * (k mod 128)) :: u64) = unat out + 2 ^ shift * (k mod 128)"
    using unat_add_small [of out "of_nat (2 ^ shift * (k mod 128))"] lt u by (simp del: of_nat_mult)
  show "unat (out + of_nat (2 ^ shift * (k mod 128)) :: u64) < 2 ^ (shift + 7)"
    using b by (simp only: e)
qed

lemma uleb_enc_length: "v < 128 ^ Suc n \<Longrightarrow> length (uleb_enc v) \<le> Suc n"
proof (induction n arbitrary: v)
  case 0
  then show ?case by (subst uleb_enc.simps) simp
next
  case (Suc n)
  have "v div 128 < 128 ^ Suc n" using Suc.prems by (simp add: less_mult_imp_div_less mult.commute)
  then show ?case using Suc.IH [of "v div 128"] by (subst uleb_enc.simps) simp
qed

definition out_below :: "u64 \<Rightarrow> nat \<Rightarrow> bool" where
  "out_below out shift \<longleftrightarrow> shift < 64 \<longrightarrow> unat out < 2 ^ shift"

lemma out_below_step:
  assumes "out_below out shift" and "shift < 64"
  shows "out_below (out + of_nat (2 ^ shift * (k mod 128))) (shift + 7)"
  using assms leb_fits(2) [of out shift k] by (simp add: out_below_def)

lemma word_big_0: "64 \<le> shift \<Longrightarrow> (of_nat (2 ^ shift * n) :: u64) = 0"
proof -
  assume "64 \<le> shift"
  then obtain k where "shift = 64 + k" by (metis le_Suc_ex)
  then have "2 ^ shift * n = 2 ^ LENGTH(64) * (2 ^ k * n)" by (simp add: power_add)
  then show ?thesis by (simp only: word_of_nat_eq_0_iff) simp
qed

lemma uleb_loop_groups:
  assumes "rdr_ok r" and "rdr_rest r = bs @ post" and "leb_groups bs" and "out_below out shift"
    and "shift + 7 * length bs \<le> 70 \<or> shift + 7 * length bs \<le> 77 \<and> 2 ^ shift * leb_val bs < 2 ^ 64"
  shows "uleb_loop what out shift r = (Inr (out + of_nat (2 ^ shift * leb_val bs)), rdr_adv (length bs) r)"
  using assms
proof (induction bs arbitrary: out shift r)
  case (Cons b bs)
  define k where "k = unat b mod 128"
  have u8: "rdr_u8 what r = (Inr b, rdr_adv 1 r)" using Cons.prems by (intro rdr_u8_Cons) auto
  have r1: "rdr_ok (rdr_adv 1 r)" "rdr_rest (rdr_adv 1 r) = bs @ post" using rdr_adv_Cons Cons.prems by auto
  define out' where "out' = (if shift < 64 then out OR push_bit shift (ucast (b AND 0x7f)) else out)"
  have zero: "k = 0" if "64 \<le> shift"
  proof -
    have "2 ^ shift * leb_val (b # bs) < 2 ^ 64" using Cons.prems(5) that by auto
    moreover have "(2 :: nat) ^ 64 \<le> 2 ^ shift" by (rule power_increasing) (use that in simp_all)
    ultimately have "2 ^ shift * leb_val (b # bs) < 2 ^ shift * 1" by linarith
    then have "leb_val (b # bs) < 1" by (simp only: mult_less_cancel1)
    then show ?thesis by (simp add: k_def)
  qed
  have out': "out' = out + of_nat (2 ^ shift * k)"
    using leb_step [of out shift b] zero Cons.prems(4) by (simp add: out'_def k_def out_below_def)
  have below: "out_below out' (shift + 7)"
    using out_below_step [OF Cons.prems(4), of "unat b"] by (cases "shift < 64") (simp_all add: out' k_def out_below_def)
  have ok: "\<not> (shift \<ge> 64 \<and> b AND 0x7f \<noteq> 0)"
  proof -
    have "b AND 0x7f = 0" if "k = 0"
    proof -
      have "unat (ucast (b AND 0x7f) :: u64) = 0" using that by (simp add: u8_low k_def)
      then have "unat (b AND 0x7f) = 0" by (subst (asm) unat_ucast_le) simp_all
      then show ?thesis by (simp add: unat_eq_zero)
    qed
    then show ?thesis using zero by auto
  qed
  have step: "uleb_loop what out shift r = (if b AND 0x80 = 0 then (Inr out', rdr_adv 1 r)
      else if shift + 7 > 70 then (Inl (Bad_field what (shift + 7) too_long), rdr_adv 1 r)
      else uleb_loop what out' (shift + 7) (rdr_adv 1 r))"
    using ok by (subst uleb_loop.simps) (simp add: u8 out'_def Let_def)
  show ?case
  proof (cases "unat b < 128")
    case True
    then have "bs = []" using Cons.prems(3) by simp
    then show ?thesis using True step by (simp add: u8_high out' k_def)
  next
    case False
    then have g: "leb_groups bs" using Cons.prems(3) by simp
    then have ne: "bs \<noteq> []" by auto
    have val: "2 ^ shift * leb_val (b # bs) = 2 ^ shift * k + 2 ^ (shift + 7) * leb_val bs"
      by (simp add: k_def power_add algebra_simps)
    have "uleb_loop what out' (shift + 7) (rdr_adv 1 r)
        = (Inr (out' + of_nat (2 ^ (shift + 7) * leb_val bs)), rdr_adv (length bs) (rdr_adv 1 r))"
      using Cons.prems(5) val by (intro Cons.IH [OF r1 g below]) auto
    moreover have "\<not> shift + 7 > 70" using Cons.prems(5) ne by (cases bs) auto
    ultimately show ?thesis using False step val by (simp add: u8_high out' algebra_simps)
  qed
qed simp

lemma rdr_uleb128_groups:
  assumes "rdr_ok r" and "rdr_rest r = bs @ post" and "leb_groups bs"
    and "length bs \<le> 10 \<or> length bs \<le> 11 \<and> leb_val bs < 2 ^ 64"
  shows "rdr_uleb128 what r = (Inr (of_nat (leb_val bs)), rdr_adv (length bs) r)"
  using uleb_loop_groups [OF assms(1-3), of 0 0 what] assms(4) by (auto simp: rdr_uleb128_def out_below_def)

text \<open>A value whose groups run past the end of the bytes, or past eleven of them, is refused.\<close>

lemma uleb_loop_open:
  assumes "rdr_ok r" and "\<forall>b\<in>set (take n (rdr_rest r)). 128 \<le> unat b" and "n = length (rdr_rest r) \<or> 70 < shift + 7 * n"
    and "n \<le> length (rdr_rest r)" and "n = 0 \<longrightarrow> shift \<le> 70"
  shows "\<exists>e r'. uleb_loop what out shift r = (Inl e, r')"
  using assms
proof (induction n arbitrary: out shift r)
  case 0
  then have "rdr_rest r = []" by simp
  then obtain e where "rdr_u8 what r = (Inl e, r)" using rdr_u8_Nil "0.prems"(1) by blast
  then show ?case by (subst uleb_loop.simps) simp
next
  case (Suc n)
  then obtain b post where r: "rdr_rest r = b # post" by (cases "rdr_rest r") auto
  have u8: "rdr_u8 what r = (Inr b, rdr_adv 1 r)" using Suc.prems(1) r by (rule rdr_u8_Cons)
  have r1: "rdr_ok (rdr_adv 1 r)" "rdr_rest (rdr_adv 1 r) = post" using rdr_adv_Cons [OF Suc.prems(1) r] by auto
  have high: "b AND 0x80 \<noteq> 0" using Suc.prems(2) r by (simp add: u8_high)
  have "\<exists>e r'. uleb_loop what out' (shift + 7) (rdr_adv 1 r) = (Inl e, r')" if "\<not> 70 < shift + 7" for out'
    using Suc.prems r r1 that by (intro Suc.IH) auto
  then show ?case by (subst uleb_loop.simps) (auto simp: u8 high Let_def)
qed

lemma rdr_uleb128_open:
  assumes "rdr_ok r" and "\<forall>b\<in>set (take 11 (rdr_rest r)). 128 \<le> unat b"
  shows "\<exists>e r'. rdr_uleb128 what r = (Inl e, r')"
proof (cases "11 \<le> length (rdr_rest r)")
  case True
  then show ?thesis using assms uleb_loop_open [of r 11 0 what 0] by (simp add: rdr_uleb128_def)
next
  case False
  then have "take 11 (rdr_rest r) = rdr_rest r" by simp
  then show ?thesis using assms uleb_loop_open [of r "length (rdr_rest r)" 0 what 0] by (simp add: rdr_uleb128_def)
qed

section \<open>Signed values\<close>

text \<open>The encoding of a signed value: bit six of the last group is its sign.\<close>

function sleb_enc :: "int \<Rightarrow> u8 list" where
  "sleb_enc v = (if -64 \<le> v \<and> v < 64 then [of_int (v mod 128)] else of_int (v mod 128 + 128) # sleb_enc (v div 128))"
  by pat_completeness auto
termination
  by (relation "measure (\<lambda>v. nat (if 0 \<le> v then v else - v))") auto

declare sleb_enc.simps [simp del]

fun sleb_val :: "u8 list \<Rightarrow> int" where
  "sleb_val [] = 0"
| "sleb_val (b # bs) = (let k = int (unat b mod 128) in
     if bs = [] then if k < 64 then k else k - 128 else k + 128 * sleb_val bs)"

lemma unat_int_group: "0 \<le> v \<Longrightarrow> v < 256 \<Longrightarrow> int (unat (of_int v :: u8)) = v"
  by (subst unat_of_int_small) simp_all

lemma sleb_enc_ne: "sleb_enc v \<noteq> []"
  by (subst sleb_enc.simps) simp

lemma sleb_enc_val: "sleb_val (sleb_enc v) = v \<and> leb_groups (sleb_enc v)"
proof (induction v rule: sleb_enc.induct)
  case (1 v)
  have m: "0 \<le> v mod 128" "v mod 128 < 128" by simp_all
  show ?case
  proof (cases "-64 \<le> v \<and> v < 64")
    case True
    define w :: u8 where "w = of_int (v mod 128)"
    have w: "int (unat w) = v mod 128" unfolding w_def by (rule unat_int_group) (use m in linarith)+
    then have lt: "unat w < 128" using m by linarith
    have "v mod 128 = (if 0 \<le> v then v else v + 128)"
      using True mod_pos_pos_trivial [of "v + 128" 128] by (auto intro: mod_pos_pos_trivial)
    then have "sleb_val [w] = v" using True lt w by (simp add: Let_def split: if_splits)
    moreover have "sleb_enc v = [w]" using True by (subst sleb_enc.simps) (simp add: w_def)
    ultimately show ?thesis using lt by simp
  next
    case False
    define w :: u8 where "w = of_int (v mod 128 + 128)"
    have w: "int (unat w) = v mod 128 + 128" unfolding w_def by (rule unat_int_group) (use m in linarith)+
    then have ge: "128 \<le> unat w" using m by linarith
    have "int (unat w mod 128) = v mod 128" using w by (simp add: zmod_int)
    then have "sleb_val (w # sleb_enc (v div 128)) = v"
      using False 1 sleb_enc_ne [of "v div 128"] by (simp add: Let_def)
    moreover have "sleb_enc v = w # sleb_enc (v div 128)" using False by (subst sleb_enc.simps) (simp add: w_def)
    ultimately show ?thesis using ge False 1 by simp
  qed
qed

lemma sleb_enc_length: "- (64 * 128 ^ n) \<le> v \<Longrightarrow> v < 64 * 128 ^ n \<Longrightarrow> length (sleb_enc v) \<le> Suc n"
proof (induction n arbitrary: v)
  case 0
  then show ?case by (subst sleb_enc.simps) simp
next
  case (Suc n)
  have "- (64 * 128 ^ n) \<le> v div 128" "v div 128 < 64 * 128 ^ n" using Suc.prems by simp_all
  then show ?case using Suc.IH [of "v div 128"] by (subst sleb_enc.simps) simp
qed

definition int64 :: "int \<Rightarrow> u64" where "int64 v = of_int v"

lemma int64_simps: "int64 (a + b) = int64 a + int64 b" "int64 (int n) = of_nat n" "int64 0 = 0"
  by (simp_all add: int64_def)

lemma int64_big_0: "64 \<le> shift \<Longrightarrow> int64 (2 ^ shift * n) = 0"
proof -
  assume "64 \<le> shift"
  then have "(2 :: u64) ^ shift = 0" using word_big_0 [of shift 1] by simp
  moreover have "int64 (2 ^ shift * n) = 2 ^ shift * of_int n" by (simp add: int64_def)
  ultimately show ?thesis by (simp only: mult_zero_left)
qed

lemma leb_or:
  assumes "out_below out shift"
  shows "(if shift < 64 then out OR push_bit shift (ucast (b AND 0x7f :: u8)) else out)
    = out + int64 (2 ^ shift * int (unat b mod 128))"
proof (cases "shift < 64")
  case True
  then have "out OR push_bit shift (ucast (b AND 0x7f)) = out + of_nat (2 ^ shift * (unat b mod 128))"
    using assms by (intro leb_step) (simp add: out_below_def)
  then show ?thesis using True by (simp add: int64_def)
next
  case False
  then show ?thesis using int64_big_0 [of shift] by simp
qed

lemma leb_sign_or:
  assumes "out_below out shift"
  shows "(if shift < 64 then out OR push_bit shift (- 1) else out) = out + int64 (- (2 ^ shift))"
proof (cases "shift < 64")
  case True
  then have "out OR push_bit shift (- 1) = out + push_bit shift (- 1)"
    using assms by (intro or_add) (simp add: out_below_def)
  then show ?thesis using True by (simp add: int64_def push_bit_eq_mult)
next
  case False
  then show ?thesis using int64_big_0 [of shift "- 1"] by simp
qed

lemma out_below_int64:
  assumes "out_below out shift"
  shows "out_below (out + int64 (2 ^ shift * int (unat b mod 128))) (shift + 7)"
proof (cases "shift < 64")
  case True
  then show ?thesis using out_below_step [OF assms True, of "unat b"] by (simp add: int64_def)
qed (simp add: out_below_def)

lemma sleb_loop_groups:
  assumes "rdr_ok r" and "rdr_rest r = bs @ post" and "leb_groups bs" and "out_below out shift" and "shift + 7 * length bs \<le> 77"
  shows "sleb_loop what out shift r = (Inr (out + int64 (2 ^ shift * sleb_val bs)), rdr_adv (length bs) r)"
  using assms
proof (induction bs arbitrary: out shift r)
  case (Cons b bs)
  define k where "k = int (unat b mod 128)"
  have u8: "rdr_u8 what r = (Inr b, rdr_adv 1 r)" using Cons.prems by (intro rdr_u8_Cons) auto
  have r1: "rdr_ok (rdr_adv 1 r)" "rdr_rest (rdr_adv 1 r) = bs @ post" using rdr_adv_Cons Cons.prems by auto
  define out' where "out' = out + int64 (2 ^ shift * k)"
  note below = out_below_int64 [OF Cons.prems(4), of b, folded k_def, folded out'_def]
  have sign: "b AND 0x40 = 0 \<longleftrightarrow> k < 64" by (simp add: u8_sign k_def)
  have step: "sleb_loop what out shift r = (if b AND 0x80 = 0
      then (Inr (if shift + 7 < 64 \<and> b AND 0x40 \<noteq> 0 then out' OR push_bit (shift + 7) (- 1) else out'), rdr_adv 1 r)
      else if shift + 7 > 70 then (Inl (Bad_field what (shift + 7) too_long), rdr_adv 1 r)
      else sleb_loop what out' (shift + 7) (rdr_adv 1 r))"
    by (subst sleb_loop.simps) (simp add: u8 leb_or [OF Cons.prems(4)] out'_def k_def Let_def)
  show ?case
  proof (cases "unat b < 128")
    case True
    then have bs: "bs = []" using Cons.prems(3) by simp
    have "(if shift + 7 < 64 \<and> b AND 0x40 \<noteq> 0 then out' OR push_bit (shift + 7) (- 1) else out')
        = (if k < 64 then out' else out' + int64 (- (2 ^ (shift + 7))))"
      using leb_sign_or [OF below] sign by (auto split: if_splits)
    also have "\<dots> = out + int64 (2 ^ shift * sleb_val [b])"
      by (simp add: out'_def Let_def algebra_simps power_add flip: k_def int64_simps(1))
    finally show ?thesis using True step bs by (simp add: u8_high)
  next
    case False
    then have g: "leb_groups bs" using Cons.prems(3) by simp
    then have ne: "bs \<noteq> []" by auto
    have val: "2 ^ shift * sleb_val (b # bs) = 2 ^ shift * k + 2 ^ (shift + 7) * sleb_val bs"
      using ne by (simp add: k_def power_add algebra_simps Let_def)
    have "sleb_loop what out' (shift + 7) (rdr_adv 1 r)
        = (Inr (out' + int64 (2 ^ (shift + 7) * sleb_val bs)), rdr_adv (length bs) (rdr_adv 1 r))"
      using Cons.prems(5) by (intro Cons.IH [OF r1 g below]) auto
    moreover have "\<not> shift + 7 > 70" using Cons.prems(5) ne by (cases bs) auto
    ultimately show ?thesis using False step by (simp only: val) (simp add: u8_high out'_def int64_simps)
  qed
qed simp

lemma rdr_sleb128_groups:
  assumes "rdr_ok r" and "rdr_rest r = bs @ post" and "leb_groups bs" and "length bs \<le> 11"
  shows "rdr_sleb128 what r = (Inr (sint (int64 (sleb_val bs))), rdr_adv (length bs) r)"
  using sleb_loop_groups [OF assms(1-3), of 0 0 what] assms(4) by (simp add: rdr_sleb128_def rdr_map_def out_below_def)

lemma sint_int64: "- (2 ^ 63) \<le> v \<Longrightarrow> v < 2 ^ 63 \<Longrightarrow> sint (int64 v) = v"
  by (simp add: int64_def signed_of_int signed_take_bit_int_eq_self)

section \<open>Strings\<close>

text \<open>A string at an offset is what stands before the first NUL, which must be among the next \<open>mx\<close> bytes.\<close>

lemma takeWhile_nul: "0 \<notin> set ys \<Longrightarrow> takeWhile (\<lambda>b. b \<noteq> 0) (ys @ (0 :: u8) # zs) = ys"
  by (induction ys) auto

lemma takeWhile_split:
  "0 \<in> set (take mx d) \<and> s = takeWhile (\<lambda>b. b \<noteq> 0) (take mx d) \<longleftrightarrow>
    0 \<notin> set s \<and> length s < mx \<and> (\<exists>post. d = s @ (0 :: u8) # post)"
proof
  assume a: "0 \<in> set (take mx d) \<and> s = takeWhile (\<lambda>b. b \<noteq> 0) (take mx d)"
  from split_list_first [OF conjunct1 [OF a]] obtain ys zs where d: "take mx d = ys @ 0 # zs" "0 \<notin> set ys" by blast
  then have s: "s = ys" using a by (simp add: takeWhile_nul)
  have "length (take mx d) \<le> mx" by simp
  then have "length s < mx" by (simp add: d s)
  moreover have "d = s @ 0 # zs @ drop mx d" using append_take_drop_id [of mx d] by (simp add: d s)
  ultimately show "0 \<notin> set s \<and> length s < mx \<and> (\<exists>post. d = s @ (0 :: u8) # post)" using d(2) s by blast
next
  assume "0 \<notin> set s \<and> length s < mx \<and> (\<exists>post. d = s @ (0 :: u8) # post)"
  then obtain post where s: "0 \<notin> set s" "length s < mx" "d = s @ 0 # post" by blast
  then have "take mx d = s @ 0 # take (mx - length s - 1) post" by (simp add: take_Cons')
  then show "0 \<in> set (take mx d) \<and> s = takeWhile (\<lambda>b. b \<noteq> 0) (take mx d)" using s(1) by (simp add: takeWhile_nul)
qed

lemma cstr_window:
  "off < n \<Longrightarrow> length d = n \<Longrightarrow> n < 2 ^ 63 \<Longrightarrow> take (min (min (off + mx) (2 ^ 64 - 1)) n - off) (drop off d) = take mx (drop off d)"
  by (cases "off + mx \<le> n") (auto simp: min_def)

lemma rdr_cstr_at_Inr:
  assumes "length (rdr_data r) < 2 ^ 63"
  shows "rdr_cstr_at r what off mx = Inr s \<longleftrightarrow> 0 \<notin> set s \<and> length s < mx
    \<and> off < length (rdr_data r) \<and> (\<exists>post. drop off (rdr_data r) = s @ 0 # post)"
proof (cases "off < length (rdr_data r)")
  case True
  then have "rdr_cstr_at r what off mx = Inr s \<longleftrightarrow>
      0 \<in> set (take mx (drop off (rdr_data r))) \<and> s = takeWhile (\<lambda>b. b \<noteq> 0) (take mx (drop off (rdr_data r)))"
    using cstr_window [OF True refl assms, of mx] by (auto simp: rdr_cstr_at_def Let_def)
  also have "\<dots> \<longleftrightarrow> 0 \<notin> set s \<and> length s < mx \<and> (\<exists>post. drop off (rdr_data r) = s @ 0 # post)"
    by (rule takeWhile_split)
  finally show ?thesis using True by simp
qed (simp add: rdr_cstr_at_def Let_def)

end
