(* ===== verification/Core_Provenance.thy ===== *)
theory Core_Provenance
  imports Core_Addr
begin

text \<open>
  The provenance of a fact, \<open>crates/e5r-core/src/provenance.rs\<close>: kinds of evidence, their strength, and
  the record of the best piece of evidence and the others that agree with it.
\<close>

section \<open>Strength\<close>

datatype strength = Heuristic | Inferred | Proven | Asserted

text \<open>The order that the code derives, from the order of the declaration.\<close>

fun strength_rank :: "strength \<Rightarrow> nat" where
  "strength_rank Heuristic = 0"
| "strength_rank Inferred = 1"
| "strength_rank Proven = 2"
| "strength_rank Asserted = 3"

lemma strength_rank_inj: "strength_rank s = strength_rank t \<longleftrightarrow> s = t"
  by (cases s; cases t) simp_all

instantiation strength :: linorder
begin

definition less_eq_strength :: "strength \<Rightarrow> strength \<Rightarrow> bool" where
  "less_eq_strength s t \<longleftrightarrow> strength_rank s \<le> strength_rank t"

definition less_strength :: "strength \<Rightarrow> strength \<Rightarrow> bool" where
  "less_strength s t \<longleftrightarrow> strength_rank s < strength_rank t"

instance
  by standard (auto simp: less_eq_strength_def less_strength_def strength_rank_inj)

end

definition is_overridable :: "strength \<Rightarrow> bool" where
  "is_overridable s \<longleftrightarrow> s \<noteq> Asserted"

fun strength_str :: "strength \<Rightarrow> string" where
  "strength_str Heuristic = ''heuristic''"
| "strength_str Inferred = ''inferred''"
| "strength_str Proven = ''proven''"
| "strength_str Asserted = ''asserted''"

section \<open>Evidence\<close>

datatype evidence =
    Symbol_table | Debug_info | Code_symbol | Dynamic_symbol | Entry_point | Init_array | Eh_frame | Pe_unwind
  | Guard_table | Mach_function_starts | Go_pclntab | Objc_metadata | Swift_metadata | Rust_panic | Pdb | Export
  | Import_thunk | Call_target | Branch_target | Jump_table | Prologue_pattern | Linear_sweep | Data_pointer | Annotation

text \<open>The discriminant, \<open>e as u8\<close>.\<close>

fun evidence_rank :: "evidence \<Rightarrow> nat" where
  "evidence_rank Symbol_table = 0"
| "evidence_rank Debug_info = 1"
| "evidence_rank Code_symbol = 2"
| "evidence_rank Dynamic_symbol = 3"
| "evidence_rank Entry_point = 4"
| "evidence_rank Init_array = 5"
| "evidence_rank Eh_frame = 6"
| "evidence_rank Pe_unwind = 7"
| "evidence_rank Guard_table = 8"
| "evidence_rank Mach_function_starts = 9"
| "evidence_rank Go_pclntab = 10"
| "evidence_rank Objc_metadata = 11"
| "evidence_rank Swift_metadata = 12"
| "evidence_rank Rust_panic = 13"
| "evidence_rank Pdb = 14"
| "evidence_rank Export = 15"
| "evidence_rank Import_thunk = 16"
| "evidence_rank Call_target = 17"
| "evidence_rank Branch_target = 18"
| "evidence_rank Jump_table = 19"
| "evidence_rank Prologue_pattern = 20"
| "evidence_rank Linear_sweep = 21"
| "evidence_rank Data_pointer = 22"
| "evidence_rank Annotation = 23"

definition all_evidence :: "evidence list" where
  "all_evidence = [Symbol_table, Debug_info, Code_symbol, Dynamic_symbol, Entry_point, Init_array, Eh_frame, Pe_unwind,
     Guard_table, Mach_function_starts, Go_pclntab, Objc_metadata, Swift_metadata, Rust_panic, Pdb, Export,
     Import_thunk, Call_target, Branch_target, Jump_table, Prologue_pattern, Linear_sweep, Data_pointer, Annotation]"

lemma evidence_rank_nth: "all_evidence ! evidence_rank e = e"
  by (cases e) (simp_all add: all_evidence_def)

lemma evidence_rank_inj: "evidence_rank e = evidence_rank d \<longleftrightarrow> e = d"
  by (metis evidence_rank_nth)

definition ev_strength :: "evidence \<Rightarrow> strength" where
  "ev_strength e = (if e \<in> {Symbol_table, Debug_info, Dynamic_symbol, Entry_point, Init_array, Eh_frame, Pe_unwind, Guard_table,
       Mach_function_starts, Go_pclntab, Pdb, Export} then Proven
     else if e \<in> {Objc_metadata, Swift_metadata, Rust_panic, Code_symbol, Import_thunk, Call_target, Branch_target, Jump_table} then Inferred
     else if e \<in> {Prologue_pattern, Linear_sweep, Data_pointer} then Heuristic
     else Asserted)"

fun evidence_str :: "evidence \<Rightarrow> string" where
  "evidence_str Symbol_table = ''symbol table''"
| "evidence_str Debug_info = ''debug info''"
| "evidence_str Code_symbol = ''code symbol''"
| "evidence_str Dynamic_symbol = ''dynamic symbol''"
| "evidence_str Entry_point = ''entry point''"
| "evidence_str Init_array = ''init array''"
| "evidence_str Eh_frame = ''.eh_frame FDE''"
| "evidence_str Pe_unwind = ''PE unwind record''"
| "evidence_str Guard_table = ''PE guard table''"
| "evidence_str Mach_function_starts = ''LC_FUNCTION_STARTS''"
| "evidence_str Go_pclntab = ''Go pclntab''"
| "evidence_str Objc_metadata = ''ObjC metadata''"
| "evidence_str Swift_metadata = ''Swift metadata''"
| "evidence_str Rust_panic = ''Rust panic site''"
| "evidence_str Pdb = ''program database''"
| "evidence_str Export = ''export table''"
| "evidence_str Import_thunk = ''import thunk''"
| "evidence_str Call_target = ''direct call target''"
| "evidence_str Branch_target = ''direct branch target''"
| "evidence_str Jump_table = ''jump table entry''"
| "evidence_str Prologue_pattern = ''prologue pattern''"
| "evidence_str Linear_sweep = ''linear sweep''"
| "evidence_str Data_pointer = ''pointer in data''"
| "evidence_str Annotation = ''annotation''"

section \<open>Provenance\<close>

record provenance =
  pv_best :: evidence
  pv_corroborating :: "evidence list"

definition prov_new :: "evidence \<Rightarrow> provenance" where
  "prov_new e = \<lparr>pv_best = e, pv_corroborating = []\<rparr>"

definition prov_strength :: "provenance \<Rightarrow> strength" where
  "prov_strength p = ev_strength (pv_best p)"

definition prov_has :: "provenance \<Rightarrow> evidence \<Rightarrow> bool" where
  "prov_has p e \<longleftrightarrow> pv_best p = e \<or> e \<in> set (pv_corroborating p)"

definition prov_support :: "provenance \<Rightarrow> nat" where
  "prov_support p = 1 + length (pv_corroborating p)"

text \<open>The comparison of \<open>sort_by\<close>: stronger evidence first, then by the discriminant. It is a total order,
  and \<open>sort_by\<close> a stable sort for it.\<close>

definition ev_key :: "evidence \<Rightarrow> nat" where
  "ev_key e = (3 - strength_rank (ev_strength e)) * 24 + evidence_rank e"

definition ev_cmp_le :: "evidence \<Rightarrow> evidence \<Rightarrow> bool" where
  "ev_cmp_le a b \<longleftrightarrow> ev_strength b < ev_strength a \<or> ev_strength b = ev_strength a \<and> evidence_rank a \<le> evidence_rank b"

lemma two_level_less:
  assumes "(t :: nat) < s" "s \<le> 3" "a < 24"
  shows "(3 - s) * 24 + a < (3 - t) * 24 + b"
proof -
  have "3 - s + 1 \<le> 3 - t" using assms by linarith
  then have "(3 - s + 1) * 24 \<le> (3 - t) * 24" by (rule mult_le_mono1)
  then show ?thesis using assms by simp
qed

lemma two_level_le:
  assumes "(s :: nat) \<le> 3" "t \<le> 3" "a < 24" "b < 24"
  shows "(3 - s) * 24 + a \<le> (3 - t) * 24 + b \<longleftrightarrow> t < s \<or> t = s \<and> a \<le> b"
  using two_level_less [of t s a b] two_level_less [of s t b a] assms by (cases t s rule: linorder_cases) simp_all

lemma ev_cmp_le_key: "ev_cmp_le a b \<longleftrightarrow> ev_key a \<le> ev_key b"
proof -
  have e: "evidence_rank e < 24" for e by (cases e) simp_all
  have s: "strength_rank s \<le> 3" for s by (cases s) simp_all
  show ?thesis
    unfolding ev_cmp_le_def ev_key_def less_strength_def strength_rank_inj [symmetric]
    by (rule two_level_le [symmetric]) (use e s in simp_all)
qed

definition prov_add :: "provenance \<Rightarrow> evidence \<Rightarrow> provenance" where
  "prov_add p e = (if prov_has p e then p
     else let (b, c) = (if ev_strength e > ev_strength (pv_best p) then (e, pv_corroborating p @ [pv_best p])
         else (pv_best p, pv_corroborating p @ [e]))
       in \<lparr>pv_best = b, pv_corroborating = sort_key ev_key c\<rparr>)"

definition prov_merge :: "provenance \<Rightarrow> provenance \<Rightarrow> provenance" where
  "prov_merge p q = foldl prov_add (prov_add p (pv_best q)) (pv_corroborating q)"

text \<open>\<open>Ordering\<close> as \<open>-1\<close>, \<open>0\<close>, \<open>1\<close>.\<close>

definition cmp_int :: "'a::linorder \<Rightarrow> 'a \<Rightarrow> int" where
  "cmp_int a b = (if a < b then -1 else if a = b then 0 else 1)"

definition prov_rank :: "provenance \<Rightarrow> provenance \<Rightarrow> int" where
  "prov_rank p q = (let c = cmp_int (prov_strength q) (prov_strength p)
     in if c = 0 then cmp_int (prov_support q) (prov_support p) else c)"

definition prov_display :: "provenance \<Rightarrow> string" where
  "prov_display p = strength_str (prov_strength p) @ '' ('' @ evidence_str (pv_best p) @ '')''
     @ concat (map (\<lambda>e. '', '' @ evidence_str e) (pv_corroborating p))"

section \<open>What every sequence of additions keeps\<close>

definition prov_set :: "provenance \<Rightarrow> evidence set" where
  "prov_set p = insert (pv_best p) (set (pv_corroborating p))"

definition prov_ok :: "provenance \<Rightarrow> bool" where
  "prov_ok p \<longleftrightarrow> distinct (pv_best p # pv_corroborating p) \<and> sorted (map ev_key (pv_corroborating p))
    \<and> (\<forall>e\<in>set (pv_corroborating p). ev_strength e \<le> ev_strength (pv_best p))"

lemma ev_key_inj: "ev_key a = ev_key b \<longleftrightarrow> a = b"
  using ev_cmp_le_key [of a b] ev_cmp_le_key [of b a] by (auto simp: ev_cmp_le_def evidence_rank_inj)

lemma prov_new_ok: "prov_ok (prov_new e)" and prov_new_set: "prov_set (prov_new e) = {e}"
  by (simp_all add: prov_ok_def prov_new_def prov_set_def)

lemma prov_add_ok:
  assumes "prov_ok p"
  shows "prov_ok (prov_add p e)" and "prov_set (prov_add p e) = insert e (prov_set p)"
  using assms by (auto simp: prov_ok_def prov_add_def prov_has_def prov_set_def Let_def)

lemma prov_adds:
  "prov_ok p \<Longrightarrow> prov_ok (foldl prov_add p es) \<and> prov_set (foldl prov_add p es) = prov_set p \<union> set es"
  by (induction es arbitrary: p) (simp_all add: prov_add_ok)

lemma prov_merge_ok:
  "prov_ok p \<Longrightarrow> prov_ok (prov_merge p q) \<and> prov_set (prov_merge p q) = prov_set p \<union> prov_set q"
  using prov_adds [of "prov_add p (pv_best q)" "pv_corroborating q"] prov_add_ok [of p "pv_best q"]
  by (auto simp: prov_merge_def prov_set_def)

text \<open>What a well-formed provenance says of its strength and support depends on its evidence only, and so
  does all of it when its strongest piece is the only one of its strength.\<close>

lemma prov_strength_Max: "prov_ok p \<Longrightarrow> prov_strength p = Max (ev_strength ` prov_set p)"
  by (rule Max_eqI [symmetric]) (auto simp: prov_strength_def prov_set_def prov_ok_def)

lemma prov_support_card: "prov_ok p \<Longrightarrow> prov_support p = card (prov_set p)"
  by (simp add: prov_support_def prov_set_def prov_ok_def distinct_card)

lemma prov_eqI:
  assumes "prov_ok p" and "prov_ok q" and "prov_set p = prov_set q" and "pv_best p = pv_best q"
  shows "p = q"
proof -
  have "set (pv_corroborating p) = prov_set p - {pv_best p}" "set (pv_corroborating q) = prov_set q - {pv_best q}"
    using assms(1,2) by (auto simp: prov_set_def prov_ok_def)
  then have "set (pv_corroborating p) = set (pv_corroborating q)" by (simp add: assms(3,4))
  then have "map ev_key (pv_corroborating p) = map ev_key (pv_corroborating q)"
    using assms(1,2) by (intro sorted_distinct_set_unique) (auto simp: prov_ok_def distinct_map inj_on_def ev_key_inj)
  then have "pv_corroborating p = pv_corroborating q"
    by (rule map_injective) (simp add: inj_def ev_key_inj)
  then show ?thesis using assms(4) by (cases p; cases q) simp
qed

lemma prov_best_unique:
  assumes "prov_ok p" and "prov_ok q" and "prov_set p = prov_set q"
    and "\<And>d e. d \<in> prov_set p \<Longrightarrow> e \<in> prov_set p \<Longrightarrow> ev_strength d = Max (ev_strength ` prov_set p)
      \<Longrightarrow> ev_strength e = Max (ev_strength ` prov_set p) \<Longrightarrow> d = e"
  shows "p = q"
  using assms prov_strength_Max [OF assms(1)] prov_strength_Max [OF assms(2)]
  by (intro prov_eqI) (auto simp: prov_strength_def prov_set_def)

end
