(* ===== verification/Core_Arch.thy ===== *)
theory Core_Arch
  imports Core_Addr
begin

text \<open>Architectures and pointer widths, \<open>crates/e5r-core/src/arch.rs\<close>, with their names and how they are read.\<close>

datatype bits = Bits16 | Bits32 | Bits64

fun bits_bytes :: "bits \<Rightarrow> u64" where
  "bits_bytes Bits16 = 2"
| "bits_bytes Bits32 = 4"
| "bits_bytes Bits64 = 8"

fun bits_mask :: "bits \<Rightarrow> u64" where
  "bits_mask Bits16 = 0xffff"
| "bits_mask Bits32 = 0xffffffff"
| "bits_mask Bits64 = - 1"

definition bits_display :: "bits \<Rightarrow> string" where
  "bits_display b = show_nat (unat (bits_bytes b * 8))"

datatype arch = X86 | X86_64 | Arm | Thumb | AArch64 | Sleigh string | Unknown u32

fun arch_bits :: "arch \<Rightarrow> bits" where
  "arch_bits X86 = Bits32"
| "arch_bits Arm = Bits32"
| "arch_bits Thumb = Bits32"
| "arch_bits X86_64 = Bits64"
| "arch_bits AArch64 = Bits64"
| "arch_bits (Sleigh _) = Bits64"
| "arch_bits (Unknown _) = Bits64"

definition has_native_decoder :: "arch \<Rightarrow> bool" where
  "has_native_decoder a \<longleftrightarrow> a \<in> {X86, X86_64, AArch64, Arm, Thumb}"

fun insn_alignment :: "arch \<Rightarrow> u64" where
  "insn_alignment X86 = 1"
| "insn_alignment X86_64 = 1"
| "insn_alignment Arm = 4"
| "insn_alignment Thumb = 2"
| "insn_alignment AArch64 = 4"
| "insn_alignment (Sleigh _) = 1"
| "insn_alignment (Unknown _) = 1"

fun max_insn_len :: "arch \<Rightarrow> u64" where
  "max_insn_len X86 = 15"
| "max_insn_len X86_64 = 15"
| "max_insn_len Arm = 4"
| "max_insn_len Thumb = 4"
| "max_insn_len AArch64 = 4"
| "max_insn_len (Sleigh _) = 16"
| "max_insn_len (Unknown _) = 16"

fun arch_name :: "arch \<Rightarrow> string" where
  "arch_name X86 = ''x86''"
| "arch_name X86_64 = ''x86-64''"
| "arch_name Arm = ''arm''"
| "arch_name Thumb = ''thumb''"
| "arch_name AArch64 = ''aarch64''"
| "arch_name (Sleigh i) = i"
| "arch_name (Unknown _) = ''unknown''"

definition arch_display :: "arch \<Rightarrow> string" where
  "arch_display a = (case a of Unknown m \<Rightarrow> ''unknown('' @ show_hex (unat m) @ '')'' | _ \<Rightarrow> arch_name a)"

text \<open>A refusal carries the text it did not know; the message quotes it.\<close>

definition arch_from_str :: "string \<Rightarrow> string + arch" where
  "arch_from_str s = (let t = map (\<lambda>c. if c = CHR ''_'' then CHR ''-'' else c) (map to_ascii_lower s) in
     if t \<in> {''x86'', ''i386'', ''i686'', ''x86-32''} then Inr X86
     else if t \<in> {''x86-64'', ''amd64'', ''x64''} then Inr X86_64
     else if t \<in> {''arm'', ''armv7''} then Inr Arm
     else if t = ''thumb'' then Inr Thumb
     else if t \<in> {''aarch64'', ''arm64'', ''armv8''} then Inr AArch64
     else Inl t)"

text \<open>The name of an architecture with a decoder of its own reads back as it.\<close>

lemma arch_name_roundtrip: "has_native_decoder a \<Longrightarrow> arch_from_str (arch_display a) = Inr a"
  by (cases a) (simp_all add: has_native_decoder_def arch_display_def arch_from_str_def Let_def to_ascii_lower_def char_code_def)

lemma bits_mask_bytes: "unat (bits_mask b) + 1 = 256 ^ unat (bits_bytes b)"
proof (cases b)
  case Bits64
  have "unat (- 1 :: u64) = 2 ^ 64 - 1" by (simp add: unsigned_minus_1_eq_mask mask_eq_exp_minus_1)
  then show ?thesis by (simp add: Bits64)
qed simp_all

end
