(* ===== verification/Core_Props.thy ===== *)
theory Core_Props
  imports Core_Memory Core_Leb Core_Provenance Core_Arch
begin

text \<open>
  The properties of \<open>crates/e5r-core\<close>: lookup, reads and patches of the memory map, and the values that
  the cursor reads. The last section records where the code departs from its documentation.
\<close>

section \<open>Addresses\<close>

text \<open>The operations on address ranges are those of sets of addresses: \<open>overlaps\<close> says that the sets
  meet, \<open>intersect\<close> is their intersection, and \<open>contains_range\<close> is inclusion for a range with elements.\<close>

theorem ranges_are_sets:
  assumes "range_ok r" and "range_ok q"
  shows "(range_overlaps r q \<longleftrightarrow> range_set r \<inter> range_set q \<noteq> {})
    \<and> (case range_intersect r q of None \<Rightarrow> {} | Some p \<Rightarrow> range_set p) = range_set r \<inter> range_set q
    \<and> (\<not> range_is_empty q \<longrightarrow> contains_range r q = (range_set q \<subseteq> range_set r))"
  using range_overlaps_set [OF assms] range_intersect_set [of r q] contains_range_set [OF assms(2), of r] by blast

theorem ranges_are_sets_witness:
  "range_overlaps \<lparr>ar_start = 0x1000, ar_end = 0x2000\<rparr> \<lparr>ar_start = 0x1fff, ar_end = 0x3000\<rparr>
    \<longleftrightarrow> range_set \<lparr>ar_start = 0x1000, ar_end = 0x2000\<rparr> \<inter> range_set \<lparr>ar_start = 0x1fff, ar_end = 0x3000\<rparr> \<noteq> {}"
  by (rule ranges_are_sets [THEN conjunct1]) (simp_all add: range_ok_def)

text \<open>Rounding an address to a power of two: down gives the greatest multiple not above it, up the
  least multiple not below it, or nothing when that multiple does not fit 64 bits.\<close>

theorem align_nearest:
  assumes "n < 64"
  shows "(\<exists>r. align_down a (push_bit n 1) = Some r \<and> 2 ^ n dvd unat r \<and> unat r \<le> unat a \<and> unat a < unat r + 2 ^ n)
    \<and> (case align_up a (push_bit n 1) of
        None \<Rightarrow> False
      | Some None \<Rightarrow> \<forall>m. 2 ^ n dvd m \<longrightarrow> unat a \<le> m \<longrightarrow> 2 ^ 64 \<le> m
      | Some (Some r) \<Rightarrow> 2 ^ n dvd unat r \<and> unat a \<le> unat r \<and> unat r < unat a + 2 ^ n)"
  using align_down_val [OF assms] align_up_val [OF assms] by blast

theorem align_nearest_witness:
  "\<exists>r. align_down 0x12345 (push_bit 12 1) = Some r \<and> 2 ^ 12 dvd unat r \<and> unat r \<le> unat (0x12345 :: u64) \<and> unat (0x12345 :: u64) < unat r + 2 ^ 12"
  by (rule align_nearest [THEN conjunct1]) simp

section \<open>The memory map\<close>

text \<open>C17: a map built by adding segments holds exactly the segments added, sorted and well formed, and
  its lookup is right: it finds a segment exactly for the addresses some segment contains, and one
  that contains the address. Of the segments that contain the address the one added last is found,
  provided that none of them added before it starts at a greater address; in particular where only
  one does. (Where an earlier one starts later the code and its documentation part ways, see
  \<open>not_last_added\<close> below: nothing is claimed there.)\<close>

theorem map_lookup_correct:
  assumes "list_all seg_ok ss"
  defines "m \<equiv> foldl mm_add [] ss"
  shows "mm_ok m \<and> mset m = mset ss
    \<and> (segment_at m a = None \<longleftrightarrow> (\<forall>s\<in>set ss. \<not> range_contains (sg_range s) a))
    \<and> (\<forall>s. segment_at m a = Some s \<longrightarrow> s \<in> set ss \<and> range_contains (sg_range s) a)
    \<and> (\<forall>ys s zs. ss = ys @ s # zs \<longrightarrow> range_contains (sg_range s) a
        \<longrightarrow> (\<forall>t\<in>set zs. \<not> range_contains (sg_range t) a)
        \<longrightarrow> (\<forall>t\<in>set ys. range_contains (sg_range t) a \<longrightarrow> seg_start t \<le> seg_start s)
        \<longrightarrow> segment_at m a = Some s)"
proof -
  have nil: "mm_ok []" by (simp add: mm_ok_def mm_sorted_def)
  have m: "mm_ok m \<and> set m = set ss"
    using mm_adds [OF nil assms(1)] by (simp add: m_def)
  then have srt: "mm_sorted m" by (simp add: mm_ok_def)
  have ms: "mset m = mset ss" using mset_adds [of "[]" ss] by (simp add: m_def)
  have at: "segment_at m a = Some s" if "ss = ys @ s # zs" "range_contains (sg_range s) a"
    "\<forall>t\<in>set zs. \<not> range_contains (sg_range t) a"
    "\<forall>t\<in>set ys. range_contains (sg_range t) a \<longrightarrow> seg_start t \<le> seg_start s" for ys s zs
    using that assms(1) mm_adds [OF nil, of ys] segment_at_add_new [of "foldl mm_add [] ys" s a]
      segment_at_adds_other [of "mm_add (foldl mm_add [] ys) s" zs a] mm_add_ok [of "foldl mm_add [] ys" s]
    by (simp add: m_def mm_ok_def)
  have "\<forall>s. segment_at m a = Some s \<longrightarrow> s \<in> set ss \<and> range_contains (sg_range s) a"
    using m segment_at_mem [OF srt, of a] by blast
  then show ?thesis
    using m ms at segment_at_None [OF srt, of a] by (intro conjI allI impI) simp_all
qed

definition demo_segment :: "u64 \<Rightarrow> u64 \<Rightarrow> u8 list \<Rightarrow> segment" where
  "demo_segment s e d = \<lparr>sg_range = \<lparr>ar_start = s, ar_end = e\<rparr>, sg_perms = perms_RX, sg_name = ''.text'', sg_file_offset = 0, sg_data = d\<rparr>"

definition demo_map :: memory_map where
  "demo_map = foldl mm_add [] [demo_segment 0x2000 0x2010 [1, 2, 3, 4, 5, 6, 7, 8], demo_segment 0x1000 0x1004 [9, 10]]"

lemma demo_segments_ok: "list_all seg_ok [demo_segment 0x2000 0x2010 [1, 2, 3, 4, 5, 6, 7, 8], demo_segment 0x1000 0x1004 [9, 10]]"
  by code_simp

lemma demo_map_eq: "demo_map = [demo_segment 0x1000 0x1004 [9, 10], demo_segment 0x2000 0x2010 [1, 2, 3, 4, 5, 6, 7, 8]]"
  by code_simp

lemma demo_map_clean: "mm_clean demo_map"
proof -
  have "mm_disjoint demo_map"
    using order.strict_trans2 [of _ "0x1004 :: u64" "0x2000"]
    by (auto simp: demo_map_eq mm_disjoint_def demo_segment_def not_le [symmetric])
  moreover have "mm_ok demo_map"
    using mm_adds [of "[]", OF _ demo_segments_ok] by (simp add: mm_ok_def mm_sorted_def demo_map_def)
  ultimately show ?thesis by (simp add: mm_clean_def)
qed

lemmas mm_eval = mm_read_def seg_read_bytes segment_at_def partition_point_def mm_patch.simps seg_patch_def seg_start_def
  range_contains_def u64_checked_sub_def demo_segment_def upt_rec_numeral

text \<open>Two segments that start at the same address, the shorter one added last, and a third elsewhere.\<close>

definition stacked :: "segment list" where
  "stacked = [demo_segment 0x2000 0x2010 [1, 2, 3, 4], demo_segment 0x1000 0x1008 [9, 10], demo_segment 0x1000 0x1004 [11]]"

theorem map_lookup_correct_witness:
  "segment_at (foldl mm_add [] stacked) 0x1002 = Some (demo_segment 0x1000 0x1004 [11])
    \<and> segment_at (foldl mm_add [] stacked) 0x1006 = Some (demo_segment 0x1000 0x1008 [9, 10])
    \<and> segment_at (foldl mm_add [] stacked) 0x1800 = None
    \<and> mset (foldl mm_add [] stacked) = mset stacked"
proof -
  let ?m = "foldl mm_add [] stacked"
  have ok: "list_all seg_ok stacked" by code_simp
  have c: "range_contains (sg_range (demo_segment s e d)) a \<longleftrightarrow> s \<le> a \<and> a < e" and st: "seg_start (demo_segment s e d) = s" for s e d a
    by (simp_all add: demo_segment_def range_contains_def seg_start_def)
  have at: "segment_at ?m a = Some s" if "stacked = ys @ s # zs" "range_contains (sg_range s) a"
      "\<forall>t\<in>set zs. \<not> range_contains (sg_range t) a"
      "\<forall>t\<in>set ys. range_contains (sg_range t) a \<longrightarrow> seg_start t \<le> seg_start s" for a ys s zs
    using map_lookup_correct [OF ok, of a] that by blast
  have "segment_at ?m 0x1002 = Some (demo_segment 0x1000 0x1004 [11])"
    by (rule at [of "[demo_segment 0x2000 0x2010 [1, 2, 3, 4], demo_segment 0x1000 0x1008 [9, 10]]" _ "[]"])
      (simp_all add: stacked_def c st)
  moreover have "segment_at ?m 0x1006 = Some (demo_segment 0x1000 0x1008 [9, 10])"
    by (rule at [of "[demo_segment 0x2000 0x2010 [1, 2, 3, 4]]" _ "[demo_segment 0x1000 0x1004 [11]]"])
      (simp_all add: stacked_def c st)
  moreover have "\<forall>s\<in>set stacked. \<not> range_contains (sg_range s) 0x1800" by (simp add: stacked_def c)
  then have "segment_at ?m 0x1800 = None \<and> mset ?m = mset stacked"
    using map_lookup_correct [OF ok, of "0x1800"] by blast
  ultimately show ?thesis by blast
qed

text \<open>C19: a read of a well-formed map succeeds exactly when the segment found at its first address holds
  all its addresses, which do not wrap around, and returns their bytes: those of the file where the
  segment has them, zero in its tail; otherwise it refuses, naming the address.\<close>

theorem read_correct:
  "mm_read m a n = (case segment_at m a of
      None \<Rightarrow> Inl (Unmapped a)
    | Some s \<Rightarrow> if unat a + unat n < 2 ^ 64 \<and> seg_start s \<le> a \<and> unat a + unat n \<le> unat (ar_end (sg_range s))
        then Inr (map (\<lambda>i. let off = unat a + i - unat (seg_start s) in if off < length (sg_data s) then sg_data s ! off else 0) [0..<unat n])
        else Inl (Unmapped a))"
  by (cases "segment_at m a") (simp_all only: mm_read_def seg_read_bytes Option.bind.simps option.simps if_distrib [of "case_option _ _"])

text \<open>C18: a patch that succeeds, of a map whose segments do not overlap: the map keeps its invariant,
  the read of the patched addresses succeeds and returns the bytes patched in, every read of other
  addresses gives the result it gave before, value or refusal, and any read that meets the patch in
  part succeeds when it did before and returns the old bytes with the patched ones laid over them.\<close>

theorem patch_then_read:
  assumes "mm_clean m" and "mm_patch m a bs = Some (True, m')"
  shows "mm_clean m'
    \<and> (unat n = length bs \<longrightarrow> mm_read m' a n = Inr bs)
    \<and> (span a (length bs) \<inter> span b (unat k) = {} \<longrightarrow> mm_read m' b k = mm_read m b k)
    \<and> mm_read m' b k = (case mm_read m b k of Inl e \<Rightarrow> Inl e
        | Inr cs \<Rightarrow> Inr (map (\<lambda>i. let x = unat b + i in
            if unat a \<le> x \<and> x < unat a + length bs then bs ! (x - unat a) else cs ! i) [0..<unat k]))"
proof -
  have p: "mm_patched m a bs = Some m'" by (simp add: mm_patched_def assms(2))
  have "mm_read m' a n = Inr bs" if "unat n = length bs"
    using mm.read_patched [OF assms(1) p that] by (simp add: mm_read_fetch)
  moreover have "mm_read m' b k = mm_read m b k" if "span a (length bs) \<inter> span b (unat k) = {}"
    using mm.read_elsewhere [OF assms(1) p that] by (simp add: mm_read_fetch)
  ultimately show ?thesis
    using mm.patch_inv [OF assms(1) p] mm.read_overlay [OF assms(1) p, of b k]
    by (simp add: mm_read_fetch split: option.split)
qed

theorem patch_then_read_witness:
  "\<exists>m'. mm_patch demo_map 0x2002 [0xff, 0xee] = Some (True, m') \<and> mm_read m' 0x2002 2 = Inr [0xff, 0xee]
    \<and> mm_read m' 0x2000 4 = Inr [1, 2, 0xff, 0xee] \<and> mm_read m' 0x1002 4 = Inl (Unmapped 0x1002)"
proof -
  obtain m' where p: "mm_patch demo_map 0x2002 [0xff, 0xee] = Some (True, m')"
    by (simp add: demo_map_eq mm_eval)
  have u: "[0..<4] = [0, 1, 2, 3 :: nat]" by code_simp
  have r: "mm_read demo_map 0x2000 4 = Inr [1, 2, 3, 4]" "mm_read demo_map 0x1002 4 = Inl (Unmapped 0x1002)"
    by (simp_all add: demo_map_eq mm_read_def seg_read_bytes segment_at_def partition_point_def seg_start_def
      range_contains_def demo_segment_def u nth_Cons_numeral Let_def)
  note P = patch_then_read [OF demo_map_clean p]
  have "mm_read m' 0x2002 2 = Inr [0xff, 0xee]" using P [where n = 2 and b = 0 and k = 0] by simp
  moreover have "mm_read m' 0x2000 4 = Inr [1, 2, 0xff, 0xee]"
    using P [where n = 2 and b = "0x2000" and k = 4] r(1) by (simp add: u nth_Cons_numeral Let_def)
  moreover have "mm_read m' 0x1002 4 = Inl (Unmapped 0x1002)"
    using P [where n = 2 and b = "0x1002" and k = 4] r(2) by simp
  ultimately show ?thesis using p by blast
qed

text \<open>A pointer read returns the number its bytes spell in the given byte order, and does not panic
  for at most eight bytes.\<close>

theorem read_ptr_correct:
  assumes "unat n \<le> 8"
  shows "\<exists>r. mm_read_ptr m a n little = Some r \<and> (case r of
      Inl e \<Rightarrow> mm_read m a n = Inl e
    | Inr v \<Rightarrow> \<exists>bs. mm_read m a n = Inr bs \<and> unat v = order_val (if little then Little else Big_endian) bs)"
proof (cases "mm_read m a n")
  case (Inr bs)
  then have "length bs \<le> 8" using assms by (auto simp: mm_read_Inr seg_read_Some)
  then show ?thesis
    using Inr ptr_le_val [of 0 bs 0] ptr_be_val [of bs] by (auto simp: mm_read_ptr_def order_val_def)
qed (simp add: mm_read_ptr_def)

theorem read_ptr_correct_witness:
  "\<exists>r. mm_read_ptr demo_map 0x2000 8 False = Some r \<and> (case r of
      Inl e \<Rightarrow> mm_read demo_map 0x2000 8 = Inl e
    | Inr v \<Rightarrow> \<exists>bs. mm_read demo_map 0x2000 8 = Inr bs \<and> unat v = order_val Big_endian bs)"
  by (rule read_ptr_correct [where n = 8 and m = demo_map and a = "0x2000" and little = False, unfolded if_False]) simp

section \<open>The cursor\<close>

lemma rdr_field_short:
  assumes "rdr_ok r" and "length (rdr_rest r) < n" and "n < 2 ^ 63"
  shows "rdr_map f (rdr_array n what) r = (Inl (Out_of_bounds what (rdr_pos r) n (length (rdr_data r))), r)"
  using assms(2) rdr_bytes_spec [OF assms(1,3), of what] by (simp add: rdr_map_def rdr_array_def)

lemma len_field: "256 ^ 2 = (2 :: nat) ^ LENGTH(16)" "256 ^ 4 = (2 :: nat) ^ LENGTH(32)" "256 ^ 8 = (2 :: nat) ^ LENGTH(64)"
  "(8 :: nat) < 2 ^ 63"
  by simp_all

text \<open>A field read returns the value whose bytes, in the cursor's byte order, stand at the cursor,
  and moves past them; when they are not all there it refuses, names the bytes it wanted and does not
  move.\<close>

theorem field_reads_correct:
  assumes "rdr_ok r"
  shows "(rdr_rest r = order_bytes (rdr_endian r) 2 (unat v) @ post \<longrightarrow> rdr_u16 what r = (Inr v, rdr_adv 2 r))
    \<and> (rdr_rest r = order_bytes (rdr_endian r) 4 (unat w) @ post \<longrightarrow> rdr_u32 what r = (Inr w, rdr_adv 4 r))
    \<and> (rdr_rest r = order_bytes (rdr_endian r) 8 (unat x) @ post \<longrightarrow> rdr_u64 what r = (Inr x, rdr_adv 8 r))
    \<and> (length (rdr_rest r) < 8 \<longrightarrow> rdr_u64 what r = (Inl (Out_of_bounds what (rdr_pos r) 8 (length (rdr_data r))), r))"
  unfolding rdr_u16_def rdr_u32_def rdr_u64_def
  by (intro conjI impI) (simp_all only: rdr_field [OF assms] rdr_field_short [OF assms] len_field)

definition demo_reader :: "endian \<Rightarrow> u8 list \<Rightarrow> reader" where
  "demo_reader e bs = \<lparr>rdr_data = 0xaa # bs @ [0xbb], rdr_pos = 1, rdr_endian = e\<rparr>"

lemma demo_reader_ok: "length bs < 100 \<Longrightarrow> rdr_ok (demo_reader e bs) \<and> rdr_rest (demo_reader e bs) = bs @ [0xbb]"
  by (simp add: demo_reader_def rdr_ok_def rdr_rest_def)

theorem field_reads_correct_witness:
  "rdr_u32 ''value'' (demo_reader Big_endian (order_bytes Big_endian 4 (unat (0x12345678 :: u32)))) =
    (Inr 0x12345678, rdr_adv 4 (demo_reader Big_endian (order_bytes Big_endian 4 (unat (0x12345678 :: u32)))))"
proof -
  let ?r = "demo_reader Big_endian (order_bytes Big_endian 4 (unat (0x12345678 :: u32)))"
  have ok: "rdr_ok ?r \<and> rdr_rest ?r = order_bytes Big_endian 4 (unat (0x12345678 :: u32)) @ [0xbb]"
    by (rule demo_reader_ok) simp
  have "rdr_endian ?r = Big_endian" by (simp add: demo_reader_def)
  with ok field_reads_correct [of ?r _ "[0xbb]" "''value''" "0x12345678"] show ?thesis by metis
qed

text \<open>C21: \<open>uleb128\<close> returns what the groups of seven bits at the cursor spell, as a 64-bit number, and
  moves past them, when there are at most ten; it refuses when no group ends within eleven bytes or
  before the end of the data.\<close>

theorem uleb128_correct:
  assumes "rdr_ok r"
  shows "(rdr_rest r = bs @ post \<longrightarrow> leb_groups bs \<longrightarrow> length bs \<le> 10 \<longrightarrow>
      rdr_uleb128 what r = (Inr (of_nat (leb_val bs)), rdr_adv (length bs) r))
    \<and> ((\<forall>b\<in>set (take 11 (rdr_rest r)). 128 \<le> unat b) \<longrightarrow> (\<exists>e r'. rdr_uleb128 what r = (Inl e, r')))"
  using rdr_uleb128_groups [OF assms, of bs post what] rdr_uleb128_open [OF assms, of what] by blast

theorem uleb128_correct_witness:
  "rdr_uleb128 ''value'' (demo_reader Little [0xe5, 0x8e, 0x26]) = (Inr 624485, rdr_adv 3 (demo_reader Little [0xe5, 0x8e, 0x26]))"
  using uleb128_correct [of "demo_reader Little [0xe5, 0x8e, 0x26]" "[0xe5, 0x8e, 0x26]" "[0xbb]" "''value''"]
    demo_reader_ok [of "[0xe5, 0x8e, 0x26]" Little]
  by simp

text \<open>C20: the LEB128 reads give back every 64-bit number, unsigned and signed, from the bytes that the
  format's encoders write for it, and move just past them.\<close>

theorem leb128_roundtrip:
  assumes "rdr_ok r"
  shows "(rdr_rest r = uleb_enc (unat v) @ post \<longrightarrow>
      rdr_uleb128 what r = (Inr v, rdr_adv (length (uleb_enc (unat v))) r))
    \<and> (rdr_rest r = sleb_enc i @ post \<longrightarrow> - (2 ^ 63) \<le> i \<longrightarrow> i < 2 ^ 63 \<longrightarrow>
      rdr_sleb128 what r = (Inr i, rdr_adv (length (sleb_enc i)) r))"
proof (intro conjI impI)
  assume "rdr_rest r = uleb_enc (unat v) @ post"
  moreover have "length (uleb_enc (unat v)) \<le> Suc 9"
    by (rule uleb_enc_length) (use unat_lt_exp [of v] in simp)
  ultimately show "rdr_uleb128 what r = (Inr v, rdr_adv (length (uleb_enc (unat v))) r)"
    using rdr_uleb128_groups [OF assms _ uleb_enc_groups, of "unat v" post what] by (simp add: uleb_enc_val)
next
  assume i: "- (2 ^ 63) \<le> i" "i < 2 ^ 63" and "rdr_rest r = sleb_enc i @ post"
  moreover have "length (sleb_enc i) \<le> Suc 9"
    by (rule sleb_enc_length) (use i in simp_all)
  ultimately show "rdr_sleb128 what r = (Inr i, rdr_adv (length (sleb_enc i)) r)"
    using rdr_sleb128_groups [OF assms, of "sleb_enc i" post what] sint_int64 [OF i] by (simp add: sleb_enc_val)
qed

theorem leb128_roundtrip_witness:
  "rdr_sleb128 ''value'' (demo_reader Little (sleb_enc (- 128))) = (Inr (- 128), rdr_adv 2 (demo_reader Little (sleb_enc (- 128))))"
proof -
  have e: "sleb_enc (- 128) = [0x80, 0x7f]" by code_simp
  show ?thesis
    using leb128_roundtrip [of "demo_reader Little (sleb_enc (- 128))" 0 "[0xbb]" "''value''" "- 128"]
      demo_reader_ok [of "sleb_enc (- 128)" Little]
    by (simp add: e)
qed

text \<open>Strings: \<open>cstr_at\<close> returns a string exactly when its bytes stand at the offset with a NUL after them,
  hold no NUL themselves and are fewer than the maximum; an offset outside the data, a missing NUL and a
  string that is too long are refused.\<close>

theorem cstr_at_correct:
  assumes "length (rdr_data r) < 2 ^ 63"
  shows "rdr_cstr_at r what off mx = Inr s \<longleftrightarrow> 0 \<notin> set s \<and> length s < mx
    \<and> off < length (rdr_data r) \<and> (\<exists>post. drop off (rdr_data r) = s @ 0 # post)"
  by (rule rdr_cstr_at_Inr [OF assms])

theorem cstr_at_correct_witness:
  "rdr_cstr_at (reader_le [0x61, 0x62, 0x63, 0, 0x64]) ''value'' 1 64 = Inr [0x62, 0x63]"
  by (subst cstr_at_correct) (simp_all add: reader_le_def reader_new_def)

section \<open>Provenance\<close>

text \<open>C22: a provenance built from any evidence lists each piece once, the best first and the others
  strongest first; its strength is the greatest of its evidence and its support the number of pieces.
  Two orders of the same evidence rank equally, and give the same record when they agree on the best
  piece, as they do when only one piece has the greatest strength.\<close>

theorem provenance_of_evidence:
  assumes "set (e # es) = set (d # ds)"
  shows "let p = foldl prov_add (prov_new e) es; q = foldl prov_add (prov_new d) ds in
      prov_ok p \<and> prov_set p = set (e # es)
    \<and> prov_strength p = Max (ev_strength ` set (e # es)) \<and> prov_support p = card (set (e # es))
    \<and> prov_rank p q = 0 \<and> (pv_best p = pv_best q \<longrightarrow> p = q)
    \<and> (card {x \<in> set (e # es). ev_strength x = Max (ev_strength ` set (e # es))} = 1 \<longrightarrow> p = q)"
proof -
  define p q where "p = foldl prov_add (prov_new e) es" and "q = foldl prov_add (prov_new d) ds"
  have p: "prov_ok p" "prov_set p = set (e # es)"
    using prov_adds [OF prov_new_ok, of e es] by (simp_all add: p_def prov_new_set)
  have q: "prov_ok q" "prov_set q = set (e # es)"
    using prov_adds [OF prov_new_ok, of d ds] assms by (simp_all add: q_def prov_new_set)
  have "p = q" if one: "card {x \<in> set (e # es). ev_strength x = Max (ev_strength ` set (e # es))} = 1"
  proof (rule prov_best_unique [OF p(1) q(1)])
    show "prov_set p = prov_set q" by (simp add: p(2) q(2))
    obtain z where z: "{x \<in> set (e # es). ev_strength x = Max (ev_strength ` set (e # es))} = {z}"
      using one by (rule card_1_singletonE)
    show "x = y" if "x \<in> prov_set p" "y \<in> prov_set p" "ev_strength x = Max (ev_strength ` prov_set p)"
      "ev_strength y = Max (ev_strength ` prov_set p)" for x y
    proof -
      have "x \<in> {z}" "y \<in> {z}" unfolding z [symmetric] using that p(2) by auto
      then show ?thesis by simp
    qed
  qed
  then show ?thesis
    using p q prov_strength_Max [OF p(1)] prov_strength_Max [OF q(1)] prov_support_card [OF p(1)] prov_support_card [OF q(1)]
      prov_eqI [OF p(1) q(1)]
    by (simp add: Let_def prov_rank_def cmp_int_def flip: p_def q_def)
qed

theorem provenance_of_evidence_witness:
  "foldl prov_add (prov_new Prologue_pattern) [Eh_frame, Call_target] = foldl prov_add (prov_new Call_target) [Prologue_pattern, Eh_frame]"
proof -
  have "pv_best (foldl prov_add (prov_new Prologue_pattern) [Eh_frame, Call_target])
      = pv_best (foldl prov_add (prov_new Call_target) [Prologue_pattern, Eh_frame])" by code_simp
  then show ?thesis
    using provenance_of_evidence [of Prologue_pattern "[Eh_frame, Call_target]" Call_target "[Prologue_pattern, Eh_frame]"]
    by (auto simp: Let_def)
qed

section \<open>Departures from the documentation\<close>

text \<open>With overlapping segments \<open>patch\<close> changes the first that contains the address and lookup finds the
  last, so that a patch can report success and no read sees it.\<close>

theorem patch_hidden:
  "let m = foldl mm_add [] [demo_segment 0x1000 0x1008 [1, 2, 3, 4, 5, 6, 7, 8], demo_segment 0x1004 0x1008 [50, 60, 70, 80]];
     m' = foldl mm_add [] [demo_segment 0x1000 0x1008 [1, 2, 3, 4, 0xff, 6, 7, 8], demo_segment 0x1004 0x1008 [50, 60, 70, 80]]
   in mm_patch m 0x1004 [0xff] = Some (True, m') \<and> mm_read m' 0x1004 1 = Inr [50] \<and> mm_read m 0x1004 1 = Inr [50]"
  by (simp add: Let_def mm_add_eq mm_eval)

text \<open>The documentation says that of overlapping segments the one added last wins; the one that starts
  last does.\<close>

theorem not_last_added:
  "mm_read (foldl mm_add [] [demo_segment 0x1004 0x1008 [50, 60, 70, 80], demo_segment 0x1000 0x1008 [1, 2, 3, 4, 5, 6, 7, 8]]) 0x1004 1 = Inr [50]"
  by (simp add: mm_add_eq mm_eval)

text \<open>The documentation of \<open>add\<close> calls it independent of the order; among pieces of the greatest strength
  the first one added stays the best.\<close>

theorem provenance_depends_on_order:
  "foldl prov_add (prov_new Symbol_table) [Eh_frame] \<noteq> foldl prov_add (prov_new Eh_frame) [Symbol_table]"
  by code_simp

text \<open>\<open>uleb128\<close> refuses significant bits in the eleventh byte and drops those above bit 63 in the tenth: the
  ten bytes that encode two to the sixty-fourth are read as zero.\<close>

theorem uleb128_drops_bits:
  "leb_val ([0x80, 0x80, 0x80, 0x80, 0x80, 0x80, 0x80, 0x80, 0x80, 0x02]) = 2 ^ 64 \<and>
    rdr_uleb128 what (reader_le ([0x80, 0x80, 0x80, 0x80, 0x80, 0x80, 0x80, 0x80, 0x80, 0x02])) = (Inr 0, rdr_adv 10 (reader_le ([0x80, 0x80, 0x80, 0x80, 0x80, 0x80, 0x80, 0x80, 0x80, 0x02])))"
proof -
  let ?bs = "[0x80, 0x80, 0x80, 0x80, 0x80, 0x80, 0x80, 0x80, 0x80, 0x02] :: u8 list"
  have v: "leb_val ?bs = 2 ^ 64" "leb_groups ?bs" by simp_all
  have ok: "rdr_ok (reader_le ?bs)" "rdr_rest (reader_le ?bs) = ?bs @ []"
    by (simp_all add: reader_le_def reader_new_def rdr_ok_def rdr_rest_def)
  have "rdr_uleb128 what (reader_le ?bs) = (Inr (of_nat (leb_val ?bs)), rdr_adv (length ?bs) (reader_le ?bs))"
    by (rule rdr_uleb128_groups [OF ok v(2)]) simp
  moreover have "(of_nat (leb_val ?bs) :: u64) = 0" "length ?bs = 10" unfolding v by simp_all
  ultimately show ?thesis using v by (simp only: simp_thms)
qed

end
