(* ===== verification/Ir_Op.thy ===== *)
theory Ir_Op
  imports Core_Addr
begin

text \<open>
  The operations of the intermediate representation, \<open>crates/e5r-ir/src/op.rs\<close>: storage locations
  (varnodes), opcodes and their tables, and one operation with its inputs. A \<open>u8\<close> size is a natural
  number.
\<close>

section \<open>Storage\<close>

datatype ir_space = Const_space | Register_space | Ram_space | Unique_space | Stack_space

record varnode =
  vn_space :: ir_space
  vn_offset :: u64
  vn_size :: nat

definition vn_constant :: "u64 \<Rightarrow> nat \<Rightarrow> varnode" where
  "vn_constant v n = \<lparr>vn_space = Const_space, vn_offset = v, vn_size = n\<rparr>"

definition vn_register :: "u64 \<Rightarrow> nat \<Rightarrow> varnode" where
  "vn_register off n = \<lparr>vn_space = Register_space, vn_offset = off, vn_size = n\<rparr>"

definition vn_temp :: "u64 \<Rightarrow> nat \<Rightarrow> varnode" where
  "vn_temp i n = \<lparr>vn_space = Unique_space, vn_offset = i, vn_size = n\<rparr>"

definition vn_is_const :: "varnode \<Rightarrow> bool" where "vn_is_const v \<longleftrightarrow> vn_space v = Const_space"

definition vn_value :: "varnode \<Rightarrow> u64 option" where
  "vn_value v = (if vn_is_const v then Some (vn_offset v) else None)"

text \<open>The mask of a size, \<open>Varnode::mask\<close>.\<close>

definition size_mask :: "nat \<Rightarrow> u64" where
  "size_mask n = (if n = 0 then 0 else if n \<le> 7 then push_bit (8 * n) 1 - 1 else - 1)"

definition vn_mask :: "varnode \<Rightarrow> u64" where "vn_mask v = size_mask (vn_size v)"

definition saturating_add :: "u64 \<Rightarrow> nat \<Rightarrow> u64" where
  "saturating_add x n = (if unat x + n < 2 ^ 64 then x + of_nat n else - 1)"

definition vn_overlaps :: "varnode \<Rightarrow> varnode \<Rightarrow> bool" where
  "vn_overlaps v w \<longleftrightarrow> vn_space v = vn_space w \<and> vn_space v \<noteq> Const_space
     \<and> vn_offset v < saturating_add (vn_offset w) (vn_size w) \<and> vn_offset w < saturating_add (vn_offset v) (vn_size v)"

section \<open>Opcodes\<close>

datatype (plugins only: code) op =
    Copy | Load | Store | Branch | CBranch | BranchInd | Call | CallInd | Return
  | IntAdd | IntSub | IntMul | IntDiv | IntSDiv | IntRem | IntSRem | IntMulHigh | IntSMulHigh
  | IntDiv128 | IntSDiv128 | IntRem128 | IntSRem128 | IntAnd | IntOr | IntXor | IntNot | IntNegate
  | IntLeft | IntRight | IntSRight | IntEqual | IntNotEqual | IntLess | IntSLess | IntLessEqual | IntSLessEqual
  | IntCarry | IntSCarry | IntSBorrow | IntZExt | IntSExt | PopCount | LzCount | BoolAnd | BoolOr
  | BoolXor | BoolNot | FloatAdd | FloatSub | FloatMul | FloatDiv | FloatMulAdd | FloatNeg | FloatAbs
  | FloatSqrt | FloatMax | FloatMin | FloatEqual | FloatNotEqual | FloatLess | FloatLessEqual | FloatNan | FloatTrunc
  | FloatRound | FloatCeil | FloatFloor | IntToFloat | UIntToFloat | FloatToInt | FloatToUInt | FloatConvert | Undefine
  | Piece | SubPiece | Unimplemented

definition is_branch :: "op \<Rightarrow> bool" where
  "is_branch o' \<longleftrightarrow> o' \<in> {Branch, CBranch, BranchInd, Return, Call, CallInd}"

definition arity :: "op \<Rightarrow> nat" where
  "arity o' = (if o' \<in> {Copy, Load, IntNot, IntNegate, IntZExt, IntSExt, FloatNeg, FloatAbs, FloatSqrt,
       FloatNan, FloatTrunc, FloatRound, FloatCeil, FloatFloor, IntToFloat, UIntToFloat, FloatToInt, FloatToUInt,
       FloatConvert, BoolNot, PopCount, LzCount, Branch, BranchInd, Call, CallInd, Return} then 1
     else if o' \<in> {Unimplemented, Undefine} then 0
     else if o' \<in> {IntDiv128, IntSDiv128, IntRem128, IntSRem128, FloatMulAdd} then 3
     else 2)"

primrec op_str :: "op \<Rightarrow> string" where
  "op_str Copy = ''copy''"
| "op_str Load = ''load''"
| "op_str Store = ''store''"
| "op_str Branch = ''branch''"
| "op_str CBranch = ''cbranch''"
| "op_str BranchInd = ''branchind''"
| "op_str Call = ''call''"
| "op_str CallInd = ''callind''"
| "op_str Return = ''return''"
| "op_str IntAdd = ''+''"
| "op_str IntSub = ''-''"
| "op_str IntMul = ''*''"
| "op_str IntDiv = ''/u''"
| "op_str IntSDiv = ''/s''"
| "op_str IntRem = ''%u''"
| "op_str IntSRem = ''%s''"
| "op_str IntMulHigh = ''*hu''"
| "op_str IntSMulHigh = ''*hs''"
| "op_str IntDiv128 = ''/u128''"
| "op_str IntSDiv128 = ''/s128''"
| "op_str IntRem128 = ''%u128''"
| "op_str IntSRem128 = ''%s128''"
| "op_str IntAnd = ''&''"
| "op_str IntOr = ''|''"
| "op_str IntXor = ''^''"
| "op_str IntNot = ''~''"
| "op_str IntNegate = ''neg''"
| "op_str IntLeft = ''<<''"
| "op_str IntRight = ''>>u''"
| "op_str IntSRight = ''>>s''"
| "op_str IntEqual = ''==''"
| "op_str IntNotEqual = ''!=''"
| "op_str IntLess = ''<u''"
| "op_str IntSLess = ''<s''"
| "op_str IntLessEqual = ''<=u''"
| "op_str IntSLessEqual = ''<=s''"
| "op_str IntCarry = ''carry''"
| "op_str IntSCarry = ''scarry''"
| "op_str IntSBorrow = ''sborrow''"
| "op_str IntZExt = ''zext''"
| "op_str IntSExt = ''sext''"
| "op_str PopCount = ''popcount''"
| "op_str LzCount = ''lzcount''"
| "op_str BoolAnd = ''&&''"
| "op_str BoolOr = ''||''"
| "op_str BoolXor = ''^^''"
| "op_str BoolNot = ''!''"
| "op_str FloatAdd = ''f+''"
| "op_str FloatSub = ''f-''"
| "op_str FloatMul = ''f*''"
| "op_str FloatDiv = ''f/''"
| "op_str FloatMulAdd = ''fmuladd''"
| "op_str FloatNeg = ''fneg''"
| "op_str FloatAbs = ''fabs''"
| "op_str FloatSqrt = ''fsqrt''"
| "op_str FloatMax = ''fmax''"
| "op_str FloatMin = ''fmin''"
| "op_str FloatEqual = ''f==''"
| "op_str FloatNotEqual = ''f!=''"
| "op_str FloatLess = ''f<''"
| "op_str FloatLessEqual = ''f<=''"
| "op_str FloatNan = ''fnan''"
| "op_str FloatTrunc = ''ftrunc''"
| "op_str FloatRound = ''fround''"
| "op_str FloatCeil = ''fceil''"
| "op_str FloatFloor = ''ffloor''"
| "op_str IntToFloat = ''s2f''"
| "op_str UIntToFloat = ''u2f''"
| "op_str FloatToInt = ''f2s''"
| "op_str FloatToUInt = ''f2u''"
| "op_str FloatConvert = ''f2f''"
| "op_str Undefine = ''undefine''"
| "op_str Piece = ''piece''"
| "op_str SubPiece = ''subpiece''"
| "op_str Unimplemented = ''unimplemented''"

section \<open>Operations\<close>

text \<open>The code keeps the inputs in an array of three and their number; here they are the list of them.\<close>

definition MAX_INPUTS :: nat where "MAX_INPUTS = 3"

record ir_op =
  io_op :: op
  io_out :: "varnode option"
  io_inputs :: "varnode list"
  io_addr :: addr

definition ir_new :: "addr \<Rightarrow> op \<Rightarrow> varnode option \<Rightarrow> ir_op" where
  "ir_new a o' out = \<lparr>io_op = o', io_out = out, io_inputs = [], io_addr = a\<rparr>"

definition ir_with :: "ir_op \<Rightarrow> varnode \<Rightarrow> ir_op" where
  "ir_with i v = (if length (io_inputs i) < MAX_INPUTS then i\<lparr>io_inputs := io_inputs i @ [v]\<rparr> else i)"

definition nth_in :: "'a list \<Rightarrow> nat \<Rightarrow> 'a option" where
  "nth_in xs n = (if n < length xs then Some (xs ! n) else None)"

definition ir_input :: "ir_op \<Rightarrow> nat \<Rightarrow> varnode option" where
  "ir_input i n = nth_in (io_inputs i) n"

definition ir_map_inputs :: "(varnode \<Rightarrow> varnode) \<Rightarrow> ir_op \<Rightarrow> ir_op" where
  "ir_map_inputs f i = i\<lparr>io_inputs := map f (io_inputs i)\<rparr>"

definition ir_set_inputs :: "varnode list \<Rightarrow> ir_op \<Rightarrow> ir_op" where
  "ir_set_inputs vs i = i\<lparr>io_inputs := take MAX_INPUTS vs\<rparr>"

section \<open>Masks\<close>

lemma size_mask_eq: "size_mask n = mask (8 * n)"
proof (cases "n \<le> 7")
  case True
  then show ?thesis by (simp add: size_mask_def mask_eq_exp_minus_1 push_bit_eq_mult)
next
  case False
  then have "mask (8 * n) = (- 1 :: u64)" by (simp add: mask_eq_exp_minus_1)
  then show ?thesis using False by (simp add: size_mask_def)
qed

lemma and_size_mask: "x AND size_mask n = take_bit (8 * n) x"
  by (simp add: size_mask_eq take_bit_eq_mask)

lemma unat_size_mask: "unat (x AND size_mask n) = unat x mod 2 ^ (8 * n)"
  by (simp only: and_size_mask unsigned_take_bit_eq) (simp add: take_bit_eq_mod)

lemma size_mask_idem [simp]: "x AND size_mask n AND size_mask n = x AND size_mask n"
  by (simp add: and_size_mask)

lemma ir_inputs_max: "length (io_inputs i) \<le> MAX_INPUTS \<Longrightarrow> length (io_inputs (ir_with i v)) \<le> MAX_INPUTS"
  by (simp add: ir_with_def)

end
