(* ===== verification/Ir_Float.thy ===== *)
theory Ir_Float
  imports Ptx_Fp
begin

text \<open>
  The floating-point operations of the standard library that \<open>crates/e5r-ir/src/interp.rs\<close> uses, on bit
  patterns: \<open>f32\<close> and \<open>f64\<close> arithmetic rounds the exact result once to nearest, which is what the
  operations of \<open>Ptx_Fp\<close> compute (and are proved to) without flushing and saturation. Where the
  standard library leaves the pattern of a NaN open, it is the format's preferred one; where it leaves
  the sign of a zero open (\<open>max\<close> and \<open>min\<close> of zeros), it is that of the order with \<open>-0\<close> below \<open>+0\<close>.
\<close>

definition some_nan :: "fmt \<Rightarrow> u64 option \<Rightarrow> u64" where
  "some_nan f r = (case r of None \<Rightarrow> f_qnan f | Some x \<Rightarrow> x)"

definition rs_add :: "fmt \<Rightarrow> u64 \<Rightarrow> u64 \<Rightarrow> u64 panics" where
  "rs_add f a b = map_option (some_nan f) (fadd f Rn False False a b)"

definition rs_sub :: "fmt \<Rightarrow> u64 \<Rightarrow> u64 \<Rightarrow> u64 panics" where
  "rs_sub f a b = map_option (some_nan f) (fsub f Rn False False a b)"

definition rs_mul :: "fmt \<Rightarrow> u64 \<Rightarrow> u64 \<Rightarrow> u64 panics" where
  "rs_mul f a b = map_option (some_nan f) (fmul f Rn False False a b)"

definition rs_div :: "fmt \<Rightarrow> u64 \<Rightarrow> u64 \<Rightarrow> u64 panics" where
  "rs_div f a b = map_option (some_nan f) (fdiv f Rn False a b)"

definition rs_mul_add :: "fmt \<Rightarrow> u64 \<Rightarrow> u64 \<Rightarrow> u64 \<Rightarrow> u64 panics" where
  "rs_mul_add f a b c = map_option (some_nan f) (ffma f Rn False False a b c)"

definition rs_sqrt :: "fmt \<Rightarrow> u64 \<Rightarrow> u64 panics" where
  "rs_sqrt f a = map_option (some_nan f) (fsqrt f Rn False a)"

definition rs_max :: "fmt \<Rightarrow> u64 \<Rightarrow> u64 \<Rightarrow> u64" where
  "rs_max f a b = some_nan f (fminmax f True False False a b)"

definition rs_min :: "fmt \<Rightarrow> u64 \<Rightarrow> u64 \<Rightarrow> u64" where
  "rs_min f a b = some_nan f (fminmax f False False False a b)"

definition rs_neg :: "fmt \<Rightarrow> u64 \<Rightarrow> u64" where "rs_neg f a = f_neg_bits f a"
definition rs_abs :: "fmt \<Rightarrow> u64 \<Rightarrow> u64" where "rs_abs f a = a AND NOT (f_sign_bit f)"

definition rs_integral :: "rmode \<Rightarrow> fmt \<Rightarrow> u64 \<Rightarrow> u64 panics" where
  "rs_integral m f a = map_option (some_nan f) (round_integral f m False a)"

definition rs_trunc :: "fmt \<Rightarrow> u64 \<Rightarrow> u64 panics" where "rs_trunc = rs_integral Rz"
definition rs_ceil :: "fmt \<Rightarrow> u64 \<Rightarrow> u64 panics" where "rs_ceil = rs_integral Rp"
definition rs_floor :: "fmt \<Rightarrow> u64 \<Rightarrow> u64 panics" where "rs_floor = rs_integral Rm"

definition rs_eq :: "fmt \<Rightarrow> u64 \<Rightarrow> u64 \<Rightarrow> bool" where "rs_eq f a b \<longleftrightarrow> fsetp f FEq False a b"
definition rs_ne :: "fmt \<Rightarrow> u64 \<Rightarrow> u64 \<Rightarrow> bool" where "rs_ne f a b \<longleftrightarrow> fsetp f FNeu False a b"
definition rs_lt :: "fmt \<Rightarrow> u64 \<Rightarrow> u64 \<Rightarrow> bool" where "rs_lt f a b \<longleftrightarrow> fsetp f FLt False a b"
definition rs_le :: "fmt \<Rightarrow> u64 \<Rightarrow> u64 \<Rightarrow> bool" where "rs_le f a b \<longleftrightarrow> fsetp f FLe False a b"

text \<open>The casts between the formats and to and from integers; a cast to an integer truncates and
  saturates, and takes NaN to zero.\<close>

definition rs_convert :: "fmt \<Rightarrow> fmt \<Rightarrow> u64 \<Rightarrow> u64 panics" where
  "rs_convert d s a = map_option (some_nan d) (convert_f d s Rn False False a)"

definition rs_of_int :: "fmt \<Rightarrow> int \<Rightarrow> u64 panics" where
  "rs_of_int f v = of_int_bits f Rn False v"

definition rs_to_int :: "fmt \<Rightarrow> bool \<Rightarrow> nat \<Rightarrow> u64 \<Rightarrow> int panics" where
  "rs_to_int f sgd w a = (if f_is_nan f a then Some 0
     else if f_is_inf f a then Some (if f_sgn f a then int_lo sgd w else int_hi sgd w)
     else map_option (\<lambda>v. max (int_lo sgd w) (min (int_hi sgd w) v)) (round_int f Rz a))"

text \<open>\<open>f64::round\<close> takes halves away from zero. \<open>signum\<close> of a number that is not zero is one with its
  sign. The remainder by two of an integral \<open>f64\<close> is zero when it is even.\<close>

definition rs_round :: "u64 \<Rightarrow> u64 panics" where
  "rs_round v = do {
     t \<leftarrow> rs_trunc F64_fmt v;
     d \<leftarrow> rs_sub F64_fmt v t;
     if rs_le F64_fmt 0x3FE0000000000000 (rs_abs F64_fmt d)
     then rs_add F64_fmt t (if f_sgn F64_fmt v then rs_neg F64_fmt (f_one F64_fmt) else f_one F64_fmt)
     else Some t }"

definition rs_signum :: "u64 \<Rightarrow> u64" where
  "rs_signum v = (if f_is_nan F64_fmt v then v
     else if f_sgn F64_fmt v then rs_neg F64_fmt (f_one F64_fmt) else f_one F64_fmt)"

definition rs_odd :: "u64 \<Rightarrow> bool panics" where
  "rs_odd r = do {
     h \<leftarrow> rs_mul F64_fmt r 0x3FE0000000000000;
     t \<leftarrow> rs_trunc F64_fmt h;
     Some (rs_ne F64_fmt h t) }"

text \<open>\<open>round_ties_even\<close> of \<open>interp.rs\<close>.\<close>

definition round_ties_even :: "u64 \<Rightarrow> u64 panics" where
  "round_ties_even v = do {
     r \<leftarrow> rs_round v;
     t \<leftarrow> rs_trunc F64_fmt v;
     d \<leftarrow> rs_sub F64_fmt v t;
     odd \<leftarrow> rs_odd r;
     if rs_eq F64_fmt (rs_abs F64_fmt d) 0x3FE0000000000000 \<and> odd then rs_sub F64_fmt r (rs_signum v) else Some r }"

end
