(* ===== verification/Ir_Interp.thy ===== *)
theory Ir_Interp
  imports Ir_Op Ir_Float Core_Memory "HOL-Library.Signed_Division"
begin

text \<open>
  The interpreter of the intermediate representation, \<open>crates/e5r-ir/src/interp.rs\<close>: the machine, the
  arithmetic of every operation and \<open>step\<close>. \<open>None\<close> is a panic: an overflowing shift or addition, a
  division by zero. The arithmetic is a function of its own, \<open>alu\<close>, because the optimiser folds the
  same operations.
\<close>

section \<open>The machine\<close>

datatype stop = Returned | Budget | Stop_unimplemented addr | No_code addr | Stop_call addr | Divide_by_zero addr

record machine =
  mc_registers :: "u64 \<Rightarrow> u8 option"
  mc_memory :: "u64 \<Rightarrow> u8 option"
  mc_image :: "memory_map option"
  mc_temps :: "u64 \<Rightarrow> u64 option"
  mc_unknown_reads :: "addr list"
  mc_budget :: nat

definition mc_new :: machine where
  "mc_new = \<lparr>mc_registers = Map.empty, mc_memory = Map.empty, mc_image = None, mc_temps = Map.empty,
     mc_unknown_reads = [], mc_budget = 2 ^ 22\<rparr>"

definition mc_over :: "memory_map \<Rightarrow> machine" where "mc_over img = mc_new\<lparr>mc_image := Some img\<rparr>"

text \<open>The byte of a value that goes to position \<open>i\<close>, and the value with a byte put there: a shift by 64
  or more panics.\<close>

definition byte_out :: "u64 \<Rightarrow> nat \<Rightarrow> u8 panics" where
  "byte_out v i = (if i * 8 < 64 then Some (ucast (drop_bit (i * 8) v)) else None)"

definition byte_in :: "u8 \<Rightarrow> nat \<Rightarrow> u64 \<Rightarrow> u64 panics" where
  "byte_in b i v = (if i * 8 < 64 then Some (v OR push_bit (i * 8) (ucast b)) else None)"

definition add_offset :: "u64 \<Rightarrow> nat \<Rightarrow> u64 panics" where
  "add_offset off i = (if unat off + i < 2 ^ 64 then Some (off + of_nat i) else None)"

definition byte_or_0 :: "u8 option \<Rightarrow> u8" where "byte_or_0 b = (case b of None \<Rightarrow> 0 | Some x \<Rightarrow> x)"

fun reg_loop :: "(u64 \<Rightarrow> u8 option) \<Rightarrow> u64 \<Rightarrow> nat list \<Rightarrow> u64 \<Rightarrow> u64 panics" where
  "reg_loop regs off [] v = Some v"
| "reg_loop regs off (i # js) v = do {
     k \<leftarrow> add_offset off i;
     v \<leftarrow> byte_in (byte_or_0 (regs k)) i v;
     reg_loop regs off js v }"

definition mc_reg :: "machine \<Rightarrow> u64 \<Rightarrow> nat \<Rightarrow> u64 panics" where
  "mc_reg m off sz = reg_loop (mc_registers m) off [0..<sz] 0"

fun put_bytes :: "u64 \<Rightarrow> u64 \<Rightarrow> nat list \<Rightarrow> (u64 \<Rightarrow> u8 option) \<Rightarrow> (u64 \<Rightarrow> u8 option) panics" where
  "put_bytes off v [] regs = Some regs"
| "put_bytes off v (i # js) regs = do {
     k \<leftarrow> add_offset off i;
     b \<leftarrow> byte_out v i;
     put_bytes off v js (regs(k \<mapsto> b)) }"

definition mc_set_reg :: "u64 \<Rightarrow> nat \<Rightarrow> u64 \<Rightarrow> machine \<Rightarrow> machine panics" where
  "mc_set_reg off sz v m = map_option (\<lambda>r. m\<lparr>mc_registers := r\<rparr>) (put_bytes off v [0..<sz] (mc_registers m))"

fun write_loop :: "u64 \<Rightarrow> (nat \<times> u8) list \<Rightarrow> (u64 \<Rightarrow> u8 option) \<Rightarrow> (u64 \<Rightarrow> u8 option) panics" where
  "write_loop at0 [] mem = Some mem"
| "write_loop at0 ((i, b) # bs) mem = do { k \<leftarrow> add_offset at0 i; write_loop at0 bs (mem(k \<mapsto> b)) }"

definition mc_write_mem :: "u64 \<Rightarrow> u8 list \<Rightarrow> machine \<Rightarrow> machine panics" where
  "mc_write_mem at0 bs m = map_option (\<lambda>mem. m\<lparr>mc_memory := mem\<rparr>) (write_loop at0 (List.enumerate 0 bs) (mc_memory m))"

text \<open>One byte of memory: what the machine wrote, else the image's byte, else zero and a note.\<close>

definition mem_byte :: "addr \<Rightarrow> machine \<Rightarrow> u8 \<times> machine" where
  "mem_byte a m = (case mc_memory m a of
     Some b \<Rightarrow> (b, m)
   | None \<Rightarrow> (case Option.bind (mc_image m) (\<lambda>i. mm_slice i a 1) of
       Some s \<Rightarrow> (hd s, m)
     | None \<Rightarrow> (0, m\<lparr>mc_unknown_reads := mc_unknown_reads m @ [a]\<rparr>)))"

fun read_loop :: "u64 \<Rightarrow> nat list \<Rightarrow> u64 \<Rightarrow> machine \<Rightarrow> (u64 \<times> machine) panics" where
  "read_loop at0 [] v m = Some (v, m)"
| "read_loop at0 (i # js) v m = (case mem_byte (at0 + of_nat i) m of (b, m) \<Rightarrow> do {
     v \<leftarrow> byte_in b i v;
     read_loop at0 js v m })"

definition mc_read_mem :: "u64 \<Rightarrow> nat \<Rightarrow> machine \<Rightarrow> (u64 \<times> machine) panics" where
  "mc_read_mem at0 sz m = read_loop at0 [0..<sz] 0 m"

definition mc_read :: "varnode \<Rightarrow> machine \<Rightarrow> (u64 \<times> machine) panics" where
  "mc_read v m = do {
     (raw, m) \<leftarrow> (case vn_space v of
         Const_space \<Rightarrow> Some (vn_offset v, m)
       | Register_space \<Rightarrow> map_option (\<lambda>x. (x, m)) (mc_reg m (vn_offset v) (vn_size v))
       | Unique_space \<Rightarrow> Some (case mc_temps m (vn_offset v) of None \<Rightarrow> 0 | Some x \<Rightarrow> x, m)
       | Stack_space \<Rightarrow> Some (case mc_temps m (vn_offset v) of None \<Rightarrow> 0 | Some x \<Rightarrow> x, m)
       | Ram_space \<Rightarrow> mc_read_mem (vn_offset v) (vn_size v) m);
     Some (raw AND vn_mask v, m) }"

definition mc_write :: "varnode \<Rightarrow> u64 \<Rightarrow> machine \<Rightarrow> machine panics" where
  "mc_write v x m = (let x = x AND vn_mask v in
     (case vn_space v of
         Const_space \<Rightarrow> Some m
       | Register_space \<Rightarrow> mc_set_reg (vn_offset v) (vn_size v) x m
       | Unique_space \<Rightarrow> Some (m\<lparr>mc_temps := (mc_temps m)(vn_offset v \<mapsto> x)\<rparr>)
       | Stack_space \<Rightarrow> Some (m\<lparr>mc_temps := (mc_temps m)(vn_offset v \<mapsto> x)\<rparr>)
       | Ram_space \<Rightarrow> map_option (\<lambda>mem. m\<lparr>mc_memory := mem\<rparr>) (put_bytes (vn_offset v) x [0..<vn_size v] (mc_memory m))))"

definition mc_end_instruction :: "machine \<Rightarrow> machine" where
  "mc_end_instruction m = m\<lparr>mc_temps := Map.empty\<rparr>"

section \<open>Signed readings\<close>

definition ir_sign_bit :: "u64 \<Rightarrow> nat \<Rightarrow> bool" where
  "ir_sign_bit v sz \<longleftrightarrow> \<not> (sz = 0 \<or> sz > 8) \<and> drop_bit (sz * 8 - 1) v AND 1 = 1"

text \<open>An \<open>i64\<close> is an integer; its right shift rounds down. A cast back is \<open>word_of_int\<close>.\<close>

definition ir_sext :: "u64 \<Rightarrow> nat \<Rightarrow> int" where
  "ir_sext v sz = (if sz = 0 then 0
     else if sz \<le> 7 then (let shift = 64 - sz * 8 in sint (push_bit shift v) div 2 ^ shift)
     else sint v)"

text \<open>A \<open>u128\<close> is a natural below two to the 128, an \<open>i128\<close> an integer; a left shift drops the bits above
  128 and panics for a shift of 128 or more.\<close>

definition u128_shl :: "nat \<Rightarrow> nat \<Rightarrow> nat panics" where
  "u128_shl v n = (if n < 128 then Some (v * 2 ^ n mod 2 ^ 128) else None)"

definition i128_of :: "nat \<Rightarrow> int" where
  "i128_of v = (if v < 2 ^ 127 then int v else int v - 2 ^ 128)"

definition ir_sext128 :: "nat \<Rightarrow> nat \<Rightarrow> int panics" where
  "ir_sext128 v bits = (if bits \<ge> 128 then Some (i128_of v)
     else do { s \<leftarrow> u128_shl v (128 - bits); Some (i128_of s div 2 ^ (128 - bits)) })"

section \<open>Arithmetic\<close>

text \<open>What one operation computes from its inputs' values and sizes: a value, a division by zero, or
  nothing, for an operation with no value of its own.\<close>

datatype alu_result = Val u64 | Div_zero | No_value

definition b2w :: "bool \<Rightarrow> u64" where "b2w b = (if b then 1 else 0)"

definition alu_shl :: "u64 \<Rightarrow> u64 \<Rightarrow> u64 panics" where
  "alu_shl x n = (if unat n < 64 then Some (push_bit (unat n) x) else None)"

definition alu_shr :: "u64 \<Rightarrow> u64 \<Rightarrow> u64 panics" where
  "alu_shr x n = (if unat n < 64 then Some (drop_bit (unat n) x) else None)"

definition division_ops :: "op set" where
  "division_ops = {IntDiv, IntRem, IntSDiv, IntSRem, IntDiv128, IntRem128, IntSDiv128, IntSRem128}"

definition wide_division_ops :: "op set" where
  "wide_division_ops = {IntDiv128, IntRem128, IntSDiv128, IntSRem128}"

text \<open>The value and the size of an input, with the code's defaults for one that is missing.\<close>

definition in_val :: "(u64 \<times> nat) list \<Rightarrow> nat \<Rightarrow> u64" where
  "in_val ins n = (case nth_in ins n of None \<Rightarrow> 0 | Some (v, _) \<Rightarrow> v)"

definition in_size :: "(u64 \<times> nat) list \<Rightarrow> nat \<Rightarrow> nat \<Rightarrow> nat" where
  "in_size ins n d = (case nth_in ins n of None \<Rightarrow> d | Some (_, z) \<Rightarrow> z)"

definition in_sext :: "(u64 \<times> nat) list \<Rightarrow> nat \<Rightarrow> int" where
  "in_sext ins n = (case nth_in ins n of None \<Rightarrow> 0 | Some (v, z) \<Rightarrow> ir_sext v z)"

definition alu_shift :: "op \<Rightarrow> nat \<Rightarrow> u64 \<Rightarrow> int \<Rightarrow> u64 \<Rightarrow> u64 panics" where
  "alu_shift o' bits x xs y = (
     if o' = IntLeft then (if unat y \<ge> bits then Some 0 else alu_shl x y)
     else if o' = IntRight then (if unat y \<ge> bits then Some 0 else alu_shr x y)
     else if unat y \<ge> bits then Some (if xs < 0 then - 1 else 0)
     else if unat y < 64 then Some (word_of_int (xs div 2 ^ unat y)) else None)"

definition alu_mul_high :: "nat \<Rightarrow> int \<Rightarrow> int \<Rightarrow> u64 panics" where
  "alu_mul_high bits x y = (if bits < 128 then Some (word_of_int (x * y div 2 ^ bits)) else None)"

definition alu_wide_div :: "op \<Rightarrow> nat \<Rightarrow> u64 \<Rightarrow> u64 \<Rightarrow> u64 \<Rightarrow> u64 panics" where
  "alu_wide_div o' sz x y d = do {
     let bits = sz * 8;
     hi \<leftarrow> u128_shl (unat x) bits;
     let n = unat ((of_nat hi :: u128) OR ucast y);
     if o' = IntDiv128 then (if d = 0 then None else Some (of_nat (n div unat d)))
     else if o' = IntRem128 then (if d = 0 then None else Some (of_nat (n mod unat d)))
     else do {
       n \<leftarrow> ir_sext128 n (bits * 2);
       let d = ir_sext d sz;
       if d = 0 then None
       else if o' = IntSDiv128 then Some (word_of_int (n sdiv d))
       else Some (word_of_int (n smod d)) } }"

definition count_ones :: "u64 \<Rightarrow> nat" where
  "count_ones x = length (filter (bit x) [0..<64])"

definition alu_int :: "op \<Rightarrow> (u64 \<times> nat) list \<Rightarrow> alu_result panics" where
  "alu_int o' ins = (let x = in_val ins 0; xs = in_sext ins 0; y = in_val ins 1; ys = in_sext ins 1; sx = in_size ins 0 8 in
     case o' of
     Copy \<Rightarrow> Some (Val x)
   | IntAdd \<Rightarrow> Some (Val (x + y))
   | IntSub \<Rightarrow> Some (Val (x - y))
   | IntMul \<Rightarrow> Some (Val (x * y))
   | IntDiv \<Rightarrow> Some (Val (x div y))
   | IntRem \<Rightarrow> Some (Val (x mod y))
   | IntSDiv \<Rightarrow> if ys = 0 then None else Some (Val (word_of_int (xs sdiv ys)))
   | IntSRem \<Rightarrow> if ys = 0 then None else Some (Val (word_of_int (xs smod ys)))
   | IntAnd \<Rightarrow> Some (Val (x AND y))
   | IntOr \<Rightarrow> Some (Val (x OR y))
   | IntXor \<Rightarrow> Some (Val (x XOR y))
   | IntNot \<Rightarrow> Some (Val (NOT x))
   | IntNegate \<Rightarrow> Some (Val (- x))
   | IntLeft \<Rightarrow> map_option Val (alu_shift IntLeft (sx * 8) x xs y)
   | IntRight \<Rightarrow> map_option Val (alu_shift IntRight (sx * 8) x xs y)
   | IntSRight \<Rightarrow> map_option Val (alu_shift IntSRight (sx * 8) x xs y)
   | IntEqual \<Rightarrow> Some (Val (b2w (x = y)))
   | IntNotEqual \<Rightarrow> Some (Val (b2w (x \<noteq> y)))
   | IntLess \<Rightarrow> Some (Val (b2w (x < y)))
   | IntSLess \<Rightarrow> Some (Val (b2w (xs < ys)))
   | IntLessEqual \<Rightarrow> Some (Val (b2w (x \<le> y)))
   | IntSLessEqual \<Rightarrow> Some (Val (b2w (xs \<le> ys)))
   | IntCarry \<Rightarrow> Some (Val (b2w ((x + y) AND size_mask sx < x)))
   | IntSCarry \<Rightarrow> Some (Val (b2w (ir_sign_bit x sx = ir_sign_bit y sx \<and> ir_sign_bit (x + y) sx \<noteq> ir_sign_bit x sx)))
   | IntSBorrow \<Rightarrow> Some (Val (b2w (ir_sign_bit x sx \<noteq> ir_sign_bit y sx \<and> ir_sign_bit (x - y) sx \<noteq> ir_sign_bit x sx)))
   | IntMulHigh \<Rightarrow> map_option Val (alu_mul_high (sx * 8) (uint x) (uint y))
   | IntSMulHigh \<Rightarrow> map_option Val (alu_mul_high (sx * 8) xs ys)
   | IntDiv128 \<Rightarrow> map_option Val (alu_wide_div IntDiv128 (in_size ins 1 8) x y (in_val ins 2))
   | IntRem128 \<Rightarrow> map_option Val (alu_wide_div IntRem128 (in_size ins 1 8) x y (in_val ins 2))
   | IntSDiv128 \<Rightarrow> map_option Val (alu_wide_div IntSDiv128 (in_size ins 1 8) x y (in_val ins 2))
   | IntSRem128 \<Rightarrow> map_option Val (alu_wide_div IntSRem128 (in_size ins 1 8) x y (in_val ins 2))
   | IntZExt \<Rightarrow> Some (Val x)
   | IntSExt \<Rightarrow> Some (Val (word_of_int xs))
   | PopCount \<Rightarrow> Some (Val (of_nat (count_ones x)))
   | LzCount \<Rightarrow> if 0 < sx \<and> sx \<le> 8 then Some (Val (of_nat (leading_zeros (push_bit (64 - sx * 8) x)))) else None
   | BoolAnd \<Rightarrow> Some (Val (b2w (x \<noteq> 0 \<and> y \<noteq> 0)))
   | BoolOr \<Rightarrow> Some (Val (b2w (x \<noteq> 0 \<or> y \<noteq> 0)))
   | BoolXor \<Rightarrow> Some (Val (b2w ((x \<noteq> 0) \<noteq> (y \<noteq> 0))))
   | BoolNot \<Rightarrow> Some (Val (b2w (x = 0)))
   | Piece \<Rightarrow> map_option (\<lambda>h. Val (h OR y)) (alu_shl x (of_nat (in_size ins 1 0 * 8)))
   | SubPiece \<Rightarrow> if unat y * 8 < 2 ^ 64 then map_option Val (alu_shr x (y * 8)) else None
   | _ \<Rightarrow> Some No_value)"

text \<open>The floating-point operations, on single precision when the result has four bytes.\<close>

definition as_f64 :: "u64 \<Rightarrow> nat \<Rightarrow> u64 panics" where
  "as_f64 x sz = (if sz = 4 then rs_convert F64_fmt F32_fmt (x AND size_mask 4) else Some x)"

definition as_f32 :: "u64 \<Rightarrow> u64" where "as_f32 x = x AND size_mask 4"

definition float_arith_ops :: "op set" where
  "float_arith_ops = {FloatAdd, FloatSub, FloatMul, FloatDiv, FloatMax, FloatMin, FloatNeg, FloatAbs, FloatSqrt, FloatTrunc,
     FloatRound, FloatCeil, FloatFloor}"

definition float_test_ops :: "op set" where
  "float_test_ops = {FloatEqual, FloatNotEqual, FloatLess, FloatLessEqual, FloatNan}"

definition float_op :: "fmt \<Rightarrow> op \<Rightarrow> u64 \<Rightarrow> u64 \<Rightarrow> u64 panics" where
  "float_op f o' a c = (case o' of
     FloatAdd \<Rightarrow> rs_add f a c
   | FloatSub \<Rightarrow> rs_sub f a c
   | FloatMul \<Rightarrow> rs_mul f a c
   | FloatDiv \<Rightarrow> rs_div f a c
   | FloatMax \<Rightarrow> Some (rs_max f a c)
   | FloatMin \<Rightarrow> Some (rs_min f a c)
   | FloatNeg \<Rightarrow> Some (rs_neg f a)
   | FloatAbs \<Rightarrow> Some (rs_abs f a)
   | FloatSqrt \<Rightarrow> rs_sqrt f a
   | FloatTrunc \<Rightarrow> rs_trunc f a
   | FloatRound \<Rightarrow> if f = F32_fmt then do {
       w \<leftarrow> rs_convert F64_fmt F32_fmt a;
       r \<leftarrow> round_ties_even w;
       rs_convert F32_fmt F64_fmt r }
     else round_ties_even a
   | FloatCeil \<Rightarrow> rs_ceil f a
   | _ \<Rightarrow> rs_floor f a)"

definition float_test :: "op \<Rightarrow> u64 \<Rightarrow> u64 \<Rightarrow> bool" where
  "float_test o' a c \<longleftrightarrow> (case o' of
     FloatEqual \<Rightarrow> rs_eq F64_fmt a c
   | FloatNotEqual \<Rightarrow> rs_ne F64_fmt a c
   | FloatLess \<Rightarrow> rs_lt F64_fmt a c
   | FloatLessEqual \<Rightarrow> rs_le F64_fmt a c
   | _ \<Rightarrow> f_is_nan F64_fmt a)"

text \<open>The width of a cast to an integer follows the size of the result.\<close>

definition cast_width :: "nat \<Rightarrow> nat" where
  "cast_width sz = (if sz = 1 then 8 else if sz = 2 then 16 else if sz = 4 then 32 else 64)"

definition alu_float :: "op \<Rightarrow> nat \<Rightarrow> (u64 \<times> nat) list \<Rightarrow> alu_result panics" where
  "alu_float o' out_size ins = (let x = in_val ins 0; y = in_val ins 1; sz = in_size ins 0 8; f = (if out_size = 4 then F32_fmt else F64_fmt) in
     if o' \<in> float_arith_ops then
       if out_size = 4 then map_option Val (float_op F32_fmt o' (as_f32 x) (as_f32 y))
       else do {
         a \<leftarrow> as_f64 x sz;
         c \<leftarrow> as_f64 y (in_size ins 1 sz);
         map_option Val (float_op F64_fmt o' a c) }
     else if o' = FloatMulAdd then
       (if out_size = 4 then map_option Val (rs_mul_add F32_fmt (as_f32 x) (as_f32 y) (as_f32 (in_val ins 2)))
        else map_option Val (rs_mul_add F64_fmt x y (in_val ins 2)))
     else if o' \<in> float_test_ops then do {
       a \<leftarrow> as_f64 x sz;
       c \<leftarrow> as_f64 y (in_size ins 1 sz);
       Some (Val (b2w (float_test o' a c))) }
     else if o' = IntToFloat then map_option Val (rs_of_int f (ir_sext x sz))
     else if o' = UIntToFloat then map_option Val (rs_of_int f (uint (x AND size_mask sz)))
     else if o' \<in> {FloatToInt, FloatToUInt} then do {
       a \<leftarrow> as_f64 x sz;
       v \<leftarrow> rs_trunc F64_fmt a;
       i \<leftarrow> rs_to_int F64_fmt (o' = FloatToInt) (cast_width out_size) v;
       Some (Val (word_of_int i)) }
     else if o' = FloatConvert then do {
       v \<leftarrow> as_f64 x sz;
       if out_size = 4 then map_option Val (rs_convert F32_fmt F64_fmt v) else Some (Val v) }
     else Some No_value)"

definition is_float_op :: "op \<Rightarrow> bool" where
  "is_float_op o' \<longleftrightarrow> o' \<in> float_arith_ops \<or> o' \<in> float_test_ops
     \<or> o' \<in> {FloatMulAdd, IntToFloat, UIntToFloat, FloatToInt, FloatToUInt, FloatConvert}"

text \<open>The divisor comes second, or third for a double-width dividend.\<close>

definition divisor_at :: "op \<Rightarrow> nat" where
  "divisor_at o' = (if o' \<in> wide_division_ops then 2 else 1)"

definition alu :: "op \<Rightarrow> nat \<Rightarrow> (u64 \<times> nat) list \<Rightarrow> alu_result panics" where
  "alu o' out_size ins = (
     if o' \<in> division_ops \<and> in_val ins (divisor_at o') = 0 then Some Div_zero
     else if is_float_op o' then alu_float o' out_size ins
     else alu_int o' ins)"

section \<open>One operation\<close>

datatype step_result = Next | Jump addr | Call_to addr | Leave addr | Halt stop

definition read_input :: "ir_op \<Rightarrow> nat \<Rightarrow> machine \<Rightarrow> (u64 \<times> machine) panics" where
  "read_input i n m = (case ir_input i n of None \<Rightarrow> Some (0, m) | Some v \<Rightarrow> mc_read v m)"

text \<open>The values the arithmetic gets. The code reads each of the first two inputs twice, the second time
  to sign-extend it, and a divisor once more; a second read returns the same value and notes unknown
  bytes again.\<close>

definition with_size :: "ir_op \<Rightarrow> nat \<Rightarrow> u64 \<Rightarrow> (u64 \<times> nat) list" where
  "with_size i n x = (case ir_input i n of None \<Rightarrow> [] | Some v \<Rightarrow> [(x, vn_size v)])"

definition read_inputs :: "ir_op \<Rightarrow> machine \<Rightarrow> ((u64 \<times> nat) list \<times> machine) panics" where
  "read_inputs i m = do {
     (x, m) \<leftarrow> read_input i 0 m;
     (_, m) \<leftarrow> read_input i 0 m;
     (y, m) \<leftarrow> read_input i 1 m;
     (_, m) \<leftarrow> read_input i 1 m;
     Some (with_size i 0 x @ with_size i 1 y, m) }"

definition read_third :: "ir_op \<Rightarrow> (u64 \<times> nat) list \<Rightarrow> machine \<Rightarrow> ((u64 \<times> nat) list \<times> machine) panics" where
  "read_third i ins m = (
     if io_op i \<in> division_ops then do {
       (d, m) \<leftarrow> read_input i (divisor_at (io_op i)) m;
       if d = 0 then Some (if divisor_at (io_op i) = 2 then ins @ with_size i 2 d else ins, m)
       else if io_op i \<in> wide_division_ops then do {
         (d, m) \<leftarrow> read_input i 2 m;
         Some (ins @ with_size i 2 d, m) }
       else Some (ins, m) }
     else if io_op i = FloatMulAdd then do {
       (z, m) \<leftarrow> read_input i 2 m;
       Some (ins @ with_size i 2 z, m) }
     else Some (ins, m))"

fun store_loop :: "u64 \<Rightarrow> u64 \<Rightarrow> nat list \<Rightarrow> (u64 \<Rightarrow> u8 option) \<Rightarrow> (u64 \<Rightarrow> u8 option) panics" where
  "store_loop at0 v [] mem = Some mem"
| "store_loop at0 v (i # js) mem = do {
     b \<leftarrow> byte_out v i;
     store_loop at0 v js (mem(at0 + of_nat i \<mapsto> b)) }"

definition step_store :: "ir_op \<Rightarrow> machine \<Rightarrow> (step_result \<times> machine) panics" where
  "step_store i m = (case (ir_input i 0, ir_input i 1) of
     (Some a, Some w) \<Rightarrow> do {
       (at0, m) \<leftarrow> mc_read a m;
       (v, m) \<leftarrow> mc_read w m;
       mem \<leftarrow> store_loop at0 v [0..<vn_size w] (mc_memory m);
       Some (Next, m\<lparr>mc_memory := mem\<rparr>) }
   | _ \<Rightarrow> Some (Next, m))"

definition step_value :: "ir_op \<Rightarrow> varnode \<Rightarrow> machine \<Rightarrow> (step_result \<times> machine) panics" where
  "step_value i out m = do {
     (ins, m) \<leftarrow> read_inputs i m;
     if io_op i = Undefine then Some (Next, m)
     else if io_op i = Load then do {
       (v, m) \<leftarrow> mc_read_mem (in_val ins 0) (vn_size out) m;
       m \<leftarrow> mc_write out v m;
       Some (Next, m) }
     else do {
       (ins, m) \<leftarrow> read_third i ins m;
       r \<leftarrow> alu (io_op i) (vn_size out) ins;
       (case r of
          Val v \<Rightarrow> map_option (\<lambda>m. (Next, m)) (mc_write out v m)
        | Div_zero \<Rightarrow> Some (Halt (Divide_by_zero (io_addr i)), m)
        | No_value \<Rightarrow> Some (Next, m)) } }"

definition branch_target :: "ir_op \<Rightarrow> step_result" where
  "branch_target i = (case Option.bind (ir_input i 0) vn_value of
     None \<Rightarrow> Halt (Stop_unimplemented (io_addr i)) | Some t \<Rightarrow> Jump t)"

definition ir_step :: "ir_op \<Rightarrow> machine \<Rightarrow> (step_result \<times> machine) panics" where
  "ir_step i m = (
     if io_op i = Unimplemented then Some (Halt (Stop_unimplemented (io_addr i)), m)
     else if io_op i = Branch then Some (branch_target i, m)
     else if io_op i = CBranch then do {
       (c, m) \<leftarrow> read_input i 1 m;
       Some (if c \<noteq> 0 then branch_target i else Next, m) }
     else if io_op i \<in> {BranchInd, Return} then do {
       (t, m) \<leftarrow> read_input i 0 m;
       Some (if io_op i = Return then Leave t else Jump t, m) }
     else if io_op i \<in> {Call, CallInd} then do {
       (t, m) \<leftarrow> read_input i 0 m;
       Some (Call_to t, m) }
     else (case io_out i of
         None \<Rightarrow> if io_op i = Store then step_store i m else Some (Next, m)
       | Some out \<Rightarrow> step_value i out m))"

end
