(* ===== verification/Ir_Ssa.thy ===== *)
theory Ir_Ssa
  imports Ir_Interp Core_Arch
begin

text \<open>
  Functions in static single assignment form, the data of \<open>crates/e5r-ir/src/ssa.rs\<close>, and what they mean:
  an environment gives every value a number, a pure operation computes a function of its operands (the
  interpreter's \<open>alu\<close>), and a phi has the value one of its inputs had at some point of the run.
\<close>

section \<open>Locations, values, operands\<close>

record location =
  lc_space :: ir_space
  lc_offset :: u64
  lc_size :: nat

definition location_of :: "varnode \<Rightarrow> location option" where
  "location_of v = (case vn_space v of
     Const_space \<Rightarrow> None
   | Ram_space \<Rightarrow> None
   | Register_space \<Rightarrow>
       if vn_size v = 1 then Some \<lparr>lc_space = Register_space, lc_offset = vn_offset v, lc_size = 1\<rparr>
       else if unat (vn_offset v) mod 8 + vn_size v > 8 then None
       else Some \<lparr>lc_space = Register_space, lc_offset = vn_offset v AND NOT 7, lc_size = 8\<rparr>
   | s \<Rightarrow> Some \<lparr>lc_space = s, lc_offset = vn_offset v, lc_size = vn_size v\<rparr>)"

definition loc_whole :: "location \<Rightarrow> varnode" where
  "loc_whole l = \<lparr>vn_space = lc_space l, vn_offset = lc_offset l, vn_size = lc_size l\<rparr>"

record ssa_value =
  sv_location :: location
  sv_version :: nat

datatype ssa_operand = OValue ssa_value | OConst u64 nat | OUndefined location

definition opnd_size :: "ssa_operand \<Rightarrow> nat" where
  "opnd_size x = (case x of OConst _ n \<Rightarrow> n | OValue v \<Rightarrow> lc_size (sv_location v) | OUndefined l \<Rightarrow> lc_size l)"

definition as_const :: "ssa_operand \<Rightarrow> u64 option" where
  "as_const x = (case x of OConst v _ \<Rightarrow> Some v | _ \<Rightarrow> None)"

definition as_value :: "ssa_operand \<Rightarrow> ssa_value option" where
  "as_value x = (case x of OValue v \<Rightarrow> Some v | _ \<Rightarrow> None)"

lemmas opnd_size_simps [simp] =
  opnd_size_def [of "OConst v n" for v n, simplified ssa_operand.case]
  opnd_size_def [of "OValue v" for v, simplified ssa_operand.case]
  opnd_size_def [of "OUndefined l" for l, simplified ssa_operand.case]

lemma as_const_Some [simp]: "as_const x = Some v \<longleftrightarrow> (\<exists>n. x = OConst v n)"
  by (cases x) (simp_all add: as_const_def)

section \<open>Functions\<close>

datatype ssa_kind = Phi | Ssa_op op

record ssa_op =
  so_addr :: addr
  so_kind :: ssa_kind
  so_out :: "ssa_value option"
  so_inputs :: "ssa_operand list"
  so_size :: nat

record ssa_block =
  sb_ops :: "ssa_op list"
  sb_successors :: "addr list"
  sb_predecessors :: "addr list"

text \<open>The blocks are an ordered map; here the list of its entries, in order.\<close>

record ssa_function =
  sf_arch :: arch
  sf_entry :: addr
  sf_blocks :: "(addr \<times> ssa_block) list"

definition sf_ops :: "ssa_function \<Rightarrow> ssa_op list" where
  "sf_ops f = concat (map (\<lambda>(_, b). sb_ops b) (sf_blocks f))"

definition sf_block :: "ssa_function \<Rightarrow> addr \<Rightarrow> ssa_block option" where
  "sf_block f a = map_of (sf_blocks f) a"

definition op_count :: "ssa_function \<Rightarrow> nat" where
  "op_count f = sum_list (map (\<lambda>(_, b). length (sb_ops b)) (sf_blocks f))"

definition phi_count :: "ssa_function \<Rightarrow> nat" where
  "phi_count f = length (filter (\<lambda>i. so_kind i = Phi) (sf_ops f))"

fun block_definitions :: "addr \<Rightarrow> nat \<Rightarrow> ssa_op list \<Rightarrow> (ssa_value \<Rightarrow> (addr \<times> nat) option) \<Rightarrow> ssa_value \<Rightarrow> (addr \<times> nat) option" where
  "block_definitions a n [] d = d"
| "block_definitions a n (i # is) d = block_definitions a (n + 1) is (case so_out i of None \<Rightarrow> d | Some v \<Rightarrow> d(v \<mapsto> (a, n)))"

definition sf_definitions :: "ssa_function \<Rightarrow> ssa_value \<Rightarrow> (addr \<times> nat) option" where
  "sf_definitions f = fold (\<lambda>(a, b) d. block_definitions a 0 (sb_ops b) d) (sf_blocks f) Map.empty"

text \<open>A pass that rewrites operations one by one and counts its rewrites.\<close>

definition map_block_ops :: "(ssa_op list \<Rightarrow> ssa_op list) \<Rightarrow> ssa_function \<Rightarrow> ssa_function" where
  "map_block_ops g f = f\<lparr>sf_blocks := map (\<lambda>(a, b). (a, b\<lparr>sb_ops := g (sb_ops b)\<rparr>)) (sf_blocks f)\<rparr>"

lemma sf_ops_map_block: "sf_ops (map_block_ops g f) = concat (map (\<lambda>(_, b). g (sb_ops b)) (sf_blocks f))"
  by (simp add: sf_ops_def map_block_ops_def split_def comp_def)

lemma sf_ops_map: "sf_ops (map_block_ops (map g) f) = map g (sf_ops f)"
  by (subst sf_ops_map_block) (simp add: sf_ops_def map_concat comp_def split_def)

section \<open>Meaning\<close>

text \<open>True when an operation depends on nothing but its inputs, \<open>pure\<close> of \<open>opt.rs\<close>.\<close>

definition pure_op :: "op \<Rightarrow> bool" where
  "pure_op x \<longleftrightarrow> x \<notin> {Load, Store, Call, CallInd, Branch, CBranch, BranchInd, Return, Unimplemented, Undefine, Copy}"

type_synonym env = "ssa_value \<Rightarrow> u64"

text \<open>\<open>u\<close> gives the values of the locations nothing defines, \<open>d\<close> completes an operation that halts.\<close>

definition opnd_val :: "(location \<Rightarrow> u64) \<Rightarrow> env \<Rightarrow> ssa_operand \<Rightarrow> u64" where
  "opnd_val u r x = (case x of OConst v n \<Rightarrow> v AND size_mask n | OValue v \<Rightarrow> r v
     | OUndefined l \<Rightarrow> u l AND size_mask (lc_size l))"

type_synonym completion = "op \<Rightarrow> nat \<Rightarrow> (u64 \<times> nat) list \<Rightarrow> u64"

definition alu_val :: "completion \<Rightarrow> op \<Rightarrow> nat \<Rightarrow> (u64 \<times> nat) list \<Rightarrow> u64" where
  "alu_val d x n ins = (case alu x n ins of Some (Val v) \<Rightarrow> v | _ \<Rightarrow> d x n ins) AND size_mask n"

definition op_ins :: "(location \<Rightarrow> u64) \<Rightarrow> env \<Rightarrow> ssa_op \<Rightarrow> (u64 \<times> nat) list" where
  "op_ins u r i = map (\<lambda>x. (opnd_val u r x, opnd_size x)) (so_inputs i)"

text \<open>The equation of an operation in an environment \<open>r\<close> of the set \<open>R\<close> of those of a run.\<close>

definition op_holds :: "(location \<Rightarrow> u64) \<Rightarrow> completion \<Rightarrow> env set \<Rightarrow> env \<Rightarrow> ssa_op \<Rightarrow> bool" where
  "op_holds u d R r i \<longleftrightarrow> (case so_out i of None \<Rightarrow> True | Some v \<Rightarrow>
     (case so_kind i of
        Phi \<Rightarrow> \<exists>q\<in>R. \<exists>x\<in>set (so_inputs i). r v = opnd_val u q x
      | Ssa_op x \<Rightarrow> pure_op x \<or> x = Copy \<longrightarrow> r v = alu_val d x (so_size i) (op_ins u r i)))"

text \<open>A run's environments keep values within their sizes and satisfy the equations of its function.\<close>

definition env_ok :: "env \<Rightarrow> bool" where
  "env_ok r \<longleftrightarrow> (\<forall>v. r v AND size_mask (lc_size (sv_location v)) = r v)"

definition models :: "(location \<Rightarrow> u64) \<Rightarrow> completion \<Rightarrow> env set \<Rightarrow> ssa_op list \<Rightarrow> bool" where
  "models u d R ops \<longleftrightarrow> (\<forall>r\<in>R. env_ok r \<and> (\<forall>i\<in>set ops. op_holds u d R r i))"

text \<open>The sizes a lifter gives: an operation works at the size of the value it defines; a subtraction, a
  borrow and a signed comparison have operands of one size; a subtraction, an arithmetic shift and a
  merge work at the size of their operands; an extension does not narrow. A constant fits its size,
  which is a condition on the function: neither the lifters nor the construction cut it
  (\<open>fold_unmasked_constant\<close> shows what happens otherwise).\<close>

definition opnd_ok :: "ssa_operand \<Rightarrow> bool" where
  "opnd_ok x \<longleftrightarrow> 0 < opnd_size x \<and> (case x of OConst v n \<Rightarrow> v AND size_mask n = v | _ \<Rightarrow> True)"

definition same_size_ops :: "op set" where
  "same_size_ops = {IntSub, IntSBorrow, IntSLessEqual}"

definition sized_ops :: "op set" where
  "sized_ops = {IntSub, IntSRight, IntOr}"

definition op_sized :: "ssa_op \<Rightarrow> bool" where
  "op_sized i \<longleftrightarrow> list_all opnd_ok (so_inputs i) \<and> 0 < so_size i
    \<and> (case so_out i of None \<Rightarrow> True | Some v \<Rightarrow> lc_size (sv_location v) = so_size i)
    \<and> (case so_kind i of
        Phi \<Rightarrow> list_all (\<lambda>x. opnd_size x = so_size i) (so_inputs i)
      | Ssa_op x \<Rightarrow>
          (x \<in> same_size_ops \<longrightarrow> (\<forall>a b t. so_inputs i = a # b # t \<longrightarrow> opnd_size a = opnd_size b))
        \<and> (x \<in> sized_ops \<longrightarrow> (\<forall>a t. so_inputs i = a # t \<longrightarrow> opnd_size a = so_size i))
        \<and> (x = IntOr \<longrightarrow> (\<forall>a b t. so_inputs i = a # b # t \<longrightarrow> opnd_size b = so_size i))
        \<and> (x = IntZExt \<longrightarrow> (\<forall>a t. so_inputs i = a # t \<longrightarrow> opnd_size a \<le> so_size i)))"

text \<open>Operations of at most eight bytes, and a piece that starts at a constant byte inside the word.\<close>

definition op_narrow :: "ssa_op \<Rightarrow> bool" where
  "op_narrow i \<longleftrightarrow> list_all (\<lambda>x. opnd_size x \<le> 8) (so_inputs i)
    \<and> (so_kind i = Ssa_op SubPiece \<longrightarrow> (\<forall>a b t. so_inputs i = a # b # t \<longrightarrow> (\<exists>v n. b = OConst v n \<and> unat v < 8)))"

definition op_good :: "ssa_op \<Rightarrow> bool" where
  "op_good i \<longleftrightarrow> op_sized i \<and> op_narrow i \<and> so_size i \<le> 8"

definition good_function :: "ssa_function \<Rightarrow> bool" where
  "good_function f \<longleftrightarrow> list_all op_good (sf_ops f)"

lemma opnd_val_small: "env_ok r \<Longrightarrow> opnd_val u r x AND size_mask (opnd_size x) = opnd_val u r x"
  by (cases x) (simp_all add: opnd_val_def env_ok_def)

lemma opnd_val_const: "opnd_ok (OConst v n) \<Longrightarrow> opnd_val u r (OConst v n) = v"
  by (simp add: opnd_val_def opnd_ok_def)

lemma models_op: "models u d R ops \<Longrightarrow> r \<in> R \<Longrightarrow> i \<in> set ops \<Longrightarrow> op_holds u d R r i"
  by (simp add: models_def)

lemma models_env: "models u d R ops \<Longrightarrow> r \<in> R \<Longrightarrow> env_ok r"
  by (simp add: models_def)

text \<open>A rewriting of operations that keeps their equations keeps the models.\<close>

lemma models_map:
  assumes "models u d R ops" and "\<And>r i. r \<in> R \<Longrightarrow> i \<in> set ops \<Longrightarrow> op_holds u d R r i \<Longrightarrow> op_holds u d R r (g i)"
  shows "models u d R (map g ops)"
  using assms by (simp add: models_def)

lemma alu_val_masked [simp]: "alu_val d x n ins AND size_mask n = alu_val d x n ins"
  by (simp add: alu_val_def)

lemma alu_val_copy: "alu_val d Copy n [(v, m)] = v AND size_mask n"
  by (simp add: alu_val_def alu_def division_ops_def is_float_op_def float_arith_ops_def float_test_ops_def alu_int_def in_val_def nth_in_def)

section \<open>Rewriting an operation\<close>

text \<open>What the passes do most: an operation becomes the copy of an operand.\<close>

definition so_copy :: "ssa_operand \<Rightarrow> ssa_op \<Rightarrow> ssa_op" where
  "so_copy x i = i\<lparr>so_kind := Ssa_op Copy, so_inputs := [x]\<rparr>"

definition out_is :: "env \<Rightarrow> ssa_op \<Rightarrow> u64 \<Rightarrow> bool" where
  "out_is r i v \<longleftrightarrow> (case so_out i of None \<Rightarrow> True | Some w \<Rightarrow> r w = v)"

lemma out_is_copy [simp]: "out_is r (so_copy x i) v = out_is r i v"
  by (simp add: out_is_def so_copy_def)

lemma op_holds_pure: "so_kind i = Ssa_op x \<Longrightarrow> pure_op x \<or> x = Copy \<Longrightarrow>
  op_holds u d R r i = out_is r i (alu_val d x (so_size i) (op_ins u r i))"
  by (cases "so_out i") (auto simp: op_holds_def out_is_def)

lemma op_holds_copy: "op_holds u d R r (so_copy x i) = out_is r i (opnd_val u r x AND size_mask (so_size i))"
  using op_holds_pure [of "so_copy x i" Copy u d R r]
  by (cases "so_out i") (simp_all add: so_copy_def op_ins_def alu_val_copy out_is_def)

lemma op_holds_impure: "so_kind i = Ssa_op x \<Longrightarrow> \<not> pure_op x \<Longrightarrow> x \<noteq> Copy \<Longrightarrow> op_holds u d R r i"
  by (cases "so_out i") (auto simp: op_holds_def)

lemma op_sized_copy: "op_sized i \<Longrightarrow> opnd_ok x \<Longrightarrow> op_sized (so_copy x i)"
  by (cases "so_out i") (simp_all add: op_sized_def so_copy_def same_size_ops_def sized_ops_def)

lemma op_sized_pos: "op_sized i \<Longrightarrow> 0 < so_size i"
  by (simp add: op_sized_def)

lemma op_sized_inputs: "op_sized i \<Longrightarrow> x \<in> set (so_inputs i) \<Longrightarrow> opnd_ok x"
  by (simp add: op_sized_def list_all_iff)

section \<open>Passes that rewrite one operation at a time\<close>

text \<open>The contract of such a pass: under what it relies on, the facts of the whole function and those of an
  environment, the rewritten operation's equation follows from the operation's own, and its sizes stay
  good.\<close>

locale rewriting =
  fixes u :: "location \<Rightarrow> u64" and d :: completion and static :: bool and facts :: "env \<Rightarrow> bool" and rw :: "ssa_op \<Rightarrow> ssa_op"
  assumes rw_holds: "static \<Longrightarrow> env_ok r \<Longrightarrow> facts r \<Longrightarrow> op_good i \<Longrightarrow> op_holds u d R r i \<Longrightarrow> op_holds u d R r (rw i)"
    and rw_good: "static \<Longrightarrow> op_good i \<Longrightarrow> op_good (rw i)"
begin

lemma models_rw:
  assumes "static" and "models u d R ops" and "\<forall>r\<in>R. facts r" and "list_all op_good ops"
  shows "models u d R (map rw ops)"
proof (rule models_map [OF assms(2)])
  fix r i
  assume "r \<in> R" and "i \<in> set ops" and "op_holds u d R r i"
  then show "op_holds u d R r (rw i)"
    using assms models_env [OF assms(2)] by (intro rw_holds) (auto simp: list_all_iff)
qed

lemma good_rw: "static \<Longrightarrow> list_all op_good ops \<Longrightarrow> list_all op_good (map rw ops)"
  by (auto simp: list_all_iff intro: rw_good)

lemma models_rw_pass:
  assumes "static" and "models u d R (sf_ops f)" and "\<forall>r\<in>R. facts r" and "good_function f"
  shows "models u d R (sf_ops (map_block_ops (map rw) f))"
  using models_rw [OF assms(1-3)] assms(4) unfolding sf_ops_map good_function_def by blast

lemma good_rw_pass: "static \<Longrightarrow> good_function f \<Longrightarrow> good_function (map_block_ops (map rw) f)"
  unfolding good_function_def sf_ops_map by (rule good_rw)

end

end
