(* ===== verification/Ir_Arith.thy ===== *)
theory Ir_Arith
  imports Ir_Interp
begin

text \<open>
  The interpreter's signed readings, sign bits and flags as statements about integers: \<open>ir_sext\<close> reads
  two's complement, and the borrow of a subtraction corrects the sign of its difference.
\<close>

lemma sint_u64: "sint (w :: u64) = (if unat w < 2 ^ 63 then int (unat w) else int (unat w) - 2 ^ 64)"
proof -
  have b: "bit (uint w) 63 \<longleftrightarrow> 2 ^ 63 \<le> unat w"
  proof -
    have "unat w div 2 ^ 63 < 2" by (rule less_mult_imp_div_less) (use unat_lt_u64 [of w] in simp)
    then have "odd (unat w div 2 ^ 63) \<longleftrightarrow> unat w div 2 ^ 63 \<noteq> 0" by (cases "unat w div 2 ^ 63 = 1") auto
    moreover have "uint w div 2 ^ 63 = int (unat w div 2 ^ 63)" by (simp add: zdiv_int)
    ultimately have "odd (uint w div 2 ^ 63) \<longleftrightarrow> unat w div 2 ^ 63 \<noteq> 0" by (simp only: even_of_nat)
    then show ?thesis by (simp add: bit_iff_odd div_eq_0_iff not_less)
  qed
  have "sint w = signed_take_bit 63 (uint w)" by (simp add: sint_uint)
  also have "\<dots> = take_bit 64 (uint w) - 2 ^ 64 * of_bool (bit (uint w) 63)"
    by (simp add: signed_take_bit_eq_take_bit_minus)
  also have "take_bit 64 (uint w) = uint w" using uint_bounded [of w] by (simp add: take_bit_int_eq_self_iff)
  finally show ?thesis using b by (auto simp: of_bool_def not_le)
qed

lemma nth_in_set: "nth_in xs n = Some x \<Longrightarrow> x \<in> set xs"
  by (auto simp: nth_in_def split: if_splits)

lemma unat_times_8: "unat (y :: u64) < 8 \<Longrightarrow> unat (y * 8) = unat y * 8"
  by (simp add: unat_word_ariths)

text \<open>A value of \<open>n\<close> bytes, read as unsigned, is what masking keeps.\<close>

lemma masked_less: "v AND size_mask n = v \<Longrightarrow> n \<le> 8 \<Longrightarrow> unat v < 2 ^ (8 * n)"
  using unat_size_mask [of v n] by (metis mod_less_divisor zero_less_numeral zero_less_power)

lemma int_less_pow: "n < 2 ^ k \<Longrightarrow> int n < 2 ^ k"
  by (metis of_nat_less_iff of_nat_numeral of_nat_power)

lemma ir_sext_val:
  assumes "0 < n" and "n \<le> 8" and "unat v < 2 ^ (8 * n)"
  shows "ir_sext v n = (if unat v < 2 ^ (8 * n - 1) then int (unat v) else int (unat v) - 2 ^ (8 * n))"
proof (cases "n = 8")
  case False
  then have n: "n \<le> 7" using assms(2) by simp
  define s where "s = 64 - n * 8"
  have s: "s + 8 * n = 64" "0 < s" using n by (simp_all add: s_def)
  then have pw: "(2 :: nat) ^ 64 = 2 ^ s * 2 ^ (8 * n)" "(2 :: nat) ^ 63 = 2 ^ s * 2 ^ (8 * n - 1)" "(2 :: int) ^ 64 = 2 ^ s * 2 ^ (8 * n)"
    using assms(1) power_add [of "2 :: nat" s "8 * n"] power_add [of "2 :: nat" s "8 * n - 1"] power_add [of "2 :: int" s "8 * n"] by simp_all
  have u: "unat (push_bit s v) = 2 ^ s * unat v"
  proof (subst unat_push_bit_small)
    have "unat v * 2 ^ s < 2 ^ (8 * n) * 2 ^ s" using assms(3) by (rule mult_strict_right_mono) simp
    also have "\<dots> = 2 ^ LENGTH(64)" using pw(1) by (simp add: mult.commute)
    finally show "unat v * 2 ^ s < 2 ^ LENGTH(64)" .
  qed (simp add: mult.commute)
  have "sint (push_bit s v) = 2 ^ s * (if unat v < 2 ^ (8 * n - 1) then int (unat v) else int (unat v) - 2 ^ (8 * n))"
    unfolding sint_u64 u pw by (simp add: algebra_simps)
  then show ?thesis using n assms(1) by (simp add: ir_sext_def Let_def s_def [symmetric])
qed (simp add: ir_sext_def sint_u64)

lemma ir_sext_inj:
  assumes "0 < n" "n \<le> 8" "unat v < 2 ^ (8 * n)" "unat w < 2 ^ (8 * n)"
  shows "ir_sext v n = ir_sext w n \<longleftrightarrow> v = w"
proof
  assume e: "ir_sext v n = ir_sext w n"
  have "int (unat v) < 2 ^ (8 * n)" and "int (unat w) < 2 ^ (8 * n)" using int_less_pow [OF assms(3)] int_less_pow [OF assms(4)] .
  moreover have "int (unat v) \<ge> 0" and "int (unat w) \<ge> 0" by (rule of_nat_0_le_iff)+
  ultimately have "int (unat v) = int (unat w)"
    using e unfolding ir_sext_val [OF assms(1-3)] ir_sext_val [OF assms(1,2,4)] by (simp only: split: if_splits)
  then show "v = w" by (simp only: of_nat_eq_iff word_eq_iff_unat)
qed simp

text \<open>Sign bits and the borrow of a subtraction.\<close>

lemma unat_drop_top:
  assumes "0 < n" "n \<le> 8" "unat v < 2 ^ (8 * n)"
  shows "unat (drop_bit (8 * n - 1) v) = (if unat v < 2 ^ (8 * n - 1) then 0 else 1)"
proof -
  have p: "(2 :: nat) ^ (8 * n) = 2 ^ (8 * n - 1) * 2" using power_Suc2 [of "2 :: nat" "8 * n - 1"] assms(1) by simp
  have "unat v div 2 ^ (8 * n - 1) < 2" by (rule less_mult_imp_div_less) (use assms(3) p in simp)
  moreover have "unat v div 2 ^ (8 * n - 1) = 0 \<longleftrightarrow> unat v < 2 ^ (8 * n - 1)" by (simp add: div_eq_0_iff)
  ultimately show ?thesis by (simp add: unat_drop_bit) (metis less_2_cases)
qed

lemma ir_sign_bit_val:
  assumes "0 < n" "n \<le> 8" "unat v < 2 ^ (8 * n)"
  shows "ir_sign_bit v n \<longleftrightarrow> 2 ^ (8 * n - 1) \<le> unat v"
proof -
  have "drop_bit (8 * n - 1) v = (if unat v < 2 ^ (8 * n - 1) then 0 else 1)"
    using unat_drop_top [OF assms] by (simp add: word_eq_iff_unat split: if_splits)
  then show ?thesis using assms(1,2) by (simp add: ir_sign_bit_def mult.commute not_less)
qed

text \<open>The sign bit reads only the low bytes.\<close>

lemma ir_sign_bit_mask: "n \<le> 8 \<Longrightarrow> ir_sign_bit (v AND size_mask n) n = ir_sign_bit v n"
proof (cases "n = 0")
  case False
  assume n: "n \<le> 8"
  have "drop_bit (n * 8 - 1) (v AND size_mask n) AND 1 = drop_bit (n * 8 - 1) v AND 1"
    using False n by (intro bit_word_eqI) (auto simp: bit_and_iff bit_drop_bit_eq size_mask_eq bit_mask_iff bit_1_iff)
  then show ?thesis by (simp add: ir_sign_bit_def)
qed (simp add: ir_sign_bit_def)

lemma ir_sext_0: "ir_sext 0 n = 0"
  by (simp add: ir_sext_def)

lemma ir_sext_eq_0: "0 < n \<Longrightarrow> n \<le> 8 \<Longrightarrow> unat v < 2 ^ (8 * n) \<Longrightarrow> ir_sext v n = 0 \<longleftrightarrow> v = 0"
  using ir_sext_inj [of n v 0] by (simp add: ir_sext_0)

text \<open>The sign of a difference disagrees with its borrow exactly when the first number is the smaller.\<close>

lemma int_unat_minus: "int (unat (x - y :: u64)) = (int (unat x) - int (unat y)) mod 2 ^ 64"
  by (simp add: uint_word_ariths(2) del: uint_sub_ge)

lemma int_unat_minus_mask:
  "n \<le> 8 \<Longrightarrow> int (unat ((x - y) AND size_mask n)) = (int (unat x) - int (unat y)) mod 2 ^ (8 * n)"
proof -
  assume "n \<le> 8"
  then have d: "(2 :: int) ^ (8 * n) dvd 2 ^ 64" by (intro le_imp_power_dvd) simp
  have "int (unat ((x - y) AND size_mask n)) = int (unat (x - y)) mod 2 ^ (8 * n)" unfolding unat_size_mask by (simp only: of_nat_mod of_nat_power of_nat_numeral)
  then show ?thesis unfolding int_unat_minus mod_mod_cancel [OF d] .
qed

lemma borrow_ints:
  fixes a b e h M :: int
  assumes "M = 2 * h" "0 \<le> a" "a < M" "0 \<le> b" "b < M" and "e = (a - b) mod M"
  shows "((h \<le> e) \<noteq> ((h \<le> a) \<noteq> (h \<le> b) \<and> (h \<le> e) \<noteq> (h \<le> a)))
    \<longleftrightarrow> (if a < h then a else a - M) < (if b < h then b else b - M)"
proof -
  have "e = (if b \<le> a then a - b else a - b + M)"
  proof (cases "b \<le> a")
    case False
    have "(a - b + M) mod M = a - b + M" using False assms by (intro mod_pos_pos_trivial) simp_all
    then show ?thesis using False assms(6) by simp
  qed (use assms in \<open>simp add: mod_pos_pos_trivial\<close>)
  then show ?thesis using assms(1-5) by (simp split: if_splits) linarith?
qed

lemma borrow_less:
  assumes "0 < n" "n \<le> 8" "unat x < 2 ^ (8 * n)" "unat y < 2 ^ (8 * n)"
  shows "(ir_sign_bit (x - y) n \<noteq> (ir_sign_bit x n \<noteq> ir_sign_bit y n \<and> ir_sign_bit (x - y) n \<noteq> ir_sign_bit x n))
    \<longleftrightarrow> ir_sext x n < ir_sext y n"
proof -
  define e where "e = (x - y) AND size_mask n"
  have e: "unat e < 2 ^ (8 * n)" by (simp add: e_def unat_size_mask)
  have sb: "ir_sign_bit v n \<longleftrightarrow> 2 ^ (8 * n - 1) \<le> int (unat v)" if "unat v < 2 ^ (8 * n)" for v
    unfolding ir_sign_bit_val [OF assms(1,2) that] by (metis of_nat_le_iff of_nat_numeral of_nat_power)
  have sv: "ir_sext v n = (if int (unat v) < 2 ^ (8 * n - 1) then int (unat v) else int (unat v) - 2 ^ (8 * n))"
    if "unat v < 2 ^ (8 * n)" for v
    unfolding ir_sext_val [OF assms(1,2) that] by (metis of_nat_less_iff of_nat_numeral of_nat_power)
  have M: "(2 :: int) ^ (8 * n) = 2 * 2 ^ (8 * n - 1)" using power_Suc [of "2 :: int" "8 * n - 1"] assms(1) by simp
  have s: "ir_sign_bit (x - y) n = ir_sign_bit e n" unfolding e_def ir_sign_bit_mask [OF assms(2)] ..
  show ?thesis
    unfolding s sb [OF e] sb [OF assms(3)] sb [OF assms(4)] sv [OF assms(3)] sv [OF assms(4)]
    by (rule borrow_ints [OF M _ int_less_pow [OF assms(3)] _ int_less_pow [OF assms(4)]])
      (simp_all only: of_nat_0_le_iff e_def int_unat_minus_mask [OF assms(2)])
qed

end
