(* ===== verification/Ir_Fold.thy ===== *)
theory Ir_Fold
  imports Ir_Ssa Ir_Arith
begin

text \<open>
  Constant folding, \<open>evaluate\<close> and \<open>fold\<close> of \<open>crates/e5r-ir/src/opt.rs\<close>, and that the folder computes
  what the interpreter does.
\<close>

record changes =
  ch_folded :: nat
  ch_propagated :: nat
  ch_removed :: nat

definition no_changes :: changes where
  "no_changes = \<lparr>ch_folded = 0, ch_propagated = 0, ch_removed = 0\<rparr>"

definition ch_add :: "changes \<Rightarrow> changes \<Rightarrow> changes" where
  "ch_add a b = \<lparr>ch_folded = ch_folded a + ch_folded b, ch_propagated = ch_propagated a + ch_propagated b,
     ch_removed = ch_removed a + ch_removed b\<rparr>"

definition ch_is_empty :: "changes \<Rightarrow> bool" where "ch_is_empty c \<longleftrightarrow> c = no_changes"

section \<open>Evaluation\<close>

definition ev_in_size :: "ssa_operand list \<Rightarrow> nat \<Rightarrow> nat \<Rightarrow> nat" where
  "ev_in_size inputs sz n = (case nth_in inputs n of Some (OConst _ s) \<Rightarrow> max s 1 | _ \<Rightarrow> max sz 1)"

definition ev_sext :: "u64 \<Rightarrow> nat \<Rightarrow> int" where
  "ev_sext v s = (if s \<ge> 8 then sint v else let shift = 64 - s * 8 in sint (push_bit shift v) div 2 ^ shift)"

text \<open>The inner \<open>None\<close> is a result that is not defined or left alone.\<close>

definition evaluate :: "op \<Rightarrow> u64 list \<Rightarrow> nat \<Rightarrow> ssa_operand list \<Rightarrow> u64 option panics" where
  "evaluate x a sz inputs = (if sz = 0 then Some None else case a of [] \<Rightarrow> Some None | v # _ \<Rightarrow>
     let msk = (if sz \<le> 7 then push_bit (8 * sz) 1 - 1 else - 1);
         vs = ev_sext v (ev_in_size inputs sz 0);
         y = (case nth_in a 1 of None \<Rightarrow> 0 | Some y \<Rightarrow> y);
         ys = ev_sext y (ev_in_size inputs sz 1);
         bits = ev_in_size inputs sz 0 * 8;
         out = (\<lambda>r. Some (Some (r AND msk)))
     in case x of
       IntAdd \<Rightarrow> out (v + y)
     | IntSub \<Rightarrow> out (v - y)
     | IntMul \<Rightarrow> out (v * y)
     | IntDiv \<Rightarrow> if y = 0 then Some None else out (v div y)
     | IntRem \<Rightarrow> if y = 0 then Some None else out (v mod y)
     | IntSDiv \<Rightarrow> if y = 0 then Some None else if ys = 0 then None else out (word_of_int (vs sdiv ys))
     | IntSRem \<Rightarrow> if y = 0 then Some None else if ys = 0 then None else out (word_of_int (vs smod ys))
     | IntAnd \<Rightarrow> out (v AND y)
     | IntOr \<Rightarrow> out (v OR y)
     | IntXor \<Rightarrow> out (v XOR y)
     | IntNot \<Rightarrow> out (NOT v)
     | IntNegate \<Rightarrow> out (- v)
     | IntLeft \<Rightarrow> Option.bind (alu_shift IntLeft bits v vs y) out
     | IntRight \<Rightarrow> Option.bind (alu_shift IntRight bits v vs y) out
     | IntSRight \<Rightarrow> Option.bind (alu_shift IntSRight bits v vs y) out
     | IntEqual \<Rightarrow> out (b2w (v = y))
     | IntNotEqual \<Rightarrow> out (b2w (v \<noteq> y))
     | IntLess \<Rightarrow> out (b2w (v < y))
     | IntSLess \<Rightarrow> out (b2w (vs < ys))
     | IntLessEqual \<Rightarrow> out (b2w (v \<le> y))
     | IntSLessEqual \<Rightarrow> out (b2w (vs \<le> ys))
     | IntZExt \<Rightarrow> out v
     | IntSExt \<Rightarrow> out (word_of_int vs)
     | PopCount \<Rightarrow> out (of_nat (count_ones v))
     | BoolAnd \<Rightarrow> out (b2w (v \<noteq> 0 \<and> y \<noteq> 0))
     | BoolOr \<Rightarrow> out (b2w (v \<noteq> 0 \<or> y \<noteq> 0))
     | BoolXor \<Rightarrow> out (b2w ((v \<noteq> 0) \<noteq> (y \<noteq> 0)))
     | BoolNot \<Rightarrow> out (b2w (v = 0))
     | SubPiece \<Rightarrow> if unat y * 8 < 2 ^ 64 then Option.bind (alu_shr v (y * 8)) out else None
     | _ \<Rightarrow> Some None)"

section \<open>The pass\<close>

definition fold_op :: "ssa_op \<Rightarrow> (nat \<times> ssa_op) panics" where
  "fold_op i = (case so_kind i of
     Phi \<Rightarrow> Some (0, i)
   | Ssa_op x \<Rightarrow>
       if so_out i = None \<or> x \<in> {Copy, Load, Store} then Some (0, i)
       else case those (map as_const (so_inputs i)) of
           None \<Rightarrow> Some (0, i)
         | Some consts \<Rightarrow>
             if consts = [] then Some (0, i)
             else (case evaluate x consts (so_size i) (so_inputs i) of
                 None \<Rightarrow> None
               | Some None \<Rightarrow> Some (0, i)
               | Some (Some v) \<Rightarrow> Some (1, so_copy (OConst v (so_size i)) i)))"

fun fold_ops :: "ssa_op list \<Rightarrow> (nat \<times> ssa_op list) panics" where
  "fold_ops [] = Some (0, [])"
| "fold_ops (i # is) = do {
     (n, i) \<leftarrow> fold_op i;
     (k, is) \<leftarrow> fold_ops is;
     Some (n + k, i # is) }"

fun fold_blocks :: "(addr \<times> ssa_block) list \<Rightarrow> (nat \<times> (addr \<times> ssa_block) list) panics" where
  "fold_blocks [] = Some (0, [])"
| "fold_blocks ((a, b) # bs) = do {
     (n, is) \<leftarrow> fold_ops (sb_ops b);
     (k, bs) \<leftarrow> fold_blocks bs;
     Some (n + k, (a, b\<lparr>sb_ops := is\<rparr>) # bs) }"

definition fold_pass :: "ssa_function \<Rightarrow> (changes \<times> ssa_function) panics" where
  "fold_pass f = map_option (\<lambda>(n, bs). (no_changes\<lparr>ch_folded := n\<rparr>, f\<lparr>sf_blocks := bs\<rparr>)) (fold_blocks (sf_blocks f))"

section \<open>The folder computes what the interpreter computes\<close>

lemma ev_sext_eq: "0 < s \<Longrightarrow> ev_sext v s = ir_sext v s"
  by (simp add: ev_sext_def ir_sext_def Let_def)

lemma ev_mask_eq: "0 < sz \<Longrightarrow> (if sz \<le> 7 then push_bit (8 * sz) 1 - 1 else - 1) = size_mask sz"
  by (simp add: size_mask_def)

text \<open>Constant inputs are the pairs that the arithmetic gets.\<close>

lemma const_inputs:
  assumes "list_all opnd_ok inputs" and "those (map as_const inputs) = Some a"
  obtains cs where "inputs = map (\<lambda>(v, s). OConst v s) cs" and "a = map fst cs"
    and "map (\<lambda>i. (opnd_val u r i, opnd_size i)) inputs = cs" and "list_all (\<lambda>(v, s). 0 < s) cs"
proof -
  have "\<exists>cs. inputs = map (\<lambda>(v, s). OConst v s) cs \<and> a = map fst cs
      \<and> map (\<lambda>i. (opnd_val u r i, opnd_size i)) inputs = cs \<and> list_all (\<lambda>(v, s). 0 < s) cs"
    using assms
  proof (induction inputs arbitrary: a)
    case (Cons i inputs)
    have "those (as_const i # map as_const inputs) = Some a" using Cons.prems(2) by simp
    then obtain v b where "as_const i = Some v" and a: "a = v # b" "those (map as_const inputs) = Some b"
      by (auto simp del: as_const_Some split: option.splits)
    then obtain n where i: "i = OConst v n" by auto
    have "list_all opnd_ok inputs" using Cons.prems(1) by simp
    from Cons.IH [OF this a(2)] obtain cs where cs: "inputs = map (\<lambda>(v, s). OConst v s) cs" "b = map fst cs"
        "map (\<lambda>i. (opnd_val u r i, opnd_size i)) inputs = cs" "list_all (\<lambda>(v, s). 0 < s) cs"
      by blast
    have "opnd_ok (OConst v n)" using Cons.prems(1) i by simp
    then show ?case
      using cs i a opnd_val_const [of v n] by (intro exI [of _ "(v, n) # cs"]) (simp add: opnd_ok_def)
  qed simp
  then show ?thesis using that by blast
qed

text \<open>The operations that the folder evaluates.\<close>

definition evaluated_ops :: "op set" where
  "evaluated_ops = {IntAdd, IntSub, IntMul, IntDiv, IntRem, IntSDiv, IntSRem, IntAnd, IntOr, IntXor, IntNot, IntNegate, IntLeft,
     IntRight, IntSRight, IntEqual, IntNotEqual, IntLess, IntSLess, IntLessEqual, IntSLessEqual, IntZExt, IntSExt, PopCount,
     BoolAnd, BoolOr, BoolXor, BoolNot, SubPiece}"

lemma evaluate_evaluated: "evaluate x a sz inputs = Some (Some v) \<Longrightarrow> x \<in> evaluated_ops"
  by (cases x) (auto simp: evaluate_def evaluated_ops_def split: if_splits list.splits)

lemmas alu_defs = alu_def division_ops_def wide_division_ops_def divisor_at_def is_float_op_def float_arith_ops_def float_test_ops_def

lemma alu_integer: "x \<in> evaluated_ops \<Longrightarrow> x \<notin> {IntDiv, IntRem, IntSDiv, IntSRem} \<Longrightarrow> alu x n ins = alu_int x ins"
  by (auto simp: evaluated_ops_def alu_defs)

lemma alu_division: "x \<in> {IntDiv, IntRem, IntSDiv, IntSRem} \<Longrightarrow> alu x n ins = (if in_val ins 1 = 0 then Some Div_zero else alu_int x ins)"
  by (auto simp: alu_defs)

lemma max1: "0 < s \<Longrightarrow> max s 1 = s" "0 < s \<Longrightarrow> max s (Suc 0) = s"
  by simp_all

lemma evaluate_cases:
  assumes "list_all (\<lambda>(v, s). 0 < s) cs"
    and "evaluate x (map fst cs) sz (map (\<lambda>(v, s). OConst v s) cs) = Some (Some v)"
  shows "alu_val d x sz cs = v"
proof -
  have sz: "0 < sz" and ne: "cs \<noteq> []" using assms(2) by (auto simp: evaluate_def split: if_splits)
  then obtain w n t where cs: "cs = (w, n) # t" by (cases cs) auto
  have x0: "in_val cs 0 = w" "in_size cs 0 8 = n" "in_sext cs 0 = ev_sext w (ev_in_size (map (\<lambda>(v, s). OConst v s) cs) sz 0)"
    "ev_in_size (map (\<lambda>(v, s). OConst v s) cs) sz 0 = n"
    using assms(1) by (simp_all add: cs in_val_def in_size_def in_sext_def nth_in_def ev_in_size_def ev_sext_eq max1)
  have x1: "(case nth_in (map fst cs) 1 of None \<Rightarrow> 0 | Some y \<Rightarrow> y) = in_val cs 1"
    "ev_sext (in_val cs 1) (ev_in_size (map (\<lambda>(v, s). OConst v s) cs) sz 1) = in_sext cs 1"
  proof -
    have z: "ev_sext 0 k = 0" for k by (simp add: ev_sext_def Let_def)
    show "(case nth_in (map fst cs) 1 of None \<Rightarrow> 0 | Some y \<Rightarrow> y) = in_val cs 1"
      by (simp add: nth_in_def in_val_def split_def)
    show "ev_sext (in_val cs 1) (ev_in_size (map (\<lambda>(v, s). OConst v s) cs) sz 1) = in_sext cs 1"
      using assms(1) by (cases t) (auto simp: cs in_val_def in_sext_def nth_in_def ev_in_size_def ev_sext_eq max1 z)
  qed
  have msk: "(if sz \<le> 7 then push_bit (8 * sz) 1 - 1 else - 1) = size_mask sz" by (rule ev_mask_eq [OF sz])
  have E: "evaluate x (map fst cs) sz (map (\<lambda>(v, s). OConst v s) cs) = Some (Some v)" by (rule assms(2))
  have "map fst cs = w # map fst t" by (simp add: cs)
  note ev = E [unfolded evaluate_def Let_def x1 x0(3,4) [symmetric] msk, unfolded this list.case]
  show ?thesis
    using evaluate_evaluated [OF E] ev sz unfolding evaluated_ops_def
    by (elim insertE emptyE)
      (simp_all add: alu_val_def alu_defs alu_int_def Let_def x0 split: if_splits bind_splits)
qed

lemma evaluate_alu:
  assumes "list_all opnd_ok inputs" and "those (map as_const inputs) = Some a" and "evaluate x a sz inputs = Some (Some v)"
  shows "alu_val d x sz (map (\<lambda>i. (opnd_val u r i, opnd_size i)) inputs) = v"
proof -
  obtain cs where cs: "inputs = map (\<lambda>(v, s). OConst v s) cs" "a = map fst cs"
      "map (\<lambda>i. (opnd_val u r i, opnd_size i)) inputs = cs" "list_all (\<lambda>(v, s). 0 < s) cs"
    by (rule const_inputs [OF assms(1,2)])
  show ?thesis
    unfolding cs(3) by (rule evaluate_cases [OF cs(4)]) (use assms(3) in \<open>unfold cs(1,2)\<close>)
qed

lemma evaluated_pure: "x \<in> evaluated_ops \<Longrightarrow> pure_op x"
  unfolding evaluated_ops_def pure_op_def by (elim insertE emptyE) simp_all

text \<open>So folding keeps every model of the operations, and their sizes.\<close>

lemma fold_op_holds:
  assumes "op_sized i" and "fold_op i = Some (n, j)"
  shows "op_holds u d R r i = op_holds u d R r j" and "op_sized j"
proof -
  have "j = i \<or> (\<exists>x a v. so_kind i = Ssa_op x \<and> those (map as_const (so_inputs i)) = Some a
      \<and> evaluate x a (so_size i) (so_inputs i) = Some (Some v) \<and> j = so_copy (OConst v (so_size i)) i)"
    using assms(2) by (auto simp: fold_op_def split: ssa_kind.splits if_splits option.splits)
  moreover have "op_holds u d R r i = op_holds u d R r j \<and> op_sized j"
    if x: "so_kind i = Ssa_op x" "those (map as_const (so_inputs i)) = Some a"
      and ev: "evaluate x a (so_size i) (so_inputs i) = Some (Some v)" and j: "j = so_copy (OConst v (so_size i)) i" for x a v
  proof -
    have val: "alu_val d x (so_size i) (op_ins u r i) = v"
      unfolding op_ins_def by (rule evaluate_alu [OF _ x(2) ev]) (use assms(1) in \<open>simp add: op_sized_def\<close>)
    have m: "v AND size_mask (so_size i) = v" unfolding val [symmetric] by (rule alu_val_masked)
    have "pure_op x" using evaluate_evaluated [OF ev] by (rule evaluated_pure)
    then show ?thesis
      using op_holds_pure [OF x(1), of u d R r] op_sized_copy [OF assms(1)] op_sized_pos [OF assms(1)] val m
      by (simp add: j op_holds_copy opnd_val_def opnd_ok_def)
  qed
  ultimately show "op_holds u d R r i = op_holds u d R r j" and "op_sized j" using assms(1) by blast+
qed

text \<open>A pass that did not panic has replaced each operation by what \<open>fold_op\<close> made of it.\<close>

definition fold_rw :: "ssa_op \<Rightarrow> ssa_op" where
  "fold_rw i = (case fold_op i of None \<Rightarrow> i | Some (_, j) \<Rightarrow> j)"

lemma fold_rw_cases:
  obtains "fold_rw i = i" | v where "fold_rw i = so_copy (OConst v (so_size i)) i"
proof -
  have "fold_rw i = i \<or> (\<exists>v. fold_rw i = so_copy (OConst v (so_size i)) i)"
    by (simp add: fold_rw_def fold_op_def split: option.split ssa_kind.split) blast
  then show ?thesis using that by blast
qed

interpretation fold_ir: rewriting u d True "\<lambda>_. True" fold_rw for u d
proof unfold_locales
  fix r i R
  assume "op_good i" and "op_holds u d R r i"
  then show "op_holds u d R r (fold_rw i)"
    using fold_op_holds [of i] by (auto simp: fold_rw_def op_good_def split: option.splits)
next
  fix i
  assume i: "op_good i"
  then have "op_sized (fold_rw i)" using fold_op_holds(2) [of i] by (auto simp: fold_rw_def op_good_def split: option.splits)
  then show "op_good (fold_rw i)" using i by (cases i rule: fold_rw_cases) (simp_all add: op_good_def so_copy_def op_narrow_def)
qed

lemma fold_ops_map: "fold_ops is = Some (n, js) \<Longrightarrow> js = map fold_rw is"
  by (induction "is" arbitrary: n js) (auto simp: fold_rw_def split: bind_splits)

lemma fold_blocks_map: "fold_blocks bs = Some (n, cs) \<Longrightarrow> cs = map (\<lambda>(a, b). (a, b\<lparr>sb_ops := map fold_rw (sb_ops b)\<rparr>)) bs"
  by (induction bs arbitrary: n cs) (fastforce dest: fold_ops_map split: bind_splits)+

lemma fold_pass_map: "fold_pass f = Some (c, g) \<Longrightarrow> g = map_block_ops (map fold_rw) f"
  by (auto simp: fold_pass_def map_block_ops_def dest: fold_blocks_map)

section \<open>The folder does not panic\<close>

lemma alu_shift_safe: "bits \<le> 64 \<Longrightarrow> \<exists>r. alu_shift x bits v vs y = Some r"
  by (auto simp: alu_shift_def alu_shl_def alu_shr_def)

lemma evaluate_safe:
  assumes ok: "list_all opnd_ok inputs" and small: "list_all (\<lambda>x. opnd_size x \<le> 8) inputs" and sz: "0 < sz" "sz \<le> 8"
    and c: "those (map as_const inputs) = Some a" and piece: "\<And>y. x = SubPiece \<Longrightarrow> nth_in a 1 = Some y \<Longrightarrow> unat y < 8"
  shows "\<exists>r. evaluate x a sz inputs = Some r"
proof -
  obtain cs where cs: "inputs = map (\<lambda>(v, s). OConst v s) cs" "a = map fst cs"
    by (rule const_inputs [OF ok c])
  have size_ok: "ev_in_size inputs sz n \<le> 8" for n
  proof (cases "nth_in inputs n")
    case (Some z)
    then have "z \<in> set inputs" by (rule nth_in_set)
    then show ?thesis using small sz Some by (auto simp: ev_in_size_def list_all_iff split: ssa_operand.splits)
  qed (use sz in \<open>simp add: ev_in_size_def\<close>)
  have bits: "ev_in_size inputs sz 0 * 8 \<le> 64" using size_ok [of 0] by simp
  have signed: "ev_sext y (ev_in_size inputs sz 1) \<noteq> 0" if y: "y = (case nth_in a 1 of None \<Rightarrow> 0 | Some y \<Rightarrow> y)" "y \<noteq> 0" for y
  proof -
    have "nth_in a 1 = Some y" using y by (simp split: option.splits)
    then obtain n where n: "nth_in inputs 1 = Some (OConst y n)" by (auto simp: cs nth_in_def split_def split: if_splits)
    then have "OConst y n \<in> set inputs" by (rule nth_in_set)
    then have ok': "opnd_ok (OConst y n)" "n \<le> 8" using ok small by (auto simp: list_all_iff)
    then have "0 < n" "unat y < 2 ^ (8 * n)" using masked_less [of y n] by (simp_all add: opnd_ok_def)
    then show ?thesis using ir_sext_eq_0 [OF _ ok'(2)] y(2) n by (simp add: ev_in_size_def ev_sext_eq max1)
  qed
  note shift = alu_shift_safe [OF bits]
  show ?thesis
  proof (cases a)
    case (Cons v t)
    let ?y = "case nth_in a 1 of None \<Rightarrow> 0 | Some y \<Rightarrow> y"
    have p: "x = SubPiece \<Longrightarrow> unat ?y < 8" using piece by (auto split: option.splits)
    then have p8: "x = SubPiece \<Longrightarrow> unat (?y * 8) < 64" by (simp add: unat_times_8)
    show ?thesis
      using Cons sz signed [OF refl] p p8 shift [of IntLeft v "ev_sext v (ev_in_size inputs sz 0)" ?y] shift [of IntRight v "ev_sext v (ev_in_size inputs sz 0)" ?y] shift [of IntSRight v "ev_sext v (ev_in_size inputs sz 0)" ?y]
      by (cases x) (auto simp: evaluate_def Let_def alu_shr_def)
  qed (simp add: evaluate_def)
qed

lemma fold_op_safe:
  assumes good: "op_good i"
  shows "\<exists>n j. fold_op i = Some (n, j)"
proof (cases "so_kind i")
  case (Ssa_op x)
  have assms: "op_sized i" "op_narrow i" "so_size i \<le> 8" using good by (simp_all add: op_good_def)
  have "\<exists>r. evaluate x a (so_size i) (so_inputs i) = Some r" if a: "those (map as_const (so_inputs i)) = Some a" for a
  proof (rule evaluate_safe [OF _ _ op_sized_pos [OF assms(1)] assms(3) a])
    show ok: "list_all opnd_ok (so_inputs i)" using assms(1) by (simp add: op_sized_def)
    show "list_all (\<lambda>x. opnd_size x \<le> 8) (so_inputs i)" using assms(2) by (simp add: op_narrow_def)
    fix y
    assume y: "x = SubPiece" "nth_in a 1 = Some y"
    obtain cs where cs: "so_inputs i = map (\<lambda>(v, s). OConst v s) cs" "a = map fst cs" by (rule const_inputs [OF ok a])
    then obtain p q t where "cs = p # (y, q) # t" using y(2)
      by (cases cs; cases "tl cs") (auto simp: nth_in_def split: if_splits)
    then have "\<exists>a b t. so_inputs i = a # b # t \<and> as_const b = Some y" by (cases p) (simp add: cs as_const_def)
    then show "unat y < 8" using assms(2) y(1) Ssa_op by (auto simp: op_narrow_def)
  qed
  then show ?thesis using Ssa_op by (auto simp: fold_op_def split: option.splits if_splits)
qed (simp add: fold_op_def)

lemma fold_ops_safe:
  "(\<And>i. i \<in> set ops \<Longrightarrow> op_good i) \<Longrightarrow> \<exists>n js. fold_ops ops = Some (n, js)"
proof (induction ops)
  case (Cons i ops)
  obtain n js where "fold_ops ops = Some (n, js)" using Cons by auto
  moreover obtain k j where "fold_op i = Some (k, j)" using fold_op_safe [of i] Cons.prems by auto
  ultimately show ?case by simp
qed simp

lemma fold_blocks_safe:
  "(\<And>i. i \<in> (\<Union>(a, b)\<in>set bs. set (sb_ops b)) \<Longrightarrow> op_good i) \<Longrightarrow> \<exists>n cs. fold_blocks bs = Some (n, cs)"
proof (induction bs)
  case (Cons p bs)
  obtain n cs where "fold_blocks bs = Some (n, cs)" using Cons by auto
  moreover obtain k js where "fold_ops (sb_ops (snd p)) = Some (k, js)"
    using fold_ops_safe [of "sb_ops (snd p)"] Cons.prems by fastforce
  ultimately show ?case by (cases p) simp
qed simp

lemma fold_pass_safe:
  "(\<And>i. i \<in> set (sf_ops f) \<Longrightarrow> op_good i) \<Longrightarrow> \<exists>c g. fold_pass f = Some (c, g)"
  using fold_blocks_safe [of "sf_blocks f"] by (auto simp: fold_pass_def sf_ops_def split_def)

text \<open>The models are the same, and there is nothing left to fold.\<close>

lemma fold_models_eq: "list_all op_sized ops \<Longrightarrow> models u d R (map fold_rw ops) = models u d R ops"
proof -
  assume s: "list_all op_sized ops"
  have "op_holds u d R r (fold_rw i) = op_holds u d R r i" if "i \<in> set ops" for r i
    using that s fold_op_holds(1) [of i] by (auto simp: fold_rw_def list_all_iff split: option.splits)
  then show ?thesis by (simp add: models_def)
qed

lemma fold_rw_out [simp]: "so_out (fold_rw i) = so_out i"
  by (auto simp: fold_rw_def fold_op_def so_copy_def split: option.splits ssa_kind.splits if_splits)

lemma fold_op_again: "fold_op i = Some (n, j) \<Longrightarrow> fold_op j = Some (0, j)"
  by (auto simp: fold_op_def so_copy_def split: ssa_kind.splits if_splits option.splits)

lemma fold_ops_again: "fold_ops ops = Some (n, js) \<Longrightarrow> fold_ops js = Some (0, js)"
  by (induction ops arbitrary: n js) (fastforce dest: fold_op_again split: bind_splits)+

lemma fold_blocks_again: "fold_blocks bs = Some (n, cs) \<Longrightarrow> fold_blocks cs = Some (0, cs)"
  by (induction bs arbitrary: n cs) (fastforce dest: fold_ops_again split: bind_splits)+

lemma fold_pass_again: "fold_pass f = Some (c, g) \<Longrightarrow> fold_pass g = Some (no_changes, g)"
  by (auto simp: fold_pass_def no_changes_def dest: fold_blocks_again)

end
