(* ===== verification/Ir_Known.thy ===== *)
theory Ir_Known
  imports Ir_Fold Ptx_Convert
begin

text \<open>
  The bits a value can have set, \<open>KnownBits\<close> of \<open>crates/e5r-ir/src/opt.rs\<close>, and that every value of every
  run has only those. The masks start full and only lose bits, so that each round, not only the last, is
  sound.
\<close>

section \<open>The analysis\<close>

definition width_mask :: "nat \<Rightarrow> u64" where
  "width_mask n = (if n \<ge> 8 \<or> n = 0 then - 1 else push_bit (n * 8) 1 - 1)"

type_synonym masks = "ssa_value \<Rightarrow> u64 option"

definition known_operand :: "masks \<Rightarrow> ssa_operand \<Rightarrow> u64" where
  "known_operand ms x = (case x of
     OConst v n \<Rightarrow> v AND width_mask n
   | OValue v \<Rightarrow> (case ms v of Some k \<Rightarrow> k | None \<Rightarrow> width_mask (lc_size (sv_location v)))
   | OUndefined l \<Rightarrow> width_mask (lc_size l))"

definition flag_ops :: "op set" where
  "flag_ops = {IntEqual, IntNotEqual, IntLess, IntLessEqual, IntSLess, IntSLessEqual, IntCarry, IntSCarry, IntSBorrow,
     BoolAnd, BoolOr, BoolXor, BoolNot, FloatEqual, FloatNotEqual, FloatLess, FloatLessEqual, FloatNan}"

definition mask_at :: "masks \<Rightarrow> ssa_op \<Rightarrow> nat \<Rightarrow> u64" where
  "mask_at ms i n = (case nth_in (so_inputs i) n of None \<Rightarrow> - 1 | Some x \<Rightarrow> known_operand ms x)"

definition shift_mask :: "(nat \<Rightarrow> u64 \<Rightarrow> u64) \<Rightarrow> u64 \<Rightarrow> ssa_op \<Rightarrow> u64" where
  "shift_mask sh a i = (case Option.bind (nth_in (so_inputs i) 1) as_const of
     Some n \<Rightarrow> if n < 64 then sh (unat n) a else - 1
   | None \<Rightarrow> - 1)"

definition mask_of_op :: "masks \<Rightarrow> ssa_op \<Rightarrow> u64" where
  "mask_of_op ms i = (let a = mask_at ms i 0; b = mask_at ms i 1 in
     case so_kind i of
       Phi \<Rightarrow> foldl (\<lambda>acc x. acc OR known_operand ms x) 0 (so_inputs i)
     | Ssa_op x \<Rightarrow>
         if x = Copy then a
         else if x = IntAnd then a AND b
         else if x = IntOr \<or> x = IntXor then a OR b
         else if x = IntZExt then a
         else if x = SubPiece \<or> x = Load then width_mask (so_size i)
         else if x = IntLeft then shift_mask push_bit a i
         else if x = IntRight then shift_mask drop_bit a i
         else if x \<in> flag_ops then 1
         else if x = PopCount \<or> x = LzCount then 0x7f
         else - 1)"

definition known_op :: "ssa_op \<Rightarrow> bool \<times> masks \<Rightarrow> bool \<times> masks" where
  "known_op i = (\<lambda>(changed, ms). case so_out i of
     None \<Rightarrow> (changed, ms)
   | Some out \<Rightarrow>
       let k = mask_of_op ms i AND width_mask (lc_size (sv_location out)) in
       if ms out \<noteq> Some k then (True, ms(out \<mapsto> k)) else (changed, ms))"

fun known_rounds :: "nat \<Rightarrow> ssa_op list \<Rightarrow> masks \<Rightarrow> masks" where
  "known_rounds 0 ops ms = ms"
| "known_rounds (Suc n) ops ms = (case fold known_op ops (False, ms) of
     (changed, ms) \<Rightarrow> if changed then known_rounds n ops ms else ms)"

definition known_bits :: "ssa_function \<Rightarrow> masks" where
  "known_bits f = known_rounds 8 (sf_ops f) Map.empty"

section \<open>Values within a mask\<close>

definition bits_in :: "u64 \<Rightarrow> u64 \<Rightarrow> bool" where "bits_in v k \<longleftrightarrow> v AND NOT k = 0"

lemma bits_in_bits: "bits_in v k \<longleftrightarrow> (\<forall>n. bit v n \<longrightarrow> bit k n)"
proof
  assume z: "bits_in v k"
  show "\<forall>n. bit v n \<longrightarrow> bit k n"
  proof (intro allI impI)
    fix n
    assume n: "bit v n"
    have "n < 64" using bit_imp_le_length [OF n] by simp
    moreover have "\<not> bit (v AND NOT k) n" using z by (simp add: bits_in_def)
    ultimately show "bit k n" using n by (simp add: bit_and_iff bit_not_iff)
  qed
qed (auto simp: bits_in_def bit_and_iff bit_not_iff intro!: bit_word_eqI)

lemma width_mask_eq: "0 < n \<Longrightarrow> width_mask n = size_mask n"
  by (simp add: width_mask_def size_mask_def mult.commute)

lemma bits_in_minus1 [simp]: "bits_in v (- 1)"
  by (simp add: bits_in_def)

lemma bits_in_0 [simp]: "bits_in 0 k"
  by (simp add: bits_in_def)

lemma bits_in_refl [simp]: "bits_in v v"
  by (simp add: bits_in_bits)

lemma bits_in_and: "bits_in v a \<Longrightarrow> bits_in v b \<Longrightarrow> bits_in v (a AND b)"
  by (simp add: bits_in_bits bit_and_iff)

lemma bits_in_and_both: "bits_in v a \<Longrightarrow> bits_in w b \<Longrightarrow> bits_in (v AND w) (a AND b)"
  by (simp add: bits_in_bits bit_and_iff)

lemma bits_in_and_left: "bits_in v a \<Longrightarrow> bits_in (v AND w) a"
  by (simp add: bits_in_bits bit_and_iff)

lemma bits_in_and_right: "bits_in w a \<Longrightarrow> bits_in (v AND w) a"
  by (simp add: bits_in_bits bit_and_iff)

lemma bits_in_or: "bits_in v a \<Longrightarrow> bits_in w b \<Longrightarrow> bits_in (v OR w) (a OR b)"
  by (auto simp: bits_in_bits bit_or_iff)

lemma bits_in_xor: "bits_in v a \<Longrightarrow> bits_in w b \<Longrightarrow> bits_in (v XOR w) (a OR b)"
  by (auto simp: bits_in_bits bit_or_iff bit_xor_iff)

lemma bits_in_or_left: "bits_in v a \<Longrightarrow> bits_in v (a OR b)"
  by (simp add: bits_in_bits bit_or_iff)

lemma bits_in_push: "bits_in v a \<Longrightarrow> bits_in (push_bit n v) (push_bit n a)"
  by (simp add: bits_in_bits bit_push_bit_iff)

lemma bits_in_drop: "bits_in v a \<Longrightarrow> bits_in (drop_bit n v) (drop_bit n a)"
  by (simp add: bits_in_bits bit_drop_bit_eq)

lemma bits_in_size: "v AND size_mask n = v \<Longrightarrow> bits_in v (width_mask n)"
proof (cases "n = 0")
  case False
  assume "v AND size_mask n = v"
  then show ?thesis using False bits_in_and_right [OF bits_in_refl, of v "size_mask n"] by (simp add: width_mask_eq)
qed (simp add: width_mask_def)

lemma bits_in_eq: "bits_in v k \<Longrightarrow> v AND k = v"
  by (auto simp: bits_in_bits bit_and_iff intro!: bit_word_eqI)

lemma bits_in_b2w: "bits_in (b2w b) 1"
  by (simp add: b2w_def)

lemma bits_in_7f: "n \<le> 64 \<Longrightarrow> bits_in (of_nat n) 0x7f"
proof -
  assume n: "n \<le> 64"
  have "(of_nat n :: u64) = take_bit 7 (of_nat n)"
    using n by (simp add: word_eq_iff_unat unsigned_take_bit_eq unsigned_of_nat take_bit_nat_eq_self)
  also have "\<dots> = of_nat n AND 0x7f" by (simp add: take_bit_eq_mask mask_eq_exp_minus_1)
  finally show ?thesis using bits_in_and_right [OF bits_in_refl, of "of_nat n" "0x7f :: u64"] by simp
qed

section \<open>Soundness of one operation\<close>

definition masks_ok :: "env set \<Rightarrow> masks \<Rightarrow> bool" where
  "masks_ok R ms \<longleftrightarrow> (\<forall>v k r. ms v = Some k \<longrightarrow> r \<in> R \<longrightarrow> bits_in (r v) k)"

lemma known_operand_sound:
  assumes "masks_ok R ms" and "r \<in> R" and "env_ok r" and "opnd_ok x"
  shows "bits_in (opnd_val u r x) (known_operand ms x)"
proof (cases x)
  case (OConst v n)
  then show ?thesis using assms(4) by (simp add: opnd_val_def known_operand_def opnd_ok_def width_mask_eq)
next
  case (OValue v)
  have "bits_in (r v) (width_mask (lc_size (sv_location v)))"
    using assms(3) by (intro bits_in_size) (simp add: env_ok_def)
  then show ?thesis using assms OValue by (auto simp: opnd_val_def known_operand_def masks_ok_def split: option.splits)
next
  case (OUndefined l)
  then show ?thesis by (simp add: opnd_val_def known_operand_def bits_in_size)
qed

lemma in_val_op: "in_val (op_ins u r i) n = (case nth_in (so_inputs i) n of None \<Rightarrow> 0 | Some x \<Rightarrow> opnd_val u r x)"
  by (simp add: in_val_def op_ins_def nth_in_def)

lemma in_size_op: "in_size (op_ins u r i) n k = (case nth_in (so_inputs i) n of None \<Rightarrow> k | Some x \<Rightarrow> opnd_size x)"
  by (simp add: in_size_def op_ins_def nth_in_def)

lemma in_sext_op: "in_sext (op_ins u r i) n = (case nth_in (so_inputs i) n of None \<Rightarrow> 0 | Some x \<Rightarrow> ir_sext (opnd_val u r x) (opnd_size x))"
  by (simp add: in_sext_def op_ins_def nth_in_def)

lemma mask_at_sound:
  assumes "masks_ok R ms" and "r \<in> R" and "env_ok r" and "list_all opnd_ok (so_inputs i)"
  shows "bits_in (in_val (op_ins u r i) n) (mask_at ms i n)"
  using known_operand_sound [OF assms(1-3)] assms(4)
  by (auto simp: in_val_op mask_at_def list_all_iff dest: nth_in_set split: option.split)

lemma bits_in_foldl_or: "bits_in v k \<or> (\<exists>x\<in>set xs. bits_in v (g x)) \<Longrightarrow> bits_in v (foldl (\<lambda>acc x. acc OR g x) k xs)"
  by (induction xs arbitrary: k) (auto simp: bits_in_bits bit_or_iff)

lemma as_f64_some: "\<exists>w. as_f64 v n = Some w"
proof -
  obtain w where "convert_f F64_fmt F32_fmt Rn False False (v AND size_mask 4) = Some w"
    using convert_exact [of F64_fmt F32_fmt Rn False False "v AND size_mask 4"] by auto
  then show ?thesis by (simp add: as_f64_def rs_convert_def)
qed

lemma alu_flag:
  assumes "x \<in> flag_ops"
  shows "\<exists>b. alu x n ins = Some (Val (b2w b))"
proof -
  obtain v w where fv: "as_f64 (in_val ins 0) (in_size ins 0 8) = Some v"
      "as_f64 (in_val ins 1) (in_size ins 1 (in_size ins 0 8)) = Some w"
    using as_f64_some by metis
  then show ?thesis using assms unfolding flag_ops_def
    by (elim insertE emptyE)
      (auto simp: alu_def is_float_op_def float_arith_ops_def float_test_ops_def division_ops_def alu_int_def alu_float_def Let_def)
qed

lemma bits_in_alu_val: "alu x n ins = Some (Val v) \<Longrightarrow> bits_in v k \<Longrightarrow> bits_in (alu_val d x n ins) k"
  by (simp add: alu_val_def bits_in_and_left)

lemma alu_simple:
  "alu Copy n ins = Some (Val (in_val ins 0))" "alu IntZExt n ins = Some (Val (in_val ins 0))"
  "alu IntAnd n ins = Some (Val (in_val ins 0 AND in_val ins 1))" "alu IntOr n ins = Some (Val (in_val ins 0 OR in_val ins 1))"
  "alu IntXor n ins = Some (Val (in_val ins 0 XOR in_val ins 1))"
  "alu IntAdd n ins = Some (Val (in_val ins 0 + in_val ins 1))" "alu IntSub n ins = Some (Val (in_val ins 0 - in_val ins 1))"
  "alu IntMul n ins = Some (Val (in_val ins 0 * in_val ins 1))"
  "alu IntLeft n ins = map_option Val (alu_shift IntLeft (in_size ins 0 8 * 8) (in_val ins 0) (in_sext ins 0) (in_val ins 1))"
  "alu IntRight n ins = map_option Val (alu_shift IntRight (in_size ins 0 8 * 8) (in_val ins 0) (in_sext ins 0) (in_val ins 1))"
  "alu IntSRight n ins = map_option Val (alu_shift IntSRight (in_size ins 0 8 * 8) (in_val ins 0) (in_sext ins 0) (in_val ins 1))"
  "alu PopCount n ins = Some (Val (of_nat (count_ones (in_val ins 0))))"
  "alu SubPiece n ins = (if unat (in_val ins 1) * 8 < 2 ^ 64 then map_option Val (alu_shr (in_val ins 0) (in_val ins 1 * 8)) else None)"
  "alu IntEqual n ins = Some (Val (b2w (in_val ins 0 = in_val ins 1)))" "alu IntNotEqual n ins = Some (Val (b2w (in_val ins 0 \<noteq> in_val ins 1)))"
  "alu IntSLess n ins = Some (Val (b2w (in_sext ins 0 < in_sext ins 1)))" "alu IntSLessEqual n ins = Some (Val (b2w (in_sext ins 0 \<le> in_sext ins 1)))"
  "alu BoolAnd n ins = Some (Val (b2w (in_val ins 0 \<noteq> 0 \<and> in_val ins 1 \<noteq> 0)))" "alu BoolNot n ins = Some (Val (b2w (in_val ins 0 = 0)))"
  by (simp_all add: alu_defs alu_int_def Let_def)

lemma shift_left_sound:
  "bits_in v a \<Longrightarrow> unat y < 64 \<Longrightarrow> \<exists>w. alu_shift IntLeft bits v vs y = Some w \<and> bits_in w (push_bit (unat y) a)"
  by (auto simp: alu_shift_def alu_shl_def intro: bits_in_push)

lemma shift_right_sound:
  "bits_in v a \<Longrightarrow> unat y < 64 \<Longrightarrow> \<exists>w. alu_shift IntRight bits v vs y = Some w \<and> bits_in w (drop_bit (unat y) a)"
  by (auto simp: alu_shift_def alu_shr_def intro: bits_in_drop)

lemma leading_zeros_le: "leading_zeros w \<le> 64"
  using length_takeWhile_le [of Not "map (bit w) (rev [0..<64])"] by (simp add: leading_zeros_def)

lemma count_ones_le: "count_ones w \<le> 64"
  using length_filter_le [of "bit w" "[0..<64]"] by (simp add: count_ones_def)

lemma alu_lzcount: "op_sized i \<Longrightarrow> op_narrow i \<Longrightarrow> \<exists>n. alu LzCount k (op_ins u r i) = Some (Val (of_nat n)) \<and> n \<le> 64"
proof -
  assume i: "op_sized i" "op_narrow i"
  define sx where "sx = in_size (op_ins u r i) 0 8"
  have "0 < sx \<and> sx \<le> 8"
    using i by (auto simp: sx_def in_size_op op_sized_def op_narrow_def opnd_ok_def list_all_iff dest!: nth_in_set split: option.split)
  then have "alu LzCount k (op_ins u r i) = Some (Val (of_nat (leading_zeros (push_bit (64 - sx * 8) (in_val (op_ins u r i) 0)))))"
    by (simp add: alu_defs alu_int_def Let_def sx_def)
  then show ?thesis using leading_zeros_le by blast
qed

text \<open>The mask of a shift by a constant below 64; any other shift has no mask.\<close>

lemma shift_mask_sound:
  assumes "list_all opnd_ok (so_inputs i)" and "\<And>c. in_val (op_ins u r i) 1 = c \<Longrightarrow> unat c < 64 \<Longrightarrow> bits_in v (sh (unat c) a)"
  shows "bits_in v (shift_mask sh a i)"
proof (cases "\<exists>c n. nth_in (so_inputs i) 1 = Some (OConst c n) \<and> c < 64")
  case True
  then obtain c n where c: "nth_in (so_inputs i) 1 = Some (OConst c n)" "c < 64" by blast
  then have "opnd_ok (OConst c n)" using assms(1) by (auto simp: list_all_iff dest: nth_in_set)
  then have "in_val (op_ins u r i) 1 = c" using c(1) by (simp add: in_val_op opnd_val_const)
  then show ?thesis using assms(2) [of c] c by (simp add: shift_mask_def as_const_def word_less_nat_alt)
next
  case False
  then show ?thesis by (auto simp: shift_mask_def as_const_def split: option.split ssa_operand.split bind_splits)
qed

lemma op_sized_out: "op_sized i \<Longrightarrow> so_out i = Some v \<Longrightarrow> lc_size (sv_location v) = so_size i"
  by (simp add: op_sized_def)

lemma mask_of_op_sound:
  assumes ms: "masks_ok R ms" and R: "r \<in> R" "\<And>q. q \<in> R \<Longrightarrow> env_ok q" and i: "op_sized i" "op_narrow i"
    and h: "op_holds u d R r i" and out: "so_out i = Some out"
  shows "bits_in (r out) (mask_of_op ms i)"
proof -
  have r: "env_ok r" using R by blast
  have ok: "list_all opnd_ok (so_inputs i)" using i(1) by (simp add: op_sized_def)
  note arg = mask_at_sound [OF ms R(1) r ok]
  show ?thesis
  proof (cases "so_kind i")
    case Phi
    then obtain q x where q: "q \<in> R" "x \<in> set (so_inputs i)" "r out = opnd_val u q x"
      using h out by (auto simp: op_holds_def)
    then have "bits_in (r out) (known_operand ms x)"
      using known_operand_sound [OF ms q(1) R(2)] ok by (auto simp: list_all_iff)
    then show ?thesis using Phi q(2) by (auto simp: mask_of_op_def Let_def intro: bits_in_foldl_or)
  next
    case (Ssa_op x)
    have size_ok: "bits_in (r out) (width_mask (so_size i))"
      using r unfolding op_sized_out [OF i(1) out, symmetric] by (intro bits_in_size) (simp add: env_ok_def)
    have val: "bits_in (r out) k" if "pure_op x \<or> x = Copy" "alu x (so_size i) (op_ins u r i) = Some (Val v)" "bits_in v k" for v k
      using h out bits_in_alu_val [OF that(2,3), of d] op_holds_pure [OF Ssa_op that(1), of u d R r]
      by (simp add: out_is_def)
    consider "x = Copy" | "x = IntAnd" | "x = IntOr" | "x = IntXor" | "x = IntZExt" | "x = SubPiece \<or> x = Load"
      | "x = IntLeft" | "x = IntRight" | "x \<in> flag_ops" | "x = PopCount" | "x = LzCount"
      | "x \<notin> {Copy, IntAnd, IntOr, IntXor, IntZExt, SubPiece, Load, IntLeft, IntRight, PopCount, LzCount}" "x \<notin> flag_ops"
      by blast
    then show ?thesis
    proof cases
      case 1
      show ?thesis using val [OF _ _ arg [of u 0]] 1 Ssa_op by (simp add: mask_of_op_def alu_simple)
    next
      case 2
      show ?thesis using val [OF _ _ bits_in_and_both [OF arg [of u 0] arg [of u 1]]] 2 Ssa_op by (simp add: mask_of_op_def alu_simple pure_op_def)
    next
      case 3
      show ?thesis using val [OF _ _ bits_in_or [OF arg [of u 0] arg [of u 1]]] 3 Ssa_op by (simp add: mask_of_op_def alu_simple pure_op_def)
    next
      case 4
      show ?thesis using val [OF _ _ bits_in_xor [OF arg [of u 0] arg [of u 1]]] 4 Ssa_op by (simp add: mask_of_op_def alu_simple pure_op_def)
    next
      case 5
      show ?thesis using val [OF _ _ arg [of u 0]] 5 Ssa_op by (simp add: mask_of_op_def alu_simple pure_op_def)
    next
      case 6
      then show ?thesis using size_ok Ssa_op by (auto simp: mask_of_op_def)
    next
      case 9
      then obtain b where b: "alu x (so_size i) (op_ins u r i) = Some (Val (b2w b))" using alu_flag by blast
      have "x \<notin> {Copy, IntAnd, IntOr, IntXor, IntZExt, SubPiece, Load, IntLeft, IntRight}" "pure_op x"
        using 9 by (auto simp: flag_ops_def pure_op_def)
      then show ?thesis using val [OF _ b bits_in_b2w] Ssa_op 9 by (simp add: mask_of_op_def)
    next
      case 10
      show ?thesis
        using val [OF _ _ bits_in_7f [OF count_ones_le]] 10 Ssa_op by (simp add: mask_of_op_def alu_simple pure_op_def flag_ops_def)
    next
      case 11
      then show ?thesis
        using val alu_lzcount [OF i, of "so_size i" u r] Ssa_op bits_in_7f by (auto simp: mask_of_op_def pure_op_def flag_ops_def)
    next
      case 7
      have "bits_in (r out) (shift_mask push_bit (mask_at ms i 0) i)"
        by (rule shift_mask_sound [OF ok]) (use val shift_left_sound [OF arg [of u 0]] 7 in \<open>fastforce simp: alu_simple pure_op_def\<close>)
      then show ?thesis using 7 Ssa_op by (simp add: mask_of_op_def)
    next
      case 8
      have "bits_in (r out) (shift_mask drop_bit (mask_at ms i 0) i)"
        by (rule shift_mask_sound [OF ok]) (use val shift_right_sound [OF arg [of u 0]] 8 in \<open>fastforce simp: alu_simple pure_op_def\<close>)
      then show ?thesis using 8 Ssa_op by (simp add: mask_of_op_def)
    next
      case 12
      then show ?thesis using Ssa_op by (simp add: mask_of_op_def)
    qed
  qed
qed

section \<open>Soundness of the analysis\<close>

lemma known_op_sound:
  assumes "models u d R ops" and "i \<in> set ops" and "op_sized i" and "op_narrow i" and "masks_ok R ms"
  shows "masks_ok R (snd (known_op i (c, ms)))"
proof (cases "so_out i")
  case (Some out)
  have "bits_in (r out) (mask_of_op ms i AND width_mask (lc_size (sv_location out)))" if r: "r \<in> R" for r
  proof (rule bits_in_and)
    show "bits_in (r out) (mask_of_op ms i)"
      using models_env [OF assms(1)] models_op [OF assms(1) r assms(2)] assms(3-5) r Some by (intro mask_of_op_sound)
    show "bits_in (r out) (width_mask (lc_size (sv_location out)))"
      using models_env [OF assms(1) r] by (intro bits_in_size) (simp add: env_ok_def)
  qed
  then show ?thesis using assms(5) Some by (auto simp: known_op_def masks_ok_def Let_def)
qed (use assms(5) in \<open>simp add: known_op_def\<close>)

lemma known_round_sound:
  assumes "models u d R ops" and "list_all op_good ops" and "set is \<subseteq> set ops" and "masks_ok R ms"
  shows "masks_ok R (snd (fold known_op is (c, ms)))"
  using assms(3,4)
proof (induction "is" arbitrary: c ms)
  case (Cons i "is")
  have "op_sized i \<and> op_narrow i" using assms(2) Cons.prems(1) by (auto simp: op_good_def list_all_iff)
  then have "masks_ok R (snd (known_op i (c, ms)))"
    using Cons.prems known_op_sound [OF assms(1), of i ms c] by simp
  then show ?case using Cons.IH [of "snd (known_op i (c, ms))" "fst (known_op i (c, ms))"] Cons.prems(1) by simp
qed simp

lemma known_rounds_sound:
  "models u d R ops \<Longrightarrow> list_all op_good ops \<Longrightarrow> masks_ok R ms \<Longrightarrow> masks_ok R (known_rounds n ops ms)"
proof (induction n arbitrary: ms)
  case (Suc n)
  then have "masks_ok R (snd (fold known_op ops (False, ms)))" using known_round_sound [of u d R ops ops ms False] by simp
  then show ?case using Suc.IH [OF Suc.prems(1,2)] Suc.prems(3) by (cases "fold known_op ops (False, ms)") simp
qed simp

lemma known_bits_sound: "models u d R (sf_ops f) \<Longrightarrow> good_function f \<Longrightarrow> masks_ok R (known_bits f)"
  unfolding known_bits_def good_function_def by (rule known_rounds_sound) (simp_all add: masks_ok_def)

end
