(* ===== verification/Ir_Simplify.thy ===== *)
theory Ir_Simplify
  imports Ir_Known
begin

text \<open>
  \<open>simplify\<close> of \<open>crates/e5r-ir/src/opt.rs\<close>: operations whose result is already one of their inputs. The
  rules look one definition back through a snapshot of the function.
\<close>

section \<open>The snapshot\<close>

text \<open>What computes each value: the operation, its operands and its width. \<open>simplify\<close> does not look at the
  width, \<open>patterns\<close> does.\<close>

type_synonym sources = "ssa_value \<Rightarrow> (op \<times> ssa_operand list \<times> nat) option"

definition source_entry :: "ssa_op \<Rightarrow> sources \<Rightarrow> sources" where
  "source_entry i src = (case (so_out i, so_kind i) of
     (Some out, Ssa_op x) \<Rightarrow> src(out \<mapsto> (x, so_inputs i, so_size i))
   | _ \<Rightarrow> src)"

definition sources_of :: "ssa_function \<Rightarrow> sources" where
  "sources_of f = fold source_entry (sf_ops f) Map.empty"

section \<open>The rules\<close>

definition same_operand :: "ssa_operand \<Rightarrow> ssa_operand \<Rightarrow> bool" where
  "same_operand a c \<longleftrightarrow> (case (a, c) of
     (OValue v, OValue w) \<Rightarrow> v = w
   | (OUndefined k, OUndefined l) \<Rightarrow> k = l
   | _ \<Rightarrow> False)"

fun narrow_loop :: "nat \<Rightarrow> sources \<Rightarrow> nat \<Rightarrow> ssa_operand \<Rightarrow> ssa_operand option" where
  "narrow_loop 0 src n current = None"
| "narrow_loop (Suc k) src n current = (
     if opnd_size current = n then Some current
     else case current of
         OValue v \<Rightarrow> (case src v of
             Some (IntZExt, nxt # _, _) \<Rightarrow> if opnd_size nxt < n then None else narrow_loop k src n nxt
           | _ \<Rightarrow> None)
       | _ \<Rightarrow> None)"

definition narrowed_to :: "sources \<Rightarrow> ssa_operand \<Rightarrow> nat \<Rightarrow> ssa_operand option" where
  "narrowed_to src x n = narrow_loop 16 src n x"

definition simplify_to :: "masks \<Rightarrow> sources \<Rightarrow> op \<Rightarrow> nat \<Rightarrow> ssa_operand \<Rightarrow> ssa_operand \<Rightarrow> ssa_operand option" where
  "simplify_to ms src x n a c = (let
       ma = known_operand ms a; mc = known_operand ms c;
       same = same_operand a c; width = width_mask n in
     if x = IntAnd then
       (case as_const c of
          Some k \<Rightarrow> if ma AND width AND NOT k = 0 then Some a
            else if ma AND k = 0 then Some (OConst 0 n) else None
        | None \<Rightarrow> if same then Some a else None)
     else if x = IntOr then
       (if mc = 0 then Some a else if ma = 0 then Some c else if same then Some a else None)
     else if x = IntXor then
       (if same then Some (OConst 0 n) else if mc = 0 then Some a else if ma = 0 then Some c else None)
     else if (x = IntAdd \<or> x = IntSub) \<and> as_const c = Some 0 then Some a
     else if x = IntSub \<and> same then Some (OConst 0 n)
     else if x = IntMul \<and> as_const c = Some 1 then Some a
     else if x = IntMul \<and> as_const c = Some 0 then Some (OConst 0 n)
     else if (x = IntLeft \<or> x = IntRight \<or> x = IntSRight) \<and> as_const c = Some 0 then Some a
     else if x = IntZExt \<and> ma AND width = ma \<and> opnd_size a = n then Some a
     else if x = SubPiece \<and> as_const c = Some 0 \<and> ma AND NOT (width_mask n) = 0 then narrowed_to src a n
     else None)"

text \<open>Masking one half of a merge away: the other half is what is kept.\<close>

definition merge_keep :: "masks \<Rightarrow> sources \<Rightarrow> ssa_operand \<Rightarrow> u64 \<Rightarrow> ssa_operand option" where
  "merge_keep ms src a k = (case a of
     OValue v \<Rightarrow> (case src v of
         Some (IntOr, p # q # _, _) \<Rightarrow>
           if known_operand ms p AND k = 0 then Some q
           else if known_operand ms q AND k = 0 then Some p
           else None
       | _ \<Rightarrow> None)
   | _ \<Rightarrow> None)"

definition simplify_op :: "masks \<Rightarrow> sources \<Rightarrow> ssa_op \<Rightarrow> nat \<times> ssa_op" where
  "simplify_op ms src i = (case (so_kind i, so_inputs i) of
     (Ssa_op x, a # c # _) \<Rightarrow>
       (case simplify_to ms src x (so_size i) a c of
          Some r \<Rightarrow> (1, so_copy r i)
        | None \<Rightarrow> (case (x, as_const c) of
             (IntAnd, Some k) \<Rightarrow> (case merge_keep ms src a k of
                Some keep \<Rightarrow> (1, i\<lparr>so_inputs := [keep, c]\<rparr>)
              | None \<Rightarrow> (0, i))
           | _ \<Rightarrow> (0, i)))
   | _ \<Rightarrow> (0, i))"

text \<open>A pass that rewrites each operation and counts what it folded.\<close>

definition rewrite_pass :: "(ssa_op \<Rightarrow> nat \<times> ssa_op) \<Rightarrow> ssa_function \<Rightarrow> changes \<times> ssa_function" where
  "rewrite_pass rw f = (no_changes\<lparr>ch_folded := sum_list (map (fst \<circ> rw) (sf_ops f))\<rparr>, map_block_ops (map (snd \<circ> rw)) f)"

definition simplify :: "ssa_function \<Rightarrow> changes \<times> ssa_function" where
  "simplify f = rewrite_pass (simplify_op (known_bits f) (sources_of f)) f"

section \<open>What the snapshot says\<close>

text \<open>Every entry is an operation of the function, and its equation holds in every environment.\<close>

definition sources_good :: "sources \<Rightarrow> bool" where
  "sources_good src \<longleftrightarrow> (\<forall>v x ins n. src v = Some (x, ins, n) \<longrightarrow>
     (\<exists>i. op_good i \<and> so_kind i = Ssa_op x \<and> so_inputs i = ins \<and> so_size i = n \<and> so_out i = Some v))"

definition ins_val :: "(location \<Rightarrow> u64) \<Rightarrow> env \<Rightarrow> ssa_operand list \<Rightarrow> (u64 \<times> nat) list" where
  "ins_val u r ins = map (\<lambda>x. (opnd_val u r x, opnd_size x)) ins"

definition sources_hold :: "(location \<Rightarrow> u64) \<Rightarrow> completion \<Rightarrow> sources \<Rightarrow> env \<Rightarrow> bool" where
  "sources_hold u d src r \<longleftrightarrow> (\<forall>v x ins n. src v = Some (x, ins, n) \<longrightarrow> pure_op x \<or> x = Copy \<longrightarrow>
     r v = alu_val d x n (ins_val u r ins))"

lemma op_ins_val: "op_ins u r i = ins_val u r (so_inputs i)"
  by (simp add: op_ins_def ins_val_def)

lemma fold_source_entry:
  "fold source_entry ops src v = Some (x, ins, n) \<Longrightarrow>
    src v = Some (x, ins, n) \<or> (\<exists>i\<in>set ops. so_kind i = Ssa_op x \<and> so_inputs i = ins \<and> so_size i = n \<and> so_out i = Some v)"
proof (induction ops arbitrary: src)
  case (Cons i ops)
  from Cons.prems have "fold source_entry ops (source_entry i src) v = Some (x, ins, n)" by simp
  from Cons.IH [OF this] show ?case
    by (auto simp: source_entry_def split: option.splits ssa_kind.splits if_splits)
qed simp

lemma sources_of_op:
  "sources_of f v = Some (x, ins, n) \<Longrightarrow>
    \<exists>i\<in>set (sf_ops f). so_kind i = Ssa_op x \<and> so_inputs i = ins \<and> so_size i = n \<and> so_out i = Some v"
  unfolding sources_of_def by (drule fold_source_entry) simp

lemma sources_of_good: "good_function f \<Longrightarrow> sources_good (sources_of f)"
  unfolding sources_good_def good_function_def list_all_iff by (blast dest: sources_of_op)

lemma sources_of_hold: "models u d R (sf_ops f) \<Longrightarrow> r \<in> R \<Longrightarrow> sources_hold u d (sources_of f) r"
  unfolding sources_hold_def
proof (intro allI impI)
  fix v x ins n
  assume m: "models u d R (sf_ops f)" "r \<in> R" and p: "pure_op x \<or> x = Copy" and "sources_of f v = Some (x, ins, n)"
  then obtain i where i: "i \<in> set (sf_ops f)" "so_kind i = Ssa_op x" "so_inputs i = ins" "so_size i = n" "so_out i = Some v"
    using sources_of_op by blast
  then show "r v = alu_val d x n (ins_val u r ins)"
    using models_op [OF m i(1)] op_holds_pure [OF i(2) p, of u d R r] by (simp add: out_is_def op_ins_val)
qed

section \<open>Bits\<close>

lemma bits_in_keep: "bits_in v m \<Longrightarrow> m AND w AND NOT k = 0 \<Longrightarrow> v AND k AND w = v AND w"
proof -
  assume v: "bits_in v m" and z: "m AND w AND NOT k = 0"
  have "bits_in (m AND w) k" using z by (simp add: bits_in_def ac_simps)
  then show ?thesis using v by (intro bit_word_eqI) (auto simp: bits_in_bits bit_and_iff)
qed

lemma bits_in_disjoint: "bits_in v m \<Longrightarrow> m AND k = 0 \<Longrightarrow> v AND k = 0"
proof -
  assume v: "bits_in v m" and z: "m AND k = 0"
  have "\<not> (bit m j \<and> bit k j)" for j using z by (metis bit_0_eq bit_and_iff bot_apply bot_bool_def)
  then show ?thesis using v by (intro bit_word_eqI) (auto simp: bits_in_bits bit_and_iff)
qed

lemma bits_in_zero: "bits_in v m \<Longrightarrow> m = 0 \<Longrightarrow> v = 0"
  by (simp add: bits_in_def)

lemma size_mask_narrow: "n \<le> s \<Longrightarrow> size_mask s AND size_mask n = size_mask n"
  unfolding and_size_mask unfolding size_mask_eq by (simp add: take_bit_of_mask min_def)

lemma word_of_sext:
  assumes "0 < n" "n \<le> 8" "v AND size_mask n = v"
  shows "(word_of_int (ir_sext v n) :: u64) AND size_mask n = v"
proof -
  have v: "unat v < 2 ^ (8 * n)" using masked_less [OF assms(3,2)] .
  have "ir_sext v n mod 2 ^ (8 * n) = int (unat v) mod 2 ^ (8 * n)"
    unfolding ir_sext_val [OF assms(1,2) v] by (simp only: minus_mod_self2 split: if_split) simp
  also have "\<dots> = int (unat v)" by (rule mod_pos_pos_trivial) (use int_less_pow [OF v] in \<open>simp_all only: of_nat_0_le_iff\<close>)
  finally have "take_bit (8 * n) (ir_sext v n) = int (unat v)" unfolding take_bit_eq_mod .
  moreover have "(word_of_int (ir_sext v n) :: u64) AND size_mask n = word_of_int (take_bit (8 * n) (ir_sext v n))"
    by (rule bit_word_eqI) (auto simp: and_size_mask bit_take_bit_iff bit_word_of_int_iff)
  ultimately show ?thesis by simp
qed

section \<open>The rules are sound\<close>

lemma same_operand_val: "same_operand a c \<Longrightarrow> opnd_val u r a = opnd_val u r c"
  by (auto simp: same_operand_def opnd_val_def split: ssa_operand.splits)

lemma known_here: "masks_ok {r} ms \<Longrightarrow> env_ok r \<Longrightarrow> opnd_ok x \<Longrightarrow> bits_in (opnd_val u r x) (known_operand ms x)"
  using known_operand_sound [of "{r}" ms r x u] by simp

lemma narrow_loop_sound:
  assumes "sources_good src" and "sources_hold u d src r" and "env_ok r"
  shows "narrow_loop k src n x = Some e \<Longrightarrow> opnd_ok x \<Longrightarrow>
    opnd_val u r e AND size_mask n = opnd_val u r x AND size_mask n \<and> opnd_ok e \<and> opnd_size e = n"
proof (induction k arbitrary: x)
  case (Suc k)
  show ?case
  proof (cases "opnd_size x = n")
    case False
    then obtain v nxt t m where x: "x = OValue v" "src v = Some (IntZExt, nxt # t, m)" "n \<le> opnd_size nxt"
        and e: "narrow_loop k src n nxt = Some e"
      using Suc.prems(1) by (auto split: ssa_operand.splits option.splits op.splits list.splits if_splits)
    obtain i where i: "op_good i" "so_kind i = Ssa_op IntZExt" "so_inputs i = nxt # t" "so_size i = m" "so_out i = Some v"
      using assms(1) x(2) unfolding sources_good_def by blast
    have nm: "n \<le> m" and ok: "opnd_ok nxt" using i x(3) by (simp_all add: op_good_def op_sized_def)
    have "r v = alu_val d IntZExt m (ins_val u r (nxt # t))"
      using assms(2) x(2) by (simp add: sources_hold_def pure_op_def)
    also have "\<dots> = opnd_val u r nxt AND size_mask m" by (simp add: alu_val_def alu_simple in_val_def nth_in_def ins_val_def)
    finally have "opnd_val u r x AND size_mask n = opnd_val u r nxt AND (size_mask m AND size_mask n)"
      using x(1) by (simp add: opnd_val_def and.assoc)
    then show ?thesis using Suc.IH [OF e ok] size_mask_narrow [OF nm] by simp
  qed (use Suc.prems in auto)
qed simp

lemma simplify_to_sound:
  assumes ms: "masks_ok {r} ms" and src: "sources_good src" "sources_hold u d src r" and r: "env_ok r"
    and i: "op_good i" "so_kind i = Ssa_op x" "so_inputs i = a # c # t"
    and e: "simplify_to ms src x (so_size i) a c = Some e"
  shows "alu_val d x (so_size i) (op_ins u r i) = opnd_val u r e AND size_mask (so_size i)"
    and "opnd_ok e" and "opnd_size e \<le> 8" and "pure_op x"
proof -
  define n va vc where "n = so_size i" and "va = opnd_val u r a" and "vc = opnd_val u r c"
  have n: "0 < n" "n \<le> 8" and ok: "opnd_ok a" "opnd_ok c" and small: "opnd_size a \<le> 8" "opnd_size c \<le> 8"
    using i by (simp_all add: n_def op_good_def op_sized_def op_narrow_def)
  have ins: "in_val (op_ins u r i) 0 = va" "in_val (op_ins u r i) (Suc 0) = vc" "in_size (op_ins u r i) 0 8 = opnd_size a"
    "in_sext (op_ins u r i) 0 = ir_sext va (opnd_size a)"
    using i(3) by (simp_all add: in_val_op in_size_op in_sext_op nth_in_def va_def vc_def)
  have ka: "bits_in va (known_operand ms a)" and kc: "bits_in vc (known_operand ms c)"
    using known_here [OF ms r] ok by (simp_all add: va_def vc_def)
  have const: "vc = k" if "as_const c = Some k" for k
    using that ok(2) by (auto simp: vc_def opnd_val_const)
  have zero: "opnd_val u r (OConst 0 n) = 0" "opnd_ok (OConst 0 n)" by (simp_all add: opnd_val_def opnd_ok_def n)
  have same: "va = vc" if "same_operand a c" using same_operand_val [OF that] by (simp add: va_def vc_def)
  note e' = e [folded n_def, unfolded simplify_to_def Let_def]
  have "alu_val d x n (op_ins u r i) = opnd_val u r e AND size_mask n \<and> opnd_ok e \<and> opnd_size e \<le> 8 \<and> pure_op x"
  proof -
    have val: "alu_val d x n (op_ins u r i) = w AND size_mask n" if "alu x n (op_ins u r i) = Some (Val w)" for w
      using that by (simp add: alu_val_def)
    have sized: "x \<in> sized_ops \<Longrightarrow> opnd_size a = n" using i by (simp add: op_good_def op_sized_def n_def)
    have va: "va AND size_mask (opnd_size a) = va" using opnd_val_small [OF r] by (simp add: va_def)
    consider (and_const) k where "x = IntAnd" "as_const c = Some k" "known_operand ms a AND width_mask n AND NOT k = 0" "e = a"
      | (and_zero) k where "x = IntAnd" "as_const c = Some k" "known_operand ms a AND k = 0" "e = OConst 0 n"
      | (and_same) "x = IntAnd" "same_operand a c" "e = a"
      | (or_left) "x = IntOr" "known_operand ms c = 0" "e = a"
      | (or_right) "x = IntOr" "known_operand ms a = 0" "e = c"
      | (or_same) "x = IntOr" "same_operand a c" "e = a"
      | (xor_same) "x = IntXor" "same_operand a c" "e = OConst 0 n"
      | (xor_left) "x = IntXor" "known_operand ms c = 0" "e = a"
      | (xor_right) "x = IntXor" "known_operand ms a = 0" "e = c"
      | (add) "x = IntAdd \<or> x = IntSub" "as_const c = Some 0" "e = a"
      | (sub_same) "x = IntSub" "same_operand a c" "e = OConst 0 n"
      | (mul1) "x = IntMul" "as_const c = Some 1" "e = a"
      | (mul0) "x = IntMul" "as_const c = Some 0" "e = OConst 0 n"
      | (shift) "x = IntLeft \<or> x = IntRight" "as_const c = Some 0" "e = a"
      | (sshift) "x = IntSRight" "as_const c = Some 0" "e = a"
      | (zext) "x = IntZExt" "e = a"
      | (piece) "x = SubPiece" "as_const c = Some 0" "narrowed_to src a n = Some e"
      using e' by (simp split: if_splits option.splits) blast+
    then show ?thesis
    proof cases
      case and_const
      then show ?thesis
        using val [of "va AND vc"] bits_in_keep [OF ka, of "size_mask n" k] const ok small n
        by (simp add: alu_simple ins pure_op_def width_mask_eq va_def and.assoc)
    next
      case and_zero
      then show ?thesis
        using val [of "va AND vc"] bits_in_disjoint [OF ka] const n by (simp add: alu_simple ins pure_op_def zero)
    next
      case and_same
      then show ?thesis using val [of "va AND vc"] same ok small by (simp add: alu_simple ins pure_op_def va_def)
    next
      case or_left
      then show ?thesis using val [of "va OR vc"] bits_in_zero [OF kc] ok small by (simp add: alu_simple ins pure_op_def va_def)
    next
      case or_right
      then show ?thesis using val [of "va OR vc"] bits_in_zero [OF ka] ok small by (simp add: alu_simple ins pure_op_def vc_def)
    next
      case or_same
      then show ?thesis using val [of "va OR vc"] same ok small by (simp add: alu_simple ins pure_op_def va_def)
    next
      case xor_same
      then show ?thesis using val [of "va XOR vc"] same n by (simp add: alu_simple ins pure_op_def zero)
    next
      case xor_left
      then show ?thesis using val [of "va XOR vc"] bits_in_zero [OF kc] ok small by (simp add: alu_simple ins pure_op_def va_def)
    next
      case xor_right
      then show ?thesis using val [of "va XOR vc"] bits_in_zero [OF ka] ok small by (simp add: alu_simple ins pure_op_def vc_def)
    next
      case add
      then show ?thesis using val [of va] const ok small by (auto simp: alu_simple ins pure_op_def va_def)
    next
      case sub_same
      then show ?thesis using val [of "va - vc"] same n by (simp add: alu_simple ins pure_op_def zero)
    next
      case mul1
      then show ?thesis using val [of "va * vc"] const ok small by (simp add: alu_simple ins pure_op_def va_def)
    next
      case mul0
      then show ?thesis using val [of "va * vc"] const n by (simp add: alu_simple ins pure_op_def zero)
    next
      case shift
      then show ?thesis
        using val [of va] const ok small by (auto simp: alu_simple ins pure_op_def va_def alu_shift_def alu_shl_def alu_shr_def opnd_ok_def)
    next
      case sshift
      then show ?thesis
        using val [of "word_of_int (ir_sext va n)"] word_of_sext [OF n, of va] va sized const ok small n
        by (simp add: alu_simple ins pure_op_def alu_shift_def sized_ops_def va_def)
    next
      case zext
      then show ?thesis using val [of va] ok small by (simp add: alu_simple ins pure_op_def va_def)
    next
      case piece
      then show ?thesis
        using val [of va] const narrow_loop_sound [OF src r _ ok(1), of 16 n e] n
        by (simp add: alu_simple ins pure_op_def alu_shr_def narrowed_to_def va_def)
    qed
  qed
  then show "alu_val d x (so_size i) (op_ins u r i) = opnd_val u r e AND size_mask (so_size i)"
    and "opnd_ok e" and "opnd_size e \<le> 8" and "pure_op x"
    unfolding n_def by blast+
qed

lemma merge_keep_sound:
  assumes ms: "masks_ok {r} ms" and src: "sources_good src" "sources_hold u d src r" and r: "env_ok r"
    and e: "merge_keep ms src a k = Some e"
  shows "opnd_val u r a AND k = opnd_val u r e AND k" and "opnd_ok e" and "opnd_size e \<le> 8"
proof -
  obtain v p q t m where a: "a = OValue v" "src v = Some (IntOr, p # q # t, m)"
    and pq: "(known_operand ms p AND k = 0 \<and> e = q) \<or> (known_operand ms q AND k = 0 \<and> e = p)"
    using e by (auto simp: merge_keep_def split: ssa_operand.splits option.splits op.splits list.splits if_splits)
  obtain i where i: "op_good i" "so_kind i = Ssa_op IntOr" "so_inputs i = p # q # t" "so_size i = m" "so_out i = Some v"
    using src(1) a(2) unfolding sources_good_def by blast
  then have ok: "opnd_ok p" "opnd_ok q" "opnd_size p = m" "opnd_size q = m" "m \<le> 8"
    by (simp_all add: op_good_def op_sized_def sized_ops_def)
  define vp vq where "vp = opnd_val u r p" and "vq = opnd_val u r q"
  have small: "vp AND size_mask m = vp" "vq AND size_mask m = vq"
    using opnd_val_small [OF r] ok(3,4) unfolding vp_def vq_def by metis+
  have "r v = alu_val d IntOr m (ins_val u r (p # q # t))"
    using src(2) a(2) by (simp add: sources_hold_def pure_op_def)
  also have "\<dots> = (vp OR vq) AND size_mask m"
    by (simp add: alu_val_def alu_simple in_val_def nth_in_def ins_val_def vp_def vq_def)
  also have "\<dots> = vp OR vq" using small by (simp add: bit.conj_disj_distrib2)
  finally have "opnd_val u r a AND k = (vp AND k) OR (vq AND k)" by (simp add: a(1) opnd_val_def bit.conj_disj_distrib2)
  moreover have "bits_in vp (known_operand ms p)" "bits_in vq (known_operand ms q)"
    using known_here [OF ms r] ok by (simp_all add: vp_def vq_def)
  ultimately show "opnd_val u r a AND k = opnd_val u r e AND k" using pq bits_in_disjoint by (auto simp: vp_def vq_def)
  show "opnd_ok e" "opnd_size e \<le> 8" using pq ok by auto
qed

lemma merge_keep_good:
  assumes "sources_good src" and "merge_keep ms src a k = Some e"
  shows "opnd_ok e" and "opnd_size e \<le> 8"
proof -
  obtain v p q t m where a: "src v = Some (IntOr, p # q # t, m)" and pq: "e = p \<or> e = q"
    using assms(2) by (auto simp: merge_keep_def split: ssa_operand.splits option.splits op.splits list.splits if_splits)
  obtain i where "op_good i" "so_inputs i = p # q # t"
    using assms(1) a unfolding sources_good_def by blast
  then show "opnd_ok e" "opnd_size e \<le> 8" using pq by (auto simp: op_good_def op_sized_def op_narrow_def)
qed

lemma narrow_loop_good:
  "sources_good src \<Longrightarrow> narrow_loop k src n x = Some e \<Longrightarrow> opnd_ok x \<Longrightarrow> opnd_size x \<le> 8 \<Longrightarrow> opnd_ok e \<and> opnd_size e \<le> 8"
proof (induction k arbitrary: x)
  case (Suc k)
  show ?case
  proof (cases "opnd_size x = n")
    case False
    then obtain v nxt t m where x: "src v = Some (IntZExt, nxt # t, m)" and e: "narrow_loop k src n nxt = Some e"
      using Suc.prems(2) by (auto split: ssa_operand.splits option.splits op.splits list.splits if_splits)
    obtain i where "op_good i" "so_inputs i = nxt # t"
      using Suc.prems(1) x unfolding sources_good_def by blast
    then show ?thesis using Suc.IH [OF Suc.prems(1) e] by (simp add: op_good_def op_sized_def op_narrow_def)
  qed (use Suc.prems in auto)
qed simp

lemma simplify_to_good:
  assumes "sources_good src" and "op_good i" and "so_inputs i = a # c # t" and "simplify_to ms src x (so_size i) a c = Some e"
  shows "opnd_ok e" and "opnd_size e \<le> 8"
proof -
  have ok: "opnd_ok a" "opnd_ok c" "opnd_size a \<le> 8" "opnd_size c \<le> 8" "0 < so_size i" "so_size i \<le> 8"
    using assms(2,3) by (simp_all add: op_good_def op_sized_def op_narrow_def)
  have "e = a \<or> e = c \<or> e = OConst 0 (so_size i) \<or> narrowed_to src a (so_size i) = Some e"
    using assms(4) unfolding simplify_to_def Let_def by (simp split: if_splits option.splits)
  then show "opnd_ok e" "opnd_size e \<le> 8"
    using ok narrow_loop_good [OF assms(1) _ ok(1,3)] by (auto simp: narrowed_to_def opnd_ok_def)
qed

text \<open>What the pass makes of an operation.\<close>

lemma simplify_op_cases:
  obtains (keep) "snd (simplify_op ms src i) = i"
  | (copy) x a c t e where "so_kind i = Ssa_op x" "so_inputs i = a # c # t" "simplify_to ms src x (so_size i) a c = Some e"
      "snd (simplify_op ms src i) = so_copy e i"
  | (merge) a c t k e where "so_kind i = Ssa_op IntAnd" "so_inputs i = a # c # t" "as_const c = Some k"
      "merge_keep ms src a k = Some e" "snd (simplify_op ms src i) = i\<lparr>so_inputs := [e, c]\<rparr>"
proof (cases "so_kind i")
  case (Ssa_op x)
  show ?thesis
  proof (cases "\<exists>a c t. so_inputs i = a # c # t")
    case True
    then obtain a c t where ins: "so_inputs i = a # c # t" by blast
    show ?thesis
    proof (cases "simplify_to ms src x (so_size i) a c")
      case None
      show ?thesis
      proof (cases "\<exists>k e. x = IntAnd \<and> as_const c = Some k \<and> merge_keep ms src a k = Some e")
        case True
        then show ?thesis using merge None Ssa_op ins by (auto simp: simplify_op_def as_const_def)
      next
        case False
        then have "snd (simplify_op ms src i) = i" using None Ssa_op ins by (auto simp: simplify_op_def split: op.split option.split)
        then show ?thesis by (rule keep)
      qed
    next
      case (Some e)
      then show ?thesis using copy Ssa_op ins by (auto simp: simplify_op_def)
    qed
  next
    case False
    then have "snd (simplify_op ms src i) = i" using Ssa_op by (auto simp: simplify_op_def split: list.split)
    then show ?thesis by (rule keep)
  qed
qed (use keep in \<open>simp add: simplify_op_def\<close>)

interpretation simplify_ir: rewriting u d "sources_good src" "\<lambda>r. masks_ok {r} ms \<and> sources_hold u d src r" "snd \<circ> simplify_op ms src"
  for u d ms src
proof unfold_locales
  fix r i R
  assume src: "sources_good src" and r: "env_ok r" and facts: "masks_ok {r} ms \<and> sources_hold u d src r"
    and i: "op_good i" and h: "op_holds u d R r i"
  show "op_holds u d R r ((snd \<circ> simplify_op ms src) i)"
  proof (cases rule: simplify_op_cases [of ms src i])
    case keep
    then show ?thesis using h by simp
  next
    case (copy x a c t e)
    note s = simplify_to_sound [OF conjunct1 [OF facts] src conjunct2 [OF facts] r i copy(1-3)]
    then have "out_is r i (opnd_val u r e AND size_mask (so_size i))"
      using op_holds_pure [OF copy(1), of u d R r] h by simp
    then show ?thesis using copy(4) by (simp add: op_holds_copy)
  next
    case (merge a c t k e)
    have c: "opnd_val u r c = k" using merge(2,3) i by (auto simp: op_good_def op_sized_def opnd_val_const)
    have "alu_val d IntAnd (so_size i) (op_ins u r (i\<lparr>so_inputs := [e, c]\<rparr>)) = alu_val d IntAnd (so_size i) (op_ins u r i)"
      using merge_keep_sound(1) [OF conjunct1 [OF facts] src conjunct2 [OF facts] r merge(4)] merge(2) c
      by (simp add: alu_val_def alu_simple in_val_op nth_in_def)
    then show ?thesis
      using op_holds_pure [OF merge(1), of u d R r] op_holds_pure [of "i\<lparr>so_inputs := [e, c]\<rparr>" IntAnd u d R r] merge(1,5) h
      by (simp add: pure_op_def out_is_def)
  qed
next
  fix i
  assume src: "sources_good src" and i: "op_good i"
  show "op_good ((snd \<circ> simplify_op ms src) i)"
  proof (cases rule: simplify_op_cases [of ms src i])
    case keep
    then show ?thesis using i by simp
  next
    case (copy x a c t e)
    then show ?thesis using simplify_to_good [OF src i copy(2,3)] i op_sized_copy [of i e]
      by (auto simp: op_good_def op_narrow_def so_copy_def)
  next
    case (merge a c t k e)
    then show ?thesis using merge_keep_good [OF src merge(4)] i
      by (cases "so_out i") (auto simp: op_good_def op_narrow_def op_sized_def same_size_ops_def sized_ops_def)
  qed
qed

lemma rewrite_pass_ops: "sf_ops (snd (rewrite_pass rw f)) = map (snd \<circ> rw) (sf_ops f)"
  by (simp add: rewrite_pass_def sf_ops_map)

lemma simplify_models:
  assumes m: "models u d R (sf_ops f)" and g: "good_function f"
  shows "models u d R (sf_ops (snd (simplify f)))" and "good_function (snd (simplify f))"
proof -
  have src: "sources_good (sources_of f)" by (rule sources_of_good [OF g])
  have "masks_ok R (known_bits f)" by (rule known_bits_sound [OF m g])
  then have facts: "\<forall>r\<in>R. masks_ok {r} (known_bits f) \<and> sources_hold u d (sources_of f) r"
    using sources_of_hold [OF m] by (auto simp: masks_ok_def)
  show "models u d R (sf_ops (snd (simplify f)))"
    using simplify_ir.models_rw_pass [OF src m facts g] by (simp add: simplify_def rewrite_pass_def)
  show "good_function (snd (simplify f))"
    using simplify_ir.good_rw_pass [OF src g] by (simp add: simplify_def rewrite_pass_def)
qed

text \<open>The rule for a widening that does not widen needs a second input, and a widening has one.\<close>

lemma zext_rule_unreachable: "so_kind i = Ssa_op IntZExt \<Longrightarrow> so_inputs i = [a] \<Longrightarrow> simplify_op ms src i = (0, i)"
  by (simp add: simplify_op_def)

end
