(* ===== verification/Ir_Patterns.thy ===== *)
theory Ir_Patterns
  imports Ir_Simplify
begin

text \<open>
  \<open>patterns\<close> of \<open>crates/e5r-ir/src/opt.rs\<close>: the formulas over flags that machines use for comparisons,
  turned back into the comparisons, and that they are those comparisons.
\<close>

section \<open>The formulas\<close>

definition as_subtraction :: "sources \<Rightarrow> ssa_operand \<Rightarrow> (ssa_operand \<times> ssa_operand \<times> nat) option" where
  "as_subtraction src x = (case x of
     OValue v \<Rightarrow> (case src v of Some (IntSub, p # q # _, n) \<Rightarrow> Some (p, q, n) | _ \<Rightarrow> None)
   | _ \<Rightarrow> None)"

definition opnd_at_width :: "ssa_operand \<Rightarrow> nat \<Rightarrow> ssa_operand option" where
  "opnd_at_width x w = (if opnd_size x = w then Some x
     else case x of OConst v _ \<Rightarrow> Some (OConst (v AND width_mask w) w) | _ \<Rightarrow> None)"

text \<open>The value tested by \<open>v != 0\<close>, and the operand whose top bit \<open>v\<close> is. An operand of no bytes, which no
  lifter makes, would overflow \<open>bits - 1\<close>; here it wraps.\<close>

definition nonzero_of :: "sources \<Rightarrow> ssa_operand \<Rightarrow> ssa_value option" where
  "nonzero_of src x = (case x of
     OValue v \<Rightarrow> (case src v of
         Some (y, a # z # _, _) \<Rightarrow> if y = IntNotEqual \<and> as_const z = Some 0 then as_value a else None
       | _ \<Rightarrow> None)
   | _ \<Rightarrow> None)"

definition top_bit_of :: "sources \<Rightarrow> ssa_value \<Rightarrow> ssa_operand option" where
  "top_bit_of src v = (case src v of
     Some (y, a # k # _, _) \<Rightarrow> if y = IntRight \<and> as_const k = Some (of_nat (opnd_size a * 8) - 1) then Some a else None
   | _ \<Rightarrow> None)"

definition sign_of_difference :: "sources \<Rightarrow> ssa_operand \<Rightarrow> (ssa_operand \<times> ssa_operand \<times> nat) option" where
  "sign_of_difference src x = do {
     shifted \<leftarrow> nonzero_of src x;
     a \<leftarrow> top_bit_of src shifted;
     (case as_subtraction src a of
        Some s \<Rightarrow> Some s
      | None \<Rightarrow> Some (a, OConst 0 (opnd_size a), opnd_size a)) }"

definition as_operation :: "op \<Rightarrow> sources \<Rightarrow> ssa_operand \<Rightarrow> (ssa_operand \<times> ssa_operand) option" where
  "as_operation y src x = (case x of
     OValue v \<Rightarrow> (case src v of Some (z, p # q # _, _) \<Rightarrow> if z = y then Some (p, q) else None | _ \<Rightarrow> None)
   | _ \<Rightarrow> None)"

definition as_borrow :: "sources \<Rightarrow> ssa_operand \<Rightarrow> (ssa_operand \<times> ssa_operand) option" where
  "as_borrow = as_operation IntSBorrow"

definition as_equality :: "sources \<Rightarrow> ssa_operand \<Rightarrow> (ssa_operand \<times> ssa_operand) option" where
  "as_equality = as_operation IntEqual"

definition as_signed_le :: "sources \<Rightarrow> ssa_operand \<Rightarrow> (ssa_operand \<times> ssa_operand) option" where
  "as_signed_le = as_operation IntSLessEqual"

definition as_inequality :: "sources \<Rightarrow> ssa_operand \<Rightarrow> (ssa_operand \<times> ssa_operand) option" where
  "as_inequality src x = (case x of
     OValue v \<Rightarrow> (case src v of
         Some (IntNotEqual, p # q # _, _) \<Rightarrow> Some (p, q)
       | Some (BoolNot, p # _, _) \<Rightarrow> as_equality src p
       | _ \<Rightarrow> None)
   | _ \<Rightarrow> None)"

section \<open>The rules\<close>

definition difference_rule :: "sources \<Rightarrow> op \<Rightarrow> ssa_operand \<Rightarrow> ssa_operand \<Rightarrow> (op \<times> ssa_operand list) option" where
  "difference_rule src x a c = (if (x = IntEqual \<or> x = IntNotEqual) \<and> as_const c = Some 0 then do {
     (p, q, w) \<leftarrow> as_subtraction src a;
     p \<leftarrow> opnd_at_width p w;
     q \<leftarrow> opnd_at_width q w;
     Some (x, [p, q]) } else None)"

definition signed_rule :: "sources \<Rightarrow> op \<Rightarrow> ssa_operand \<Rightarrow> ssa_operand \<Rightarrow> (op \<times> ssa_operand list) option" where
  "signed_rule src x a c = (if x = IntEqual \<or> x = IntNotEqual then do {
     (p, q, w) \<leftarrow> sign_of_difference src a;
     (bp, bq) \<leftarrow> as_borrow src c;
     if p = bp \<and> q = bq then do {
       p \<leftarrow> opnd_at_width p w;
       q \<leftarrow> opnd_at_width q w;
       Some (if x = IntEqual then (IntSLessEqual, [q, p]) else (IntSLess, [p, q])) }
     else None } else None)"

definition greater_rule :: "sources \<Rightarrow> op \<Rightarrow> ssa_operand \<Rightarrow> ssa_operand \<Rightarrow> (op \<times> ssa_operand list) option" where
  "greater_rule src x a c = (if x = BoolAnd then do {
     (p, q) \<leftarrow> as_inequality src a;
     (lp, lq) \<leftarrow> as_signed_le src c;
     if p = lq \<and> q = lp then Some (IntSLess, [lp, lq]) else None } else None)"

definition patterns_to :: "sources \<Rightarrow> op \<Rightarrow> ssa_operand \<Rightarrow> ssa_operand \<Rightarrow> (op \<times> ssa_operand list) option" where
  "patterns_to src x a c = (case difference_rule src x a c of
     Some r \<Rightarrow> Some r
   | None \<Rightarrow> (case signed_rule src x a c of Some r \<Rightarrow> Some r | None \<Rightarrow> greater_rule src x a c))"

definition patterns_op :: "sources \<Rightarrow> ssa_op \<Rightarrow> nat \<times> ssa_op" where
  "patterns_op src i = (case (so_kind i, so_inputs i) of
     (Ssa_op x, a # c # _) \<Rightarrow> (case patterns_to src x a c of
         Some (y, ins) \<Rightarrow> (1, i\<lparr>so_kind := Ssa_op y, so_inputs := ins\<rparr>)
       | None \<Rightarrow> (0, i))
   | _ \<Rightarrow> (0, i))"

definition patterns :: "ssa_function \<Rightarrow> changes \<times> ssa_function" where
  "patterns f = rewrite_pass (patterns_op (sources_of f)) f"

section \<open>What the formulas mean\<close>

text \<open>The facts an entry of the snapshot gives about a value.\<close>

lemma source_good_facts:
  assumes src: "sources_good src" and v: "src v = Some (x, ins, n)"
  shows "list_all opnd_ok ins" and "list_all (\<lambda>x. opnd_size x \<le> 8) ins" and "0 < n" and "n \<le> 8" and "lc_size (sv_location v) = n"
    and "x \<in> same_size_ops \<Longrightarrow> ins = a # b # t \<Longrightarrow> opnd_size a = opnd_size b"
    and "x \<in> sized_ops \<Longrightarrow> ins = a # t' \<Longrightarrow> opnd_size a = n"
proof -
  obtain i where i: "op_good i" "so_kind i = Ssa_op x" "so_inputs i = ins" "so_size i = n" "so_out i = Some v"
    using src v unfolding sources_good_def by blast
  then show "list_all opnd_ok ins" "list_all (\<lambda>x. opnd_size x \<le> 8) ins" "0 < n" "n \<le> 8" "lc_size (sv_location v) = n"
    "x \<in> same_size_ops \<Longrightarrow> ins = a # b # t \<Longrightarrow> opnd_size a = opnd_size b" "x \<in> sized_ops \<Longrightarrow> ins = a # t' \<Longrightarrow> opnd_size a = n"
    by (auto simp: op_good_def op_sized_def op_narrow_def)
qed

lemma source_val: "sources_hold u d src r \<Longrightarrow> src v = Some (x, ins, n) \<Longrightarrow> pure_op x \<Longrightarrow> r v = alu_val d x n (ins_val u r ins)"
  by (simp add: sources_hold_def)

lemma b2w_mask: "0 < n \<Longrightarrow> b2w b AND size_mask n = b2w b"
proof -
  assume "0 < n"
  then have "bits_in (b2w b) (size_mask n)" using bits_in_b2w [of b] by (auto simp: bits_in_bits size_mask_eq bit_mask_iff bit_1_iff)
  then show ?thesis by (metis bits_in_and_right bits_in_eq bits_in_refl and.commute bits_in_bits)
qed

lemma b2w_eq_iff [simp]: "b2w a = b2w b \<longleftrightarrow> a = b"
  by (simp add: b2w_def)

lemma b2w_0 [simp]: "b2w a = 0 \<longleftrightarrow> \<not> a"
  by (simp add: b2w_def)

lemma opnd_val_less: "env_ok r \<Longrightarrow> opnd_size x \<le> 8 \<Longrightarrow> unat (opnd_val u r x) < 2 ^ (8 * opnd_size x)"
  using masked_less [OF opnd_val_small] by blast

lemma sub_mask_0:
  assumes "n \<le> 8" "unat x < 2 ^ (8 * n)" "unat y < 2 ^ (8 * n)"
  shows "(x - y) AND size_mask n = 0 \<longleftrightarrow> x = y"
proof
  assume "(x - y) AND size_mask n = 0"
  then have "(int (unat x) - int (unat y)) mod 2 ^ (8 * n) = 0" using int_unat_minus_mask [OF assms(1), of x y] by simp
  then have "int (unat x) mod 2 ^ (8 * n) = int (unat y) mod 2 ^ (8 * n)" by (simp only: mod_eq_dvd_iff mod_eq_0_iff_dvd)
  moreover have "int (unat z) mod 2 ^ (8 * n) = int (unat z)" if "unat z < 2 ^ (8 * n)" for z :: u64
    by (rule mod_pos_pos_trivial) (use int_less_pow [OF that] in \<open>simp_all only: of_nat_0_le_iff\<close>)
  ultimately have "int (unat x) = int (unat y)" using assms(2,3) by simp
  then show "x = y" by (simp only: of_nat_eq_iff word_eq_iff_unat)
qed simp

text \<open>In what follows \<open>r\<close> satisfies the equations of the snapshot.\<close>

lemma as_subtraction_source:
  assumes "as_subtraction src a = Some (p, q, w)"
  obtains v t where "a = OValue v" "src v = Some (IntSub, p # q # t, w)"
  using assms by (auto simp: as_subtraction_def split: ssa_operand.splits option.splits op.splits list.splits)

lemma as_subtraction_good:
  assumes src: "sources_good src" and s: "as_subtraction src a = Some (p, q, w)"
  shows "opnd_size p = w" "opnd_size q = w" "opnd_size a = w" "0 < w" "w \<le> 8" "opnd_ok p" "opnd_ok q"
proof -
  obtain v t where v: "a = OValue v" "src v = Some (IntSub, p # q # t, w)" by (rule as_subtraction_source [OF s])
  note f = source_good_facts [OF src v(2)]
  show "opnd_size p = w" using f(7) by (simp add: sized_ops_def)
  moreover show "opnd_size q = w" using f(6) [of p q t] calculation by (simp add: same_size_ops_def)
  show "opnd_size a = w" "0 < w" "w \<le> 8" "opnd_ok p" "opnd_ok q" using f(1-5) v(1) by simp_all
qed

lemma as_subtraction_val:
  assumes src: "sources_hold u d src r" and s: "as_subtraction src a = Some (p, q, w)"
  shows "opnd_val u r a = (opnd_val u r p - opnd_val u r q) AND size_mask w"
proof -
  obtain v t where v: "a = OValue v" "src v = Some (IntSub, p # q # t, w)" by (rule as_subtraction_source [OF s])
  then show ?thesis
    using source_val [OF src v(2)] by (simp add: pure_op_def opnd_val_def alu_val_def alu_simple ins_val_def in_val_def nth_in_def)
qed

lemma as_operation_source:
  assumes "as_operation y src a = Some (p, q)"
  obtains v t n where "a = OValue v" "src v = Some (y, p # q # t, n)"
  using assms by (auto simp: as_operation_def split: ssa_operand.splits option.splits list.splits if_splits)

lemma as_operation_good:
  assumes src: "sources_good src" and s: "as_operation y src a = Some (p, q)"
  shows "opnd_ok p" "opnd_ok q" "opnd_size p \<le> 8" "opnd_size q \<le> 8" "y \<in> same_size_ops \<Longrightarrow> opnd_size p = opnd_size q"
proof -
  obtain v t n where v: "a = OValue v" "src v = Some (y, p # q # t, n)" by (rule as_operation_source [OF s])
  note f = source_good_facts [OF src v(2)]
  show "opnd_ok p" "opnd_ok q" "opnd_size p \<le> 8" "opnd_size q \<le> 8" using f(1,2) by simp_all
  show "y \<in> same_size_ops \<Longrightarrow> opnd_size p = opnd_size q" using f(6) [of p q t] by simp
qed

lemma as_operation_val:
  assumes src: "sources_good src" "sources_hold u d src r" and s: "as_operation y src a = Some (p, q)" and y: "pure_op y"
  obtains n t where "0 < n" "opnd_val u r a = alu_val d y n (ins_val u r (p # q # t))"
proof -
  obtain v t n where v: "a = OValue v" "src v = Some (y, p # q # t, n)" by (rule as_operation_source [OF s])
  then show ?thesis using that source_good_facts(3) [OF src(1) v(2)] source_val [OF src(2) v(2) y] by (simp add: opnd_val_def)
qed

lemma ins_val_two:
  "in_val (ins_val u r (p # q # t)) 0 = opnd_val u r p" "in_val (ins_val u r (p # q # t)) 1 = opnd_val u r q"
  "in_sext (ins_val u r (p # q # t)) 0 = ir_sext (opnd_val u r p) (opnd_size p)"
  "in_sext (ins_val u r (p # q # t)) 1 = ir_sext (opnd_val u r q) (opnd_size q)"
  "in_val (ins_val u r (p # q # t)) (Suc 0) = opnd_val u r q"
  "in_sext (ins_val u r (p # q # t)) (Suc 0) = ir_sext (opnd_val u r q) (opnd_size q)"
  "in_size (ins_val u r (p # q # t)) 0 k = opnd_size p"
  by (simp_all add: ins_val_def in_val_def in_sext_def in_size_def nth_in_def)

lemma alu_val_b2w: "alu x n ins = Some (Val (b2w b)) \<Longrightarrow> 0 < n \<Longrightarrow> alu_val d x n ins = b2w b"
  by (simp add: alu_val_def b2w_mask)

lemma alu_borrow: "alu IntSBorrow n ins = Some (Val (b2w (ir_sign_bit (in_val ins 0) (in_size ins 0 8) \<noteq> ir_sign_bit (in_val ins 1) (in_size ins 0 8)
    \<and> ir_sign_bit (in_val ins 0 - in_val ins 1) (in_size ins 0 8) \<noteq> ir_sign_bit (in_val ins 0) (in_size ins 0 8))))"
  by (simp add: alu_defs alu_int_def Let_def)

lemma drop_top_bit:
  assumes "0 < n" "n \<le> 8" "unat v < 2 ^ (8 * n)"
  shows "drop_bit (8 * n - 1) v = b2w (ir_sign_bit v n)"
  using unat_drop_top [OF assms] ir_sign_bit_val [OF assms] by (auto simp: b2w_def word_eq_iff_unat)

lemma sign_of_difference_cases:
  assumes "sign_of_difference src a = Some (p, q, w)"
  obtains v sh sv k1 t1 n1 k k2 t2 n2 where "a = OValue v" "src v = Some (IntNotEqual, OValue sh # OConst 0 k1 # t1, n1)"
    and "src sh = Some (IntRight, sv # OConst k k2 # t2, n2)" "k = of_nat (opnd_size sv * 8) - 1"
    and "as_subtraction src sv = Some (p, q, w) \<or> p = sv \<and> q = OConst 0 w \<and> w = opnd_size sv"
proof -
  obtain sh sv where n: "nonzero_of src a = Some sh" and t: "top_bit_of src sh = Some sv"
    and d: "as_subtraction src sv = Some (p, q, w) \<or> p = sv \<and> q = OConst 0 w \<and> w = opnd_size sv"
    using assms by (auto simp: sign_of_difference_def split: bind_splits option.splits)
  obtain v k1 t1 n1 where a: "a = OValue v" "src v = Some (IntNotEqual, OValue sh # OConst 0 k1 # t1, n1)"
    using n by (auto simp: nonzero_of_def as_value_def split: ssa_operand.splits option.splits list.splits if_splits)
  obtain k k2 t2 n2 where sh: "src sh = Some (IntRight, sv # OConst k k2 # t2, n2)" "k = of_nat (opnd_size sv * 8) - 1"
    using t by (auto simp: top_bit_of_def split: option.splits list.splits if_splits)
  show ?thesis by (rule that [OF a sh d])
qed

lemma sign_of_difference_good:
  assumes src: "sources_good src" and s: "sign_of_difference src a = Some (p, q, w)"
  shows "opnd_size p = w" "opnd_size q = w" "0 < w" "w \<le> 8" "opnd_ok p" "opnd_ok q"
proof -
  obtain sh sv k k2 t2 n2 where sh: "src sh = Some (IntRight, sv # OConst k k2 # t2, n2)"
    and d: "as_subtraction src sv = Some (p, q, w) \<or> p = sv \<and> q = OConst 0 w \<and> w = opnd_size sv"
    by (rule sign_of_difference_cases [OF s])
  note f = source_good_facts [OF src sh]
  have "opnd_ok sv" "opnd_size sv \<le> 8" using f(1,2) by simp_all
  then have "opnd_size p = w \<and> opnd_size q = w \<and> 0 < w \<and> w \<le> 8 \<and> opnd_ok p \<and> opnd_ok q"
    using d as_subtraction_good [OF src, of sv p q w] by (auto simp: opnd_ok_def)
  then show "opnd_size p = w" "opnd_size q = w" "0 < w" "w \<le> 8" "opnd_ok p" "opnd_ok q" by blast+
qed

lemma sign_of_difference_val:
  assumes src: "sources_good src" "sources_hold u d src r" and r: "env_ok r" and s: "sign_of_difference src a = Some (p, q, w)"
  shows "opnd_val u r a = b2w (ir_sign_bit (opnd_val u r p - opnd_val u r q) w)"
proof -
  obtain v sh sv k1 t1 n1 k k2 t2 n2 where a: "a = OValue v" "src v = Some (IntNotEqual, OValue sh # OConst 0 k1 # t1, n1)"
    and sh: "src sh = Some (IntRight, sv # OConst k k2 # t2, n2)" "k = of_nat (opnd_size sv * 8) - 1"
    and d: "as_subtraction src sv = Some (p, q, w) \<or> p = sv \<and> q = OConst 0 w \<and> w = opnd_size sv"
    by (rule sign_of_difference_cases [OF s])
  note f1 = source_good_facts [OF src(1) a(2)] and f2 = source_good_facts [OF src(1) sh(1)]
  define m vs where "m = opnd_size sv" and "vs = opnd_val u r sv"
  have m: "0 < m" "m \<le> 8" using f2(1,2) by (simp_all add: m_def opnd_ok_def)
  have vs: "unat vs < 2 ^ (8 * m)" using opnd_val_less [OF r, of sv u] m by (simp add: m_def vs_def)
  have k: "unat k = 8 * m - 1"
  proof -
    have "(of_nat (8 * m - 1) :: u64) = of_nat (8 * m) - 1" using m(1) by (subst of_nat_diff) simp_all
    then have "k = of_nat (8 * m - 1)" using sh(2) by (simp add: m_def mult.commute)
    then show ?thesis using m(2) by (simp only: unsigned_of_nat) (simp add: take_bit_nat_eq_self)
  qed
  have top: "\<not> m * 8 \<le> 8 * m - Suc 0" "8 * m - Suc 0 < 64" using m by arith+
  have kv: "opnd_val u r (OConst k k2) = k" using f2(1) by (intro opnd_val_const) simp
  have "r sh = alu_val d IntRight n2 (ins_val u r (sv # OConst k k2 # t2))" using source_val [OF src(2) sh(1)] by (simp add: pure_op_def)
  also have "\<dots> = b2w (ir_sign_bit vs m)"
    using drop_top_bit [OF m vs] k top f2(3) b2w_mask [of n2]
    by (simp add: alu_val_def alu_simple ins_val_two kv alu_shift_def alu_shr_def m_def [symmetric] vs_def [symmetric])
  finally have sh_val: "r sh = b2w (ir_sign_bit vs m)" .
  have "opnd_val u r a = alu_val d IntNotEqual n1 (ins_val u r (OValue sh # OConst 0 k1 # t1))"
    using source_val [OF src(2) a(2)] a(1) by (simp add: pure_op_def opnd_val_def)
  also have "\<dots> = b2w (ir_sign_bit vs m)"
    using f1(3) sh_val by (subst alu_val_b2w [OF alu_simple(15)]) (simp_all add: ins_val_two opnd_val_def)
  finally have a_val: "opnd_val u r a = b2w (ir_sign_bit vs m)" .
  show ?thesis
    using d
  proof
    assume sub: "as_subtraction src sv = Some (p, q, w)"
    note good = as_subtraction_good [OF src(1) sub]
    show ?thesis
      using good a_val as_subtraction_val [OF src(2) sub] ir_sign_bit_mask [OF good(5), of "opnd_val u r p - opnd_val u r q"]
      by (simp add: m_def vs_def)
  next
    assume "p = sv \<and> q = OConst 0 w \<and> w = opnd_size sv"
    then show ?thesis using a_val by (simp add: m_def vs_def opnd_val_def)
  qed
qed

section \<open>The rules are sound\<close>

text \<open>What a rule promises: the new operation computes what the old one did, on good operands.\<close>

definition rule_ok :: "(location \<Rightarrow> u64) \<Rightarrow> completion \<Rightarrow> env \<Rightarrow> op \<Rightarrow> nat \<Rightarrow> ssa_operand list \<Rightarrow> op \<times> ssa_operand list \<Rightarrow> bool" where
  "rule_ok u d r x n ins = (\<lambda>(y, ins').
     alu_val d y n (ins_val u r ins') = alu_val d x n (ins_val u r ins) \<and> pure_op x \<and> pure_op y)"

lemma opnd_at_width_same: "opnd_size p = w \<Longrightarrow> opnd_at_width p w = Some p"
  by (simp add: opnd_at_width_def)

lemma difference_rule_cases:
  assumes src: "sources_good src" and "difference_rule src x a c = Some e"
  obtains p q w where "x = IntEqual \<or> x = IntNotEqual" "as_const c = Some 0" "as_subtraction src a = Some (p, q, w)" "e = (x, [p, q])"
proof -
  obtain p q w p' q' where *: "x = IntEqual \<or> x = IntNotEqual" "as_const c = Some 0" "as_subtraction src a = Some (p, q, w)"
      "opnd_at_width p w = Some p'" "opnd_at_width q w = Some q'" "e = (x, [p', q'])"
    using assms(2) by (auto simp: difference_rule_def split: if_splits bind_splits)
  show ?thesis using that [OF *(1-3)] * as_subtraction_good(1,2) [OF src *(3)] by (simp add: opnd_at_width_same)
qed

lemma signed_rule_cases:
  assumes src: "sources_good src" and "signed_rule src x a c = Some e"
  obtains p q w where "x = IntEqual \<or> x = IntNotEqual" "sign_of_difference src a = Some (p, q, w)" "as_borrow src c = Some (p, q)"
    "e = (if x = IntEqual then (IntSLessEqual, [q, p]) else (IntSLess, [p, q]))"
proof -
  obtain p q w p' q' where *: "x = IntEqual \<or> x = IntNotEqual" "sign_of_difference src a = Some (p, q, w)" "as_borrow src c = Some (p, q)"
      "opnd_at_width p w = Some p'" "opnd_at_width q w = Some q'" "e = (if x = IntEqual then (IntSLessEqual, [q', p']) else (IntSLess, [p', q']))"
    using assms(2) by (auto simp: signed_rule_def split: if_splits bind_splits)
  show ?thesis using that [OF *(1-3)] * sign_of_difference_good(1,2) [OF src *(2)] by (simp add: opnd_at_width_same)
qed

lemma greater_rule_cases:
  assumes "greater_rule src x a c = Some e"
  obtains p q where "x = BoolAnd" "as_inequality src a = Some (q, p)" "as_signed_le src c = Some (p, q)" "e = (IntSLess, [p, q])"
  using assms by (auto simp: greater_rule_def split: if_splits bind_splits)

lemma difference_rule_sound:
  assumes src: "sources_good src" "sources_hold u d src r" and r: "env_ok r" and c: "opnd_ok c"
    and e: "difference_rule src x a c = Some e"
  shows "rule_ok u d r x n (a # c # t) e"
proof -
  obtain p q w where x: "x = IntEqual \<or> x = IntNotEqual" and c0: "as_const c = Some 0" and s: "as_subtraction src a = Some (p, q, w)"
    and e': "e = (x, [p, q])"
    by (rule difference_rule_cases [OF src(1) e])
  note sub = as_subtraction_good [OF src(1) s]
  have "opnd_val u r a = 0 \<longleftrightarrow> opnd_val u r p = opnd_val u r q"
    using sub_mask_0 [OF sub(5)] opnd_val_less [OF r, of p u] opnd_val_less [OF r, of q u] sub as_subtraction_val [OF src(2) s] by simp
  moreover have "opnd_val u r c = 0" using c0 c by (auto simp: opnd_val_const)
  ultimately show ?thesis using x e' by (auto simp: rule_ok_def alu_val_def alu_simple ins_val_two pure_op_def)
qed

lemma signed_rule_sound:
  assumes src: "sources_good src" "sources_hold u d src r" and r: "env_ok r" and e: "signed_rule src x a c = Some e"
  shows "rule_ok u d r x n (a # c # t) e"
proof -
  obtain p q w where x: "x = IntEqual \<or> x = IntNotEqual" and s: "sign_of_difference src a = Some (p, q, w)"
    and b: "as_borrow src c = Some (p, q)" and e': "e = (if x = IntEqual then (IntSLessEqual, [q, p]) else (IntSLess, [p, q]))"
    by (rule signed_rule_cases [OF src(1) e])
  note sd = sign_of_difference_good [OF src(1) s]
  have pure: "pure_op IntSBorrow" by (simp add: pure_op_def)
  obtain m t' where m: "0 < m" "opnd_val u r c = alu_val d IntSBorrow m (ins_val u r (p # q # t'))"
    by (rule as_operation_val [OF src b [unfolded as_borrow_def] pure])
  define vp vq where "vp = opnd_val u r p" and "vq = opnd_val u r q"
  have small: "unat vp < 2 ^ (8 * w)" "unat vq < 2 ^ (8 * w)"
    using opnd_val_less [OF r, of p u] opnd_val_less [OF r, of q u] sd(1-4) by (simp_all add: vp_def vq_def)
  have "opnd_val u r c = b2w (ir_sign_bit vp w \<noteq> ir_sign_bit vq w \<and> ir_sign_bit (vp - vq) w \<noteq> ir_sign_bit vp w)"
    unfolding m(2) using sd(1) m(1) by (subst alu_val_b2w [OF alu_borrow]) (simp_all add: ins_val_two vp_def vq_def)
  then have "opnd_val u r a = opnd_val u r c \<longleftrightarrow> \<not> ir_sext vp w < ir_sext vq w"
    using borrow_less [OF sd(3,4) small] sign_of_difference_val [OF src r s] by (simp only: vp_def vq_def b2w_eq_iff) blast
  then show ?thesis
    using x sd(1,2) by (auto simp: e' rule_ok_def alu_val_def alu_simple ins_val_two pure_op_def not_less vp_def vq_def)
qed

lemma as_inequality_val:
  assumes src: "sources_good src" "sources_hold u d src r" and s: "as_inequality src a = Some (p, q)"
  shows "opnd_val u r a = b2w (opnd_val u r p \<noteq> opnd_val u r q)"
proof -
  obtain v y ins n where v: "a = OValue v" "src v = Some (y, ins, n)"
    and c: "(y = IntNotEqual \<and> (\<exists>t. ins = p # q # t)) \<or> (y = BoolNot \<and> (\<exists>z t. ins = z # t \<and> as_equality src z = Some (p, q)))"
    using s by (auto simp: as_inequality_def split: ssa_operand.splits option.splits op.splits list.splits)
  note n = source_good_facts(3) [OF src(1) v(2)] and val = source_val [OF src(2) v(2)]
  from c show ?thesis
  proof (elim disjE conjE exE)
    fix t
    assume y: "y = IntNotEqual" "ins = p # q # t"
    have "opnd_val u r a = alu_val d IntNotEqual n (ins_val u r (p # q # t))" using val y v(1) by (simp add: pure_op_def opnd_val_def)
    then show ?thesis using n by (simp add: alu_val_b2w [OF alu_simple(15)] ins_val_two)
  next
    fix z t
    assume y: "y = BoolNot" "ins = z # t" and e: "as_equality src z = Some (p, q)"
    have pure: "pure_op IntEqual" by (simp add: pure_op_def)
    obtain m t' where m: "0 < m" "opnd_val u r z = alu_val d IntEqual m (ins_val u r (p # q # t'))"
      by (rule as_operation_val [OF src e [unfolded as_equality_def] pure])
    have z: "opnd_val u r z = b2w (opnd_val u r p = opnd_val u r q)"
      unfolding m(2) using m(1) by (simp add: alu_val_b2w [OF alu_simple(14)] ins_val_two)
    have "opnd_val u r a = alu_val d BoolNot n (ins_val u r (z # t))" using val y v(1) by (simp add: pure_op_def opnd_val_def)
    then show ?thesis using n z by (simp add: alu_val_b2w [OF alu_simple(19)] ins_val_def in_val_def nth_in_def)
  qed
qed

lemma greater_rule_sound:
  assumes src: "sources_good src" "sources_hold u d src r" and r: "env_ok r" and e: "greater_rule src x a c = Some e"
  shows "rule_ok u d r x n (a # c # t) e"
proof -
  obtain p q where x: "x = BoolAnd" and i: "as_inequality src a = Some (q, p)" and l: "as_signed_le src c = Some (p, q)"
    and e': "e = (IntSLess, [p, q])"
    by (rule greater_rule_cases [OF e])
  note le = as_operation_good [OF src(1) l [unfolded as_signed_le_def]]
  define vp vq where "vp = opnd_val u r p" and "vq = opnd_val u r q"
  have same: "opnd_size p = opnd_size q" "0 < opnd_size p" using le(1,5) by (simp_all add: same_size_ops_def opnd_ok_def)
  have small: "unat vp < 2 ^ (8 * opnd_size q)" "unat vq < 2 ^ (8 * opnd_size q)"
    using opnd_val_less [OF r, of p u] opnd_val_less [OF r, of q u] le(3,4) same by (simp_all add: vp_def vq_def)
  have pure: "pure_op IntSLessEqual" by (simp add: pure_op_def)
  obtain m t' where m: "0 < m" "opnd_val u r c = alu_val d IntSLessEqual m (ins_val u r (p # q # t'))"
    by (rule as_operation_val [OF src l [unfolded as_signed_le_def] pure])
  have c: "opnd_val u r c = b2w (ir_sext vp (opnd_size q) \<le> ir_sext vq (opnd_size q))"
    unfolding m(2) using m(1) same by (simp add: alu_val_b2w [OF alu_simple(17)] ins_val_two vp_def vq_def)
  have "opnd_val u r a = b2w (vq \<noteq> vp)" using as_inequality_val [OF src i] by (simp add: vp_def vq_def)
  moreover have "ir_sext vp (opnd_size q) = ir_sext vq (opnd_size q) \<longleftrightarrow> vp = vq"
    using same le(4) by (intro ir_sext_inj small) simp_all
  ultimately have "(opnd_val u r a \<noteq> 0 \<and> opnd_val u r c \<noteq> 0) \<longleftrightarrow> ir_sext vp (opnd_size q) < ir_sext vq (opnd_size q)"
    using c by auto
  then show ?thesis using same by (simp add: x e' rule_ok_def alu_val_def alu_simple ins_val_two pure_op_def vp_def vq_def)
qed

section \<open>The pass\<close>

lemma patterns_to_cases:
  assumes "patterns_to src x a c = Some e"
  obtains "difference_rule src x a c = Some e" | "signed_rule src x a c = Some e" | "greater_rule src x a c = Some e"
  using assms by (auto simp: patterns_to_def split: option.splits)

text \<open>The operands of the new operation are good, and of one size where it needs that.\<close>

lemma patterns_to_good:
  assumes src: "sources_good src" and e: "patterns_to src x a c = Some (y, ins)"
  shows "\<exists>p q. ins = [p, q] \<and> opnd_ok p \<and> opnd_ok q \<and> opnd_size p = opnd_size q \<and> opnd_size p \<le> 8
    \<and> y \<in> {IntEqual, IntNotEqual, IntSLess, IntSLessEqual}"
  using e
proof (cases rule: patterns_to_cases)
  case 1
  obtain p q w where x: "x = IntEqual \<or> x = IntNotEqual" and s: "as_subtraction src a = Some (p, q, w)" and e': "(y, ins) = (x, [p, q])"
    by (rule difference_rule_cases [OF src 1])
  show ?thesis by (intro exI [of _ p] exI [of _ q]) (use as_subtraction_good [OF src s] x e' in auto)
next
  case 2
  obtain p q w where s: "sign_of_difference src a = Some (p, q, w)"
    and e': "(y, ins) = (if x = IntEqual then (IntSLessEqual, [q, p]) else (IntSLess, [p, q]))"
    by (rule signed_rule_cases [OF src 2])
  show ?thesis
  proof (cases "x = IntEqual")
    case True
    then show ?thesis by (intro exI [of _ q] exI [of _ p]) (use sign_of_difference_good [OF src s] e' in simp)
  next
    case False
    then show ?thesis by (intro exI [of _ p] exI [of _ q]) (use sign_of_difference_good [OF src s] e' in simp)
  qed
next
  case 3
  obtain p q where l: "as_signed_le src c = Some (p, q)" and e': "(y, ins) = (IntSLess, [p, q])"
    by (rule greater_rule_cases [OF 3])
  show ?thesis by (intro exI [of _ p] exI [of _ q])
    (use as_operation_good [OF src l [unfolded as_signed_le_def]] e' in \<open>simp add: same_size_ops_def\<close>)
qed

lemma patterns_to_sound:
  assumes "sources_good src" "sources_hold u d src r" "env_ok r" "opnd_ok c" "patterns_to src x a c = Some e"
  shows "rule_ok u d r x n (a # c # t) e"
  using assms(5) by (rule patterns_to_cases)
    (blast intro: difference_rule_sound [OF assms(1-4)] signed_rule_sound [OF assms(1-3)] greater_rule_sound [OF assms(1-3)])+

lemma patterns_op_cases:
  obtains (keep) "snd (patterns_op src i) = i"
  | (rewrite) x a c t y ins where "so_kind i = Ssa_op x" "so_inputs i = a # c # t" "patterns_to src x a c = Some (y, ins)"
      "snd (patterns_op src i) = i\<lparr>so_kind := Ssa_op y, so_inputs := ins\<rparr>"
proof (cases "\<exists>x a c t y ins. so_kind i = Ssa_op x \<and> so_inputs i = a # c # t \<and> patterns_to src x a c = Some (y, ins)")
  case True
  then obtain x a c t y ins where *: "so_kind i = Ssa_op x" "so_inputs i = a # c # t" "patterns_to src x a c = Some (y, ins)" by blast
  moreover have "snd (patterns_op src i) = i\<lparr>so_kind := Ssa_op y, so_inputs := ins\<rparr>" using * by (simp add: patterns_op_def)
  ultimately show ?thesis by (rule rewrite)
next
  case False
  have "snd (patterns_op src i) = i"
  proof (cases "so_kind i")
    case (Ssa_op x)
    show ?thesis
    proof (cases "\<exists>a c t. so_inputs i = a # c # t")
      case True
      then obtain a c t where ins: "so_inputs i = a # c # t" by blast
      then have "patterns_to src x a c = None" using False Ssa_op by (cases "patterns_to src x a c") auto
      then show ?thesis using Ssa_op ins by (simp add: patterns_op_def)
    qed (use Ssa_op in \<open>auto simp: patterns_op_def split: list.split\<close>)
  qed (simp add: patterns_op_def)
  then show ?thesis by (rule keep)
qed

interpretation patterns_ir: rewriting u d "sources_good src" "sources_hold u d src" "snd \<circ> patterns_op src" for u d src
proof unfold_locales
  fix r i R
  assume src: "sources_good src" and r: "env_ok r" and facts: "sources_hold u d src r" and i: "op_good i" and h: "op_holds u d R r i"
  show "op_holds u d R r ((snd \<circ> patterns_op src) i)"
  proof (cases rule: patterns_op_cases [of src i])
    case (rewrite x a c t y ins)
    have "opnd_ok c" using i rewrite(2) by (simp add: op_good_def op_sized_def)
    then have ok: "rule_ok u d r x (so_size i) (a # c # t) (y, ins)" by (rule patterns_to_sound [OF src facts r _ rewrite(3)])
    then show ?thesis
      using h op_holds_pure [OF rewrite(1), of u d R r] op_holds_pure [of "i\<lparr>so_kind := Ssa_op y, so_inputs := ins\<rparr>" y u d R r] rewrite(2,4)
      by (simp add: rule_ok_def op_ins_val out_is_def)
  qed (use h in simp)
next
  fix i
  assume src: "sources_good src" and i: "op_good i"
  show "op_good ((snd \<circ> patterns_op src) i)"
  proof (cases rule: patterns_op_cases [of src i])
    case (rewrite x a c t y ins)
    obtain p q where "ins = [p, q]" "opnd_ok p" "opnd_ok q" "opnd_size p = opnd_size q" "opnd_size p \<le> 8"
        "y \<in> {IntEqual, IntNotEqual, IntSLess, IntSLessEqual}"
      using patterns_to_good [OF src rewrite(3)] by blast
    then show ?thesis
      using i rewrite(4) by (cases "so_out i") (auto simp: op_good_def op_sized_def op_narrow_def sized_ops_def same_size_ops_def)
  qed (use i in simp)
qed

lemma patterns_models:
  assumes m: "models u d R (sf_ops f)" and g: "good_function f"
  shows "models u d R (sf_ops (snd (patterns f)))" and "good_function (snd (patterns f))"
proof -
  have src: "sources_good (sources_of f)" by (rule sources_of_good [OF g])
  have facts: "\<forall>r\<in>R. sources_hold u d (sources_of f) r" using sources_of_hold [OF m] by blast
  show "models u d R (sf_ops (snd (patterns f)))"
    using patterns_ir.models_rw_pass [OF src m facts g] by (simp add: patterns_def rewrite_pass_def)
  show "good_function (snd (patterns f))"
    using patterns_ir.good_rw_pass [OF src g] by (simp add: patterns_def rewrite_pass_def)
qed

end
