(* ===== verification/Ir_Propagate.thy ===== *)
theory Ir_Propagate
  imports Ir_Simplify
begin

text \<open>
  \<open>cse\<close> and \<open>propagate\<close> of \<open>crates/e5r-ir/src/opt.rs\<close>: a computation repeated in a block becomes a copy of
  the first, and an operand becomes what it was copied from. \<open>Ir_Run\<close> says what runs make of them.
\<close>

section \<open>Common subexpressions\<close>

type_synonym computation = "op \<times> ssa_operand list \<times> nat"

fun cse_ops :: "(computation \<Rightarrow> ssa_value option) \<Rightarrow> ssa_op list \<Rightarrow> nat \<times> ssa_op list" where
  "cse_ops seen [] = (0, [])"
| "cse_ops seen (i # is) = (case (so_kind i, so_out i) of
     (Ssa_op x, Some out) \<Rightarrow>
       if \<not> pure_op x then (case cse_ops seen is of (n, js) \<Rightarrow> (n, i # js))
       else (let key = (x, so_inputs i, so_size i) in
         case seen key of
           Some earlier \<Rightarrow> (case cse_ops seen is of (n, js) \<Rightarrow> (n + 1, so_copy (OValue earlier) i # js))
         | None \<Rightarrow> (case cse_ops (seen(key \<mapsto> out)) is of (n, js) \<Rightarrow> (n, i # js)))
   | _ \<Rightarrow> (case cse_ops seen is of (n, js) \<Rightarrow> (n, i # js)))"

definition cse :: "ssa_function \<Rightarrow> changes \<times> ssa_function" where
  "cse f = (no_changes\<lparr>ch_folded := sum_list (map (\<lambda>(_, b). fst (cse_ops Map.empty (sb_ops b))) (sf_blocks f))\<rparr>,
     map_block_ops (snd \<circ> cse_ops Map.empty) f)"

text \<open>What one step makes of an operation, and of what has been seen.\<close>

lemma cse_ops_step:
  obtains (keep) "snd (cse_ops seen (i # is)) = i # snd (cse_ops seen is)"
  | (copy) x v w where "so_kind i = Ssa_op x" "pure_op x" "so_out i = Some v" "seen (x, so_inputs i, so_size i) = Some w"
      "snd (cse_ops seen (i # is)) = so_copy (OValue w) i # snd (cse_ops seen is)"
  | (new) x v where "so_kind i = Ssa_op x" "pure_op x" "so_out i = Some v"
      "snd (cse_ops seen (i # is)) = i # snd (cse_ops (seen((x, so_inputs i, so_size i) \<mapsto> v)) is)"
proof (cases "so_kind i")
  case (Ssa_op x)
  show ?thesis
  proof (cases "so_out i")
    case (Some v)
    show ?thesis
    proof (cases "pure_op x")
      case True
      then show ?thesis
        using Ssa_op Some by (cases "seen (x, so_inputs i, so_size i)") (simp_all add: Let_def copy new split: prod.split)
    qed (use Ssa_op Some in \<open>simp add: keep split: prod.split\<close>)
  qed (use Ssa_op in \<open>simp add: keep split: prod.split\<close>)
qed (simp add: keep split: prod.split)

text \<open>What has been seen: each value is the result of its computation.\<close>

definition seen_good :: "(computation \<Rightarrow> ssa_value option) \<Rightarrow> bool" where
  "seen_good seen \<longleftrightarrow> (\<forall>x ins n v. seen (x, ins, n) = Some v \<longrightarrow> lc_size (sv_location v) = n \<and> 0 < n \<and> n \<le> 8)"

definition seen_holds :: "(location \<Rightarrow> u64) \<Rightarrow> completion \<Rightarrow> (computation \<Rightarrow> ssa_value option) \<Rightarrow> env \<Rightarrow> bool" where
  "seen_holds u d seen r \<longleftrightarrow> (\<forall>x ins n v. seen (x, ins, n) = Some v \<longrightarrow> r v = alu_val d x n (ins_val u r ins))"

lemma cse_ops_good:
  "seen_good seen \<Longrightarrow> list_all op_good is \<Longrightarrow> list_all op_good (snd (cse_ops seen is))"
proof (induction "is" arbitrary: seen)
  case (Cons i "is")
  have i: "op_good i" and rest: "list_all op_good is" using Cons.prems(2) by simp_all
  have copy: "op_good (so_copy (OValue v) i)" if "seen (x, so_inputs i, so_size i) = Some v" for x v
    using that Cons.prems(1) i op_sized_copy [of i "OValue v"] by (auto simp: seen_good_def op_good_def op_narrow_def so_copy_def opnd_ok_def)
  have more: "seen_good (seen((x, so_inputs i, so_size i) \<mapsto> v))" if "so_out i = Some v" for x v
    using Cons.prems(1) i that op_sized_out [of i v] by (auto simp: seen_good_def op_good_def op_sized_def)
  show ?case
    by (cases rule: cse_ops_step [of seen i "is"])
      (simp_all add: i copy Cons.IH [OF Cons.prems(1) rest] Cons.IH [OF more rest] del: cse_ops.simps)
qed simp

lemma cse_ops_holds:
  assumes "env_ok r"
  shows "seen_holds u d seen r \<Longrightarrow> list_all op_good is \<Longrightarrow> (\<And>i. i \<in> set is \<Longrightarrow> op_holds u d R r i) \<Longrightarrow>
    j \<in> set (snd (cse_ops seen is)) \<Longrightarrow> op_holds u d R r j"
proof (induction "is" arbitrary: seen)
  case (Cons i "is")
  have h: "op_holds u d R r i" and rest: "list_all op_good is" "\<And>k. k \<in> set is \<Longrightarrow> op_holds u d R r k"
    using Cons.prems(2,3) by simp_all
  have val: "r v = alu_val d x (so_size i) (ins_val u r (so_inputs i))" if "so_kind i = Ssa_op x" "pure_op x" "so_out i = Some v" for x v
    using h op_holds_pure [OF that(1), of u d R r] that(2,3) by (simp add: out_is_def op_ins_val)
  have copy: "op_holds u d R r (so_copy (OValue w) i)"
    if "so_kind i = Ssa_op x" "pure_op x" "so_out i = Some v" "seen (x, so_inputs i, so_size i) = Some w" for x v w
    using val [OF that(1-3)] that(3,4) Cons.prems(1) by (simp add: op_holds_copy out_is_def seen_holds_def opnd_val_def)
  have more: "seen_holds u d (seen((x, so_inputs i, so_size i) \<mapsto> v)) r" if "so_kind i = Ssa_op x" "pure_op x" "so_out i = Some v" for x v
    using val [OF that] Cons.prems(1) by (auto simp: seen_holds_def)
  show ?case
    using Cons.prems(4) h copy Cons.IH [OF Cons.prems(1) rest] Cons.IH [OF more rest]
    by (cases rule: cse_ops_step [of seen i "is"]) (auto simp del: cse_ops.simps fun_upd_apply)
qed simp

lemma cse_good:
  assumes g: "good_function f"
  shows "good_function (snd (cse f))"
proof -
  have "list_all op_good (sb_ops b)" if "(a, b) \<in> set (sf_blocks f)" for a b
    using g that by (auto simp: good_function_def sf_ops_def list_all_iff)
  moreover have "seen_good Map.empty" by (simp add: seen_good_def)
  ultimately show ?thesis
    using cse_ops_good by (fastforce simp: good_function_def cse_def sf_ops_map_block list_all_iff)
qed

lemma cse_models:
  assumes m: "models u d R (sf_ops f)" and g: "good_function f"
  shows "models u d R (sf_ops (snd (cse f)))"
proof -
  have start: "seen_holds u d Map.empty r" for r by (simp add: seen_holds_def)
  have "op_holds u d R r j" if r: "r \<in> R" and j: "j \<in> set (sf_ops (snd (cse f)))" for r j
  proof -
    obtain a b where b: "(a, b) \<in> set (sf_blocks f)" "j \<in> set (snd (cse_ops Map.empty (sb_ops b)))"
      using j by (auto simp: cse_def sf_ops_map_block)
    have ops: "op_good i \<and> op_holds u d R r i" if "i \<in> set (sb_ops b)" for i
      using models_op [OF m r, of i] g that b(1) by (force simp: sf_ops_def good_function_def list_all_iff)
    then have "list_all op_good (sb_ops b)" by (simp add: list_all_iff)
    then show ?thesis using cse_ops_holds [OF models_env [OF m r] start _ _ b(2)] ops by blast
  qed
  then show ?thesis using m by (simp add: models_def)
qed

section \<open>Copies\<close>

definition operand_size :: "ssa_operand \<Rightarrow> nat" where
  "operand_size x = max (opnd_size x) 1"

type_synonym copies = "ssa_value \<Rightarrow> ssa_operand option"

definition copy_entry :: "ssa_op \<Rightarrow> copies \<Rightarrow> copies" where
  "copy_entry i src = (case so_out i of
     None \<Rightarrow> src
   | Some out \<Rightarrow> (case (so_kind i, so_inputs i) of
       (Ssa_op x, [a]) \<Rightarrow> if x = Copy \<and> operand_size a = so_size i then src(out \<mapsto> a) else src
     | (Phi, a # t) \<Rightarrow> if list_all (\<lambda>b. b = a) (a # t) \<and> a \<noteq> OValue out then src(out \<mapsto> a) else src
     | _ \<Rightarrow> src))"

definition copies_of :: "ssa_function \<Rightarrow> copies" where
  "copies_of f = fold copy_entry (sf_ops f) Map.empty"

text \<open>Chains are followed for at most 64 links.\<close>

fun resolve_loop :: "nat \<Rightarrow> copies \<Rightarrow> ssa_operand \<Rightarrow> ssa_operand" where
  "resolve_loop 0 src x = x"
| "resolve_loop (Suc k) src x = (case x of
     OValue v \<Rightarrow> (case src v of
         Some nxt \<Rightarrow> if nxt \<noteq> x then resolve_loop k src nxt else x
       | None \<Rightarrow> x)
   | _ \<Rightarrow> x)"

definition resolve :: "copies \<Rightarrow> ssa_operand \<Rightarrow> ssa_operand" where
  "resolve src x = resolve_loop 64 src x"

definition propagate_op :: "copies \<Rightarrow> ssa_op \<Rightarrow> nat \<times> ssa_op" where
  "propagate_op src i = (length (filter (\<lambda>x. resolve src x \<noteq> x) (so_inputs i)), i\<lparr>so_inputs := map (resolve src) (so_inputs i)\<rparr>)"

text \<open>The code returns at once when nothing is a copy, which is what the empty map does.\<close>

definition propagate :: "ssa_function \<Rightarrow> changes \<times> ssa_function" where
  "propagate f = (let src = copies_of f in
     (no_changes\<lparr>ch_propagated := sum_list (map (fst \<circ> propagate_op src) (sf_ops f))\<rparr>, map_block_ops (map (snd \<circ> propagate_op src)) f))"

definition copies_good :: "copies \<Rightarrow> bool" where
  "copies_good src \<longleftrightarrow> (\<forall>v x. src v = Some x \<longrightarrow> opnd_ok x \<and> opnd_size x = lc_size (sv_location v) \<and> opnd_size x \<le> 8)"

lemma fold_copy_entry:
  "fold copy_entry ops src v = Some x \<Longrightarrow> src v = Some x \<or> (\<exists>i\<in>set ops. so_out i = Some v
      \<and> (so_kind i = Ssa_op Copy \<and> so_inputs i = [x] \<and> operand_size x = so_size i
       \<or> so_kind i = Phi \<and> (\<exists>t. so_inputs i = x # t \<and> (\<forall>b\<in>set t. b = x)) \<and> x \<noteq> OValue v))"
proof (induction ops arbitrary: src)
  case (Cons i ops)
  from Cons.prems have "fold copy_entry ops (copy_entry i src) v = Some x" by simp
  from Cons.IH [OF this] show ?case
    by (auto simp: copy_entry_def list_all_iff split: option.splits ssa_kind.splits list.splits if_splits)
qed simp

lemma copies_of_op:
  assumes "copies_of f v = Some x"
  obtains (copy) i where "i \<in> set (sf_ops f)" "so_out i = Some v" "so_kind i = Ssa_op Copy" "so_inputs i = [x]" "operand_size x = so_size i"
  | (phi) i t where "i \<in> set (sf_ops f)" "so_out i = Some v" "so_kind i = Phi" "so_inputs i = x # t" "\<forall>b\<in>set t. b = x" "x \<noteq> OValue v"
  using fold_copy_entry [OF assms [unfolded copies_of_def]] by auto

lemma copies_of_good:
  assumes g: "good_function f"
  shows "copies_good (copies_of f)"
  unfolding copies_good_def
proof (intro allI impI)
  fix v x
  assume "copies_of f v = Some x"
  then show "opnd_ok x \<and> opnd_size x = lc_size (sv_location v) \<and> opnd_size x \<le> 8"
  proof (cases rule: copies_of_op)
    case (copy i)
    then have "op_good i" using g by (simp add: good_function_def list_all_iff)
    then show ?thesis using copy op_sized_out [of i v] by (auto simp: op_good_def op_sized_def op_narrow_def operand_size_def opnd_ok_def)
  next
    case (phi i t)
    then have "op_good i" using g by (simp add: good_function_def list_all_iff)
    then show ?thesis using phi op_sized_out [of i v] by (auto simp: op_good_def op_sized_def op_narrow_def)
  qed
qed

lemma resolve_loop_good:
  "copies_good src \<Longrightarrow> opnd_ok x \<Longrightarrow> opnd_size x \<le> 8 \<Longrightarrow>
    opnd_ok (resolve_loop k src x) \<and> opnd_size (resolve_loop k src x) = opnd_size x"
  by (induction k src x rule: resolve_loop.induct) (fastforce simp: copies_good_def split: ssa_operand.split option.split)+

lemma resolve_loop_const: "resolve_loop k src (OConst v n) = OConst v n"
  by (cases k) simp_all

lemma resolve_const [simp]: "resolve src (OConst v n) = OConst v n"
  by (simp add: resolve_def resolve_loop_const)

lemma resolve_good: "copies_good src \<Longrightarrow> opnd_ok x \<Longrightarrow> opnd_size x \<le> 8 \<Longrightarrow> opnd_ok (resolve src x)"
  and resolve_size: "copies_good src \<Longrightarrow> opnd_ok x \<Longrightarrow> opnd_size x \<le> 8 \<Longrightarrow> opnd_size (resolve src x) = opnd_size x"
  unfolding resolve_def using resolve_loop_good by blast+

lemma propagate_op_good:
  assumes src: "copies_good src" and i: "op_good i"
  shows "op_good (snd (propagate_op src i))"
proof -
  have ok: "opnd_ok x" "opnd_size x \<le> 8" if "x \<in> set (so_inputs i)" for x
    using i that by (auto simp: op_good_def op_sized_def op_narrow_def list_all_iff)
  have same: "opnd_size (resolve src x) = opnd_size x" "opnd_ok (resolve src x)" if "x \<in> set (so_inputs i)" for x
    using resolve_size [OF src ok [OF that]] resolve_good [OF src ok [OF that]] by simp_all
  have narrow: "op_narrow (snd (propagate_op src i))"
    using i same by (fastforce simp: op_good_def op_narrow_def propagate_op_def list_all_iff map_eq_Cons_conv)
  have "op_sized (snd (propagate_op src i))"
    using i same
    by (cases "so_kind i"; cases "so_out i") (auto simp: op_good_def op_sized_def propagate_op_def list_all_iff map_eq_Cons_conv)
  then show ?thesis using narrow i by (simp add: op_good_def propagate_op_def)
qed

lemma propagate_good:
  assumes g: "good_function f"
  shows "good_function (snd (propagate f))"
proof -
  have src: "copies_good (copies_of f)" by (rule copies_of_good [OF g])
  have "sf_ops (snd (propagate f)) = map (snd \<circ> propagate_op (copies_of f)) (sf_ops f)"
    by (simp add: propagate_def Let_def sf_ops_map)
  then show ?thesis using g propagate_op_good [OF src] by (simp add: good_function_def list_all_iff)
qed

end
