(* ===== verification/Ir_Run.thy ===== *)
theory Ir_Run
  imports Ir_Propagate
begin

text \<open>
  Runs of a function in single assignment form, and what they say of copies: control moves along the
  edges of the blocks, the phis of a block take the operands of the edge it was entered by, all at once,
  and an operation sets the value it defines. Where every value is defined once and before it is read,
  on every path, a value that was copied has the value of its source at every point that may read it:
  so \<open>propagate\<close> changes no run.
\<close>

section \<open>Paths\<close>

text \<open>A path of moves from the start, and the point it ends at.\<close>

inductive flow :: "'p \<Rightarrow> ('s \<Rightarrow> bool) \<Rightarrow> ('s \<Rightarrow> 'p) \<Rightarrow> ('s \<Rightarrow> 'p) \<Rightarrow> 's list \<Rightarrow> 'p \<Rightarrow> bool"
  for start :: 'p and valid :: "'s \<Rightarrow> bool" and src :: "'s \<Rightarrow> 'p" and dst :: "'s \<Rightarrow> 'p" where
  flow_start: "flow start valid src dst [] start"
| flow_move: "flow start valid src dst ss (src s) \<Longrightarrow> valid s \<Longrightarrow> flow start valid src dst (ss @ [s]) (dst s)"

inductive_simps flow_snoc [simp]: "flow start valid src dst (ss @ [s]) p"
inductive_simps flow_Nil [simp]: "flow start valid src dst [] p"

lemma flow_split:
  assumes "flow start valid src dst (A @ s # B) p"
  shows "flow start valid src dst A (src s)" and "valid s"
    and "flow start valid src dst A' (src t) \<Longrightarrow> valid t \<Longrightarrow> dst t = dst s \<Longrightarrow> flow start valid src dst (A' @ t # B) p"
proof -
  have "flow start valid src dst A (src s) \<and> valid s
      \<and> (flow start valid src dst A' (src t) \<longrightarrow> valid t \<longrightarrow> dst t = dst s \<longrightarrow> flow start valid src dst (A' @ t # B) p)"
    using assms
  proof (induction B arbitrary: p rule: rev_induct)
    case Nil
    then show ?case using flow_snoc [of start valid src dst A' t p] by auto
  next
    case (snoc b B)
    from snoc.prems have "flow start valid src dst ((A @ s # B) @ [b]) p" by simp
    then have b: "flow start valid src dst (A @ s # B) (src b)" "valid b" "p = dst b" by (simp_all only: flow_snoc)
    have "flow start valid src dst ((A' @ t # B) @ [b]) p" if "flow start valid src dst (A' @ t # B) (src b)"
      using that b by (simp only: flow_snoc)
    then show ?case using snoc.IH [OF b(1)] by simp
  qed
  then show "flow start valid src dst A (src s)" and "valid s"
    and "flow start valid src dst A' (src t) \<Longrightarrow> valid t \<Longrightarrow> dst t = dst s \<Longrightarrow> flow start valid src dst (A' @ t # B) p"
    by blast+
qed

definition written :: "('s \<Rightarrow> 'v set) \<Rightarrow> 's list \<Rightarrow> 'v set" where
  "written writes ss = (\<Union>s\<in>set ss. writes s)"

text \<open>What a well-formed graph promises. Single assignment: the moves that write a value are the moves to one place, and write the same values.
  Strictness: on every path, what a move reads has been written.\<close>

locale strict_flow =
  fixes wf :: bool and start :: 'p and valid :: "'s \<Rightarrow> bool" and src dst :: "'s \<Rightarrow> 'p" and writes reads :: "'s \<Rightarrow> 'v set"
  assumes site: "wf \<Longrightarrow> valid s \<Longrightarrow> valid t \<Longrightarrow> w \<in> writes s \<Longrightarrow> w \<in> writes t \<Longrightarrow> writes s = writes t \<and> dst s = dst t"
    and strict: "wf \<Longrightarrow> flow start valid src dst ss (src s) \<Longrightarrow> valid s \<Longrightarrow> reads s \<subseteq> written writes ss"
begin

text \<open>A value is available at a point when every path there writes it.\<close>

definition avail :: "'p \<Rightarrow> 'v \<Rightarrow> bool" where
  "avail p v \<longleftrightarrow> (\<forall>ss. flow start valid src dst ss p \<longrightarrow> v \<in> written writes ss)"

lemma reads_avail: "wf \<Longrightarrow> valid s \<Longrightarrow> v \<in> reads s \<Longrightarrow> avail (src s) v"
  using strict by (auto simp: avail_def)

lemma avail_source:
  assumes wf: wf and v: "avail p v" and copy: "\<And>s. valid s \<Longrightarrow> v \<in> writes s \<Longrightarrow> w \<in> reads s"
  shows "avail p w"
  unfolding avail_def
proof (intro allI impI)
  fix ss
  assume ss: "flow start valid src dst ss p"
  then obtain t where "t \<in> set ss" "v \<in> writes t" using v by (auto simp: avail_def written_def)
  then obtain A B where t: "ss = A @ t # B" "v \<in> writes t" using split_list by metis
  then have f: "flow start valid src dst A (src t)" "valid t" using flow_split(1,2) ss by metis+
  then show "w \<in> written writes ss" using strict [OF wf f] copy [OF f(2) t(2)] by (auto simp: written_def t(1))
qed

text \<open>Where a copy is available, its source has not been written since the copy was. Otherwise control could
  have gone to the first write of the source and from there as it did, without writing the copy.\<close>

lemma source_unchanged:
  assumes wf: wf and ss: "flow start valid src dst ss p" and v: "avail p v" and copy: "\<And>s. valid s \<Longrightarrow> v \<in> writes s \<Longrightarrow> w \<in> reads s"
  obtains A t B where "ss = A @ t # B" and "v \<in> writes t" and "w \<notin> writes t" and "\<forall>s\<in>set B. v \<notin> writes s \<and> w \<notin> writes s"
proof -
  have "\<exists>t\<in>set ss. v \<in> writes t" using v ss by (auto simp: avail_def written_def)
  from split_list_last_prop [OF this] obtain A t B where t: "ss = A @ t # B" "v \<in> writes t" "\<forall>s\<in>set B. v \<notin> writes s" by blast
  have "w \<notin> writes s" if s: "s \<in> set (t # B)" for s
  proof
    assume w: "w \<in> writes s"
    obtain C D where D: "ss = C @ s # D" "set D \<subseteq> set B"
    proof (cases "s = t")
      case False
      then have "s \<in> set B" using s by simp
      then obtain B1 B2 where "B = B1 @ s # B2" using split_list by metis
      then show ?thesis by (intro that [of "A @ t # B1" B2]) (auto simp: t(1))
    qed (use t(1) that in blast)
    have "\<exists>x\<in>set ss. w \<in> writes x" using w D(1) by auto
    from split_list_first_prop [OF this] obtain A' t' B' where t': "ss = A' @ t' # B'" "w \<in> writes t'" "\<forall>x\<in>set A'. w \<notin> writes x" by blast
    have valid: "valid s" "valid t'" using flow_split(2) ss D(1) t'(1) by metis+
    have A': "flow start valid src dst A' (src t')" using flow_split(1) ss t'(1) by metis
    have same: "writes t' = writes s" "dst t' = dst s" using site [OF wf valid(2,1) t'(2) w] by simp_all
    have "v \<notin> writes t'" using strict [OF wf A' valid(2)] copy [OF valid(2)] t'(3) by (auto simp: written_def)
    moreover have "v \<notin> writes x" if x: "x \<in> set A'" for x
    proof
      assume "v \<in> writes x"
      obtain E F where E: "A' = E @ x # F" using split_list [OF x] by blast
      then have "ss = E @ x # (F @ t' # B')" by (simp add: t'(1))
      then have "flow start valid src dst E (src x)" "valid x" using flow_split(1,2) ss by metis+
      then have "w \<in> written writes E" using strict [OF wf] copy \<open>v \<in> writes x\<close> by blast
      then show False using t'(3) by (auto simp: written_def E)
    qed
    ultimately have "v \<notin> written writes (A' @ t' # D)" using D(2) t(3) by (auto simp: written_def)
    moreover have "flow start valid src dst (A' @ t' # D) p"
      using flow_split(3) [OF ss [unfolded D(1)] A' valid(2)] same(2) by blast
    ultimately show False using v by (simp add: avail_def)
  qed
  then show ?thesis using t by (intro that [of A t B]) auto
qed

end

text \<open>A table of what is written at each point shows strictness.\<close>

lemma strict_by_table:
  assumes "flow start valid src dst ss p" and "D start = {}"
    and "\<And>s. valid s \<Longrightarrow> D (dst s) \<subseteq> D (src s) \<union> writes s"
  shows "D p \<subseteq> written writes ss"
  using assms(1)
proof (induction rule: flow.induct)
  case (flow_move ss s)
  then show ?case using assms(3) [of s] by (auto simp: written_def)
qed (use assms(2) in simp)

section \<open>Moves of a function\<close>

datatype ssa_move = Op_move addr nat | Edge_move addr addr nat

definition block_ops :: "ssa_function \<Rightarrow> addr \<Rightarrow> ssa_op list" where
  "block_ops f a = (case sf_block f a of None \<Rightarrow> [] | Some b \<Rightarrow> sb_ops b)"

definition block_succs :: "ssa_function \<Rightarrow> addr \<Rightarrow> addr list" where
  "block_succs f a = (case sf_block f a of None \<Rightarrow> [] | Some b \<Rightarrow> sb_successors b)"

definition block_preds :: "ssa_function \<Rightarrow> addr \<Rightarrow> addr list" where
  "block_preds f a = (case sf_block f a of None \<Rightarrow> [] | Some b \<Rightarrow> sb_predecessors b)"

definition block_phis :: "ssa_function \<Rightarrow> addr \<Rightarrow> ssa_op list" where
  "block_phis f a = takeWhile (\<lambda>i. so_kind i = Phi) (block_ops f a)"

text \<open>An operation that is no phi is executed where control is; from the end of a block control goes along an
  edge, the \<open>j\<close>-th into its target, over the target's phis.\<close>

fun move_valid :: "ssa_function \<Rightarrow> ssa_move \<Rightarrow> bool" where
  "move_valid f (Op_move a k) \<longleftrightarrow> k < length (block_ops f a) \<and> so_kind (block_ops f a ! k) \<noteq> Phi"
| "move_valid f (Edge_move a c j) \<longleftrightarrow> c \<in> set (block_succs f a) \<and> j < length (block_preds f c) \<and> block_preds f c ! j = a"

fun move_src :: "ssa_function \<Rightarrow> ssa_move \<Rightarrow> addr \<times> nat" where
  "move_src f (Op_move a k) = (a, k)"
| "move_src f (Edge_move a c j) = (a, length (block_ops f a))"

fun move_dst :: "ssa_function \<Rightarrow> ssa_move \<Rightarrow> addr \<times> nat" where
  "move_dst f (Op_move a k) = (a, Suc k)"
| "move_dst f (Edge_move a c j) = (c, length (block_phis f c))"

definition move_start :: "ssa_function \<Rightarrow> addr \<times> nat" where
  "move_start f = (sf_entry f, length (block_phis f (sf_entry f)))"

fun move_writes :: "ssa_function \<Rightarrow> ssa_move \<Rightarrow> ssa_value set" where
  "move_writes f (Op_move a k) = set_option (so_out (block_ops f a ! k))"
| "move_writes f (Edge_move a c j) = (\<Union>i\<in>set (block_phis f c). set_option (so_out i))"

fun move_reads :: "ssa_function \<Rightarrow> ssa_move \<Rightarrow> ssa_value set" where
  "move_reads f (Op_move a k) = {v. OValue v \<in> set (so_inputs (block_ops f a ! k))}"
| "move_reads f (Edge_move a c j) = {v. \<exists>i\<in>set (block_phis f c). j < length (so_inputs i) \<and> so_inputs i ! j = OValue v}"

abbreviation ssa_flow :: "ssa_function \<Rightarrow> ssa_move list \<Rightarrow> addr \<times> nat \<Rightarrow> bool" where
  "ssa_flow f \<equiv> flow (move_start f) (move_valid f) (move_src f) (move_dst f)"

text \<open>The form that the construction of SSA gives a function: a block for an address, a definition for a
  value, an operand for every edge into a block in each of its phis, and on every path a definition
  before a use.\<close>

definition ssa_form :: "ssa_function \<Rightarrow> bool" where
  "ssa_form f \<longleftrightarrow> distinct (map fst (sf_blocks f))
     \<and> (\<forall>a k c l v. k < length (block_ops f a) \<longrightarrow> l < length (block_ops f c) \<longrightarrow>
          so_out (block_ops f a ! k) = Some v \<longrightarrow> so_out (block_ops f c ! l) = Some v \<longrightarrow> a = c \<and> k = l)
     \<and> (\<forall>a. \<forall>i\<in>set (block_phis f a). length (so_inputs i) = length (block_preds f a))
     \<and> (\<forall>ss s. ssa_flow f ss (move_src f s) \<longrightarrow> move_valid f s \<longrightarrow> move_reads f s \<subseteq> written (move_writes f) ss)"

section \<open>Runs\<close>

text \<open>The values after a move: those it does not write are as before, an operation on values computes what the
  interpreter does, any other (a load, a call) gives any value of its size, and a phi takes the operand
  of the edge, in the values before the move.\<close>

definition op_computes :: "(location \<Rightarrow> u64) \<Rightarrow> completion \<Rightarrow> env \<Rightarrow> env \<Rightarrow> ssa_op \<Rightarrow> bool" where
  "op_computes u d r r' i \<longleftrightarrow> (case (so_kind i, so_out i) of
     (Ssa_op x, Some v) \<Rightarrow> pure_op x \<or> x = Copy \<longrightarrow> r' v = alu_val d x (so_size i) (op_ins u r i)
   | _ \<Rightarrow> True)"

definition phi_takes :: "(location \<Rightarrow> u64) \<Rightarrow> nat \<Rightarrow> env \<Rightarrow> env \<Rightarrow> ssa_op \<Rightarrow> bool" where
  "phi_takes u j r r' i \<longleftrightarrow> (case so_out i of None \<Rightarrow> True
     | Some v \<Rightarrow> j < length (so_inputs i) \<longrightarrow> r' v = opnd_val u r (so_inputs i ! j))"

fun move_computes :: "ssa_function \<Rightarrow> (location \<Rightarrow> u64) \<Rightarrow> completion \<Rightarrow> ssa_move \<Rightarrow> env \<Rightarrow> env \<Rightarrow> bool" where
  "move_computes f u d (Op_move a k) r r' \<longleftrightarrow> op_computes u d r r' (block_ops f a ! k)"
| "move_computes f u d (Edge_move a c j) r r' \<longleftrightarrow> (\<forall>i\<in>set (block_phis f c). phi_takes u j r r' i)"

inductive ssa_run :: "ssa_function \<Rightarrow> (location \<Rightarrow> u64) \<Rightarrow> completion \<Rightarrow> ssa_move list \<Rightarrow> addr \<times> nat \<Rightarrow> env \<Rightarrow> bool"
  for f u d where
  run_start: "env_ok r \<Longrightarrow> ssa_run f u d [] (move_start f) r"
| run_move: "ssa_run f u d ss (move_src f s) r \<Longrightarrow> move_valid f s \<Longrightarrow> env_ok r' \<Longrightarrow>
    (\<forall>v. v \<notin> move_writes f s \<longrightarrow> r' v = r v) \<Longrightarrow> move_computes f u d s r r' \<Longrightarrow> ssa_run f u d (ss @ [s]) (move_dst f s) r'"

inductive_simps ssa_run_Nil [simp]: "ssa_run f u d [] p r"
inductive_simps ssa_run_snoc [simp]: "ssa_run f u d (ss @ [s]) p r"

lemma run_flow: "ssa_run f u d ss p r \<Longrightarrow> ssa_flow f ss p"
  by (induction rule: ssa_run.induct) (auto intro: flow.intros)

lemma run_env: "ssa_run f u d ss p r \<Longrightarrow> env_ok r"
  by (induction rule: ssa_run.induct) auto

text \<open>The values after a move in the middle of a run stay until they are written.\<close>

lemma run_split:
  "ssa_run f u d (A @ s # B) p r \<Longrightarrow> \<exists>q q'. ssa_run f u d A (move_src f s) q \<and> move_valid f s
    \<and> (\<forall>v. v \<notin> move_writes f s \<longrightarrow> q' v = q v) \<and> move_computes f u d s q q'
    \<and> (\<forall>v. (\<forall>t\<in>set B. v \<notin> move_writes f t) \<longrightarrow> r v = q' v)"
proof (induction B arbitrary: p r rule: rev_induct)
  case Nil
  then show ?case by auto
next
  case (snoc b B)
  from snoc.prems have "ssa_run f u d ((A @ s # B) @ [b]) p r" by simp
  then obtain r1 where r1: "ssa_run f u d (A @ s # B) (move_src f b) r1" "\<forall>v. v \<notin> move_writes f b \<longrightarrow> r v = r1 v"
    unfolding ssa_run_snoc by blast
  from snoc.IH [OF r1(1)] obtain q q' where q: "ssa_run f u d A (move_src f s) q" "move_valid f s"
      "\<forall>v. v \<notin> move_writes f s \<longrightarrow> q' v = q v" "move_computes f u d s q q'"
      "\<forall>v. (\<forall>t\<in>set B. v \<notin> move_writes f t) \<longrightarrow> r1 v = q' v"
    by blast
  have "r v = q' v" if "\<forall>t\<in>set (B @ [b]). v \<notin> move_writes f t" for v using that r1(2) q(5) by simp
  then show ?case using q(1-4) by blast
qed
section \<open>The form of a function as a graph\<close>

lemma ssa_form_site:
  assumes "ssa_form f" and "move_valid f s" "move_valid f t" and "w \<in> move_writes f s" "w \<in> move_writes f t"
  shows "move_writes f s = move_writes f t \<and> move_dst f s = move_dst f t"
proof -
  have one: "a = c \<and> k = l" if "k < length (block_ops f a)" "l < length (block_ops f c)"
      "so_out (block_ops f a ! k) = Some w" "so_out (block_ops f c ! l) = Some w" for a k c l
    using assms(1) that unfolding ssa_form_def by blast
  have phi: "\<exists>k. k < length (block_ops f c) \<and> so_kind (block_ops f c ! k) = Phi \<and> so_out (block_ops f c ! k) = Some w"
    if w: "w \<in> move_writes f (Edge_move a c j)" for a c j
  proof -
    obtain i where i: "i \<in> set (block_phis f c)" "so_out i = Some w" using w by auto
    then obtain k where "k < length (block_phis f c)" "block_phis f c ! k = i" by (auto simp: in_set_conv_nth)
    then show ?thesis
      using i set_takeWhileD [of i "\<lambda>i. so_kind i = Phi" "block_ops f c"] length_takeWhile_le [of "\<lambda>i. so_kind i = Phi" "block_ops f c"]
      by (intro exI [of _ k]) (auto simp: block_phis_def takeWhile_nth)
  qed
  show ?thesis
  proof (cases s)
    case s: (Op_move a k)
    then have k: "k < length (block_ops f a)" "so_kind (block_ops f a ! k) \<noteq> Phi" "so_out (block_ops f a ! k) = Some w"
      using assms(2,4) by simp_all
    show ?thesis
    proof (cases t)
      case (Op_move c l)
      then have "a = c \<and> k = l" using one [OF k(1) _ k(3), of l c] assms(3,5) by simp
      then show ?thesis using s Op_move by simp
    next
      case (Edge_move b c j)
      then obtain l where "l < length (block_ops f c)" "so_kind (block_ops f c ! l) = Phi" "so_out (block_ops f c ! l) = Some w"
        using phi assms(5) by blast
      then show ?thesis using one [OF k(1) _ k(3), of l c] k(2) by auto
    qed
  next
    case s: (Edge_move a c j)
    then obtain k where k: "k < length (block_ops f c)" "so_kind (block_ops f c ! k) = Phi" "so_out (block_ops f c ! k) = Some w"
      using phi assms(4) by blast
    show ?thesis
    proof (cases t)
      case (Op_move b l)
      then show ?thesis using assms(3,5) one [OF k(1) _ k(3), of l b] k(2) by auto
    next
      case (Edge_move b e l)
      then obtain m where "m < length (block_ops f e)" "so_out (block_ops f e ! m) = Some w" using phi assms(5) by blast
      then have "c = e" using one [OF k(1) _ k(3)] by blast
      then show ?thesis using s Edge_move by simp
    qed
  qed
qed

interpretation runs: strict_flow "ssa_form f" "move_start f" "move_valid f" "move_src f" "move_dst f" "move_writes f" "move_reads f" for f
  by unfold_locales (fact ssa_form_site, auto simp: ssa_form_def)

text \<open>What an entry of the table of copies says of every move that writes the copy: it reads the source, and
  gives the copy its value.\<close>

lemma block_ops_at:
  assumes "ssa_form f" and "i \<in> set (sf_ops f)"
  obtains a k where "k < length (block_ops f a)" and "block_ops f a ! k = i"
proof -
  obtain a b where b: "(a, b) \<in> set (sf_blocks f)" "i \<in> set (sb_ops b)" using assms(2) by (auto simp: sf_ops_def)
  have "sf_block f a = Some b" using b(1) assms(1) by (simp add: sf_block_def ssa_form_def)
  then have "block_ops f a = sb_ops b" by (simp add: block_ops_def)
  then show ?thesis using b(2) that by (metis in_set_conv_nth)
qed

lemma copy_moves:
  assumes f: "ssa_form f" and g: "good_function f" and c: "copies_of f v = Some x" and s: "move_valid f s" "v \<in> move_writes f s"
  shows "x = OValue w \<Longrightarrow> w \<in> move_reads f s" and "env_ok q \<Longrightarrow> move_computes f u d s q q' \<Longrightarrow> q' v = opnd_val u q x"
proof -
  have at: "a = c \<and> k = l" if "k < length (block_ops f a)" "l < length (block_ops f c)"
      "so_out (block_ops f a ! k) = Some v" "so_out (block_ops f c ! l) = Some v" for a k c l
    using f that unfolding ssa_form_def by blast
  have "(x = OValue w \<longrightarrow> w \<in> move_reads f s) \<and> (env_ok q \<longrightarrow> move_computes f u d s q q' \<longrightarrow> q' v = opnd_val u q x)"
    using c
  proof (cases rule: copies_of_op)
    case (copy i)
    obtain a k where k: "k < length (block_ops f a)" "block_ops f a ! k = i" by (rule block_ops_at [OF f copy(1)])
    have "op_good i" using g copy(1) by (simp add: good_function_def list_all_iff)
    then have n: "so_size i = opnd_size x" using copy by (auto simp: op_good_def op_sized_def operand_size_def opnd_ok_def)
    show ?thesis
    proof (cases s)
      case (Op_move b l)
      then have "a = b \<and> k = l" using at [OF k(1)] k(2) s copy(2) by auto
      then show ?thesis
        using Op_move k(2) copy n opnd_val_small [of q u x]
        by (auto simp: op_computes_def op_ins_def alu_val_copy)
    next
      case (Edge_move b e j)
      then obtain p where p: "p \<in> set (block_phis f e)" "so_out p = Some v" using s(2) by auto
      then have "so_kind p = Phi" "p \<in> set (block_ops f e)" by (auto simp: block_phis_def dest: set_takeWhileD)
      then obtain l where "l < length (block_ops f e)" "block_ops f e ! l = p" by (auto simp: in_set_conv_nth)
      then have "i = p" using at [OF k(1)] k(2) copy(2) p(2) by metis
      then show ?thesis using copy(3) \<open>so_kind p = Phi\<close> by simp
    qed
  next
    case (phi i t)
    obtain a k where k: "k < length (block_ops f a)" "block_ops f a ! k = i" by (rule block_ops_at [OF f phi(1)])
    show ?thesis
    proof (cases s)
      case (Op_move b l)
      then have "a = b \<and> k = l" using at [OF k(1)] k(2) s phi(2) by auto
      then show ?thesis using Op_move s(1) k(2) phi(3) by simp
    next
      case (Edge_move b e j)
      then obtain p where p: "p \<in> set (block_phis f e)" "so_out p = Some v" using s(2) by auto
      then have "p \<in> set (block_ops f e)" by (auto simp: block_phis_def dest: set_takeWhileD)
      then obtain l where "l < length (block_ops f e)" "block_ops f e ! l = p" by (auto simp: in_set_conv_nth)
      then have p': "i = p" using at [OF k(1)] k(2) phi(2) p(2) by metis
      have j: "j < length (so_inputs i)" using f p(1) s(1) Edge_move unfolding p' ssa_form_def by simp
      then have "so_inputs i ! j = x" using phi(4,5) by (metis nth_mem set_ConsD)
      then show ?thesis using Edge_move p p' j by (auto simp: phi_takes_def)
    qed
  qed
  then show "x = OValue w \<Longrightarrow> w \<in> move_reads f s" and "env_ok q \<Longrightarrow> move_computes f u d s q q' \<Longrightarrow> q' v = opnd_val u q x"
    by blast+
qed

text \<open>So a copy that is available has the value of its source, along chains of copies too.\<close>

definition opnd_avail :: "ssa_function \<Rightarrow> addr \<times> nat \<Rightarrow> ssa_operand \<Rightarrow> bool" where
  "opnd_avail f p x \<longleftrightarrow> (\<forall>v. x = OValue v \<longrightarrow> runs.avail f p v)"

lemma copy_value:
  assumes f: "ssa_form f" and g: "good_function f" and c: "copies_of f v = Some x"
    and r: "ssa_run f u d ss p r" and v: "runs.avail f p v"
  shows "r v = opnd_val u r x \<and> opnd_avail f p x"
proof
  have mv: "w \<in> move_reads f s" if "x = OValue w" "move_valid f s" "v \<in> move_writes f s" for w s
    using copy_moves(1) [OF f g c that(2,3,1)] .
  show "opnd_avail f p x" using runs.avail_source [OF f v] mv by (auto simp: opnd_avail_def)
  have val: "r v = opnd_val u r x" if s: "ss = A @ t # B" "v \<in> move_writes f t" "\<forall>s\<in>set B. v \<notin> move_writes f s"
      and w: "\<And>w. x = OValue w \<Longrightarrow> w \<notin> move_writes f t \<and> (\<forall>s\<in>set B. w \<notin> move_writes f s)" for A t B
  proof -
    obtain q q' where q: "ssa_run f u d A (move_src f t) q" "move_valid f t" "\<forall>v. v \<notin> move_writes f t \<longrightarrow> q' v = q v"
        "move_computes f u d t q q'" "\<forall>v. (\<forall>s\<in>set B. v \<notin> move_writes f s) \<longrightarrow> r v = q' v"
      using run_split [OF r [unfolded s(1)]] by blast
    have "r v = opnd_val u q x" using q(5) s(3) copy_moves(2) [OF f g c q(2) s(2) run_env [OF q(1)] q(4)] by simp
    also have "\<dots> = opnd_val u r x" using w q(3,5) by (cases x) (simp_all add: opnd_val_def)
    finally show ?thesis .
  qed
  show "r v = opnd_val u r x"
  proof (cases x)
    case (OValue w)
    obtain A t B where "ss = A @ t # B" "v \<in> move_writes f t" "w \<notin> move_writes f t" "\<forall>s\<in>set B. v \<notin> move_writes f s \<and> w \<notin> move_writes f s"
      using runs.source_unchanged [OF f run_flow [OF r] v, of w] mv [OF OValue] by metis
    then show ?thesis using val OValue by blast
  next
    case const: (OConst n m)
    have "\<exists>t\<in>set ss. v \<in> move_writes f t" using v run_flow [OF r] by (auto simp: runs.avail_def written_def)
    from split_list_last_prop [OF this] obtain A t B where "ss = A @ t # B" "v \<in> move_writes f t" "\<forall>s\<in>set B. v \<notin> move_writes f s"
      by blast
    then show ?thesis using val const by blast
  next
    case undef: (OUndefined l)
    have "\<exists>t\<in>set ss. v \<in> move_writes f t" using v run_flow [OF r] by (auto simp: runs.avail_def written_def)
    from split_list_last_prop [OF this] obtain A t B where "ss = A @ t # B" "v \<in> move_writes f t" "\<forall>s\<in>set B. v \<notin> move_writes f s"
      by blast
    then show ?thesis using val undef by blast
  qed
qed

lemma resolve_value:
  assumes f: "ssa_form f" and g: "good_function f" and r: "ssa_run f u d ss p r" and x: "opnd_avail f p x"
  shows "opnd_val u r (resolve (copies_of f) x) = opnd_val u r x"
proof -
  have "opnd_val u r (resolve_loop k (copies_of f) x) = opnd_val u r x" if "opnd_avail f p x" for k x
    using that
  proof (induction k "copies_of f" x rule: resolve_loop.induct)
    case (2 k x)
    show ?case
    proof (cases "\<exists>v y. x = OValue v \<and> copies_of f v = Some y \<and> y \<noteq> x")
      case True
      then obtain v y where x: "x = OValue v" "copies_of f v = Some y" "y \<noteq> x" by blast
      have "r v = opnd_val u r y \<and> opnd_avail f p y"
        using copy_value [OF f g x(2) r] 2(2) x(1) by (simp add: opnd_avail_def)
      then show ?thesis using 2(1) [OF x(1,2,3)] x by (simp add: opnd_val_def)
    next
      case False
      then have "resolve_loop (Suc k) (copies_of f) x = x" by (auto split: ssa_operand.split option.split)
      then show ?thesis by simp
    qed
  qed simp
  then show ?thesis using x by (simp add: resolve_def)
qed

section \<open>Propagation changes no run\<close>

lemma propagate_ops: "sf_block (snd (propagate f)) a = map_option (\<lambda>b. b\<lparr>sb_ops := map (snd \<circ> propagate_op (copies_of f)) (sb_ops b)\<rparr>) (sf_block f a)"
  by (simp add: propagate_def Let_def sf_block_def map_block_ops_def map_of_map)

lemma propagate_kept [simp]:
  "so_kind (snd (propagate_op src i)) = so_kind i" "so_out (snd (propagate_op src i)) = so_out i" "so_size (snd (propagate_op src i)) = so_size i"
  "so_inputs (snd (propagate_op src i)) = map (resolve src) (so_inputs i)"
  by (simp_all add: propagate_op_def)

lemma block_ops_propagate: "block_ops (snd (propagate f)) a = map (snd \<circ> propagate_op (copies_of f)) (block_ops f a)"
  by (simp add: block_ops_def propagate_ops split: option.split)

lemma block_edges_propagate [simp]:
  "block_succs (snd (propagate f)) = block_succs f" "block_preds (snd (propagate f)) = block_preds f"
  by (rule ext, simp add: block_succs_def block_preds_def propagate_ops split: option.split)+

lemma block_phis_propagate: "block_phis (snd (propagate f)) a = map (snd \<circ> propagate_op (copies_of f)) (block_phis f a)"
  by (simp add: block_phis_def block_ops_propagate takeWhile_map comp_def)

lemma moves_propagate:
  "move_valid (snd (propagate f)) = move_valid f" "move_src (snd (propagate f)) = move_src f" "move_dst (snd (propagate f)) = move_dst f"
  "move_start (snd (propagate f)) = move_start f"
  "move_valid f s \<Longrightarrow> move_writes (snd (propagate f)) s = move_writes f s"
proof -
  show v: "move_valid (snd (propagate f)) = move_valid f"
  proof
    show "move_valid (snd (propagate f)) s = move_valid f s" for s by (cases s) (auto simp: block_ops_propagate)
  qed
  show "move_src (snd (propagate f)) = move_src f"
  proof
    show "move_src (snd (propagate f)) s = move_src f s" for s by (cases s) (auto simp: block_ops_propagate)
  qed
  show "move_dst (snd (propagate f)) = move_dst f"
  proof
    show "move_dst (snd (propagate f)) s = move_dst f s" for s by (cases s) (auto simp: block_phis_propagate)
  qed
  have "sf_entry (snd (propagate f)) = sf_entry f" by (simp add: propagate_def Let_def map_block_ops_def)
  then show "move_start (snd (propagate f)) = move_start f" by (simp add: move_start_def block_phis_propagate)
  show "move_writes (snd (propagate f)) s = move_writes f s" if "move_valid f s"
    using that by (cases s) (auto simp: block_ops_propagate block_phis_propagate)
qed

text \<open>At every point of a run an operation reads the same values as before, at the same sizes.\<close>

lemma block_op_good:
  assumes "good_function f" and "i \<in> set (block_ops f a)"
  shows "op_good i"
proof -
  obtain b where "sf_block f a = Some b" "i \<in> set (sb_ops b)"
    using assms(2) by (cases "sf_block f a") (simp_all add: block_ops_def)
  then have "i \<in> set (sf_ops f)" by (force simp: sf_ops_def sf_block_def dest: map_of_SomeD)
  then show ?thesis using assms(1) by (simp add: good_function_def list_all_iff)
qed

lemma propagate_ins:
  assumes f: "ssa_form f" and g: "good_function f" and r: "ssa_run f u d ss (a, k) r"
    and k: "k < length (block_ops f a)" "so_kind (block_ops f a ! k) \<noteq> Phi"
  shows "op_ins u r (block_ops (snd (propagate f)) a ! k) = op_ins u r (block_ops f a ! k)"
proof -
  have good: "op_good (block_ops f a ! k)" by (rule block_op_good [OF g nth_mem [OF k(1)]])
  have "opnd_val u r (resolve (copies_of f) x) = opnd_val u r x \<and> opnd_size (resolve (copies_of f) x) = opnd_size x"
    if x: "x \<in> set (so_inputs (block_ops f a ! k))" for x
  proof
    have "opnd_ok x" "opnd_size x \<le> 8" using good x by (auto simp: op_good_def op_sized_def op_narrow_def list_all_iff)
    then show "opnd_size (resolve (copies_of f) x) = opnd_size x" by (rule resolve_size [OF copies_of_good [OF g]])
    have "runs.avail f (a, k) v" if "x = OValue v" for v
      using runs.reads_avail [OF f, of "Op_move a k" v] k x that by simp
    then show "opnd_val u r (resolve (copies_of f) x) = opnd_val u r x"
      using resolve_value [OF f g r] by (simp add: opnd_avail_def)
  qed
  then show ?thesis using k(1) by (simp add: op_ins_def block_ops_propagate)
qed

lemma propagate_computes:
  assumes f: "ssa_form f" and g: "good_function f" and r: "ssa_run f u d ss (move_src f s) r" and s: "move_valid f s"
  shows "move_computes (snd (propagate f)) u d s r r' = move_computes f u d s r r'"
proof (cases s)
  case (Op_move a k)
  then have k: "k < length (block_ops f a)" "so_kind (block_ops f a ! k) \<noteq> Phi" using s by simp_all
  have "ssa_run f u d ss (a, k) r" using r Op_move by simp
  from propagate_ins [OF f g this k] show ?thesis
    using Op_move k(1) by (simp add: op_computes_def block_ops_propagate split: ssa_kind.split option.split)
next
  case (Edge_move a c j)
  have "phi_takes u j r r' (snd (propagate_op (copies_of f) i)) = phi_takes u j r r' i" if i: "i \<in> set (block_phis f c)" for i
  proof (cases "j < length (so_inputs i)")
    case True
    have "runs.avail f (move_src f s) v" if "so_inputs i ! j = OValue v" for v
      using runs.reads_avail [OF f s, of v] i True that Edge_move by auto
    then have "opnd_val u r (resolve (copies_of f) (so_inputs i ! j)) = opnd_val u r (so_inputs i ! j)"
      using resolve_value [OF f g r] by (simp add: opnd_avail_def)
    then show ?thesis using True by (simp add: phi_takes_def split: option.split)
  qed (simp add: phi_takes_def split: option.split)
  then show ?thesis using Edge_move by (simp add: block_phis_propagate)
qed

lemma propagate_runs:
  assumes f: "ssa_form f" and g: "good_function f"
  shows "ssa_run (snd (propagate f)) u d ss p r \<longleftrightarrow> ssa_run f u d ss p r"
proof (induction ss arbitrary: p r rule: rev_induct)
  case (snoc s ss)
  have "move_valid f s \<and> move_computes (snd (propagate f)) u d s q r \<longleftrightarrow> move_valid f s \<and> move_computes f u d s q r"
    if "ssa_run f u d ss (move_src f s) q" for q
    using propagate_computes [OF f g that] by blast
  then show ?case
    using snoc.IH moves_propagate(5) unfolding ssa_run_snoc moves_propagate(1-4) by (metis (no_types, lifting))
qed (simp add: moves_propagate)

section \<open>Common subexpressions change no run\<close>

text \<open>Inside a block control goes from operation to operation.\<close>

lemma flow_block:
  "ssa_flow f ss (a, k) \<Longrightarrow> length (block_phis f a) \<le> l \<Longrightarrow> l \<le> k \<Longrightarrow>
    \<exists>A. ss = A @ map (Op_move a) [l..<k] \<and> ssa_flow f A (a, l)"
proof (induction k arbitrary: ss)
  case (Suc k)
  show ?case
  proof (cases "l = Suc k")
    case False
    then have l: "l \<le> k" using Suc.prems(3) by simp
    obtain ss' s where ss: "ss = ss' @ [s]"
      using Suc.prems l by (cases ss rule: rev_cases) (simp_all add: move_start_def)
    then have s: "ssa_flow f ss' (move_src f s)" "move_dst f s = (a, Suc k)" using Suc.prems(1) by simp_all
    have "s = Op_move a k" using s(2) Suc.prems(2) l by (cases s) auto
    then show ?thesis using Suc.IH [OF _ Suc.prems(2) l] s(1) ss l by auto
  qed (use Suc.prems(1) in simp)
qed simp

lemma block_phis_le:
  assumes "k < length (block_ops f a)" and "so_kind (block_ops f a ! k) \<noteq> Phi"
  shows "length (block_phis f a) \<le> k"
proof (rule ccontr)
  assume "\<not> length (block_phis f a) \<le> k"
  then have "k < length (block_phis f a)" by simp
  then have "block_phis f a ! k \<in> set (block_phis f a)" and "block_phis f a ! k = block_ops f a ! k"
    using nth_mem by (blast, simp add: block_phis_def takeWhile_nth)
  then have "so_kind (block_ops f a ! k) = Phi" by (metis (full_types) block_phis_def set_takeWhileD)
  then show False using assms(2) by simp
qed

text \<open>What an operation reads is not written from there to the end of its block.\<close>

lemma read_not_written:
  assumes f: "ssa_form f" and A: "ssa_flow f A (a, k)" and k: "move_valid f (Op_move a k)" and z: "z \<in> move_reads f (Op_move a k)"
    and m: "k \<le> m" "move_valid f (Op_move a m)"
  shows "z \<notin> move_writes f (Op_move a m)"
proof
  assume w: "z \<in> move_writes f (Op_move a m)"
  have n: "length (block_phis f a) \<le> k" using block_phis_le k by simp
  have "\<exists>t\<in>set A. z \<in> move_writes f t" using runs.strict [OF f, of A "Op_move a k"] A k z by (auto simp: written_def)
  from split_list_first_prop [OF this] obtain B t C where t: "A = B @ t # C" "z \<in> move_writes f t" "\<forall>s\<in>set B. z \<notin> move_writes f s" by blast
  have v: "ssa_flow f B (move_src f t)" "move_valid f t" using flow_split(1,2) A t(1) by metis+
  have "move_dst f t = (a, Suc m)" using runs.site [OF f v(2) m(2) t(2) w] by simp
  then have t': "t = Op_move a m" using n m(1) by (cases t) auto
  then have "ssa_flow f B (a, m)" using v(1) by simp
  from flow_block [OF this n m(1)] obtain D where D: "B = D @ map (Op_move a) [k..<m]" "ssa_flow f D (a, k)" by blast
  have "z \<in> written (move_writes f) D" using runs.strict [OF f, of D "Op_move a k"] D(2) k z by auto
  then show False using t(3) D(1) by (auto simp: written_def)
qed

text \<open>So a computation of a block still has its value wherever the block repeats it.\<close>

lemma computed_value:
  assumes f: "ssa_form f" and r: "ssa_run f u d ss (a, k) r" and l: "l < k" "k \<le> length (block_ops f a)"
    and i: "block_ops f a ! l = i" "so_kind i = Ssa_op x" "pure_op x" "so_out i = Some w"
  shows "r w = alu_val d x (so_size i) (op_ins u r i)"
proof -
  have lv: "move_valid f (Op_move a l)" using l i by simp
  have n: "length (block_phis f a) \<le> l" using block_phis_le lv by simp
  obtain A where A: "ss = A @ map (Op_move a) [l..<k]" "ssa_flow f A (a, l)"
    using flow_block [OF run_flow [OF r] n] l(1) by auto
  then have ss: "ss = A @ Op_move a l # map (Op_move a) [Suc l..<k]" using l(1) by (simp add: upt_conv_Cons)
  obtain q q' where q: "\<forall>v. v \<notin> move_writes f (Op_move a l) \<longrightarrow> q' v = q v" "move_computes f u d (Op_move a l) q q'"
      "\<forall>v. (\<forall>t\<in>set (map (Op_move a) [Suc l..<k]). v \<notin> move_writes f t) \<longrightarrow> r v = q' v"
    using run_split [OF r [unfolded ss]] by blast
  have mv: "move_valid f (Op_move a m)" if m: "l \<le> m" "m < k" for m
  proof -
    have "Op_move a m \<in> set ss" using m by (auto simp: A(1))
    then obtain B C where "ss = B @ Op_move a m # C" using split_list by metis
    then show ?thesis using flow_split(2) run_flow [OF r] by metis
  qed
  have w: "w \<notin> move_writes f (Op_move a m)" if "l < m" "m < k" for m
  proof
    assume "w \<in> move_writes f (Op_move a m)"
    then have "move_dst f (Op_move a m) = move_dst f (Op_move a l)"
      using runs.site [OF f mv lv, of m w] that i by simp
    then show False using that(1) by simp
  qed
  have "r w = q' w" using q(3) w by auto
  also have "\<dots> = alu_val d x (so_size i) (op_ins u q i)" using q(2) i by (simp add: op_computes_def)
  also have "op_ins u q i = op_ins u r i"
  proof -
    have "r z = q z" if z: "OValue z \<in> set (so_inputs i)" for z
    proof -
      have "z \<notin> move_writes f (Op_move a m)" if "l \<le> m" "m < k" for m
        using read_not_written [OF f A(2) lv, of z m] mv that z i(1) by simp
      then show ?thesis using q(1,3) l(1) by auto
    qed
    then show ?thesis by (auto simp: op_ins_def opnd_val_def split: ssa_operand.split)
  qed
  finally show ?thesis .
qed

text \<open>What \<open>cse_ops\<close> puts at a position: the operation, or a copy of an earlier one that computes the same.\<close>

lemma cse_ops_length [simp]: "length (snd (cse_ops seen is)) = length is"
proof (induction "is" arbitrary: seen)
  case (Cons i "is")
  show ?case by (cases rule: cse_ops_step [of seen i "is"]) (simp_all add: Cons.IH del: cse_ops.simps)
qed simp

lemma cse_ops_nth:
  "k < length is \<Longrightarrow> snd (cse_ops seen is) ! k = is ! k \<or> (\<exists>x v w. so_kind (is ! k) = Ssa_op x \<and> pure_op x \<and> so_out (is ! k) = Some v
      \<and> (seen (x, so_inputs (is ! k), so_size (is ! k)) = Some w
        \<or> (\<exists>l<k. so_kind (is ! l) = Ssa_op x \<and> so_inputs (is ! l) = so_inputs (is ! k) \<and> so_size (is ! l) = so_size (is ! k) \<and> so_out (is ! l) = Some w))
      \<and> snd (cse_ops seen is) ! k = so_copy (OValue w) (is ! k))"
proof (induction "is" arbitrary: seen k)
  case (Cons i "is")
  show ?case
  proof (cases k)
    case 0
    show ?thesis by (cases rule: cse_ops_step [of seen i "is"]) (simp_all add: 0 del: cse_ops.simps)
  next
    case (Suc j)
    then have j: "j < length is" using Cons.prems by simp
    obtain seen' where s: "snd (cse_ops seen (i # is)) ! k = snd (cse_ops seen' is) ! j"
        "\<And>x ins n w. seen' (x, ins, n) = Some w \<Longrightarrow> seen (x, ins, n) = Some w
          \<or> so_kind i = Ssa_op x \<and> so_inputs i = ins \<and> so_size i = n \<and> so_out i = Some w"
    proof (cases rule: cse_ops_step [of seen i "is"])
      case keep
      then show ?thesis by (intro that [of seen]) (simp_all add: Suc del: cse_ops.simps)
    next
      case (copy x v w)
      then show ?thesis by (intro that [of seen]) (simp_all add: Suc del: cse_ops.simps)
    next
      case (new x v)
      then show ?thesis by (intro that [of "seen((x, so_inputs i, so_size i) \<mapsto> v)"]) (auto simp: Suc simp del: cse_ops.simps split: if_splits)
    qed
    from Cons.IH [OF j, of seen'] show ?thesis
    proof (elim disjE exE conjE)
      assume "snd (cse_ops seen' is) ! j = is ! j"
      then show ?thesis using s(1) Suc by simp
    next
      fix x v w
      assume x: "so_kind (is ! j) = Ssa_op x" "pure_op x" "so_out (is ! j) = Some v" "snd (cse_ops seen' is) ! j = so_copy (OValue w) (is ! j)"
        and seen: "seen' (x, so_inputs (is ! j), so_size (is ! j)) = Some w"
      from s(2) [OF seen] have "seen (x, so_inputs (is ! j), so_size (is ! j)) = Some w
          \<or> (\<exists>l<k. so_kind ((i # is) ! l) = Ssa_op x \<and> so_inputs ((i # is) ! l) = so_inputs (is ! j) \<and> so_size ((i # is) ! l) = so_size (is ! j)
              \<and> so_out ((i # is) ! l) = Some w)"
        by (metis Suc nth_Cons_0 zero_less_Suc)
      then show ?thesis using s(1) Suc x by (intro disjI2 exI [of _ x] exI [of _ v] exI [of _ w]) simp
    next
      fix x v w l
      assume x: "so_kind (is ! j) = Ssa_op x" "pure_op x" "so_out (is ! j) = Some v" "snd (cse_ops seen' is) ! j = so_copy (OValue w) (is ! j)"
        and l: "l < j" "so_kind (is ! l) = Ssa_op x" "so_inputs (is ! l) = so_inputs (is ! j)" "so_size (is ! l) = so_size (is ! j)" "so_out (is ! l) = Some w"
      have "\<exists>l<k. so_kind ((i # is) ! l) = Ssa_op x \<and> so_inputs ((i # is) ! l) = so_inputs (is ! j) \<and> so_size ((i # is) ! l) = so_size (is ! j)
              \<and> so_out ((i # is) ! l) = Some w"
        using l Suc by (intro exI [of _ "Suc l"]) simp
      then show ?thesis using s(1) Suc x by (intro disjI2 exI [of _ x] exI [of _ v] exI [of _ w]) simp
    qed
  qed
qed simp

lemma cse_block: "sf_block (snd (cse f)) a = map_option (\<lambda>b. b\<lparr>sb_ops := snd (cse_ops Map.empty (sb_ops b))\<rparr>) (sf_block f a)"
  by (simp add: cse_def sf_block_def map_block_ops_def map_of_map)

lemma block_ops_cse: "block_ops (snd (cse f)) a = snd (cse_ops Map.empty (block_ops f a))"
  by (simp add: block_ops_def cse_block split: option.split)

lemma block_edges_cse [simp]: "block_succs (snd (cse f)) = block_succs f" "block_preds (snd (cse f)) = block_preds f"
  by (rule ext, simp add: block_succs_def block_preds_def cse_block split: option.split)+

lemma cse_nth:
  assumes "k < length (block_ops f a)"
  obtains (same) "block_ops (snd (cse f)) a ! k = block_ops f a ! k"
  | (copy) x v w l where "so_kind (block_ops f a ! k) = Ssa_op x" "pure_op x" "so_out (block_ops f a ! k) = Some v" "l < k"
      "so_kind (block_ops f a ! l) = Ssa_op x" "so_inputs (block_ops f a ! l) = so_inputs (block_ops f a ! k)"
      "so_size (block_ops f a ! l) = so_size (block_ops f a ! k)" "so_out (block_ops f a ! l) = Some w"
      "block_ops (snd (cse f)) a ! k = so_copy (OValue w) (block_ops f a ! k)"
  using cse_ops_nth [OF assms, of Map.empty] that unfolding block_ops_cse by (elim disjE exE conjE) simp_all

lemma cse_kept:
  assumes "k < length (block_ops f a)"
  shows "so_out (block_ops (snd (cse f)) a ! k) = so_out (block_ops f a ! k)"
    and "so_kind (block_ops (snd (cse f)) a ! k) = Phi \<longleftrightarrow> so_kind (block_ops f a ! k) = Phi"
proof -
  have "so_out (block_ops (snd (cse f)) a ! k) = so_out (block_ops f a ! k)
      \<and> (so_kind (block_ops (snd (cse f)) a ! k) = Phi \<longleftrightarrow> so_kind (block_ops f a ! k) = Phi)"
    using assms
  proof (cases rule: cse_nth)
    case same
    show ?thesis unfolding same by simp
  next
    case (copy x v w l)
    show ?thesis unfolding copy(9) using copy(1) by (simp add: so_copy_def)
  qed
  then show "so_out (block_ops (snd (cse f)) a ! k) = so_out (block_ops f a ! k)"
    and "so_kind (block_ops (snd (cse f)) a ! k) = Phi \<longleftrightarrow> so_kind (block_ops f a ! k) = Phi" by simp_all
qed

lemma takeWhile_eq_nth:
  "length xs = length ys \<Longrightarrow> (\<And>k. k < length xs \<Longrightarrow> P (xs ! k) = P (ys ! k) \<and> (P (xs ! k) \<longrightarrow> xs ! k = ys ! k)) \<Longrightarrow> takeWhile P xs = takeWhile P ys"
proof (induction xs ys rule: list_induct2)
  case (Cons x xs y ys)
  have "takeWhile P xs = takeWhile P ys"
  proof (rule Cons.IH)
    fix k
    assume "k < length xs"
    then have "Suc k < length (x # xs)" by simp
    from Cons.prems [OF this] show "P (xs ! k) = P (ys ! k) \<and> (P (xs ! k) \<longrightarrow> xs ! k = ys ! k)"
      unfolding nth_Cons_Suc .
  qed
  moreover have "P x = P y \<and> (P x \<longrightarrow> x = y)"
  proof -
    have "0 < length (x # xs)" by simp
    from Cons.prems [OF this] show ?thesis unfolding nth_Cons_0 .
  qed
  ultimately show ?case by (metis takeWhile.simps(2))
qed simp

lemma block_phis_cse: "block_phis (snd (cse f)) = block_phis f"
proof
  fix a
  have len: "length (block_ops (snd (cse f)) a) = length (block_ops f a)" by (simp add: block_ops_cse)
  show "block_phis (snd (cse f)) a = block_phis f a"
    unfolding block_phis_def
  proof (rule takeWhile_eq_nth [OF len])
    fix k
    assume "k < length (block_ops (snd (cse f)) a)"
    then have k: "k < length (block_ops f a)" using len by simp
    show "(so_kind (block_ops (snd (cse f)) a ! k) = Phi) = (so_kind (block_ops f a ! k) = Phi)
        \<and> (so_kind (block_ops (snd (cse f)) a ! k) = Phi \<longrightarrow> block_ops (snd (cse f)) a ! k = block_ops f a ! k)"
      using k by (cases rule: cse_nth) (simp_all add: so_copy_def)
  qed
qed

lemma moves_cse:
  "move_valid (snd (cse f)) = move_valid f" "move_src (snd (cse f)) = move_src f" "move_dst (snd (cse f)) = move_dst f"
  "move_start (snd (cse f)) = move_start f"
  "move_valid f s \<Longrightarrow> move_writes (snd (cse f)) s = move_writes f s"
proof -
  have len: "length (block_ops (snd (cse f)) a) = length (block_ops f a)" for a by (simp add: block_ops_cse)
  show "move_valid (snd (cse f)) = move_valid f"
  proof
    show "move_valid (snd (cse f)) s = move_valid f s" for s by (cases s) (auto simp: len cse_kept)
  qed
  show "move_src (snd (cse f)) = move_src f"
  proof
    show "move_src (snd (cse f)) s = move_src f s" for s by (cases s) (auto simp: len)
  qed
  show "move_dst (snd (cse f)) = move_dst f"
  proof
    show "move_dst (snd (cse f)) s = move_dst f s" for s by (cases s) (auto simp: block_phis_cse)
  qed
  have "sf_entry (snd (cse f)) = sf_entry f" by (simp add: cse_def map_block_ops_def)
  then show "move_start (snd (cse f)) = move_start f" by (simp add: move_start_def block_phis_cse)
  show "move_writes (snd (cse f)) s = move_writes f s" if "move_valid f s"
    using that by (cases s) (auto simp: cse_kept block_phis_cse)
qed

lemma cse_computes:
  assumes f: "ssa_form f" and g: "good_function f" and r: "ssa_run f u d ss (move_src f s) r" and s: "move_valid f s"
  shows "move_computes (snd (cse f)) u d s r r' = move_computes f u d s r r'"
proof (cases s)
  case (Op_move a k)
  then have k: "k < length (block_ops f a)" using s by simp
  from k show ?thesis
  proof (cases rule: cse_nth)
    case same
    then show ?thesis using Op_move by simp
  next
    case (copy x v w l)
    have "r w = alu_val d x (so_size (block_ops f a ! l)) (op_ins u r (block_ops f a ! l))"
      using computed_value [OF f _ copy(4) _ refl copy(5,2,8), of u d ss r] r k Op_move by simp
    then have "r w = alu_val d x (so_size (block_ops f a ! k)) (op_ins u r (block_ops f a ! k))"
      using copy(6,7) by (simp add: op_ins_def)
    then show ?thesis
      using copy(1-3,9) Op_move by (simp add: op_computes_def so_copy_def op_ins_def alu_val_copy opnd_val_def)
  qed
qed (simp add: block_phis_cse)

lemma cse_runs:
  assumes f: "ssa_form f" and g: "good_function f"
  shows "ssa_run (snd (cse f)) u d ss p r \<longleftrightarrow> ssa_run f u d ss p r"
proof (induction ss arbitrary: p r rule: rev_induct)
  case (snoc s ss)
  have "move_valid f s \<and> move_computes (snd (cse f)) u d s q r \<longleftrightarrow> move_valid f s \<and> move_computes f u d s q r"
    if "ssa_run f u d ss (move_src f s) q" for q
    using cse_computes [OF f g that] by blast
  then show ?case
    using snoc.IH moves_cse(5) unfolding ssa_run_snoc moves_cse(1-4) by (metis (no_types, lifting))
qed (simp add: moves_cse)

end
