(* ===== verification/Ir_Abi.thy ===== *)
theory Ir_Abi
  imports Ir_Ssa
begin

text \<open>
  Calling conventions, \<open>crates/e5r-ir/src/abi.rs\<close>, with the register files' offsets of the lifters
  (\<open>lift/x86.rs\<close>, \<open>lift/arm.rs\<close>, \<open>lift/aarch64.rs\<close>).
\<close>

section \<open>Register files\<close>

definition x86_gpr :: "nat \<Rightarrow> u64" where "x86_gpr n = of_nat (n * 8)"
definition x86_vec :: "nat \<Rightarrow> u64" where "x86_vec n = of_nat (18 * 8 + n * 16)"
definition x86_sp :: u64 where "x86_sp = 4 * 8"

definition arm_gpr :: "nat \<Rightarrow> u64" where "arm_gpr n = of_nat (n mod 16 * 8)"
definition arm_vec :: "nat \<Rightarrow> u64" where "arm_vec n = of_nat (18 * 8 + n * 8)"
definition arm_sp :: u64 where "arm_sp = 13 * 8"

definition a64_gpr :: "nat \<Rightarrow> u64" where "a64_gpr n = of_nat (n * 8)"
definition a64_vec :: "nat \<Rightarrow> u64" where "a64_vec n = of_nat (34 * 8 + n * 16)"
definition a64_sp :: u64 where "a64_sp = 31 * 8"

section \<open>Conventions\<close>

datatype convention = SysV | Aapcs64 | Aapcs32 | Win64 | Cdecl | Stdcall | Fastcall | Thiscall | Vectorcall

fun convention_str :: "convention \<Rightarrow> string" where
  "convention_str SysV = ''sysv''"
| "convention_str Aapcs64 = ''aapcs64''"
| "convention_str Aapcs32 = ''aapcs32''"
| "convention_str Win64 = ''win64''"
| "convention_str Cdecl = ''cdecl''"
| "convention_str Stdcall = ''stdcall''"
| "convention_str Fastcall = ''fastcall''"
| "convention_str Thiscall = ''thiscall''"
| "convention_str Vectorcall = ''vectorcall''"

record abi =
  ab_name :: convention
  ab_integer_arguments :: "u64 list"
  ab_float_arguments :: "u64 list"
  ab_results :: "u64 list"
  ab_callee_saved :: "u64 list"
  ab_caller_saved :: "u64 list"
  ab_stack_pointer :: u64
  ab_vector_base :: u64
  ab_stack_argument_base :: int
  ab_return_address_bytes :: u64
  ab_callee_pops :: bool
  ab_this_register :: "u64 option"
  ab_indirect_result :: "u64 option"
  ab_varargs_count :: "u64 option"

definition sysv64 :: abi where
  "sysv64 = \<lparr>ab_name = SysV, ab_integer_arguments = map x86_gpr [7, 6, 2, 1, 8, 9], ab_float_arguments = map x86_vec [0..<8],
     ab_results = [x86_gpr 0, x86_gpr 2, x86_vec 0], ab_callee_saved = map x86_gpr [3, 5, 12, 13, 14, 15],
     ab_caller_saved = map x86_gpr [0, 1, 2, 6, 7, 8, 9, 10, 11], ab_stack_pointer = x86_sp, ab_vector_base = x86_vec 0,
     ab_stack_argument_base = 8, ab_return_address_bytes = 8, ab_callee_pops = False, ab_this_register = None,
     ab_indirect_result = None, ab_varargs_count = Some (x86_gpr 0)\<rparr>"

definition win64 :: abi where
  "win64 = \<lparr>ab_name = Win64, ab_integer_arguments = map x86_gpr [1, 2, 8, 9], ab_float_arguments = map x86_vec [0..<4],
     ab_results = [x86_gpr 0, x86_vec 0],
     ab_callee_saved = map x86_gpr [3, 5, 6, 7, 12, 13, 14, 15] @ map x86_vec [6..<16],
     ab_caller_saved = map x86_gpr [0, 1, 2, 8, 9, 10, 11] @ map x86_vec [0..<6], ab_stack_pointer = x86_sp,
     ab_vector_base = x86_vec 0, ab_stack_argument_base = 40, ab_return_address_bytes = 8, ab_callee_pops = False,
     ab_this_register = None, ab_indirect_result = None, ab_varargs_count = None\<rparr>"

definition aapcs32 :: abi where
  "aapcs32 = \<lparr>ab_name = Aapcs32, ab_integer_arguments = map arm_gpr [0..<4], ab_float_arguments = map arm_vec [0..<8],
     ab_results = [arm_gpr 0, arm_gpr 1, arm_vec 0], ab_callee_saved = map arm_gpr [4..<12],
     ab_caller_saved = map arm_gpr ([0..<4] @ [12]), ab_stack_pointer = arm_sp, ab_vector_base = arm_vec 0,
     ab_stack_argument_base = 0, ab_return_address_bytes = 0, ab_callee_pops = False, ab_this_register = None,
     ab_indirect_result = Some (arm_gpr 0), ab_varargs_count = None\<rparr>"

definition x86_32 :: "convention \<Rightarrow> abi" where
  "x86_32 name = \<lparr>ab_name = name,
     ab_integer_arguments = (if name = Fastcall \<or> name = Vectorcall then [x86_gpr 1, x86_gpr 2]
       else if name = Thiscall then [x86_gpr 1] else []),
     ab_float_arguments = (if name = Vectorcall then map x86_vec [0..<6] else []),
     ab_results = [x86_gpr 0, x86_gpr 2, x86_vec 0], ab_callee_saved = map x86_gpr [3, 5, 6, 7],
     ab_caller_saved = map x86_gpr [0, 1, 2], ab_stack_pointer = x86_sp, ab_vector_base = x86_vec 0,
     ab_stack_argument_base = 4, ab_return_address_bytes = 4, ab_callee_pops = (name \<noteq> Cdecl),
     ab_this_register = (if name = Thiscall then Some (x86_gpr 1) else None), ab_indirect_result = None,
     ab_varargs_count = None\<rparr>"

definition aapcs64 :: abi where
  "aapcs64 = \<lparr>ab_name = Aapcs64, ab_integer_arguments = map a64_gpr [0..<8], ab_float_arguments = map a64_vec [0..<8],
     ab_results = [a64_gpr 0, a64_gpr 1, a64_vec 0], ab_callee_saved = map a64_gpr [19..<30],
     ab_caller_saved = map a64_gpr [0..<19], ab_stack_pointer = a64_sp, ab_vector_base = a64_vec 0,
     ab_stack_argument_base = 0, ab_return_address_bytes = 0, ab_callee_pops = False, ab_this_register = None,
     ab_indirect_result = Some (a64_gpr 8), ab_varargs_count = None\<rparr>"

definition abi_of_named :: "arch \<Rightarrow> convention \<Rightarrow> abi" where
  "abi_of_named a name = (
     if name = Win64 then win64
     else if name = SysV \<and> a = X86_64 then sysv64
     else if name = Aapcs32 then aapcs32
     else if name \<in> {Cdecl, Stdcall, Fastcall, Thiscall, Vectorcall} then x86_32 name
     else aapcs64)"

definition abi_of :: "arch \<Rightarrow> abi" where
  "abi_of a = (case a of
     X86_64 \<Rightarrow> abi_of_named a SysV
   | X86 \<Rightarrow> abi_of_named a Cdecl
   | Arm \<Rightarrow> abi_of_named a Aapcs32
   | Thumb \<Rightarrow> abi_of_named a Aapcs32
   | _ \<Rightarrow> abi_of_named a Aapcs64)"

definition abi_of_container :: "arch \<Rightarrow> bool \<Rightarrow> abi" where
  "abi_of_container a windows = (if a = X86_64 \<and> windows then abi_of_named a Win64 else abi_of a)"

section \<open>Questions\<close>

definition register_location :: "u64 \<Rightarrow> location" where
  "register_location off = \<lparr>lc_space = Register_space, lc_offset = off, lc_size = 8\<rparr>"

definition live_at_return :: "abi \<Rightarrow> location list" where
  "live_at_return a = map register_location (ab_results a @ ab_callee_saved a) @ [register_location (ab_stack_pointer a)]"

datatype slot = Integer_slot nat | Float_slot nat

fun position :: "'a \<Rightarrow> 'a list \<Rightarrow> nat option" where
  "position x [] = None"
| "position x (y # ys) = (if y = x then Some 0 else map_option Suc (position x ys))"

definition abi_slot :: "abi \<Rightarrow> u64 \<Rightarrow> slot option" where
  "abi_slot a off = (case position off (ab_integer_arguments a) of
     Some n \<Rightarrow> Some (Integer_slot n)
   | None \<Rightarrow> map_option Float_slot (position off (ab_float_arguments a)))"

definition argument_name :: "abi \<Rightarrow> u64 \<Rightarrow> string option" where
  "argument_name a off = (case position off (ab_integer_arguments a) of
     Some n \<Rightarrow> Some (''arg'' @ show_nat n)
   | None \<Rightarrow> map_option (\<lambda>n. ''farg'' @ show_nat n) (position off (ab_float_arguments a)))"

definition passes_arguments_in :: "abi \<Rightarrow> u64 \<Rightarrow> bool" where
  "passes_arguments_in a off \<longleftrightarrow> abi_slot a off \<noteq> None"

definition abi_preserves :: "abi \<Rightarrow> u64 \<Rightarrow> bool" where
  "abi_preserves a off \<longleftrightarrow> off \<in> set (ab_callee_saved a) \<or> off = ab_stack_pointer a"

section \<open>The tables are consistent\<close>

lemma position_Some: "position x xs = Some n \<longleftrightarrow> n < length xs \<and> xs ! n = x \<and> x \<notin> set (take n xs)"
proof (induction xs arbitrary: n)
  case (Cons y ys)
  then show ?case by (cases n) auto
qed simp

lemma position_None: "position x xs = None \<longleftrightarrow> x \<notin> set xs"
  by (induction xs) auto

definition abi_consistent :: "abi \<Rightarrow> bool" where
  "abi_consistent a \<longleftrightarrow> distinct (ab_integer_arguments a @ ab_float_arguments a)
     \<and> list_all (\<lambda>off. \<not> abi_preserves a off) (ab_integer_arguments a @ ab_float_arguments a @ ab_results a @ ab_caller_saved a)
     \<and> list_all (\<lambda>off. off \<in> set (ab_caller_saved a)) (ab_integer_arguments a)
     \<and> distinct (ab_callee_saved a) \<and> distinct (ab_caller_saved a)"

lemmas register_defs = x86_gpr_def x86_vec_def x86_sp_def arm_gpr_def arm_vec_def arm_sp_def a64_gpr_def a64_vec_def a64_sp_def

lemma x86_32_consistent: "abi_consistent (x86_32 name)"
  by (simp add: abi_consistent_def abi_preserves_def x86_32_def register_defs upt_rec)

lemma sysv64_consistent: "abi_consistent sysv64"
  by (simp add: abi_consistent_def abi_preserves_def sysv64_def register_defs upt_rec)

lemma win64_consistent: "abi_consistent win64"
  by (simp add: abi_consistent_def abi_preserves_def win64_def register_defs upt_rec)

lemma aapcs32_consistent: "abi_consistent aapcs32"
  by (simp add: abi_consistent_def abi_preserves_def aapcs32_def register_defs upt_rec)

lemma aapcs64_consistent: "abi_consistent aapcs64"
  by (simp add: abi_consistent_def abi_preserves_def aapcs64_def register_defs upt_rec)

lemma abi_of_named_consistent: "abi_consistent (abi_of_named a name)"
  by (simp add: abi_of_named_def x86_32_consistent sysv64_consistent win64_consistent aapcs32_consistent aapcs64_consistent)

end
