(* ===== verification/Ir_Dead.thy ===== *)
theory Ir_Dead
  imports Ir_Abi Ir_Fold
begin

text \<open>
  \<open>remove_dead\<close> of \<open>crates/e5r-ir/src/opt.rs\<close>: the values that something reads or the caller sees are the
  closure of the seeds under "is read to compute", and the operations that define no such value and have
  no effect go.
\<close>

section \<open>The seeds\<close>

definition outputs :: "ssa_op list \<Rightarrow> ssa_value list" where
  "outputs ops = List.map_filter so_out ops"

lemma set_map_filter: "y \<in> set (List.map_filter g xs) \<longleftrightarrow> (\<exists>x\<in>set xs. g x = Some y)"
  by (induction xs) (auto simp: List.map_filter_simps split: option.split)

text \<open>\<open>max_by_key\<close>: the last of those with the greatest version.\<close>

definition max_version :: "ssa_value list \<Rightarrow> ssa_value option" where
  "max_version vs = fold (\<lambda>v m. case m of
     None \<Rightarrow> Some v
   | Some w \<Rightarrow> if sv_version w \<le> sv_version v then Some v else Some w) vs None"

definition last_definition :: "ssa_function \<Rightarrow> ssa_block \<Rightarrow> location \<Rightarrow> nat \<Rightarrow> ssa_value option" where
  "last_definition f b l before = (case find (\<lambda>v. sv_location v = l) (rev (outputs (take before (sb_ops b)))) of
     Some v \<Rightarrow> Some v
   | None \<Rightarrow> max_version (filter (\<lambda>v. sv_location v = l) (outputs (sf_ops f))))"

definition has_effect :: "ssa_op \<Rightarrow> bool" where
  "has_effect i \<longleftrightarrow> (case so_kind i of
     Phi \<Rightarrow> False
   | Ssa_op x \<Rightarrow> x \<in> {Store, Branch, CBranch, BranchInd, Call, CallInd, Return, Unimplemented})"

definition argument_locations :: "abi \<Rightarrow> location list" where
  "argument_locations a = map register_location (ab_integer_arguments a @ ab_float_arguments a)"

text \<open>A branch that leaves the function.\<close>

definition tail_call :: "ssa_function \<Rightarrow> ssa_op \<Rightarrow> bool" where
  "tail_call f i \<longleftrightarrow> (case so_kind i of
     Phi \<Rightarrow> False
   | Ssa_op x \<Rightarrow>
       if x = Branch then (case Option.bind (nth_in (so_inputs i) 0) as_const of
           None \<Rightarrow> False
         | Some t \<Rightarrow> sf_block f t = None)
       else x = BranchInd)"

definition is_call_op :: "ssa_op \<Rightarrow> bool" where
  "is_call_op i \<longleftrightarrow> so_kind i = Ssa_op Call \<or> so_kind i = Ssa_op CallInd"

definition return_seeds :: "ssa_function \<Rightarrow> ssa_block \<Rightarrow> ssa_value list" where
  "return_seeds f b = (if list_ex (\<lambda>i. so_kind i = Ssa_op Return) (sb_ops b)
     then List.map_filter (\<lambda>l. last_definition f b l (length (sb_ops b))) (live_at_return (abi_of (sf_arch f))) else [])"

definition call_seeds :: "ssa_function \<Rightarrow> ssa_block \<Rightarrow> ssa_value list" where
  "call_seeds f b = concat (map (\<lambda>(n, i).
     if is_call_op i \<or> tail_call f i
     then List.map_filter (\<lambda>l. last_definition f b l n) (argument_locations (abi_of (sf_arch f))) else [])
   (List.enumerate 0 (sb_ops b)))"

definition read_values :: "ssa_op \<Rightarrow> ssa_value list" where
  "read_values i = List.map_filter as_value (so_inputs i)"

definition effect_seeds :: "ssa_block \<Rightarrow> ssa_value list" where
  "effect_seeds b = concat (map read_values (filter has_effect (sb_ops b)))"

definition seeds :: "ssa_function \<Rightarrow> ssa_value list" where
  "seeds f = concat (map (\<lambda>(_, b). return_seeds f b) (sf_blocks f)) @ concat (map (\<lambda>(_, b). call_seeds f b) (sf_blocks f))
     @ concat (map (\<lambda>(_, b). effect_seeds b) (sf_blocks f))"

section \<open>The work list\<close>

definition add_live :: "ssa_value \<Rightarrow> ssa_value set \<times> ssa_value list \<Rightarrow> ssa_value set \<times> ssa_value list" where
  "add_live v = (\<lambda>(live, work). if v \<in> live then (live, work) else (insert v live, v # work))"

lemma add_live_pair: "add_live v (live, work) = (if v \<in> live then (live, work) else (insert v live, v # work))"
  by (simp add: add_live_def)

definition defining_op :: "ssa_function \<Rightarrow> ssa_value \<Rightarrow> ssa_op option" where
  "defining_op f v = do {
     (a, n) \<leftarrow> sf_definitions f v;
     b \<leftarrow> sf_block f a;
     nth_in (sb_ops b) n }"

definition all_reads :: "ssa_function \<Rightarrow> ssa_value set" where
  "all_reads f = (\<Union>i\<in>set (sf_ops f). set (read_values i))"

lemma defining_op_in: "defining_op f v = Some i \<Longrightarrow> i \<in> set (sf_ops f)"
  by (force simp: defining_op_def sf_ops_def sf_block_def split: bind_splits dest: map_of_SomeD nth_in_set)

lemma fold_add_live:
  "fold add_live vs (live, work) = (live', work') \<Longrightarrow>
    live' = live \<union> set vs \<and> set work' = set work \<union> (set vs - live) \<and> (finite live \<longrightarrow> card live' + length work = card live + length work')"
proof (induction vs arbitrary: live work)
  case (Cons v vs)
  show ?case
  proof (cases "v \<in> live")
    case True
    then have "fold add_live vs (live, work) = (live', work')" using Cons.prems by (simp add: add_live_pair)
    from Cons.IH [OF this] show ?thesis using True by auto
  next
    case False
    then have "fold add_live vs (insert v live, v # work) = (live', work')" using Cons.prems by (simp add: add_live_pair)
    from Cons.IH [OF this] show ?thesis using False by auto
  qed
qed simp

lemma fold_add_live_work:
  "fold add_live vs (live, work) = (live', work') \<Longrightarrow> set vs \<subseteq> U \<Longrightarrow> finite U \<Longrightarrow>
    card (U - live') + length work' = card (U - live) + length work"
proof (induction vs arbitrary: live work)
  case (Cons v vs)
  show ?case
  proof (cases "v \<in> live")
    case True
    then have "fold add_live vs (live, work) = (live', work')" using Cons.prems by (simp add: add_live_pair)
    from Cons.IH [OF this] show ?thesis using Cons.prems by simp
  next
    case False
    then have "fold add_live vs (insert v live, v # work) = (live', work')" using Cons.prems by (simp add: add_live_pair)
    from Cons.IH [OF this] have "card (U - live') + length work' = card (U - insert v live) + Suc (length work)"
      using Cons.prems by simp
    moreover have "card (U - live) = Suc (card (U - insert v live))"
      using False Cons.prems(2,3) by (metis DiffI Diff_insert card_Suc_Diff1 finite_Diff list.set_intros(1) subset_iff)
    ultimately show ?thesis by simp
  qed
qed simp

function live_loop :: "ssa_function \<Rightarrow> ssa_value set \<Rightarrow> ssa_value list \<Rightarrow> ssa_value set" where
  "live_loop f live [] = live"
| "live_loop f live (v # work) = (case defining_op f v of
     None \<Rightarrow> live_loop f live work
   | Some i \<Rightarrow> (case fold add_live (read_values i) (live, work) of (live, work) \<Rightarrow> live_loop f live work))"
  by pat_completeness auto

termination
proof (relation "measure (\<lambda>(f, live, work). card (all_reads f - live) + length work)")
  fix f live v work i live' work'
  assume i: "defining_op f v = Some i" and p: "(live', work') = fold add_live (read_values i) (live, work)"
  have "set (read_values i) \<subseteq> all_reads f" using defining_op_in [OF i] by (auto simp: all_reads_def)
  moreover have "finite (all_reads f)" by (simp add: all_reads_def)
  ultimately have "card (all_reads f - live') + length work' = card (all_reads f - live) + length work"
    using fold_add_live_work [OF p [symmetric]] by blast
  then show "((f, live', work'), f, live, v # work) \<in> measure (\<lambda>(f, live, work). card (all_reads f - live) + length work)"
    by simp
qed simp_all

definition live_values :: "ssa_function \<Rightarrow> ssa_value set" where
  "live_values f = (case fold add_live (seeds f) ({}, []) of (live, work) \<Rightarrow> live_loop f live work)"

definition kept :: "ssa_value set \<Rightarrow> ssa_op \<Rightarrow> bool" where
  "kept live i \<longleftrightarrow> (case so_out i of Some v \<Rightarrow> has_effect i \<or> v \<in> live | None \<Rightarrow> True)"

definition remove_dead :: "ssa_function \<Rightarrow> changes \<times> ssa_function" where
  "remove_dead f = (let live = live_values f in
     (no_changes\<lparr>ch_removed := length (filter (\<lambda>i. \<not> kept live i) (sf_ops f))\<rparr>, map_block_ops (filter (kept live)) f))"

section \<open>The live values are a closure\<close>

definition reads_rel :: "ssa_function \<Rightarrow> (ssa_value \<times> ssa_value) set" where
  "reads_rel f = {(v, w). \<exists>i. defining_op f v = Some i \<and> w \<in> set (read_values i)}"

lemma live_loop_closure:
  assumes "set work \<subseteq> live" and "\<forall>v\<in>live - set work. \<forall>w. (v, w) \<in> reads_rel f \<longrightarrow> w \<in> live"
  shows "live \<subseteq> live_loop f live work \<and> (\<forall>v\<in>live_loop f live work. \<forall>w. (v, w) \<in> reads_rel f \<longrightarrow> w \<in> live_loop f live work)
    \<and> live_loop f live work \<subseteq> (reads_rel f)\<^sup>* `` live"
  using assms
proof (induction f live work rule: live_loop.induct)
  case (1 f live)
  then show ?case by auto
next
  case (2 f live v work)
  show ?case
  proof (cases "defining_op f v")
    case None
    then have "\<forall>w. (v, w) \<notin> reads_rel f" by (simp add: reads_rel_def)
    then have "\<forall>x\<in>live - set work. \<forall>w. (x, w) \<in> reads_rel f \<longrightarrow> w \<in> live" using 2(4) by (metis DiffD1 DiffD2 DiffI set_ConsD)
    then show ?thesis using None 2(1) [OF None] 2(3) by simp
  next
    case (Some i)
    obtain live' work' where p: "fold add_live (read_values i) (live, work) = (live', work')" by fastforce
    note q = fold_add_live [OF p]
    have r: "(v, w) \<in> reads_rel f \<longleftrightarrow> w \<in> set (read_values i)" for w using Some by (simp add: reads_rel_def)
    have "set work' \<subseteq> live'" using q 2(3) by auto
    moreover have "\<forall>x\<in>live' - set work'. \<forall>w. (x, w) \<in> reads_rel f \<longrightarrow> w \<in> live'"
    proof (intro ballI allI impI)
      fix x w
      assume x: "x \<in> live' - set work'" and w: "(x, w) \<in> reads_rel f"
      then have "x \<in> live" "x \<notin> set work" using q by blast+
      then have "x = v \<or> x \<in> live - set (v # work)" by simp
      then have "w \<in> set (read_values i) \<or> w \<in> live" using 2(4) w r by blast
      then show "w \<in> live'" using q by blast
    qed
    ultimately have IH: "live' \<subseteq> live_loop f live' work'
        \<and> (\<forall>v\<in>live_loop f live' work'. \<forall>w. (v, w) \<in> reads_rel f \<longrightarrow> w \<in> live_loop f live' work')
        \<and> live_loop f live' work' \<subseteq> (reads_rel f)\<^sup>* `` live'"
      by (rule 2(2) [OF Some p [symmetric]])
    have "v \<in> live" using 2(3) by simp
    then have "live' \<subseteq> (reads_rel f)\<^sup>* `` live" using q r by blast
    then have "(reads_rel f)\<^sup>* `` live' \<subseteq> (reads_rel f)\<^sup>* `` live" by (blast intro: rtrancl_trans)
    moreover have "live_loop f live (v # work) = live_loop f live' work'" using Some p by simp
    moreover have "live \<subseteq> live'" using q by blast
    ultimately show ?thesis using IH by (metis (no_types, lifting) subset_trans)
  qed
qed

lemma live_values_closure: "live_values f = (reads_rel f)\<^sup>* `` set (seeds f)"
proof -
  obtain live work where p: "fold add_live (seeds f) ({}, []) = (live, work)" by fastforce
  have q: "live = set (seeds f)" "set work = set (seeds f)" using fold_add_live [OF p] by auto
  define L where "L = live_loop f live work"
  have L: "live \<subseteq> L" "\<forall>v\<in>L. \<forall>w. (v, w) \<in> reads_rel f \<longrightarrow> w \<in> L" "L \<subseteq> (reads_rel f)\<^sup>* `` live"
    using live_loop_closure [of work live f] q by (simp_all add: L_def)
  have "w \<in> L" if "(v, w) \<in> (reads_rel f)\<^sup>*" "v \<in> L" for v w using that by induction (use L(2) in blast)+
  then have "L = (reads_rel f)\<^sup>* `` live" using L(1,3) by blast
  then show ?thesis using p q by (simp add: live_values_def L_def)
qed

lemma seed_live: "v \<in> set (seeds f) \<Longrightarrow> v \<in> live_values f"
  by (auto simp: live_values_closure)

lemma live_reads: "v \<in> live_values f \<Longrightarrow> defining_op f v = Some i \<Longrightarrow> w \<in> set (read_values i) \<Longrightarrow> w \<in> live_values f"
proof -
  assume v: "v \<in> live_values f" and i: "defining_op f v = Some i" "w \<in> set (read_values i)"
  then obtain s where s: "s \<in> set (seeds f)" "(s, v) \<in> (reads_rel f)\<^sup>*" by (auto simp: live_values_closure)
  have "(v, w) \<in> reads_rel f" using i by (auto simp: reads_rel_def)
  with s(2) have "(s, w) \<in> (reads_rel f)\<^sup>*" by (rule rtrancl_into_rtrancl)
  then show "w \<in> live_values f" using s(1) by (auto simp: live_values_closure)
qed

section \<open>What stays\<close>

lemma sf_ops_remove_dead: "sf_ops (snd (remove_dead f)) = filter (kept (live_values f)) (sf_ops f)"
  by (simp add: remove_dead_def Let_def sf_ops_map_block) (simp add: sf_ops_def filter_concat split_def comp_def)

lemma remove_dead_count: "ch_removed (fst (remove_dead f)) + op_count (snd (remove_dead f)) = op_count f"
proof -
  have c: "op_count g = length (sf_ops g)" for g by (simp add: op_count_def sf_ops_def length_concat split_def comp_def)
  have "length (filter (\<lambda>i. \<not> P i) xs) + length (filter P xs) = length xs" for P :: "ssa_op \<Rightarrow> bool" and xs
    by (induction xs) auto
  then show ?thesis by (simp add: c sf_ops_remove_dead) (simp add: remove_dead_def Let_def)
qed

text \<open>In single assignment form every value has one definition, which \<open>sf_definitions\<close> finds; an address has
  one block.\<close>

definition single_assignment :: "ssa_function \<Rightarrow> bool" where
  "single_assignment f \<longleftrightarrow> distinct (map fst (sf_blocks f)) \<and> (\<forall>i\<in>set (sf_ops f). \<forall>v. so_out i = Some v \<longrightarrow> defining_op f v = Some i)"

lemma as_value_Some: "as_value x = Some v \<longleftrightarrow> x = OValue v"
  by (cases x) (simp_all add: as_value_def)

lemma read_values_iff: "w \<in> set (read_values i) \<longleftrightarrow> OValue w \<in> set (so_inputs i)"
  by (simp add: read_values_def set_map_filter as_value_Some)

lemma effect_live:
  assumes "i \<in> set (sf_ops f)" and "has_effect i" and "w \<in> set (read_values i)"
  shows "w \<in> live_values f"
proof -
  obtain a b where "(a, b) \<in> set (sf_blocks f)" "i \<in> set (sb_ops b)" using assms(1) by (auto simp: sf_ops_def)
  then have "w \<in> set (seeds f)" using assms(2,3) by (force simp: seeds_def effect_seeds_def)
  then show ?thesis by (rule seed_live)
qed

text \<open>What an operation that stays reads stays defined, when it defines a value or has an effect.\<close>

lemma kept_reads_live:
  assumes f: "single_assignment f" and i: "i \<in> set (sf_ops f)" "kept (live_values f) i" and out: "so_out i \<noteq> None \<or> has_effect i"
    and w: "OValue w \<in> set (so_inputs i)"
  shows "w \<in> live_values f"
proof (cases "has_effect i")
  case True
  then show ?thesis using effect_live [OF i(1)] w by (simp add: read_values_iff)
next
  case False
  then obtain v where v: "so_out i = Some v" "v \<in> live_values f" using i(2) out by (auto simp: kept_def)
  then have "defining_op f v = Some i" using f i(1) by (simp add: single_assignment_def)
  then show ?thesis using live_reads v(2) w by (simp add: read_values_iff)
qed

lemma live_kept: "v \<in> live_values f \<Longrightarrow> so_out i = Some v \<Longrightarrow> kept (live_values f) i"
  by (simp add: kept_def)

lemma return_live:
  assumes "(a, b) \<in> set (sf_blocks f)" and "list_ex (\<lambda>i. so_kind i = Ssa_op Return) (sb_ops b)"
    and "l \<in> set (live_at_return (abi_of (sf_arch f)))" and "last_definition f b l (length (sb_ops b)) = Some v"
  shows "v \<in> live_values f"
proof (rule seed_live)
  have "v \<in> set (return_seeds f b)" using assms(2-4) by (auto simp: return_seeds_def set_map_filter)
  then show "v \<in> set (seeds f)" using assms(1) by (force simp: seeds_def)
qed

section \<open>What has to stay, said without the work list\<close>

text \<open>An operation is observed when it writes memory or moves control. A call passes arguments in registers
  that its operands do not name, and so does a branch out of the function: to a register, or to an
  address that is not one of its blocks.\<close>

definition observed :: "ssa_op \<Rightarrow> bool" where
  "observed i \<longleftrightarrow> so_kind i \<in> Ssa_op ` {Store, Branch, CBranch, BranchInd, Call, CallInd, Return, Unimplemented}"

definition passes_arguments :: "ssa_function \<Rightarrow> ssa_op \<Rightarrow> bool" where
  "passes_arguments f i \<longleftrightarrow> so_kind i \<in> {Ssa_op Call, Ssa_op CallInd, Ssa_op BranchInd}
     \<or> so_kind i = Ssa_op Branch \<and> (\<exists>t n rest. so_inputs i = OConst t n # rest \<and> t \<notin> fst ` set (sf_blocks f))"

text \<open>A value is needed when an observed operation reads it, when a register that the caller reads after a
  return holds it, when an argument register holds it where arguments are passed, or when it is read to
  compute a needed value.\<close>

inductive needed :: "ssa_function \<Rightarrow> ssa_value \<Rightarrow> bool" for f where
  needed_operand: "i \<in> set (sf_ops f) \<Longrightarrow> observed i \<Longrightarrow> OValue w \<in> set (so_inputs i) \<Longrightarrow> needed f w"
| needed_result: "(a, b) \<in> set (sf_blocks f) \<Longrightarrow> i \<in> set (sb_ops b) \<Longrightarrow> so_kind i = Ssa_op Return \<Longrightarrow>
    l \<in> set (live_at_return (abi_of (sf_arch f))) \<Longrightarrow> last_definition f b l (length (sb_ops b)) = Some v \<Longrightarrow> needed f v"
| needed_argument: "(a, b) \<in> set (sf_blocks f) \<Longrightarrow> n < length (sb_ops b) \<Longrightarrow> passes_arguments f (sb_ops b ! n) \<Longrightarrow>
    off \<in> set (ab_integer_arguments (abi_of (sf_arch f))) \<union> set (ab_float_arguments (abi_of (sf_arch f))) \<Longrightarrow>
    last_definition f b \<lparr>lc_space = Register_space, lc_offset = off, lc_size = 8\<rparr> n = Some v \<Longrightarrow> needed f v"
| needed_read: "needed f v \<Longrightarrow> i \<in> set (sf_ops f) \<Longrightarrow> so_out i = Some v \<Longrightarrow> OValue w \<in> set (so_inputs i) \<Longrightarrow> needed f w"

lemma has_effect_observed: "has_effect i = observed i"
  by (auto simp: has_effect_def observed_def split: ssa_kind.splits)

lemma passes_arguments_iff: "is_call_op i \<or> tail_call f i \<longleftrightarrow> passes_arguments f i"
proof -
  have b: "sf_block f t = None \<longleftrightarrow> t \<notin> fst ` set (sf_blocks f)" for t by (simp add: sf_block_def map_of_eq_None_iff)
  show ?thesis
    by (cases "so_kind i"; cases "so_inputs i")
      (auto simp: passes_arguments_def is_call_op_def tail_call_def nth_in_def b as_const_def split: ssa_operand.splits option.splits)
qed

lemma in_enumerate: "(n, i) \<in> set (List.enumerate 0 xs) \<longleftrightarrow> n < length xs \<and> xs ! n = i"
  by (auto simp: in_set_enumerate_eq)

lemma argument_location_iff:
  "l \<in> set (argument_locations a) \<longleftrightarrow> (\<exists>off\<in>set (ab_integer_arguments a) \<union> set (ab_float_arguments a).
     l = \<lparr>lc_space = Register_space, lc_offset = off, lc_size = 8\<rparr>)"
  by (auto simp: argument_locations_def register_location_def)

lemma seeds_needed: "v \<in> set (seeds f) \<Longrightarrow> needed f v"
proof -
  assume "v \<in> set (seeds f)"
  then obtain a b where b: "(a, b) \<in> set (sf_blocks f)"
      "v \<in> set (return_seeds f b) \<or> v \<in> set (call_seeds f b) \<or> v \<in> set (effect_seeds b)"
    by (auto simp: seeds_def)
  have ops: "i \<in> set (sf_ops f)" if "i \<in> set (sb_ops b)" for i using b(1) that by (force simp: sf_ops_def)
  show ?thesis using b(2)
  proof (elim disjE)
    assume "v \<in> set (return_seeds f b)"
    then show ?thesis using needed_result [OF b(1)] by (auto simp: return_seeds_def set_map_filter list_ex_iff split: if_splits)
  next
    assume "v \<in> set (call_seeds f b)"
    then obtain n i l where "n < length (sb_ops b)" "sb_ops b ! n = i" "passes_arguments f i"
        "l \<in> set (argument_locations (abi_of (sf_arch f)))" "last_definition f b l n = Some v"
      unfolding call_seeds_def passes_arguments_iff by (auto simp: in_enumerate set_map_filter split: if_splits)
    then show ?thesis using needed_argument [OF b(1)] unfolding argument_location_iff by blast
  next
    assume "v \<in> set (effect_seeds b)"
    then show ?thesis using needed_operand ops by (auto simp: effect_seeds_def has_effect_observed read_values_iff)
  qed
qed

lemma block_definitions_out:
  "block_definitions a n is d v = Some p \<Longrightarrow> d v = Some p \<or> (\<exists>k<length is. p = (a, n + k) \<and> so_out (is ! k) = Some v)"
proof (induction "is" arbitrary: n d)
  case (Cons i "is")
  then have "block_definitions a (n + 1) is (case so_out i of None \<Rightarrow> d | Some v \<Rightarrow> d(v \<mapsto> (a, n))) v = Some p" by simp
  from Cons.IH [OF this] show ?case
  proof (elim disjE exE conjE)
    assume "(case so_out i of None \<Rightarrow> d | Some v \<Rightarrow> d(v \<mapsto> (a, n))) v = Some p"
    then have "d v = Some p \<or> p = (a, n) \<and> so_out i = Some v" by (auto split: option.splits if_splits)
    then show ?thesis by (metis add.right_neutral length_greater_0_conv list.distinct(1) nth_Cons_0)
  next
    fix k assume "k < length is" "p = (a, n + 1 + k)" "so_out (is ! k) = Some v"
    then show ?thesis by (intro disjI2 exI [of _ "Suc k"]) simp
  qed
qed simp

lemma fold_definitions_out:
  "fold (\<lambda>(a, b) d. block_definitions a 0 (sb_ops b) d) bs d v = Some (a, n) \<Longrightarrow>
    d v = Some (a, n) \<or> (\<exists>b. (a, b) \<in> set bs \<and> n < length (sb_ops b) \<and> so_out (sb_ops b ! n) = Some v)"
proof (induction bs arbitrary: d)
  case (Cons x bs)
  obtain c b where x: "x = (c, b)" by (cases x)
  from Cons.prems have "fold (\<lambda>(a, b) d. block_definitions a 0 (sb_ops b) d) bs (block_definitions c 0 (sb_ops b) d) v = Some (a, n)"
    by (simp add: x)
  from Cons.IH [OF this] show ?case using block_definitions_out [of c 0 "sb_ops b" d v "(a, n)"] by (auto simp: x)
qed simp

lemma defining_op_out:
  assumes "single_assignment f" and "defining_op f v = Some i"
  shows "so_out i = Some v"
proof -
  obtain a n b where d: "sf_definitions f v = Some (a, n)" "sf_block f a = Some b" "nth_in (sb_ops b) n = Some i"
    using assms(2) by (auto simp: defining_op_def split: bind_splits)
  obtain c where c: "(a, c) \<in> set (sf_blocks f)" "so_out (sb_ops c ! n) = Some v"
    using fold_definitions_out [OF d(1) [unfolded sf_definitions_def]] by auto
  have "c = b" using c(1) d(2) assms(1) by (simp add: sf_block_def single_assignment_def map_of_is_SomeI)
  then show ?thesis using c(2) d(3) by (auto simp: nth_in_def split: if_splits)
qed

lemma call_live:
  assumes "(a, b) \<in> set (sf_blocks f)" "n < length (sb_ops b)" "passes_arguments f (sb_ops b ! n)"
    "l \<in> set (argument_locations (abi_of (sf_arch f)))" "last_definition f b l n = Some v"
  shows "v \<in> live_values f"
proof (rule seed_live)
  have "(n, sb_ops b ! n) \<in> set (List.enumerate 0 (sb_ops b))" using assms(2) by (simp add: in_enumerate)
  then have "v \<in> set (call_seeds f b)" using assms(3-5) unfolding call_seeds_def passes_arguments_iff by (force simp: set_map_filter)
  then show "v \<in> set (seeds f)" using assms(1) by (force simp: seeds_def)
qed

text \<open>The live values are the needed ones.\<close>

lemma live_needed:
  assumes f: "single_assignment f"
  shows "v \<in> live_values f \<longleftrightarrow> needed f v"
proof
  assume "needed f v"
  then show "v \<in> live_values f"
  proof (induction rule: needed.induct)
    case (needed_operand i w)
    then show ?case using effect_live [of i f w] by (simp add: has_effect_observed read_values_iff)
  next
    case (needed_result a b i l v)
    then show ?case using return_live [of a b f l v] by (auto simp: list_ex_iff)
  next
    case (needed_argument a b n off v)
    then show ?case by (intro call_live [of a b f n]) (auto simp: argument_location_iff)
  next
    case (needed_read v i w)
    then show ?case using f live_reads [of v f i w] by (simp add: single_assignment_def read_values_iff)
  qed
next
  assume "v \<in> live_values f"
  then obtain s where s: "s \<in> set (seeds f)" "(s, v) \<in> (reads_rel f)\<^sup>*" by (auto simp: live_values_closure)
  from s(2) show "needed f v"
  proof induction
    case base
    then show ?case using seeds_needed [OF s(1)] .
  next
    case (step v w)
    then obtain i where i: "defining_op f v = Some i" "OValue w \<in> set (so_inputs i)" by (auto simp: reads_rel_def read_values_iff)
    show ?case by (rule needed_read [OF step.IH _ _ i(2)]) (use defining_op_in [OF i(1)] defining_op_out [OF f i(1)] in auto)
  qed
qed

text \<open>An operation without an output and without an effect stays, and what it reads goes: the model of a
  write to a register of sixteen bytes, which has no location, reading a value nothing else reads.\<close>

definition dangling_value :: ssa_value where
  "dangling_value = \<lparr>sv_location = \<lparr>lc_space = Unique_space, lc_offset = 0, lc_size = 8\<rparr>, sv_version = 0\<rparr>"

definition dangling_function :: ssa_function where
  "dangling_function = \<lparr>sf_arch = X86_64, sf_entry = 0, sf_blocks = [(0, \<lparr>sb_ops =
     [\<lparr>so_addr = 0, so_kind = Ssa_op IntAdd, so_out = Some dangling_value, so_inputs = [OConst 1 8, OConst 2 8], so_size = 8\<rparr>,
      \<lparr>so_addr = 0, so_kind = Ssa_op IntZExt, so_out = None, so_inputs = [OValue dangling_value], so_size = 16\<rparr>],
     sb_successors = [], sb_predecessors = []\<rparr>)]\<rparr>"

lemma dangling_operand:
  "map so_out (sf_ops (snd (remove_dead dangling_function))) = [None]"
  "map so_inputs (sf_ops (snd (remove_dead dangling_function))) = [[OValue dangling_value]]"
proof -
  have "seeds dangling_function = []"
    by (simp add: seeds_def dangling_function_def return_seeds_def call_seeds_def effect_seeds_def has_effect_def is_call_op_def
      tail_call_def sf_block_def List.enumerate_simps)
  then have "live_values dangling_function = {}" by (simp add: live_values_closure)
  then show "map so_out (sf_ops (snd (remove_dead dangling_function))) = [None]"
    "map so_inputs (sf_ops (snd (remove_dead dangling_function))) = [[OValue dangling_value]]"
    by (simp_all add: sf_ops_remove_dead) (simp_all add: sf_ops_def dangling_function_def kept_def has_effect_def)
qed

end
