(* ===== verification/Ir_Divisor.thy ===== *)
theory Ir_Divisor
  imports Prelude "HOL-Library.Signed_Division"
begin

text \<open>
  The divisor that a reciprocal multiplication stands for, \<open>unsigned_divisor\<close> and \<open>signed_divisor\<close> of
  \<open>crates/e5r-ir/src/opt.rs\<close>, and that the check of a handful of points decides agreement with the
  quotient on a whole range. An \<open>i128\<close> is an integer, with the overflow of checked arithmetic written out.
\<close>

section \<open>The check\<close>

definition i128 :: "int \<Rightarrow> int option" where
  "i128 v = (if - (2 ^ 127) \<le> v \<and> v < 2 ^ 127 then Some v else None)"

definition candidate_divisor :: "int \<Rightarrow> nat \<Rightarrow> int option" where
  "candidate_divisor m shift = (if m \<le> 1 \<or> shift \<ge> 126 then None
     else (let total = 2 ^ shift; d = (total + m - 1) div m in if 3 \<le> d \<and> d \<le> 2 ^ 64 - 1 then Some d else None))"

definition drift_value :: "int \<Rightarrow> int \<Rightarrow> int \<Rightarrow> int \<Rightarrow> int \<Rightarrow> int option" where
  "drift_value m d bias e x = do {
     a \<leftarrow> i128 (x div d * e);
     b \<leftarrow> i128 (x mod d * m);
     s \<leftarrow> i128 (a + b);
     i128 (s + bias) }"

definition check_points :: "int \<Rightarrow> int \<Rightarrow> int \<Rightarrow> int list" where
  "check_points d lo hi = [lo, hi] @ filter (\<lambda>p. lo \<le> p \<and> p \<le> hi)
     [lo div d * d + d - 1, hi div d * d, (hi + 1) div d * d - 1, (lo + d - 1) div d * d]"

definition quotient_agrees :: "int \<Rightarrow> nat \<Rightarrow> int \<Rightarrow> int \<Rightarrow> int \<Rightarrow> int \<Rightarrow> bool" where
  "quotient_agrees m shift d bias lo hi \<longleftrightarrow>
     (if m \<le> 0 \<or> d \<le> 0 \<or> lo < 0 \<or> hi < lo \<or> shift \<ge> 126 then False
      else (let period = 2 ^ shift in
        case Option.bind (i128 (m * d)) (\<lambda>p. i128 (p - period)) of
          None \<Rightarrow> False
        | Some e \<Rightarrow> list_all (\<lambda>x. case drift_value m d bias e x of Some v \<Rightarrow> 0 \<le> v \<and> v < period | None \<Rightarrow> False)
            (check_points d lo hi)))"

definition unsigned_divisor :: "u64 \<Rightarrow> nat \<Rightarrow> u64 \<Rightarrow> u64 option" where
  "unsigned_divisor magic shift mx = (let m = uint magic in
     case candidate_divisor m shift of
       None \<Rightarrow> None
     | Some d \<Rightarrow> if quotient_agrees m shift d 0 0 (uint mx) then Some (word_of_int d) else None)"

definition signed_divisor :: "u64 \<Rightarrow> nat \<Rightarrow> nat \<Rightarrow> u64 option" where
  "signed_divisor magic shift bits = (if \<not> (2 \<le> bits \<and> bits \<le> 64) then None
     else (let m = uint magic in
       case candidate_divisor m shift of
         None \<Rightarrow> None
       | Some d \<Rightarrow> (let top = 2 ^ (bits - 1) in
           if quotient_agrees m shift d 0 0 (top - 1) \<and> quotient_agrees m shift d (- 1) 1 top
           then Some (word_of_int d) else None)))"

section \<open>The points decide the range\<close>

definition drift :: "int \<Rightarrow> int \<Rightarrow> int \<Rightarrow> int \<Rightarrow> int \<Rightarrow> int" where
  "drift m d period bias x = x div d * (m * d - period) + x mod d * m + bias"

lemma drift_split: "m * x + bias = period * (x div d) + drift m d period bias x"
proof -
  have "m * x = m * (d * (x div d) + x mod d)" by simp
  also have "\<dots> = m * d * (x div d) + m * (x mod d)" by (simp only: distrib_left mult.assoc)
  finally show ?thesis by (simp add: drift_def algebra_simps)
qed

text \<open>So the quotient is right exactly when the drift stays in a period.\<close>

lemma drift_quotient:
  assumes "0 < (period :: int)"
  shows "(m * x + bias) div period = x div d \<longleftrightarrow> 0 \<le> drift m d period bias x \<and> drift m d period bias x < period"
proof -
  have "(m * x + bias) div period = x div d + drift m d period bias x div period"
    unfolding drift_split [of m x bias period d] using assms by (simp add: add.commute)
  moreover have "v div period = 0 \<longleftrightarrow> 0 \<le> v \<and> v < period" for v
    using assms by (auto simp: zdiv_eq_0_iff)
  ultimately show ?thesis by simp
qed

lemma drift_run: "0 < d \<Longrightarrow> 0 \<le> r \<Longrightarrow> r < d \<Longrightarrow> drift m d period bias (k * d + r) = k * (m * d - period) + r * m + bias"
  by (simp add: drift_def)

lemma between_ends:
  fixes k a b e :: int
  assumes "a \<le> k" "k \<le> b"
  shows "k * e \<le> max (a * e) (b * e)" and "min (a * e) (b * e) \<le> k * e"
proof -
  show "k * e \<le> max (a * e) (b * e)"
  proof (cases "0 \<le> e")
    case True
    then have "k * e \<le> b * e" using assms(2) by (intro mult_right_mono)
    then show ?thesis by simp
  next
    case False
    then have "k * e \<le> a * e" using assms(1) by (intro mult_right_mono_neg) simp_all
    then show ?thesis by simp
  qed
  show "min (a * e) (b * e) \<le> k * e"
  proof (cases "0 \<le> e")
    case True
    then have "a * e \<le> k * e" using assms(1) by (intro mult_right_mono)
    then show ?thesis by simp
  next
    case False
    then have "b * e \<le> k * e" using assms(2) by (intro mult_right_mono_neg) simp_all
    then show ?thesis by simp
  qed
qed

lemma le_idiv: "0 < d \<Longrightarrow> k \<le> x div d \<longleftrightarrow> k * d \<le> (x :: int)"
proof
  assume d: "0 < d" and "k \<le> x div d"
  then have "k * d \<le> x div d * d" by (intro mult_right_mono) simp_all
  also have "\<dots> \<le> x" using d by (simp add: minus_mod_eq_div_mult [symmetric])
  finally show "k * d \<le> x" .
next
  assume d: "0 < d" and "k * d \<le> x"
  then have "k * d div d \<le> x div d" by (intro zdiv_mono1)
  then show "k \<le> x div d" using d by simp
qed

lemma idiv_less: "0 < d \<Longrightarrow> x div d < k \<longleftrightarrow> (x :: int) < k * d"
  using le_idiv [of d k x] by linarith

text \<open>The drift is greatest at the ends of runs of \<open>d\<close> dividends or at the end of the range, and least at the
  starts of runs or at the start of the range.\<close>

lemma points_bound:
  assumes m: "0 < m" and d: "0 < d"
    and pts: "\<forall>x\<in>set (check_points d lo hi). 0 \<le> drift m d period bias x \<and> drift m d period bias x < period"
    and x: "lo \<le> x" "x \<le> hi"
  shows "0 \<le> drift m d period bias x \<and> drift m d period bias x < period"
proof -
  define k r e where "k = x div d" and "r = x mod d" and "e = m * d - period"
  have r: "0 \<le> r" "r < d" and xk: "x = k * d + r" using d by (simp_all add: k_def r_def)
  have val: "drift m d period bias x = k * e + r * m + bias" by (simp add: drift_def k_def r_def e_def)
  have point: "0 \<le> drift m d period bias p \<and> drift m d period bias p < period"
    if "p = lo \<or> p = hi \<or> p = lo div d * d + d - 1 \<or> p = hi div d * d \<or> p = (hi + 1) div d * d - 1 \<or> p = (lo + d - 1) div d * d"
      "lo \<le> p" "p \<le> hi" for p
  proof -
    have "p \<in> set (check_points d lo hi)" using that unfolding check_points_def set_append set_filter by (simp del: filter.simps)
    then show ?thesis using pts by blast
  qed
  have rm: "0 \<le> r * m" "r * m \<le> (d - 1) * m" using r m by (simp_all add: mult_right_mono)
  have at_end: "drift m d period bias (j * d + d - 1) = j * e + (d - 1) * m + bias" for j
    using drift_run [OF d, of "d - 1" m period bias j] d by (simp add: e_def add_diff_eq)
  have at_start: "drift m d period bias (j * d) = j * e + bias" for j
    using drift_run [OF d, of 0 m period bias j] d by (simp add: e_def)
  have kd: "k * d \<le> x" "x < (k + 1) * d" using xk r by (simp_all add: algebra_simps)
  have upper: "drift m d period bias x < period"
  proof (cases "(k + 1) * d \<le> hi + 1")
    case True
    define a b where "a = lo div d" and "b = (hi + 1) div d - 1"
    have ak: "a \<le> k" unfolding a_def k_def using x(1) d by (intro zdiv_mono1)
    have kb: "k \<le> b" using True le_idiv [OF d, of "k + 1" "hi + 1"] by (simp add: b_def)
    have ends: "lo < (a + 1) * d" "a * d \<le> k * d" "k * d \<le> b * d" "(b + 1) * d \<le> hi + 1"
      using idiv_less [OF d, of lo "a + 1"] le_idiv [OF d, of "b + 1" "hi + 1"] ak kb d
      by (simp_all add: a_def b_def mult_right_mono)
    have "a * e + (d - 1) * m + bias < period"
      using point [of "a * d + d - 1"] ends True at_end [of a] by (simp add: a_def algebra_simps)
    moreover have "b * e + (d - 1) * m + bias < period"
      using point [of "b * d + d - 1"] ends kd x at_end [of b] by (simp add: b_def algebra_simps)
    ultimately show ?thesis using between_ends(1) [OF ak kb, of e] rm(2) by (simp add: val)
  next
    case False
    define s where "s = hi mod d"
    have hk: "k * d \<le> hi" "hi < (k + 1) * d" using False kd(1) x(2) by simp_all
    then have k: "hi div d = k" using le_idiv [OF d, of k hi] idiv_less [OF d, of hi "k + 1"] by simp
    then have hi: "hi = k * d + s" using div_mult_mod_eq [of hi d] by (simp add: s_def)
    have "r * m \<le> s * m" using x(2) xk hi m by (intro mult_right_mono) simp_all
    moreover have "drift m d period bias hi = k * e + s * m + bias" by (simp add: drift_def k s_def e_def)
    moreover have "drift m d period bias hi < period" using point [of hi] x by simp
    ultimately show ?thesis by (simp add: val)
  qed
  have lower: "0 \<le> drift m d period bias x"
  proof (cases "lo \<le> k * d")
    case True
    define a b where "a = (lo + d - 1) div d" and "b = hi div d"
    have kb: "k \<le> b" unfolding b_def k_def using x(2) d by (intro zdiv_mono1)
    have ak: "a \<le> k" using idiv_less [OF d, of "lo + d - 1" "k + 1"] True by (simp add: a_def algebra_simps)
    have ends: "lo \<le> a * d" "a * d \<le> k * d" "k * d \<le> b * d" "b * d \<le> hi"
      using idiv_less [OF d, of "lo + d - 1" "a + 1"] le_idiv [OF d, of b hi] ak kb d
      by (simp_all add: a_def b_def mult_right_mono algebra_simps)
    have "0 \<le> a * e + bias" using point [of "a * d"] ends at_start [of a] by (simp add: a_def)
    moreover have "0 \<le> b * e + bias" using point [of "b * d"] ends True at_start [of b] by (simp add: b_def)
    ultimately show ?thesis using between_ends(2) [OF ak kb, of e] rm(1) by (simp add: val)
  next
    case False
    define s where "s = lo mod d"
    have "k * d \<le> lo" "lo < (k + 1) * d" using False kd(2) x(1) by simp_all
    then have k: "lo div d = k" using le_idiv [OF d, of k lo] idiv_less [OF d, of lo "k + 1"] by simp
    then have lo: "lo = k * d + s" using div_mult_mod_eq [of lo d] by (simp add: s_def)
    have "s * m \<le> r * m" using x(1) xk lo m by (intro mult_right_mono) simp_all
    moreover have "drift m d period bias lo = k * e + s * m + bias" by (simp add: drift_def k s_def e_def)
    moreover have "0 \<le> drift m d period bias lo" using point [of lo] x by simp
    ultimately show ?thesis by (simp add: val)
  qed
  show ?thesis using lower upper by blast
qed

section \<open>The check is exact\<close>

lemma i128_Some [simp]: "i128 v = Some w \<longleftrightarrow> - (2 ^ 127) \<le> v \<and> v < 2 ^ 127 \<and> w = v"
  by (auto simp: i128_def)

lemma drift_value_sound: "drift_value m d bias (m * d - period) x = Some v \<Longrightarrow> v = drift m d period bias x"
  by (auto simp: drift_value_def drift_def split: bind_splits)

lemma pow126: "shift < 126 \<Longrightarrow> (2 :: int) ^ shift \<le> 2 ^ 126"
  by (rule power_increasing) simp_all

lemma quotient_agrees_points:
  assumes "quotient_agrees m shift d bias lo hi"
  shows "0 < m" "0 < d" "0 \<le> lo"
    and "\<forall>x\<in>set (check_points d lo hi). 0 \<le> drift m d (2 ^ shift) bias x \<and> drift m d (2 ^ shift) bias x < 2 ^ shift"
proof -
  show "0 < m" "0 < d" "0 \<le> lo" using assms by (auto simp: quotient_agrees_def split: if_splits)
  have "list_all (\<lambda>x. case drift_value m d bias (m * d - 2 ^ shift) x of Some v \<Rightarrow> 0 \<le> v \<and> v < 2 ^ shift | None \<Rightarrow> False) (check_points d lo hi)"
    using assms by (auto simp: quotient_agrees_def Let_def split: if_splits option.splits bind_splits)
  then show "\<forall>x\<in>set (check_points d lo hi). 0 \<le> drift m d (2 ^ shift) bias x \<and> drift m d (2 ^ shift) bias x < 2 ^ shift"
    by (fastforce simp: list_all_iff split: option.splits dest: drift_value_sound)
qed

lemma quotient_agrees_sound:
  assumes "quotient_agrees m shift d bias lo hi" and "lo \<le> x" "x \<le> hi"
  shows "(m * x + bias) div 2 ^ shift = x div d"
proof -
  note q = quotient_agrees_points [OF assms(1)]
  show ?thesis using points_bound [OF q(1,2,4) assms(2,3)] drift_quotient [of "2 ^ shift" m x bias d] by simp
qed

text \<open>Where nothing overflows, agreement on the whole range passes the check.\<close>

lemma drift_value_complete:
  assumes m: "0 < m" and d: "0 < d" and md: "m * d < 2 ^ 127" and shift: "shift < 126" and bias: "bias = 0 \<or> bias = - 1" and x: "0 \<le> x"
    and ok: "0 \<le> drift m d (2 ^ shift) bias x" "drift m d (2 ^ shift) bias x < 2 ^ shift"
  shows "drift_value m d bias (m * d - 2 ^ shift) x = Some (drift m d (2 ^ shift) bias x)"
proof -
  define a b v where "a = x div d * (m * d - 2 ^ shift)" and "b = x mod d * m" and "v = drift m d (2 ^ shift) bias x"
  have v: "v = a + b + bias" by (simp add: v_def a_def b_def drift_def)
  note p = pow126 [OF shift]
  have "x mod d * m \<le> d * m" using d m by (intro mult_right_mono) (simp_all add: less_imp_le)
  then have "b < 2 ^ 127" using md by (simp add: b_def mult.commute [of d m])
  moreover have "0 \<le> b" using d m by (simp add: b_def)
  ultimately have b: "0 \<le> b" "b < 2 ^ 127" by simp_all
  have "v < 2 ^ 126" using ok(2) p unfolding v_def by linarith
  then have "- (2 ^ 127) \<le> a" "a < 2 ^ 127" "- (2 ^ 127) \<le> a + b" "a + b < 2 ^ 127" "- (2 ^ 127) \<le> v" "v < 2 ^ 127"
    using b v ok(1) bias unfolding v_def [symmetric] by auto
  then show ?thesis using b v by (simp add: drift_value_def a_def [symmetric] b_def [symmetric] v_def [symmetric] i128_def)
qed

lemma quotient_agrees_complete:
  assumes m: "0 < m" and d: "0 < d" and md: "m * d < 2 ^ 127" and shift: "shift < 126" and bias: "bias = 0 \<or> bias = - 1"
    and lo: "0 \<le> lo" "lo \<le> hi"
    and ok: "\<And>x. lo \<le> x \<Longrightarrow> x \<le> hi \<Longrightarrow> (m * x + bias) div 2 ^ shift = x div d"
  shows "quotient_agrees m shift d bias lo hi"
proof -
  have p: "(2 :: int) ^ shift \<le> 2 ^ 126" "(0 :: int) < 2 ^ shift" using pow126 [OF shift] by simp_all
  have "0 < m * d" using m d by simp
  then have "- (2 ^ 127) \<le> m * d" "- (2 ^ 127) \<le> m * d - 2 ^ shift" "m * d - 2 ^ shift < 2 ^ 127" using md p less_trans [of "m * d - 2 ^ shift" "m * d" "2 ^ 127"] by simp_all
  then have e: "Option.bind (i128 (m * d)) (\<lambda>p. i128 (p - 2 ^ shift)) = Some (m * d - 2 ^ shift)" using md by (simp add: i128_def)
  have "case drift_value m d bias (m * d - 2 ^ shift) x of Some v \<Rightarrow> 0 \<le> v \<and> v < 2 ^ shift | None \<Rightarrow> False"
    if x: "x \<in> set (check_points d lo hi)" for x
  proof -
    have x: "lo \<le> x" "x \<le> hi" using x lo by (auto simp: check_points_def simp del: filter.simps)
    then have "0 \<le> drift m d (2 ^ shift) bias x \<and> drift m d (2 ^ shift) bias x < 2 ^ shift"
      using ok drift_quotient [OF p(2), of m x bias d] by blast
    then show ?thesis using drift_value_complete [OF m d md shift bias, of x] x lo by simp
  qed
  then show ?thesis using m d lo shift e by (simp add: quotient_agrees_def Let_def list_all_iff)
qed

text \<open>Agreement at \<open>d - 1\<close> and at \<open>d\<close> leaves one candidate.\<close>

lemma candidate_complete:
  assumes m: "1 < m" "m < 2 ^ 64" and shift: "shift < 126" and d: "3 \<le> d" "d < 2 ^ 64"
    and ok: "m * (d - 1) div 2 ^ shift = 0" "m * d div 2 ^ shift = 1"
  shows "candidate_divisor m shift = Some d" and "m * d < 2 ^ 127"
proof -
  have p: "(0 :: int) < 2 ^ shift" "(2 :: int) ^ shift \<le> 2 ^ 126" using pow126 [OF shift] by simp_all
  have a: "m * d - m < 2 ^ shift" using idiv_less [OF p(1), of "m * (d - 1)" 1] ok(1) by (simp add: right_diff_distrib)
  have b: "2 ^ shift \<le> m * d" using le_idiv [OF p(1), of 1 "m * d"] ok(2) by simp
  have m0: "0 < m" using m by simp
  have "d \<le> (2 ^ shift + m - 1) div m" using le_idiv [OF m0, of d "2 ^ shift + m - 1"] a by (simp add: mult.commute)
  moreover have "(2 ^ shift + m - 1) div m < d + 1"
    using idiv_less [OF m0, of "2 ^ shift + m - 1" "d + 1"] b by (simp add: mult.commute distrib_left)
  ultimately have "(2 ^ shift + m - 1) div m = d" by simp
  then show "candidate_divisor m shift = Some d" using m shift d by (simp add: candidate_divisor_def)
  show "m * d < 2 ^ 127" using a m(2) p(2) by simp
qed

lemma candidate_bounds: "candidate_divisor m shift = Some d \<Longrightarrow> 3 \<le> d \<and> d < 2 ^ 64"
  by (auto simp: candidate_divisor_def Let_def split: if_splits)

lemma uint_candidate: "candidate_divisor m shift = Some d \<Longrightarrow> uint (word_of_int d :: u64) = d"
  using candidate_bounds [of m shift d] by (simp add: uint_word_of_int)

section \<open>Divisors\<close>

lemma unsigned_divisor_sound:
  assumes "unsigned_divisor magic shift mx = Some d" and "0 \<le> x" and "x \<le> uint mx"
  shows "uint magic * x div 2 ^ shift = x div uint d" and "3 \<le> uint d"
proof -
  obtain c where c: "candidate_divisor (uint magic) shift = Some c" "quotient_agrees (uint magic) shift c 0 0 (uint mx)" "d = word_of_int c"
    using assms(1) by (auto simp: unsigned_divisor_def Let_def split: option.splits if_splits)
  then have d: "uint d = c" using uint_candidate by simp
  show "uint magic * x div 2 ^ shift = x div uint d" using quotient_agrees_sound [OF c(2) assms(2,3)] d by simp
  show "3 \<le> uint d" using candidate_bounds [OF c(1)] d by simp
qed

lemma unsigned_divisor_complete:
  assumes m: "1 < uint magic" and shift: "shift < 126" and d: "3 \<le> uint d" "uint d \<le> uint mx"
    and ok: "\<And>x. 0 \<le> x \<Longrightarrow> x \<le> uint mx \<Longrightarrow> uint magic * x div 2 ^ shift = x div uint d"
  shows "unsigned_divisor magic shift mx = Some d"
proof -
  have b: "uint magic < 2 ^ 64" "uint d < 2 ^ 64" using uint_bounded [of magic] uint_bounded [of d] by simp_all
  have "uint magic * (uint d - 1) div 2 ^ shift = 0" "uint magic * uint d div 2 ^ shift = 1"
    using ok [of "uint d - 1"] ok [of "uint d"] d by simp_all
  note c = candidate_complete [OF m b(1) shift d(1) b(2) this]
  have "quotient_agrees (uint magic) shift (uint d) 0 0 (uint mx)"
    using m d c(2) shift ok by (intro quotient_agrees_complete) simp_all
  then show ?thesis using c(1) by (simp add: unsigned_divisor_def Let_def)
qed

text \<open>The floor of a negative number, and the correction that makes it a truncation.\<close>

lemma floor_negative:
  assumes "0 < (period :: int)"
  shows "(- v) div period = - ((v - 1) div period + 1)"
proof -
  define q where "q = (v - 1) div period"
  have "q * period \<le> v - 1" "v - 1 < (q + 1) * period"
    using le_idiv [OF assms, of q "v - 1"] idiv_less [OF assms, of "v - 1" "q + 1"] by (simp_all add: q_def)
  then have "- (q + 1) \<le> (- v) div period" "(- v) div period < - q"
    unfolding le_idiv [OF assms] idiv_less [OF assms] by (simp_all add: algebra_simps)
  then show ?thesis by (simp add: q_def)
qed

definition reciprocal_value :: "int \<Rightarrow> nat \<Rightarrow> int \<Rightarrow> int" where
  "reciprocal_value m shift y = m * y div 2 ^ shift + (if y < 0 then 1 else 0)"

lemma reciprocal_negative: "0 < x \<Longrightarrow> reciprocal_value m shift (- x) = - ((m * x - 1) div 2 ^ shift)"
  using floor_negative [of "2 ^ shift" "m * x"] by (simp add: reciprocal_value_def)

lemma sdiv_cases: "0 < (d :: int) \<Longrightarrow> y sdiv d = (if 0 \<le> y then y div d else - (- y div d))"
  by (simp add: signed_divide_int_def sgn_if)

lemma signed_divisor_sound:
  assumes "signed_divisor magic shift bits = Some d" and "- (2 ^ (bits - 1)) \<le> y" and "y < 2 ^ (bits - 1)"
  shows "reciprocal_value (uint magic) shift y = y sdiv uint d" and "3 \<le> uint d"
proof -
  define top :: int where "top = 2 ^ (bits - 1)"
  obtain c where c: "candidate_divisor (uint magic) shift = Some c" "quotient_agrees (uint magic) shift c 0 0 (top - 1)"
      "quotient_agrees (uint magic) shift c (- 1) 1 top" "d = word_of_int c"
    using assms(1) by (auto simp: signed_divisor_def Let_def top_def split: option.splits if_splits)
  then have d: "uint d = c" "3 \<le> c" using uint_candidate candidate_bounds by simp_all
  show "3 \<le> uint d" using d by simp
  show "reciprocal_value (uint magic) shift y = y sdiv uint d"
  proof (cases "0 \<le> y")
    case True
    then show ?thesis
      using quotient_agrees_sound [OF c(2), of y] assms(3) d by (simp add: reciprocal_value_def top_def sdiv_cases)
  next
    case False
    then show ?thesis
      using quotient_agrees_sound [OF c(3), of "- y"] assms(2) d reciprocal_negative [of "- y" "uint magic" shift] by (simp add: top_def sdiv_cases)
  qed
qed

lemma signed_divisor_complete:
  assumes m: "1 < uint magic" and shift: "shift < 126" and bits: "2 \<le> bits" "bits \<le> 64" and d: "3 \<le> uint d" "uint d < 2 ^ (bits - 1)"
    and ok: "\<And>y. - (2 ^ (bits - 1)) \<le> y \<Longrightarrow> y < 2 ^ (bits - 1) \<Longrightarrow> reciprocal_value (uint magic) shift y = y sdiv uint d"
  shows "signed_divisor magic shift bits = Some d"
proof -
  define top :: int where "top = 2 ^ (bits - 1)"
  have b: "uint magic < 2 ^ 64" "uint d < 2 ^ 64" using uint_bounded [of magic] uint_bounded [of d] by simp_all
  have pos: "uint magic * x div 2 ^ shift = x div uint d" if "0 \<le> x" "x < top" for x
    using ok [of x] that d(1) by (simp add: reciprocal_value_def sdiv_cases top_def)
  have neg: "(uint magic * x - 1) div 2 ^ shift = x div uint d" if "1 \<le> x" "x \<le> top" for x
    using ok [of "- x"] that d(1) reciprocal_negative [of x "uint magic" shift] by (simp add: sdiv_cases top_def)
  have "uint magic * (uint d - 1) div 2 ^ shift = 0" "uint magic * uint d div 2 ^ shift = 1"
    using pos [of "uint d - 1"] pos [of "uint d"] d by (simp_all add: top_def)
  note c = candidate_complete [OF m b(1) shift d(1) b(2) this]
  have "1 \<le> top" using d by (simp add: top_def)
  then have "quotient_agrees (uint magic) shift (uint d) 0 0 (top - 1)" "quotient_agrees (uint magic) shift (uint d) (- 1) 1 top"
    using m d c(2) shift pos neg by (intro quotient_agrees_complete; simp)+
  then show ?thesis using c(1) bits by (simp add: signed_divisor_def Let_def top_def)
qed

end
