(* ===== verification/Ir_Props.thy ===== *)
theory Ir_Props
  imports Ir_Patterns Ir_Run Ir_Dead Ir_Divisor
begin

text \<open>
  The properties of the intermediate representation, \<open>crates/e5r-ir\<close>: that the passes of the optimiser
  keep the meaning of a function, and what the interpreter does.
\<close>

section \<open>Folding\<close>

text \<open>C33: constant folding of a function whose operations have at most eight bytes and the sizes that
  lifting gives (\<open>good_function\<close>; in particular a constant fits the size it is given) does not panic, keeps
  exactly its models (the folder computes what the interpreter's arithmetic does), keeps the value each
  operation defines, and leaves nothing to fold. Constants that do not fit their size are excluded, as
  the lifter of \<open>x86\<close> makes them for sign-extended immediates: there the folder computes something else,
  see \<open>fold_unmasked_constant\<close>.\<close>

theorem fold_correct:
  assumes "good_function f"
  shows "\<exists>c g. fold_pass f = Some (c, g) \<and> (\<forall>u d R. models u d R (sf_ops g) = models u d R (sf_ops f))
    \<and> map so_out (sf_ops g) = map so_out (sf_ops f) \<and> fold_pass g = Some (no_changes, g)"
proof -
  have s: "list_all op_sized (sf_ops f)" using assms by (auto simp: good_function_def op_good_def list_all_iff)
  obtain c g where g: "fold_pass f = Some (c, g)"
    using fold_pass_safe [of f] assms by (auto simp: good_function_def list_all_iff)
  then have "sf_ops g = map fold_rw (sf_ops f)" using fold_pass_map sf_ops_map by blast
  then show ?thesis using g fold_models_eq [OF s] fold_pass_again [OF g] by simp
qed

definition demo_value :: "nat \<Rightarrow> nat \<Rightarrow> ssa_value" where
  "demo_value k n = \<lparr>sv_location = \<lparr>lc_space = Unique_space, lc_offset = of_nat k, lc_size = n\<rparr>, sv_version = 0\<rparr>"

definition demo_op :: "op \<Rightarrow> nat \<Rightarrow> ssa_operand list \<Rightarrow> nat \<Rightarrow> ssa_op" where
  "demo_op x k ins n = \<lparr>so_addr = 4096, so_kind = Ssa_op x, so_out = Some (demo_value k n), so_inputs = ins, so_size = n\<rparr>"

definition demo_function :: "ssa_op list \<Rightarrow> ssa_function" where
  "demo_function ops = \<lparr>sf_arch = X86_64, sf_entry = 4096,
     sf_blocks = [(4096, \<lparr>sb_ops = ops, sb_successors = [], sb_predecessors = []\<rparr>)]\<rparr>"

lemma demo_function_ops [simp]: "sf_ops (demo_function ops) = ops"
  by (simp add: demo_function_def sf_ops_def)

definition demo_fold :: ssa_function where
  "demo_fold = demo_function [demo_op IntSub 0 [OConst 3 4, OConst 5 4] 4]"

lemma demo_fold_narrow: "good_function demo_fold"
  by (simp add: demo_fold_def good_function_def op_good_def demo_op_def demo_value_def op_sized_def op_narrow_def opnd_ok_def
    same_size_ops_def sized_ops_def size_mask_def)

theorem fold_correct_witness:
  "\<exists>c g. fold_pass demo_fold = Some (c, g) \<and> (\<forall>u d R. models u d R (sf_ops g) = models u d R (sf_ops demo_fold))
    \<and> map so_out (sf_ops g) = map so_out (sf_ops demo_fold) \<and> fold_pass g = Some (no_changes, g)"
  by (rule fold_correct [OF demo_fold_narrow])

text \<open>The folder takes a constant as it is, the interpreter cuts it to its size. The second operand is what
  the lifter of \<open>x86\<close> makes of the immediate \<open>-1\<close> of a 32-bit instruction: folding finds \<open>0xffffffff\<close> less
  than it, executing does not.\<close>

definition unmasked_compare :: ssa_op where
  "unmasked_compare = demo_op IntLess 0 [OConst 0xffffffff 4, OConst 0xffffffffffffffff 4] 1"

definition unmasked_compare_ir :: ir_op where
  "unmasked_compare_ir = \<lparr>io_op = IntLess, io_out = Some \<lparr>vn_space = Unique_space, vn_offset = 0, vn_size = 1\<rparr>,
     io_inputs = [vn_constant 0xffffffff 4, vn_constant 0xffffffffffffffff 4], io_addr = 4096\<rparr>"

lemma fold_unmasked_constant:
  "fold_op unmasked_compare = Some (1, so_copy (OConst 1 1) unmasked_compare)"
  "map_option (\<lambda>(r, m). (r, mc_temps m 0)) (ir_step unmasked_compare_ir mc_new) = Some (Next, Some 0)"
  "\<not> op_good unmasked_compare"
proof -
  show "fold_op unmasked_compare = Some (1, so_copy (OConst 1 1) unmasked_compare)" by code_simp
  have m: "size_mask 4 = 0xffffffff" "size_mask (Suc 0) = 0xff" by (simp_all add: size_mask_def)
  show "map_option (\<lambda>(r, m). (r, mc_temps m 0)) (ir_step unmasked_compare_ir mc_new) = Some (Next, Some 0)"
    by (simp add: unmasked_compare_ir_def ir_step_def step_value_def read_inputs_def read_input_def ir_input_def nth_in_def mc_read_def
      vn_constant_def vn_mask_def m with_size_def read_third_def alu_defs alu_int_def in_val_def b2w_def mc_write_def Let_def)
  show "\<not> op_good unmasked_compare" by (simp add: unmasked_compare_def demo_op_def op_good_def op_sized_def opnd_ok_def m)
qed

section \<open>Known bits, simplification, patterns\<close>

text \<open>C34: the masks that \<open>KnownBits\<close> computes are right: in every environment of a run a value has only
  bits of its mask, and so has every operand; through phis, and after any number of rounds.\<close>

theorem known_bits_correct:
  assumes "models u d R (sf_ops f)" and "good_function f"
  shows "(\<forall>r\<in>R. \<forall>v k. known_bits f v = Some k \<longrightarrow> r v AND NOT k = 0)
    \<and> (\<forall>r\<in>R. \<forall>x. opnd_ok x \<longrightarrow> opnd_val u r x AND NOT (known_operand (known_bits f) x) = 0)"
proof -
  have ms: "masks_ok R (known_bits f)" by (rule known_bits_sound [OF assms])
  show ?thesis
    using ms known_operand_sound [OF ms] models_env [OF assms(1)] by (fastforce simp: masks_ok_def bits_in_def)
qed

text \<open>A function with one environment, to apply the properties to: a difference of equal arguments, its
  comparison with zero, a mask of the comparison and an exclusive or.\<close>

definition demo_arg :: "nat \<Rightarrow> ssa_operand" where
  "demo_arg k = OUndefined \<lparr>lc_space = Register_space, lc_offset = of_nat (8 * k), lc_size = 8\<rparr>"

definition demo_ssa :: ssa_function where
  "demo_ssa = demo_function [demo_op IntSub 0 [demo_arg 0, demo_arg 1] 8, demo_op IntEqual 1 [OValue (demo_value 0 8), OConst 0 8] 1,
     demo_op IntAnd 2 [OValue (demo_value 1 1), OConst 1 1] 1, demo_op IntXor 3 [demo_arg 0, demo_arg 0] 8]"

definition demo_env :: env where
  "demo_env = (\<lambda>_. 0)(demo_value 1 1 := 1, demo_value 2 1 := 1)"

definition demo_args :: "location \<Rightarrow> u64" where "demo_args _ = 5"

definition demo_completion :: completion where "demo_completion _ _ _ = 0"

lemma demo_value_eq [simp]: "demo_value k m = demo_value l n \<longleftrightarrow> (of_nat k :: u64) = of_nat l \<and> m = n"
  by (auto simp: demo_value_def)

lemma demo_value_size [simp]: "lc_size (sv_location (demo_value k n)) = n"
  by (simp add: demo_value_def)

lemma demo_arg_size [simp]: "opnd_size (demo_arg k) = 8"
  by (simp add: demo_arg_def)

lemma demo_opnd_ok [simp]: "opnd_ok (demo_arg k)" "opnd_ok (OValue (demo_value k n)) \<longleftrightarrow> 0 < n"
    "opnd_ok (OConst v n) \<longleftrightarrow> 0 < n \<and> v AND size_mask n = v"
  by (simp_all add: opnd_ok_def demo_arg_def)

lemma demo_masks: "size_mask 8 = - 1" "size_mask (Suc 0) = 0xff"
  by (simp_all add: size_mask_def)

lemma demo_ssa_good: "good_function demo_ssa"
  by (simp add: demo_ssa_def good_function_def op_good_def demo_op_def op_sized_def op_narrow_def
    same_size_ops_def sized_ops_def demo_masks)

lemma demo_ssa_models: "models demo_args demo_completion {demo_env} (sf_ops demo_ssa)"
proof -
  have v: "demo_env (demo_value 0 8) = 0" "demo_env (demo_value 1 1) = 1" "demo_env (demo_value 2 1) = 1" "demo_env (demo_value 3 8) = 0"
    by (simp_all add: demo_env_def)
  have ok: "env_ok demo_env" by (simp add: env_ok_def demo_env_def demo_masks)
  show ?thesis
    using v ok
    by (simp add: models_def demo_ssa_def demo_op_def op_holds_def op_ins_val alu_val_def alu_simple ins_val_two pure_op_def
      opnd_val_def demo_masks b2w_def demo_arg_def demo_args_def)
qed

theorem known_bits_correct_witness:
  "known_bits demo_ssa (demo_value 2 1) = Some 1 \<and> demo_env (demo_value 2 1) AND NOT 1 = 0
    \<and> opnd_val demo_args demo_env (OConst 1 1) AND NOT (known_operand (known_bits demo_ssa) (OConst 1 1)) = 0"
proof -
  have k: "known_bits demo_ssa (demo_value 2 1) = Some 1"
    by code_simp
  have "opnd_ok (OConst 1 1)" by code_simp
  then show ?thesis using known_bits_correct [OF demo_ssa_models demo_ssa_good] k by blast
qed

text \<open>C35: \<open>simplify\<close> is sound: every set of environments that satisfies the equations of a function, phis
  included, satisfies those of the simplified one, whose sizes stay good and which defines the same values.\<close>

theorem simplify_correct:
  assumes "models u d R (sf_ops f)" and "good_function f"
  shows "models u d R (sf_ops (snd (simplify f))) \<and> good_function (snd (simplify f))
    \<and> map so_out (sf_ops (snd (simplify f))) = map so_out (sf_ops f)"
proof -
  have "so_out (snd (simplify_op ms src i)) = so_out i" for ms src i
    by (cases rule: simplify_op_cases [of ms src i]) (simp_all add: so_copy_def)
  then have "map so_out (sf_ops (snd (simplify f))) = map so_out (sf_ops f)"
    by (simp add: simplify_def rewrite_pass_ops)
  then show ?thesis using simplify_models [OF assms] by simp
qed

theorem simplify_correct_witness:
  "models demo_args demo_completion {demo_env} (sf_ops (snd (simplify demo_ssa))) \<and> good_function (snd (simplify demo_ssa))
    \<and> map so_out (sf_ops (snd (simplify demo_ssa))) = map so_out (sf_ops demo_ssa)"
  by (rule simplify_correct [OF demo_ssa_models demo_ssa_good])

text \<open>C36: \<open>patterns\<close> is sound: the flag formulas it recognises (a difference compared with zero, the sign of
  a difference against its signed borrow, "not equal and not greater") are the comparisons it puts in
  their place, at the width the subtraction works at.\<close>

theorem patterns_correct:
  assumes "models u d R (sf_ops f)" and "good_function f"
  shows "models u d R (sf_ops (snd (patterns f))) \<and> good_function (snd (patterns f))
    \<and> map so_out (sf_ops (snd (patterns f))) = map so_out (sf_ops f)"
proof -
  have "so_out (snd (patterns_op src i)) = so_out i" for src i
    by (cases rule: patterns_op_cases [of src i]) simp_all
  then have "map so_out (sf_ops (snd (patterns f))) = map so_out (sf_ops f)"
    by (simp add: patterns_def rewrite_pass_ops)
  then show ?thesis using patterns_models [OF assms] by simp
qed

theorem patterns_correct_witness:
  "models demo_args demo_completion {demo_env} (sf_ops (snd (patterns demo_ssa))) \<and> good_function (snd (patterns demo_ssa))
    \<and> map so_out (sf_ops (snd (patterns demo_ssa))) = map so_out (sf_ops demo_ssa)"
  by (rule patterns_correct [OF demo_ssa_models demo_ssa_good])

section \<open>Copies\<close>

text \<open>C37: replacing operands by what they were copied from, along chains and through phis whose inputs agree
  (\<open>propagate\<close>), and the computations a block repeats by copies of the first (\<open>cse\<close>), change no run of a
  function in SSA form: the same moves lead to the same points with the same values, and each
  operation that \<open>propagate\<close> rewrote reads the values it read before; \<open>cse\<close> keeps the models too. That a phi over one operand has the
  operand's value wherever it may be read, also around loops, is proved from the form: one definition
  for a value, before its uses on every path.\<close>

theorem copies_correct:
  assumes "ssa_form f" and "good_function f"
  shows "(ssa_run (snd (propagate f)) u d ss (a, k) r \<longleftrightarrow> ssa_run f u d ss (a, k) r)
    \<and> (ssa_run (snd (cse f)) u d ss (a, k) r \<longleftrightarrow> ssa_run f u d ss (a, k) r)
    \<and> (ssa_run f u d ss (a, k) r \<longrightarrow> k < length (block_ops f a) \<longrightarrow> so_kind (block_ops f a ! k) \<noteq> Phi \<longrightarrow>
        op_ins u r (block_ops (snd (propagate f)) a ! k) = op_ins u r (block_ops f a ! k))
    \<and> (models u d R (sf_ops f) \<longrightarrow> models u d R (sf_ops (snd (cse f))))
    \<and> good_function (snd (propagate f)) \<and> good_function (snd (cse f))"
  using propagate_runs [OF assms] cse_runs [OF assms] propagate_ins [OF assms] propagate_good [OF assms(2)] cse_good [OF assms(2)]
    cse_models [OF _ assms(2)]
  by blast

text \<open>A loop over a phi of one value, a copy of a sum, which the loop subtracts from twice.\<close>

definition demo_loop :: ssa_function where
  "demo_loop = \<lparr>sf_arch = X86_64, sf_entry = 0x1000, sf_blocks =
     [(0x1000, \<lparr>sb_ops = [demo_op IntAdd 0 [demo_arg 0, demo_arg 1] 8, demo_op Copy 1 [OValue (demo_value 0 8)] 8],
        sb_successors = [0x2000], sb_predecessors = []\<rparr>),
      (0x2000, \<lparr>sb_ops = [(demo_op Copy 2 [OValue (demo_value 1 8), OValue (demo_value 1 8)] 8)\<lparr>so_kind := Phi\<rparr>,
          demo_op IntSub 3 [OValue (demo_value 2 8), demo_arg 1] 8, demo_op IntSub 4 [OValue (demo_value 2 8), demo_arg 1] 8],
        sb_successors = [0x2000], sb_predecessors = [0x1000, 0x2000]\<rparr>)]\<rparr>"

definition demo_table :: "addr \<times> nat \<Rightarrow> ssa_value set" where
  "demo_table p = set (take (if fst p = 0x1000 then snd p else snd p + 2)
     [demo_value 0 8, demo_value 1 8, demo_value 2 8, demo_value 3 8, demo_value 4 8])"

lemma demo_loop_blocks:
  "block_ops demo_loop a = (if a = 0x1000 then [demo_op IntAdd 0 [demo_arg 0, demo_arg 1] 8, demo_op Copy 1 [OValue (demo_value 0 8)] 8]
     else if a = 0x2000 then [(demo_op Copy 2 [OValue (demo_value 1 8), OValue (demo_value 1 8)] 8)\<lparr>so_kind := Phi\<rparr>,
          demo_op IntSub 3 [OValue (demo_value 2 8), demo_arg 1] 8, demo_op IntSub 4 [OValue (demo_value 2 8), demo_arg 1] 8] else [])"
  "block_succs demo_loop a = (if a = 0x1000 \<or> a = 0x2000 then [0x2000] else [])"
  "block_preds demo_loop a = (if a = 0x2000 then [0x1000, 0x2000] else [])"
  by (simp_all add: block_ops_def block_succs_def block_preds_def sf_block_def demo_loop_def)

lemma demo_loop_phis: "block_phis demo_loop a = (if a = 0x2000 then [(demo_op Copy 2 [OValue (demo_value 1 8), OValue (demo_value 1 8)] 8)\<lparr>so_kind := Phi\<rparr>] else [])"
  by (simp add: block_phis_def demo_loop_blocks demo_op_def)

lemma demo_loop_moves:
  assumes "move_valid demo_loop s"
  shows "s \<in> {Op_move 0x1000 0, Op_move 0x1000 1, Op_move 0x2000 1, Op_move 0x2000 2, Edge_move 0x1000 0x2000 0, Edge_move 0x2000 0x2000 1}"
proof (cases s)
  case (Op_move a k)
  then show ?thesis using assms by (auto simp: demo_loop_blocks demo_op_def less_Suc_eq split: if_splits)
next
  case (Edge_move a c j)
  then show ?thesis using assms by (auto simp: demo_loop_blocks less_Suc_eq split: if_splits)
qed

lemma demo_loop_form: "ssa_form demo_loop"
  unfolding ssa_form_def
proof (intro conjI allI impI)
  show "distinct (map fst (sf_blocks demo_loop))" by (simp add: demo_loop_def)
  show "a = c" and "k = l" if "k < length (block_ops demo_loop a)" "l < length (block_ops demo_loop c)"
      "so_out (block_ops demo_loop a ! k) = Some v" "so_out (block_ops demo_loop c ! l) = Some v" for a k c l v
    using that by (auto simp: demo_loop_blocks demo_op_def less_Suc_eq split: if_splits)
  show "\<forall>i\<in>set (block_phis demo_loop a). length (so_inputs i) = length (block_preds demo_loop a)" for a
    by (simp add: demo_loop_phis demo_loop_blocks demo_op_def)
  fix ss s
  assume s: "ssa_flow demo_loop ss (move_src demo_loop s)" "move_valid demo_loop s"
  have "demo_table (move_src demo_loop s) \<subseteq> written (move_writes demo_loop) ss"
  proof (rule strict_by_table [OF s(1)])
    show "demo_table (move_start demo_loop) = {}" by (simp add: move_start_def demo_loop_phis demo_table_def) (simp add: demo_loop_def)
    show "demo_table (move_dst demo_loop s) \<subseteq> demo_table (move_src demo_loop s) \<union> move_writes demo_loop s" if "move_valid demo_loop s" for s
      using demo_loop_moves [OF that] by (auto simp: demo_table_def demo_loop_blocks demo_loop_phis demo_op_def)
  qed
  moreover have "move_reads demo_loop s \<subseteq> demo_table (move_src demo_loop s)"
    using demo_loop_moves [OF s(2)]
    by (auto simp: demo_table_def demo_loop_blocks demo_loop_phis demo_op_def demo_arg_def)
  ultimately show "move_reads demo_loop s \<subseteq> written (move_writes demo_loop) ss" by blast
qed

lemma demo_loop_good: "good_function demo_loop"
  by (simp add: demo_loop_def good_function_def op_good_def demo_op_def op_sized_def op_narrow_def sf_ops_def
    same_size_ops_def sized_ops_def demo_masks)

definition demo_loop_env :: env where
  "demo_loop_env = (\<lambda>_. 0)(demo_value 0 8 := 10, demo_value 1 8 := 10, demo_value 2 8 := 10)"

theorem copies_correct_witness:
  "map so_inputs (block_ops (snd (propagate demo_loop)) 0x2000)
      = [[OValue (demo_value 0 8), OValue (demo_value 0 8)], [OValue (demo_value 0 8), demo_arg 1], [OValue (demo_value 0 8), demo_arg 1]]
    \<and> map so_inputs (block_ops (snd (cse demo_loop)) 0x2000)
      = [[OValue (demo_value 1 8), OValue (demo_value 1 8)], [OValue (demo_value 2 8), demo_arg 1], [OValue (demo_value 3 8)]]
    \<and> ssa_run (snd (propagate demo_loop)) demo_args demo_completion
        [Op_move 0x1000 0, Op_move 0x1000 1, Edge_move 0x1000 0x2000 0] (0x2000, 1) demo_loop_env
    \<and> op_ins demo_args demo_loop_env (block_ops (snd (propagate demo_loop)) 0x2000 ! 1) = [(10, 8), (5, 8)]"
proof -
  let ?ss = "[Op_move 0x1000 0, Op_move 0x1000 1, Edge_move 0x1000 0x2000 0]"
  let ?r0 = "(\<lambda>_. 0) :: env"
  let ?r1 = "?r0(demo_value 0 8 := 10)"
  let ?r2 = "?r1(demo_value 1 8 := 10)"
  have ok: "env_ok ?r0" "env_ok ?r1" "env_ok ?r2" "env_ok demo_loop_env" by (simp_all add: env_ok_def demo_loop_env_def demo_masks)
  have start: "move_start demo_loop = (0x1000, 0)" by (simp add: move_start_def demo_loop_phis) (simp add: demo_loop_def)
  have s0: "ssa_run demo_loop demo_args demo_completion [] (0x1000, 0) ?r0" using ok by (simp add: start)
  have s1: "ssa_run demo_loop demo_args demo_completion ([] @ [Op_move 0x1000 0]) (0x1000, 1) ?r1"
    using s0 ok by (subst ssa_run_snoc) (auto simp: demo_loop_blocks demo_op_def op_computes_def op_ins_def alu_val_def alu_simple
      demo_masks opnd_val_def demo_arg_def demo_args_def in_val_def nth_in_def pure_op_def intro!: exI [of _ ?r0])
  have s2: "ssa_run demo_loop demo_args demo_completion ([Op_move 0x1000 0] @ [Op_move 0x1000 1]) (0x1000, Suc (Suc 0)) ?r2"
    using s1 ok by (subst ssa_run_snoc) (auto simp: demo_loop_blocks demo_op_def op_computes_def op_ins_def alu_val_copy
      demo_masks opnd_val_def intro!: exI [of _ ?r1])
  have s3: "ssa_run demo_loop demo_args demo_completion ([Op_move 0x1000 0, Op_move 0x1000 1] @ [Edge_move 0x1000 0x2000 0]) (0x2000, 1) demo_loop_env"
    using s2 ok by (subst ssa_run_snoc) (auto simp: demo_loop_blocks demo_loop_phis demo_op_def phi_takes_def opnd_val_def demo_loop_env_def
      intro!: exI [of _ ?r2])
  then have r: "ssa_run demo_loop demo_args demo_completion ?ss (0x2000, 1) demo_loop_env" by simp
  have "op_ins demo_args demo_loop_env (block_ops demo_loop 0x2000 ! 1) = [(10, 8), (5, 8)]"
    by (simp add: demo_loop_blocks demo_op_def op_ins_def opnd_val_def demo_loop_env_def demo_arg_def demo_args_def demo_masks)
  moreover have "map so_inputs (block_ops (snd (propagate demo_loop)) 0x2000)
      = [[OValue (demo_value 0 8), OValue (demo_value 0 8)], [OValue (demo_value 0 8), demo_arg 1], [OValue (demo_value 0 8), demo_arg 1]]"
    "map so_inputs (block_ops (snd (cse demo_loop)) 0x2000)
      = [[OValue (demo_value 1 8), OValue (demo_value 1 8)], [OValue (demo_value 2 8), demo_arg 1], [OValue (demo_value 3 8)]]"
    by code_simp+
  ultimately show ?thesis
    using copies_correct [OF demo_loop_form demo_loop_good, of demo_args demo_completion ?ss "0x2000" 1 demo_loop_env] r
    by (simp add: demo_loop_blocks demo_op_def)
qed

section \<open>Dead code\<close>






section \<open>Divisors\<close>

text \<open>C39: what \<open>unsigned_divisor\<close> returns is a divisor: the product with the magic number, shifted, is the
  quotient for every dividend up to the bound. And it returns the divisor whenever there is one in the
  range: the check of six points misses none.\<close>

theorem unsigned_divisor_correct:
  assumes "1 < uint magic" and "shift < 126" and "3 \<le> uint d" and "uint d \<le> uint mx"
  shows "unsigned_divisor magic shift mx = Some d \<longleftrightarrow> (\<forall>x. 0 \<le> x \<and> x \<le> uint mx \<longrightarrow> uint magic * x div 2 ^ shift = x div uint d)"
  using unsigned_divisor_sound(1) [of magic shift mx d] unsigned_divisor_complete [OF assms] by blast

theorem unsigned_divisor_correct_witness:
  "unsigned_divisor 0xAAAAAAAB 33 0xFFFFFFFF = Some 3
    \<and> uint (0xAAAAAAAB :: u64) * 0xFFFFFFFE div 2 ^ 33 = 0xFFFFFFFE div uint (3 :: u64)"
proof -
  have "unsigned_divisor 0xAAAAAAAB 33 0xFFFFFFFF = Some 3" by code_simp
  moreover from this have "\<forall>x. 0 \<le> x \<and> x \<le> uint (0xFFFFFFFF :: u64) \<longrightarrow> uint (0xAAAAAAAB :: u64) * x div 2 ^ 33 = x div uint (3 :: u64)"
    by (subst (asm) unsigned_divisor_correct) simp_all
  ultimately show ?thesis by (simp del: uint_numeral)
qed

text \<open>C40: the same for signed dividends of a width: the arithmetic shift of the product, plus one for a
  negative dividend, is the quotient rounded towards zero, for every dividend of the width.\<close>

theorem signed_divisor_correct:
  assumes "1 < uint magic" and "shift < 126" and "2 \<le> bits" and "bits \<le> 64" and "3 \<le> uint d" and "uint d < 2 ^ (bits - 1)"
  shows "signed_divisor magic shift bits = Some d \<longleftrightarrow>
    (\<forall>y. - (2 ^ (bits - 1)) \<le> y \<and> y < 2 ^ (bits - 1) \<longrightarrow> uint magic * y div 2 ^ shift + (if y < 0 then 1 else 0) = y sdiv uint d)"
  using signed_divisor_sound(1) [of magic shift bits d] signed_divisor_complete [OF assms] unfolding reciprocal_value_def by blast

theorem signed_divisor_correct_witness:
  "signed_divisor 0x66666667 34 32 = Some 10 \<and> uint (0x66666667 :: u64) * (- 25) div 2 ^ 34 + 1 = (- 25) sdiv uint (10 :: u64)"
proof -
  have s: "signed_divisor 0x66666667 34 32 = Some 10" by code_simp
  then have all: "\<forall>y. - (2 ^ (32 - 1)) \<le> y \<and> y < 2 ^ (32 - 1) \<longrightarrow>
      uint (0x66666667 :: u64) * y div 2 ^ 34 + (if y < 0 then 1 else 0) = y sdiv uint (10 :: u64)"
    by (subst (asm) signed_divisor_correct) simp_all
  show ?thesis using s all [rule_format, of "- 25"] by (simp del: uint_numeral)
qed

end
