(* ===== verification/Ir_Exec.thy ===== *)
theory Ir_Exec
  imports Ir_Arith Core_Memory Core_Arch
begin

text \<open>
  Runs of lifted code, \<open>crates/e5r-ir/src/exec.rs\<close>: fetch the bytes at the program counter, decode, lift,
  interpret, count. The instruction decoders (\<open>e5r_arch::decode\<close>) and the lifters (\<open>lift::lift\<close>) are
  arguments; of an instruction the run uses its address and its length (\<open>Insn\<close> of \<open>e5r-arch/src/insn.rs\<close>,
  whose other fields are the rest of an extensible record). The loop of \<open>run_with\<close> takes fuel: a result
  is \<open>None\<close> when the code panics and \<open>Some None\<close> when the fuel ran out.
\<close>

section \<open>Instructions\<close>

record insn =
  in_addr :: addr
  in_len :: u8

type_synonym 'z decoder = "arch \<Rightarrow> u8 list \<Rightarrow> addr \<Rightarrow> 'z insn_scheme option"
type_synonym 'z lifter = "arch \<Rightarrow> 'z insn_scheme \<Rightarrow> ir_op list \<times> bool"

definition insn_end :: "'z insn_scheme \<Rightarrow> addr" where
  "insn_end i = wrapping_offset (in_addr i) (ucast (in_len i))"

definition insn_next :: "'z insn_scheme \<Rightarrow> addr" where "insn_next i = insn_end i"

section \<open>One run\<close>

record outcome =
  oc_stop :: stop
  oc_insns :: nat
  oc_ops :: nat
  oc_unlifted :: "addr list"

definition returned_cleanly :: "outcome \<Rightarrow> bool" where
  "returned_cleanly c \<longleftrightarrow> oc_stop c = Returned \<and> oc_unlifted c = []"

text \<open>The variables of the loop of \<open>run_with\<close>.\<close>

record run_state =
  rs_pc :: addr
  rs_insns :: nat
  rs_ops :: nat
  rs_unlifted :: "addr list"
  rs_budget :: nat
  rs_frames :: nat

definition rs_outcome :: "stop \<Rightarrow> run_state \<Rightarrow> outcome" where
  "rs_outcome s st = \<lparr>oc_stop = s, oc_insns = rs_insns st, oc_ops = rs_ops st, oc_unlifted = rs_unlifted st\<rparr>"

text \<open>The operations of one instruction; \<open>rs_pc\<close> is \<open>next\<close>. A stop ends the run.\<close>

fun run_ops :: "nat \<Rightarrow> ir_op list \<Rightarrow> run_state \<Rightarrow> machine \<Rightarrow> (stop option \<times> run_state \<times> machine) panics" where
  "run_ops depth [] st m = Some (None, st, m)"
| "run_ops depth (i # is) st m = do {
     (r, m) \<leftarrow> ir_step i m;
     let st = st\<lparr>rs_budget := rs_budget st - 1, rs_ops := rs_ops st + 1\<rparr>;
     case r of
       Next \<Rightarrow> run_ops depth is st m
     | Jump t \<Rightarrow> Some (None, st\<lparr>rs_pc := t\<rparr>, m)
     | Call_to t \<Rightarrow>
         Some (if rs_frames st \<ge> depth then (Some (Stop_call t), st, m)
           else (None, st\<lparr>rs_frames := rs_frames st + 1, rs_pc := t\<rparr>, m))
     | Leave t \<Rightarrow>
         Some (if rs_frames st = 0 then (Some Returned, st, m)
           else (None, st\<lparr>rs_frames := rs_frames st - 1, rs_pc := t\<rparr>, m))
     | Halt s \<Rightarrow> Some (Some s, st, m) }"

fun run_loop :: "'z decoder \<Rightarrow> 'z lifter \<Rightarrow>
    memory_map \<Rightarrow> arch \<Rightarrow> nat \<Rightarrow> nat \<Rightarrow> run_state \<Rightarrow> machine \<Rightarrow> (outcome \<times> machine) option panics" where
  "run_loop decode lift img arch depth 0 st m = Some None"
| "run_loop decode lift img arch depth (Suc fuel) st m =
     (if rs_budget st = 0 then Some (Some (rs_outcome Budget st, m))
      else (case mm_decode_window img (rs_pc st) (max_insn_len arch) of
          None \<Rightarrow> Some (Some (rs_outcome (No_code (rs_pc st)) st, m))
        | Some window \<Rightarrow> (case decode arch window (rs_pc st) of
            None \<Rightarrow> Some (Some (rs_outcome (No_code (rs_pc st)) st, m))
          | Some insn \<Rightarrow>
              let (ops, complete) = lift arch insn;
                st = (if complete then st else st\<lparr>rs_unlifted := rs_unlifted st @ [rs_pc st]\<rparr>) in
              do {
                (stop, st, m) \<leftarrow> run_ops depth ops (st\<lparr>rs_pc := insn_next insn\<rparr>) (mc_end_instruction m);
                let st = st\<lparr>rs_insns := rs_insns st + 1\<rparr>;
                case stop of
                  Some s \<Rightarrow> Some (Some (rs_outcome s st, m))
                | None \<Rightarrow> run_loop decode lift img arch depth fuel st m })))"

definition run_start :: "addr \<Rightarrow> machine \<Rightarrow> run_state" where
  "run_start entry m = \<lparr>rs_pc = entry, rs_insns = 0, rs_ops = 0, rs_unlifted = [], rs_budget = mc_budget m, rs_frames = 0\<rparr>"

definition run_with :: "'z decoder \<Rightarrow> 'z lifter \<Rightarrow>
    nat \<Rightarrow> memory_map \<Rightarrow> arch \<Rightarrow> addr \<Rightarrow> nat \<Rightarrow> machine \<Rightarrow> (outcome \<times> machine) option panics" where
  "run_with decode lift fuel img arch entry depth m = run_loop decode lift img arch depth fuel (run_start entry m) m"

definition run_code :: "'z decoder \<Rightarrow> 'z lifter \<Rightarrow>
    nat \<Rightarrow> memory_map \<Rightarrow> arch \<Rightarrow> addr \<Rightarrow> machine \<Rightarrow> (outcome \<times> machine) option panics" where
  "run_code decode lift fuel img arch entry m = run_with decode lift fuel img arch entry 0 m"

section \<open>What a round of the loop does\<close>

lemma ir_step_halts: "ir_step i m = Some (Halt s, m') \<Longrightarrow> (\<exists>a. s = Stop_unimplemented a \<or> s = Divide_by_zero a)"
  by (auto simp: ir_step_def branch_target_def step_store_def step_value_def
    split: if_splits option.splits alu_result.splits bind_splits)

text \<open>The operations of an instruction use up the budget, if there is any operation, and keep the counts.\<close>

definition ops_counted :: "nat \<Rightarrow> nat \<Rightarrow> run_state \<Rightarrow> stop option \<Rightarrow> run_state \<Rightarrow> bool" where
  "ops_counted depth n st s st' \<longleftrightarrow>
     rs_budget st' \<le> rs_budget st \<and> (0 < n \<longrightarrow> 0 < rs_budget st \<longrightarrow> rs_budget st' < rs_budget st)
     \<and> rs_frames st' \<le> depth \<and> rs_insns st' = rs_insns st \<and> rs_unlifted st' = rs_unlifted st
     \<and> rs_ops st \<le> rs_ops st' \<and> rs_ops st' \<le> rs_ops st + n \<and> rs_budget st \<le> rs_budget st' + (rs_ops st' - rs_ops st)
     \<and> s \<noteq> Some Budget \<and> (\<forall>t. s = Some (Stop_call t) \<longrightarrow> rs_frames st' = depth) \<and> (s = Some Returned \<longrightarrow> rs_frames st' = 0)"

lemma run_ops_counts: "run_ops depth is st m = Some (s, st', m') \<Longrightarrow> rs_frames st \<le> depth \<Longrightarrow> ops_counted depth (length is) st s st'"
proof (induction "is" arbitrary: st m)
  case (Cons i "is")
  obtain r m1 where r: "ir_step i m = Some (r, m1)" using Cons.prems(1) by (auto split: bind_splits)
  let ?st = "st\<lparr>rs_budget := rs_budget st - 1, rs_ops := rs_ops st + 1\<rparr>"
  show ?case
  proof (cases r)
    case Next
    then have "ops_counted depth (length is) ?st s st'" using Cons r by simp
    then show ?thesis by (auto simp: ops_counted_def)
  next
    case (Halt h)
    then show ?thesis using Cons.prems r ir_step_halts [of i m h m1] by (auto simp: ops_counted_def Let_def)
  qed (use Cons.prems r in \<open>auto simp: ops_counted_def Let_def split: if_splits\<close>)
qed (simp add: ops_counted_def)

lemma run_ops_Nil: "run_ops depth [] st m = Some (s, st', m') \<longleftrightarrow> s = None \<and> st' = st \<and> m' = m"
  by auto

text \<open>One round of the loop: it ends the run or goes on from a later state.\<close>

definition run_round :: "'z decoder \<Rightarrow> 'z lifter \<Rightarrow>
    memory_map \<Rightarrow> arch \<Rightarrow> nat \<Rightarrow> run_state \<Rightarrow> machine \<Rightarrow> (stop option \<times> run_state \<times> machine) panics" where
  "run_round decode lift img arch depth st m =
     (if rs_budget st = 0 then Some (Some Budget, st, m)
      else (case Option.bind (mm_decode_window img (rs_pc st) (max_insn_len arch)) (\<lambda>w. decode arch w (rs_pc st)) of
          None \<Rightarrow> Some (Some (No_code (rs_pc st)), st, m)
        | Some insn \<Rightarrow>
            map_option (\<lambda>(s, st, m). (s, st\<lparr>rs_insns := rs_insns st + 1\<rparr>, m))
              (run_ops depth (fst (lift arch insn))
                (st\<lparr>rs_unlifted := rs_unlifted st @ (if snd (lift arch insn) then [] else [rs_pc st]), rs_pc := insn_next insn\<rparr>)
                (mc_end_instruction m))))"

lemma run_loop_round:
  "run_loop decode lift img arch depth (Suc fuel) st m =
     (case run_round decode lift img arch depth st m of
        None \<Rightarrow> None
      | Some (Some s, st, m) \<Rightarrow> Some (Some (rs_outcome s st, m))
      | Some (None, st, m) \<Rightarrow> run_loop decode lift img arch depth fuel st m)"
  by (auto simp: run_round_def Let_def split: option.split prod.split bind_split)

text \<open>What the decoders of the repository ensure (\<open>x86\<close>, \<open>aarch64\<close>, \<open>arm\<close> read their bytes through bounds
  checks and build the instruction at the address given): an instruction is at the address that was
  decoded, and has at least one byte and no more than there were.\<close>

definition decodes_within :: "'z decoder \<Rightarrow> arch \<Rightarrow> bool" where
  "decodes_within decode arch \<longleftrightarrow> (\<forall>w pc insn. decode arch w pc = Some insn \<longrightarrow>
     in_addr insn = pc \<and> 0 < in_len insn \<and> unat (in_len insn) \<le> length w)"

text \<open>A window ends inside its segment, so no instruction of a mapped image wraps around.\<close>

lemma window_bound:
  assumes "mm_ok img" and "mm_decode_window img pc k = Some w"
  shows "unat pc + length w < 2 ^ 64"
proof -
  obtain s where s: "segment_at img pc = Some s" "s \<in> set img" "range_contains (sg_range s) pc"
    using assms segment_at_mem [of img pc] by (auto simp: mm_decode_window_def mm_ok_def split: bind_splits)
  then have ok: "range_ok (sg_range s)" "length (sg_data s) \<le> unat (range_len (sg_range s))"
    using assms(1) by (simp_all add: mm_ok_def list_all_iff seg_ok_def)
  have le: "unat (seg_start s) \<le> unat pc" using s(3) by (simp add: range_contains_def seg_start_def word_le_nat_alt)
  then have d: "distance_to (ar_start (sg_range s)) pc = Some (pc - seg_start s)" "unat (pc - seg_start s) = unat pc - unat (seg_start s)"
    by (simp_all add: distance_to_def u64_checked_sub_def seg_start_def word_le_nat_alt unat_sub)
  have "w = take (min (length (drop (unat (pc - seg_start s)) (sg_data s))) (unat k)) (drop (unat (pc - seg_start s)) (sg_data s))"
    and "unat (pc - seg_start s) < length (sg_data s)"
    using assms(2) s(1) d(1) by (auto simp: mm_decode_window_def seg_slice_to_end_def split: if_splits)
  then have "length w \<le> length (sg_data s) - (unat pc - unat (seg_start s))" and "unat pc - unat (seg_start s) < length (sg_data s)"
    by (simp_all add: d(2))
  moreover have "length (sg_data s) \<le> unat (ar_end (sg_range s)) - unat (seg_start s)"
    using ok by (simp add: range_len_unat seg_start_def)
  ultimately have "unat pc + length w \<le> unat (ar_end (sg_range s))" using le by linarith
  then show ?thesis using unat_lt_exp [of "ar_end (sg_range s)"] by simp
qed

lemma unat_ucast_u8: "unat (ucast (x :: u8) :: u64) = unat x"
  using unat_lt_exp [of x] by (simp add: unsigned_ucast_eq take_bit_nat_eq_self)

lemma insn_next_later:
  assumes "mm_ok img" and "decodes_within decode arch"
    and "mm_decode_window img pc k = Some w" and "decode arch w pc = Some insn"
  shows "unat (insn_next insn) = unat pc + unat (in_len insn)" and "unat pc < unat (insn_next insn)"
proof -
  have i: "in_addr insn = pc" "0 < in_len insn" "unat (in_len insn) \<le> length w"
    using assms(2,4) by (auto simp: decodes_within_def)
  have "unat pc + unat (in_len insn) < 2 ^ 64" using window_bound [OF assms(1,3)] i(3) by simp
  then show n: "unat (insn_next insn) = unat pc + unat (in_len insn)"
    by (simp add: insn_next_def insn_end_def wrapping_offset_def i(1) unat_add_small unat_ucast_u8)
  show "unat pc < unat (insn_next insn)" using i(2) n by (simp add: word_less_nat_alt)
qed

lemma run_round_counts:
  assumes "run_round decode lift img arch depth st m = Some (s, st', m')" and "rs_frames st \<le> depth"
  shows "rs_frames st' \<le> depth \<and> rs_budget st \<le> rs_budget st' + (rs_ops st' - rs_ops st) \<and> rs_ops st \<le> rs_ops st'
    \<and> rs_insns st' \<le> rs_insns st + 1
    \<and> (s = Some Budget \<longrightarrow> rs_budget st' = 0) \<and> (\<forall>t. s = Some (Stop_call t) \<longrightarrow> rs_frames st' = depth)
    \<and> (s = Some Returned \<longrightarrow> rs_frames st' = 0)
    \<and> (mm_ok img \<longrightarrow> decodes_within decode arch \<longrightarrow> s = None \<longrightarrow>
        rs_budget st' < rs_budget st \<or> rs_budget st' = rs_budget st \<and> unat (rs_pc st) < unat (rs_pc st'))"
proof (cases "rs_budget st = 0")
  case False
  show ?thesis
  proof (cases "Option.bind (mm_decode_window img (rs_pc st) (max_insn_len arch)) (\<lambda>w. decode arch w (rs_pc st))")
    case (Some insn)
    let ?st = "st\<lparr>rs_unlifted := rs_unlifted st @ (if snd (lift arch insn) then [] else [rs_pc st]), rs_pc := insn_next insn\<rparr>"
    obtain st1 where ops: "run_ops depth (fst (lift arch insn)) ?st (mc_end_instruction m) = Some (s, st1, m')"
        "st' = st1\<lparr>rs_insns := rs_insns st1 + 1\<rparr>"
      using assms(1) False Some by (auto simp: run_round_def)
    have c: "ops_counted depth (length (fst (lift arch insn))) ?st s st1" using run_ops_counts [OF ops(1)] assms(2) by simp
    have adv: "unat (rs_pc st) < unat (insn_next insn)" if "mm_ok img" "decodes_within decode arch"
      using Some insn_next_later(2) [OF that] by (auto simp: bind_eq_Some_conv)
    have pc: "rs_pc st1 = insn_next insn \<and> rs_budget st1 = rs_budget st" if "fst (lift arch insn) = []"
      using ops(1) that by auto
    show ?thesis
      using c ops(2) adv pc False by (cases "fst (lift arch insn) = []") (auto simp: ops_counted_def)
  qed (use assms False in \<open>auto simp: run_round_def\<close>)
qed (use assms in \<open>auto simp: run_round_def\<close>)

lemma run_loop_ends:
  assumes "mm_ok img" and "decodes_within decode arch" and "rs_frames st \<le> depth"
  shows "\<exists>n r. r \<noteq> Some None \<and> (\<forall>fuel\<ge>n. run_loop decode lift img arch depth fuel st m = r)"
  using assms(3)
proof (induction "(rs_budget st, 2 ^ 64 - unat (rs_pc st))" arbitrary: st m rule: wf_induct_rule [OF wf_lex_prod [OF wf_less wf_less]])
  case 1
  let ?loop = "\<lambda>fuel. run_loop decode lift img arch depth fuel st m"
  show ?case
  proof (cases "run_round decode lift img arch depth st m")
    case None
    then have "?loop (Suc fuel) = None" for fuel by (simp only: run_loop_round option.case)
    then have "?loop fuel = None" if "1 \<le> fuel" for fuel using that by (cases fuel) simp_all
    then show ?thesis by (intro exI [of _ 1] exI [of _ None]) simp
  next
    case (Some p)
    obtain s st' m' where p: "p = (s, st', m')" by (cases p)
    show ?thesis
    proof (cases s)
      case (Some x)
      then have "?loop (Suc fuel) = Some (Some (rs_outcome x st', m'))" for fuel
        using \<open>run_round _ _ _ _ _ _ _ = _\<close> p by (simp only: run_loop_round option.case prod.case)
      then have "?loop fuel = Some (Some (rs_outcome x st', m'))" if "1 \<le> fuel" for fuel using that by (cases fuel) simp_all
      then show ?thesis by (intro exI [of _ 1] exI [of _ "Some (Some (rs_outcome x st', m'))"]) simp
    next
      case None
      then have round: "run_round decode lift img arch depth st m = Some (None, st', m')" using Some p by simp
      note c = run_round_counts [OF round "1.prems"]
      have "unat (rs_pc st') < 2 ^ 64" using unat_lt_exp [of "rs_pc st'"] by simp
      then have "rs_budget st' < rs_budget st \<or> rs_budget st' = rs_budget st \<and> 2 ^ 64 - unat (rs_pc st') < 2 ^ 64 - unat (rs_pc st)"
        using c assms(1,2) by auto
      then have "\<exists>n r. r \<noteq> Some None \<and> (\<forall>fuel\<ge>n. run_loop decode lift img arch depth fuel st' m' = r)"
        using "1.hyps" [of st' m'] c by simp
      then obtain n r where n: "r \<noteq> Some None" "\<And>fuel. n \<le> fuel \<Longrightarrow> run_loop decode lift img arch depth fuel st' m' = r"
        by blast
      have "?loop (Suc fuel) = run_loop decode lift img arch depth fuel st' m'" for fuel
        using round by (simp only: run_loop_round option.case prod.case)
      then have "?loop fuel = r" if "Suc n \<le> fuel" for fuel using that n(2) by (cases fuel) simp_all
      then show ?thesis using n(1) by blast
    qed
  qed
qed

text \<open>What a run that ended says of itself.\<close>

lemma run_loop_outcome:
  "run_loop decode lift img arch depth fuel st m = Some (Some (c, m')) \<Longrightarrow> rs_frames st \<le> depth \<Longrightarrow>
    rs_ops st \<le> oc_ops c \<and> (oc_stop c = Budget \<longrightarrow> rs_budget st \<le> oc_ops c - rs_ops st)
    \<and> oc_insns c \<le> rs_insns st + fuel"
proof (induction fuel arbitrary: st m)
  case (Suc fuel)
  obtain s st1 m1 where round: "run_round decode lift img arch depth st m = Some (s, st1, m1)"
    using Suc.prems(1) unfolding run_loop_round by (auto split: option.splits)
  note c = run_round_counts [OF round Suc.prems(2)]
  show ?case
  proof (cases s)
    case None
    then have "run_loop decode lift img arch depth fuel st1 m1 = Some (Some (c, m'))"
      using Suc.prems(1) round unfolding run_loop_round by simp
    then show ?thesis using Suc.IH c by fastforce
  next
    case (Some x)
    then have "c = rs_outcome x st1" using Suc.prems(1) round unfolding run_loop_round by simp
    then show ?thesis using c Some by (auto simp: rs_outcome_def)
  qed
qed simp

section \<open>Integer code does not panic\<close>

text \<open>The operations the interpreter cannot panic on, whatever the machine: operands of one to eight bytes
  whose offsets do not wrap, no floating point, a low half shorter than eight bytes, a constant byte
  position below eight, and one size for the low half of a wide dividend and its divisor.\<close>

definition vn_safe :: "varnode \<Rightarrow> bool" where
  "vn_safe v \<longleftrightarrow> 0 < vn_size v \<and> vn_size v \<le> 8 \<and> unat (vn_offset v) + vn_size v \<le> 2 ^ 64"

definition integer_op :: "ir_op \<Rightarrow> bool" where
  "integer_op i \<longleftrightarrow> list_all (\<lambda>v. 0 < vn_size v \<and> vn_size v \<le> 8 \<and> (vn_space v = Const_space \<or> vn_safe v)) (io_inputs i)
     \<and> (case io_out i of None \<Rightarrow> True | Some v \<Rightarrow> vn_safe v) \<and> \<not> is_float_op (io_op i)
     \<and> (io_op i = Piece \<longrightarrow> (case ir_input i 1 of None \<Rightarrow> True | Some v \<Rightarrow> vn_size v < 8))
     \<and> (io_op i = SubPiece \<longrightarrow> (case ir_input i 1 of None \<Rightarrow> True | Some v \<Rightarrow> vn_space v = Const_space \<and> unat (vn_offset v) < 8))
     \<and> (io_op i \<in> wide_division_ops \<longrightarrow> map_option vn_size (ir_input i 1) = map_option vn_size (ir_input i 2))"

lemma reg_loop_total: "\<forall>i\<in>set js. i < 8 \<and> unat off + i < 2 ^ 64 \<Longrightarrow> \<exists>x. reg_loop regs off js v = Some x"
  by (induction js arbitrary: v) (auto simp: add_offset_def byte_in_def)

lemma put_bytes_total: "\<forall>i\<in>set js. i < 8 \<and> unat off + i < 2 ^ 64 \<Longrightarrow> \<exists>x. put_bytes off v js regs = Some x"
  by (induction js arbitrary: regs) (auto simp: add_offset_def byte_out_def)

lemma read_loop_total: "\<forall>i\<in>set js. i < 8 \<Longrightarrow> \<exists>x m'. read_loop at0 js v m = Some (x, m')"
  by (induction js arbitrary: v m) (auto simp: byte_in_def split: prod.split)

lemma store_loop_total: "\<forall>i\<in>set js. i < 8 \<Longrightarrow> \<exists>x. store_loop at0 v js mem = Some x"
  by (induction js arbitrary: mem) (auto simp: byte_out_def)

text \<open>What a read returns: a value cut to the size, and for a constant the constant.\<close>

definition val_fits :: "varnode \<Rightarrow> u64 \<Rightarrow> bool" where
  "val_fits v x \<longleftrightarrow> x AND size_mask (vn_size v) = x \<and> (vn_space v = Const_space \<longrightarrow> x = vn_offset v AND size_mask (vn_size v))"

lemma mc_read_total:
  assumes "0 < vn_size v" "vn_size v \<le> 8" "vn_space v = Const_space \<or> vn_safe v"
  shows "\<exists>x m'. mc_read v m = Some (x, m') \<and> val_fits v x"
proof -
  have "\<exists>x m'. (case vn_space v of Const_space \<Rightarrow> Some (vn_offset v, m)
       | Register_space \<Rightarrow> map_option (\<lambda>x. (x, m)) (mc_reg m (vn_offset v) (vn_size v))
       | Unique_space \<Rightarrow> Some (case mc_temps m (vn_offset v) of None \<Rightarrow> 0 | Some x \<Rightarrow> x, m)
       | Stack_space \<Rightarrow> Some (case mc_temps m (vn_offset v) of None \<Rightarrow> 0 | Some x \<Rightarrow> x, m)
       | Ram_space \<Rightarrow> mc_read_mem (vn_offset v) (vn_size v) m) = Some (x, m') \<and> (vn_space v = Const_space \<longrightarrow> x = vn_offset v)"
    using assms reg_loop_total [of "[0..<vn_size v]" "vn_offset v" "mc_registers m" 0] read_loop_total [of "[0..<vn_size v]" "vn_offset v" 0 m]
    by (cases "vn_space v") (auto simp: vn_safe_def mc_reg_def mc_read_mem_def)
  then show ?thesis by (auto simp: mc_read_def val_fits_def vn_mask_def)
qed

lemma mc_write_total: "vn_safe v \<Longrightarrow> \<exists>m'. mc_write v x m = Some m'"
  using put_bytes_total [of "[0..<vn_size v]" "vn_offset v" "x AND vn_mask v"]
  by (cases "vn_space v") (auto simp: mc_write_def mc_set_reg_def vn_safe_def)

definition ins_fit :: "(u64 \<times> nat) list \<Rightarrow> bool" where
  "ins_fit ins \<longleftrightarrow> (\<forall>(x, z)\<in>set ins. 0 < z \<and> z \<le> 8 \<and> x AND size_mask z = x)"

lemma in_size_fit: "ins_fit ins \<Longrightarrow> 0 < d \<Longrightarrow> d \<le> 8 \<Longrightarrow> 0 < in_size ins n d \<and> in_size ins n d \<le> 8"
  by (auto simp: ins_fit_def in_size_def nth_in_def split: option.split if_splits prod.split dest!: nth_mem)

lemma in_sext_fit: "ins_fit ins \<Longrightarrow> in_sext ins n = 0 \<Longrightarrow> in_val ins n = 0"
  using ir_sext_eq_0 masked_less
  by (auto simp: ins_fit_def in_sext_def in_val_def nth_in_def split: option.splits if_splits prod.splits dest!: nth_mem)

lemma alu_shift_total: "bits \<le> 64 \<Longrightarrow> \<exists>v. alu_shift x bits a as y = Some v"
  by (auto simp: alu_shift_def alu_shl_def alu_shr_def)

lemma alu_wide_div_total:
  assumes "0 < z" "z \<le> 8" "d AND size_mask z = d" "d \<noteq> 0"
  shows "\<exists>v. alu_wide_div x z a b d = Some v"
proof -
  have nz: "ir_sext d z \<noteq> 0" using ir_sext_eq_0 [OF assms(1,2) masked_less [OF assms(3,2)]] assms(4) by simp
  have "\<exists>h. u128_shl w (z * 8) = Some h" for w using assms(2) by (simp add: u128_shl_def)
  moreover have "\<exists>h. ir_sext128 w (z * 8 * 2) = Some h" for w using assms(1) by (auto simp: ir_sext128_def u128_shl_def)
  ultimately obtain h n where "u128_shl (unat a) (z * 8) = Some h" "ir_sext128 (unat ((of_nat h :: u128) OR ucast b)) (z * 8 * 2) = Some n"
    by blast
  then show ?thesis using assms(4) nz by (simp add: alu_wide_div_def Let_def)
qed

lemma alu_total:
  assumes fit: "ins_fit ins" and f: "\<not> is_float_op x"
    and piece: "x = Piece \<Longrightarrow> in_size ins 1 0 < 8" and sub: "x = SubPiece \<Longrightarrow> unat (in_val ins 1) < 8"
    and wide: "x \<in> wide_division_ops \<Longrightarrow> in_val ins 2 \<noteq> 0 \<Longrightarrow> in_val ins 2 AND size_mask (in_size ins 1 8) = in_val ins 2"
  shows "\<exists>r. alu x n ins = Some r"
proof (cases "x \<in> division_ops \<and> in_val ins (divisor_at x) = 0")
  case False
  have sz: "0 < in_size ins k 8 \<and> in_size ins k 8 \<le> 8" for k using in_size_fit [OF fit] by simp
  have shift: "\<exists>v. alu_shift y (in_size ins 0 8 * 8) a as b = Some v" for y a as b
    using alu_shift_total [of "in_size ins 0 8 * 8"] sz [of 0] by simp
  have "\<exists>r. alu_int x ins = Some r"
  proof (cases "x \<in> wide_division_ops")
    case True
    then have nz: "in_val ins 2 \<noteq> 0" using False by (auto simp: wide_division_ops_def division_ops_def divisor_at_def)
    have "\<exists>v. alu_wide_div y (in_size ins 1 8) a b (in_val ins 2) = Some v" for y a b
      using alu_wide_div_total sz [of 1] wide [OF True nz] nz by blast
    then show ?thesis using True by (auto simp: wide_division_ops_def alu_int_def)
  next
    case narrow: False
    have "in_sext ins 1 \<noteq> 0" if "x \<in> {IntSDiv, IntSRem}"
      using that False in_sext_fit [OF fit, of 1] by (auto simp: division_ops_def divisor_at_def wide_division_ops_def)
    then show ?thesis
      using narrow shift piece sub sz [of 0]
      by (cases x) (auto simp: alu_int_def wide_division_ops_def alu_mul_high_def alu_shl_def alu_shr_def unat_times_8 unat_of_nat_small Let_def)
  qed
  then show ?thesis using False f by (simp add: alu_def)
qed (simp add: alu_def)

text \<open>The inputs of an operation, as they reach the arithmetic.\<close>

lemma integer_op_input:
  assumes "integer_op i" and "ir_input i n = Some v"
  shows "0 < vn_size v" "vn_size v \<le> 8" "vn_space v = Const_space \<or> vn_safe v"
  using assms by (auto simp: integer_op_def list_all_iff ir_input_def dest: nth_in_set)

definition input_fits :: "ir_op \<Rightarrow> nat \<Rightarrow> u64 \<Rightarrow> bool" where
  "input_fits i n x \<longleftrightarrow> (case ir_input i n of None \<Rightarrow> x = 0 | Some v \<Rightarrow> val_fits v x)"

lemma read_input_total:
  assumes "integer_op i"
  shows "\<exists>x m'. read_input i n m = Some (x, m') \<and> input_fits i n x"
proof (cases "ir_input i n")
  case (Some v)
  then show ?thesis
    using mc_read_total [OF integer_op_input [OF assms Some], of m] by (simp add: read_input_def input_fits_def)
qed (simp add: read_input_def input_fits_def)

lemma read_inputs_total:
  assumes "integer_op i"
  shows "\<exists>x y m'. read_inputs i m = Some (with_size i 0 x @ with_size i 1 y, m') \<and> input_fits i 0 x \<and> input_fits i 1 y"
proof -
  obtain x m1 where a: "read_input i 0 m = Some (x, m1)" "input_fits i 0 x" using read_input_total [OF assms] by blast
  obtain x' m2 where b: "read_input i 0 m1 = Some (x', m2)" using read_input_total [OF assms] by blast
  obtain y m3 where c: "read_input i 1 m2 = Some (y, m3)" "input_fits i 1 y" using read_input_total [OF assms] by blast
  obtain y' m4 where d: "read_input i 1 m3 = Some (y', m4)" using read_input_total [OF assms] by blast
  have "read_inputs i m = Some (with_size i 0 x @ with_size i 1 y, m4)" using a b c d by (simp add: read_inputs_def)
  then show ?thesis using a(2) c(2) by blast
qed

lemma read_third_total:
  assumes "integer_op i"
  shows "\<exists>ins' m'. read_third i ins m = Some (ins', m') \<and> (ins' = ins \<or> (\<exists>d. ins' = ins @ with_size i 2 d \<and> input_fits i 2 d))
    \<and> (io_op i \<in> wide_division_ops \<longrightarrow> (\<exists>d. ins' = ins @ with_size i 2 d \<and> input_fits i 2 d))"
proof -
  obtain d m1 where a: "read_input i (divisor_at (io_op i)) m = Some (d, m1)" "input_fits i (divisor_at (io_op i)) d"
    using read_input_total [OF assms] by blast
  obtain d' m2 where b: "read_input i 2 m1 = Some (d', m2)" "input_fits i 2 d'" using read_input_total [OF assms] by blast
  have "io_op i \<noteq> FloatMulAdd" using assms by (auto simp: integer_op_def is_float_op_def)
  moreover have "io_op i \<in> wide_division_ops \<Longrightarrow> io_op i \<in> division_ops" by (auto simp: wide_division_ops_def division_ops_def)
  ultimately show ?thesis using a b by (auto simp: read_third_def divisor_at_def)
qed

lemma with_size_fit: "integer_op i \<Longrightarrow> input_fits i n x \<Longrightarrow> ins_fit (with_size i n x)"
  using integer_op_input [of i n]
  by (auto simp: with_size_def ins_fit_def input_fits_def val_fits_def split: option.splits)

lemma ins_fit_append [simp]: "ins_fit (a @ b) \<longleftrightarrow> ins_fit a \<and> ins_fit b"
  by (auto simp: ins_fit_def)

lemma ir_input_before: "ir_input i n = None \<Longrightarrow> n \<le> k \<Longrightarrow> ir_input i k = None"
  by (auto simp: ir_input_def nth_in_def split: if_splits)

lemma second_input:
  "in_size (with_size i 0 x @ with_size i 1 y @ t) 1 d = (case ir_input i 1 of None \<Rightarrow> in_size t (1 - length (with_size i 0 x)) d | Some v \<Rightarrow> vn_size v)"
  "in_val (with_size i 0 x @ with_size i 1 y @ t) 1 = (case ir_input i 1 of None \<Rightarrow> in_val t (1 - length (with_size i 0 x)) | Some v \<Rightarrow> y)"
proof -
  have "ir_input i 0 = None \<Longrightarrow> ir_input i 1 = None" using ir_input_before [of i 0 1] by simp
  then show "in_size (with_size i 0 x @ with_size i 1 y @ t) 1 d = (case ir_input i 1 of None \<Rightarrow> in_size t (1 - length (with_size i 0 x)) d | Some v \<Rightarrow> vn_size v)"
    and "in_val (with_size i 0 x @ with_size i 1 y @ t) 1 = (case ir_input i 1 of None \<Rightarrow> in_val t (1 - length (with_size i 0 x)) | Some v \<Rightarrow> y)"
    by (auto simp: in_size_def in_val_def with_size_def nth_in_def split: option.splits)
qed

lemma third_input:
  assumes "ins = with_size i 0 x @ with_size i 1 y @ with_size i 2 d"
  shows "in_val ins 2 = (case ir_input i 2 of None \<Rightarrow> 0 | Some v \<Rightarrow> d)"
proof (cases "ir_input i 2")
  case None
  then have "length ins \<le> 2" by (simp add: assms with_size_def split: option.split)
  then show ?thesis using None by (simp add: in_val_def nth_in_def)
next
  case (Some v)
  then have "ir_input i 0 \<noteq> None" "ir_input i 1 \<noteq> None" using ir_input_before [of i 0 2] ir_input_before [of i 1 2] by auto
  then show ?thesis using Some by (auto simp: assms in_val_def with_size_def nth_in_def)
qed

lemma alu_inputs_total:
  assumes i: "integer_op i" and x: "input_fits i 0 x" and y: "input_fits i 1 y"
    and ins: "ins = with_size i 0 x @ with_size i 1 y \<and> io_op i \<notin> wide_division_ops
      \<or> (\<exists>d. ins = with_size i 0 x @ with_size i 1 y @ with_size i 2 d \<and> input_fits i 2 d)"
  shows "\<exists>r. alu (io_op i) n ins = Some r"
proof -
  obtain t where t: "ins = with_size i 0 x @ with_size i 1 y @ t" "ins_fit t"
      "io_op i \<notin> wide_division_ops \<and> t = [] \<or> (\<exists>d. t = with_size i 2 d \<and> input_fits i 2 d)"
  proof (cases "\<exists>d. ins = with_size i 0 x @ with_size i 1 y @ with_size i 2 d \<and> input_fits i 2 d")
    case True
    then obtain d where d: "ins = with_size i 0 x @ with_size i 1 y @ with_size i 2 d" "input_fits i 2 d" by blast
    show ?thesis by (rule that [OF d(1) with_size_fit [OF i d(2)]]) (use d(2) in blast)
  next
    case False
    then have "ins = with_size i 0 x @ with_size i 1 y \<and> io_op i \<notin> wide_division_ops" using ins by blast
    then show ?thesis using that [of "[]"] by (simp add: ins_fit_def)
  qed
  have none: "t = []" if "ir_input i 1 = None"
    using t(3) ir_input_before [OF that, of 2] by (auto simp: with_size_def)
  show ?thesis
  proof (rule alu_total)
    show "ins_fit ins" using t with_size_fit [OF i x] with_size_fit [OF i y] by simp
    show "\<not> is_float_op (io_op i)" using i by (simp add: integer_op_def)
    show "in_size ins 1 0 < 8" if "io_op i = Piece"
      using i that none unfolding t(1) second_input by (auto simp: integer_op_def in_size_def nth_in_def split: option.split)
    show "unat (in_val ins 1) < 8" if "io_op i = SubPiece"
    proof (cases "ir_input i 1")
      case (Some v)
      then have v: "vn_space v = Const_space" "unat (vn_offset v) < 8" using i that by (simp_all add: integer_op_def)
      then have "y = vn_offset v AND size_mask (vn_size v)" using y Some by (simp add: input_fits_def val_fits_def)
      then have "unat y \<le> unat (vn_offset v)" by (simp add: word_and_le2 word_le_nat_alt [symmetric])
      then show ?thesis using Some v(2) unfolding t(1) second_input by simp
    qed (use none in \<open>simp add: t(1) second_input [unfolded append.assoc] in_val_def nth_in_def with_size_def ir_input_def\<close>)
    show "in_val ins 2 AND size_mask (in_size ins 1 8) = in_val ins 2" if wide: "io_op i \<in> wide_division_ops" "in_val ins 2 \<noteq> 0"
    proof -
      obtain d where d: "t = with_size i 2 d" "input_fits i 2 d" using t(3) wide(1) by blast
      note third = third_input [OF t(1) [unfolded d(1)]]
      obtain w where w: "ir_input i 2 = Some w" "in_val ins 2 = d" using wide(2) third by (auto split: option.splits)
      obtain v where v: "ir_input i 1 = Some v" using ir_input_before [of i 1 2] w(1) by (cases "ir_input i 1") auto
      have "vn_size v = vn_size w" using i wide(1) v w(1) by (simp add: integer_op_def)
      then have "in_size ins 1 8 = vn_size w" using v unfolding t(1) second_input by simp
      then show ?thesis using d(2) w by (simp add: input_fits_def val_fits_def)
    qed
  qed
qed

lemma step_value_total:
  assumes i: "integer_op i" and out: "io_out i = Some out"
  shows "\<exists>r m'. step_value i out m = Some (r, m')"
proof -
  have o: "vn_safe out" using i out by (simp add: integer_op_def)
  obtain x y m1 where r: "read_inputs i m = Some (with_size i 0 x @ with_size i 1 y, m1)" "input_fits i 0 x" "input_fits i 1 y"
    using read_inputs_total [OF i] by blast
  let ?ins = "with_size i 0 x @ with_size i 1 y"
  have load: "\<exists>v m'. mc_read_mem a (vn_size out) m = Some (v, m')" for a m
    using o read_loop_total [of "[0..<vn_size out]" a 0 m] by (auto simp: mc_read_mem_def vn_safe_def)
  have wr: "\<exists>m'. mc_write out v m = Some m'" for v m by (rule mc_write_total [OF o])
  obtain ins m2 where t: "read_third i ?ins m1 = Some (ins, m2)"
      "?ins = ins \<and> io_op i \<notin> wide_division_ops \<or> (\<exists>d. ins = ?ins @ with_size i 2 d \<and> input_fits i 2 d)"
    using read_third_total [OF i, of ?ins m1] by auto
  obtain a where a: "alu (io_op i) (vn_size out) ins = Some a"
    using alu_inputs_total [OF i r(2,3), of ins "vn_size out"] t(2) by auto
  have "\<exists>r m'. (case a of Val v \<Rightarrow> map_option (\<lambda>m. (Next, m)) (mc_write out v m2)
        | Div_zero \<Rightarrow> Some (Halt (Divide_by_zero (io_addr i)), m2) | No_value \<Rightarrow> Some (Next, m2)) = Some (r, m')"
    using wr by (cases a) (auto simp: map_option_case split: option.split)
  moreover obtain v m3 where l: "mc_read_mem (in_val ?ins 0) (vn_size out) m1 = Some (v, m3)" using load by blast
  moreover obtain m4 where "mc_write out v m3 = Some m4" using wr by blast
  ultimately show ?thesis using r(1) t(1) a by (simp add: step_value_def)
qed

lemma ir_step_total:
  assumes i: "integer_op i"
  shows "\<exists>r m'. ir_step i m = Some (r, m')"
proof -
  have rd: "\<exists>x m'. read_input i n m = Some (x, m')" for n m using read_input_total [OF i] by blast
  obtain c0 m0 where c0: "read_input i 0 m = Some (c0, m0)" using rd by blast
  obtain c1 m1 where c1: "read_input i 1 m = Some (c1, m1)" using rd by blast
  have store: "\<exists>r m'. step_store i m = Some (r, m')"
  proof (cases "ir_input i 0 = None \<or> ir_input i 1 = None")
    case False
    then obtain a w where aw: "ir_input i 0 = Some a" "ir_input i 1 = Some w" by auto
    obtain p m2 where p: "mc_read a m = Some (p, m2)" using mc_read_total [OF integer_op_input [OF i aw(1)]] by blast
    obtain v m3 where v: "mc_read w m2 = Some (v, m3)" using mc_read_total [OF integer_op_input [OF i aw(2)]] by blast
    have "\<forall>k\<in>set [0..<vn_size w]. k < 8" using integer_op_input(2) [OF i aw(2)] by auto
    then obtain mem where "store_loop p v [0..<vn_size w] (mc_memory m3) = Some mem" using store_loop_total by blast
    then show ?thesis using aw p v by (simp add: step_store_def)
  qed (auto simp: step_store_def split: option.split)
  show ?thesis
    using c0 c1 store step_value_total [OF i] by (cases "io_out i") (auto simp: ir_step_def)
qed

lemma run_ops_total: "list_all integer_op is \<Longrightarrow> \<exists>s st' m'. run_ops depth is st m = Some (s, st', m')"
proof (induction "is" arbitrary: st m)
  case (Cons i "is")
  obtain r m1 where r: "ir_step i m = Some (r, m1)" using ir_step_total Cons.prems by fastforce
  then show ?case using Cons by (cases r) (simp_all add: Let_def)
qed simp

text \<open>The code of an image, at whatever address it is decoded, is integer code.\<close>

definition integer_code :: "'z decoder \<Rightarrow> 'z lifter \<Rightarrow> memory_map \<Rightarrow> arch \<Rightarrow> bool" where
  "integer_code decode lift img arch \<longleftrightarrow> (\<forall>pc w insn. mm_decode_window img pc (max_insn_len arch) = Some w \<longrightarrow>
     decode arch w pc = Some insn \<longrightarrow> list_all integer_op (fst (lift arch insn)))"

lemma run_loop_no_panic:
  assumes "integer_code decode lift img arch"
  shows "run_loop decode lift img arch depth fuel st m \<noteq> None"
proof (induction fuel arbitrary: st m)
  case (Suc fuel)
  have ops: "\<exists>q. run_ops depth (fst (lift arch insn)) st1 m1 = Some q"
    if "mm_decode_window img (rs_pc st) (max_insn_len arch) = Some w" "decode arch w (rs_pc st) = Some insn" for w insn st1 m1
    using assms that run_ops_total [of "fst (lift arch insn)" depth st1 m1] unfolding integer_code_def by blast
  have "run_round decode lift img arch depth st m \<noteq> None"
  proof (cases "rs_budget st = 0 \<or> Option.bind (mm_decode_window img (rs_pc st) (max_insn_len arch)) (\<lambda>w. decode arch w (rs_pc st)) = None")
    case False
    then obtain w insn where "mm_decode_window img (rs_pc st) (max_insn_len arch) = Some w" "decode arch w (rs_pc st) = Some insn"
      by (auto simp: bind_eq_Some_conv)
    with ops [OF this] False show ?thesis by (simp add: run_round_def)
  qed (auto simp: run_round_def)
  then obtain q where q: "run_round decode lift img arch depth st m = Some q" by blast
  obtain s1 st1 m1 where "q = (s1, st1, m1)" by (cases q)
  then show ?case using Suc q unfolding run_loop_round by (cases s1) simp_all
qed simp

section \<open>Runs end\<close>

text \<open>A decoder of two instructions of \<open>x86\<close>: \<open>nop\<close>, which lifts to no operation, and the short \<open>jmp\<close>.\<close>

record demo_insn = insn +
  di_target :: "addr option"

definition demo_decode :: "unit demo_insn_ext decoder" where
  "demo_decode a w pc = (
     if 1 \<le> length w \<and> w ! 0 = 0x90 then Some \<lparr>in_addr = pc, in_len = 1, di_target = None\<rparr>
     else if 2 \<le> length w \<and> w ! 0 = 0xEB then Some \<lparr>in_addr = pc, in_len = 2, di_target = Some (pc + 2 + scast (w ! 1))\<rparr>
     else None)"

definition demo_lift :: "unit demo_insn_ext lifter" where
  "demo_lift a i = (case di_target i of
      None \<Rightarrow> ([], True)
    | Some t \<Rightarrow> ([(ir_new (in_addr i) Branch None)\<lparr>io_inputs := [vn_constant t 8]\<rparr>], True))"

text \<open>A loop of two \<open>nop\<close> and a jump back, then a \<open>nop\<close> at the end of the segment.\<close>

definition demo_code :: memory_map where
  "demo_code = [\<lparr>sg_range = \<lparr>ar_start = 0x1000, ar_end = 0x1005\<rparr>, sg_perms = perms_RX, sg_name = ''t'', sg_file_offset = 0,
     sg_data = [0x90, 0x90, 0xEB, 0xFC, 0x90]\<rparr>]"

text \<open>C32: a run ends. The image is well formed and the decoder returns instructions that lie inside the
  bytes it was given (as those of the repository do: no instruction is empty, and none wraps around,
  because a window stays inside its segment). Then some fuel is enough, and more changes nothing; an
  instruction that lifts to no operation costs no budget, but leads to a later address. The run ends
  with an outcome unless one of the operations panics, and none does in integer code; and a run that
  ends for its budget has executed at least that many operations.\<close>

theorem run_ends:
  assumes "mm_ok img" and "decodes_within decode arch"
  shows "\<exists>n r. (\<forall>fuel\<ge>n. run_with decode lift fuel img arch entry depth m = r) \<and> r \<noteq> Some None
    \<and> (integer_code decode lift img arch \<longrightarrow> (\<exists>c m'. r = Some (Some (c, m'))))
    \<and> (\<forall>c m'. r = Some (Some (c, m')) \<longrightarrow> oc_stop c = Budget \<longrightarrow> mc_budget m \<le> oc_ops c)"
proof -
  have f: "rs_frames (run_start entry m) \<le> depth" by (simp add: run_start_def)
  obtain n r where n: "r \<noteq> Some None" "\<And>fuel. n \<le> fuel \<Longrightarrow> run_with decode lift fuel img arch entry depth m = r"
    using run_loop_ends [OF assms f] unfolding run_with_def by metis
  have "mc_budget m \<le> oc_ops c" if "r = Some (Some (c, m'))" "oc_stop c = Budget" for c m'
    using run_loop_outcome [OF _ f, of decode lift img arch n m c m'] n(2) [of n] that by (simp add: run_with_def run_start_def)
  moreover have "\<exists>c m'. r = Some (Some (c, m'))" if "integer_code decode lift img arch"
    using run_loop_no_panic [OF that, of depth n "run_start entry m" m] n(1) n(2) [of n] by (auto simp: run_with_def)
  ultimately show ?thesis using n by blast
qed

lemma demo_decodes_within: "decodes_within demo_decode a"
  by (auto simp: decodes_within_def demo_decode_def split: list.splits if_splits)

lemma demo_code_ok: "mm_ok demo_code"
  by code_simp

lemma demo_integer_code: "integer_code demo_decode demo_lift img a"
  by (auto simp: integer_code_def demo_lift_def integer_op_def ir_new_def vn_constant_def is_float_op_def float_arith_ops_def
    float_test_ops_def wide_division_ops_def split: option.split)

theorem run_ends_witness:
  "\<exists>n c m'. run_with demo_decode demo_lift n demo_code X86_64 0x1000 0 (mc_new\<lparr>mc_budget := 3\<rparr>) = Some (Some (c, m'))
    \<and> fst (demo_lift X86_64 \<lparr>in_addr = 0x1000, in_len = 1, di_target = None\<rparr>) = []"
proof -
  obtain n r where r: "run_with demo_decode demo_lift n demo_code X86_64 0x1000 0 (mc_new\<lparr>mc_budget := 3\<rparr>) = r"
      "\<exists>c m'. r = Some (Some (c, m'))"
    using run_ends [OF demo_code_ok demo_decodes_within, of demo_lift X86_64 "0x1000" 0 "mc_new\<lparr>mc_budget := 3\<rparr>"] demo_integer_code
    by (metis order_refl)
  then show ?thesis by (auto simp: demo_lift_def)
qed

end
