(* ===== verification/Sla_Inflate.thy ===== *)
theory Sla_Inflate
  imports Core_Bytes
begin

text \<open>
  The decompressor of \<open>crates/e5r-sla/src/inflate.rs\<close>: the bit reader, canonical Huffman tables, the
  three kinds of DEFLATE block and the zlib wrapper. A reader is passed along explicitly; an error is
  \<open>Inl\<close>. The 32-bit buffer of the reader is kept at its width. The counters of a table (\<open>u16\<close>, of at
  most 320 code lengths), code lengths (\<open>u8\<close>, at most 18) and symbols are naturals; \<open>left\<close> and the code
  under construction (\<open>i32\<close>, below \<open>2 ^ 16\<close>) are integers.
\<close>

section \<open>Errors\<close>

datatype inflate_error =
    Z_truncated | Z_bad_header | Z_preset_dictionary | Z_reserved_block | Z_stored_mismatch
  | Z_bad_table | Z_bad_code | Z_distance | Z_limit | Z_checksum

primrec inflate_error_str :: "inflate_error \<Rightarrow> string" where
  "inflate_error_str Z_truncated = ''compressed stream ends early''"
| "inflate_error_str Z_bad_header = ''not a zlib header''"
| "inflate_error_str Z_preset_dictionary = ''zlib preset dictionary not supported''"
| "inflate_error_str Z_reserved_block = ''reserved deflate block type''"
| "inflate_error_str Z_stored_mismatch = ''stored block length mismatch''"
| "inflate_error_str Z_bad_table = ''malformed huffman table''"
| "inflate_error_str Z_bad_code = ''undecodable huffman code''"
| "inflate_error_str Z_distance = ''back reference before start of output''"
| "inflate_error_str Z_limit = ''decompressed size over limit''"
| "inflate_error_str Z_checksum = ''adler-32 mismatch''"

section \<open>The bit reader\<close>

record bit_reader =
  br_data :: "u8 list"
  br_pos :: nat
  br_buf :: u32
  br_have :: nat

type_synonym 'a inflates = "inflate_error + 'a \<times> bit_reader"

definition br_new :: "u8 list \<Rightarrow> bit_reader" where
  "br_new d = \<lparr>br_data = d, br_pos = 0, br_buf = 0, br_have = 0\<rparr>"

text \<open>The bits a reader has left, which every read lowers.\<close>

definition br_left :: "bit_reader \<Rightarrow> nat" where
  "br_left r = 8 * (length (br_data r) - br_pos r) + br_have r"

function br_refill :: "nat \<Rightarrow> bit_reader \<Rightarrow> inflate_error + bit_reader" where
  "br_refill n r = (if br_have r < n then
      (if br_pos r < length (br_data r) then
         br_refill n (r\<lparr>br_pos := br_pos r + 1, br_buf := br_buf r OR push_bit (br_have r) (ucast (br_data r ! br_pos r)),
           br_have := br_have r + 8\<rparr>)
       else Inl Z_truncated)
     else Inr r)"
  by auto
termination by (relation "measure (\<lambda>(n, r). n - br_have r)") auto

declare br_refill.simps [simp del]

definition br_bits :: "nat \<Rightarrow> bit_reader \<Rightarrow> u32 inflates" where
  "br_bits n r = (case br_refill n r of
     Inl e \<Rightarrow> Inl e
   | Inr r \<Rightarrow> Inr (if n = 32 then br_buf r else br_buf r AND (push_bit n 1 - 1),
       r\<lparr>br_buf := drop_bit n (br_buf r), br_have := br_have r - n\<rparr>))"

definition br_align :: "bit_reader \<Rightarrow> bit_reader" where
  "br_align r = (let drop = br_have r mod 8 in r\<lparr>br_buf := drop_bit drop (br_buf r), br_have := br_have r - drop\<rparr>)"

definition br_byte :: "bit_reader \<Rightarrow> u8 inflates" where
  "br_byte r = (if 8 \<le> br_have r then
      Inr (ucast (br_buf r AND 0xff), r\<lparr>br_buf := drop_bit 8 (br_buf r), br_have := br_have r - 8\<rparr>)
    else if br_pos r < length (br_data r) then Inr (br_data r ! br_pos r, r\<lparr>br_pos := br_pos r + 1\<rparr>)
    else Inl Z_truncated)"

definition br_remaining :: "bit_reader \<Rightarrow> nat" where
  "br_remaining r = length (br_data r) - br_pos r + br_have r div 8"

lemma br_refill_left: "br_refill n r = Inr r' \<Longrightarrow> br_left r' = br_left r \<and> n \<le> br_have r'"
proof (induction n r rule: br_refill.induct)
  case (1 n r)
  show ?case
  proof (cases "br_have r < n")
    case True
    then have pos: "br_pos r < length (br_data r)" using "1.prems" by (subst (asm) br_refill.simps) (simp split: if_splits)
    then show ?thesis using 1 True by (subst (asm) (2) br_refill.simps) (simp add: br_left_def)
  qed (use "1.prems" in \<open>simp add: br_refill.simps\<close>)
qed

lemma br_bits_left: "br_bits n r = Inr (v, r') \<Longrightarrow> br_left r' + n = br_left r"
  using br_refill_left [of n r] by (auto simp: br_bits_def br_left_def split: sum.splits)

lemma br_byte_left: "br_byte r = Inr (v, r') \<Longrightarrow> br_left r' + 8 = br_left r"
  by (auto simp: br_byte_def br_left_def split: if_splits)

lemma br_align_left: "br_left (br_align r) \<le> br_left r"
  by (simp add: br_align_def br_left_def Let_def)

section \<open>Huffman tables\<close>

record huffman =
  hf_counts :: "nat list"
  hf_symbols :: "nat list"

definition max_bits :: nat where "max_bits = 15"

fun count_lengths :: "nat list \<Rightarrow> nat list \<Rightarrow> inflate_error + nat list" where
  "count_lengths [] cs = Inr cs"
| "count_lengths (l # ls) cs = (if l > max_bits then Inl Z_bad_table else count_lengths ls (cs[l := cs ! l + 1]))"

text \<open>No code is given to two symbols: the codes left at each length stay at zero or above.\<close>

fun subscribed :: "int \<Rightarrow> nat list \<Rightarrow> bool" where
  "subscribed left [] \<longleftrightarrow> True"
| "subscribed left (c # cs) \<longleftrightarrow> (let left = left * 2 - int c in 0 \<le> left \<and> subscribed left cs)"

definition code_offsets :: "nat list \<Rightarrow> nat list" where
  "code_offsets counts = fold (\<lambda>n os. os[n + 1 := os ! n + counts ! n]) [1..<max_bits + 1] (replicate (max_bits + 2) 0)"

fun place_symbols :: "nat \<Rightarrow> nat list \<Rightarrow> nat list \<Rightarrow> nat list \<Rightarrow> inflate_error + nat list" where
  "place_symbols x [] os ss = Inr ss"
| "place_symbols x (l # ls) os ss = (if l \<noteq> 0 then
      (let slot = os ! l in
       if slot \<ge> length ss then Inl Z_bad_table else place_symbols (x + 1) ls (os[l := slot + 1]) (ss[slot := x]))
    else place_symbols (x + 1) ls os ss)"

definition huffman_new :: "nat list \<Rightarrow> inflate_error + huffman" where
  "huffman_new lengths = (case count_lengths lengths (replicate (max_bits + 1) 0) of
     Inl e \<Rightarrow> Inl e
   | Inr counts \<Rightarrow>
       if \<not> subscribed 1 (drop 1 counts) then Inl Z_bad_table
       else (case place_symbols 0 lengths (code_offsets counts) (replicate (length lengths) 0) of
           Inl e \<Rightarrow> Inl e
         | Inr symbols \<Rightarrow> Inr \<lparr>hf_counts = counts, hf_symbols = symbols\<rparr>))"

text \<open>The loop of \<open>decode\<close> over the code lengths, on the list of their counts.\<close>

fun decode_loop :: "nat list \<Rightarrow> nat list \<Rightarrow> int \<Rightarrow> int \<Rightarrow> int \<Rightarrow> bit_reader \<Rightarrow> nat inflates" where
  "decode_loop symbols [] code first index r = Inl Z_bad_code"
| "decode_loop symbols (c # cs) code first index r = (case br_bits 1 r of
     Inl e \<Rightarrow> Inl e
   | Inr (b, r) \<Rightarrow>
       let code = code OR uint b; count = int c in
       if code - first < count then
         (let slot = index + (code - first) in
          if 0 \<le> slot \<and> nat slot < length symbols then Inr (symbols ! nat slot, r) else Inl Z_bad_code)
       else decode_loop symbols cs (push_bit 1 code) (push_bit 1 (first + count)) (index + count) r)"

definition huffman_decode :: "huffman \<Rightarrow> bit_reader \<Rightarrow> nat inflates" where
  "huffman_decode h r = decode_loop (hf_symbols h) (drop 1 (hf_counts h)) 0 0 0 r"

lemma decode_loop_left: "decode_loop ss cs code first index r = Inr (s, r') \<Longrightarrow> br_left r' < br_left r"
proof (induction ss cs code first index r rule: decode_loop.induct)
  case (2 ss c cs code first index r)
  obtain b r1 where b: "br_bits 1 r = Inr (b, r1)" using "2.prems" by (auto split: sum.splits)
  note left = br_bits_left [OF b]
  note b = b [unfolded One_nat_def]
  show ?case
  proof (cases "(code OR uint b) - first < int c")
    case True
    then show ?thesis using "2.prems" left by (auto simp: b Let_def split: if_splits)
  next
    case False
    then have "br_left r' < br_left r1" using 2 by (simp add: b Let_def)
    then show ?thesis using left by simp
  qed
qed simp

lemma huffman_decode_left: "huffman_decode h r = Inr (s, r') \<Longrightarrow> br_left r' < br_left r"
  unfolding huffman_decode_def by (rule decode_loop_left)

section \<open>The tables of a block\<close>

definition len_base :: "nat list" where
  "len_base = [3, 4, 5, 6, 7, 8, 9, 10, 11, 13, 15, 17, 19, 23, 27, 31, 35, 43, 51, 59, 67, 83, 99, 115, 131, 163, 195, 227, 258]"

definition len_extra :: "nat list" where
  "len_extra = [0, 0, 0, 0, 0, 0, 0, 0, 1, 1, 1, 1, 2, 2, 2, 2, 3, 3, 3, 3, 4, 4, 4, 4, 5, 5, 5, 5, 0]"

definition dist_base :: "nat list" where
  "dist_base = [1, 2, 3, 4, 5, 7, 9, 13, 17, 25, 33, 49, 65, 97, 129, 193, 257, 385, 513, 769, 1025, 1537,
     2049, 3073, 4097, 6145, 8193, 12289, 16385, 24577]"

definition dist_extra :: "nat list" where
  "dist_extra = [0, 0, 0, 0, 1, 1, 2, 2, 3, 3, 4, 4, 5, 5, 6, 6, 7, 7, 8, 8, 9, 9, 10, 10, 11, 11, 12, 12, 13, 13]"

definition fixed_lengths :: "nat list" where
  "fixed_lengths = map (\<lambda>i. if i \<le> 143 then 8 else if i \<le> 255 then 9 else if i \<le> 279 then 7 else 8) [0..<288]"

definition two_tables :: "nat list \<Rightarrow> nat list \<Rightarrow> inflate_error + huffman \<times> huffman" where
  "two_tables ls ds = (case huffman_new ls of
     Inl e \<Rightarrow> Inl e
   | Inr litlen \<Rightarrow> (case huffman_new ds of Inl e \<Rightarrow> Inl e | Inr dtab \<Rightarrow> Inr (litlen, dtab)))"

definition fixed_tables :: "inflate_error + huffman \<times> huffman" where
  "fixed_tables = two_tables fixed_lengths (replicate 32 5)"

definition code_order :: "nat list" where
  "code_order = [16, 17, 18, 0, 8, 7, 9, 6, 10, 5, 11, 4, 12, 3, 13, 2, 14, 1, 15]"

fun read_order :: "nat list \<Rightarrow> nat list \<Rightarrow> bit_reader \<Rightarrow> nat list inflates" where
  "read_order [] ls r = Inr (ls, r)"
| "read_order (slot # slots) ls r = (case br_bits 3 r of
     Inl e \<Rightarrow> Inl e
   | Inr (b, r) \<Rightarrow> read_order slots (ls[slot := unat b]) r)"

definition fill_range :: "nat \<Rightarrow> nat \<Rightarrow> 'a \<Rightarrow> 'a list \<Rightarrow> 'a list" where
  "fill_range i rep v xs = take i xs @ replicate rep v @ drop (i + rep) xs"

text \<open>The number of times a repeat code repeats, and the length it repeats.\<close>

definition repeat_code :: "nat \<Rightarrow> nat list \<Rightarrow> nat \<Rightarrow> bit_reader \<Rightarrow> (nat \<times> nat) inflates" where
  "repeat_code s ls i r =
     (if s = 16 then
        (if i = 0 then Inl Z_bad_table
         else (case br_bits 2 r of Inl e \<Rightarrow> Inl e | Inr (b, r) \<Rightarrow> Inr ((3 + unat b, ls ! (i - 1)), r)))
      else if s = 17 then (case br_bits 3 r of Inl e \<Rightarrow> Inl e | Inr (b, r) \<Rightarrow> Inr ((3 + unat b, 0), r))
      else if s = 18 then (case br_bits 7 r of Inl e \<Rightarrow> Inl e | Inr (b, r) \<Rightarrow> Inr ((11 + unat b, 0), r))
      else Inl Z_bad_code)"

lemma repeat_code_left: "repeat_code s ls i r = Inr (v, r') \<Longrightarrow> br_left r' \<le> br_left r"
  by (auto simp: repeat_code_def split: if_splits sum.splits dest!: br_bits_left)

function read_lengths :: "huffman \<Rightarrow> nat \<Rightarrow> nat list \<Rightarrow> nat \<Rightarrow> bit_reader \<Rightarrow> nat list inflates" where
  "read_lengths tree tot ls i r = (if i < tot then
      (case huffman_decode tree r of
         Inl e \<Rightarrow> Inl e
       | Inr (s, r) \<Rightarrow>
           if s \<le> 15 then read_lengths tree tot (ls[i := s]) (i + 1) r
           else (case repeat_code s ls i r of
               Inl e \<Rightarrow> Inl e
             | Inr ((rep, v), r) \<Rightarrow>
                 if i + rep > tot then Inl Z_bad_table
                 else read_lengths tree tot (fill_range i rep v ls) (i + rep) r))
     else Inr (ls, r))"
  by auto
termination
  by (relation "measure (\<lambda>(_, _, _, _, r). br_left r)")
    (auto dest!: huffman_decode_left repeat_code_left)

declare read_lengths.simps [simp del]

definition dynamic_tables :: "bit_reader \<Rightarrow> (huffman \<times> huffman) inflates" where
  "dynamic_tables r = (case br_bits 5 r of Inl e \<Rightarrow> Inl e | Inr (a, r) \<Rightarrow>
     case br_bits 5 r of Inl e \<Rightarrow> Inl e | Inr (b, r) \<Rightarrow>
     case br_bits 4 r of Inl e \<Rightarrow> Inl e | Inr (c, r) \<Rightarrow>
     let hlit = unat a + 257; hdist = unat b + 1; hclen = unat c + 4 in
     if hlit > 286 \<or> hdist > 30 then Inl Z_bad_table
     else (case read_order (take hclen code_order) (replicate 19 0) r of Inl e \<Rightarrow> Inl e | Inr (cl, r) \<Rightarrow>
       case huffman_new cl of Inl e \<Rightarrow> Inl e | Inr tree \<Rightarrow>
       case read_lengths tree (hlit + hdist) (replicate (hlit + hdist) 0) 0 r of Inl e \<Rightarrow> Inl e | Inr (ls, r) \<Rightarrow>
       if ls ! 256 = 0 then Inl Z_bad_table
       else (case two_tables (take hlit ls) (drop hlit ls) of Inl e \<Rightarrow> Inl e | Inr t \<Rightarrow> Inr (t, r))))"

lemma read_order_left: "read_order slots ls r = Inr (v, r') \<Longrightarrow> br_left r' \<le> br_left r"
  by (induction slots ls r rule: read_order.induct) (fastforce split: sum.splits dest: br_bits_left)+

lemma read_lengths_left: "read_lengths tree tot ls i r = Inr (v, r') \<Longrightarrow> br_left r' \<le> br_left r"
proof (induction tree tot ls i r rule: read_lengths.induct)
  case (1 tree tot ls i r)
  show ?case
  proof (cases "i < tot")
    case True
    note eq = read_lengths.simps [of tree tot ls i r]
    obtain s r1 where d: "huffman_decode tree r = Inr (s, r1)" using "1.prems" True by (auto simp: eq split: sum.splits)
    note left = huffman_decode_left [OF d]
    show ?thesis
    proof (cases "s \<le> 15")
      case True
      then show ?thesis using 1(1) [OF \<open>i < tot\<close> d refl] "1.prems" left \<open>i < tot\<close> by (simp add: eq d)
    next
      case False
      then obtain rep w r2 where c: "repeat_code s ls i r1 = Inr ((rep, w), r2)" "\<not> tot < i + rep"
          "read_lengths tree tot (fill_range i rep w ls) (i + rep) r2 = Inr (v, r')"
        using "1.prems" \<open>i < tot\<close> by (auto simp: eq d split: sum.splits if_splits)
      then show ?thesis
        using 1(2) [OF \<open>i < tot\<close> d refl False c(1) refl refl c(2,3)] repeat_code_left [OF c(1)] left by simp
    qed
  qed (use "1.prems" in \<open>simp add: read_lengths.simps\<close>)
qed

lemma dynamic_tables_left: "dynamic_tables r = Inr (t, r') \<Longrightarrow> br_left r' \<le> br_left r"
  by (fastforce simp: dynamic_tables_def Let_def split: if_splits sum.splits prod.splits
    dest: br_bits_left read_order_left read_lengths_left)

section \<open>Blocks\<close>

fun copy_back :: "nat \<Rightarrow> nat \<Rightarrow> u8 list \<Rightarrow> u8 list" where
  "copy_back 0 src out = out"
| "copy_back (Suc n) src out = copy_back n (src + 1) (out @ [out ! src])"

fun stored_copy :: "nat \<Rightarrow> u8 list \<Rightarrow> bit_reader \<Rightarrow> u8 list inflates" where
  "stored_copy 0 out r = Inr (out, r)"
| "stored_copy (Suc n) out r = (case br_byte r of Inl e \<Rightarrow> Inl e | Inr (b, r) \<Rightarrow> stored_copy n (out @ [b]) r)"

definition read_u16 :: "bit_reader \<Rightarrow> u32 inflates" where
  "read_u16 r = (case br_byte r of Inl e \<Rightarrow> Inl e | Inr (a, r) \<Rightarrow>
     case br_byte r of Inl e \<Rightarrow> Inl e | Inr (b, r) \<Rightarrow> Inr (ucast a OR push_bit 8 (ucast b), r))"

definition stored_block :: "nat \<Rightarrow> u8 list \<Rightarrow> bit_reader \<Rightarrow> u8 list inflates" where
  "stored_block limit out r = (case read_u16 (br_align r) of Inl e \<Rightarrow> Inl e | Inr (len, r) \<Rightarrow>
     case read_u16 r of Inl e \<Rightarrow> Inl e | Inr (nlen, r) \<Rightarrow>
     if len XOR 0xffff \<noteq> nlen then Inl Z_stored_mismatch
     else if unat len > br_remaining r then Inl Z_truncated
     else if length out + unat len > limit then Inl Z_limit
     else stored_copy (unat len) out r)"

text \<open>The rest of a match after its length symbol: its length and its distance.\<close>

definition read_match :: "huffman \<Rightarrow> nat \<Rightarrow> bit_reader \<Rightarrow> (nat \<times> nat) inflates" where
  "read_match dtab s r = (let li = s - 257 in
     if li \<ge> length len_base then Inl Z_bad_code
     else (case br_bits (len_extra ! li) r of Inl e \<Rightarrow> Inl e | Inr (x, r) \<Rightarrow>
       case huffman_decode dtab r of Inl e \<Rightarrow> Inl e | Inr (ds, r) \<Rightarrow>
       if ds \<ge> length dist_base then Inl Z_bad_code
       else (case br_bits (dist_extra ! ds) r of Inl e \<Rightarrow> Inl e | Inr (y, r) \<Rightarrow>
         Inr ((len_base ! li + unat x, dist_base ! ds + unat y), r))))"

lemma read_match_left: "read_match dtab s r = Inr (v, r') \<Longrightarrow> br_left r' \<le> br_left r"
  by (fastforce simp: read_match_def Let_def split: if_splits sum.splits prod.splits dest: br_bits_left huffman_decode_left)

function coded_block :: "huffman \<Rightarrow> huffman \<Rightarrow> nat \<Rightarrow> u8 list \<Rightarrow> bit_reader \<Rightarrow> u8 list inflates" where
  "coded_block litlen dtab limit out r = (case huffman_decode litlen r of
     Inl e \<Rightarrow> Inl e
   | Inr (s, r) \<Rightarrow>
       if s < 256 then
         (if length out \<ge> limit then Inl Z_limit else coded_block litlen dtab limit (out @ [of_nat s]) r)
       else if s = 256 then Inr (out, r)
       else (case read_match dtab s r of
           Inl e \<Rightarrow> Inl e
         | Inr ((len, distance), r) \<Rightarrow>
             if distance > length out then Inl Z_distance
             else if length out + len > limit then Inl Z_limit
             else coded_block litlen dtab limit (copy_back len (length out - distance) out) r))"
  by auto
termination
  by (relation "measure (\<lambda>(_, _, _, _, r). br_left r)") (auto dest!: huffman_decode_left read_match_left)

declare coded_block.simps [simp del]

definition inflate_block :: "nat \<Rightarrow> nat \<Rightarrow> u8 list \<Rightarrow> bit_reader \<Rightarrow> u8 list inflates" where
  "inflate_block kind limit out r =
     (if kind = 0 then stored_block limit out r
      else if kind = 1 then (case fixed_tables of Inl e \<Rightarrow> Inl e | Inr (litlen, dtab) \<Rightarrow> coded_block litlen dtab limit out r)
      else if kind = 2 then (case dynamic_tables r of Inl e \<Rightarrow> Inl e | Inr ((litlen, dtab), r) \<Rightarrow> coded_block litlen dtab limit out r)
      else Inl Z_reserved_block)"

lemma stored_copy_left: "stored_copy n out r = Inr (v, r') \<Longrightarrow> br_left r' \<le> br_left r"
  by (induction n out r rule: stored_copy.induct) (fastforce split: sum.splits dest: br_byte_left)+

lemma read_u16_left: "read_u16 r = Inr (v, r') \<Longrightarrow> br_left r' \<le> br_left r"
  by (fastforce simp: read_u16_def split: sum.splits dest: br_byte_left)

lemma stored_block_left: "stored_block limit out r = Inr (v, r') \<Longrightarrow> br_left r' \<le> br_left r"
  using br_align_left [of r]
  by (fastforce simp: stored_block_def split: sum.splits if_splits dest: read_u16_left stored_copy_left)

lemma coded_block_left: "coded_block litlen dtab limit out r = Inr (v, r') \<Longrightarrow> br_left r' \<le> br_left r"
proof (induction litlen dtab limit out r rule: coded_block.induct)
  case (1 litlen dtab limit out r)
  note eq = coded_block.simps [of litlen dtab limit out r]
  obtain s r1 where d: "huffman_decode litlen r = Inr (s, r1)" using "1.prems" by (auto simp: eq split: sum.splits)
  note left = huffman_decode_left [OF d]
  consider "s < 256" | "s = 256" | "256 < s" by linarith
  then show ?case
  proof cases
    case 1
    then show ?thesis using "1.IH"(1) [OF d refl] "1.prems" left by (auto simp: eq d split: if_splits)
  next
    case 2
    then show ?thesis using "1.prems" left by (simp add: eq d)
  next
    case 3
    then obtain len dd r2 where c: "read_match dtab s r1 = Inr ((len, dd), r2)" "\<not> length out < dd" "\<not> limit < length out + len"
        "coded_block litlen dtab limit (copy_back len (length out - dd) out) r2 = Inr (v, r')"
      using "1.prems" by (auto simp: eq d split: sum.splits if_splits)
    then show ?thesis using "1.IH"(2) [OF d refl _ _ c(1) refl refl c(2-4)] 3 read_match_left [OF c(1)] left by simp
  qed
qed

lemma inflate_block_left: "inflate_block kind limit out r = Inr (v, r') \<Longrightarrow> br_left r' \<le> br_left r"
  by (fastforce simp: inflate_block_def split: if_splits sum.splits dest: stored_block_left coded_block_left dynamic_tables_left)

function inflate_loop :: "nat \<Rightarrow> u8 list \<Rightarrow> bit_reader \<Rightarrow> inflate_error + u8 list" where
  "inflate_loop limit out r = (case br_bits 1 r of
     Inl e \<Rightarrow> Inl e
   | Inr (fin, r) \<Rightarrow> (case br_bits 2 r of
       Inl e \<Rightarrow> Inl e
     | Inr (kind, r) \<Rightarrow> (case inflate_block (unat kind) limit out r of
         Inl e \<Rightarrow> Inl e
       | Inr (out, r) \<Rightarrow> if fin \<noteq> 0 then Inr out else inflate_loop limit out r)))"
  by auto
termination
  by (relation "measure (\<lambda>(_, _, r). br_left r)") (auto dest!: br_bits_left inflate_block_left)

declare inflate_loop.simps [simp del]

definition inflate :: "u8 list \<Rightarrow> nat \<Rightarrow> inflate_error + u8 list" where
  "inflate d limit = inflate_loop limit [] (br_new d)"

section \<open>The zlib wrapper\<close>

function slice_chunks :: "nat \<Rightarrow> 'a list \<Rightarrow> 'a list list" where
  "slice_chunks n xs = (if xs = [] \<or> n = 0 then [] else take n xs # slice_chunks n (drop n xs))"
  by auto
termination by (relation "measure (\<lambda>(n, xs). length xs)") auto

declare slice_chunks.simps [simp del]

definition adler_byte :: "u8 \<Rightarrow> u32 \<times> u32 \<Rightarrow> u32 \<times> u32" where
  "adler_byte x = (\<lambda>(a, b). let a = a + ucast x in (a, b + a))"

definition adler_chunk :: "u8 list \<Rightarrow> u32 \<times> u32 \<Rightarrow> u32 \<times> u32" where
  "adler_chunk c ab = (case fold adler_byte c ab of (a, b) \<Rightarrow> (a mod 65521, b mod 65521))"

definition adler32 :: "u8 list \<Rightarrow> u32" where
  "adler32 d = (case fold adler_chunk (slice_chunks 5552 d) (1, 0) of (a, b) \<Rightarrow> push_bit 16 b OR a)"

definition inflate_zlib :: "u8 list \<Rightarrow> nat \<Rightarrow> inflate_error + u8 list" where
  "inflate_zlib d limit = (if length d < 6 then Inl Z_truncated
     else (let cmf = d ! 0; flg = d ! 1 in
       if cmf AND 0x0f \<noteq> 8 \<or> drop_bit 4 cmf > 7 then Inl Z_bad_header
       else if (unat cmf * 256 + unat flg) mod 31 \<noteq> 0 then Inl Z_bad_header
       else if flg AND 0x20 \<noteq> 0 then Inl Z_preset_dictionary
       else (case inflate (take (length d - 6) (drop 2 d)) limit of
           Inl e \<Rightarrow> Inl e
         | Inr out \<Rightarrow>
             if unat (adler32 out) \<noteq> be_val (drop (length d - 4) d) then Inl Z_checksum else Inr out)))"

end
