(* ===== verification/Sla_Deflate.thy ===== *)
theory Sla_Deflate
  imports Sla_Inflate
begin

text \<open>
  The compressor of \<open>crates/e5r-sla/src/deflate.rs\<close>: stored blocks, and one block of LZ77 with the fixed
  Huffman codes. The hash table (\<open>head\<close>, indexed by a hash below \<open>2 ^ 15\<close>) and the chains (\<open>prev\<close>,
  indexed by positions of the input) are functions, updated at an index; positions are stored at 32
  bits, as in the code, and \<open>u32::MAX\<close> ends a chain.
\<close>

section \<open>Stored blocks\<close>

datatype level = Stored | Fixed

definition u16_le :: "nat \<Rightarrow> u8 list" where
  "u16_le n = le_bytes 2 (n mod 2 ^ 16)"

text \<open>The complement of a 16-bit length.\<close>

definition u16_not :: "nat \<Rightarrow> nat" where
  "u16_not n = unat (NOT (of_nat n :: 16 word))"

fun stored_chunks :: "u8 list list \<Rightarrow> u8 list" where
  "stored_chunks [] = []"
| "stored_chunks (c # cs) = (let fin = cs = [] in
     (if fin then 1 else 0) # u16_le (length c) @ u16_le (u16_not (length c)) @ c @ stored_chunks cs)"

definition stored_blocks :: "u8 list \<Rightarrow> u8 list" where
  "stored_blocks d = (let cs = slice_chunks 0xffff d in
     if cs = [] then 1 # u16_le 0 @ u16_le (u16_not 0) else stored_chunks cs)"

section \<open>The bit writer\<close>

record bit_writer =
  bw_out :: "u8 list"
  bw_bits :: u32
  bw_n :: nat

function bw_drain :: "bit_writer \<Rightarrow> bit_writer" where
  "bw_drain w = (if 8 \<le> bw_n w then
      bw_drain (w\<lparr>bw_out := bw_out w @ [ucast (bw_bits w)], bw_bits := drop_bit 8 (bw_bits w), bw_n := bw_n w - 8\<rparr>)
    else w)"
  by auto
termination by (relation "measure bw_n") auto

declare bw_drain.simps [simp del]

definition bw_put :: "u32 \<Rightarrow> nat \<Rightarrow> bit_writer \<Rightarrow> bit_writer" where
  "bw_put v n w = bw_drain (w\<lparr>bw_bits := bw_bits w OR push_bit (bw_n w) (v AND (push_bit n 1 - 1)), bw_n := bw_n w + n\<rparr>)"

definition rev_code :: "u32 \<Rightarrow> nat \<Rightarrow> u32" where
  "rev_code code n = fold (\<lambda>i r. r OR push_bit i (drop_bit (n - 1 - i) code AND 1)) [0..<n] 0"

definition bw_put_code :: "u32 \<Rightarrow> nat \<Rightarrow> bit_writer \<Rightarrow> bit_writer" where
  "bw_put_code code n w = bw_put (rev_code code n) n w"

definition bw_flush :: "bit_writer \<Rightarrow> bit_writer" where
  "bw_flush w = (if 0 < bw_n w then w\<lparr>bw_out := bw_out w @ [ucast (bw_bits w)], bw_bits := 0, bw_n := 0\<rparr> else w)"

section \<open>The fixed codes\<close>

definition fixed_lit :: "u32 \<Rightarrow> u32 \<times> nat" where
  "fixed_lit s = (if s \<le> 143 then (0x30 + s, 8) else if s \<le> 255 then (0x190 + s - 144, 9)
     else if s \<le> 279 then (s - 256, 7) else (0xc0 + s - 280, 8))"

text \<open>The last base not above a number, searched from the end, and 0 when there is none.\<close>

fun last_base :: "nat list \<Rightarrow> nat \<Rightarrow> nat \<Rightarrow> nat" where
  "last_base base v 0 = 0"
| "last_base base v (Suc i) = (if v < base ! Suc i then last_base base v i else Suc i)"

definition length_code :: "nat \<Rightarrow> nat \<times> nat \<times> nat" where
  "length_code len = (let i = last_base len_base len 28 in (257 + i, len_extra ! i, len - len_base ! i))"

definition distance_code :: "nat \<Rightarrow> nat \<times> nat \<times> nat" where
  "distance_code d = (let i = last_base dist_base d 29 in (i, dist_extra ! i, d - dist_base ! i))"

section \<open>Matches\<close>

definition lz_window :: nat where "lz_window = 32768"
definition min_match :: nat where "min_match = 3"
definition max_match :: nat where "max_match = 258"
definition max_chain :: nat where "max_chain = 128"

definition hash3 :: "u8 \<Rightarrow> u8 \<Rightarrow> u8 \<Rightarrow> nat" where
  "hash3 a b c = (let v = push_bit 16 (ucast a) OR push_bit 8 (ucast b) OR ucast c in unat (drop_bit (32 - 15) (v * 0x9e3779b1 :: u32)))"

lemma hash3_less: "hash3 a b c < 2 ^ 15"
proof -
  have "unat (drop_bit 17 v) < 2 ^ 15" for v :: u32
    using unat_lt_exp [of v] by (simp add: unat_drop_bit less_mult_imp_div_less)
  then show ?thesis by (simp add: hash3_def Let_def)
qed

type_synonym heads = "nat \<Rightarrow> u32"

function match_len :: "u8 list \<Rightarrow> nat \<Rightarrow> nat \<Rightarrow> nat \<Rightarrow> nat \<Rightarrow> nat" where
  "match_len d c pos limit n = (if n < limit \<and> d ! (c + n) = d ! (pos + n) then match_len d c pos limit (n + 1) else n)"
  by auto
termination by (relation "measure (\<lambda>(_, _, _, limit, n). limit - n)") auto

declare match_len.simps [simp del]

text \<open>The loop over the candidates of a chain: \<open>best\<close> is a length and a distance.\<close>

function match_loop :: "u8 list \<Rightarrow> nat \<Rightarrow> heads \<Rightarrow> nat \<Rightarrow> nat \<Rightarrow> nat \<Rightarrow> u32 \<Rightarrow> nat \<times> nat \<Rightarrow> nat \<Rightarrow> nat \<times> nat" where
  "match_loop d pos prev nice limit low cand best tries =
     (if cand = - 1 then best
      else (let c = unat cand in
        if c < low \<or> c \<ge> pos then best
        else if fst best \<ge> limit then best
        else (let n = match_len d c pos limit 0;
            better = (fst best = 0 \<or> d ! (c + fst best) = d ! (pos + fst best)) \<and> n > fst best;
            best = (if better then (n, pos - c) else best) in
          if better \<and> n \<ge> nice then best
          else if tries + 1 \<ge> max_chain then best
          else match_loop d pos prev nice limit low (prev c) best (tries + 1))))"
  by auto
termination by (relation "measure (\<lambda>(_, _, _, _, _, _, _, _, tries). max_chain - tries)") (auto simp: Let_def)

declare match_loop.simps [simp del]

definition best_match :: "u8 list \<Rightarrow> nat \<Rightarrow> heads \<Rightarrow> heads \<Rightarrow> nat \<Rightarrow> (nat \<times> nat) option" where
  "best_match d pos head prev nice = (if pos + min_match > length d then None
     else (let limit = min (length d - pos) max_match; h = hash3 (d ! pos) (d ! (pos + 1)) (d ! (pos + 2));
         best = match_loop d pos prev nice limit (pos - lz_window) (head h) (0, 0) 0 in
       if fst best \<ge> min_match then Some best else None))"

section \<open>The block\<close>

definition hash_insert :: "u8 list \<Rightarrow> nat \<Rightarrow> heads \<times> heads \<Rightarrow> heads \<times> heads" where
  "hash_insert d p = (\<lambda>(head, prev). if p + min_match \<le> length d then
       (let h = hash3 (d ! p) (d ! (p + 1)) (d ! (p + 2)) in (head(h := of_nat p), prev(p := head h)))
     else (head, prev))"

text \<open>Lazy matching: a strictly longer match one byte later is worth a literal.\<close>

definition lazy_match :: "u8 list \<Rightarrow> nat \<Rightarrow> heads \<Rightarrow> heads \<Rightarrow> (nat \<times> nat) option" where
  "lazy_match d pos head prev = (case best_match d pos head prev 32 of
     None \<Rightarrow> None
   | Some (len, distance) \<Rightarrow>
       if len < max_match then
         (case best_match d (pos + 1) head prev 32 of
            Some (len2, _) \<Rightarrow> if len2 > len then None else Some (len, distance)
          | None \<Rightarrow> Some (len, distance))
       else Some (len, distance))"

definition put_literal :: "u32 \<Rightarrow> bit_writer \<Rightarrow> bit_writer" where
  "put_literal s w = (case fixed_lit s of (code, n) \<Rightarrow> bw_put_code code n w)"

definition put_match :: "nat \<Rightarrow> nat \<Rightarrow> bit_writer \<Rightarrow> bit_writer" where
  "put_match len distance w =
     (case length_code len of (lc, lextra, lval) \<Rightarrow>
      let w = put_literal (of_nat lc) w;
          w = (if 0 < lextra then bw_put (of_nat lval) lextra w else w) in
      case distance_code distance of (dc, dextra, dval) \<Rightarrow>
      let w = bw_put_code (of_nat dc) 5 w in
      if 0 < dextra then bw_put (of_nat dval) dextra w else w)"

lemma best_match_long: "best_match d pos head prev nice = Some (len, distance) \<Longrightarrow> 3 \<le> len \<and> pos + 3 \<le> length d"
  by (auto simp: best_match_def min_match_def Let_def split: if_splits)

lemma lazy_match_best: "lazy_match d pos head prev = Some m \<Longrightarrow> best_match d pos head prev 32 = Some m"
  by (auto simp: lazy_match_def split: option.splits if_splits)

function fixed_loop :: "u8 list \<Rightarrow> nat \<Rightarrow> heads \<times> heads \<Rightarrow> bit_writer \<Rightarrow> bit_writer" where
  "fixed_loop d pos hp w = (if pos < length d then
      (case lazy_match d pos (fst hp) (snd hp) of
         Some (len, distance) \<Rightarrow>
           fixed_loop d (pos + len) (fold (\<lambda>i. hash_insert d (pos + i)) [0..<len] hp) (put_match len distance w)
       | None \<Rightarrow> fixed_loop d (pos + 1) (hash_insert d pos hp) (put_literal (ucast (d ! pos)) w))
     else w)"
  by auto
termination
  by (relation "measure (\<lambda>(d, pos, _, _). length d - pos)") (auto dest!: lazy_match_best best_match_long)

declare fixed_loop.simps [simp del]

definition fixed_blocks :: "u8 list \<Rightarrow> u8 list" where
  "fixed_blocks d = (let w = \<lparr>bw_out = [], bw_bits = 0, bw_n = 0\<rparr>;
      w = bw_put 1 2 (bw_put 1 1 w);
      w = fixed_loop d 0 (\<lambda>_. - 1, \<lambda>_. - 1) w in
    bw_out (bw_flush (put_literal 256 w)))"

section \<open>Streams\<close>

definition deflate :: "u8 list \<Rightarrow> level \<Rightarrow> u8 list" where
  "deflate d lv = (case lv of Stored \<Rightarrow> stored_blocks d | Fixed \<Rightarrow> fixed_blocks d)"

text \<open>The checksum of the compressor, a copy of the other's.\<close>

definition deflate_adler32 :: "u8 list \<Rightarrow> u32" where
  "deflate_adler32 d = (case fold (\<lambda>c ab. case fold (\<lambda>x (a, b). (a + ucast x, b + (a + ucast x))) c ab of (a, b) \<Rightarrow> (a mod 65521, b mod 65521))
     (slice_chunks 5552 d) (1, 0) of (a, b) \<Rightarrow> push_bit 16 b OR a)"

definition deflate_zlib :: "u8 list \<Rightarrow> level \<Rightarrow> u8 list" where
  "deflate_zlib d lv = 0x78 # 0x9c # (case lv of Stored \<Rightarrow> stored_blocks d | Fixed \<Rightarrow> fixed_blocks d)
     @ be_bytes 4 (unat (deflate_adler32 d))"

end
