(* ===== verification/Sla_Tree.thy ===== *)
theory Sla_Tree
  imports Core_Bytes
begin

text \<open>
  The tagged tree of a \<open>.sla\<close> payload: \<open>crates/e5r-sla/src/decode.rs\<close> and \<open>encode.rs\<close>. A text is the list of
  its UTF-8 bytes. A raw number read from at most sixteen seven-bit chunks is a natural below
  \<open>2 ^ 112\<close>, which the code's \<open>u128\<close> holds; a signed value is the code's \<open>i128\<close>. The cursor is the
  position; the stack of open elements has the innermost first. \<open>D_panics\<close> is no error of the code: it is the panic
  when the end of a text passes \<open>2 ^ 64\<close>, where the checked addition overflows or, unchecked, the slice that
  follows ends before it starts. A text that ends inside the payload cannot get there.
\<close>

section \<open>Values and elements\<close>

datatype decode_error =
    D_truncated nat | D_bad_tag nat u8 | D_mismatched nat u32 u32 | D_unbalanced nat | D_unclosed u32 | D_stray_attribute nat
  | D_too_deep nat | D_string_overruns nat nat | D_not_utf8 nat | D_empty | D_panics

datatype sla_value = V_Bool bool | V_Signed int | V_Unsigned nat | V_Space u32 | V_Text "u8 list" | V_Other u8 nat

definition value_as_u64 :: "sla_value \<Rightarrow> u64 option" where
  "value_as_u64 v = (case v of
     V_Signed i \<Rightarrow> if 0 \<le> i \<and> i < 2 ^ 64 then Some (of_int i) else None
   | V_Unsigned n \<Rightarrow> if n < 2 ^ 64 then Some (of_nat n) else None
   | V_Space s \<Rightarrow> Some (ucast s)
   | V_Bool b \<Rightarrow> Some (if b then 1 else 0)
   | _ \<Rightarrow> None)"

text \<open>A 64-bit signed result, as the integer it is.\<close>

definition value_as_i64 :: "sla_value \<Rightarrow> int option" where
  "value_as_i64 v = (case v of
     V_Signed i \<Rightarrow> if - (2 ^ 63) \<le> i \<and> i < 2 ^ 63 then Some i else None
   | V_Unsigned n \<Rightarrow> if n < 2 ^ 63 then Some (int n) else None
   | V_Space s \<Rightarrow> Some (uint s)
   | _ \<Rightarrow> None)"

definition value_as_bool :: "sla_value \<Rightarrow> bool option" where
  "value_as_bool v = (case v of V_Bool b \<Rightarrow> Some b | _ \<Rightarrow> None)"

definition value_as_str :: "sla_value \<Rightarrow> u8 list option" where
  "value_as_str v = (case v of V_Text s \<Rightarrow> Some s | _ \<Rightarrow> None)"

definition value_as_space :: "sla_value \<Rightarrow> u32 option" where
  "value_as_space v = (case v of V_Space s \<Rightarrow> Some s | _ \<Rightarrow> None)"

datatype sla_node = Node (nd_id: u32) (nd_attrs: "(u32 \<times> sla_value) list") (nd_children: "sla_node list") (nd_start: nat) (nd_end: nat)

definition node_len :: "sla_node \<Rightarrow> nat" where "node_len n = nd_end n - nd_start n"
definition node_is_empty :: "sla_node \<Rightarrow> bool" where "node_is_empty n \<longleftrightarrow> nd_end n = nd_start n"

definition node_own_len :: "sla_node \<Rightarrow> nat" where
  "node_own_len n = node_len n - sum_list (map node_len (nd_children n))"

definition node_attr :: "sla_node \<Rightarrow> u32 \<Rightarrow> sla_value option" where
  "node_attr n i = map_option snd (find (\<lambda>(a, _). a = i) (nd_attrs n))"

definition node_child :: "sla_node \<Rightarrow> u32 \<Rightarrow> sla_node option" where
  "node_child n i = find (\<lambda>c. nd_id c = i) (nd_children n)"

text \<open>The elements in the order \<open>visit\<close> calls its function on them.\<close>

fun node_visit :: "sla_node \<Rightarrow> sla_node list" where
  "node_visit (Node i as cs s e) = Node i as cs s e # concat (map node_visit cs)"

section \<open>Reading\<close>

text \<open>Well-formed UTF-8, as \<open>core::str::from_utf8\<close> decides it: no overlong form, no surrogate, nothing above
  \<open>0x10FFFF\<close>.\<close>

definition utf8_tail :: "u8 \<Rightarrow> bool" where "utf8_tail b \<longleftrightarrow> 0x80 \<le> b \<and> b \<le> 0xBF"

fun utf8_ok :: "u8 list \<Rightarrow> bool" where
  "utf8_ok [] \<longleftrightarrow> True"
| "utf8_ok (b # bs) \<longleftrightarrow>
     (if b \<le> 0x7F then utf8_ok bs
      else if 0xC2 \<le> b \<and> b \<le> 0xDF then (case bs of c # bs' \<Rightarrow> utf8_tail c \<and> utf8_ok bs' | _ \<Rightarrow> False)
      else if 0xE0 \<le> b \<and> b \<le> 0xEF then
        (case bs of c # d # bs' \<Rightarrow>
           (if b = 0xE0 then 0xA0 \<le> c \<and> c \<le> 0xBF else if b = 0xED then 0x80 \<le> c \<and> c \<le> 0x9F else utf8_tail c)
           \<and> utf8_tail d \<and> utf8_ok bs' | _ \<Rightarrow> False)
      else if 0xF0 \<le> b \<and> b \<le> 0xF4 then
        (case bs of c # d # e # bs' \<Rightarrow>
           (if b = 0xF0 then 0x90 \<le> c \<and> c \<le> 0xBF else if b = 0xF4 then 0x80 \<le> c \<and> c \<le> 0x8F else utf8_tail c)
           \<and> utf8_tail d \<and> utf8_tail e \<and> utf8_ok bs' | _ \<Rightarrow> False)
      else False)"

type_synonym 'a decodes = "decode_error + 'a \<times> nat"

definition cur_byte :: "u8 list \<Rightarrow> nat \<Rightarrow> u8 decodes" where
  "cur_byte d pos = (if pos < length d then Inr (d ! pos, pos + 1) else Inl (D_truncated pos))"

fun chunk_loop :: "u8 list \<Rightarrow> nat \<Rightarrow> nat \<Rightarrow> nat \<Rightarrow> nat \<times> nat" where
  "chunk_loop d 0 v pos = (v, pos)"
| "chunk_loop d (Suc n) v pos = chunk_loop d n (v * 2 ^ 7 + unat (d ! pos AND 0x7f)) (pos + 1)"

definition cur_chunks :: "u8 list \<Rightarrow> nat \<Rightarrow> nat \<Rightarrow> nat decodes" where
  "cur_chunks d n pos = (if pos + n > length d then Inl (D_truncated pos) else Inr (chunk_loop d n 0 pos))"

definition as_u32 :: "nat \<Rightarrow> u32" where
  "as_u32 n = (if n < 2 ^ 32 then of_nat n else - 1)"

definition typed_value :: "u8 list \<Rightarrow> nat \<Rightarrow> u8 \<Rightarrow> nat \<Rightarrow> nat \<Rightarrow> sla_value decodes" where
  "typed_value d pos kind raw p =
     (if kind = 2 then Inr (V_Signed (if raw < 2 ^ 127 then int raw else 2 ^ 127 - 1), p)
      else if kind = 3 then Inr (V_Signed (if raw < 2 ^ 127 then - int raw else - (2 ^ 127)), p)
      else if kind = 4 then Inr (V_Unsigned raw, p)
      else if kind = 5 then Inr (V_Space (as_u32 raw), p)
      else if kind = 7 then
        (if raw \<ge> 2 ^ 64 then Inl (D_string_overruns pos raw)
         else if p + raw > length d then Inl (if p + raw \<ge> 2 ^ 64 then D_panics else D_string_overruns pos raw)
         else if utf8_ok (take raw (drop p d)) then Inr (V_Text (take raw (drop p d)), p + raw)
         else Inl (D_not_utf8 pos))
      else Inr (V_Other kind raw, p))"

definition cur_value :: "u8 list \<Rightarrow> nat \<Rightarrow> sla_value decodes" where
  "cur_value d pos = (case cur_byte d pos of Inl e \<Rightarrow> Inl e | Inr (head, p) \<Rightarrow>
     let kind = drop_bit 4 head; count = unat (head AND 0x0f) in
     if kind = 1 then Inr (V_Bool (count \<noteq> 0), p)
     else (case cur_chunks d count p of Inl e \<Rightarrow> Inl e | Inr (raw, p) \<Rightarrow> typed_value d pos kind raw p))"

definition max_depth :: nat where "max_depth = 128"

text \<open>A tag: its kind and its identifier.\<close>

definition cur_tag :: "u8 list \<Rightarrow> nat \<Rightarrow> (u8 \<times> u32) decodes" where
  "cur_tag d pos = (case cur_byte d pos of Inl e \<Rightarrow> Inl e | Inr (head, p) \<Rightarrow>
     let kind = drop_bit 5 head in
     if kind \<in> {0b010, 0b100, 0b110} then Inr ((kind, as_u32 (unat (head AND 0x1f))), p)
     else if kind \<in> {0b011, 0b101, 0b111} then
       (case cur_chunks d (unat (head AND 0x0f) + 1) p of Inl e \<Rightarrow> Inl e | Inr (i, p) \<Rightarrow> Inr ((kind, as_u32 i), p))
     else Inl (D_bad_tag pos head))"

lemma cur_byte_pos: "cur_byte d pos = Inr (v, p) \<Longrightarrow> p = pos + 1 \<and> pos < length d"
  by (simp add: cur_byte_def split: if_splits)

lemma chunk_loop_pos: "chunk_loop d n v pos = (w, p) \<Longrightarrow> p = pos + n"
  by (induction d n v pos rule: chunk_loop.induct) auto

lemma cur_chunks_pos: "cur_chunks d n pos = Inr (v, p) \<Longrightarrow> p = pos + n \<and> p \<le> length d"
  by (auto simp: cur_chunks_def split: if_splits dest: chunk_loop_pos)

lemma cur_tag_pos: "cur_tag d pos = Inr (v, p) \<Longrightarrow> pos < p \<and> p \<le> length d"
  by (auto simp: cur_tag_def Let_def split: if_splits sum.splits dest!: cur_byte_pos cur_chunks_pos)

lemma typed_value_pos: "typed_value d pos kind raw p = Inr (v, p') \<Longrightarrow> p \<le> length d \<Longrightarrow> p \<le> p' \<and> p' \<le> length d"
  by (simp only: typed_value_def split: if_splits) (simp_all only: sum.inject prod.inject sum.distinct, simp_all)

lemma cur_value_pos:
  assumes "cur_value d pos = Inr (v, p)"
  shows "pos < p \<and> p \<le> length d"
proof -
  obtain head p1 where b: "cur_byte d pos = Inr (head, p1)" using assms by (auto simp: cur_value_def split: sum.splits)
  note p1 = cur_byte_pos [OF b]
  show ?thesis
  proof (cases "drop_bit 4 head = 1")
    case True
    then show ?thesis using assms p1 by (simp add: cur_value_def b Let_def)
  next
    case False
    then obtain raw p2 where c: "cur_chunks d (unat (head AND 0x0f)) p1 = Inr (raw, p2)" "typed_value d pos (drop_bit 4 head) raw p2 = Inr (v, p)"
      using assms by (simp add: cur_value_def b Let_def split: sum.splits prod.splits)
    then show ?thesis using p1 cur_chunks_pos [OF c(1)] typed_value_pos [OF c(2)] by simp
  qed
qed

function tree_loop :: "u8 list \<Rightarrow> nat \<Rightarrow> sla_node list \<Rightarrow> sla_node option \<Rightarrow> decode_error + sla_node" where
  "tree_loop d pos stack rt = (if pos < length d then
      (if rt \<noteq> None then Inl (D_unbalanced pos)
       else (case cur_tag d pos of Inl e \<Rightarrow> Inl e | Inr ((kind, i), p) \<Rightarrow>
         if kind = 0b010 \<or> kind = 0b011 then
           (if length stack \<ge> max_depth then Inl (D_too_deep pos)
            else tree_loop d p (Node i [] [] pos pos # stack) None)
         else if kind = 0b100 \<or> kind = 0b101 then
           (case stack of
              [] \<Rightarrow> Inl (D_unbalanced pos)
            | Node j as cs s e # stack \<Rightarrow>
                if j \<noteq> i then Inl (D_mismatched pos j i)
                else (case stack of
                    Node k pas pcs ps pe # stack \<Rightarrow> tree_loop d p (Node k pas (pcs @ [Node j as cs s p]) ps pe # stack) None
                  | [] \<Rightarrow> tree_loop d p [] (Some (Node j as cs s p))))
         else (case cur_value d p of Inl e \<Rightarrow> Inl e | Inr (v, p) \<Rightarrow>
             (case stack of
                [] \<Rightarrow> Inl (D_stray_attribute pos)
              | Node j as cs s e # stack \<Rightarrow> tree_loop d p (Node j (as @ [(i, v)]) cs s e # stack) None))))
     else (case rt of
         Some r \<Rightarrow> Inr r
       | None \<Rightarrow> Inl (D_unclosed (case stack of [] \<Rightarrow> 0 | n # _ \<Rightarrow> nd_id n))))"
  by pat_completeness auto
termination
  by (relation "measure (\<lambda>(d, pos, _, _). length d - pos)") (auto dest!: cur_tag_pos cur_value_pos)

declare tree_loop.simps [simp del]

definition decode_tree :: "u8 list \<Rightarrow> decode_error + sla_node" where
  "decode_tree d = (if d = [] then Inl D_empty else tree_loop d 0 [] None)"

section \<open>Writing\<close>

datatype encode_error = E_string_too_long nat | E_value_too_wide | E_too_deep'

fun chunk_count :: "nat \<Rightarrow> nat" where
  "chunk_count v = (if v \<noteq> 0 then chunk_count (v div 2 ^ 7) + 1 else 0)"

declare chunk_count.simps [simp del]

definition push_chunks :: "nat \<Rightarrow> nat \<Rightarrow> u8 list" where
  "push_chunks v n = map (\<lambda>i. 0x80 OR (of_nat (v div 2 ^ (i * 7)) AND 0x7f)) (rev [0..<n])"

definition push_tag :: "u8 \<Rightarrow> u8 \<Rightarrow> u32 \<Rightarrow> u8 list" where
  "push_tag short ext i = (if i < 32 then [short OR ucast i]
     else (let n = max (chunk_count (unat i)) 1 in
       (ext OR (of_nat (n - 1) AND 0x0f)) # push_chunks (unat i) n))"

definition push_typed :: "u8 \<Rightarrow> nat \<Rightarrow> encode_error + u8 list" where
  "push_typed kind mag = (let n = chunk_count mag in
     if n > 15 then Inl E_value_too_wide else Inr ((push_bit 4 kind OR of_nat n) # push_chunks mag n))"

definition push_value :: "sla_value \<Rightarrow> encode_error + u8 list" where
  "push_value v = (case v of
     V_Bool b \<Rightarrow> Inr [push_bit 4 1 OR (if b then 1 else 0)]
   | V_Signed i \<Rightarrow> if i < 0 then push_typed 3 (nat (- i)) else push_typed 2 (nat i)
   | V_Unsigned u \<Rightarrow> push_typed 4 u
   | V_Space s \<Rightarrow> push_typed 5 (unat s)
   | V_Text s \<Rightarrow> (let n = chunk_count (length s) in
       if n > 15 then Inl (E_string_too_long (length s))
       else Inr ((push_bit 4 7 OR of_nat n) # push_chunks (length s) n @ s))
   | V_Other kind n \<Rightarrow> push_typed kind n)"

datatype encode_step = Open sla_node | Close u32

fun push_attrs :: "(u32 \<times> sla_value) list \<Rightarrow> u8 list \<Rightarrow> encode_error + u8 list" where
  "push_attrs [] out = Inr out"
| "push_attrs ((i, v) # as) out = (case push_value v of Inl e \<Rightarrow> Inl e
     | Inr bs \<Rightarrow> push_attrs as (out @ push_tag 0xC0 0xE0 i @ bs))"

text \<open>The steps still to do, each element counting for its opening and its closing.\<close>

fun node_weight :: "sla_node \<Rightarrow> nat" where
  "node_weight (Node i as cs s e) = 2 + sum_list (map node_weight cs)"

definition step_weight :: "encode_step \<Rightarrow> nat" where
  "step_weight s = (case s of Open n \<Rightarrow> node_weight n | Close _ \<Rightarrow> 1)"

function encode_loop :: "encode_step list \<Rightarrow> nat \<Rightarrow> u8 list \<Rightarrow> encode_error + u8 list" where
  "encode_loop [] depth out = Inr out"
| "encode_loop (Open n # steps) depth out =
     (if depth + 1 > max_depth then Inl E_too_deep'
      else (case push_attrs (nd_attrs n) (out @ push_tag 0x40 0x60 (nd_id n)) of
          Inl e \<Rightarrow> Inl e
        | Inr out \<Rightarrow> encode_loop (map Open (nd_children n) @ Close (nd_id n) # steps) (depth + 1) out))"
| "encode_loop (Close i # steps) depth out = encode_loop steps (depth - 1) (out @ push_tag 0x80 0xA0 i)"
  by pat_completeness auto
termination
proof (relation "measure (\<lambda>(steps, _, _). sum_list (map step_weight steps))")
  fix n steps depth out out'
  have "node_weight n = 2 + sum_list (map node_weight (nd_children n))" by (cases n) simp
  then show "((map Open (nd_children n) @ Close (nd_id n) # steps, depth + 1, out'), Open n # steps, depth, out)
      \<in> measure (\<lambda>(steps, _, _). sum_list (map step_weight steps))"
    by (simp add: step_weight_def comp_def)
qed (simp_all add: step_weight_def)

definition encode_tree :: "sla_node \<Rightarrow> encode_error + u8 list" where
  "encode_tree t = encode_loop [Open t] 0 []"

section \<open>Trees under construction\<close>

definition build_new :: "u32 \<Rightarrow> sla_node" where "build_new i = Node i [] [] 0 0"

fun build_attr :: "u32 \<Rightarrow> sla_value \<Rightarrow> sla_node \<Rightarrow> sla_node" where
  "build_attr i v (Node j as cs s e) = Node j (as @ [(i, v)]) cs s e"

definition build_int :: "u32 \<Rightarrow> int \<Rightarrow> sla_node \<Rightarrow> sla_node" where "build_int i v = build_attr i (V_Signed v)"
definition build_uint :: "u32 \<Rightarrow> u64 \<Rightarrow> sla_node \<Rightarrow> sla_node" where "build_uint i v = build_attr i (V_Unsigned (unat v))"
definition build_bool :: "u32 \<Rightarrow> bool \<Rightarrow> sla_node \<Rightarrow> sla_node" where "build_bool i v = build_attr i (V_Bool v)"
definition build_text :: "u32 \<Rightarrow> u8 list \<Rightarrow> sla_node \<Rightarrow> sla_node" where "build_text i v = build_attr i (V_Text v)"
definition build_space :: "u32 \<Rightarrow> u32 \<Rightarrow> sla_node \<Rightarrow> sla_node" where "build_space i v = build_attr i (V_Space v)"

fun build_child :: "sla_node \<Rightarrow> sla_node \<Rightarrow> sla_node" where
  "build_child c (Node j as cs s e) = Node j as (cs @ [c]) s e"

end
