(* ===== verification/Sla_Ids.thy ===== *)
theory Sla_Ids
  imports Prelude
begin

text \<open>
  The element and attribute identifiers of a \<open>.sla\<close> tree: \<open>crates/e5r-sla/src/ids.rs\<close>. The constants of the
  code's modules \<open>el\<close> and \<open>at\<close> are the abbreviations \<open>el_\<close> and \<open>at_\<close>.
\<close>

section \<open>Names\<close>

definition element_name :: "u32 \<Rightarrow> string option" where
  "element_name i = map_of [
    (1, ''const_real''), (2, ''varnode_tpl''), (3, ''const_spaceid''), (4, ''const_handle''), (5, ''op_tpl''),
    (6, ''pattern_word''), (7, ''pattern_block''), (8, ''print_literal''), (9, ''decision_pair''),
    (10, ''context_pattern''), (11, ''null''), (12, ''operand_value''), (13, ''operand_sym''),
    (14, ''operand_sym_head''), (15, ''constructor_operand''), (16, ''decision''), (17, ''print_operand''),
    (18, ''instruction_pattern''), (19, ''combine_pattern''), (20, ''constructor''), (21, ''construct_tpl''),
    (22, ''scope''), (23, ''varnode_sym''), (24, ''varnode_sym_head''), (25, ''userop_sym''),
    (26, ''userop_sym_head''), (27, ''token_field''), (28, ''varnode_list_entry''), (29, ''context_field''),
    (30, ''handle_tpl''), (31, ''const_relative''), (32, ''context_change''), (33, ''sleigh''), (34, ''spaces''),
    (35, ''sourcefiles''), (36, ''sourcefile''), (37, ''space''), (38, ''symbol_table''), (39, ''value_sym''),
    (40, ''value_sym_head''), (41, ''context_sym''), (42, ''context_sym_head''), (43, ''end_sym''),
    (44, ''end_sym_head''), (45, ''space_other''), (46, ''space_unique''), (47, ''pexp_and''), (48, ''pexp_div''),
    (49, ''pexp_lshift''), (50, ''pexp_minus''), (51, ''pexp_mult''), (52, ''pexp_not''), (53, ''pexp_or''),
    (54, ''pexp_plus''), (55, ''pexp_rshift''), (56, ''pexp_sub''), (57, ''pexp_xor''), (58, ''pexp_constant''),
    (59, ''pexp_inst_next''), (60, ''pexp_inst_next2''), (61, ''pexp_inst_start''), (64, ''name_sym''),
    (65, ''name_sym_head''), (66, ''name_entry''), (67, ''next2_sym''), (68, ''next2_sym_head''),
    (69, ''start_sym''), (70, ''start_sym_head''), (71, ''subtable_sym''), (72, ''subtable_sym_head''),
    (73, ''valuemap_sym''), (74, ''valuemap_sym_head''), (75, ''valuemap_entry''), (76, ''varnode_list_sym''),
    (77, ''varnode_list_sym_head''), (79, ''globalset''), (80, ''const_inst_start''), (81, ''const_inst_next''),
    (82, ''const_inst_next2''), (83, ''const_curspace''), (84, ''const_curspace_size'')] i"

definition attribute_name :: "u32 \<Rightarrow> string option" where
  "attribute_name i = map_of [
    (2, ''val''), (3, ''id''), (4, ''space''), (5, ''select''), (6, ''off''), (7, ''code''), (8, ''mask''),
    (9, ''index''), (10, ''nbytes''), (11, ''piece''), (12, ''name''), (13, ''scope''), (14, ''startbit''),
    (15, ''size''), (16, ''table''), (17, ''ct''), (20, ''number''), (21, ''context''), (22, ''parent''),
    (23, ''subsym''), (24, ''line''), (25, ''source''), (26, ''length''), (29, ''shift''), (30, ''endbit''),
    (31, ''signbit''), (32, ''endbyte''), (33, ''startbyte''), (34, ''version''), (35, ''bigendian''),
    (36, ''align''), (37, ''uniqbase''), (41, ''defaultspace''), (42, ''delay''), (43, ''wordsize''),
    (44, ''physical''), (45, ''scopesize''), (46, ''symbolsize''), (47, ''varnode''), (48, ''low''), (49, ''high''),
    (50, ''flow''), (52, ''word''), (53, ''numct''), (54, ''section''), (55, ''labels'')] i"

section \<open>Elements\<close>

abbreviation el_CONST_REAL :: u32 where "el_CONST_REAL \<equiv> 1"
abbreviation el_VARNODE_TPL :: u32 where "el_VARNODE_TPL \<equiv> 2"
abbreviation el_CONST_SPACEID :: u32 where "el_CONST_SPACEID \<equiv> 3"
abbreviation el_CONST_HANDLE :: u32 where "el_CONST_HANDLE \<equiv> 4"
abbreviation el_OP_TPL :: u32 where "el_OP_TPL \<equiv> 5"
abbreviation el_PATTERN_WORD :: u32 where "el_PATTERN_WORD \<equiv> 6"
abbreviation el_PATTERN_BLOCK :: u32 where "el_PATTERN_BLOCK \<equiv> 7"
abbreviation el_PRINT_LITERAL :: u32 where "el_PRINT_LITERAL \<equiv> 8"
abbreviation el_DECISION_PAIR :: u32 where "el_DECISION_PAIR \<equiv> 9"
abbreviation el_CONTEXT_PATTERN :: u32 where "el_CONTEXT_PATTERN \<equiv> 10"
abbreviation el_NULL :: u32 where "el_NULL \<equiv> 11"
abbreviation el_OPERAND_SYM :: u32 where "el_OPERAND_SYM \<equiv> 13"
abbreviation el_CONSTRUCTOR_OPERAND :: u32 where "el_CONSTRUCTOR_OPERAND \<equiv> 15"
abbreviation el_DECISION :: u32 where "el_DECISION \<equiv> 16"
abbreviation el_PRINT_OPERAND :: u32 where "el_PRINT_OPERAND \<equiv> 17"
abbreviation el_INSTRUCTION_PATTERN :: u32 where "el_INSTRUCTION_PATTERN \<equiv> 18"
abbreviation el_COMBINE_PATTERN :: u32 where "el_COMBINE_PATTERN \<equiv> 19"
abbreviation el_CONSTRUCTOR :: u32 where "el_CONSTRUCTOR \<equiv> 20"
abbreviation el_CONSTRUCT_TPL :: u32 where "el_CONSTRUCT_TPL \<equiv> 21"
abbreviation el_SCOPE :: u32 where "el_SCOPE \<equiv> 22"
abbreviation el_VARNODE_SYM :: u32 where "el_VARNODE_SYM \<equiv> 23"
abbreviation el_USEROP_SYM :: u32 where "el_USEROP_SYM \<equiv> 25"
abbreviation el_TOKEN_FIELD :: u32 where "el_TOKEN_FIELD \<equiv> 27"
abbreviation el_VARNODE_LIST_ENTRY :: u32 where "el_VARNODE_LIST_ENTRY \<equiv> 28"
abbreviation el_CONTEXT_FIELD :: u32 where "el_CONTEXT_FIELD \<equiv> 29"
abbreviation el_HANDLE_TPL :: u32 where "el_HANDLE_TPL \<equiv> 30"
abbreviation el_CONST_RELATIVE :: u32 where "el_CONST_RELATIVE \<equiv> 31"
abbreviation el_CONTEXT_CHANGE :: u32 where "el_CONTEXT_CHANGE \<equiv> 32"
abbreviation el_SLEIGH :: u32 where "el_SLEIGH \<equiv> 33"
abbreviation el_SPACES :: u32 where "el_SPACES \<equiv> 34"
abbreviation el_SOURCEFILES :: u32 where "el_SOURCEFILES \<equiv> 35"
abbreviation el_SOURCEFILE :: u32 where "el_SOURCEFILE \<equiv> 36"
abbreviation el_SPACE :: u32 where "el_SPACE \<equiv> 37"
abbreviation el_SYMBOL_TABLE :: u32 where "el_SYMBOL_TABLE \<equiv> 38"
abbreviation el_VALUE_SYM :: u32 where "el_VALUE_SYM \<equiv> 39"
abbreviation el_CONTEXT_SYM :: u32 where "el_CONTEXT_SYM \<equiv> 41"
abbreviation el_END_SYM :: u32 where "el_END_SYM \<equiv> 43"
abbreviation el_SPACE_OTHER :: u32 where "el_SPACE_OTHER \<equiv> 45"
abbreviation el_SPACE_UNIQUE :: u32 where "el_SPACE_UNIQUE \<equiv> 46"
abbreviation el_NAME_SYM :: u32 where "el_NAME_SYM \<equiv> 64"
abbreviation el_NAME_ENTRY :: u32 where "el_NAME_ENTRY \<equiv> 66"
abbreviation el_NEXT2_SYM :: u32 where "el_NEXT2_SYM \<equiv> 67"
abbreviation el_START_SYM :: u32 where "el_START_SYM \<equiv> 69"
abbreviation el_SUBTABLE_SYM :: u32 where "el_SUBTABLE_SYM \<equiv> 71"
abbreviation el_VALUEMAP_SYM :: u32 where "el_VALUEMAP_SYM \<equiv> 73"
abbreviation el_VALUEMAP_ENTRY :: u32 where "el_VALUEMAP_ENTRY \<equiv> 75"
abbreviation el_VARNODE_LIST_SYM :: u32 where "el_VARNODE_LIST_SYM \<equiv> 76"
abbreviation el_VARNODE_LIST_SYM_HEAD :: u32 where "el_VARNODE_LIST_SYM_HEAD \<equiv> 77"
abbreviation el_GLOBALSET :: u32 where "el_GLOBALSET \<equiv> 79"
abbreviation el_CONST_INST_START :: u32 where "el_CONST_INST_START \<equiv> 80"
abbreviation el_CONST_INST_NEXT :: u32 where "el_CONST_INST_NEXT \<equiv> 81"
abbreviation el_CONST_INST_NEXT2 :: u32 where "el_CONST_INST_NEXT2 \<equiv> 82"
abbreviation el_CONST_CURSPACE :: u32 where "el_CONST_CURSPACE \<equiv> 83"
abbreviation el_CONST_CURSPACE_SIZE :: u32 where "el_CONST_CURSPACE_SIZE \<equiv> 84"
abbreviation el_PEXP_AND :: u32 where "el_PEXP_AND \<equiv> 47"
abbreviation el_PEXP_DIV :: u32 where "el_PEXP_DIV \<equiv> 48"
abbreviation el_PEXP_LSHIFT :: u32 where "el_PEXP_LSHIFT \<equiv> 49"
abbreviation el_PEXP_MINUS :: u32 where "el_PEXP_MINUS \<equiv> 50"
abbreviation el_PEXP_MULT :: u32 where "el_PEXP_MULT \<equiv> 51"
abbreviation el_PEXP_NOT :: u32 where "el_PEXP_NOT \<equiv> 52"
abbreviation el_PEXP_OR :: u32 where "el_PEXP_OR \<equiv> 53"
abbreviation el_PEXP_PLUS :: u32 where "el_PEXP_PLUS \<equiv> 54"
abbreviation el_PEXP_RSHIFT :: u32 where "el_PEXP_RSHIFT \<equiv> 55"
abbreviation el_PEXP_SUB :: u32 where "el_PEXP_SUB \<equiv> 56"
abbreviation el_PEXP_XOR :: u32 where "el_PEXP_XOR \<equiv> 57"
abbreviation el_PEXP_CONSTANT :: u32 where "el_PEXP_CONSTANT \<equiv> 58"
abbreviation el_PEXP_INST_NEXT :: u32 where "el_PEXP_INST_NEXT \<equiv> 59"
abbreviation el_PEXP_INST_NEXT2 :: u32 where "el_PEXP_INST_NEXT2 \<equiv> 60"
abbreviation el_PEXP_INST_START :: u32 where "el_PEXP_INST_START \<equiv> 61"
abbreviation el_OPERAND_VALUE :: u32 where "el_OPERAND_VALUE \<equiv> 12"

section \<open>Attributes\<close>

abbreviation at_VAL :: u32 where "at_VAL \<equiv> 2"
abbreviation at_ID :: u32 where "at_ID \<equiv> 3"
abbreviation at_SPACE :: u32 where "at_SPACE \<equiv> 4"
abbreviation at_SELECT :: u32 where "at_SELECT \<equiv> 5"
abbreviation at_OFF :: u32 where "at_OFF \<equiv> 6"
abbreviation at_CODE :: u32 where "at_CODE \<equiv> 7"
abbreviation at_MASK :: u32 where "at_MASK \<equiv> 8"
abbreviation at_INDEX :: u32 where "at_INDEX \<equiv> 9"
abbreviation at_NBYTES :: u32 where "at_NBYTES \<equiv> 10"
abbreviation at_PIECE :: u32 where "at_PIECE \<equiv> 11"
abbreviation at_NAME :: u32 where "at_NAME \<equiv> 12"
abbreviation at_SCOPE :: u32 where "at_SCOPE \<equiv> 13"
abbreviation at_STARTBIT :: u32 where "at_STARTBIT \<equiv> 14"
abbreviation at_SIZE :: u32 where "at_SIZE \<equiv> 15"
abbreviation at_TABLE :: u32 where "at_TABLE \<equiv> 16"
abbreviation at_CT :: u32 where "at_CT \<equiv> 17"
abbreviation at_NUMBER :: u32 where "at_NUMBER \<equiv> 20"
abbreviation at_CONTEXT :: u32 where "at_CONTEXT \<equiv> 21"
abbreviation at_PARENT :: u32 where "at_PARENT \<equiv> 22"
abbreviation at_SUBSYM :: u32 where "at_SUBSYM \<equiv> 23"
abbreviation at_LINE :: u32 where "at_LINE \<equiv> 24"
abbreviation at_SOURCE :: u32 where "at_SOURCE \<equiv> 25"
abbreviation at_LENGTH :: u32 where "at_LENGTH \<equiv> 26"
abbreviation at_SHIFT :: u32 where "at_SHIFT \<equiv> 29"
abbreviation at_ENDBIT :: u32 where "at_ENDBIT \<equiv> 30"
abbreviation at_SIGNBIT :: u32 where "at_SIGNBIT \<equiv> 31"
abbreviation at_ENDBYTE :: u32 where "at_ENDBYTE \<equiv> 32"
abbreviation at_STARTBYTE :: u32 where "at_STARTBYTE \<equiv> 33"
abbreviation at_VERSION :: u32 where "at_VERSION \<equiv> 34"
abbreviation at_BIGENDIAN :: u32 where "at_BIGENDIAN \<equiv> 35"
abbreviation at_ALIGN :: u32 where "at_ALIGN \<equiv> 36"
abbreviation at_UNIQBASE :: u32 where "at_UNIQBASE \<equiv> 37"
abbreviation at_DEFAULTSPACE :: u32 where "at_DEFAULTSPACE \<equiv> 41"
abbreviation at_DELAY :: u32 where "at_DELAY \<equiv> 42"
abbreviation at_WORDSIZE :: u32 where "at_WORDSIZE \<equiv> 43"
abbreviation at_PHYSICAL :: u32 where "at_PHYSICAL \<equiv> 44"
abbreviation at_SCOPESIZE :: u32 where "at_SCOPESIZE \<equiv> 45"
abbreviation at_SYMBOLSIZE :: u32 where "at_SYMBOLSIZE \<equiv> 46"
abbreviation at_VARNODE :: u32 where "at_VARNODE \<equiv> 47"
abbreviation at_LOW :: u32 where "at_LOW \<equiv> 48"
abbreviation at_HIGH :: u32 where "at_HIGH \<equiv> 49"
abbreviation at_FLOW :: u32 where "at_FLOW \<equiv> 50"
abbreviation at_NUMCT :: u32 where "at_NUMCT \<equiv> 53"
abbreviation at_SECTION :: u32 where "at_SECTION \<equiv> 54"
abbreviation at_LABELS :: u32 where "at_LABELS \<equiv> 55"
abbreviation at_WORD :: u32 where "at_WORD \<equiv> 52"
abbreviation at_FLOWTHRU :: u32 where "at_FLOWTHRU \<equiv> 27"
abbreviation at_OPERAND_18 :: u32 where "at_OPERAND_18 \<equiv> 18"
abbreviation at_OPERAND_19 :: u32 where "at_OPERAND_19 \<equiv> 19"
abbreviation at_HANDLE_28 :: u32 where "at_HANDLE_28 \<equiv> 28"

end
