(* ===== verification/Sla_Model.thy ===== *)
theory Sla_Model
  imports Sla_Tree Sla_Ids
begin

text \<open>
  The structured view of a \<open>.sla\<close>: \<open>crates/e5r-sla/src/model.rs\<close>. Spaces, scopes, symbols, constructors with
  their patterns and templates, each read from the element that carries it, and the count of bytes whose
  element has a name. A 64-bit signed or 128-bit field is the integer it holds; a text is the list of its
  bytes. A loop over an element's children is a fold of the function of one child, or, where the loop only
  collects what it finds under one identifier, a filter.
\<close>

section \<open>Data\<close>

record source_file = sf_name :: "u8 list" sf_index :: u64

datatype space_kind = Sk_Normal | Sk_Other | Sk_Unique

record sla_space =
  sp_kind :: space_kind
  sp_name :: "u8 list"
  sp_index :: u32
  sp_big :: bool
  sp_delay :: u64
  sp_size :: u64
  sp_word_size :: u64
  sp_physical :: bool

record sla_scope = sc_id :: u32 sc_parent :: u32

record token_field =
  tf_big :: bool
  tf_signed :: bool
  tf_start_bit :: u64
  tf_end_bit :: u64
  tf_start_byte :: u64
  tf_end_byte :: u64
  tf_shift :: u64

record context_field =
  cf_signed :: bool
  cf_start_bit :: u64
  cf_end_bit :: u64
  cf_start_byte :: u64
  cf_end_byte :: u64
  cf_shift :: u64

datatype field_def = Fd_Token token_field | Fd_Context context_field

definition field_token :: "field_def \<Rightarrow> token_field option" where
  "field_token f = (case f of Fd_Token t \<Rightarrow> Some t | Fd_Context _ \<Rightarrow> None)"

definition field_context :: "field_def \<Rightarrow> context_field option" where
  "field_context f = (case f of Fd_Context c \<Rightarrow> Some c | Fd_Token _ \<Rightarrow> None)"

datatype pattern_op =
  P_And | P_Div | P_LeftShift | P_Minus | P_Mult | P_Not | P_Or | P_Plus | P_RightShift | P_Sub | P_Xor

definition op_element :: "pattern_op \<Rightarrow> u32" where
  "op_element p = (case p of P_And \<Rightarrow> el_PEXP_AND | P_Div \<Rightarrow> el_PEXP_DIV | P_LeftShift \<Rightarrow> el_PEXP_LSHIFT
     | P_Minus \<Rightarrow> el_PEXP_MINUS | P_Mult \<Rightarrow> el_PEXP_MULT | P_Not \<Rightarrow> el_PEXP_NOT | P_Or \<Rightarrow> el_PEXP_OR
     | P_Plus \<Rightarrow> el_PEXP_PLUS | P_RightShift \<Rightarrow> el_PEXP_RSHIFT | P_Sub \<Rightarrow> el_PEXP_SUB | P_Xor \<Rightarrow> el_PEXP_XOR)"

definition op_from_element :: "u32 \<Rightarrow> pattern_op option" where
  "op_from_element i =
     (if i = el_PEXP_AND then Some P_And else if i = el_PEXP_DIV then Some P_Div
      else if i = el_PEXP_LSHIFT then Some P_LeftShift else if i = el_PEXP_MINUS then Some P_Minus
      else if i = el_PEXP_MULT then Some P_Mult else if i = el_PEXP_NOT then Some P_Not
      else if i = el_PEXP_OR then Some P_Or else if i = el_PEXP_PLUS then Some P_Plus
      else if i = el_PEXP_RSHIFT then Some P_RightShift else if i = el_PEXP_SUB then Some P_Sub
      else if i = el_PEXP_XOR then Some P_Xor else None)"

datatype sla_expr =
    X_OperandValue u64 u64 u64 | X_Constant int | X_Context context_field | X_TokenField token_field
  | X_InstStart | X_InstNext | X_InstNext2 | X_Op pattern_op "sla_expr list" | X_Unknown u32 "sla_expr list"

record pattern_word = pw_mask :: u64 pw_value :: u64
record pattern_block = pb_offset :: u64 pb_bytes :: u64 pb_words :: "pattern_word list"

record sla_pattern =
  pt_context :: "pattern_block list"
  pt_instruction :: "pattern_block list"
  pt_combined :: bool
  pt_has_context :: bool
  pt_has_instruction :: bool

datatype sla_decision = Decision (dc_number: u64) (dc_on_context: bool) (dc_start_bit: u64) (dc_num_bits: u64)
  (dc_children: "sla_decision list") (dc_pairs: "(u32 \<times> sla_pattern) list")

datatype print_piece = Pp_Literal "u8 list" | Pp_Operand u64

datatype const_template =
    K_Real int | K_SpaceId u32 | K_Handle u64 u64 "nat option" | K_Relative int
  | K_InstStart | K_InstNext | K_InstNext2 | K_CurSpace | K_CurSpaceSize | K_Unknown u32

record varnode_template = vt_space :: const_template vt_offset :: const_template vt_size :: const_template
record op_template = ot_opcode :: u64 ot_output :: "varnode_template option" ot_inputs :: "varnode_template list"

record construct_template =
  ct_section :: "int option"
  ct_labels :: "u64 option"
  ct_delay :: "int option"
  ct_result :: "const_template list option"
  ct_ops :: "op_template list"

datatype context_op = Co_Set u64 u64 u64 "sla_expr list" | Co_Commit u32 u64 u64 bool

record sla_constructor =
  cn_parent :: u32
  cn_source :: u64
  cn_line :: u64
  cn_length :: u64
  cn_flowthru :: int
  cn_operands :: "u32 list"
  cn_print :: "print_piece list"
  cn_context_ops :: "context_op list"
  cn_templates :: "construct_template list"

datatype symbol_body =
    B_Varnode u32 u64 u64
  | B_UserOp u64
  | B_Value "field_def option"
  | B_ValueMap "field_def option" "int list"
  | B_Name "field_def option" "u8 list option list"
  | B_VarnodeList "field_def option" "u32 option list"
  | B_Context u32 u64 u64 bool "context_field option"
  | B_Operand u64 u64 "u32 option" int u64 "bool option" "sla_expr list"
  | B_Start | B_End | B_Next2
  | B_Subtable "sla_constructor list" "sla_decision option"
  | B_Unknown u32

record sla_symbol =
  sy_id :: u32
  sy_name :: "u8 list option"
  sy_scope :: "u32 option"
  sy_body :: symbol_body

record sla_program =
  pg_version :: "u64 option"
  pg_big :: bool
  pg_alignment :: u64
  pg_unique_base :: u64
  pg_extra :: "(u32 \<times> sla_value) list"
  pg_source_files :: "source_file list"
  pg_default_space :: "u8 list option"
  pg_spaces :: "sla_space list"
  pg_scopes :: "sla_scope list"
  pg_symbols :: "sla_symbol list"
  pg_declared_scopes :: "u64 option"
  pg_declared_symbols :: "u64 option"
  pg_symbol_index :: "(u32 \<times> nat) list"

section \<open>Small readers\<close>

definition or_default :: "'a \<Rightarrow> 'a option \<Rightarrow> 'a" where
  "or_default d r = (case r of Some x \<Rightarrow> x | None \<Rightarrow> d)"

lemma or_default_simps [simp]: "or_default d (Some x) = x" "or_default d None = d"
  by (simp_all add: or_default_def)

text \<open>\<open>u32::try_from(v).ok()\<close>.\<close>

definition try_u32 :: "u64 \<Rightarrow> u32 option" where
  "try_u32 v = (if unat v < 2 ^ 32 then Some (ucast v) else None)"

definition u64_of :: "sla_node \<Rightarrow> u32 \<Rightarrow> u64 option" where "u64_of n i = Option.bind (node_attr n i) value_as_u64"
definition i64_of :: "sla_node \<Rightarrow> u32 \<Rightarrow> int option" where "i64_of n i = Option.bind (node_attr n i) value_as_i64"
definition bool_of :: "sla_node \<Rightarrow> u32 \<Rightarrow> bool" where "bool_of n i = or_default False (Option.bind (node_attr n i) value_as_bool)"
definition text_of :: "sla_node \<Rightarrow> u32 \<Rightarrow> u8 list option" where "text_of n i = Option.bind (node_attr n i) value_as_str"

definition i128_attr :: "sla_node \<Rightarrow> u32 \<Rightarrow> int" where
  "i128_attr n i = (case node_attr n i of
     Some (V_Signed v) \<Rightarrow> v
   | Some (V_Unsigned v) \<Rightarrow> if v < 2 ^ 127 then int v else 2 ^ 127 - 1
   | Some (V_Space v) \<Rightarrow> uint v
   | Some (V_Bool b) \<Rightarrow> if b then 1 else 0
   | _ \<Rightarrow> 0)"

definition u32_of :: "sla_node \<Rightarrow> u32 \<Rightarrow> u32 option" where "u32_of n i = Option.bind (u64_of n i) try_u32"
definition space_of :: "sla_node \<Rightarrow> u32 \<Rightarrow> u32 option" where "space_of n i = Option.bind (node_attr n i) value_as_space"

section \<open>Fields, expressions and templates\<close>

definition token_field_of :: "sla_node \<Rightarrow> token_field" where
  "token_field_of n = \<lparr>
     tf_big = bool_of n at_BIGENDIAN,
     tf_signed = bool_of n at_SIGNBIT,
     tf_start_bit = or_default 0 (u64_of n at_STARTBIT),
     tf_end_bit = or_default 0 (u64_of n at_ENDBIT),
     tf_start_byte = or_default 0 (u64_of n at_STARTBYTE),
     tf_end_byte = or_default 0 (u64_of n at_ENDBYTE),
     tf_shift = or_default 0 (u64_of n at_SHIFT)\<rparr>"

definition context_field_of :: "sla_node \<Rightarrow> context_field" where
  "context_field_of n = \<lparr>
     cf_signed = bool_of n at_SIGNBIT,
     cf_start_bit = or_default 0 (u64_of n at_STARTBIT),
     cf_end_bit = or_default 0 (u64_of n at_ENDBIT),
     cf_start_byte = or_default 0 (u64_of n at_STARTBYTE),
     cf_end_byte = or_default 0 (u64_of n at_ENDBYTE),
     cf_shift = or_default 0 (u64_of n at_SHIFT)\<rparr>"

text \<open>\<open>find_map\<close> over the children.\<close>

fun first_field :: "sla_node list \<Rightarrow> field_def option" where
  "first_field [] = None"
| "first_field (c # cs) =
     (if nd_id c = el_TOKEN_FIELD then Some (Fd_Token (token_field_of c))
      else if nd_id c = el_CONTEXT_FIELD then Some (Fd_Context (context_field_of c))
      else first_field cs)"

definition field_def_of :: "sla_node \<Rightarrow> field_def option" where
  "field_def_of n = first_field (nd_children n)"

fun expr_of :: "sla_node \<Rightarrow> sla_expr" where
  "expr_of (Node i as cs s e) = (let n = Node i as cs s e in
     case op_from_element i of
       Some p \<Rightarrow> X_Op p (map expr_of cs)
     | None \<Rightarrow>
       if i = el_OPERAND_VALUE then
         X_OperandValue (or_default 0 (u64_of n at_INDEX)) (or_default 0 (u64_of n at_TABLE)) (or_default 0 (u64_of n at_CT))
       else if i = el_PEXP_CONSTANT then X_Constant (i128_attr n at_VAL)
       else if i = el_CONTEXT_FIELD then X_Context (context_field_of n)
       else if i = el_TOKEN_FIELD then X_TokenField (token_field_of n)
       else if i = el_PEXP_INST_START then X_InstStart
       else if i = el_PEXP_INST_NEXT then X_InstNext
       else if i = el_PEXP_INST_NEXT2 then X_InstNext2
       else X_Unknown i (map expr_of cs))"

text \<open>The \<open>extra\<close> of a handle: \<open>u128::try_from\<close> of a signed value.\<close>

definition handle_extra :: "sla_value \<Rightarrow> nat option" where
  "handle_extra v = (case v of V_Unsigned u \<Rightarrow> Some u | V_Signed s \<Rightarrow> if 0 \<le> s then Some (nat s) else None | _ \<Rightarrow> None)"

definition const_template_of :: "sla_node \<Rightarrow> const_template" where
  "const_template_of n = (let i = nd_id n in
     if i = el_CONST_REAL then K_Real (i128_attr n at_VAL)
     else if i = el_CONST_SPACEID then K_SpaceId (or_default (- 1) (space_of n at_SPACE))
     else if i = el_CONST_HANDLE then
       K_Handle (or_default 0 (u64_of n at_VAL)) (or_default 0 (u64_of n at_SELECT)) (Option.bind (node_attr n 28) handle_extra)
     else if i = el_CONST_RELATIVE then K_Relative (i128_attr n at_VAL)
     else if i = el_CONST_INST_START then K_InstStart
     else if i = el_CONST_INST_NEXT then K_InstNext
     else if i = el_CONST_INST_NEXT2 then K_InstNext2
     else if i = el_CONST_CURSPACE then K_CurSpace
     else if i = el_CONST_CURSPACE_SIZE then K_CurSpaceSize
     else K_Unknown i)"

text \<open>The iterator's next part, or the default when it has run out.\<close>

definition part_or :: "const_template list \<Rightarrow> nat \<Rightarrow> const_template" where
  "part_or parts k = (if k < length parts then parts ! k else K_Unknown 0)"

definition varnode_template_of :: "sla_node \<Rightarrow> varnode_template" where
  "varnode_template_of n = (let parts = map const_template_of (nd_children n) in
     \<lparr>vt_space = part_or parts 0, vt_offset = part_or parts 1, vt_size = part_or parts 2\<rparr>)"

definition op_child :: "nat \<times> sla_node \<Rightarrow> varnode_template option \<times> varnode_template list \<Rightarrow> varnode_template option \<times> varnode_template list" where
  "op_child = (\<lambda>(i, c) (out, inputs).
     if i = 0 \<and> nd_id c = el_NULL then (out, inputs)
     else if i = 0 \<and> nd_id c = el_VARNODE_TPL then (Some (varnode_template_of c), inputs)
     else if nd_id c = el_VARNODE_TPL then (out, inputs @ [varnode_template_of c])
     else (out, inputs))"

definition op_template_of :: "sla_node \<Rightarrow> op_template" where
  "op_template_of n = (case fold op_child (enumerate 0 (nd_children n)) (None, []) of (out, inputs) \<Rightarrow>
     \<lparr>ot_opcode = or_default 0 (u64_of n at_CODE), ot_output = out, ot_inputs = inputs\<rparr>)"

definition template_child :: "sla_node \<Rightarrow> construct_template \<Rightarrow> construct_template" where
  "template_child c t =
     (if nd_id c = el_HANDLE_TPL then t\<lparr>ct_result := Some (map const_template_of (nd_children c))\<rparr>
      else if nd_id c = el_OP_TPL then t\<lparr>ct_ops := ct_ops t @ [op_template_of c]\<rparr>
      else t)"

definition construct_template_of :: "sla_node \<Rightarrow> construct_template" where
  "construct_template_of n = fold template_child (nd_children n)
     \<lparr>ct_section = i64_of n at_SECTION, ct_labels = u64_of n at_LABELS, ct_delay = i64_of n at_DELAY,
      ct_result = None, ct_ops = []\<rparr>"

section \<open>Patterns and decisions\<close>

definition pattern_block_of :: "sla_node \<Rightarrow> pattern_block" where
  "pattern_block_of n = \<lparr>
     pb_offset = or_default 0 (u64_of n at_OFF),
     pb_bytes = or_default 0 (u64_of n at_NBYTES),
     pb_words = map (\<lambda>c. \<lparr>pw_mask = or_default 0 (u64_of c at_MASK), pw_value = or_default 0 (u64_of c at_VAL)\<rparr>)
       (filter (\<lambda>c. nd_id c = el_PATTERN_WORD) (nd_children n))\<rparr>"

definition pattern_blocks :: "sla_node list \<Rightarrow> pattern_block list" where
  "pattern_blocks cs = map pattern_block_of (filter (\<lambda>c. nd_id c = el_PATTERN_BLOCK) cs)"

fun pattern_into :: "sla_node \<Rightarrow> sla_pattern \<Rightarrow> sla_pattern" where
  "pattern_into (Node i as cs s e) p =
     (if i = el_CONTEXT_PATTERN then p\<lparr>pt_has_context := True, pt_context := pt_context p @ pattern_blocks cs\<rparr>
      else if i = el_INSTRUCTION_PATTERN then
        p\<lparr>pt_has_instruction := True, pt_instruction := pt_instruction p @ pattern_blocks cs\<rparr>
      else if i = el_COMBINE_PATTERN then fold pattern_into cs (p\<lparr>pt_combined := True\<rparr>)
      else p)"

definition pattern_default :: sla_pattern where
  "pattern_default = \<lparr>pt_context = [], pt_instruction = [], pt_combined = False, pt_has_context = False, pt_has_instruction = False\<rparr>"

definition decision_pair_of :: "sla_node \<Rightarrow> u32 \<times> sla_pattern" where
  "decision_pair_of c = (or_default (- 1) (try_u32 (or_default 0 (u64_of c at_ID))), fold pattern_into (nd_children c) pattern_default)"

fun decision_of :: "sla_node \<Rightarrow> sla_decision" where
  "decision_of (Node i as cs s e) = (let n = Node i as cs s e in
     Decision (or_default 0 (u64_of n at_NUMBER)) (bool_of n at_CONTEXT) (or_default 0 (u64_of n at_STARTBIT)) (or_default 0 (u64_of n at_SIZE))
       (map decision_of (filter (\<lambda>c. nd_id c = el_DECISION) cs))
       (map decision_pair_of (filter (\<lambda>c. nd_id c = el_DECISION_PAIR) cs)))"

section \<open>Constructors and symbols\<close>

definition constructor_child :: "sla_node \<Rightarrow> sla_constructor \<Rightarrow> sla_constructor" where
  "constructor_child k c =
     (if nd_id k = el_CONSTRUCTOR_OPERAND then
        (case u32_of k at_ID of Some v \<Rightarrow> c\<lparr>cn_operands := cn_operands c @ [v]\<rparr> | None \<Rightarrow> c)
      else if nd_id k = el_PRINT_LITERAL then c\<lparr>cn_print := cn_print c @ [Pp_Literal (or_default [] (text_of k at_PIECE))]\<rparr>
      else if nd_id k = el_PRINT_OPERAND then c\<lparr>cn_print := cn_print c @ [Pp_Operand (or_default 0 (u64_of k at_ID))]\<rparr>
      else if nd_id k = el_CONTEXT_CHANGE then
        c\<lparr>cn_context_ops := cn_context_ops c @ [Co_Set (or_default 0 (u64_of k at_WORD)) (or_default 0 (u64_of k at_SHIFT))
          (or_default 0 (u64_of k at_MASK)) (map expr_of (nd_children k))]\<rparr>
      else if nd_id k = el_GLOBALSET then
        c\<lparr>cn_context_ops := cn_context_ops c @ [Co_Commit (or_default (- 1) (u32_of k at_ID)) (or_default 0 (u64_of k at_NUMBER))
          (or_default 0 (u64_of k at_MASK)) (bool_of k at_FLOW)]\<rparr>
      else if nd_id k = el_CONSTRUCT_TPL then c\<lparr>cn_templates := cn_templates c @ [construct_template_of k]\<rparr>
      else c)"

definition constructor_of :: "sla_node \<Rightarrow> sla_constructor" where
  "constructor_of n = fold constructor_child (nd_children n) \<lparr>
     cn_parent = or_default 0 (u32_of n at_PARENT),
     cn_source = or_default 0 (u64_of n at_SOURCE),
     cn_line = or_default 0 (u64_of n at_LINE),
     cn_length = or_default 0 (u64_of n at_LENGTH),
     cn_flowthru = or_default 0 (i64_of n at_FLOWTHRU),
     cn_operands = [], cn_print = [], cn_context_ops = [], cn_templates = []\<rparr>"

definition children_of :: "sla_node \<Rightarrow> u32 \<Rightarrow> sla_node list" where
  "children_of n i = filter (\<lambda>c. nd_id c = i) (nd_children n)"

definition symbol_body_of :: "sla_node \<Rightarrow> symbol_body" where
  "symbol_body_of n = (let i = nd_id n in
     if i = el_VARNODE_SYM then
       B_Varnode (or_default (- 1) (space_of n at_SPACE)) (or_default 0 (u64_of n at_OFF)) (or_default 0 (u64_of n at_SIZE))
     else if i = el_USEROP_SYM then B_UserOp (or_default 0 (u64_of n at_INDEX))
     else if i = el_VALUE_SYM then B_Value (field_def_of n)
     else if i = el_VALUEMAP_SYM then
       B_ValueMap (field_def_of n) (map (\<lambda>c. i128_attr c at_VAL) (children_of n el_VALUEMAP_ENTRY))
     else if i = el_NAME_SYM then B_Name (field_def_of n) (map (\<lambda>c. text_of c at_NAME) (children_of n el_NAME_ENTRY))
     else if i = el_VARNODE_LIST_SYM then
       B_VarnodeList (field_def_of n) (map (\<lambda>c. if nd_id c = el_NULL then None else u32_of c at_ID)
         (filter (\<lambda>c. nd_id c = el_VARNODE_LIST_ENTRY \<or> nd_id c = el_NULL) (nd_children n)))
     else if i = el_CONTEXT_SYM then
       B_Context (or_default (- 1) (u32_of n at_VARNODE)) (or_default 0 (u64_of n at_LOW)) (or_default 0 (u64_of n at_HIGH))
         (bool_of n at_FLOW) (map_option context_field_of (node_child n el_CONTEXT_FIELD))
     else if i = el_OPERAND_SYM then
       B_Operand (or_default 0 (u64_of n at_INDEX)) (or_default 0 (u64_of n at_OFF)) (u32_of n at_SUBSYM)
         (or_default (- 1) (i64_of n at_OPERAND_19)) (or_default 0 (u64_of n at_OPERAND_18))
         (Option.bind (node_attr n at_CODE) value_as_bool) (map expr_of (nd_children n))
     else if i = el_START_SYM then B_Start
     else if i = el_END_SYM then B_End
     else if i = el_NEXT2_SYM then B_Next2
     else if i = el_SUBTABLE_SYM then
       B_Subtable (map constructor_of (children_of n el_CONSTRUCTOR)) (map_option decision_of (node_child n el_DECISION))
     else B_Unknown i)"

definition header_body_of :: "u32 \<Rightarrow> u32 option" where
  "header_body_of i = (if i \<in> {14, 24, 26, 40, 42, 44, 65, 68, 70, 72, 74, 77} then Some (i - 1) else None)"

section \<open>Looking up symbols\<close>

text \<open>\<open>slice::binary_search_by_key\<close>: the half of the slice that remains starts at \<open>base\<close> and has \<open>n\<close> elements.\<close>

fun search_loop :: "('a \<Rightarrow> u32) \<Rightarrow> u32 \<Rightarrow> 'a list \<Rightarrow> nat \<Rightarrow> nat \<Rightarrow> nat" where
  "search_loop key x xs n base =
     (if 1 < n then search_loop key x xs (n - n div 2) (if x < key (xs ! (base + n div 2)) then base else base + n div 2)
      else base)"

declare search_loop.simps [simp del]

definition search_by_key :: "('a \<Rightarrow> u32) \<Rightarrow> 'a list \<Rightarrow> u32 \<Rightarrow> nat option" where
  "search_by_key key xs x = (if xs = [] then None
     else let k = search_loop key x xs (length xs) 0 in if key (xs ! k) = x then Some k else None)"

text \<open>The pairs of identifier and position, sorted. The positions ascend, so ordering pairs with equal
  identifiers by position leaves them in the order they have.\<close>

definition index_symbols :: "sla_symbol list \<Rightarrow> (u32 \<times> nat) list" where
  "index_symbols ss = sort_key fst (map (\<lambda>(k, s). (sy_id s, k)) (enumerate 0 ss))"

definition reindex :: "sla_program \<Rightarrow> sla_program" where
  "reindex p = p\<lparr>pg_symbol_index := index_symbols (pg_symbols p)\<rparr>"

definition program_symbol :: "sla_program \<Rightarrow> u32 \<Rightarrow> sla_symbol option" where
  "program_symbol p i = (case search_by_key fst (pg_symbol_index p) i of None \<Rightarrow> None
     | Some k \<Rightarrow> let j = snd (pg_symbol_index p ! k) in if j < length (pg_symbols p) then Some (pg_symbols p ! j) else None)"

definition has_symbol :: "sla_program \<Rightarrow> u32 \<Rightarrow> bool" where
  "has_symbol p i \<longleftrightarrow> search_by_key fst (pg_symbol_index p) i \<noteq> None"

definition is_varnode :: "symbol_body \<Rightarrow> bool" where "is_varnode b \<longleftrightarrow> (case b of B_Varnode _ _ _ \<Rightarrow> True | _ \<Rightarrow> False)"
definition is_subtable :: "symbol_body \<Rightarrow> bool" where "is_subtable b \<longleftrightarrow> (case b of B_Subtable _ _ \<Rightarrow> True | _ \<Rightarrow> False)"

definition program_registers :: "sla_program \<Rightarrow> sla_symbol list" where
  "program_registers p = filter (\<lambda>s. is_varnode (sy_body s)) (pg_symbols p)"

definition program_subtables :: "sla_program \<Rightarrow> sla_symbol list" where
  "program_subtables p = filter (\<lambda>s. is_subtable (sy_body s)) (pg_symbols p)"

definition constructor_count :: "sla_program \<Rightarrow> nat" where
  "constructor_count p = sum_list (map (\<lambda>s. case sy_body s of B_Subtable cs _ \<Rightarrow> length cs | _ \<Rightarrow> 0) (pg_symbols p))"

section \<open>The program\<close>

definition program_empty :: sla_program where
  "program_empty = \<lparr>pg_version = None, pg_big = False, pg_alignment = 0, pg_unique_base = 0, pg_extra = [], pg_source_files = [],
     pg_default_space = None, pg_spaces = [], pg_scopes = [], pg_symbols = [], pg_declared_scopes = None,
     pg_declared_symbols = None, pg_symbol_index = []\<rparr>"

definition source_file_of :: "sla_node \<Rightarrow> source_file" where
  "source_file_of f = \<lparr>sf_name = or_default [] (text_of f at_NAME), sf_index = or_default 0 (u64_of f at_INDEX)\<rparr>"

definition space_kind_of :: "u32 \<Rightarrow> space_kind option" where
  "space_kind_of i = (if i = el_SPACE then Some Sk_Normal else if i = el_SPACE_OTHER then Some Sk_Other
     else if i = el_SPACE_UNIQUE then Some Sk_Unique else None)"

definition read_space :: "sla_node \<Rightarrow> sla_space option" where
  "read_space s = (case space_kind_of (nd_id s) of None \<Rightarrow> None | Some kind \<Rightarrow> Some \<lparr>
     sp_kind = kind,
     sp_name = or_default [] (text_of s at_NAME),
     sp_index = or_default (- 1) (u32_of s at_INDEX),
     sp_big = bool_of s at_BIGENDIAN,
     sp_delay = or_default 0 (u64_of s at_DELAY),
     sp_size = or_default 0 (u64_of s at_SIZE),
     sp_word_size = or_default 1 (u64_of s at_WORDSIZE),
     sp_physical = bool_of s at_PHYSICAL\<rparr>)"

text \<open>A child of the symbol table is a scope, the header of a symbol, whose name is kept for later, or a symbol.\<close>

type_synonym symbol_names = "(u32 \<times> u8 list \<times> u32 option) list"

definition table_child :: "sla_node \<Rightarrow> sla_program \<times> symbol_names \<Rightarrow> sla_program \<times> symbol_names" where
  "table_child s = (\<lambda>(p, names).
     if nd_id s = el_SCOPE then
       (p\<lparr>pg_scopes := pg_scopes p @ [\<lparr>sc_id = or_default 0 (u32_of s at_ID), sc_parent = or_default 0 (u32_of s at_PARENT)\<rparr>]\<rparr>, names)
     else if header_body_of (nd_id s) \<noteq> None then
       (p, names @ [(or_default 0 (u32_of s at_ID), or_default [] (text_of s at_NAME), u32_of s at_SCOPE)])
     else (p\<lparr>pg_symbols := pg_symbols p @
         [\<lparr>sy_id = or_default (- 1) (u32_of s at_ID), sy_name = None, sy_scope = None, sy_body = symbol_body_of s\<rparr>]\<rparr>, names))"

definition name_symbol :: "(u32 \<times> nat) list \<Rightarrow> u32 \<times> u8 list \<times> u32 option \<Rightarrow> sla_symbol list \<Rightarrow> sla_symbol list" where
  "name_symbol by_id = (\<lambda>(i, name, scope) ss. case search_by_key fst by_id i of None \<Rightarrow> ss
     | Some k \<Rightarrow> ss[snd (by_id ! k) := (ss ! snd (by_id ! k))\<lparr>sy_name := Some name, sy_scope := scope\<rparr>])"

definition build_table :: "sla_node \<Rightarrow> sla_program \<Rightarrow> sla_program" where
  "build_table t p =
     (let p = p\<lparr>pg_declared_scopes := u64_of t at_SCOPESIZE, pg_declared_symbols := u64_of t at_SYMBOLSIZE\<rparr>
      in case fold table_child (nd_children t) (p, []) of (p, names) \<Rightarrow>
        let by_id = index_symbols (pg_symbols p) in
        p\<lparr>pg_symbols := fold (name_symbol by_id) names (pg_symbols p), pg_symbol_index := by_id\<rparr>)"

definition build_top :: "sla_node \<Rightarrow> sla_program \<Rightarrow> sla_program" where
  "build_top t p =
     (if nd_id t = el_SOURCEFILES then
        p\<lparr>pg_source_files := pg_source_files p @ map source_file_of (children_of t el_SOURCEFILE)\<rparr>
      else if nd_id t = el_SPACES then
        p\<lparr>pg_default_space := text_of t at_DEFAULTSPACE, pg_spaces := pg_spaces p @ List.map_filter read_space (nd_children t)\<rparr>
      else if nd_id t = el_SYMBOL_TABLE then build_table t p
      else p)"

definition model_build :: "sla_node \<Rightarrow> sla_program" where
  "model_build t = fold build_top (nd_children t) (program_empty\<lparr>
     pg_version := u64_of t at_VERSION,
     pg_big := bool_of t at_BIGENDIAN,
     pg_alignment := or_default 1 (u64_of t at_ALIGN),
     pg_unique_base := or_default 0 (u64_of t at_UNIQBASE),
     pg_extra := filter (\<lambda>(a, _). a \<notin> {at_VERSION, at_BIGENDIAN, at_ALIGN, at_UNIQBASE}) (nd_attrs t)\<rparr>)"

section \<open>Coverage\<close>

record unknown_element = ue_id :: u32 ue_count :: nat ue_bytes :: nat

record coverage = cv_total :: nat cv_interpreted :: nat cv_raw :: nat cv_unknown :: "unknown_element list"

text \<open>The first entry for an element counts it, or a new entry at the end does.\<close>

fun count_unknown :: "u32 \<Rightarrow> nat \<Rightarrow> unknown_element list \<Rightarrow> unknown_element list" where
  "count_unknown i own [] = [\<lparr>ue_id = i, ue_count = 1, ue_bytes = own\<rparr>]"
| "count_unknown i own (u # us) =
     (if ue_id u = i then u\<lparr>ue_count := ue_count u + 1, ue_bytes := ue_bytes u + own\<rparr> # us else u # count_unknown i own us)"

definition measure_node :: "sla_node \<Rightarrow> coverage \<Rightarrow> coverage" where
  "measure_node n c =
     (if element_name (nd_id n) \<noteq> None then c\<lparr>cv_interpreted := cv_interpreted c + node_own_len n\<rparr>
      else c\<lparr>cv_raw := cv_raw c + node_own_len n, cv_unknown := count_unknown (nd_id n) (node_own_len n) (cv_unknown c)\<rparr>)"

definition coverage_measure :: "sla_node \<Rightarrow> coverage" where
  "coverage_measure t =
     (let c = fold measure_node (node_visit t) \<lparr>cv_total = node_len t, cv_interpreted = 0, cv_raw = 0, cv_unknown = []\<rparr>
      in c\<lparr>cv_unknown := sort_key ue_id (cv_unknown c)\<rparr>)"

end
