(* ===== verification/Sla_Emit.thy ===== *)
theory Sla_Emit
  imports Sla_Model
begin

text \<open>
  The element tree of a program: \<open>crates/e5r-sla/src/emit.rs\<close>. A \<open>Build\<close> is the node it holds; adding
  attributes and children one after another is the node with the lists of them. A function that can fail
  returns the error or the node.
\<close>

section \<open>Nodes and errors\<close>

datatype emit_error = Em_UnknownSymbolBody u32 u32 | Em_UnknownElement u32

definition mk :: "u32 \<Rightarrow> (u32 \<times> sla_value) list \<Rightarrow> sla_node list \<Rightarrow> sla_node" where
  "mk i as cs = Node i as cs 0 0"

text \<open>\<open>Value::Signed(i128::from(v))\<close> and \<open>Value::Unsigned(u128::from(v))\<close> of an unsigned \<open>v\<close>.\<close>

definition signed_value :: "'a::len word \<Rightarrow> sla_value" where "signed_value v = V_Signed (uint v)"
definition unsigned_value :: "'a::len word \<Rightarrow> sla_value" where "unsigned_value v = V_Unsigned (unat v)"

text \<open>The attribute of a field that may be absent.\<close>

definition attr_opt :: "u32 \<Rightarrow> ('a \<Rightarrow> sla_value) \<Rightarrow> 'a option \<Rightarrow> (u32 \<times> sla_value) list" where
  "attr_opt i f r = (case r of Some v \<Rightarrow> [(i, f v)] | None \<Rightarrow> [])"

text \<open>A loop that pushes one child for each element, and stops at the first error.\<close>

fun emit_all :: "('a \<Rightarrow> emit_error + sla_node) \<Rightarrow> 'a list \<Rightarrow> emit_error + sla_node list" where
  "emit_all f [] = Inr []"
| "emit_all f (x # xs) = (case f x of Inl e \<Rightarrow> Inl e | Inr n \<Rightarrow>
     case emit_all f xs of Inl e \<Rightarrow> Inl e | Inr ns \<Rightarrow> Inr (n # ns))"

lemma emit_all_cong [fundef_cong]:
  "xs = ys \<Longrightarrow> (\<And>x. x \<in> set ys \<Longrightarrow> f x = g x) \<Longrightarrow> emit_all f xs = emit_all g ys"
  by (induction ys arbitrary: xs) (simp_all split: sum.split)

definition with_children :: "u32 \<Rightarrow> (u32 \<times> sla_value) list \<Rightarrow> emit_error + sla_node list \<Rightarrow> emit_error + sla_node" where
  "with_children i as r = (case r of Inl e \<Rightarrow> Inl e | Inr cs \<Rightarrow> Inr (mk i as cs))"

text \<open>The children of one loop after those of another.\<close>

definition then_children :: "emit_error + sla_node list \<Rightarrow> emit_error + sla_node list \<Rightarrow> emit_error + sla_node list" where
  "then_children r s = (case r of Inl e \<Rightarrow> Inl e | Inr cs \<Rightarrow> case s of Inl e \<Rightarrow> Inl e | Inr ds \<Rightarrow> Inr (cs @ ds))"

section \<open>Fields, expressions and templates\<close>

definition emit_space :: "sla_space \<Rightarrow> sla_node" where
  "emit_space s = mk (case sp_kind s of Sk_Normal \<Rightarrow> el_SPACE | Sk_Other \<Rightarrow> el_SPACE_OTHER | Sk_Unique \<Rightarrow> el_SPACE_UNIQUE)
     ([(at_NAME, V_Text (sp_name s)), (at_INDEX, signed_value (sp_index s)), (at_BIGENDIAN, V_Bool (sp_big s)),
       (at_DELAY, signed_value (sp_delay s)), (at_SIZE, signed_value (sp_size s))]
      @ (if sp_word_size s \<noteq> 1 then [(at_WORDSIZE, signed_value (sp_word_size s))] else [])
      @ [(at_PHYSICAL, V_Bool (sp_physical s))]) []"

definition emit_token_field :: "token_field \<Rightarrow> sla_node" where
  "emit_token_field f = mk el_TOKEN_FIELD
     [(at_BIGENDIAN, V_Bool (tf_big f)), (at_SIGNBIT, V_Bool (tf_signed f)),
      (at_STARTBIT, signed_value (tf_start_bit f)), (at_ENDBIT, signed_value (tf_end_bit f)),
      (at_STARTBYTE, signed_value (tf_start_byte f)), (at_ENDBYTE, signed_value (tf_end_byte f)),
      (at_SHIFT, signed_value (tf_shift f))] []"

definition emit_context_field :: "context_field \<Rightarrow> sla_node" where
  "emit_context_field f = mk el_CONTEXT_FIELD
     [(at_SIGNBIT, V_Bool (cf_signed f)),
      (at_STARTBIT, signed_value (cf_start_bit f)), (at_ENDBIT, signed_value (cf_end_bit f)),
      (at_STARTBYTE, signed_value (cf_start_byte f)), (at_ENDBYTE, signed_value (cf_end_byte f)),
      (at_SHIFT, signed_value (cf_shift f))] []"

definition emit_field :: "field_def \<Rightarrow> sla_node" where
  "emit_field f = (case f of Fd_Token t \<Rightarrow> emit_token_field t | Fd_Context c \<Rightarrow> emit_context_field c)"

fun emit_expr :: "sla_expr \<Rightarrow> emit_error + sla_node" where
  "emit_expr (X_OperandValue index table ct) = Inr (mk el_OPERAND_VALUE
     [(at_INDEX, signed_value index), (at_TABLE, unsigned_value table), (at_CT, unsigned_value ct)] [])"
| "emit_expr (X_Constant v) = Inr (mk el_PEXP_CONSTANT [(at_VAL, V_Signed v)] [])"
| "emit_expr (X_Context c) = Inr (emit_context_field c)"
| "emit_expr (X_TokenField t) = Inr (emit_token_field t)"
| "emit_expr X_InstStart = Inr (mk el_PEXP_INST_START [] [])"
| "emit_expr X_InstNext = Inr (mk el_PEXP_INST_NEXT [] [])"
| "emit_expr X_InstNext2 = Inr (mk el_PEXP_INST_NEXT2 [] [])"
| "emit_expr (X_Op p operands) = with_children (op_element p) [] (emit_all emit_expr operands)"
| "emit_expr (X_Unknown element operands) = Inl (Em_UnknownElement element)"

text \<open>\<open>u128::try_from(v).or_default_default()\<close>.\<close>

definition u128_or_zero :: "int \<Rightarrow> nat" where "u128_or_zero v = (if 0 \<le> v then nat v else 0)"

definition emit_const_template :: "const_template \<Rightarrow> emit_error + sla_node" where
  "emit_const_template c = (case c of
     K_Real v \<Rightarrow> Inr (mk el_CONST_REAL [(at_VAL, V_Unsigned (u128_or_zero v))] [])
   | K_SpaceId ix \<Rightarrow> Inr (mk el_CONST_SPACEID [(at_SPACE, V_Space ix)] [])
   | K_Handle index select extra \<Rightarrow> Inr (mk el_CONST_HANDLE
       ([(at_VAL, signed_value index), (at_SELECT, signed_value select)] @ attr_opt at_HANDLE_28 V_Unsigned extra) [])
   | K_Relative v \<Rightarrow> Inr (mk el_CONST_RELATIVE [(at_VAL, V_Unsigned (u128_or_zero v))] [])
   | K_InstStart \<Rightarrow> Inr (mk el_CONST_INST_START [] [])
   | K_InstNext \<Rightarrow> Inr (mk el_CONST_INST_NEXT [] [])
   | K_InstNext2 \<Rightarrow> Inr (mk el_CONST_INST_NEXT2 [] [])
   | K_CurSpace \<Rightarrow> Inr (mk el_CONST_CURSPACE [] [])
   | K_CurSpaceSize \<Rightarrow> Inr (mk el_CONST_CURSPACE_SIZE [] [])
   | K_Unknown element \<Rightarrow> Inl (Em_UnknownElement element))"

definition emit_varnode_template :: "varnode_template \<Rightarrow> emit_error + sla_node" where
  "emit_varnode_template v =
     with_children el_VARNODE_TPL [] (emit_all emit_const_template [vt_space v, vt_offset v, vt_size v])"

definition emit_output :: "varnode_template option \<Rightarrow> emit_error + sla_node" where
  "emit_output r = (case r of Some v \<Rightarrow> emit_varnode_template v | None \<Rightarrow> Inr (mk el_NULL [] []))"

definition emit_op_template :: "op_template \<Rightarrow> emit_error + sla_node" where
  "emit_op_template r = with_children el_OP_TPL [(at_CODE, signed_value (ot_opcode r))]
     (then_children (emit_all emit_output [ot_output r]) (emit_all emit_varnode_template (ot_inputs r)))"

definition emit_result :: "const_template list option \<Rightarrow> emit_error + sla_node" where
  "emit_result r = (case r of Some parts \<Rightarrow> with_children el_HANDLE_TPL [] (emit_all emit_const_template parts)
     | None \<Rightarrow> Inr (mk el_NULL [] []))"

definition emit_construct_template :: "construct_template \<Rightarrow> emit_error + sla_node" where
  "emit_construct_template t = with_children el_CONSTRUCT_TPL
     (attr_opt at_DELAY V_Signed (ct_delay t) @ attr_opt at_SECTION V_Signed (ct_section t) @ attr_opt at_LABELS signed_value (ct_labels t))
     (then_children (emit_all emit_result [ct_result t]) (emit_all emit_op_template (ct_ops t)))"

section \<open>Patterns and decisions\<close>

definition emit_pattern_word :: "pattern_word \<Rightarrow> sla_node" where
  "emit_pattern_word w = mk el_PATTERN_WORD [(at_MASK, unsigned_value (pw_mask w)), (at_VAL, unsigned_value (pw_value w))] []"

definition emit_pattern_block :: "pattern_block \<Rightarrow> sla_node" where
  "emit_pattern_block p = mk el_PATTERN_BLOCK [(at_OFF, signed_value (pb_offset p)), (at_NBYTES, signed_value (pb_bytes p))]
     (map emit_pattern_word (pb_words p))"

definition pattern_half :: "u32 \<Rightarrow> pattern_block list \<Rightarrow> sla_node" where
  "pattern_half i blocks = mk i [] (map emit_pattern_block blocks)"

definition emit_pattern :: "sla_pattern \<Rightarrow> sla_node" where
  "emit_pattern p =
     (if pt_combined p then
        mk el_COMBINE_PATTERN [] [pattern_half el_CONTEXT_PATTERN (pt_context p), pattern_half el_INSTRUCTION_PATTERN (pt_instruction p)]
      else if pt_has_context p then pattern_half el_CONTEXT_PATTERN (pt_context p)
      else pattern_half el_INSTRUCTION_PATTERN (pt_instruction p))"

definition emit_pair :: "u32 \<times> sla_pattern \<Rightarrow> sla_node" where
  "emit_pair = (\<lambda>(ix, p). mk el_DECISION_PAIR [(at_ID, signed_value ix)] [emit_pattern p])"

fun emit_decision :: "sla_decision \<Rightarrow> sla_node" where
  "emit_decision (Decision number on_context start_bit num_bits children pairs) = mk el_DECISION
     [(at_NUMBER, signed_value number), (at_CONTEXT, V_Bool on_context), (at_STARTBIT, signed_value start_bit), (at_SIZE, signed_value num_bits)]
     (map emit_decision children @ map emit_pair pairs)"

section \<open>Constructors and symbols\<close>

definition emit_print :: "print_piece \<Rightarrow> sla_node" where
  "emit_print p = (case p of Pp_Literal s \<Rightarrow> mk el_PRINT_LITERAL [(at_PIECE, V_Text s)] []
     | Pp_Operand i \<Rightarrow> mk el_PRINT_OPERAND [(at_ID, signed_value i)] [])"

definition emit_context_op :: "context_op \<Rightarrow> emit_error + sla_node" where
  "emit_context_op r = (case r of
     Co_Set word shift bits val \<Rightarrow> with_children el_CONTEXT_CHANGE
       [(at_WORD, signed_value word), (at_SHIFT, signed_value shift), (at_MASK, unsigned_value bits)] (emit_all emit_expr val)
   | Co_Commit symbol word bits flow \<Rightarrow> Inr (mk el_GLOBALSET
       [(at_ID, unsigned_value symbol), (at_NUMBER, signed_value word), (at_MASK, unsigned_value bits), (at_FLOW, V_Bool flow)] []))"

definition emit_operand :: "u32 \<Rightarrow> sla_node" where
  "emit_operand v = mk el_CONSTRUCTOR_OPERAND [(at_ID, unsigned_value v)] []"

definition emit_constructor :: "sla_constructor \<Rightarrow> emit_error + sla_node" where
  "emit_constructor c = with_children el_CONSTRUCTOR
     [(at_PARENT, unsigned_value (cn_parent c)), (at_FLOWTHRU, V_Signed (cn_flowthru c)), (at_LENGTH, signed_value (cn_length c)),
      (at_SOURCE, signed_value (cn_source c)), (at_LINE, signed_value (cn_line c))]
     (then_children (Inr (map emit_operand (cn_operands c) @ map emit_print (cn_print c)))
       (then_children (emit_all emit_context_op (cn_context_ops c)) (emit_all emit_construct_template (cn_templates c))))"

definition body_element :: "symbol_body \<Rightarrow> u32" where
  "body_element b = (case b of
     B_Operand _ _ _ _ _ _ _ \<Rightarrow> el_OPERAND_SYM
   | B_Varnode _ _ _ \<Rightarrow> el_VARNODE_SYM
   | B_UserOp _ \<Rightarrow> el_USEROP_SYM
   | B_Value _ \<Rightarrow> el_VALUE_SYM
   | B_Context _ _ _ _ _ \<Rightarrow> el_CONTEXT_SYM
   | B_End \<Rightarrow> el_END_SYM
   | B_Name _ _ \<Rightarrow> el_NAME_SYM
   | B_Next2 \<Rightarrow> el_NEXT2_SYM
   | B_Start \<Rightarrow> el_START_SYM
   | B_Subtable _ _ \<Rightarrow> el_SUBTABLE_SYM
   | B_ValueMap _ _ \<Rightarrow> el_VALUEMAP_SYM
   | B_VarnodeList _ _ \<Rightarrow> el_VARNODE_LIST_SYM
   | B_Unknown element \<Rightarrow> element)"

text \<open>The identifier of a header is that of the body plus one; the checked addition of the code panics on the
  greatest element identifier, which only an unknown body can have and which wraps here.\<close>

definition emit_header :: "sla_symbol \<Rightarrow> sla_node" where
  "emit_header s = mk (body_element (sy_body s) + 1)
     [(at_NAME, V_Text (or_default [] (sy_name s))), (at_ID, unsigned_value (sy_id s)),
      (at_SCOPE, unsigned_value (or_default 0 (sy_scope s)))] []"

definition field_child :: "field_def option \<Rightarrow> sla_node list" where
  "field_child f = (case f of Some f \<Rightarrow> [emit_field f] | None \<Rightarrow> [])"

definition emit_entry :: "u32 option \<Rightarrow> sla_node" where
  "emit_entry e = (case e of Some v \<Rightarrow> mk el_VARNODE_LIST_ENTRY [(at_ID, unsigned_value v)] [] | None \<Rightarrow> mk el_NULL [] [])"

definition emit_body :: "sla_symbol \<Rightarrow> emit_error + sla_node" where
  "emit_body s = (let i = (at_ID, unsigned_value (sy_id s)) in case sy_body s of
     B_Varnode space offset sz \<Rightarrow> Inr (mk el_VARNODE_SYM
       [i, (at_SPACE, V_Space space), (at_OFF, unsigned_value offset), (at_SIZE, signed_value sz)] [])
   | B_UserOp index \<Rightarrow> Inr (mk el_USEROP_SYM [i, (at_INDEX, signed_value index)] [])
   | B_Value f \<Rightarrow> Inr (mk el_VALUE_SYM [i] (field_child f))
   | B_ValueMap f vs \<Rightarrow> Inr (mk el_VALUEMAP_SYM [i]
       (field_child f @ map (\<lambda>v. mk el_VALUEMAP_ENTRY [(at_VAL, V_Signed v)] []) vs))
   | B_Name f names \<Rightarrow> Inr (mk el_NAME_SYM [i]
       (field_child f @ map (\<lambda>n. mk el_NAME_ENTRY (attr_opt at_NAME V_Text n) []) names))
   | B_VarnodeList f es \<Rightarrow> Inr (mk el_VARNODE_LIST_SYM [i] (field_child f @ map emit_entry es))
   | B_Context varnode low high flow f \<Rightarrow> Inr (mk el_CONTEXT_SYM
       [i, (at_VARNODE, unsigned_value varnode), (at_LOW, signed_value low), (at_HIGH, signed_value high), (at_FLOW, V_Bool flow)]
       (case f of Some c \<Rightarrow> [emit_context_field c] | None \<Rightarrow> []))
   | B_Operand index offset sub base min_length flag es \<Rightarrow> with_children el_OPERAND_SYM
       ([i] @ attr_opt at_SUBSYM unsigned_value sub
        @ [(at_OFF, signed_value offset), (at_OPERAND_19, V_Signed base), (at_OPERAND_18, signed_value min_length)]
        @ attr_opt at_CODE V_Bool flag @ [(at_INDEX, signed_value index)]) (emit_all emit_expr es)
   | B_Start \<Rightarrow> Inr (mk el_START_SYM [i] [])
   | B_End \<Rightarrow> Inr (mk el_END_SYM [i] [])
   | B_Next2 \<Rightarrow> Inr (mk el_NEXT2_SYM [i] [])
   | B_Subtable cs dec \<Rightarrow> with_children el_SUBTABLE_SYM [i, (at_NUMCT, V_Signed (int (length cs)))]
       (then_children (emit_all emit_constructor cs) (Inr (case dec of Some d \<Rightarrow> [emit_decision d] | None \<Rightarrow> [])))
   | B_Unknown element \<Rightarrow> Inl (Em_UnknownSymbolBody (sy_id s) element))"

section \<open>The tree\<close>

definition emit_source_file :: "source_file \<Rightarrow> sla_node" where
  "emit_source_file f = mk el_SOURCEFILE [(at_NAME, V_Text (sf_name f)), (at_INDEX, signed_value (sf_index f))] []"

definition emit_scope :: "sla_scope \<Rightarrow> sla_node" where
  "emit_scope sc = mk el_SCOPE [(at_ID, unsigned_value (sc_id sc)), (at_PARENT, unsigned_value (sc_parent sc))] []"

definition emit_table :: "sla_program \<Rightarrow> emit_error + sla_node" where
  "emit_table p = with_children el_SYMBOL_TABLE
     (attr_opt at_SCOPESIZE signed_value (pg_declared_scopes p) @ attr_opt at_SYMBOLSIZE signed_value (pg_declared_symbols p))
     (then_children (Inr (map emit_scope (pg_scopes p) @ map emit_header (pg_symbols p))) (emit_all emit_body (pg_symbols p)))"

definition emit_tree :: "sla_program \<Rightarrow> emit_error + sla_node" where
  "emit_tree p = with_children el_SLEIGH
     ([(at_VERSION, signed_value (or_default 4 (pg_version p))), (at_BIGENDIAN, V_Bool (pg_big p)),
       (at_ALIGN, signed_value (pg_alignment p)), (at_UNIQBASE, unsigned_value (pg_unique_base p))] @ pg_extra p)
     (then_children (Inr
        [mk el_SOURCEFILES [] (map emit_source_file (pg_source_files p)),
         mk el_SPACES (attr_opt at_DEFAULTSPACE V_Text (pg_default_space p)) (map emit_space (pg_spaces p))])
       (emit_all emit_table [p]))"

end
