(* ===== verification/Sla_File.thy ===== *)
theory Sla_File
  imports Sla_Deflate Sla_Emit
begin

text \<open>
  A whole \<open>.sla\<close> file: \<open>crates/e5r-sla/src/lib.rs\<close> and \<open>emit::write\<close>. A file is its list of bytes; reading one
  from a path (\<open>Sla::open\<close>) and the error that can bring are not modelled.
\<close>

definition sla_magic :: "u8 list" where "sla_magic = [0x73, 0x6c, 0x61]"

definition known_version :: u8 where "known_version = 4"

datatype sla_error =
    S_TooShort | S_BadMagic "u8 list" | S_Inflate inflate_error | S_Decode decode_error | S_NotSleigh u32
  | S_Encode encode_error | S_Emit emit_error

record sla =
  sla_version :: u8
  sla_payload_len :: nat
  sla_tree :: sla_node
  sla_program :: sla_program
  sla_coverage :: coverage

definition sla_parse_with_limit :: "u8 list \<Rightarrow> nat \<Rightarrow> sla_error + sla" where
  "sla_parse_with_limit bytes limit =
     (if length bytes < 4 then Inl S_TooShort
      else if take 3 bytes \<noteq> sla_magic then Inl (S_BadMagic (take 3 bytes))
      else (case inflate_zlib (drop 4 bytes) limit of Inl e \<Rightarrow> Inl (S_Inflate e) | Inr payload \<Rightarrow>
        case decode_tree payload of Inl e \<Rightarrow> Inl (S_Decode e) | Inr t \<Rightarrow>
        if nd_id t \<noteq> el_SLEIGH then Inl (S_NotSleigh (nd_id t))
        else Inr \<lparr>sla_version = bytes ! 3, sla_payload_len = length payload, sla_tree = t,
          sla_program = model_build t, sla_coverage = coverage_measure t\<rparr>))"

definition default_limit :: nat where "default_limit = 256 * 1024 * 1024"

definition sla_parse :: "u8 list \<Rightarrow> sla_error + sla" where
  "sla_parse bytes = sla_parse_with_limit bytes default_limit"

definition version_is_known :: "sla \<Rightarrow> bool" where "version_is_known s \<longleftrightarrow> sla_version s = known_version"

definition write_sla :: "sla_node \<Rightarrow> u8 \<Rightarrow> level \<Rightarrow> sla_error + u8 list" where
  "write_sla t version lv = (case encode_tree t of Inl e \<Rightarrow> Inl (S_Encode e)
     | Inr payload \<Rightarrow> Inr (sla_magic @ [version] @ deflate_zlib payload lv))"

definition sla_to_bytes :: "sla \<Rightarrow> level \<Rightarrow> sla_error + u8 list" where
  "sla_to_bytes s lv = write_sla (sla_tree s) (sla_version s) lv"

definition emit_write :: "sla_program \<Rightarrow> u8 \<Rightarrow> level \<Rightarrow> sla_error + u8 list" where
  "emit_write p version lv = (case emit_tree p of Inl e \<Rightarrow> Inl (S_Emit e) | Inr t \<Rightarrow> write_sla t version lv)"

section \<open>Checking a file against itself\<close>

datatype inconsistency =
    I_SymbolCount u64 nat | I_ScopeCount u64 nat | I_MissingSymbol u32 u32 | I_MissingSpace u32 | I_DuplicateSymbol u32
  | I_UnnamedSymbol u32 | I_NodeOutOfRange u32 nat nat

fun check_decision :: "sla_decision \<Rightarrow> nat \<Rightarrow> u32 \<Rightarrow> inconsistency list" where
  "check_decision (Decision number on_context start_bit num_bits children pairs) ctors owner =
     map (\<lambda>(ix, _). I_MissingSymbol owner ix) (filter (\<lambda>(ix, _). unat ix \<ge> ctors) pairs)
     @ concat (map (\<lambda>c. check_decision c ctors owner) children)"

text \<open>The equal neighbours of a sorted list: \<open>windows(2)\<close>.\<close>

fun equal_neighbours :: "'a list \<Rightarrow> 'a list" where
  "equal_neighbours (x # y # xs) = (if x = y then [x] else []) @ equal_neighbours (y # xs)"
| "equal_neighbours _ = []"

definition missing :: "sla_program \<Rightarrow> u32 \<Rightarrow> u32 \<Rightarrow> inconsistency list" where
  "missing p by i = (if has_symbol p i then [] else [I_MissingSymbol by i])"

definition check_symbol :: "sla_program \<Rightarrow> u32 list \<Rightarrow> sla_symbol \<Rightarrow> inconsistency list" where
  "check_symbol p spaces s = (if sy_name s = None then [I_UnnamedSymbol (sy_id s)] else []) @
     (case sy_body s of
        B_Varnode space _ _ \<Rightarrow> if search_by_key id spaces space \<noteq> None then [] else [I_MissingSpace space]
      | B_Context varnode _ _ _ _ \<Rightarrow> missing p (sy_id s) varnode
      | B_VarnodeList _ es \<Rightarrow> concat (map (\<lambda>e. case e of Some v \<Rightarrow> missing p (sy_id s) v | None \<Rightarrow> []) es)
      | B_Operand _ _ (Some sub) _ _ _ _ \<Rightarrow> missing p (sy_id s) sub
      | B_Subtable cs dec \<Rightarrow>
          concat (map (\<lambda>c. missing p (sy_id s) (cn_parent c) @ concat (map (missing p (sy_id s)) (cn_operands c))) cs)
          @ (case dec of Some d \<Rightarrow> check_decision d (length cs) (sy_id s) | None \<Rightarrow> [])
      | _ \<Rightarrow> [])"

definition check_count :: "(u64 \<Rightarrow> nat \<Rightarrow> inconsistency) \<Rightarrow> u64 option \<Rightarrow> nat \<Rightarrow> inconsistency list" where
  "check_count f declared found = (case declared of Some d \<Rightarrow> if d \<noteq> of_nat found then [f d found] else [] | None \<Rightarrow> [])"

definition check_node :: "nat \<Rightarrow> sla_node \<Rightarrow> inconsistency list" where
  "check_node len n = (if nd_end n > len \<or> nd_start n > nd_end n then [I_NodeOutOfRange (nd_id n) (nd_start n) (nd_end n)] else [])"

definition sla_check :: "sla \<Rightarrow> inconsistency list" where
  "sla_check s = (let p = sla_program s in
     check_count I_SymbolCount (pg_declared_symbols p) (length (pg_symbols p))
     @ check_count I_ScopeCount (pg_declared_scopes p) (length (pg_scopes p))
     @ map I_DuplicateSymbol (equal_neighbours (sort (map sy_id (pg_symbols p))))
     @ concat (map (check_symbol p (sort (map sp_index (pg_spaces p)))) (pg_symbols p))
     @ concat (map (check_node (sla_payload_len s)) (node_visit (sla_tree s))))"

end
