(* ===== verification/Sla_Tree_Ok.thy ===== *)
theory Sla_Tree_Ok
  imports Sla_Tree
begin

text \<open>
  Reading a tree undoes writing it, whatever can be read can be written again, and the byte ranges of a
  tree that was read partition its payload.
\<close>

section \<open>Chunks, tags and values\<close>

lemma split_byte:
  assumes "unat c < 2 ^ b" and "unat k * 2 ^ b < 2 ^ LENGTH('a)" and "b < LENGTH('a)"
  shows "drop_bit b (push_bit b k OR c) = (k :: 'a::len word)" "(push_bit b k OR c) AND (push_bit b 1 - 1) = c"
proof -
  have v: "unat (push_bit b k OR c) = unat k * 2 ^ b + unat c"
  proof -
    have "(unat k + 1) * 2 ^ b \<le> 2 ^ LENGTH('a)"
    proof -
      have "unat k < 2 ^ (LENGTH('a) - b)"
        using assms(2,3) by (metis le_add_diff_inverse2 less_imp_le mult_less_cancel2 power_add)
      then have "(unat k + 1) * 2 ^ b \<le> 2 ^ (LENGTH('a) - b) * 2 ^ b" by (intro mult_right_mono) simp_all
      then show ?thesis using assms(3) by (simp flip: power_add)
    qed
    then have "unat k * 2 ^ b + unat c < 2 ^ LENGTH('a)" using assms(1) by simp
    then show ?thesis using assms(1,2) by (simp add: push_or_add unat_add_small unat_push_bit_small)
  qed
  show "drop_bit b (push_bit b k OR c) = k" unfolding word_eq_iff_unat unat_drop_bit v using assms(1) by simp
  show "(push_bit b k OR c) AND (push_bit b 1 - 1) = c" using assms(1,3) by (simp only: word_eq_iff_unat unat_and_mask v) simp
qed

lemma push_chunks_Suc: "push_chunks v (Suc n) = (0x80 OR (of_nat (v div 2 ^ (n * 7)) AND 0x7f)) # push_chunks v n"
  by (simp add: push_chunks_def)

lemma length_push_chunks [simp]: "length (push_chunks v n) = n"
  by (simp add: push_chunks_def)

lemma bit_128: "bit (0x80 :: u8) n \<longleftrightarrow> n = 7"
proof -
  have "(0x80 :: u8) = 2 ^ 7" by simp
  then show ?thesis by (simp only: bit_exp_iff) auto
qed

lemma as_u32_unat [simp]: "as_u32 (unat i) = i"
  using unat_lt_exp [of i] by (simp add: as_u32_def)

lemma chunk_byte: "unat ((0x80 OR (of_nat x AND 0x7f)) AND 0x7f :: u8) = x mod 128"
proof -
  have m: "(0x7f :: u8) = mask 7" by (simp add: mask_eq_exp_minus_1)
  have "(0x80 OR (of_nat x AND 0x7f)) AND 0x7f = (take_bit 7 (of_nat x) :: u8)"
  proof (rule bit_word_eqI)
    fix n assume "n < LENGTH(8)"
    show "bit ((0x80 OR (of_nat x AND 0x7f)) AND 0x7f :: u8) n = bit (take_bit 7 (of_nat x) :: u8) n"
      unfolding m bit_and_iff bit_or_iff bit_mask_iff bit_take_bit_iff bit_128 by auto
  qed
  moreover have "unat (take_bit 7 (of_nat x) :: u8) = x mod 128"
    by (subst unsigned_take_bit_eq) (simp add: unat_of_nat take_bit_eq_mod mod_mod_cancel)
  ultimately show ?thesis by simp
qed

lemma chunk_loop_push:
  "drop pos d = push_chunks v n @ rest \<Longrightarrow> pos + n \<le> length d \<Longrightarrow>
    chunk_loop d n a pos = (a * 2 ^ (n * 7) + v mod 2 ^ (n * 7), pos + n)"
proof (induction n arbitrary: a pos)
  case (Suc n)
  have pos: "pos < length d" using Suc.prems(2) by simp
  have d: "d ! pos # drop (Suc pos) d = push_chunks v (Suc n) @ rest" using Suc.prems(1) pos by (simp add: Cons_nth_drop_Suc)
  then have "d ! pos = 0x80 OR (of_nat (v div 2 ^ (n * 7)) AND 0x7f)" "drop (Suc pos) d = push_chunks v n @ rest"
    by (simp_all add: push_chunks_Suc)
  moreover have "v mod 2 ^ (Suc n * 7) = 2 ^ (n * 7) * (v div 2 ^ (n * 7) mod 128) + v mod 2 ^ (n * 7)"
    using mod_mult2_eq [of v "2 ^ (n * 7)" 128] by (simp add: power_add mult.commute)
  ultimately show ?case
    using Suc.IH [of "Suc pos" "a * 2 ^ 7 + unat (d ! pos AND 0x7f)"] Suc.prems(2)
    by (simp add: chunk_byte algebra_simps power_add)
qed simp

lemma drop_append_le: "drop pos d = xs @ rest \<Longrightarrow> xs \<noteq> [] \<Longrightarrow> pos + length xs \<le> length d"
  by (metis add.commute drop_all drop_eq_Nil2 le_add1 length_append length_drop less_imp_le nat_le_linear
      append_is_Nil_conv le_diff_conv2)

lemma drop_after: "drop pos d = xs @ rest \<Longrightarrow> drop (pos + length xs) d = rest"
  by (metis add.commute append_eq_conv_conj drop_drop)

lemma cur_chunks_push:
  assumes "drop pos d = push_chunks v n @ rest" and "v < 2 ^ (n * 7)" and "pos \<le> length d"
  shows "cur_chunks d n pos = Inr (v, pos + n)"
proof -
  have "pos + n \<le> length d"
    using arg_cong [OF assms(1), of length] assms(3) by simp
  then show ?thesis using chunk_loop_push [OF assms(1)] assms(2) by (simp add: cur_chunks_def)
qed

lemma chunk_count_bound: "v < 2 ^ (chunk_count v * 7)"
proof (induction v rule: chunk_count.induct)
  case (1 v)
  show ?case
  proof (cases "v = 0")
    case False
    then have "v div 2 ^ 7 < 2 ^ (chunk_count (v div 2 ^ 7) * 7)" using 1 by simp
    then have "v < 2 ^ (chunk_count (v div 2 ^ 7) * 7) * 2 ^ 7" by (simp add: div_less_iff_less_mult)
    then show ?thesis using False by (subst chunk_count.simps) (simp add: power_add)
  qed (simp add: chunk_count.simps)
qed

lemma chunk_count_le: "v < 2 ^ (n * 7) \<Longrightarrow> chunk_count v \<le> n"
proof (induction n arbitrary: v)
  case (Suc n)
  then have "v div 2 ^ 7 < 2 ^ (n * 7)" by (simp add: div_less_iff_less_mult power_add mult.commute)
  then show ?case using Suc.IH by (subst chunk_count.simps) simp
qed (simp add: chunk_count.simps)

lemma cur_byte_at: "drop pos d = b # rest \<Longrightarrow> cur_byte d pos = Inr (b, Suc pos) \<and> drop (Suc pos) d = rest \<and> Suc pos \<le> length d"
  by (cases "pos < length d") (auto simp: cur_byte_def Cons_nth_drop_Suc [symmetric])

definition tag_kinds :: "(u8 \<times> u8 \<times> u8 \<times> u8) set" where
  "tag_kinds = {(0x40, 0x60, 0b010, 0b011), (0x80, 0xA0, 0b100, 0b101), (0xC0, 0xE0, 0b110, 0b111)}"

lemma cur_tag_short:
  "cur_byte d pos = Inr (head, p) \<Longrightarrow> drop_bit 5 head = k \<Longrightarrow> k \<in> {0b010, 0b100, 0b110} \<Longrightarrow>
    cur_tag d pos = Inr ((k, as_u32 (unat (head AND 0x1f))), p)"
  by (simp add: cur_tag_def Let_def)

lemma cur_tag_ext:
  assumes "cur_byte d pos = Inr (head, p)" and "drop_bit 5 head = k" and "k \<in> {0b011, 0b101, 0b111}"
  shows "cur_tag d pos = (case cur_chunks d (unat (head AND 0x0f) + 1) p of Inl e \<Rightarrow> Inl e | Inr (i, p) \<Rightarrow> Inr ((k, as_u32 i), p))"
proof -
  have "k \<notin> {0b010, 0b100, 0b110}" using assms(3) by auto
  then show ?thesis using assms by (simp add: cur_tag_def Let_def split: sum.split)
qed

lemma cur_tag_push:
  assumes "(short, ext, k, k') \<in> tag_kinds" and "drop pos d = push_tag short ext i @ rest"
  shows "\<exists>kind\<in>{k, k'}. cur_tag d pos = Inr ((kind, i), pos + length (push_tag short ext i))"
proof -
  have sh: "short = push_bit 5 k" "ext = push_bit 5 k'" "unat k * 2 ^ 5 < 2 ^ 8" "unat k' * 2 ^ 5 < 2 ^ 8"
    "k \<in> {0b010, 0b100, 0b110}" "k' \<in> {0b011, 0b101, 0b111}"
    using assms(1) by (auto simp: tag_kinds_def)
  have m5: "(0x1f :: u8) = push_bit 5 1 - 1" and m4: "(0x0f :: u8) = push_bit 4 1 - 1" by simp_all
  show ?thesis
  proof (cases "i < 32")
    case True
    then have i: "unat i < 32" by (simp add: word_less_nat_alt)
    then have c: "unat (ucast i :: u8) < 2 ^ 5" "unat (ucast i :: u8) = unat i" by (simp_all add: unat_ucast_mod)
    have "drop pos d = (push_bit 5 k OR ucast i) # rest" using assms(2) True sh(1) by (simp add: push_tag_def)
    note b = cur_byte_at [OF this]
    have "drop_bit 5 (push_bit 5 k OR ucast i) = k" "(push_bit 5 k OR ucast i) AND 0x1f = ucast i"
      using split_byte [OF c(1), of k] sh(3) unfolding m5 by simp_all
    then have "cur_tag d pos = Inr ((k, i), Suc pos)"
      using cur_tag_short [OF conjunct1 [OF b] _ sh(5)] c(2) by simp
    then show ?thesis using True by (simp add: push_tag_def)
  next
    case False
    define q where "q = max (chunk_count (unat i)) 1 - 1"
    have n: "max (chunk_count (unat i)) 1 = Suc q" by (simp add: q_def)
    have "unat i < 2 ^ (5 * 7)" using unat_lt_exp [of i] by simp
    then have q4: "q \<le> 4" using chunk_count_le [of "unat i" 5] by (simp add: q_def)
    then have c5: "unat (of_nat q :: u8) = q" by (simp add: unat_of_nat_small)
    have c: "of_nat q AND (0x0f :: u8) = of_nat q"
      using q4 c5 unfolding m4 word_eq_iff_unat by (subst unat_and_mask) simp_all
    have byte: "drop pos d = (push_bit 5 k' OR of_nat q) # push_chunks (unat i) (Suc q) @ rest"
      using assms(2) False sh(2) c n by (simp add: push_tag_def Let_def)
    note b = cur_byte_at [OF byte]
    have small: "unat (of_nat q :: u8) < 2 ^ 5" using q4 c5 by simp
    have k: "drop_bit 5 (push_bit 5 k' OR of_nat q) = k'" using split_byte(1) [OF small, of k'] sh(4) by simp
    have low: "(push_bit 5 k' OR of_nat q) AND 0x0f = of_nat q"
    proof -
      have m: "(push_bit 5 1 - 1) AND 0x0f = (0x0f :: u8)" by simp
      have "(push_bit 5 k' OR of_nat q) AND 0x0f = (push_bit 5 k' OR of_nat q) AND (push_bit 5 1 - 1) AND 0x0f"
        by (simp only: m and.assoc)
      also have "\<dots> = of_nat q AND 0x0f" unfolding and.assoc [symmetric] by (subst split_byte(2) [OF small]) (use sh(4) in simp_all)
      finally show ?thesis using c by simp
    qed
    have bound: "unat i < 2 ^ (Suc q * 7)"
    proof -
      have "chunk_count (unat i) \<le> Suc q" using n by linarith
      then have "(2 :: nat) ^ (chunk_count (unat i) * 7) \<le> 2 ^ (Suc q * 7)" by (intro power_increasing) simp_all
      then show ?thesis using chunk_count_bound [of "unat i"] by linarith
    qed
    have "cur_chunks d (Suc q) (Suc pos) = Inr (unat i, Suc pos + Suc q)"
      using b by (intro cur_chunks_push [OF _ bound]) simp_all
    then have "cur_tag d pos = Inr ((k', i), Suc pos + Suc q)"
      using cur_tag_ext [OF conjunct1 [OF b] k sh(6)] low c5 by simp
    then show ?thesis using False n by (simp add: push_tag_def Let_def)
  qed
qed

text \<open>The values a tree can hold: a text is UTF-8 and shorter than \<open>2 ^ 64\<close>, and \<open>Other\<close> has one of the type codes
  no other value uses.\<close>

definition value_ok :: "sla_value \<Rightarrow> bool" where
  "value_ok v \<longleftrightarrow> (case v of V_Text s \<Rightarrow> utf8_ok s \<and> length s < 2 ^ 64 | V_Other k n \<Rightarrow> k < 16 \<and> k \<notin> {1, 2, 3, 4, 5, 7} | _ \<Rightarrow> True)"

definition value_fits :: "sla_value \<Rightarrow> bool" where
  "value_fits v \<longleftrightarrow> (case v of V_Signed i \<Rightarrow> \<bar>i\<bar> < 2 ^ 105 | V_Unsigned n \<Rightarrow> n < 2 ^ 105 | V_Other k n \<Rightarrow> n < 2 ^ 105
     | V_Text s \<Rightarrow> length s < 2 ^ 105 | _ \<Rightarrow> True)"

lemma chunk_count_fits: "chunk_count v \<le> 15 \<longleftrightarrow> v < 2 ^ 105"
proof
  assume "chunk_count v \<le> 15"
  then have "(2 :: nat) ^ (chunk_count v * 7) \<le> 2 ^ (15 * 7)" by (intro power_increasing) simp_all
  moreover have "(2 :: nat) ^ (15 * 7) = 2 ^ 105" by simp
  ultimately show "v < 2 ^ 105" using chunk_count_bound [of v] by linarith
next
  assume "v < 2 ^ 105"
  then have "v < 2 ^ (15 * 7)" by simp
  then show "chunk_count v \<le> 15" by (rule chunk_count_le)
qed

lemma push_typed_ok: "(\<exists>bs. push_typed k n = Inr bs) \<longleftrightarrow> n < 2 ^ 105"
  unfolding push_typed_def Let_def chunk_count_fits [symmetric] by simp

lemma push_value_ok: "(\<exists>bs. push_value v = Inr bs) \<longleftrightarrow> value_fits v"
proof (cases v)
  case (V_Signed i)
  then show ?thesis using push_typed_ok [of 3 "nat (- i)"] push_typed_ok [of 2 "nat i"]
    by (cases "i < 0") (simp_all add: push_value_def value_fits_def nat_less_iff)
next
  case (V_Space x)
  have "unat x < 2 ^ 105" using unat_lt_exp [of x] by simp
  then show ?thesis using V_Space push_typed_ok [of 5 "unat x"] by (simp add: push_value_def value_fits_def)
next
  case (V_Text t)
  then show ?thesis using chunk_count_fits [of "length t"]
    by (cases "chunk_count (length t) \<le> 15") (simp_all add: push_value_def value_fits_def Let_def)
qed (simp_all add: push_value_def value_fits_def push_typed_ok)

lemma typed_head:
  assumes "k < 16" and "n \<le> 15"
  shows "drop_bit 4 (push_bit 4 k OR of_nat n) = (k :: u8)" "unat ((push_bit 4 k OR of_nat n) AND (0x0f :: u8)) = n"
proof -
  have k: "unat k * 2 ^ 4 < 2 ^ LENGTH(8)" using assms(1) by (simp add: word_less_nat_alt)
  have u: "unat (of_nat n :: u8) = n" using assms(2) by (simp add: unat_of_nat_small)
  then have n: "unat (of_nat n :: u8) < 2 ^ 4" using assms(2) by simp
  have m: "(0x0f :: u8) = push_bit 4 1 - 1" by simp
  show "drop_bit 4 (push_bit 4 k OR of_nat n) = k" using split_byte(1) [OF n k] by simp
  show "unat ((push_bit 4 k OR of_nat n) AND (0x0f :: u8)) = n" unfolding m using split_byte(2) [OF n k] u by simp
qed

lemma typed_read:
  assumes "push_typed k n = Inr bs" and "k < 16" and "k \<noteq> 1" and "drop pos d = bs @ rest"
  shows "cur_value d pos = typed_value d pos k n (pos + length bs) \<and> n < 2 ^ 105 \<and> pos + length bs \<le> length d"
proof -
  let ?n = "chunk_count n"
  have n: "?n \<le> 15" and bs: "bs = (push_bit 4 k OR of_nat ?n) # push_chunks n ?n"
    using assms(1) by (simp_all add: push_typed_def Let_def split: if_splits)
  note b = cur_byte_at [of pos d, OF assms(4) [unfolded bs append_Cons]]
  have "cur_chunks d ?n (Suc pos) = Inr (n, Suc pos + ?n)"
    using b by (intro cur_chunks_push [OF _ chunk_count_bound]) simp_all
  moreover have "pos + length bs \<le> length d" using assms(4) by (rule drop_append_le) (simp add: bs)
  ultimately show ?thesis
    using b typed_head [OF assms(2) n] assms(3) n chunk_count_fits [of n] by (simp add: cur_value_def Let_def bs)
qed

lemma cur_value_push:
  assumes "push_value v = Inr bs" and "value_ok v" and "drop pos d = bs @ rest"
  shows "cur_value d pos = Inr (v, pos + length bs)"
proof (cases v)
  case (V_Bool t)
  have h: "drop_bit 4 (push_bit 4 1 OR (if t then 1 else 0)) = (1 :: u8)" "(push_bit 4 1 OR (if t then 1 else 0)) AND 0x0f = (if t then 1 else 0 :: u8)"
    by (cases t; simp)+
  have "bs = [push_bit 4 1 OR (if t then 1 else 0)]" using assms(1) V_Bool by (simp add: push_value_def)
  then have "cur_byte d pos = Inr (push_bit 4 1 OR (if t then 1 else 0), Suc pos)" "length bs = 1" using cur_byte_at assms(3) by simp_all
  then show ?thesis using h V_Bool by (simp add: cur_value_def Let_def)
next
  case (V_Signed i)
  have big: "(2 :: nat) ^ 105 \<le> 2 ^ 127" by simp
  show ?thesis
  proof (cases "i < 0")
    case True
    then have "push_typed 3 (nat (- i)) = Inr bs" using assms(1) V_Signed by (simp add: push_value_def)
    from typed_read [OF this _ _ assms(3)] have r: "cur_value d pos = typed_value d pos 3 (nat (- i)) (pos + length bs)" "nat (- i) < 2 ^ 127" using big by auto
    then show ?thesis using V_Signed True by (simp add: typed_value_def)
  next
    case False
    then have "push_typed 2 (nat i) = Inr bs" using assms(1) V_Signed by (simp add: push_value_def)
    from typed_read [OF this _ _ assms(3)] have r: "cur_value d pos = typed_value d pos 2 (nat i) (pos + length bs)" "nat i < 2 ^ 127" using big by auto
    then show ?thesis using V_Signed False by (simp add: typed_value_def)
  qed
next
  case (V_Unsigned u)
  then have "push_typed 4 u = Inr bs" using assms(1) by (simp add: push_value_def)
  from typed_read [OF this _ _ assms(3)] show ?thesis using V_Unsigned by (simp add: typed_value_def)
next
  case (V_Space x)
  then have "push_typed 5 (unat x) = Inr bs" using assms(1) by (simp add: push_value_def)
  from typed_read [OF this _ _ assms(3)] show ?thesis using V_Space by (simp add: typed_value_def)
next
  case (V_Text t)
  let ?n = "chunk_count (length t)"
  let ?hd = "(push_bit 4 7 OR of_nat ?n) # push_chunks (length t) ?n"
  have n: "?n \<le> 15" and bs: "bs = ?hd @ t"
    using assms(1) V_Text by (simp_all add: push_value_def Let_def split: if_splits)
  have typed: "push_typed 7 (length t) = Inr ?hd" using n by (simp add: push_typed_def Let_def)
  have "drop pos d = ?hd @ t @ rest" using assms(3) bs by simp
  from typed_read [OF typed _ _ this] drop_after [OF this]
  have r: "cur_value d pos = typed_value d pos 7 (length t) (pos + length ?hd)" "drop (pos + length ?hd) d = t @ rest" "pos + length ?hd \<le> length d" by simp_all
  have "pos + length ?hd + length t \<le> length d" using arg_cong [OF r(2), of length] r(3) by simp
  then show ?thesis using r assms(2) V_Text bs by (simp add: typed_value_def value_ok_def)
next
  case (V_Other k n)
  then have t: "push_typed k n = Inr bs" "k < 16" "k \<notin> {1, 2, 3, 4, 5, 7}" using assms(1,2) by (simp_all add: push_value_def value_ok_def)
  then have "k \<noteq> 1" by simp
  from typed_read [OF t(1,2) this assms(3)] show ?thesis using V_Other t(3) by (simp add: typed_value_def)
qed

section \<open>Writing is recursive\<close>

fun encode_node :: "nat \<Rightarrow> sla_node \<Rightarrow> encode_error + u8 list"
  and encode_nodes :: "nat \<Rightarrow> sla_node list \<Rightarrow> encode_error + u8 list" where
  "encode_node depth (Node i as cs s e) =
     (if depth + 1 > max_depth then Inl E_too_deep'
      else (case push_attrs as [] of Inl e \<Rightarrow> Inl e | Inr a \<Rightarrow>
        case encode_nodes (depth + 1) cs of Inl e \<Rightarrow> Inl e | Inr b \<Rightarrow>
        Inr (push_tag 0x40 0x60 i @ a @ b @ push_tag 0x80 0xA0 i)))"
| "encode_nodes depth [] = Inr []"
| "encode_nodes depth (n # ns) = (case encode_node depth n of Inl e \<Rightarrow> Inl e | Inr a \<Rightarrow>
     case encode_nodes depth ns of Inl e \<Rightarrow> Inl e | Inr b \<Rightarrow> Inr (a @ b))"

lemma push_attrs_out: "push_attrs as out = (case push_attrs as [] of Inl e \<Rightarrow> Inl e | Inr bs \<Rightarrow> Inr (out @ bs))"
proof (induction "as" arbitrary: out)
  case (Cons x "as")
  obtain i v where x: "x = (i, v)" by (cases x)
  show ?case
  proof (cases "push_value v")
    case (Inr bs)
    show ?thesis
      using Cons [of "out @ push_tag 0xC0 0xE0 i @ bs"] Cons [of "push_tag 0xC0 0xE0 i @ bs"] Inr
      by (simp add: x split: sum.split)
  qed (simp add: x)
qed simp

lemma encode_loop_node:
  "encode_loop (Open n # steps) depth out = (case encode_node depth n of Inl e \<Rightarrow> Inl e | Inr bs \<Rightarrow> encode_loop steps depth (out @ bs))"
  "encode_loop (map Open ns @ steps) depth out = (case encode_nodes depth ns of Inl e \<Rightarrow> Inl e | Inr bs \<Rightarrow> encode_loop steps depth (out @ bs))"
proof (induction depth n and depth ns arbitrary: steps out and steps out rule: encode_node_encode_nodes.induct)
  case (1 depth i "as" cs s e)
  show ?case
  proof (cases "depth + 1 > max_depth")
    case False
    show ?thesis
    proof (cases "push_attrs as []")
      case (Inr a)
      then have a: "push_attrs as (out @ push_tag 0x40 0x60 i) = Inr ((out @ push_tag 0x40 0x60 i) @ a)"
        using push_attrs_out [of "as" "out @ push_tag 0x40 0x60 i"] by simp
      show ?thesis using False a Inr 1 [OF False Inr] by (simp split: sum.split)
    next
      case (Inl e)
      then show ?thesis using False push_attrs_out [of "as" "out @ push_tag 0x40 0x60 i"] by simp
    qed
  qed simp
qed (simp_all split: sum.split)

lemma encode_tree_node: "encode_tree t = encode_node 0 t"
  unfolding encode_tree_def using encode_loop_node(1) [of t "[]" 0 "[]"] by (simp split: sum.split)

section \<open>Reading what was written\<close>

fun strip :: "sla_node \<Rightarrow> sla_node" where
  "strip (Node i as cs s e) = Node i as (map strip cs) 0 0"

fun node_ok :: "sla_node \<Rightarrow> bool" where
  "node_ok (Node i as cs s e) \<longleftrightarrow> list_all (\<lambda>(_, v). value_ok v) as \<and> list_all node_ok cs"

text \<open>What the loop does with an element that closes.\<close>

fun tree_close :: "u8 list \<Rightarrow> sla_node list \<Rightarrow> sla_node \<Rightarrow> nat \<Rightarrow> decode_error + sla_node" where
  "tree_close d [] n p = tree_loop d p [] (Some n)"
| "tree_close d (Node k as cs s e # st) n p = tree_loop d p (Node k as (cs @ [n]) s e # st) None"

lemma tree_loop_open:
  assumes "drop pos d = push_tag 0x40 0x60 i @ rest" and "length st < max_depth"
  shows "tree_loop d pos st None = tree_loop d (pos + length (push_tag 0x40 0x60 i)) (Node i [] [] pos pos # st) None"
proof -
  have "(0x40, 0x60, 0b010, 0b011) \<in> tag_kinds" by (simp add: tag_kinds_def)
  from cur_tag_push [OF this assms(1)] obtain kind where
    k: "kind = 0b010 \<or> kind = 0b011" "cur_tag d pos = Inr ((kind, i), pos + length (push_tag 0x40 0x60 i))" by auto
  have "pos < length d" using cur_tag_pos [OF k(2)] by linarith
  then show ?thesis using k assms(2) by (subst tree_loop.simps) simp
qed

lemma tree_loop_close:
  assumes "drop pos d = push_tag 0x80 0xA0 i @ rest"
  shows "tree_loop d pos (Node i as cs s e # st) None = tree_close d st (Node i as cs s (pos + length (push_tag 0x80 0xA0 i))) (pos + length (push_tag 0x80 0xA0 i))"
proof -
  have "(0x80, 0xA0, 0b100, 0b101) \<in> tag_kinds" by (simp add: tag_kinds_def)
  from cur_tag_push [OF this assms] obtain kind where
    k: "kind = 0b100 \<or> kind = 0b101" "cur_tag d pos = Inr ((kind, i), pos + length (push_tag 0x80 0xA0 i))" by auto
  have "pos < length d" using cur_tag_pos [OF k(2)] by linarith
  moreover have "\<not> (kind = 0b010 \<or> kind = 0b011)" using k(1) by auto
  ultimately show ?thesis using k
    by (subst tree_loop.simps) (cases st; auto split: sla_node.split)
qed

lemma tree_loop_attr:
  assumes "drop pos d = push_tag 0xC0 0xE0 i @ bs @ rest" and "push_value v = Inr bs" and "value_ok v"
  shows "tree_loop d pos (Node j as cs s e # st) None
    = tree_loop d (pos + length (push_tag 0xC0 0xE0 i @ bs)) (Node j (as @ [(i, v)]) cs s e # st) None"
proof -
  let ?p = "pos + length (push_tag 0xC0 0xE0 i)"
  have "(0xC0, 0xE0, 0b110, 0b111) \<in> tag_kinds" by (simp add: tag_kinds_def)
  from cur_tag_push [OF this assms(1)] obtain kind where
    k: "kind = 0b110 \<or> kind = 0b111" "cur_tag d pos = Inr ((kind, i), ?p)" by auto
  have "pos < length d" using cur_tag_pos [OF k(2)] by linarith
  moreover have "\<not> (kind = 0b010 \<or> kind = 0b011)" "\<not> (kind = 0b100 \<or> kind = 0b101)" using k(1) by auto
  moreover have "cur_value d ?p = Inr (v, ?p + length bs)" by (rule cur_value_push [OF assms(2,3) drop_after [OF assms(1)]])
  ultimately show ?thesis using k(2) by (subst tree_loop.simps) (simp add: add.assoc)
qed

lemma tree_loop_attrs:
  "push_attrs as [] = Inr bs \<Longrightarrow> list_all (\<lambda>(_, v). value_ok v) as \<Longrightarrow> drop pos d = bs @ rest \<Longrightarrow>
    tree_loop d pos (Node j as' cs s e # st) None = tree_loop d (pos + length bs) (Node j (as' @ as) cs s e # st) None"
proof (induction "as" arbitrary: as' pos bs)
  case (Cons x "as")
  obtain i v where x: "x = (i, v)" by (cases x)
  obtain vb where vb: "push_value v = Inr vb" using Cons.prems(1) by (auto simp: x split: sum.splits)
  let ?h = "push_tag 0xC0 0xE0 i @ vb"
  obtain cs' where tl: "push_attrs as [] = Inr cs'" "bs = ?h @ cs'"
    using Cons.prems(1) push_attrs_out [of "as" ?h] by (auto simp: x vb split: sum.splits)
  have d: "drop pos d = push_tag 0xC0 0xE0 i @ vb @ cs' @ rest" using Cons.prems(3) tl(2) by simp
  have "drop (pos + length ?h) d = cs' @ rest" using drop_after [of pos d ?h "cs' @ rest"] d by simp
  from Cons.IH [OF tl(1) _ this, of "as' @ [(i, v)]"] Cons.prems(2)
  show ?case using tree_loop_attr [OF d vb] tl(2) by (simp add: x add.assoc)
qed simp

lemma tree_loop_node:
  "encode_node depth n = Inr bs \<Longrightarrow> node_ok n \<Longrightarrow> drop pos d = bs @ rest \<Longrightarrow> length st = depth \<Longrightarrow>
    \<exists>n'. strip n' = strip n \<and> tree_loop d pos st None = tree_close d st n' (pos + length bs)"
  "encode_nodes depth ns = Inr bs \<Longrightarrow> list_all node_ok ns \<Longrightarrow> drop pos d = bs @ rest \<Longrightarrow> length st + 1 = depth \<Longrightarrow>
    \<exists>ns'. map strip ns' = map strip ns \<and>
      tree_loop d pos (Node k as cs s e # st) None = tree_loop d (pos + length bs) (Node k as (cs @ ns') s e # st) None"
proof (induction depth n and depth ns arbitrary: bs pos rest st and bs pos rest k "as" cs s e st rule: encode_node_encode_nodes.induct)
  case (1 depth i "as" cs s e)
  obtain a b where ab: "\<not> depth + 1 > max_depth" "push_attrs as [] = Inr a" "encode_nodes (depth + 1) cs = Inr b"
      "bs = push_tag 0x40 0x60 i @ a @ b @ push_tag 0x80 0xA0 i"
    using "1.prems"(1) by (auto split: if_splits sum.splits)
  let ?o = "push_tag 0x40 0x60 i" and ?c = "push_tag 0x80 0xA0 i"
  have d0: "drop pos d = ?o @ a @ b @ ?c @ rest" using "1.prems"(3) ab(4) by simp
  note d1 = drop_after [OF d0] note d2 = drop_after [OF d1] note d3 = drop_after [OF d2]
  have ok: "list_all (\<lambda>(_, v). value_ok v) as" "list_all node_ok cs" using "1.prems"(2) by simp_all
  have s1: "tree_loop d pos st None = tree_loop d (pos + length ?o) (Node i [] [] pos pos # st) None"
    using ab(1) "1.prems"(4) by (intro tree_loop_open [OF d0]) simp
  have s2: "tree_loop d (pos + length ?o) (Node i [] [] pos pos # st) None = tree_loop d (pos + length ?o + length a) (Node i as [] pos pos # st) None"
    using tree_loop_attrs [OF ab(2) ok(1) d1] by simp
  obtain ns' where s3: "map strip ns' = map strip cs"
      "tree_loop d (pos + length ?o + length a) (Node i as [] pos pos # st) None = tree_loop d (pos + length ?o + length a + length b) (Node i as ns' pos pos # st) None"
    using 1(1) [OF ab(1,2,3) ok(2) d2, of st i "as" "[]" pos pos] "1.prems"(4) by auto
  have "tree_loop d pos st None = tree_close d st (Node i as ns' pos (pos + length ?o + length a + length b + length ?c)) (pos + length ?o + length a + length b + length ?c)"
    by (simp only: s1 s2 s3 tree_loop_close [OF d3])
  then show ?case using s3(1) ab(4)
    by (intro exI [of _ "Node i as ns' pos (pos + length ?o + length a + length b + length ?c)"]) (simp add: add.assoc)
next
  case (3 depth n ns)
  obtain a b where ab: "encode_node depth n = Inr a" "encode_nodes depth ns = Inr b" "bs = a @ b"
    using "3.prems"(1) by (auto split: sum.splits)
  have d0: "drop pos d = a @ b @ rest" using "3.prems"(3) ab(3) by simp
  obtain n' where n': "strip n' = strip n" "tree_loop d pos (Node k as cs s e # st) None = tree_close d (Node k as cs s e # st) n' (pos + length a)"
    using 3(1) [OF ab(1) _ d0, of "Node k as cs s e # st"] "3.prems"(2,4) by auto
  obtain ns' where "map strip ns' = map strip ns"
    "tree_loop d (pos + length a) (Node k as (cs @ [n']) s e # st) None = tree_loop d (pos + length a + length b) (Node k as ((cs @ [n']) @ ns') s e # st) None"
    using 3(2) [OF ab(1,2) _ drop_after [OF d0] "3.prems"(4), of k "as" "cs @ [n']" s e] "3.prems"(2) by auto
  then show ?case using n' ab(3) by (intro exI [of _ "n' # ns'"]) (simp add: add.assoc)
qed simp

lemma tree_roundtrip:
  assumes "encode_tree t = Inr bs" and "node_ok t"
  shows "\<exists>t'. decode_tree bs = Inr t' \<and> strip t' = strip t"
proof -
  obtain t' where t': "strip t' = strip t" "tree_loop bs 0 [] None = tree_close bs [] t' (length bs)"
    using tree_loop_node(1) [of 0 t bs 0 bs "[]" "[]"] assms by (auto simp: encode_tree_node)
  have "bs \<noteq> []" using assms(1) by (cases t) (auto simp: encode_tree_node push_tag_def Let_def split: if_splits sum.splits)
  moreover have "tree_loop bs (length bs) [] (Some t') = Inr t'" by (subst tree_loop.simps) simp
  ultimately show ?thesis using t' by (simp add: decode_tree_def)
qed

end
