(* ===== verification/Sla_Read.thy ===== *)
theory Sla_Read
  imports Sla_Tree_Ok
begin

text \<open>
  What \<open>decode\<close> returns: the byte ranges of its elements nest and the children of an element do not overlap, the
  root covers the payload, and every element can be written again.
\<close>

section \<open>Values that were read\<close>

lemma chunk_loop_bound: "chunk_loop d n v pos = (w, p) \<Longrightarrow> w < (v + 1) * 2 ^ (n * 7)"
proof (induction d n v pos rule: chunk_loop.induct)
  case (2 d n v pos)
  have b: "unat (d ! pos AND 0x7f) < 2 ^ 7"
  proof -
    have m: "(0x7f :: u8) = push_bit 7 1 - 1" by simp
    show ?thesis unfolding m by (subst unat_and_mask) simp_all
  qed
  have "w < (v * 2 ^ 7 + unat (d ! pos AND 0x7f) + 1) * 2 ^ (n * 7)" using 2 by simp
  also have "\<dots> \<le> ((v + 1) * 2 ^ 7) * 2 ^ (n * 7)" using b by (intro mult_right_mono) simp_all
  finally show ?case by (simp add: power_add algebra_simps)
qed simp

lemma cur_chunks_bound: "cur_chunks d n pos = Inr (v, p) \<Longrightarrow> v < 2 ^ (n * 7)"
  using chunk_loop_bound [of d n 0 pos v p] by (simp add: cur_chunks_def split: if_splits)

definition value_read :: "sla_value \<Rightarrow> bool" where "value_read v \<longleftrightarrow> value_ok v \<and> value_fits v"

lemma typed_value_read:
  assumes "typed_value d pos kind raw p = Inr (v, p')" and "raw < 2 ^ 105" and "kind < 16" and "kind \<noteq> 1" and "p \<le> length d"
  shows "value_read v"
proof -
  have big: "(2 :: nat) ^ 105 \<le> 2 ^ 127" by simp
  have raw: "raw < 2 ^ 127" using assms(2) big by (rule less_le_trans)
  have si: "int raw < 2 ^ 105" using assms(2) by simp
  consider "kind = 2" | "kind = 3" | "kind = 4" | "kind = 5" | "kind = 7" | "kind \<notin> {1, 2, 3, 4, 5, 7}" using assms(4) by auto
  then show ?thesis
  proof cases
    case 5
    let ?s = "take raw (drop p d)"
    have k: "\<not> (raw \<ge> 2 ^ 64 \<or> p + raw > length d)" "utf8_ok ?s" "v = V_Text ?s"
      using assms(1) 5 by (auto simp: typed_value_def split: if_splits)
    then have "raw \<le> length d - p" by linarith
    then have "length ?s = raw" by simp
    then show ?thesis using k assms(2) by (simp add: value_read_def value_ok_def value_fits_def)
  next
    case 6
    then have "v = V_Other kind raw" using assms(1) by (simp add: typed_value_def)
    then show ?thesis using assms(2,3) 6 by (simp add: value_read_def value_ok_def value_fits_def)
  qed (use assms raw si in \<open>auto simp: typed_value_def value_read_def value_ok_def value_fits_def\<close>)
qed

lemma cur_value_read:
  assumes "cur_value d pos = Inr (v, p)"
  shows "value_read v"
proof -
  obtain head p1 where b: "cur_byte d pos = Inr (head, p1)" using assms by (auto simp: cur_value_def split: sum.splits)
  show ?thesis
  proof (cases "drop_bit 4 head = 1")
    case True
    then show ?thesis using assms by (auto simp: cur_value_def b Let_def value_read_def value_ok_def value_fits_def)
  next
    case False
    let ?n = "unat (head AND 0x0f)"
    obtain raw p2 where c: "cur_chunks d ?n p1 = Inr (raw, p2)" "typed_value d pos (drop_bit 4 head) raw p2 = Inr (v, p)"
      using assms False by (simp add: cur_value_def b Let_def split: sum.splits prod.splits)
    have m: "(0x0f :: u8) = push_bit 4 1 - 1" by simp
    have "?n < 2 ^ 4" unfolding m by (subst unat_and_mask) simp_all
    then have "?n * 7 \<le> 105" by simp
    then have "(2 :: nat) ^ (?n * 7) \<le> 2 ^ 105" by (rule power_increasing) simp
    then have raw: "raw < 2 ^ 105" using cur_chunks_bound [OF c(1)] by (rule less_le_trans [rotated])
    have "unat head div 2 ^ 4 < 16" using unat_lt_exp [of head] by simp
    then have kind: "drop_bit 4 head < 16" by (simp add: word_less_nat_alt unat_drop_bit)
    show ?thesis by (rule typed_value_read [OF c(2) raw kind False]) (use cur_chunks_pos [OF c(1)] in simp)
  qed
qed

section \<open>Steps of the loop\<close>

lemma tree_loop_end: "\<not> pos < length d \<Longrightarrow> tree_loop d pos st rt = Inr t \<Longrightarrow> rt = Some t"
  by (subst (asm) tree_loop.simps) (auto split: option.splits list.splits)

lemma tree_loop_rooted: "pos < length d \<Longrightarrow> tree_loop d pos st rt = Inr t \<Longrightarrow> rt = None \<and> (\<exists>kind i p. cur_tag d pos = Inr ((kind, i), p))"
  by (subst (asm) tree_loop.simps) (auto split: if_splits sum.splits)

lemma tree_loop_opening:
  "pos < length d \<Longrightarrow> cur_tag d pos = Inr ((kind, i), p) \<Longrightarrow> kind = 0b010 \<or> kind = 0b011 \<Longrightarrow>
    tree_loop d pos st None = (if length st \<ge> max_depth then Inl (D_too_deep pos) else tree_loop d p (Node i [] [] pos pos # st) None)"
  by (subst tree_loop.simps) simp

lemma tree_loop_closing:
  assumes "pos < length d" and "cur_tag d pos = Inr ((kind, i), p)" and "\<not> (kind = 0b010 \<or> kind = 0b011)" and "kind = 0b100 \<or> kind = 0b101"
  shows "tree_loop d pos st None = (case st of
     [] \<Rightarrow> Inl (D_unbalanced pos)
   | Node j as cs s e # st \<Rightarrow> if j \<noteq> i then Inl (D_mismatched pos j i) else (case st of
       Node k pas pcs ps pe # st \<Rightarrow> tree_loop d p (Node k pas (pcs @ [Node j as cs s p]) ps pe # st) None
     | [] \<Rightarrow> tree_loop d p [] (Some (Node j as cs s p))))"
  by (subst tree_loop.simps) (simp only: assms if_True if_False simp_thms sum.case prod.case)

lemma tree_loop_attribute:
  assumes "pos < length d" and "cur_tag d pos = Inr ((kind, i), p)" and "\<not> (kind = 0b010 \<or> kind = 0b011)" and "\<not> (kind = 0b100 \<or> kind = 0b101)"
  shows "tree_loop d pos st None = (case cur_value d p of Inl e \<Rightarrow> Inl e | Inr (v, p) \<Rightarrow> (case st of
       [] \<Rightarrow> Inl (D_stray_attribute pos)
     | Node j as cs s e # st \<Rightarrow> tree_loop d p (Node j (as @ [(i, v)]) cs s e # st) None))"
  by (subst tree_loop.simps) (simp only: assms if_True if_False simp_thms sum.case prod.case)

section \<open>Elements that were read\<close>

text \<open>An element at depth \<open>k\<close>, read from a payload of \<open>len\<close> bytes.\<close>

fun node_read :: "nat \<Rightarrow> nat \<Rightarrow> sla_node \<Rightarrow> bool" where
  "node_read len k (Node i as cs s e) \<longleftrightarrow> s \<le> e \<and> e \<le> len \<and> sum_list (map node_len cs) \<le> e - s \<and> k < max_depth
     \<and> list_all (\<lambda>(_, v). value_read v) as \<and> list_all (node_read len (k + 1)) cs"

text \<open>The open elements when the cursor is at \<open>pos\<close>: what each has so far, from where it starts to where the
  next one starts.\<close>

fun stack_read :: "nat \<Rightarrow> nat \<Rightarrow> sla_node list \<Rightarrow> bool" where
  "stack_read len pos [] \<longleftrightarrow> True"
| "stack_read len pos (Node i as cs s e # st) \<longleftrightarrow> s + sum_list (map node_len cs) \<le> pos \<and> length st < max_depth
     \<and> list_all (\<lambda>(_, v). value_read v) as \<and> list_all (node_read len (length st + 1)) cs \<and> stack_read len s st"

lemma stack_read_mono: "stack_read len pos st \<Longrightarrow> pos \<le> p \<Longrightarrow> stack_read len p st"
  by (cases "(len, pos, st)" rule: stack_read.cases) simp_all

lemma node_read_close:
  assumes "stack_read len pos (Node i as cs s e # st)" and "pos \<le> p" and "p \<le> len"
  shows "node_read len (length st) (Node i as cs s p)" "stack_read len s st"
  using assms by auto

lemma stack_read_parent:
  assumes "stack_read len s (Node k pas pcs ps pe # st)" and "node_read len (length st + 1) n" and "nd_start n = s" and "nd_end n = p" and "s \<le> p"
  shows "stack_read len p (Node k pas (pcs @ [n]) ps pe # st)"
proof -
  have "ps + sum_list (map node_len pcs) \<le> s" using assms(1) by simp
  then have "ps + (sum_list (map node_len pcs) + node_len n) \<le> p" using assms(3-5) unfolding node_len_def by linarith
  then show ?thesis using assms(1,2) by simp
qed

text \<open>What the loop keeps.\<close>

definition loop_read :: "nat \<Rightarrow> nat \<Rightarrow> sla_node list \<Rightarrow> sla_node option \<Rightarrow> bool" where
  "loop_read len pos st rt \<longleftrightarrow> stack_read len pos st \<and> (st \<noteq> [] \<longrightarrow> nd_start (last st) = 0) \<and> (case rt of
     None \<Rightarrow> st \<noteq> [] \<or> pos = 0
   | Some r \<Rightarrow> st = [] \<and> node_read len 0 r \<and> nd_start r = 0 \<and> nd_end r = pos)"

lemma loop_read_open:
  assumes "loop_read len pos st None" and "length st < max_depth"
  shows "stack_read len pos (Node i [] [] pos pos # st)" "nd_start (last (Node i [] [] pos pos # st)) = 0"
  using assms by (auto simp: loop_read_def)

lemma loop_read_close:
  assumes "loop_read len pos (Node j as cs s e # st) None" and "pos \<le> p" and "p \<le> len"
  shows "case st of [] \<Rightarrow> loop_read len p [] (Some (Node j as cs s p))
    | Node k pas pcs ps pe # st' \<Rightarrow> loop_read len p (Node k pas (pcs @ [Node j as cs s p]) ps pe # st') None"
proof -
  have st: "stack_read len pos (Node j as cs s e # st)" using assms(1) by (simp add: loop_read_def)
  note c = node_read_close [OF st assms(2,3)]
  show ?thesis
  proof (cases st)
    case Nil
    then show ?thesis using c assms(1) by (simp add: loop_read_def)
  next
    case (Cons n st')
    obtain k pas pcs ps pe where n: "n = Node k pas pcs ps pe" by (cases n)
    have "stack_read len p (Node k pas (pcs @ [Node j as cs s p]) ps pe # st')"
      using c st assms(2) by (intro stack_read_parent [of len s]) (simp_all add: Cons n)
    moreover have "nd_start (last (Node k pas (pcs @ [Node j as cs s p]) ps pe # st')) = 0"
      using assms(1) by (cases st') (simp_all add: loop_read_def Cons n)
    ultimately show ?thesis by (simp add: loop_read_def Cons n)
  qed
qed

lemma loop_read_attr:
  assumes "loop_read len pos (Node j as cs s e # st) None" and "pos \<le> p" and "value_read v"
  shows "loop_read len p (Node j (as @ [(i, v)]) cs s e # st) None"
  using assms by (cases st) (auto simp: loop_read_def)

lemma tree_loop_read:
  "tree_loop d pos st rt = Inr t \<Longrightarrow> loop_read (length d) pos st rt \<Longrightarrow> pos \<le> length d \<Longrightarrow>
    node_read (length d) 0 t \<and> nd_start t = 0 \<and> nd_end t = length d"
proof (induction d pos st rt rule: tree_loop.induct)
  case (1 d pos st rt)
  show ?case
  proof (cases "pos < length d")
    case False
    then show ?thesis using tree_loop_end [OF False "1.prems"(1)] "1.prems"(2,3) by (simp add: loop_read_def)
  next
    case pos: True
    obtain kind i p where rt: "rt = None" and tag: "cur_tag d pos = Inr ((kind, i), p)"
      using tree_loop_rooted [OF pos "1.prems"(1)] by blast
    then have nrt: "\<not> rt \<noteq> None" by simp
    note p = cur_tag_pos [OF tag]
    note run = "1.prems"(1) [unfolded rt] and inv = "1.prems"(2) [unfolded rt]
    consider "kind = 0b010 \<or> kind = 0b011" | "\<not> (kind = 0b010 \<or> kind = 0b011)" "kind = 0b100 \<or> kind = 0b101"
      | "\<not> (kind = 0b010 \<or> kind = 0b011)" "\<not> (kind = 0b100 \<or> kind = 0b101)" by blast
    then show ?thesis
    proof cases
      case 1
      note step = run [unfolded tree_loop_opening [OF pos tag 1]]
      then have r: "\<not> max_depth \<le> length st" "tree_loop d p (Node i [] [] pos pos # st) None = Inr t" by (simp_all split: if_splits)
      have "loop_read (length d) p (Node i [] [] pos pos # st) None"
        using loop_read_open [OF inv, of i] r(1) stack_read_mono [of "length d" pos _ p] p by (simp add: loop_read_def)
      then show ?thesis using "1.IH"(1) [OF pos nrt tag refl refl 1 r(1,2)] p by simp
    next
      case 2
      note step = run [unfolded tree_loop_closing [OF pos tag 2]]
      obtain j as cs s e st' where st: "st = Node j as cs s e # st'"
        using step by (cases st) (simp, metis sla_node.exhaust)
      have ij: "\<not> j \<noteq> i" using step by (simp add: st split: if_splits)
      have c: "case st' of [] \<Rightarrow> loop_read (length d) p [] (Some (Node j as cs s p))
        | Node k pas pcs ps pe # st'' \<Rightarrow> loop_read (length d) p (Node k pas (pcs @ [Node j as cs s p]) ps pe # st'') None"
        using loop_read_close [OF inv [unfolded st]] p by simp
      show ?thesis
      proof (cases st')
        case Nil
        show ?thesis using "1.IH"(2) [OF pos nrt tag refl refl 2 st refl ij Nil] step c ij Nil p by (simp add: st)
      next
        case (Cons n st'')
        obtain k pas pcs ps pe where n: "n = Node k pas pcs ps pe" by (cases n)
        show ?thesis using "1.IH"(3) [OF pos nrt tag refl refl 2 st refl ij Cons n] step c ij Cons n p by (simp add: st)
      qed
    next
      case 3
      note step = run [unfolded tree_loop_attribute [OF pos tag 3]]
      obtain v p' where v: "cur_value d p = Inr (v, p')" using step by (auto split: sum.splits)
      obtain j as cs s e st' where st: "st = Node j as cs s e # st'"
        using step by (cases st) (simp add: v, metis sla_node.exhaust)
      have r: "tree_loop d p' (Node j (as @ [(i, v)]) cs s e # st') None = Inr t" using step by (simp add: v st)
      note p' = cur_value_pos [OF v]
      have "loop_read (length d) p' (Node j (as @ [(i, v)]) cs s e # st') None"
        using p p' by (intro loop_read_attr [OF inv [unfolded st] _ cur_value_read [OF v]]) simp
      then show ?thesis using "1.IH"(4) [OF pos nrt tag refl refl 3 v refl st refl r] p' by simp
    qed
  qed
qed

lemma decode_tree_read:
  assumes "decode_tree d = Inr t"
  shows "node_read (length d) 0 t \<and> nd_start t = 0 \<and> nd_end t = length d"
  using assms tree_loop_read [of d 0 "[]" None t] by (simp add: decode_tree_def loop_read_def split: if_splits)

section \<open>They can be written\<close>

lemma push_attrs_read: "list_all (\<lambda>(_, v). value_read v) as \<Longrightarrow> \<exists>bs. push_attrs as [] = Inr bs"
proof (induction "as")
  case (Cons x "as")
  obtain i v where x: "x = (i, v)" by (cases x)
  obtain vb where "push_value v = Inr vb" using Cons.prems push_value_ok [of v] by (auto simp: x value_read_def)
  moreover obtain bs where "push_attrs as [] = Inr bs" using Cons by auto
  ultimately show ?case using push_attrs_out [of "as" "push_tag 0xC0 0xE0 i @ vb"] by (simp add: x)
qed simp

lemma encode_node_read:
  "node_read len depth n \<Longrightarrow> \<exists>bs. encode_node depth n = Inr bs"
  "list_all (node_read len depth) ns \<Longrightarrow> \<exists>bs. encode_nodes depth ns = Inr bs"
proof (induction depth n and depth ns rule: encode_node_encode_nodes.induct)
  case (1 depth i "as" cs s e)
  obtain a where "push_attrs as [] = Inr a" using "1.prems" push_attrs_read [of "as"] by auto
  then show ?case using 1 by auto
qed auto

lemma node_read_ok: "node_read len k n \<Longrightarrow> node_ok n"
proof (induction len k n rule: node_read.induct)
  case (1 len k i "as" cs s e)
  then show ?case by (auto simp: list_all_iff value_read_def)
qed

lemma decode_encode:
  assumes "decode_tree d = Inr t"
  shows "\<exists>bs t'. encode_tree t = Inr bs \<and> decode_tree bs = Inr t' \<and> strip t' = strip t"
proof -
  have t: "node_read (length d) 0 t" using decode_tree_read [OF assms] by simp
  obtain bs where "encode_tree t = Inr bs" using encode_node_read(1) [OF t] by (auto simp: encode_tree_node)
  then show ?thesis using tree_roundtrip node_read_ok [OF t] by blast
qed

section \<open>Their bytes are counted once\<close>

lemma visit_sum: "sum_list (map f (concat xss)) = sum_list (map (\<lambda>xs. sum_list (map f xs)) xss)" for f :: "'a \<Rightarrow> nat"
  by (induction xss) simp_all

lemma own_len_visit: "node_read len k n \<Longrightarrow> sum_list (map node_own_len (node_visit n)) = node_len n"
proof (induction len k n rule: node_read.induct)
  case (1 len k i "as" cs s e)
  have "map (\<lambda>c. sum_list (map node_own_len (node_visit c))) cs = map node_len cs"
    using 1 by (auto simp: list_all_iff)
  then have "sum_list (map node_own_len (concat (map node_visit cs))) = sum_list (map node_len cs)"
    by (simp only: visit_sum map_map comp_def)
  moreover have "node_len (Node i as cs s e) = e - s" "node_own_len (Node i as cs s e) = e - s - sum_list (map node_len cs)"
    by (simp_all add: node_own_len_def node_len_def [of "Node _ _ _ _ _"])
  ultimately show ?case using "1.prems" by (simp, linarith)
qed

lemma node_read_visit: "node_read len k n \<Longrightarrow> m \<in> set (node_visit n) \<Longrightarrow> nd_start m \<le> nd_end m \<and> nd_end m \<le> len
    \<and> sum_list (map node_len (nd_children m)) \<le> node_len m"
proof (induction len k n rule: node_read.induct)
  case (1 len k i "as" cs s e)
  consider "m = Node i as cs s e" | c where "c \<in> set cs" "m \<in> set (node_visit c)" using "1.prems"(2) by auto
  then show ?case
  proof cases
    case 1
    then show ?thesis using "1.prems"(1) by (simp add: node_len_def [of "Node _ _ _ _ _"])
  next
    case 2
    then show ?thesis using 1 by (auto simp: list_all_iff)
  qed
qed

end
