(* ===== verification/Sla_Emit_Ok.thy ===== *)
theory Sla_Emit_Ok
  imports Sla_Emit "HOL-Library.Multiset"
begin

text \<open>
  Reading the tree of a program gives the program: the model \<open>build\<close> of what \<open>emit::tree\<close> writes.
  \<open>program_ok\<close> says which programs a file can carry.
\<close>

section \<open>Searching a sorted list\<close>

locale key_search =
  fixes search :: "('a \<Rightarrow> u32) \<Rightarrow> 'a list \<Rightarrow> u32 \<Rightarrow> nat option"
  assumes search_found: "search key xs x = Some k \<Longrightarrow> k < length xs \<and> key (xs ! k) = x"
    and search_complete: "sorted (map key xs) \<Longrightarrow> x \<in> key ` set xs \<Longrightarrow> search key xs x \<noteq> None"
begin

lemma search_iff: "sorted (map key xs) \<Longrightarrow> search key xs x \<noteq> None \<longleftrightarrow> x \<in> key ` set xs"
  using search_found [of key xs x] search_complete [of key xs x] by (metis image_eqI not_None_eq nth_mem)

lemma search_distinct:
  assumes "sorted (map key xs)" and "distinct (map key xs)" and "y \<in> set xs"
  shows "\<exists>k. search key xs (key y) = Some k \<and> xs ! k = y"
proof -
  obtain k where k: "search key xs (key y) = Some k" using search_complete [OF assms(1)] assms(3) by blast
  obtain i where i: "i < length xs" "xs ! i = y" using assms(3) by (auto simp: in_set_conv_nth)
  have "map key xs ! k = map key xs ! i" "k < length (map key xs)" "i < length (map key xs)" using search_found [OF k] i by simp_all
  then have "k = i" using assms(2) by (simp only: nth_eq_iff_index_eq)
  then show ?thesis using k i(2) by blast
qed

end

lemma search_loop_keeps:
  "sorted (map key xs) \<Longrightarrow> 0 < n \<Longrightarrow> base + n \<le> length xs \<Longrightarrow> \<exists>j. base \<le> j \<and> j < base + n \<and> key (xs ! j) = x \<Longrightarrow>
    search_loop key x xs n base < length xs \<and> key (xs ! search_loop key x xs n base) = x"
proof (induction key x xs n base rule: search_loop.induct)
  case (1 key x xs n base)
  obtain j where j: "base \<le> j" "j < base + n" "key (xs ! j) = x" using "1.prems"(4) by blast
  have sorted: "key (xs ! a) \<le> key (xs ! b)" if "a \<le> b" "b < length xs" for a b
    using sorted_nth_mono [OF "1.prems"(1), of a b] that by simp
  show ?case
  proof (cases "1 < n")
    case True
    let ?m = "base + n div 2"
    let ?b = "if x < key (xs ! ?m) then base else ?m"
    have m: "?m < length xs" "0 < n - n div 2" "?b + (n - n div 2) \<le> length xs" using True "1.prems"(3) by auto
    have "\<exists>j. ?b \<le> j \<and> j < ?b + (n - n div 2) \<and> key (xs ! j) = x"
    proof (cases "x < key (xs ! ?m)")
      case less: True
      have "j < ?m"
      proof (rule ccontr)
        assume "\<not> j < ?m"
        then have "key (xs ! ?m) \<le> key (xs ! j)" using sorted [of ?m j] j "1.prems"(3) by simp
        then show False using less j(3) by simp
      qed
      then have "j < base + (n - n div 2)" by linarith
      then show ?thesis using j less by auto
    next
      case False
      show ?thesis
      proof (cases "?m \<le> j")
        case True
        then show ?thesis using j False by auto
      next
        case lt: False
        then have "key (xs ! j) \<le> key (xs ! ?m)" using sorted [of j ?m] m(1) by simp
        then have "key (xs ! ?m) = x" using j(3) False by simp
        then show ?thesis using False \<open>1 < n\<close> by auto
      qed
    qed
    from "1.IH" [OF True "1.prems"(1) m(2,3) this]
    show ?thesis using True by (subst (1 2) search_loop.simps) simp
  next
    case False
    then have "n = 1" "j = base" using "1.prems"(2) j by linarith+
    then show ?thesis using j(3) "1.prems"(3) by (simp add: search_loop.simps)
  qed
qed

lemma search_loop_less: "0 < n \<Longrightarrow> search_loop key x xs n base < base + n"
proof (induction key x xs n base rule: search_loop.induct)
  case (1 key x xs n base)
  show ?case
  proof (cases "1 < n")
    case True
    then have "search_loop key x xs (n - n div 2) (if x < key (xs ! (base + n div 2)) then base else base + n div 2)
        < (if x < key (xs ! (base + n div 2)) then base else base + n div 2) + (n - n div 2)"
      using 1 by simp
    also have "\<dots> \<le> base + n" by simp
    finally show ?thesis using True by (subst search_loop.simps) simp
  qed (use 1 in \<open>simp add: search_loop.simps\<close>)
qed

lemma search_by_key_laws:
  "search_by_key key xs x = Some k \<Longrightarrow> k < length xs \<and> key (xs ! k) = x"
  "sorted (map key xs) \<Longrightarrow> x \<in> key ` set xs \<Longrightarrow> search_by_key key xs x \<noteq> None"
proof -
  show "search_by_key key xs x = Some k \<Longrightarrow> k < length xs \<and> key (xs ! k) = x"
    using search_loop_less [of "length xs" key x xs 0] by (auto simp: search_by_key_def Let_def split: if_splits)
  assume s: "sorted (map key xs)" and x: "x \<in> key ` set xs"
  then have "xs \<noteq> []" "\<exists>j. 0 \<le> j \<and> j < 0 + length xs \<and> key (xs ! j) = x" by (auto simp: in_set_conv_nth)
  then show "search_by_key key xs x \<noteq> None"
    using search_loop_keeps [OF s, of "length xs" 0 x] by (simp add: search_by_key_def Let_def)
qed

interpretation pair_search: key_search "search_by_key :: (u32 \<times> nat \<Rightarrow> u32) \<Rightarrow> _"
  by unfold_locales (rule search_by_key_laws, assumption+)+

interpretation word_search: key_search "search_by_key :: (u32 \<Rightarrow> u32) \<Rightarrow> _"
  by unfold_locales (rule search_by_key_laws, assumption+)+

lemma index_keys: "map sy_id ss = map sy_id ss' \<Longrightarrow> index_symbols ss = index_symbols ss'"
proof -
  have "map (\<lambda>(k, s). (sy_id s, k)) (enumerate 0 ss) = map (\<lambda>(k, i). (i, k)) (enumerate 0 (map sy_id ss))" for ss
    by (rule nth_equalityI) (simp_all add: nth_enumerate_eq)
  from this [of ss] this [of ss'] show "map sy_id ss = map sy_id ss' \<Longrightarrow> ?thesis" by (simp only: index_symbols_def)
qed

lemma set_index: "set (index_symbols ss) = {(sy_id (ss ! k), k) | k. k < length ss}"
  by (force simp: index_symbols_def in_set_enumerate_eq image_iff)

lemma index_sorted: "sorted (map fst (index_symbols ss))"
  by (simp add: index_symbols_def)

lemma index_distinct:
  assumes "distinct (map sy_id ss)"
  shows "distinct (map fst (index_symbols ss))"
proof -
  let ?L = "map (\<lambda>(k, s). (sy_id s, k)) (enumerate 0 ss)"
  have "map fst ?L = map sy_id ss" by (rule nth_equalityI) (simp_all add: nth_enumerate_eq)
  moreover have "mset (map fst (index_symbols ss)) = mset (map fst ?L)"
    unfolding index_symbols_def mset_map [of fst "sort_key fst ?L"] mset_map [of fst ?L] mset_sort by (rule refl)
  ultimately show ?thesis using assms mset_eq_imp_distinct_iff by metis
qed

lemma search_index:
  assumes "distinct (map sy_id ss)" and "k < length ss"
  shows "\<exists>j. search_by_key fst (index_symbols ss) (sy_id (ss ! k)) = Some j \<and> index_symbols ss ! j = (sy_id (ss ! k), k)"
  using pair_search.search_distinct [OF index_sorted index_distinct [OF assms(1)], of "(sy_id (ss ! k), k)"] assms(2)
  by (auto simp: set_index)


section \<open>Attributes of built nodes\<close>

lemma mk_sel [simp]: "nd_id (mk i as cs) = i" "nd_attrs (mk i as cs) = as" "nd_children (mk i as cs) = cs"
  by (simp_all add: mk_def)

lemma node_attr_map: "node_attr n a = map_of (nd_attrs n) a"
proof -
  have "map_option snd (find (\<lambda>(b, _). b = a) xs) = map_of xs a" for xs :: "(u32 \<times> sla_value) list"
    by (induction xs) auto
  then show ?thesis by (simp add: node_attr_def)
qed

lemma map_of_app: "map_of (xs @ ys) a = (case map_of xs a of Some v \<Rightarrow> Some v | None \<Rightarrow> map_of ys a)"
  by (simp add: map_of_append map_add_def split: option.split)

declare map_of_append [simp del]

lemma map_of_attr_opt: "map_of (attr_opt i f r) a = (if a = i then map_option f r else None)"
  by (cases r) (simp_all add: attr_opt_def)

lemma value_of_u64 [simp]:
  "value_as_u64 (signed_value (v :: u64)) = Some v" "value_as_u64 (unsigned_value (v :: u64)) = Some v"
  using uint_lt2p [of v] unat_lt_exp [of v] by (simp_all add: signed_value_def unsigned_value_def value_as_u64_def)

lemma value_of_u32 [simp]:
  "value_as_u64 (signed_value (v :: u32)) = Some (ucast v)" "value_as_u64 (unsigned_value (v :: u32)) = Some (ucast v)"
  "try_u32 (ucast (v :: u32)) = Some v"
proof -
  have v: "uint v < 2 ^ 64" "unat v < 2 ^ 64" "(of_int (uint v) :: u64) = ucast v" "(of_nat (unat v) :: u64) = ucast v"
    using uint_lt2p [of v] unat_lt_exp [of v] by simp_all
  then show "value_as_u64 (signed_value v) = Some (ucast v)" "value_as_u64 (unsigned_value v) = Some (ucast v)"
    by (simp_all add: signed_value_def unsigned_value_def value_as_u64_def)
  have "unat (ucast v :: u64) < 2 ^ 32" "ucast (ucast v :: u64) = v"
    using unat_lt_exp [of v] by (simp_all add: unat_ucast_le word_eq_iff_unat unat_ucast_mod)
  then show "try_u32 (ucast v) = Some v" by (simp add: try_u32_def)
qed

definition i64_range :: "int \<Rightarrow> bool" where "i64_range v \<longleftrightarrow> - (2 ^ 63) \<le> v \<and> v < 2 ^ 63"

lemma value_of_i64 [simp]: "i64_range v \<Longrightarrow> value_as_i64 (V_Signed v) = Some v"
  by (simp add: value_as_i64_def i64_range_def)

lemma value_of_other [simp]:
  "value_as_bool (V_Bool b) = Some b" "value_as_str (V_Text s) = Some s" "value_as_space (V_Space x) = Some x"
  by (simp_all add: value_as_bool_def value_as_str_def value_as_space_def)

lemma bind_map: "Option.bind (map_option f r) g = Option.bind r (\<lambda>x. g (f x))"
  by (cases r) simp_all

lemmas attr_defs = node_attr_map u64_of_def i64_of_def bool_of_def text_of_def i128_attr_def u32_of_def space_of_def
  map_of_app map_of_attr_opt bind_map Option.bind_assoc

section \<open>Lists of nodes\<close>

lemma emit_all_ok:
  "emit_all f xs = Inr ns \<Longrightarrow> (\<And>x n. x \<in> set xs \<Longrightarrow> f x = Inr n \<Longrightarrow> g n = h x) \<Longrightarrow> map g ns = map h xs"
  by (induction xs arbitrary: ns) (auto split: sum.splits)

lemma emit_all_id:
  "emit_all f xs = Inr ns \<Longrightarrow> (\<And>x n. x \<in> set xs \<Longrightarrow> f x = Inr n \<Longrightarrow> g n = x) \<Longrightarrow> map g ns = xs"
  using emit_all_ok [of f xs ns g id] by simp

lemma emit_all_set: "emit_all f xs = Inr ns \<Longrightarrow> (\<And>x n. x \<in> set xs \<Longrightarrow> f x = Inr n \<Longrightarrow> P n) \<Longrightarrow> n \<in> set ns \<Longrightarrow> P n"
proof (induction xs arbitrary: ns)
  case (Cons x xs)
  obtain m ms where m: "f x = Inr m" "emit_all f xs = Inr ms" "ns = m # ms" using Cons.prems(1) by (auto split: sum.splits)
  show ?case using Cons.IH [OF m(2)] Cons.prems(2) [of x m] Cons.prems(2,3) m by auto
qed simp

lemma emit_all_each: "emit_all f xs = Inr ns \<Longrightarrow> x \<in> set xs \<Longrightarrow> \<exists>n. f x = Inr n"
  by (induction xs arbitrary: ns) (auto split: sum.splits)

lemma with_children_ok: "with_children i as r = Inr n \<longleftrightarrow> (\<exists>cs. r = Inr cs \<and> n = mk i as cs)"
  by (auto simp: with_children_def split: sum.split)

lemma then_children_ok: "then_children r s = Inr cs \<longleftrightarrow> (\<exists>as bs. r = Inr as \<and> s = Inr bs \<and> cs = as @ bs)"
  by (auto simp: then_children_def split: sum.split)

lemmas emit_ok_defs = with_children_ok then_children_ok

text \<open>The children with one identifier.\<close>

lemma filter_ids: "(\<And>n. n \<in> set ns \<Longrightarrow> nd_id n = i) \<Longrightarrow> filter (\<lambda>c. nd_id c = j) ns = (if i = j then ns else [])"
  by (induction ns) auto

section \<open>Fields, expressions and templates\<close>

lemma token_field_read [simp]: "token_field_of (emit_token_field f) = f"
  by (simp add: token_field_of_def emit_token_field_def attr_defs)

lemma context_field_read [simp]: "context_field_of (emit_context_field f) = f"
  by (simp add: context_field_of_def emit_context_field_def attr_defs)

lemma field_ids [simp]: "nd_id (emit_token_field f) = el_TOKEN_FIELD" "nd_id (emit_context_field c) = el_CONTEXT_FIELD"
  by (simp_all add: emit_token_field_def emit_context_field_def)

lemma first_field_app:
  "first_field (field_child f @ ns) = (case f of Some d \<Rightarrow> Some d | None \<Rightarrow> first_field ns)"
  by (cases f) (auto simp: field_child_def emit_field_def split: field_def.split)

lemma first_field_none: "(\<And>n. n \<in> set ns \<Longrightarrow> nd_id n \<noteq> el_TOKEN_FIELD \<and> nd_id n \<noteq> el_CONTEXT_FIELD) \<Longrightarrow> first_field ns = None"
  by (induction ns) auto

lemma filter_field [simp]:
  "j \<notin> {el_TOKEN_FIELD, el_CONTEXT_FIELD} \<Longrightarrow> filter (\<lambda>c. nd_id c = j) (field_child f) = []"
  by (cases f) (auto simp: field_child_def emit_field_def split: field_def.split)

lemma op_from_op [simp]: "op_from_element (op_element p) = Some p"
  by (cases p) (simp_all add: op_from_element_def op_element_def)

lemma expr_of_mk: "expr_of (mk i as cs) = (let n = mk i as cs in
     case op_from_element i of
       Some p \<Rightarrow> X_Op p (map expr_of cs)
     | None \<Rightarrow>
       if i = el_OPERAND_VALUE then
         X_OperandValue (or_default 0 (u64_of n at_INDEX)) (or_default 0 (u64_of n at_TABLE)) (or_default 0 (u64_of n at_CT))
       else if i = el_PEXP_CONSTANT then X_Constant (i128_attr n at_VAL)
       else if i = el_CONTEXT_FIELD then X_Context (context_field_of n)
       else if i = el_TOKEN_FIELD then X_TokenField (token_field_of n)
       else if i = el_PEXP_INST_START then X_InstStart
       else if i = el_PEXP_INST_NEXT then X_InstNext
       else if i = el_PEXP_INST_NEXT2 then X_InstNext2
       else X_Unknown i (map expr_of cs))"
  by (simp add: mk_def)

lemma expr_read: "emit_expr x = Inr n \<Longrightarrow> expr_of n = x"
proof (induction x arbitrary: n rule: emit_expr.induct)
  case (8 p es)
  obtain cs where cs: "emit_all emit_expr es = Inr cs" "n = mk (op_element p) [] cs"
    using "8.prems" by (auto simp: with_children_ok)
  have "map expr_of cs = es" by (rule emit_all_id [OF cs(1)]) (rule "8.IH")
  then show ?case by (simp add: cs(2) expr_of_mk)
qed (auto simp: expr_of_mk op_from_element_def attr_defs emit_token_field_def emit_context_field_def
    token_field_of_def context_field_of_def)

lemma exprs_read: "emit_all emit_expr es = Inr cs \<Longrightarrow> map expr_of cs = es"
  by (rule emit_all_id) (auto intro: expr_read)

definition const_ok :: "const_template \<Rightarrow> bool" where
  "const_ok c \<longleftrightarrow> (case c of K_Real v \<Rightarrow> 0 \<le> v \<and> v < 2 ^ 127 | K_Relative v \<Rightarrow> 0 \<le> v \<and> v < 2 ^ 127 | _ \<Rightarrow> True)"

lemma const_read: "emit_const_template c = Inr n \<Longrightarrow> const_ok c \<Longrightarrow> const_template_of n = c"
proof (cases c)
  case (K_Handle index select extra)
  then show "emit_const_template c = Inr n \<Longrightarrow> ?thesis"
    by (cases extra) (auto simp: emit_const_template_def const_template_of_def attr_defs handle_extra_def)
qed (auto simp: emit_const_template_def const_template_of_def attr_defs u128_or_zero_def const_ok_def nat_less_iff)

lemma consts_read: "emit_all emit_const_template cs = Inr ns \<Longrightarrow> list_all const_ok cs \<Longrightarrow> map const_template_of ns = cs"
  by (rule emit_all_id) (auto intro: const_read simp: list_all_iff)

definition varnode_ok :: "varnode_template \<Rightarrow> bool" where
  "varnode_ok v \<longleftrightarrow> list_all const_ok [vt_space v, vt_offset v, vt_size v]"

lemma varnode_read:
  assumes "emit_varnode_template v = Inr n" and "varnode_ok v"
  shows "varnode_template_of n = v \<and> nd_id n = el_VARNODE_TPL"
proof -
  obtain ns where ns: "emit_all emit_const_template [vt_space v, vt_offset v, vt_size v] = Inr ns" "n = mk el_VARNODE_TPL [] ns"
    using assms(1) by (auto simp: emit_varnode_template_def with_children_ok simp del: emit_all.simps)
  have "map const_template_of ns = [vt_space v, vt_offset v, vt_size v]"
    using consts_read [OF ns(1)] assms(2) by (simp add: varnode_ok_def)
  then show ?thesis by (simp add: ns(2) varnode_template_of_def part_or_def Let_def)
qed

end
