(* ===== verification/Sla_Build_Ok.thy ===== *)
theory Sla_Build_Ok
  imports Sla_Emit_Ok
begin

text \<open>
  Reading the tree of a whole program gives the program. \<open>program_ok\<close> says which programs a file can carry:
  the symbols have distinct identifiers, names and scopes, a constant of a template is not negative, a
  pattern that is not combined has one half, and the index is the one of the symbols.
\<close>

section \<open>Templates\<close>

definition optemp_ok :: "op_template \<Rightarrow> bool" where
  "optemp_ok r \<longleftrightarrow> list_all varnode_ok (ot_inputs r) \<and> (case ot_output r of Some v \<Rightarrow> varnode_ok v | None \<Rightarrow> True)"

lemma op_child_inputs:
  assumes "\<And>c. c \<in> set cs \<Longrightarrow> nd_id c = el_VARNODE_TPL" and "0 < k"
  shows "fold op_child (enumerate k cs) (out, inputs) = (out, inputs @ map varnode_template_of cs)"
  using assms
proof (induction cs arbitrary: k inputs)
  case (Cons c cs)
  have "op_child (k, c) (out, inputs) = (out, inputs @ [varnode_template_of c])"
    using Cons.prems by (simp add: op_child_def)
  then show ?case using Cons.IH [of "Suc k" "inputs @ [varnode_template_of c]"] Cons.prems by simp
qed simp

lemma op_template_read:
  assumes "emit_op_template r = Inr n" and "optemp_ok r"
  shows "op_template_of n = r \<and> nd_id n = el_OP_TPL"
proof -
  obtain c cs where c: "emit_output (ot_output r) = Inr c" "emit_all emit_varnode_template (ot_inputs r) = Inr cs"
      "n = mk el_OP_TPL [(at_CODE, signed_value (ot_opcode r))] (c # cs)"
    using assms(1) by (auto simp: emit_op_template_def emit_ok_defs split: sum.splits)
  have ins: "map varnode_template_of cs = ot_inputs r"
    using assms(2) by (intro emit_all_id [OF c(2)]) (auto dest: varnode_read simp: optemp_ok_def list_all_iff)
  have ids: "nd_id m = el_VARNODE_TPL" if "m \<in> set cs" for m
    by (rule emit_all_set [OF c(2) _ that]) (auto simp: emit_varnode_template_def with_children_ok)
  have "op_child (0, c) (None, []) = (ot_output r, [])"
    using c(1) assms(2) by (cases "ot_output r") (auto simp: emit_output_def op_child_def optemp_ok_def dest: varnode_read)
  then have "fold op_child (enumerate 0 (c # cs)) (None, []) = (ot_output r, ot_inputs r)"
    using op_child_inputs [of cs 1 "ot_output r" "[]"] ids ins by simp
  then show ?thesis by (simp add: op_template_of_def c(3) attr_defs)
qed

definition template_ok :: "construct_template \<Rightarrow> bool" where
  "template_ok t \<longleftrightarrow> list_all optemp_ok (ct_ops t) \<and> (case ct_result t of Some cs \<Rightarrow> list_all const_ok cs | None \<Rightarrow> True)
     \<and> (case ct_section t of Some v \<Rightarrow> i64_range v | None \<Rightarrow> True) \<and> (case ct_delay t of Some v \<Rightarrow> i64_range v | None \<Rightarrow> True)"

lemma template_ops:
  "(\<And>c. c \<in> set cs \<Longrightarrow> nd_id c = el_OP_TPL) \<Longrightarrow> fold template_child cs t = t\<lparr>ct_ops := ct_ops t @ map op_template_of cs\<rparr>"
  by (induction cs arbitrary: t) (simp_all add: template_child_def)

lemma construct_template_read:
  assumes "emit_construct_template t = Inr n" and "template_ok t"
  shows "construct_template_of n = t \<and> nd_id n = el_CONSTRUCT_TPL"
proof -
  obtain c cs where c: "emit_result (ct_result t) = Inr c" "emit_all emit_op_template (ct_ops t) = Inr cs"
      "n = mk el_CONSTRUCT_TPL (attr_opt at_DELAY V_Signed (ct_delay t) @ attr_opt at_SECTION V_Signed (ct_section t) @ attr_opt at_LABELS signed_value (ct_labels t)) (c # cs)"
    using assms(1) by (auto simp: emit_construct_template_def emit_ok_defs split: sum.splits)
  have ops: "map op_template_of cs = ct_ops t"
    using assms(2) by (intro emit_all_id [OF c(2)]) (auto dest: op_template_read simp: template_ok_def list_all_iff)
  have ids: "nd_id m = el_OP_TPL" if "m \<in> set cs" for m
    by (rule emit_all_set [OF c(2) _ that]) (auto simp: emit_op_template_def with_children_ok)
  have res: "template_child c t0 = t0\<lparr>ct_result := ct_result t\<rparr>" if "ct_result t0 = None" for t0
  proof (cases "ct_result t")
    case None
    then show ?thesis using c(1) that by (auto simp: emit_result_def template_child_def)
  next
    case (Some parts)
    then obtain ns where "emit_all emit_const_template parts = Inr ns" "c = mk el_HANDLE_TPL [] ns"
      using c(1) by (auto simp: emit_result_def with_children_ok)
    then show ?thesis using Some consts_read [of parts ns] assms(2) by (simp add: template_child_def template_ok_def)
  qed
  have "case ct_section t of Some v \<Rightarrow> i64_range v | None \<Rightarrow> True" "case ct_delay t of Some v \<Rightarrow> i64_range v | None \<Rightarrow> True"
    using assms(2) by (simp_all add: template_ok_def)
  then have attrs: "i64_of n at_SECTION = ct_section t" "u64_of n at_LABELS = ct_labels t" "i64_of n at_DELAY = ct_delay t"
    by (cases "ct_section t"; cases "ct_delay t"; cases "ct_labels t";
        simp add: c(3) i64_of_def u64_of_def node_attr_map map_of_app map_of_attr_opt)+
  show ?thesis unfolding construct_template_of_def attrs using template_ops [OF ids] ops by (simp add: c(3) res)
qed

section \<open>Patterns and decisions\<close>

lemma pattern_block_read: "pattern_block_of (emit_pattern_block b) = b"
proof -
  have "map (\<lambda>c. \<lparr>pw_mask = or_default 0 (u64_of c at_MASK), pw_value = or_default 0 (u64_of c at_VAL)\<rparr>) (map emit_pattern_word ws) = ws" for ws
    by (induction ws) (simp_all add: emit_pattern_word_def attr_defs)
  moreover have "filter (\<lambda>c. nd_id c = el_PATTERN_WORD) (map emit_pattern_word ws) = map emit_pattern_word ws" for ws
    by (induction ws) (simp_all add: emit_pattern_word_def)
  ultimately show ?thesis by (simp add: pattern_block_of_def emit_pattern_block_def attr_defs)
qed

lemma pattern_blocks_read: "pattern_blocks (map emit_pattern_block bs) = bs"
proof -
  have "filter (\<lambda>c. nd_id c = el_PATTERN_BLOCK) (map emit_pattern_block bs) = map emit_pattern_block bs"
    by (induction bs) (simp_all add: emit_pattern_block_def)
  then show ?thesis by (simp add: pattern_blocks_def pattern_block_read comp_def)
qed

definition pattern_ok :: "sla_pattern \<Rightarrow> bool" where
  "pattern_ok p \<longleftrightarrow> (if pt_combined p then pt_has_context p \<and> pt_has_instruction p
     else pt_has_context p \<noteq> pt_has_instruction p \<and> (pt_has_context p \<longrightarrow> pt_instruction p = []) \<and> (pt_has_instruction p \<longrightarrow> pt_context p = []))"

lemma pattern_into_mk: "pattern_into (mk i as cs) p =
     (if i = el_CONTEXT_PATTERN then p\<lparr>pt_has_context := True, pt_context := pt_context p @ pattern_blocks cs\<rparr>
      else if i = el_INSTRUCTION_PATTERN then
        p\<lparr>pt_has_instruction := True, pt_instruction := pt_instruction p @ pattern_blocks cs\<rparr>
      else if i = el_COMBINE_PATTERN then fold pattern_into cs (p\<lparr>pt_combined := True\<rparr>)
      else p)"
  by (simp add: mk_def)

lemma pattern_read: "pattern_ok p \<Longrightarrow> pattern_into (emit_pattern p) pattern_default = p"
  by (cases p) (auto simp: pattern_ok_def emit_pattern_def pattern_half_def pattern_into_mk pattern_default_def pattern_blocks_read split: if_splits)

lemma decision_pair_read: "pattern_ok (snd x) \<Longrightarrow> decision_pair_of (emit_pair x) = x"
  by (cases x) (simp add: emit_pair_def decision_pair_of_def pattern_read attr_defs)

fun decision_ok :: "sla_decision \<Rightarrow> bool" where
  "decision_ok (Decision number on_context start_bit num_bits children pairs) \<longleftrightarrow>
     list_all decision_ok children \<and> list_all (\<lambda>(_, p). pattern_ok p) pairs"

lemma decision_ids: "nd_id (emit_decision d) = el_DECISION" "nd_id (emit_pair x) = el_DECISION_PAIR"
  by (cases d; simp) (simp add: emit_pair_def split: prod.split)

lemma decision_read: "decision_ok d \<Longrightarrow> decision_of (emit_decision d) = d"
proof (induction d rule: decision_ok.induct)
  case (1 number on_context start_bit num_bits children pairs)
  have "map decision_of (map emit_decision children) = children"
    using 1 by (simp add: list_all_iff map_idI)
  moreover have "map decision_pair_of (map emit_pair pairs) = pairs"
  proof -
    have "pattern_ok (snd x)" if "x \<in> set pairs" for x using "1.prems" that by (auto simp: list_all_iff)
    then show ?thesis by (simp add: map_idI decision_pair_read)
  qed
  moreover have "filter (\<lambda>c. nd_id c = el_DECISION) (map emit_decision children) = map emit_decision children"
    "filter (\<lambda>c. nd_id c = el_DECISION_PAIR) (map emit_decision children) = []"
    "filter (\<lambda>c. nd_id c = el_DECISION) (map emit_pair pairs) = []"
    "filter (\<lambda>c. nd_id c = el_DECISION_PAIR) (map emit_pair pairs) = map emit_pair pairs"
    by (auto simp: filter_id_conv filter_empty_conv decision_ids)
  ultimately show ?case by (simp add: mk_def [of el_DECISION] attr_defs)
qed

section \<open>Constructors\<close>

definition constructor_ok :: "sla_constructor \<Rightarrow> bool" where
  "constructor_ok c \<longleftrightarrow> i64_range (cn_flowthru c) \<and> list_all template_ok (cn_templates c)"

lemma read_operands:
  "fold constructor_child (map emit_operand vs) c = c\<lparr>cn_operands := cn_operands c @ vs\<rparr>"
  by (induction vs arbitrary: c) (simp_all add: constructor_child_def emit_operand_def attr_defs)

lemma read_print: "fold constructor_child (map emit_print ps) c = c\<lparr>cn_print := cn_print c @ ps\<rparr>"
proof (induction ps arbitrary: c)
  case (Cons p ps)
  have "constructor_child (emit_print p) c = c\<lparr>cn_print := cn_print c @ [p]\<rparr>"
    by (cases p) (simp_all add: constructor_child_def emit_print_def attr_defs)
  then show ?case by (simp add: Cons.IH)
qed simp

lemma read_context_op:
  assumes "emit_context_op x = Inr n"
  shows "constructor_child n c = c\<lparr>cn_context_ops := cn_context_ops c @ [x]\<rparr>"
proof (cases x)
  case (Co_Set word shift bits es)
  then obtain cs where cs: "emit_all emit_expr es = Inr cs"
      "n = mk el_CONTEXT_CHANGE [(at_WORD, signed_value word), (at_SHIFT, signed_value shift), (at_MASK, unsigned_value bits)] cs"
    using assms by (auto simp: emit_context_op_def with_children_ok)
  show ?thesis using exprs_read [OF cs(1)] by (simp add: cs(2) Co_Set constructor_child_def attr_defs)
next
  case (Co_Commit symbol word bits flow)
  then have n: "n = mk el_GLOBALSET
      [(at_ID, unsigned_value symbol), (at_NUMBER, signed_value word), (at_MASK, unsigned_value bits), (at_FLOW, V_Bool flow)] []"
    using assms by (simp add: emit_context_op_def)
  show ?thesis by (simp add: n Co_Commit constructor_child_def attr_defs)
qed

lemma read_context_ops:
  "emit_all emit_context_op xs = Inr ns \<Longrightarrow> fold constructor_child ns c = c\<lparr>cn_context_ops := cn_context_ops c @ xs\<rparr>"
proof (induction xs arbitrary: ns c)
  case (Cons x xs)
  then obtain m ms where "emit_context_op x = Inr m" "emit_all emit_context_op xs = Inr ms" "ns = m # ms"
    by (auto split: sum.splits)
  then show ?case using Cons.IH by (simp add: read_context_op)
qed simp

lemma read_templates:
  "emit_all emit_construct_template ts = Inr ns \<Longrightarrow> list_all template_ok ts \<Longrightarrow>
    fold constructor_child ns c = c\<lparr>cn_templates := cn_templates c @ ts\<rparr>"
proof (induction ts arbitrary: ns c)
  case (Cons t ts)
  then obtain m ms where m: "emit_construct_template t = Inr m" "emit_all emit_construct_template ts = Inr ms" "ns = m # ms"
    by (auto split: sum.splits)
  have "constructor_child m c = c\<lparr>cn_templates := cn_templates c @ [t]\<rparr>"
    using construct_template_read [OF m(1)] Cons.prems(2) by (simp add: constructor_child_def)
  then show ?case using Cons m by simp
qed simp

lemma constructor_read:
  assumes "emit_constructor c = Inr n" and "constructor_ok c"
  shows "constructor_of n = c \<and> nd_id n = el_CONSTRUCTOR"
proof -
  obtain xs ts where k: "emit_all emit_context_op (cn_context_ops c) = Inr xs" "emit_all emit_construct_template (cn_templates c) = Inr ts"
      "n = mk el_CONSTRUCTOR [(at_PARENT, unsigned_value (cn_parent c)), (at_FLOWTHRU, V_Signed (cn_flowthru c)), (at_LENGTH, signed_value (cn_length c)),
        (at_SOURCE, signed_value (cn_source c)), (at_LINE, signed_value (cn_line c))]
        ((map emit_operand (cn_operands c) @ map emit_print (cn_print c)) @ xs @ ts)"
    using assms(1) by (auto simp: emit_constructor_def emit_ok_defs)
  have "list_all template_ok (cn_templates c)" "i64_range (cn_flowthru c)" using assms(2) by (simp_all add: constructor_ok_def)
  then show ?thesis
    by (simp add: constructor_of_def k(3) read_operands read_print read_context_ops [OF k(1)] read_templates [OF k(2)] attr_defs)
qed

section \<open>Symbols\<close>

definition sbody_ok :: "symbol_body \<Rightarrow> bool" where
  "sbody_ok b \<longleftrightarrow> (case b of
     B_Operand _ _ _ base _ _ _ \<Rightarrow> i64_range base
   | B_Subtable cs dec \<Rightarrow> list_all constructor_ok cs \<and> (case dec of Some d \<Rightarrow> decision_ok d | None \<Rightarrow> True)
   | _ \<Rightarrow> True)"

definition known_body :: "symbol_body \<Rightarrow> bool" where
  "known_body b \<longleftrightarrow> (case b of B_Unknown _ \<Rightarrow> False | _ \<Rightarrow> True)"

lemma emit_body_known: "emit_body s = Inr n \<Longrightarrow> known_body (sy_body s)"
  by (cases "sy_body s") (simp_all add: emit_body_def known_body_def Let_def)

lemma emit_body_id:
  "emit_body s = Inr n \<Longrightarrow> nd_id n = body_element (sy_body s) \<and> map_of (nd_attrs n) at_ID = Some (unsigned_value (sy_id s))"
  by (cases "sy_body s") (auto simp: emit_body_def body_element_def with_children_ok Let_def)

lemma body_not_header:
  "known_body b \<Longrightarrow> header_body_of (body_element b) = None \<and> body_element b \<noteq> el_SCOPE
    \<and> header_body_of (body_element b + 1) = Some (body_element b) \<and> body_element b + 1 \<noteq> el_SCOPE"
  by (cases b) (simp_all add: known_body_def body_element_def header_body_of_def)

lemma find_id: "(\<And>n. n \<in> set ns \<Longrightarrow> nd_id n \<noteq> i) \<Longrightarrow> find (\<lambda>c. nd_id c = i) ns = None"
  by (auto simp: find_None_iff)

lemma find_app: "find P (xs @ ys) = (case find P xs of Some x \<Rightarrow> Some x | None \<Rightarrow> find P ys)"
  by (induction xs) auto

lemma subtable_read:
  assumes "emit_all emit_constructor cs = Inr ns" and "list_all constructor_ok cs" and "case dec of Some d \<Rightarrow> decision_ok d | None \<Rightarrow> True"
    and "ds = (case dec of Some d \<Rightarrow> [emit_decision d] | None \<Rightarrow> [])"
  shows "map constructor_of (filter (\<lambda>c. nd_id c = el_CONSTRUCTOR) (ns @ ds)) = cs"
    and "map_option decision_of (find (\<lambda>c. nd_id c = el_DECISION) (ns @ ds)) = dec"
proof -
  have ids: "nd_id n = el_CONSTRUCTOR" if "n \<in> set ns" for n
    by (rule emit_all_set [OF assms(1) _ that]) (auto simp: emit_constructor_def with_children_ok)
  have "filter (\<lambda>c. nd_id c = el_CONSTRUCTOR) ds = []" using assms(4) by (cases dec) (simp_all add: decision_ids)
  moreover have "map constructor_of ns = cs"
    using assms(2) by (intro emit_all_id [OF assms(1)]) (auto dest: constructor_read simp: list_all_iff)
  ultimately show "map constructor_of (filter (\<lambda>c. nd_id c = el_CONSTRUCTOR) (ns @ ds)) = cs"
    using filter_ids [OF ids, of ns el_CONSTRUCTOR] by simp
  have "find (\<lambda>c. nd_id c = el_DECISION) ns = None" using ids by (intro find_id) auto
  then show "map_option decision_of (find (\<lambda>c. nd_id c = el_DECISION) (ns @ ds)) = dec"
    using assms(3,4) by (cases dec) (simp_all add: find_app decision_ids decision_read)
qed

lemma entries_read:
  "map (\<lambda>c. if nd_id c = el_NULL then None else u32_of c at_ID)
     (filter (\<lambda>c. nd_id c = el_VARNODE_LIST_ENTRY \<or> nd_id c = el_NULL) (field_child f @ map emit_entry es)) = es"
proof -
  have "filter (\<lambda>c. nd_id c = el_VARNODE_LIST_ENTRY \<or> nd_id c = el_NULL) (field_child f) = []"
    by (cases f) (auto simp: field_child_def emit_field_def split: field_def.split)
  moreover have "filter (\<lambda>c. nd_id c = el_VARNODE_LIST_ENTRY \<or> nd_id c = el_NULL) (map emit_entry es) = map emit_entry es"
    by (auto simp: filter_id_conv emit_entry_def split: option.splits)
  moreover have "map (\<lambda>c. if nd_id c = el_NULL then None else u32_of c at_ID) (map emit_entry es) = es"
    by (induction es) (auto simp: emit_entry_def attr_defs split: option.splits)
  ultimately show ?thesis by simp
qed

lemma mapped_entries:
  assumes "\<And>x. nd_id (g x) = i" and "i \<notin> {el_TOKEN_FIELD, el_CONTEXT_FIELD}"
  shows "first_field (field_child f @ map g xs) = f" and "filter (\<lambda>c. nd_id c = i) (field_child f @ map g xs) = map g xs"
proof -
  have "first_field (map g xs) = None" using assms by (intro first_field_none) auto
  then show "first_field (field_child f @ map g xs) = f" by (cases f) (simp_all add: first_field_app)
  show "filter (\<lambda>c. nd_id c = i) (field_child f @ map g xs) = map g xs" using assms by (auto simp: filter_id_conv)
qed

lemma body_read:
  assumes "emit_body s = Inr n" and "sbody_ok (sy_body s)"
  shows "symbol_body_of n = sy_body s"
proof (cases "sy_body s")
  case (B_Value f)
  have "first_field (field_child f) = f" using first_field_app [of f "[]"] by (cases f) simp_all
  then show ?thesis using assms(1) B_Value by (auto simp: emit_body_def symbol_body_of_def field_def_of_def Let_def)
next
  case (B_ValueMap f vs)
  let ?g = "\<lambda>v. mk el_VALUEMAP_ENTRY [(at_VAL, V_Signed v)] []"
  have g: "nd_id (?g x) = el_VALUEMAP_ENTRY" for x by simp
  have "map (\<lambda>c. i128_attr c at_VAL) (map ?g vs) = vs" by (induction vs) (simp_all add: attr_defs)
  then show ?thesis using assms(1) B_ValueMap mapped_entries [of ?g el_VALUEMAP_ENTRY f vs, OF g]
    by (auto simp: emit_body_def symbol_body_of_def field_def_of_def children_of_def Let_def)
next
  case (B_Name f names)
  let ?g = "\<lambda>n. mk el_NAME_ENTRY (attr_opt at_NAME V_Text n) []"
  have g: "nd_id (?g x) = el_NAME_ENTRY" for x by simp
  have "text_of (?g x) at_NAME = x" for x by (cases x) (simp_all add: attr_opt_def attr_defs)
  then have "map (\<lambda>c. text_of c at_NAME) (map ?g names) = names" by (simp add: map_idI)
  then show ?thesis using assms(1) B_Name mapped_entries [of ?g el_NAME_ENTRY f names, OF g]
    by (auto simp: emit_body_def symbol_body_of_def field_def_of_def children_of_def Let_def)
next
  case (B_VarnodeList f es)
  have "nd_id (emit_entry x) \<noteq> el_TOKEN_FIELD \<and> nd_id (emit_entry x) \<noteq> el_CONTEXT_FIELD" for x
    by (cases x) (simp_all add: emit_entry_def)
  then have "first_field (map emit_entry es) = None" by (intro first_field_none) auto
  then have "first_field (field_child f @ map emit_entry es) = f" by (cases f) (simp_all add: first_field_app)
  then show ?thesis using assms(1) B_VarnodeList entries_read [of f es]
    by (auto simp: emit_body_def symbol_body_of_def field_def_of_def Let_def)
next
  case (B_Context varnode low high flow f)
  then show ?thesis using assms(1)
    by (cases f) (auto simp: emit_body_def symbol_body_of_def node_child_def attr_defs)
next
  case (B_Operand index offset sub base min_length flag es)
  then obtain cs where cs: "emit_all emit_expr es = Inr cs" "n = mk el_OPERAND_SYM
       ([(at_ID, unsigned_value (sy_id s))] @ attr_opt at_SUBSYM unsigned_value sub
        @ [(at_OFF, signed_value offset), (at_OPERAND_19, V_Signed base), (at_OPERAND_18, signed_value min_length)]
        @ attr_opt at_CODE V_Bool flag @ [(at_INDEX, signed_value index)]) cs"
    using assms(1) by (auto simp: emit_body_def with_children_ok Let_def)
  have "i64_range base" using assms(2) B_Operand by (simp add: sbody_ok_def)
  then show ?thesis using exprs_read [OF cs(1)]
    by (cases sub; cases flag; simp add: cs(2) B_Operand symbol_body_of_def attr_defs)
next
  case (B_Subtable cs dec)
  let ?ds = "case dec of Some d \<Rightarrow> [emit_decision d] | None \<Rightarrow> []"
  obtain ns where ns: "emit_all emit_constructor cs = Inr ns"
      "n = mk el_SUBTABLE_SYM [(at_ID, unsigned_value (sy_id s)), (at_NUMCT, V_Signed (int (length cs)))] (ns @ ?ds)"
    using assms(1) B_Subtable by (auto simp: emit_body_def emit_ok_defs Let_def)
  have ok: "list_all constructor_ok cs" "case dec of Some d \<Rightarrow> decision_ok d | None \<Rightarrow> True"
    using assms(2) B_Subtable by (simp_all add: sbody_ok_def)
  show ?thesis using subtable_read [OF ns(1) ok refl]
    by (simp add: ns(2) B_Subtable symbol_body_of_def children_of_def node_child_def)
qed (use assms(1) in \<open>auto simp: emit_body_def symbol_body_of_def attr_defs\<close>)

section \<open>The symbol table\<close>

definition unnamed :: "sla_symbol \<Rightarrow> sla_symbol" where "unnamed s = s\<lparr>sy_name := None, sy_scope := None\<rparr>"

definition symbol_ok :: "sla_symbol \<Rightarrow> bool" where
  "symbol_ok s \<longleftrightarrow> sy_name s \<noteq> None \<and> sy_scope s \<noteq> None \<and> sbody_ok (sy_body s)"

definition header_entry :: "sla_symbol \<Rightarrow> u32 \<times> u8 list \<times> u32 option" where
  "header_entry s = (sy_id s, or_default [] (sy_name s), Some (or_default 0 (sy_scope s)))"

lemma table_scopes: "fold table_child (map emit_scope xs) (p, names) = (p\<lparr>pg_scopes := pg_scopes p @ xs\<rparr>, names)"
  by (induction xs arbitrary: p) (simp_all add: table_child_def emit_scope_def attr_defs)

lemma table_headers:
  "list_all (\<lambda>s. known_body (sy_body s)) ss \<Longrightarrow>
    fold table_child (map emit_header ss) (p, names) = (p, names @ map header_entry ss)"
proof (induction ss arbitrary: names)
  case (Cons s ss)
  have "table_child (emit_header s) (p, names) = (p, names @ [header_entry s])"
    using body_not_header [of "sy_body s"] Cons.prems
    by (simp add: table_child_def emit_header_def header_entry_def attr_defs)
  then show ?case using Cons by simp
qed simp

lemma table_bodies:
  "emit_all emit_body ss = Inr ns \<Longrightarrow> list_all symbol_ok ss \<Longrightarrow>
    fold table_child ns (p, names) = (p\<lparr>pg_symbols := pg_symbols p @ map unnamed ss\<rparr>, names)"
proof (induction ss arbitrary: ns p)
  case (Cons s ss)
  obtain m ms where m: "emit_body s = Inr m" "emit_all emit_body ss = Inr ms" "ns = m # ms"
    using Cons.prems(1) by (auto split: sum.splits)
  have s: "symbol_ok s" using Cons.prems(2) by simp
  have "u32_of m at_ID = Some (sy_id s)" using emit_body_id [OF m(1)] by (simp add: attr_defs)
  moreover have "symbol_body_of m = sy_body s" using s by (intro body_read [OF m(1)]) (simp add: symbol_ok_def)
  ultimately have "table_child m (p, names) = (p\<lparr>pg_symbols := pg_symbols p @ [unnamed s]\<rparr>, names)"
    using emit_body_id [OF m(1)] body_not_header [OF emit_body_known [OF m(1)]]
    by (simp add: table_child_def unnamed_def)
  then show ?case using Cons.IH [OF m(2)] Cons.prems(2) m(3) by simp
qed simp

lemma names_restore:
  assumes "distinct (map sy_id ss)" and "list_all symbol_ok ss" and "k \<le> length ss"
  shows "fold (name_symbol (index_symbols ss)) (map header_entry (take k ss)) (map unnamed ss) = take k ss @ map unnamed (drop k ss)"
  using assms(3)
proof (induction k)
  case (Suc k)
  then have k: "k < length ss" by simp
  let ?s = "ss ! k"
  obtain j where j: "search_by_key fst (index_symbols ss) (sy_id ?s) = Some j" "index_symbols ss ! j = (sy_id ?s, k)"
    using search_index [OF assms(1) k] by blast
  have s: "symbol_ok ?s" using assms(2) k by (simp add: list_all_length)
  have "name_symbol (index_symbols ss) (header_entry ?s) (take k ss @ map unnamed (drop k ss)) = take k ss @ ?s # map unnamed (drop (Suc k) ss)"
    using s k by (auto simp: name_symbol_def header_entry_def j symbol_ok_def list_update_append nth_append unnamed_def
        Cons_nth_drop_Suc [symmetric])
  then show ?case using Suc by (simp add: take_Suc_conv_app_nth)
qed simp

lemma names_restored:
  assumes "distinct (map sy_id ss)" and "list_all symbol_ok ss"
  shows "fold (name_symbol (index_symbols (map unnamed ss))) (map header_entry ss) (map unnamed ss) = ss"
proof -
  have "index_symbols (map unnamed ss) = index_symbols ss" by (rule index_keys) (simp add: unnamed_def comp_def)
  then show ?thesis using names_restore [OF assms order_refl] by simp
qed

section \<open>The program\<close>

definition program_ok :: "sla_program \<Rightarrow> bool" where
  "program_ok p \<longleftrightarrow> pg_version p \<noteq> None
     \<and> list_all (\<lambda>(a, _). a \<notin> {at_VERSION, at_BIGENDIAN, at_ALIGN, at_UNIQBASE}) (pg_extra p)
     \<and> distinct (map sy_id (pg_symbols p)) \<and> list_all symbol_ok (pg_symbols p)
     \<and> pg_symbol_index p = index_symbols (pg_symbols p)"

lemma source_files_read: "map source_file_of (filter (\<lambda>c. nd_id c = el_SOURCEFILE) (map emit_source_file fs)) = fs"
  by (induction fs) (simp_all add: source_file_of_def emit_source_file_def attr_defs)

lemma spaces_read: "List.map_filter read_space (map emit_space ss) = ss"
proof -
  have "read_space (emit_space s) = Some s" for s
    by (cases "sp_kind s") (simp_all add: read_space_def emit_space_def space_kind_of_def attr_defs)
  then show ?thesis by (induction ss) (simp_all add: List.map_filter_simps)
qed

lemma table_read:
  assumes "emit_table p = Inr n" and "program_ok p" and "pg_scopes q = []" and "pg_symbols q = []"
  shows "build_table n q = q\<lparr>pg_declared_scopes := pg_declared_scopes p, pg_declared_symbols := pg_declared_symbols p,
    pg_scopes := pg_scopes p, pg_symbols := pg_symbols p, pg_symbol_index := pg_symbol_index p\<rparr> \<and> nd_id n = el_SYMBOL_TABLE"
proof -
  obtain ns where ns: "emit_all emit_body (pg_symbols p) = Inr ns"
      "n = mk el_SYMBOL_TABLE (attr_opt at_SCOPESIZE signed_value (pg_declared_scopes p) @ attr_opt at_SYMBOLSIZE signed_value (pg_declared_symbols p))
        ((map emit_scope (pg_scopes p) @ map emit_header (pg_symbols p)) @ ns)"
    using assms(1) by (auto simp: emit_table_def emit_ok_defs)
  have ok: "distinct (map sy_id (pg_symbols p))" "list_all symbol_ok (pg_symbols p)" "pg_symbol_index p = index_symbols (pg_symbols p)"
    using assms(2) by (simp_all add: program_ok_def)
  have known: "list_all (\<lambda>s. known_body (sy_body s)) (pg_symbols p)"
    using emit_all_each [OF ns(1)] by (auto simp: list_all_iff dest: emit_body_known)
  have idx: "index_symbols (map unnamed (pg_symbols p)) = index_symbols (pg_symbols p)"
    by (rule index_keys) (simp add: unnamed_def comp_def)
  have attrs: "u64_of n at_SCOPESIZE = pg_declared_scopes p" "u64_of n at_SYMBOLSIZE = pg_declared_symbols p"
    by (cases "pg_declared_scopes p"; cases "pg_declared_symbols p"; simp add: ns(2) attr_defs)+
  show ?thesis
    unfolding build_table_def attrs using names_restored [OF ok(1,2)] assms(3,4)
    by (simp add: ns(2) table_scopes table_headers [OF known] table_bodies [OF ns(1) ok(2)] idx ok(3))
qed

lemma build_emit:
  assumes "emit_tree p = Inr t" and "program_ok p"
  shows "model_build t = p"
proof -
  let ?f = "mk el_SOURCEFILES [] (map emit_source_file (pg_source_files p))"
  let ?s = "mk el_SPACES (attr_opt at_DEFAULTSPACE V_Text (pg_default_space p)) (map emit_space (pg_spaces p))"
  obtain n where n: "emit_table p = Inr n" "t = mk el_SLEIGH
     ([(at_VERSION, signed_value (or_default 4 (pg_version p))), (at_BIGENDIAN, V_Bool (pg_big p)),
       (at_ALIGN, signed_value (pg_alignment p)), (at_UNIQBASE, unsigned_value (pg_unique_base p))] @ pg_extra p) [?f, ?s, n]"
    using assms(1) by (auto simp: emit_tree_def emit_ok_defs split: sum.splits)
  obtain v where v: "pg_version p = Some v" using assms(2) by (auto simp: program_ok_def)
  have extra: "filter (\<lambda>(a, _). a \<notin> {at_VERSION, at_BIGENDIAN, at_ALIGN, at_UNIQBASE}) (pg_extra p) = pg_extra p"
    using assms(2) by (simp add: program_ok_def filter_id_conv list_all_iff)
  have "text_of ?s at_DEFAULTSPACE = pg_default_space p"
    by (cases "pg_default_space p") (simp_all add: attr_defs)
  then have "build_top ?s (build_top ?f q) = q\<lparr>pg_source_files := pg_source_files q @ pg_source_files p,
      pg_default_space := pg_default_space p, pg_spaces := pg_spaces q @ pg_spaces p\<rparr>" for q
    by (simp add: build_top_def children_of_def source_files_read spaces_read)
  moreover have "build_top n q = q\<lparr>pg_declared_scopes := pg_declared_scopes p, pg_declared_symbols := pg_declared_symbols p,
    pg_scopes := pg_scopes p, pg_symbols := pg_symbols p, pg_symbol_index := pg_symbol_index p\<rparr>" if "pg_scopes q = []" "pg_symbols q = []" for q
    using table_read [OF n(1) assms(2) that] by (simp add: build_top_def)
  ultimately show ?thesis using extra v by (simp add: model_build_def n(2) program_empty_def attr_defs)
qed

end
