(* ===== verification/Sla_Huffman.thy ===== *)
theory Sla_Huffman
  imports Sla_Inflate
begin

text \<open>
  What the bit reader and the Huffman tables of \<open>inflate.rs\<close> mean: a reader is the list of the bits it
  has left, and a table built from code lengths decodes the canonical code of RFC 1951, in which the
  codes of one length are consecutive and follow those of the shorter lengths.
\<close>

section \<open>A reader is a list of bits\<close>

definition word_bits :: "nat \<Rightarrow> 'a::len word \<Rightarrow> bool list" where
  "word_bits n v = map (bit v) [0..<n]"

definition narrow :: "nat \<Rightarrow> 'a::len word \<Rightarrow> bool" where
  "narrow n v \<longleftrightarrow> (\<forall>i\<ge>n. \<not> bit v i)"

definition bytes_bits :: "u8 list \<Rightarrow> bool list" where
  "bytes_bits bs = concat (map (word_bits 8) bs)"

definition br_stream :: "bit_reader \<Rightarrow> bool list" where
  "br_stream r = word_bits (br_have r) (br_buf r) @ bytes_bits (drop (br_pos r) (br_data r))"

definition br_ok :: "bit_reader \<Rightarrow> bool" where
  "br_ok r \<longleftrightarrow> br_have r < 8 \<and> narrow (br_have r) (br_buf r)"

lemma length_word_bits [simp]: "length (word_bits n v) = n"
  by (simp add: word_bits_def)

lemma word_bits_0 [simp]: "word_bits 0 v = []"
  by (simp add: word_bits_def)

lemma bytes_bits_simps [simp]: "bytes_bits [] = []" "bytes_bits (b # bs) = word_bits 8 b @ bytes_bits bs"
  "bytes_bits (bs @ cs) = bytes_bits bs @ bytes_bits cs"
  by (simp_all add: bytes_bits_def)

lemma length_bytes_bits [simp]: "length (bytes_bits bs) = 8 * length bs"
  by (induction bs) simp_all

lemma nth_word_bits: "i < n \<Longrightarrow> word_bits n v ! i = bit v i"
  by (simp add: word_bits_def)

lemma narrow_word_eqI:
  assumes "narrow n v" and "narrow n w" and "word_bits n v = word_bits n w"
  shows "v = w"
proof (rule bit_word_eqI)
  fix i
  show "bit v i = bit w i"
  proof (cases "i < n")
    case True
    then show ?thesis using arg_cong [OF assms(3), of "\<lambda>xs. xs ! i"] by (simp add: nth_word_bits)
  qed (use assms in \<open>simp add: narrow_def\<close>)
qed

lemma word_bits_append:
  assumes "narrow n v" and "n + m \<le> LENGTH('a)"
  shows "word_bits (n + m) (v OR push_bit n (w :: 'a::len word)) = word_bits n v @ word_bits m w"
  using assms by (intro nth_equalityI) (auto simp: word_bits_def nth_append bit_or_iff bit_push_bit_iff narrow_def)

lemma narrow_append: "narrow n v \<Longrightarrow> narrow m w \<Longrightarrow> narrow (n + m) (v OR push_bit n w)"
  by (auto simp: narrow_def bit_or_iff bit_push_bit_iff)

lemma word_bits_ucast: "m \<le> LENGTH('a) \<Longrightarrow> m \<le> LENGTH('b) \<Longrightarrow> word_bits m (ucast (w :: 'a::len word) :: 'b::len word) = word_bits m w"
  by (simp add: word_bits_def bit_simps)

lemma narrow_ucast: "narrow LENGTH('a) (ucast (w :: 'a::len word) :: 'b::len word)"
  by (auto simp: narrow_def bit_simps dest: bit_imp_le_length)

lemma narrow_mono: "narrow n v \<Longrightarrow> n \<le> m \<Longrightarrow> narrow m v"
  by (simp add: narrow_def)

lemma word_bits_drop: "narrow h v \<Longrightarrow> n \<le> h \<Longrightarrow> word_bits (h - n) (drop_bit n v) = drop n (word_bits h v)"
  by (intro nth_equalityI) (simp_all add: word_bits_def bit_drop_bit_eq add.commute)

lemma narrow_drop: "narrow h v \<Longrightarrow> narrow (h - n) (drop_bit n v)"
  by (auto simp: narrow_def bit_drop_bit_eq)

lemma and_low_mask: "n < LENGTH('a) \<Longrightarrow> bit ((v :: 'a::len word) AND (push_bit n 1 - 1)) i \<longleftrightarrow> bit v i \<and> i < n"
  unfolding push_bit_1_minus_1 by (auto simp: bit_and_iff bit_mask_iff dest: bit_imp_le_length)

lemma br_refill_stream:
  assumes "narrow (br_have r) (br_buf r)" and "n \<le> 16" and "br_have r < 24"
  shows "case br_refill n r of
      Inl e \<Rightarrow> e = Z_truncated \<and> length (br_stream r) < n
    | Inr r' \<Rightarrow> br_stream r' = br_stream r \<and> n \<le> br_have r' \<and> narrow (br_have r') (br_buf r')
        \<and> (br_have r < n + 8 \<longrightarrow> br_have r' < n + 8) \<and> br_have r' < 24"
  using assms
proof (induction n r rule: br_refill.induct)
  case (1 n r)
  show ?case
  proof (cases "br_have r < n")
    case True
    show ?thesis
    proof (cases "br_pos r < length (br_data r)")
      case pos: True
      let ?b = "br_data r ! br_pos r"
      let ?r = "r\<lparr>br_pos := br_pos r + 1, br_buf := br_buf r OR push_bit (br_have r) (ucast ?b), br_have := br_have r + 8\<rparr>"
      have d: "drop (br_pos r) (br_data r) = ?b # drop (Suc (br_pos r)) (br_data r)" using pos by (rule Cons_nth_drop_Suc [symmetric])
      have "narrow 8 (ucast ?b :: u32)" using narrow_ucast [of ?b] by simp
      then have "narrow (br_have ?r) (br_buf ?r)" using "1.prems"(1) by (simp add: narrow_append)
      moreover have "br_stream ?r = br_stream r"
        using "1.prems" True by (simp add: br_stream_def d word_bits_append word_bits_ucast)
      ultimately show ?thesis
        using 1(1) [OF True pos] "1.prems" True pos by (subst br_refill.simps) (auto split: sum.splits)
    next
      case False
      then show ?thesis using True by (subst br_refill.simps) (simp add: br_stream_def)
    qed
  qed (use "1.prems" in \<open>simp add: br_refill.simps\<close>)
qed

lemma br_bits_stream:
  assumes "br_ok r" and "n \<le> 16"
  shows "case br_bits n r of
      Inl e \<Rightarrow> e = Z_truncated \<and> length (br_stream r) < n
    | Inr (v, r') \<Rightarrow> n \<le> length (br_stream r) \<and> word_bits n v = take n (br_stream r) \<and> narrow n v
        \<and> br_stream r' = drop n (br_stream r) \<and> br_ok r'"
proof (cases "br_refill n r")
  case (Inl e)
  then show ?thesis using br_refill_stream [of r n] assms by (simp add: br_bits_def br_ok_def)
next
  case (Inr r1)
  have r1: "br_stream r1 = br_stream r" "n \<le> br_have r1" "narrow (br_have r1) (br_buf r1)" "br_have r1 < n + 8"
    using br_refill_stream [of r n] assms Inr by (simp_all add: br_ok_def)
  let ?v = "br_buf r1 AND (push_bit n 1 - 1)"
  have v: "word_bits n ?v = take n (word_bits (br_have r1) (br_buf r1))" "narrow n ?v"
    using assms(2) r1(2) and_low_mask [of n "br_buf r1"] by (simp_all add: word_bits_def take_map narrow_def)
  have "n \<le> length (br_stream r)" unfolding r1(1) [symmetric] using r1(2) by (simp add: br_stream_def)
  then show ?thesis
    using Inr v r1(2-4) assms(2) unfolding r1(1) [symmetric]
    by (simp add: br_bits_def br_stream_def br_ok_def word_bits_drop narrow_drop)
qed

text \<open>A reader at the bits of a number gives the number.\<close>

lemma br_bits_read:
  assumes "br_ok r" and "n \<le> 16" and "br_stream r = word_bits n v @ rest" and "narrow n v"
  shows "\<exists>r'. br_bits n r = Inr (v, r') \<and> br_stream r' = rest \<and> br_ok r'"
proof (cases "br_bits n r")
  case (Inr p)
  obtain w r' where p: "p = (w, r')" by (cases p)
  have "word_bits n w = word_bits n v" "narrow n w" "br_stream r' = rest" "br_ok r'"
    using br_bits_stream [OF assms(1,2)] by (simp_all add: Inr p assms(3))
  then show ?thesis using narrow_word_eqI [OF _ assms(4)] by (auto simp: Inr p)
qed (use br_bits_stream [OF assms(1,2)] assms(3) in simp)

section \<open>The canonical code\<close>

text \<open>RFC 1951: the first code of a length follows the codes of the shorter length, with a zero appended;
  the codes of one length go to its symbols in order.\<close>

fun first_code :: "nat list \<Rightarrow> nat \<Rightarrow> nat" where
  "first_code ls 0 = 0"
| "first_code ls (Suc n) = 2 * (first_code ls n + (if n = 0 then 0 else count_list ls n))"

declare first_code.simps(2) [simp del]

definition canonical_code :: "nat list \<Rightarrow> nat \<Rightarrow> nat" where
  "canonical_code ls s = first_code ls (ls ! s) + count_list (take s ls) (ls ! s)"

definition code_bits :: "nat \<Rightarrow> nat \<Rightarrow> bool list" where
  "code_bits n c = rev (map (bit c) [0..<n])"

definition below_length :: "nat list \<Rightarrow> nat \<Rightarrow> nat" where
  "below_length ls n = (\<Sum>k\<in>{1..<n}. count_list ls k)"

lemma below_length_simps [simp]: "below_length ls 1 = 0" "below_length ls (Suc 0) = 0"
  "0 < n \<Longrightarrow> below_length ls (Suc n) = below_length ls n + count_list ls n"
  by (simp_all add: below_length_def)

lemma code_bits_simps [simp]: "code_bits 0 c = []" "code_bits (Suc n) c = bit c n # code_bits n c"
  by (simp_all add: code_bits_def)

lemma count_lengths_Inr:
  "count_lengths ls cs = Inr cs' \<Longrightarrow> length cs = 16 \<Longrightarrow>
    length cs' = 16 \<and> (\<forall>n<16. cs' ! n = cs ! n + count_list ls n) \<and> (\<forall>l\<in>set ls. l \<le> 15)"
proof (induction ls arbitrary: cs)
  case (Cons l ls)
  then have "l \<le> 15" "count_lengths ls (cs[l := cs ! l + 1]) = Inr cs'" by (simp_all add: max_bits_def split: if_splits)
  then show ?case using Cons.IH [of "cs[l := cs ! l + 1]"] Cons.prems(2) by (auto simp: nth_list_update)
qed simp

lemma count_lengths_ok: "\<forall>l\<in>set ls. l \<le> 15 \<Longrightarrow> \<exists>cs'. count_lengths ls cs = Inr cs'"
  by (induction ls arbitrary: cs) (simp_all add: max_bits_def)

lemma code_offsets_fold:
  assumes "m \<le> 16"
  shows "length (fold (\<lambda>n os. os[n + 1 := os ! n + counts ! n]) [1..<m] (replicate 17 0)) = 17
    \<and> (\<forall>j. 1 \<le> j \<and> j \<le> m \<longrightarrow> fold (\<lambda>n os. os[n + 1 := os ! n + counts ! n]) [1..<m] (replicate 17 0) ! j = (\<Sum>k\<in>{1..<j}. counts ! k))"
  using assms
proof (induction m)
  case (Suc m)
  show ?case
  proof (cases "m = 0")
    case False
    then have "[1..<Suc m] = [1..<m] @ [m]" by simp
    then show ?thesis using Suc False by (auto simp: nth_list_update le_Suc_eq)
  qed simp
qed simp

lemma code_offsets_nth:
  assumes "1 \<le> j" and "j \<le> 16" and "\<And>k. k < 16 \<Longrightarrow> counts ! k = count_list ls k"
  shows "code_offsets counts ! j = below_length ls j" "length (code_offsets counts) = 17"
proof -
  have "code_offsets counts ! j = (\<Sum>k\<in>{1..<j}. counts ! k)" "length (code_offsets counts) = 17"
    using code_offsets_fold [of 16 counts] assms(1,2) by (simp_all add: code_offsets_def max_bits_def eval_nat_numeral)
  moreover have "(\<Sum>k\<in>{1..<j}. counts ! k) = below_length ls j"
    unfolding below_length_def by (rule sum.cong) (use assms in auto)
  ultimately show "code_offsets counts ! j = below_length ls j" "length (code_offsets counts) = 17" by simp_all
qed

text \<open>The slots the symbols of a length still go to.\<close>

definition slots :: "nat list \<Rightarrow> nat list \<Rightarrow> nat \<Rightarrow> nat set" where
  "slots os ls l = {os ! l..<os ! l + count_list ls l}"

definition slots_apart :: "nat list \<Rightarrow> nat list \<Rightarrow> nat \<Rightarrow> bool" where
  "slots_apart os ls n \<longleftrightarrow> (\<forall>l\<in>{1..15}. \<forall>m\<in>{1..15}. l \<noteq> m \<longrightarrow> slots os ls l \<inter> slots os ls m = {})
     \<and> (\<forall>l\<in>{1..15}. slots os ls l \<subseteq> {..<n}) \<and> length os = 17 \<and> (\<forall>l\<in>set ls. l \<le> 15)"

lemma slots_step: "l \<noteq> 0 \<Longrightarrow> l < length os \<Longrightarrow>
    slots os (l # ls) m = (if m = l then insert (os ! l) (slots (os[l := os ! l + 1]) ls l) else slots (os[l := os ! l + 1]) ls m)"
  by (auto simp: slots_def)

lemma place_symbols_slots:
  assumes "slots_apart os ls (length ss)"
  shows "\<exists>ss'. place_symbols x ls os ss = Inr ss' \<and> length ss' = length ss
    \<and> (\<forall>j. (\<forall>l\<in>{1..15}. j \<notin> slots os ls l) \<longrightarrow> ss' ! j = ss ! j)
    \<and> (\<forall>s<length ls. ls ! s \<noteq> 0 \<longrightarrow> ss' ! (os ! (ls ! s) + count_list (take s ls) (ls ! s)) = x + s)"
  using assms
proof (induction ls arbitrary: x os ss)
  case (Cons l ls)
  show ?case
  proof (cases "l = 0")
    case True
    then have same: "slots os (l # ls) m = slots os ls m" if "m \<in> {1..15}" for m using that by (simp add: slots_def)
    then have "slots_apart os ls (length ss)" using Cons.prems by (simp add: slots_apart_def)
    from Cons.IH [OF this, of "x + 1"] obtain ss' where ih: "place_symbols (x + 1) ls os ss = Inr ss'" "length ss' = length ss"
      "\<forall>j. (\<forall>l\<in>{1..15}. j \<notin> slots os ls l) \<longrightarrow> ss' ! j = ss ! j"
      "\<forall>s<length ls. ls ! s \<noteq> 0 \<longrightarrow> ss' ! (os ! (ls ! s) + count_list (take s ls) (ls ! s)) = x + 1 + s" by blast
    have "ss' ! (os ! ((l # ls) ! s) + count_list (take s (l # ls)) ((l # ls) ! s)) = x + s"
      if "s < length (l # ls)" "(l # ls) ! s \<noteq> 0" for s
      using that ih(4) True by (cases s) auto
    then show ?thesis using ih same True by (intro exI [of _ ss']) simp
  next
    case False
    let ?os = "os[l := os ! l + 1]" and ?ss = "ss[os ! l := x]"
    have l: "l \<in> {1..15}" "l < length os" using Cons.prems False by (auto simp: slots_apart_def)
    note step = slots_step [OF False l(2), of ls]
    have "slots os (l # ls) l \<subseteq> {..<length ss}" using Cons.prems l(1) unfolding slots_apart_def by blast
    then have lt: "os ! l < length ss" using step [of l] by simp
    have new: "os ! l \<notin> slots ?os ls m" if "m \<in> {1..15}" for m
    proof (cases "m = l")
      case True
      then show ?thesis using l(2) by (simp add: slots_def)
    next
      case False
      then have "slots os (l # ls) l \<inter> slots os (l # ls) m = {}" using Cons.prems l that by (simp add: slots_apart_def)
      then show ?thesis using False by (auto simp: step)
    qed
    have "slots ?os ls m \<subseteq> slots os (l # ls) m" for m by (auto simp: step)
    then have "slots_apart ?os ls (length ?ss)" using Cons.prems unfolding slots_apart_def by simp blast
    from Cons.IH [OF this, of "x + 1"] obtain ss' where ih: "place_symbols (x + 1) ls ?os ?ss = Inr ss'" "length ss' = length ss"
      "\<forall>j. (\<forall>l\<in>{1..15}. j \<notin> slots ?os ls l) \<longrightarrow> ss' ! j = ?ss ! j"
      "\<forall>s<length ls. ls ! s \<noteq> 0 \<longrightarrow> ss' ! (?os ! (ls ! s) + count_list (take s ls) (ls ! s)) = x + 1 + s" by auto
    have "ss' ! (os ! ((l # ls) ! s) + count_list (take s (l # ls)) ((l # ls) ! s)) = x + s"
      if s: "s < length (l # ls)" "(l # ls) ! s \<noteq> 0" for s
    proof (cases s)
      case 0
      then show ?thesis using ih(3) new lt by simp
    next
      case (Suc t)
      then have "ss' ! (?os ! (ls ! t) + count_list (take t ls) (ls ! t)) = x + 1 + t" using ih(4) s by simp
      then show ?thesis using Suc l(2) by (cases "ls ! t = l") (simp_all add: add.commute)
    qed
    moreover have "ss' ! j = ss ! j" if "\<forall>m\<in>{1..15}. j \<notin> slots os (l # ls) m" for j
    proof -
      have "j \<noteq> os ! l" using bspec [OF that l(1)] step [of l] by auto
      moreover have "j \<notin> slots ?os ls m" if "m \<in> {1..15}" for m
        using \<open>\<forall>m\<in>{1..15}. j \<notin> slots os (l # ls) m\<close> that step [of m] by (auto split: if_splits)
      ultimately show ?thesis using ih(3) by simp
    qed
    ultimately show ?thesis using ih(1,2) False lt by (intro exI [of _ ss']) simp
  qed
qed simp

lemma below_length_mono: "m \<le> n \<Longrightarrow> below_length ls m \<le> below_length ls n"
  unfolding below_length_def by (rule sum_mono2) auto

lemma below_length_add: "1 \<le> l \<Longrightarrow> l < m \<Longrightarrow> below_length ls l + count_list ls l \<le> below_length ls m"
  using below_length_mono [of "Suc l" m ls] below_length_simps(3) [of l ls] by simp

lemma below_length_le: "below_length ls n \<le> length ls"
proof -
  have "(\<Sum>k\<in>{1..<n}. count_list ls k) \<le> length ls"
  proof (induction ls)
    case (Cons l ls)
    have "(\<Sum>k\<in>{1..<n}. count_list (l # ls) k) = (\<Sum>k\<in>{1..<n}. count_list ls k) + (\<Sum>k\<in>{1..<n}. if k = l then 1 else 0)"
      unfolding sum.distrib [symmetric] by (rule sum.cong) simp_all
    also have "(\<Sum>k\<in>{1..<n}. if k = l then 1 else 0) \<le> (1 :: nat)" by (simp add: sum.delta)
    finally show ?case using Cons by simp
  qed simp
  then show ?thesis by (simp add: below_length_def)
qed

text \<open>The codes left at a length are those after the last code in use.\<close>

lemma subscribed_codes:
  assumes "left = 2 ^ n - int (first_code ls n + (if n = 0 then 0 else count_list ls n))"
  shows "subscribed left (map (count_list ls) [Suc n..<Suc n + d])
    \<longleftrightarrow> (\<forall>k\<in>{Suc n..<Suc n + d}. first_code ls k + count_list ls k \<le> 2 ^ k)"
  using assms
proof (induction d arbitrary: n left)
  case (Suc d)
  let ?left = "left * 2 - int (count_list ls (Suc n))"
  have l: "?left = 2 ^ Suc n - int (first_code ls (Suc n) + (if Suc n = 0 then 0 else count_list ls (Suc n)))"
    using Suc.prems by (simp add: first_code.simps algebra_simps)
  have "0 \<le> ?left \<longleftrightarrow> int (first_code ls (Suc n) + count_list ls (Suc n)) \<le> int (2 ^ Suc n)" unfolding l by simp
  then have le: "0 \<le> ?left \<longleftrightarrow> first_code ls (Suc n) + count_list ls (Suc n) \<le> 2 ^ Suc n" unfolding of_nat_le_iff .
  have rng: "[Suc n..<Suc n + Suc d] = Suc n # [Suc (Suc n)..<Suc (Suc n) + d]"
    "{Suc n..<Suc n + Suc d} = insert (Suc n) {Suc (Suc n)..<Suc (Suc n) + d}"
    by (auto simp: upt_rec)
  show ?case unfolding rng using Suc.IH [OF l] le by (simp add: Let_def)
qed simp

text \<open>What a table built from code lengths holds, and that it is built exactly when no length exceeds 15
  and no two codes clash.\<close>

definition complete_lengths :: "nat list \<Rightarrow> bool" where
  "complete_lengths ls \<longleftrightarrow> (\<forall>l\<in>set ls. l \<le> 15) \<and> (\<forall>n\<in>{1..15}. first_code ls n + count_list ls n \<le> 2 ^ n)"

lemma huffman_new_table:
  assumes "complete_lengths ls"
  shows "\<exists>h. huffman_new ls = Inr h \<and> drop 1 (hf_counts h) = map (count_list ls) [1..<16] \<and> length (hf_symbols h) = length ls
    \<and> (\<forall>s<length ls. ls ! s \<noteq> 0 \<longrightarrow> hf_symbols h ! (below_length ls (ls ! s) + count_list (take s ls) (ls ! s)) = s)"
proof -
  have small: "\<forall>l\<in>set ls. l \<le> 15" using assms by (simp add: complete_lengths_def)
  obtain cs where cs: "count_lengths ls (replicate 16 0) = Inr cs" using count_lengths_ok [OF small] by blast
  have nth: "length cs = 16" "\<And>n. n < 16 \<Longrightarrow> cs ! n = count_list ls n" using count_lengths_Inr [OF cs] by simp_all
  then have drop1: "drop 1 cs = map (count_list ls) [1..<16]" by (intro nth_equalityI) simp_all
  have sub: "subscribed 1 (map (count_list ls) [1..<16])"
    using subscribed_codes [of 1 0 ls 15] assms by (simp add: complete_lengths_def atLeastLessThanSuc_atLeastAtMost eval_nat_numeral)
  define os where "os = code_offsets cs"
  have os: "os ! l = below_length ls l" if "l \<in> {1..15}" for l
    using code_offsets_nth(1) [of l cs ls] that nth(2) by (simp add: os_def)
  have slots: "slots os ls l = {below_length ls l..<below_length ls l + count_list ls l}" if "l \<in> {1..15}" for l
    using os [OF that] by (simp add: slots_def)
  have "slots_apart os ls (length ls)"
    unfolding slots_apart_def
  proof (intro conjI ballI impI)
    fix l m :: nat assume lm: "l \<in> {1..15}" "m \<in> {1..15}" "l \<noteq> m"
    have "below_length ls l + count_list ls l \<le> below_length ls m \<or> below_length ls m + count_list ls m \<le> below_length ls l"
      using below_length_add [of l m ls] below_length_add [of m l ls] lm by (auto simp: neq_iff)
    then show "slots os ls l \<inter> slots os ls m = {}" using lm by (auto simp: slots)
  next
    fix l :: nat assume l: "l \<in> {1..15}"
    then show "slots os ls l \<subseteq> {..<length ls}"
      using below_length_le [of ls "Suc l"] below_length_simps(3) [of l ls] by (auto simp: slots)
  qed (use code_offsets_nth(2) [of 1 cs ls] nth(2) small in \<open>simp_all add: os_def\<close>)
  then have "slots_apart os ls (length (replicate (length ls) (0 :: nat)))" by simp
  from place_symbols_slots [OF this, of 0] obtain ss where ss: "place_symbols 0 ls os (replicate (length ls) 0) = Inr ss" "length ss = length ls"
    "\<forall>s<length ls. ls ! s \<noteq> 0 \<longrightarrow> ss ! (os ! (ls ! s) + count_list (take s ls) (ls ! s)) = s" by auto
  have "ss ! (below_length ls (ls ! s) + count_list (take s ls) (ls ! s)) = s" if "s < length ls" "ls ! s \<noteq> 0" for s
  proof -
    have "ls ! s \<in> {1..15}" using small that by (simp add: Suc_le_eq)
    from os [OF this] show ?thesis using ss(3) that by metis
  qed
  moreover have "huffman_new ls = Inr \<lparr>hf_counts = cs, hf_symbols = ss\<rparr>"
    using cs ss(1) sub drop1 by (simp add: huffman_new_def max_bits_def os_def eval_nat_numeral)
  ultimately show ?thesis using drop1 ss(2) by (intro exI [of _ "\<lparr>hf_counts = cs, hf_symbols = ss\<rparr>"]) simp
qed

lemma table_iff: "(\<exists>h. huffman_new ls = Inr h) \<longleftrightarrow> complete_lengths ls"
proof
  assume "\<exists>h. huffman_new ls = Inr h"
  then obtain cs where cs: "count_lengths ls (replicate 16 0) = Inr cs" "subscribed 1 (drop 1 cs)"
    by (auto simp: huffman_new_def max_bits_def eval_nat_numeral split: sum.splits if_splits)
  have nth: "length cs = 16" "\<And>n. n < 16 \<Longrightarrow> cs ! n = count_list ls n" "\<forall>l\<in>set ls. l \<le> 15"
    using count_lengths_Inr [OF cs(1)] by simp_all
  then have "drop 1 cs = map (count_list ls) [1..<16]" by (intro nth_equalityI) simp_all
  then show "complete_lengths ls"
    using cs(2) nth(3) subscribed_codes [of 1 0 ls 15]
    by (simp add: complete_lengths_def atLeastLessThanSuc_atLeastAtMost eval_nat_numeral)
qed (use huffman_new_table in blast)

section \<open>Decoding\<close>

lemma or_low_bit: "2 * int m OR of_bool b = int (2 * m + of_bool b)"
  by (cases b) (simp_all add: or_one_eq)

lemma first_code_grows:
  assumes "1 \<le> n"
  shows "2 ^ Suc d * (first_code ls n + count_list ls n) \<le> first_code ls (n + Suc d)"
proof (induction d)
  case (Suc d)
  have "2 ^ Suc (Suc d) * (first_code ls n + count_list ls n) = 2 * (2 ^ Suc d * (first_code ls n + count_list ls n))" by simp
  also have "\<dots> \<le> 2 * first_code ls (n + Suc d)" using Suc by simp
  also have "\<dots> \<le> first_code ls (n + Suc (Suc d))" by (simp add: first_code.simps)
  finally show ?case .
qed (use assms in \<open>simp add: first_code.simps\<close>)

lemma br_bit_read:
  assumes "br_ok r" and "br_stream r = b # rest"
  shows "\<exists>r'. br_bits (Suc 0) r = Inr (of_bool b, r') \<and> br_stream r' = rest \<and> br_ok r'"
  using br_bits_read [OF assms(1), of "Suc 0" "of_bool b" rest] assms(2)
  by (simp add: word_bits_def narrow_def bit_1_iff)

lemma decode_loop_code:
  assumes ok: "br_ok r" "br_stream r = code_bits d c @ rest" and n: "l = n + d" "0 < d" "l \<le> 15"
    and c: "c = first_code ls l + k" "k < count_list ls l"
    and slot: "below_length ls l + k < length ss" "ss ! (below_length ls l + k) = s"
  shows "\<exists>r'. decode_loop ss (map (count_list ls) [Suc n..<16]) (int (2 * (c div 2 ^ d))) (int (first_code ls (Suc n)))
      (int (below_length ls (Suc n))) r = Inr (s, r') \<and> br_stream r' = rest \<and> br_ok r'"
  using ok n
proof (induction d arbitrary: n r)
  case (Suc d)
  let ?m = "Suc n"
  obtain r1 where r1: "br_bits (Suc 0) r = Inr (of_bool (bit c d), r1)" "br_stream r1 = code_bits d c @ rest" "br_ok r1"
    using br_bit_read [OF Suc.prems(1)] Suc.prems(2) by auto
  have upt: "[?m..<16] = ?m # [Suc ?m..<16]" using Suc.prems(3,5) by (simp add: upt_conv_Cons)
  have half: "c div 2 ^ Suc d = c div 2 ^ d div 2" by (simp only: power_Suc2 div_mult2_eq)
  have "2 * (c div 2 ^ Suc d) + of_bool (bit c d) = c div 2 ^ d"
    unfolding half bit_iff_odd by (cases "even (c div 2 ^ d)") simp_all
  then have code: "int (2 * (c div 2 ^ Suc d)) OR uint (of_bool (bit c d) :: u32) = int (c div 2 ^ d)"
    using or_low_bit [of "c div 2 ^ Suc d" "bit c d"] by (cases "bit c d") simp_all
  show ?case
  proof (cases "d = 0")
    case True
    then have l: "?m = l" using Suc.prems(3) by simp
    have idx: "nat (int (below_length ls l) + int k) = below_length ls l + k" by linarith
    show ?thesis using True code r1 slot c(2) idx upt unfolding l by (simp add: c(1) Let_def)
  next
    case False
    obtain e where d: "d = Suc e" using False by (cases d) simp_all
    have "2 ^ d * (first_code ls ?m + count_list ls ?m) \<le> first_code ls (?m + d)"
      unfolding d by (rule first_code_grows) simp
    also have "\<dots> \<le> c" using Suc.prems(3) c(1) by simp
    finally have le: "first_code ls ?m + count_list ls ?m \<le> c div 2 ^ d" by (simp add: less_eq_div_iff_mult_less_eq mult.commute)
    then have nlt: "\<not> int (c div 2 ^ d) - int (first_code ls ?m) < int (count_list ls ?m)" by linarith
    have "0 < d" using d by simp
    from Suc.IH [OF r1(3,2) _ this Suc.prems(5)] Suc.prems(3)
    obtain r' where "decode_loop ss (map (count_list ls) [Suc ?m..<16]) (int (2 * (c div 2 ^ d))) (int (first_code ls (Suc ?m)))
      (int (below_length ls (Suc ?m))) r1 = Inr (s, r')" "br_stream r' = rest" "br_ok r'" by auto
    moreover have "int (first_code ls (Suc ?m)) = push_bit 1 (int (first_code ls ?m) + int (count_list ls ?m))"
      by (simp add: first_code.simps push_bit_eq_mult)
    moreover have "int (below_length ls (Suc ?m)) = int (below_length ls ?m) + int (count_list ls ?m)" by simp
    moreover have "int (2 * (c div 2 ^ d)) = push_bit 1 (int (c div 2 ^ d))" by (simp add: push_bit_eq_mult)
    ultimately show ?thesis
      using nlt r1(1) unfolding upt list.map decode_loop.simps(2) by (simp only: code One_nat_def sum.case prod.case Let_def if_False)
        auto
  qed
qed simp

text \<open>A table decodes the canonical code of each symbol.\<close>

lemma huffman_decode_canonical:
  assumes h: "huffman_new ls = Inr h" and s: "s < length ls" "ls ! s \<noteq> 0"
    and r: "br_ok r" "br_stream r = code_bits (ls ! s) (canonical_code ls s) @ rest"
  shows "\<exists>r'. huffman_decode h r = Inr (s, r') \<and> br_stream r' = rest \<and> br_ok r'"
proof -
  let ?l = "ls ! s" and ?k = "count_list (take s ls) (ls ! s)"
  have full: "complete_lengths ls" using h table_iff by blast
  then have l: "?l \<le> 15" using s by (simp add: complete_lengths_def)
  obtain h' where "huffman_new ls = Inr h'" "drop 1 (hf_counts h') = map (count_list ls) [1..<16]" "length (hf_symbols h') = length ls"
    "\<forall>s<length ls. ls ! s \<noteq> 0 \<longrightarrow> hf_symbols h' ! (below_length ls (ls ! s) + count_list (take s ls) (ls ! s)) = s"
    using huffman_new_table [OF full] by blast
  then have t: "drop 1 (hf_counts h) = map (count_list ls) [1..<16]" "length (hf_symbols h) = length ls"
    "hf_symbols h ! (below_length ls ?l + ?k) = s" using h s by auto
  have "count_list ls ?l = ?k + count_list (drop s ls) ?l" by (simp flip: count_list_append)
  moreover have "count_list (drop s ls) ?l > 0"
    using s(1) by (simp add: Cons_nth_drop_Suc [symmetric])
  ultimately have k: "?k < count_list ls ?l" by simp
  have "below_length ls ?l + ?k < length ls"
    using below_length_le [of ls "Suc ?l"] below_length_simps(3) [of ?l ls] s(2) k by simp
  then have slot: "below_length ls ?l + ?k < length (hf_symbols h)" using t(2) by simp
  have "first_code ls ?l + count_list ls ?l \<le> 2 ^ ?l" using full l s(2) by (simp add: complete_lengths_def Suc_le_eq)
  then have c: "canonical_code ls s < 2 ^ ?l" using k unfolding canonical_code_def by linarith
  then show ?thesis
    using decode_loop_code [OF r, where n = 0 and ls = ls and ss = "hf_symbols h"] t slot k s(2) l
    unfolding huffman_decode_def t(1) by (simp add: canonical_code_def first_code.simps)
qed

end
