(* ===== verification/Sla_Roundtrip.thy ===== *)
theory Sla_Roundtrip
  imports Sla_Huffman Sla_Deflate
begin

text \<open>
  Decompression undoes compression: what \<open>deflate.rs\<close> writes, as a list of bits, is what the reader of
  \<open>inflate.rs\<close> takes apart. A match copies bytes the input has at its own position, so the choice of
  matches (the hash, the chains, the laziness) does not matter to the result.
\<close>

section \<open>A writer is a list of bits\<close>

definition bw_stream :: "bit_writer \<Rightarrow> bool list" where
  "bw_stream w = bytes_bits (bw_out w) @ word_bits (bw_n w) (bw_bits w)"

definition bw_ok :: "bit_writer \<Rightarrow> bool" where
  "bw_ok w \<longleftrightarrow> bw_n w < 8 \<and> narrow (bw_n w) (bw_bits w)"

lemma word_bits_split: "m \<le> n \<Longrightarrow> word_bits n v = word_bits m v @ word_bits (n - m) (drop_bit m v)"
  by (intro nth_equalityI) (simp_all add: word_bits_def nth_append bit_drop_bit_eq)

lemma bw_drain_stream: "narrow (bw_n w) (bw_bits w) \<Longrightarrow> bw_stream (bw_drain w) = bw_stream w \<and> bw_ok (bw_drain w)"
proof (induction w rule: bw_drain.induct)
  case (1 w)
  show ?case
  proof (cases "8 \<le> bw_n w")
    case True
    have "word_bits (bw_n w) (bw_bits w) = word_bits 8 (ucast (bw_bits w) :: u8) @ word_bits (bw_n w - 8) (drop_bit 8 (bw_bits w))"
      using word_bits_split [OF True, of "bw_bits w"] by (simp add: word_bits_ucast)
    then show ?thesis using 1 True by (subst (1 2) bw_drain.simps) (simp add: bw_stream_def narrow_drop)
  qed (use "1.prems" in \<open>simp add: bw_drain.simps bw_ok_def\<close>)
qed

lemma bw_put_stream:
  assumes "bw_ok w" and "n \<le> 24"
  shows "bw_stream (bw_put v n w) = bw_stream w @ word_bits n v" "bw_ok (bw_put v n w)"
proof -
  define m where "m = v AND (push_bit n 1 - 1)"
  let ?w = "w\<lparr>bw_bits := bw_bits w OR push_bit (bw_n w) m, bw_n := bw_n w + n\<rparr>"
  have v: "word_bits n m = word_bits n v" "narrow n m"
    using assms(2) and_low_mask [of n v] unfolding m_def by (simp_all add: word_bits_def narrow_def)
  have "narrow (bw_n ?w) (bw_bits ?w)" using assms(1) v(2) by (simp add: bw_ok_def narrow_append)
  from bw_drain_stream [OF this] have "bw_stream (bw_put v n w) = bw_stream ?w \<and> bw_ok (bw_put v n w)" by (simp only: bw_put_def m_def)
  moreover have "bw_stream ?w = bw_stream w @ word_bits n v"
    using assms v(1) by (simp add: bw_stream_def bw_ok_def word_bits_append)
  ultimately show "bw_stream (bw_put v n w) = bw_stream w @ word_bits n v" "bw_ok (bw_put v n w)" by simp_all
qed

lemma bit_placed: "bit (push_bit m (drop_bit k c AND 1) :: u32) i \<longleftrightarrow> i = m \<and> m < 32 \<and> bit c k"
  unfolding bit_push_bit_iff bit_and_iff bit_1_iff bit_drop_bit_eq by auto

lemma bit_rev_fold:
  "m \<le> n \<Longrightarrow> n \<le> 32 \<Longrightarrow>
    bit (fold (\<lambda>i r. r OR push_bit i (drop_bit (n - 1 - i) code AND 1)) [0..<m] (0 :: u32)) i \<longleftrightarrow> i < m \<and> bit code (n - 1 - i)"
proof (induction m)
  case (Suc m)
  have upt: "[0..<Suc m] = [0..<m] @ [m]" by simp
  show ?case
    unfolding upt fold_append comp_apply fold_simps bit_or_iff bit_placed using Suc by (auto simp: less_Suc_eq)
qed simp

lemma rev_code_bits: "n \<le> 32 \<Longrightarrow> word_bits n (rev_code c n) = code_bits n (unat c)"
  unfolding rev_code_def
  by (intro nth_equalityI, simp add: code_bits_def, simp only: nth_word_bits bit_rev_fold length_word_bits)
    (simp add: code_bits_def rev_nth bit_unsigned_iff)

lemma bw_put_code_stream:
  assumes "bw_ok w" and "n \<le> 24"
  shows "bw_stream (bw_put_code c n w) = bw_stream w @ code_bits n (unat c)" "bw_ok (bw_put_code c n w)"
  using bw_put_stream [OF assms] assms(2) by (simp_all add: bw_put_code_def rev_code_bits)

lemma bw_flush_out:
  assumes "bw_ok w"
  shows "\<exists>pad. bytes_bits (bw_out (bw_flush w)) = bw_stream w @ pad"
proof (cases "bw_n w = 0")
  case False
  have "word_bits 8 (ucast (bw_bits w) :: u8) = word_bits (bw_n w) (bw_bits w) @ word_bits (8 - bw_n w) (drop_bit (bw_n w) (bw_bits w))"
    using word_bits_split [of "bw_n w" 8 "bw_bits w"] assms by (simp add: word_bits_ucast bw_ok_def)
  then show ?thesis using False by (auto simp: bw_flush_def bw_stream_def)
qed (auto simp: bw_flush_def bw_stream_def)

section \<open>The fixed codes are canonical\<close>

lemma fixed_lengths_blocks: "fixed_lengths = replicate 144 8 @ replicate 112 9 @ replicate 24 7 @ replicate 8 8"
  by code_simp

lemma count_replicate [simp]: "count_list (replicate n x) y = (if x = y then n else 0)"
  by (induction n) auto

lemma first_code_numeral [simp]:
  "first_code ls (numeral k) = 2 * (first_code ls (pred_numeral k) + (if pred_numeral k = 0 then 0 else count_list ls (pred_numeral k)))"
  "first_code ls (Suc 0) = 0"
  by (simp_all add: numeral_eq_Suc first_code.simps)

lemma fixed_first:
  "first_code fixed_lengths 7 = 0" "first_code fixed_lengths 8 = 48" "first_code fixed_lengths 9 = 400"
  by (simp_all add: fixed_lengths_blocks)

lemma fifteen: "{1..15} = set [1, 2, 3, 4, 5, 6, 7, 8, 9, 10, 11, 12, 13, 14, 15 :: nat]"
  by code_simp

lemma fixed_tables_complete: "complete_lengths fixed_lengths" "complete_lengths (replicate 32 5)"
  unfolding complete_lengths_def fifteen by (simp_all add: fixed_lengths_blocks)

lemma canonical_five: "s < 32 \<Longrightarrow> canonical_code (replicate 32 5) s = s"
  by (simp add: canonical_code_def min_def)

lemma fixed_lit_canonical:
  assumes "s < 288"
  shows "fixed_lit (of_nat s) = (of_nat (canonical_code fixed_lengths s), fixed_lengths ! s)
    \<and> canonical_code fixed_lengths s < 2 ^ 9 \<and> fixed_lengths ! s \<in> {7, 8, 9}"
proof -
  have le: "(of_nat s :: u32) \<le> of_nat k \<longleftrightarrow> s \<le> k" if "k < 2 ^ 32" for k
    using assms that by (simp add: word_le_nat_alt unat_of_nat_small)
  have cmp: "(of_nat s :: u32) \<le> 143 \<longleftrightarrow> s \<le> 143" "(of_nat s :: u32) \<le> 255 \<longleftrightarrow> s \<le> 255" "(of_nat s :: u32) \<le> 279 \<longleftrightarrow> s \<le> 279"
    using le [of 143] le [of 255] le [of 279] by simp_all
  note defs = fixed_lit_def canonical_code_def fixed_lengths_blocks cmp fixed_first [unfolded fixed_lengths_blocks] nth_append min_def
  consider "s < 144" | "144 \<le> s" "s < 256" | "256 \<le> s" "s < 280" | "280 \<le> s" by linarith
  then show ?thesis
  proof cases
    case 1
    then show ?thesis by (simp add: defs)
  next
    case 2
    then show ?thesis by (simp add: defs of_nat_diff)
  next
    case 3
    then have "\<not> s - 144 < 112" "s - 256 < 24" by arith+
    with 3 show ?thesis by (simp add: defs of_nat_diff)
  next
    case 4
    then have "\<not> s - 144 < 112" "\<not> s - 256 < 24" "s - 280 \<le> 8" using assms by arith+
    with 4 show ?thesis using assms by (simp add: defs of_nat_diff)
  qed
qed

section \<open>Bases and extra bits\<close>

lemma last_base_bounds:
  "base ! 0 \<le> v \<Longrightarrow> base ! last_base base v k \<le> v \<and> last_base base v k \<le> k
    \<and> (last_base base v k < k \<longrightarrow> v < base ! (last_base base v k + 1))"
  by (induction k) (auto simp: not_less le_Suc_eq less_Suc_eq)

lemma base_gaps:
  "list_all (\<lambda>i. len_base ! (i + 1) \<le> len_base ! i + 2 ^ (len_extra ! i) \<and> len_extra ! i \<le> 5) [0..<28]"
  "list_all (\<lambda>i. dist_base ! (i + 1) \<le> dist_base ! i + 2 ^ (dist_extra ! i) \<and> dist_extra ! i \<le> 13) [0..<29]"
  by (simp_all add: len_base_def len_extra_def dist_base_def dist_extra_def upt_rec)

lemma length_code_fields:
  assumes "3 \<le> len" and "len \<le> 258" and "length_code len = (lc, e, v)"
  shows "257 \<le> lc \<and> lc < 286 \<and> e = len_extra ! (lc - 257) \<and> len = len_base ! (lc - 257) + v \<and> v < 2 ^ e \<and> e \<le> 5"
proof -
  define i where "i = last_base len_base len 28"
  have lc: "lc = 257 + i" "e = len_extra ! i" "v = len - len_base ! i"
    using assms(3) unfolding length_code_def i_def [symmetric] Let_def by auto
  have "len_base ! 0 \<le> len" using assms(1) by (simp add: len_base_def)
  from last_base_bounds [OF this, of 28] have b: "len_base ! i \<le> len" "i \<le> 28" "i < 28 \<longrightarrow> len < len_base ! (i + 1)"
    by (simp_all add: i_def)
  show ?thesis
  proof (cases "i = 28")
    case True
    then show ?thesis using lc b assms(2) by (simp add: len_base_def len_extra_def)
  next
    case False
    then have "i \<in> set [0..<28]" using b(2) by simp
    then have "len_base ! (i + 1) \<le> len_base ! i + 2 ^ (len_extra ! i) \<and> len_extra ! i \<le> 5" using base_gaps(1) by (simp add: list_all_iff)
    then show ?thesis using lc b False by auto
  qed
qed

lemma distance_code_fields:
  assumes "1 \<le> dd" and "dd \<le> 32768" and "distance_code dd = (dc, e, v)"
  shows "dc < 30 \<and> e = dist_extra ! dc \<and> dd = dist_base ! dc + v \<and> v < 2 ^ e \<and> e \<le> 13"
proof -
  define i where "i = last_base dist_base dd 29"
  have dc: "dc = i" "e = dist_extra ! i" "v = dd - dist_base ! i"
    using assms(3) unfolding distance_code_def i_def [symmetric] Let_def by auto
  have "dist_base ! 0 \<le> dd" using assms(1) by (simp add: dist_base_def)
  from last_base_bounds [OF this, of 29] have b: "dist_base ! i \<le> dd" "i \<le> 29" "i < 29 \<longrightarrow> dd < dist_base ! (i + 1)"
    by (simp_all add: i_def)
  show ?thesis
  proof (cases "i = 29")
    case True
    then show ?thesis using dc b assms(2) by (simp add: dist_base_def dist_extra_def)
  next
    case False
    then have "i \<in> set [0..<29]" using b(2) by simp
    then have "dist_base ! (i + 1) \<le> dist_base ! i + 2 ^ (dist_extra ! i) \<and> dist_extra ! i \<le> 13" using base_gaps(2) by (simp add: list_all_iff)
    then show ?thesis using dc b False by auto
  qed
qed

section \<open>Matches are repetitions\<close>

definition repeats :: "u8 list \<Rightarrow> nat \<Rightarrow> nat \<Rightarrow> nat \<Rightarrow> bool" where
  "repeats d pos len distance \<longleftrightarrow> 1 \<le> distance \<and> distance \<le> pos \<and> distance \<le> 32768
     \<and> (\<forall>i<len. d ! (pos - distance + i) = d ! (pos + i))"

lemma match_len_sound:
  "n \<le> limit \<Longrightarrow> \<forall>i<n. d ! (c + i) = d ! (pos + i) \<Longrightarrow>
    match_len d c pos limit n \<le> limit \<and> (\<forall>i<match_len d c pos limit n. d ! (c + i) = d ! (pos + i))"
proof (induction d c pos limit n rule: match_len.induct)
  case (1 d c pos limit n)
  show ?case
  proof (cases "n < limit \<and> d ! (c + n) = d ! (pos + n)")
    case True
    then have "\<forall>i<n + 1. d ! (c + i) = d ! (pos + i)" using "1.prems"(2) by (simp add: less_Suc_eq)
    then show ?thesis using 1 True by (subst (1 2) match_len.simps) simp
  next
    case False
    then have "match_len d c pos limit n = n" by (subst match_len.simps) (rule if_not_P)
    then show ?thesis using "1.prems" by simp
  qed
qed

lemma match_loop_sound:
  assumes "low = pos - 32768" and "fst best = 0 \<or> fst best \<le> limit \<and> repeats d pos (fst best) (snd best)"
    and "match_loop d pos prev nice limit low cand best tries = b"
  shows "fst b = 0 \<or> fst b \<le> limit \<and> repeats d pos (fst b) (snd b)"
  using assms
proof (induction d pos prev nice limit low cand best tries rule: match_loop.induct)
  case (1 d pos prev nice limit low cand best tries)
  let ?c = "unat cand"
  let ?n = "match_len d ?c pos limit 0"
  let ?better = "(fst best = 0 \<or> d ! (?c + fst best) = d ! (pos + fst best)) \<and> ?n > fst best"
  let ?best = "if ?better then (?n, pos - ?c) else best"
  show ?case
  proof (cases "cand = - 1 \<or> ?c < low \<or> ?c \<ge> pos \<or> fst best \<ge> limit")
    case True
    then have "match_loop d pos prev nice limit low cand best tries = best" by (subst match_loop.simps) (auto simp: Let_def)
    then show ?thesis using "1.prems" by simp
  next
    case False
    then have c: "cand \<noteq> - 1" "\<not> (?c < low \<or> ?c \<ge> pos)" "\<not> fst best \<ge> limit" by auto
    have "?n \<le> limit \<and> (\<forall>i<?n. d ! (?c + i) = d ! (pos + i))" by (rule match_len_sound) simp_all
    then have "?n \<le> limit \<and> repeats d pos ?n (pos - ?c)" using c(2) "1.prems"(1) by (auto simp: repeats_def)
    then have good: "fst ?best = 0 \<or> fst ?best \<le> limit \<and> repeats d pos (fst ?best) (snd ?best)" using "1.prems"(2) by simp
    have eq: "match_loop d pos prev nice limit low cand best tries =
        (if ?better \<and> nice \<le> ?n then ?best else if tries + 1 \<ge> max_chain then ?best
         else match_loop d pos prev nice limit low (prev ?c) ?best (tries + 1))"
      by (subst match_loop.simps) (use c in \<open>simp add: Let_def\<close>)
    show ?thesis
    proof (cases "?better \<and> nice \<le> ?n \<or> tries + 1 \<ge> max_chain")
      case True
      then have "b = ?best" using "1.prems"(3) unfolding eq by (auto split: if_splits)
      then show ?thesis using good by simp
    next
      case False
      then have "match_loop d pos prev nice limit low (prev ?c) ?best (tries + 1) = b" using "1.prems"(3) unfolding eq by auto
      with 1(1) [OF c(1) refl c(2,3) refl refl refl _ _ "1.prems"(1) good] False show ?thesis by blast
    qed
  qed
qed

lemma best_match_sound:
  assumes "best_match d pos head prev nice = Some (len, distance)"
  shows "3 \<le> len \<and> len \<le> 258 \<and> pos + len \<le> length d \<and> repeats d pos len distance"
proof -
  have pos: "pos + 3 \<le> length d" using best_match_long [OF assms] by simp
  obtain b where b: "match_loop d pos prev nice (min (length d - pos) 258) (pos - 32768) (head (hash3 (d ! pos) (d ! (pos + 1)) (d ! (pos + 2)))) (0, 0) 0 = b"
    by blast
  have "fst b = 0 \<or> fst b \<le> min (length d - pos) 258 \<and> repeats d pos (fst b) (snd b)" by (rule match_loop_sound [OF refl _ b]) simp
  moreover have "b = (len, distance)" "3 \<le> len"
    using assms b pos by (auto simp: best_match_def min_match_def max_match_def lz_window_def Let_def split: if_splits)
  ultimately show ?thesis using pos by auto
qed

lemma copy_back_repeats:
  assumes "n + p \<le> length d" and "src < p" and "\<forall>i<n. d ! (src + i) = d ! (p + i)"
  shows "copy_back n src (take p d) = take (p + n) d"
  using assms
proof (induction n arbitrary: src p)
  case (Suc n)
  have "d ! src = d ! p" using Suc.prems(3) by (metis add_0_right zero_less_Suc)
  then have t: "take p d @ [take p d ! src] = take (Suc p) d" using Suc.prems(1,2) by (simp add: take_Suc_conv_app_nth)
  have "\<forall>i<n. d ! (Suc src + i) = d ! (Suc p + i)" using Suc.prems(3) by auto
  from Suc.IH [OF _ _ this] show ?case using Suc.prems(1,2) t by simp
qed simp

section \<open>Symbols written and read\<close>

definition literal_bits :: "nat \<Rightarrow> bool list" where
  "literal_bits s = code_bits (fixed_lengths ! s) (canonical_code fixed_lengths s)"

definition match_bits :: "nat \<Rightarrow> nat \<Rightarrow> bool list" where
  "match_bits len distance = (case length_code len of (lc, e, v) \<Rightarrow>
     literal_bits lc @ word_bits e (of_nat v :: u32) @
     (case distance_code distance of (dc, e, v) \<Rightarrow> code_bits 5 dc @ word_bits e (of_nat v :: u32)))"

lemma put_literal_stream:
  assumes "bw_ok w" and "s < 288"
  shows "bw_stream (put_literal (of_nat s) w) = bw_stream w @ literal_bits s" "bw_ok (put_literal (of_nat s) w)"
proof -
  let ?c = "canonical_code fixed_lengths s" and ?n = "fixed_lengths ! s"
  have f: "fixed_lit (of_nat s) = (of_nat ?c, ?n)" "?c < 2 ^ 9" "?n \<in> {7, 8, 9}" using fixed_lit_canonical [OF assms(2)] by simp_all
  then have "?n \<le> 24" by auto
  from bw_put_code_stream [OF assms(1) this, of "of_nat ?c"] f(2)
  show "bw_stream (put_literal (of_nat s) w) = bw_stream w @ literal_bits s" "bw_ok (put_literal (of_nat s) w)"
    by (simp_all add: put_literal_def f(1) literal_bits_def unat_of_nat_small)
qed

lemma put_extra_stream:
  assumes "bw_ok w" and "n \<le> 24"
  shows "bw_stream (if 0 < n then bw_put v n w else w) = bw_stream w @ word_bits n v" "bw_ok (if 0 < n then bw_put v n w else w)"
  using bw_put_stream [OF assms, of v] assms(1) by auto

lemma put_match_stream:
  assumes "bw_ok w" and "3 \<le> len" "len \<le> 258" and "1 \<le> dd" "dd \<le> 32768"
  shows "bw_stream (put_match len dd w) = bw_stream w @ match_bits len dd \<and> bw_ok (put_match len dd w)"
proof -
  obtain lc e v where l: "length_code len = (lc, e, v)" by (cases "length_code len") auto
  obtain dc e' v' where d: "distance_code dd = (dc, e', v')" by (cases "distance_code dd") auto
  have lf: "lc < 288" "e \<le> 24" using length_code_fields [OF assms(2,3) l] by simp_all
  have df: "dc < 30" "e' \<le> 24" using distance_code_fields [OF assms(4,5) d] by simp_all
  have dc: "unat (of_nat dc :: u32) = dc" using df(1) by (simp add: unat_of_nat_small)
  note w1 = put_literal_stream [OF assms(1) lf(1)]
  note w2 = put_extra_stream [OF w1(2) lf(2), of "of_nat v"]
  have five: "5 \<le> (24 :: nat)" by simp
  note w3 = bw_put_code_stream [OF w2(2) five, of "of_nat dc"]
  note w4 = put_extra_stream [OF w3(2) df(2), of "of_nat v'"]
  show ?thesis
    unfolding put_match_def match_bits_def l d prod.case Let_def w4(1) w3(1) w2(1) w1(1) dc using w4(2) by simp
qed

lemma narrow_of_nat: "v < 2 ^ e \<Longrightarrow> e \<le> 16 \<Longrightarrow> narrow e (of_nat v :: u32)"
proof -
  assume v: "v < 2 ^ e" and e: "e \<le> 16"
  have "(2 :: nat) ^ e \<le> 2 ^ 16" using e by (intro power_increasing) simp_all
  then have "v < 2 ^ 16" using v by linarith
  then have "unat (of_nat v :: u32) = v" by (simp add: unat_of_nat_small)
  then show ?thesis using v bit_unat_less [of "of_nat v :: u32" e] by (simp add: narrow_def)
qed

lemma read_extra:
  assumes "br_ok r" and "br_stream r = word_bits e (of_nat v :: u32) @ rest" and "v < 2 ^ e" and "e \<le> 16"
  shows "\<exists>x r'. br_bits e r = Inr (x, r') \<and> unat x = v \<and> br_stream r' = rest \<and> br_ok r'"
proof -
  have "(2 :: nat) ^ e \<le> 2 ^ 16" using assms(4) by (intro power_increasing) simp_all
  then have "v < 2 ^ 16" using assms(3) by linarith
  then have "unat (of_nat v :: u32) = v" by (simp add: unat_of_nat_small)
  then show ?thesis using br_bits_read [OF assms(1,4,2) narrow_of_nat [OF assms(3,4)]] by blast
qed

lemma fixed_tables_built:
  "\<exists>lit dt. fixed_tables = Inr (lit, dt) \<and> huffman_new fixed_lengths = Inr lit \<and> huffman_new (replicate 32 5) = Inr dt"
  using fixed_tables_complete table_iff [of fixed_lengths] table_iff [of "replicate 32 5"]
  by (auto simp: fixed_tables_def two_tables_def simp del: replicate.simps)

lemma read_literal:
  assumes "huffman_new fixed_lengths = Inr lit" and "s < 288" and "br_ok r" and "br_stream r = literal_bits s @ rest"
  shows "\<exists>r'. huffman_decode lit r = Inr (s, r') \<and> br_stream r' = rest \<and> br_ok r'"
proof -
  have "s < length fixed_lengths" using assms(2) by (simp add: fixed_lengths_def)
  moreover have "fixed_lengths ! s \<noteq> 0" using fixed_lit_canonical [OF assms(2)] by auto
  ultimately show ?thesis using huffman_decode_canonical [OF assms(1) _ _ assms(3)] assms(4) by (simp add: literal_bits_def)
qed

lemma read_match_bits:
  assumes dt: "huffman_new (replicate 32 5) = Inr dt" and len: "3 \<le> len" "len \<le> 258" and dd: "1 \<le> dd" "dd \<le> 32768"
    and l: "length_code len = (lc, e, v)" and d: "distance_code dd = (dc, e', v')" and r: "br_ok r"
    and s: "br_stream r = word_bits e (of_nat v :: u32) @ code_bits 5 dc @ word_bits e' (of_nat v' :: u32) @ rest"
  shows "\<exists>r'. read_match dt lc r = Inr ((len, dd), r') \<and> br_stream r' = rest \<and> br_ok r'"
proof -
  have lf: "257 \<le> lc" "lc < 286" "e = len_extra ! (lc - 257)" "len = len_base ! (lc - 257) + v" "v < 2 ^ e" "e \<le> 5"
    using length_code_fields [OF len l] by blast+
  then have "e \<le> 16" by linarith
  have df: "dc < 30" "e' = dist_extra ! dc" "dd = dist_base ! dc + v'" "v' < 2 ^ e'" "e' \<le> 13"
    using distance_code_fields [OF dd d] by blast+
  then have "e' \<le> 16" by linarith
  obtain x r1 where r1: "br_bits e r = Inr (x, r1)" "unat x = v" "br_stream r1 = code_bits 5 dc @ word_bits e' (of_nat v' :: u32) @ rest" "br_ok r1"
    using read_extra [OF r s lf(5) \<open>e \<le> 16\<close>] by blast
  have "dc < 32" using df(1) by simp
  then obtain r2 where r2: "huffman_decode dt r1 = Inr (dc, r2)" "br_stream r2 = word_bits e' (of_nat v' :: u32) @ rest" "br_ok r2"
    using huffman_decode_canonical [OF dt, of dc r1] r1(3,4) canonical_five [of dc] by auto
  obtain y r3 where r3: "br_bits e' r2 = Inr (y, r3)" "unat y = v'" "br_stream r3 = rest" "br_ok r3"
    using read_extra [OF r2(3,2) df(4) \<open>e' \<le> 16\<close>] by blast
  have "length len_base = 29" "length dist_base = 30" by (simp_all add: len_base_def dist_base_def)
  then show ?thesis
    using r1(1,2) r2(1) r3 lf(1-4) df(1-3) by (simp add: read_match_def Let_def)
qed

section \<open>One block\<close>

text \<open>What the bits of a position on mean to the reader that has the bytes before it.\<close>

definition spells :: "u8 list \<Rightarrow> nat \<Rightarrow> bool list \<Rightarrow> bool" where
  "spells d pos bits \<longleftrightarrow> (\<forall>lit dt limit r rest. huffman_new fixed_lengths = Inr lit \<longrightarrow> huffman_new (replicate 32 5) = Inr dt \<longrightarrow>
     length d \<le> limit \<longrightarrow> br_ok r \<longrightarrow> br_stream r = bits @ rest \<longrightarrow>
     (\<exists>r'. coded_block lit dt limit (take pos d) r = coded_block lit dt limit d r' \<and> br_stream r' = rest \<and> br_ok r'))"

lemma spells_literal:
  assumes "pos < length d" and "spells d (Suc pos) bits"
  shows "spells d pos (literal_bits (unat (d ! pos)) @ bits)"
  unfolding spells_def
proof (intro allI impI)
  fix lit dt limit r rest
  assume t: "huffman_new fixed_lengths = Inr lit" "huffman_new (replicate 32 5) = Inr dt" and limit: "length d \<le> limit"
    and r: "br_ok r" "br_stream r = (literal_bits (unat (d ! pos)) @ bits) @ rest"
  have s: "unat (d ! pos) < 256" by (rule unat_u8_less)
  then have "unat (d ! pos) < 288" "br_stream r = literal_bits (unat (d ! pos)) @ bits @ rest" using r(2) by simp_all
  then obtain r1 where r1: "huffman_decode lit r = Inr (unat (d ! pos), r1)" "br_stream r1 = bits @ rest" "br_ok r1"
    using read_literal [OF t(1) _ r(1)] by blast
  have "coded_block lit dt limit (take pos d) r = coded_block lit dt limit (take (Suc pos) d) r1"
    using r1(1) s assms(1) limit by (subst coded_block.simps) (simp add: take_Suc_conv_app_nth)
  then show "\<exists>r'. coded_block lit dt limit (take pos d) r = coded_block lit dt limit d r' \<and> br_stream r' = rest \<and> br_ok r'"
    using assms(2) t limit r1(2,3) unfolding spells_def by metis
qed

lemma spells_match:
  assumes m: "3 \<le> len" "len \<le> 258" "pos + len \<le> length d" "repeats d pos len dd" and "spells d (pos + len) bits"
  shows "spells d pos (match_bits len dd @ bits)"
  unfolding spells_def
proof (intro allI impI)
  fix lit dt limit r rest
  assume t: "huffman_new fixed_lengths = Inr lit" "huffman_new (replicate 32 5) = Inr dt" and limit: "length d \<le> limit"
    and r: "br_ok r" "br_stream r = (match_bits len dd @ bits) @ rest"
  obtain lc e v where l: "length_code len = (lc, e, v)" by (cases "length_code len") auto
  obtain dc e' v' where d: "distance_code dd = (dc, e', v')" by (cases "distance_code dd") auto
  have dd: "1 \<le> dd" "dd \<le> 32768" "dd \<le> pos" using m(4) by (simp_all add: repeats_def)
  have lc: "257 \<le> lc" "lc < 288" using length_code_fields [OF m(1,2) l] by simp_all
  have "br_stream r = literal_bits lc @ word_bits e (of_nat v :: u32) @ code_bits 5 dc @ word_bits e' (of_nat v' :: u32) @ bits @ rest"
    using r(2) by (simp add: match_bits_def l d)
  from read_literal [OF t(1) lc(2) r(1) this] obtain r1 where r1: "huffman_decode lit r = Inr (lc, r1)" "br_ok r1"
    "br_stream r1 = word_bits e (of_nat v :: u32) @ code_bits 5 dc @ word_bits e' (of_nat v' :: u32) @ bits @ rest" by blast
  obtain r2 where r2: "read_match dt lc r1 = Inr ((len, dd), r2)" "br_stream r2 = bits @ rest" "br_ok r2"
    using read_match_bits [OF t(2) m(1,2) dd(1,2) l d r1(2,3)] by blast
  have "copy_back len (pos - dd) (take pos d) = take (pos + len) d"
    using m(3,4) dd by (intro copy_back_repeats) (simp_all add: repeats_def)
  then have "coded_block lit dt limit (take pos d) r = coded_block lit dt limit (take (pos + len) d) r2"
    using r1(1) r2(1) lc(1) m(3) dd(3) limit by (subst coded_block.simps) simp
  then show "\<exists>r'. coded_block lit dt limit (take pos d) r = coded_block lit dt limit d r' \<and> br_stream r' = rest \<and> br_ok r'"
    using assms(5) t limit r2(2,3) unfolding spells_def by metis
qed

lemma fixed_loop_spells:
  "bw_ok w \<Longrightarrow> pos \<le> length d \<Longrightarrow>
    \<exists>bits. bw_stream (fixed_loop d pos hp w) = bw_stream w @ bits \<and> bw_ok (fixed_loop d pos hp w) \<and> spells d pos bits"
proof (induction d pos hp w rule: fixed_loop.induct)
  case (1 d pos hp w)
  show ?case
  proof (cases "pos < length d")
    case pos: True
    show ?thesis
    proof (cases "lazy_match d pos (fst hp) (snd hp)")
      case None
      let ?w = "put_literal (ucast (d ! pos)) w"
      have eq: "fixed_loop d pos hp w = fixed_loop d (pos + 1) (hash_insert d pos hp) ?w"
        using pos None by (subst fixed_loop.simps) simp
      have c: "(ucast (d ! pos) :: u32) = of_nat (unat (d ! pos))" by (simp add: unsigned_ucast_eq word_eq_iff_unat)
      have "unat (d ! pos) < 288" using unat_u8_less [of "d ! pos"] by simp
      from put_literal_stream [OF "1.prems"(1) this] have w: "bw_stream ?w = bw_stream w @ literal_bits (unat (d ! pos))" "bw_ok ?w"
        unfolding c by simp_all
      obtain bits where "bw_stream (fixed_loop d (pos + 1) (hash_insert d pos hp) ?w) = bw_stream ?w @ bits"
        "bw_ok (fixed_loop d (pos + 1) (hash_insert d pos hp) ?w)" "spells d (pos + 1) bits"
        using 1(1) [OF pos None w(2)] pos by auto
      then show ?thesis unfolding eq using w(1) spells_literal [OF pos] by simp
    next
      case (Some m)
      obtain len dd where m: "m = (len, dd)" by (cases m)
      let ?w = "put_match len dd w" and ?hp = "fold (\<lambda>i. hash_insert d (pos + i)) [0..<len] hp"
      have eq: "fixed_loop d pos hp w = fixed_loop d (pos + len) ?hp ?w" using pos Some m by (subst fixed_loop.simps) simp
      have s: "3 \<le> len" "len \<le> 258" "pos + len \<le> length d" "repeats d pos len dd"
        using best_match_sound lazy_match_best Some m by blast+
      then have "1 \<le> dd" "dd \<le> 32768" by (simp_all add: repeats_def)
      from put_match_stream [OF "1.prems"(1) s(1,2) this] have w: "bw_stream ?w = bw_stream w @ match_bits len dd" "bw_ok ?w" by simp_all
      obtain bits where "bw_stream (fixed_loop d (pos + len) ?hp ?w) = bw_stream ?w @ bits"
        "bw_ok (fixed_loop d (pos + len) ?hp ?w)" "spells d (pos + len) bits"
        using 1(2) [OF pos Some m [symmetric] w(2) s(3)] by auto
      then show ?thesis unfolding eq using w(1) spells_match [OF s] by simp
    qed
  next
    case False
    then have "fixed_loop d pos hp w = w" by (subst fixed_loop.simps) simp
    moreover have "spells d pos []" using False by (auto simp: spells_def)
    ultimately show ?thesis using "1.prems" by (intro exI [of _ "[]"]) simp
  qed
qed

section \<open>Round trips\<close>

lemma br_new_ok: "br_ok (br_new d)" "br_stream (br_new d) = bytes_bits d"
  by (simp_all add: br_ok_def br_new_def br_stream_def narrow_def)

lemma fixed_roundtrip:
  assumes "length d \<le> limit"
  shows "inflate (fixed_blocks d) limit = Inr d"
proof -
  let ?w0 = "\<lparr>bw_out = [], bw_bits = 0, bw_n = 0\<rparr>" and ?hp = "(\<lambda>_. - 1, \<lambda>_. - 1) :: heads \<times> heads"
  have ok0: "bw_ok ?w0" and s0: "bw_stream ?w0 = []" by (simp_all add: bw_ok_def narrow_def bw_stream_def)
  let ?w1 = "bw_put 1 1 ?w0"
  have w1: "bw_stream ?w1 = word_bits 1 (1 :: u32)" "bw_ok ?w1" using bw_put_stream [OF ok0, of 1 1] s0 by simp_all
  let ?w2 = "bw_put 1 2 ?w1"
  have w2: "bw_stream ?w2 = word_bits 1 (1 :: u32) @ word_bits 2 (1 :: u32)" "bw_ok ?w2" using bw_put_stream [OF w1(2), of 2 1] w1(1) by simp_all
  let ?w3 = "fixed_loop d 0 ?hp ?w2"
  obtain bits where w3: "bw_stream ?w3 = bw_stream ?w2 @ bits" "bw_ok ?w3" "spells d 0 bits"
    using fixed_loop_spells [OF w2(2), of 0 d ?hp] by auto
  let ?w4 = "put_literal (of_nat 256) ?w3"
  have w4: "bw_stream ?w4 = bw_stream ?w3 @ literal_bits 256" "bw_ok ?w4" using put_literal_stream [OF w3(2), of 256] by simp_all
  obtain pad where "bytes_bits (bw_out (bw_flush ?w4)) = bw_stream ?w4 @ pad" using bw_flush_out [OF w4(2)] by blast
  moreover have "fixed_blocks d = bw_out (bw_flush ?w4)" by (simp add: fixed_blocks_def Let_def)
  ultimately have "br_stream (br_new (fixed_blocks d)) = bw_stream ?w4 @ pad" by (simp only: br_new_ok)
  then have stream: "br_stream (br_new (fixed_blocks d)) = word_bits 1 (1 :: u32) @ word_bits 2 (1 :: u32) @ bits @ literal_bits 256 @ pad"
    by (simp only: w4(1) w3(1) w2(1) append.assoc)
  obtain r1 where r1: "br_bits 1 (br_new (fixed_blocks d)) = Inr (1, r1)" "br_stream r1 = word_bits 2 (1 :: u32) @ bits @ literal_bits 256 @ pad" "br_ok r1"
    using br_bits_read [OF br_new_ok(1) _ stream] by (auto simp: narrow_def bit_1_iff)
  obtain r2 where r2: "br_bits 2 r1 = Inr (1, r2)" "br_stream r2 = bits @ literal_bits 256 @ pad" "br_ok r2"
    using br_bits_read [OF r1(3) _ r1(2)] by (auto simp: narrow_def bit_1_iff)
  obtain lit dt where t: "fixed_tables = Inr (lit, dt)" "huffman_new fixed_lengths = Inr lit" "huffman_new (replicate 32 5) = Inr dt"
    using fixed_tables_built by blast
  obtain r3 where r3: "coded_block lit dt limit [] r2 = coded_block lit dt limit d r3" "br_stream r3 = literal_bits 256 @ pad" "br_ok r3"
    using w3(3) [unfolded spells_def, rule_format, OF t(2,3) assms r2(3,2)] by auto
  have "(256 :: nat) < 288" by simp
  from read_literal [OF t(2) this r3(3,2)] obtain r4 where "huffman_decode lit r3 = Inr (256, r4)" by blast
  then have "coded_block lit dt limit d r3 = Inr (d, r4)" by (subst coded_block.simps) simp
  then have "inflate_block 1 limit [] r2 = Inr (d, r4)" unfolding inflate_block_def t(1) using r3(1) by simp
  then show ?thesis
    unfolding inflate_def inflate_loop.simps [of limit "[]"] r1(1) using r2(1) by simp
qed

text \<open>Stored blocks are read byte by byte.\<close>

definition at_bytes :: "bit_reader \<Rightarrow> u8 list \<Rightarrow> bool" where
  "at_bytes r bs \<longleftrightarrow> br_have r = 0 \<and> br_buf r = 0 \<and> br_pos r \<le> length (br_data r) \<and> drop (br_pos r) (br_data r) = bs"

lemma at_bytes_new: "at_bytes (br_new d) d"
  by (simp add: at_bytes_def br_new_def)

lemma at_bytes_Cons: "at_bytes r (b # bs) \<Longrightarrow> br_pos r < length (br_data r) \<and> br_data r ! br_pos r = b \<and> drop (Suc (br_pos r)) (br_data r) = bs"
  unfolding at_bytes_def by (metis Cons_nth_drop_Suc drop_all list.distinct(1) list.inject not_le)

lemma at_bytes_byte: "at_bytes r (b # bs) \<Longrightarrow> \<exists>r'. br_byte r = Inr (b, r') \<and> at_bytes r' bs"
  using at_bytes_Cons [of r b bs] by (auto simp: br_byte_def at_bytes_def)

lemma at_bytes_remaining: "at_bytes r bs \<Longrightarrow> br_remaining r = length bs"
  by (auto simp: at_bytes_def br_remaining_def)

lemma stored_header:
  assumes "at_bytes r (h # bs)" and "h = 0 \<or> h = 1"
  shows "\<exists>r1 r2. br_bits 1 r = Inr (ucast h, r1) \<and> br_bits 2 r1 = Inr (0, r2) \<and> at_bytes (br_align r2) bs"
proof -
  note c = at_bytes_Cons [OF assms(1)]
  let ?r = "r\<lparr>br_pos := br_pos r + 1, br_buf := ucast h, br_have := 8\<rparr>"
  have "br_refill 1 r = br_refill 1 ?r"
    using assms(1) c by (subst br_refill.simps) (simp add: at_bytes_def)
  also have "\<dots> = Inr ?r" by (subst br_refill.simps) simp
  finally have "br_refill 1 r = Inr ?r" .
  then have b1: "br_bits 1 r = Inr (ucast h, r\<lparr>br_pos := br_pos r + 1, br_buf := 0, br_have := 7\<rparr>)"
    using assms(2) by (auto simp: br_bits_def)
  have b2: "br_bits 2 (r\<lparr>br_pos := br_pos r + 1, br_buf := 0, br_have := 7\<rparr>) = Inr (0, r\<lparr>br_pos := br_pos r + 1, br_buf := 0, br_have := 5\<rparr>)"
    unfolding br_bits_def by (subst br_refill.simps) simp
  have "at_bytes (br_align (r\<lparr>br_pos := br_pos r + 1, br_buf := 0, br_have := 5\<rparr>)) bs"
    using c by (auto simp: br_align_def at_bytes_def)
  then show ?thesis using b1 b2 by blast
qed

lemma u16_bytes: "u16_le n = [of_nat (n mod 256), of_nat (n div 256 mod 256)]"
proof -
  have "le_bytes 2 v = [of_nat (v mod 256), of_nat (v div 256 mod 256)]" for v by (simp add: numeral_2_eq_2)
  then show ?thesis using mod_mult2_eq [of n 256 256] by (simp add: u16_le_def)
qed

lemma at_bytes_u16:
  assumes "at_bytes r (u16_le n @ bs)" and "n < 2 ^ 16"
  shows "\<exists>r'. read_u16 r = Inr (of_nat n, r') \<and> at_bytes r' bs"
proof -
  obtain r1 where r1: "br_byte r = Inr (of_nat (n mod 256), r1)" "at_bytes r1 (of_nat (n div 256 mod 256) # bs)"
    using at_bytes_byte assms(1) by (fastforce simp: u16_bytes)
  obtain r2 where r2: "br_byte r1 = Inr (of_nat (n div 256 mod 256), r2)" "at_bytes r2 bs" using at_bytes_byte [OF r1(2)] by blast
  have hi: "n div 256 mod 256 = n div 256" using assms(2) by simp
  have u: "unat (ucast (of_nat k :: u8) :: u32) = k" if "k < 256" for k
    using that by (simp add: unat_ucast_le unat_of_nat_small)
  have lo: "unat (ucast (of_nat (n mod 256) :: u8) :: u32) < 2 ^ 8" by (simp add: u)
  have "ucast (of_nat (n mod 256) :: u8) OR push_bit 8 (ucast (of_nat (n div 256) :: u8)) = (of_nat n :: u32)"
  proof -
    have "n div 256 < 256" using assms(2) by simp
    then show ?thesis
      using assms(2) u [of "n mod 256"] u [of "n div 256"] lo
      by (simp add: or_add word_eq_iff_unat unat_add_small unat_push_bit_small unat_of_nat_small)
  qed
  then show ?thesis using r1(1) r2 by (simp add: read_u16_def hi)
qed

lemma stored_copy_bytes: "at_bytes r (c @ bs) \<Longrightarrow> \<exists>r'. stored_copy (length c) out r = Inr (out @ c, r') \<and> at_bytes r' bs"
proof (induction c arbitrary: out r)
  case (Cons b c)
  then obtain r1 where r1: "br_byte r = Inr (b, r1)" "at_bytes r1 (c @ bs)" using at_bytes_byte by fastforce
  then show ?case using Cons.IH [OF r1(2), of "out @ [b]"] by simp
qed simp

lemma u16_not_complement: "n < 2 ^ 16 \<Longrightarrow> (of_nat n :: u32) XOR 0xffff = of_nat (u16_not n)"
proof (rule bit_word_eqI)
  fix i assume n: "n < 2 ^ 16" and i: "i < LENGTH(32)"
  have m: "(0xffff :: u32) = mask 16" by (simp add: mask_eq_exp_minus_1)
  have "\<not> bit n i" if "16 \<le> i"
  proof -
    have "(2 :: nat) ^ 16 \<le> 2 ^ i" using that by (intro power_increasing) simp_all
    then show ?thesis using n by (simp add: bit_iff_odd)
  qed
  then show "bit ((of_nat n :: u32) XOR 0xffff) i = bit (of_nat (u16_not n) :: u32) i"
    using i unfolding m by (auto simp: bit_xor_iff bit_mask_iff u16_not_def bit_of_nat_iff bit_unsigned_iff bit_not_iff)
qed

lemma u16_not_less: "u16_not n < 2 ^ 16"
  unfolding u16_not_def using unat_lt_exp [of "NOT (of_nat n :: 16 word)"] by simp

lemma stored_block_bytes:
  assumes "at_bytes (br_align r) (u16_le (length c) @ u16_le (u16_not (length c)) @ c @ bs)"
    and "length c < 2 ^ 16" and "length out + length c \<le> limit"
  shows "\<exists>r'. stored_block limit out r = Inr (out @ c, r') \<and> at_bytes r' bs"
proof -
  obtain r1 where r1: "read_u16 (br_align r) = Inr (of_nat (length c), r1)" "at_bytes r1 (u16_le (u16_not (length c)) @ c @ bs)"
    using at_bytes_u16 [OF assms(1,2)] by blast
  obtain r2 where r2: "read_u16 r1 = Inr (of_nat (u16_not (length c)), r2)" "at_bytes r2 (c @ bs)"
    using at_bytes_u16 [OF r1(2) u16_not_less] by blast
  obtain r3 where "stored_copy (length c) out r2 = Inr (out @ c, r3)" "at_bytes r3 bs" using stored_copy_bytes [OF r2(2)] by blast
  then show ?thesis
    using assms(2,3) r1(1) r2(1) at_bytes_remaining [OF r2(2)] u16_not_complement [OF assms(2)]
    by (simp add: stored_block_def unat_of_nat_small)
qed

lemma stored_chunks_read:
  assumes "cs \<noteq> []" and "\<forall>c\<in>set cs. length c < 2 ^ 16" and "length out + length (concat cs) \<le> limit"
    and "at_bytes r (stored_chunks cs)"
  shows "inflate_loop limit out r = Inr (out @ concat cs)"
  using assms
proof (induction cs arbitrary: out r)
  case (Cons c cs)
  define h :: u8 where "h = (if cs = [] then 1 else 0)"
  have bs: "at_bytes r (h # u16_le (length c) @ u16_le (u16_not (length c)) @ c @ stored_chunks cs)"
    using Cons.prems(4) by (simp add: h_def Let_def)
  have "h = 0 \<or> h = 1" by (simp add: h_def)
  from stored_header [OF bs this] obtain r1 r2 where r: "br_bits 1 r = Inr (ucast h, r1)" "br_bits 2 r1 = Inr (0, r2)"
    "at_bytes (br_align r2) (u16_le (length c) @ u16_le (u16_not (length c)) @ c @ stored_chunks cs)" by blast
  obtain r3 where r3: "stored_block limit out r2 = Inr (out @ c, r3)" "at_bytes r3 (stored_chunks cs)"
    using stored_block_bytes [OF r(3), of out limit] Cons.prems(2,3) by auto
  have eq: "inflate_loop limit out r = (if (ucast h :: u32) \<noteq> 0 then Inr (out @ c) else inflate_loop limit (out @ c) r3)"
    unfolding inflate_loop.simps [of limit out r] r(1) using r(2) r3(1) by (simp add: inflate_block_def)
  show ?case
  proof (cases "cs = []")
    case False
    then show ?thesis using eq Cons.IH [OF False _ _ r3(2)] Cons.prems(2,3) by (simp add: h_def)
  qed (use eq in \<open>simp add: h_def\<close>)
qed simp

lemma concat_chunks: "0 < n \<Longrightarrow> concat (slice_chunks n xs) = xs"
proof (induction n xs rule: slice_chunks.induct)
  case (1 n xs)
  then show ?case by (subst slice_chunks.simps) simp
qed

lemma length_chunks: "c \<in> set (slice_chunks n xs) \<Longrightarrow> length c \<le> n"
proof (induction n xs rule: slice_chunks.induct)
  case (1 n xs)
  then show ?case by (subst (asm) (2) slice_chunks.simps) (auto split: if_splits)
qed

lemma stored_roundtrip:
  assumes "length d \<le> limit"
  shows "inflate (stored_blocks d) limit = Inr d"
proof (cases "slice_chunks 0xffff d = []")
  case True
  then have "d = []" using concat_chunks [of "0xffff" d] by simp
  have "stored_blocks d = stored_chunks [[]]" using True by (simp add: stored_blocks_def)
  then have "at_bytes (br_new (stored_blocks d)) (stored_chunks [[]])" using at_bytes_new [of "stored_blocks d"] by simp
  from stored_chunks_read [OF _ _ _ this, where out = "[]" and limit = limit] show ?thesis using \<open>d = []\<close> by (simp add: inflate_def)
next
  case False
  have "\<forall>c\<in>set (slice_chunks 0xffff d). length c < 2 ^ 16" using length_chunks [of _ "0xffff" d] by fastforce
  moreover have "at_bytes (br_new (stored_blocks d)) (stored_chunks (slice_chunks 0xffff d))"
    using at_bytes_new [of "stored_blocks d"] False by (simp add: stored_blocks_def)
  ultimately show ?thesis
    using stored_chunks_read [OF False, where out = "[]" and limit = limit] assms concat_chunks [of "0xffff" d] by (simp add: inflate_def)
qed

end
