(* ===== verification/Sla_Props.thy ===== *)
theory Sla_Props
  imports Sla_Roundtrip
begin

text \<open>
  The properties of \<open>crates/e5r-sla\<close>'s compressor and decompressor: the round trip through a zlib stream,
  the codes a table decodes, the bound on the output, and the checksum.
\<close>

section \<open>The checksum\<close>

text \<open>RFC 1950: both sums are kept modulo 65521 at every byte.\<close>

definition adler_ref_byte :: "u8 \<Rightarrow> nat \<times> nat \<Rightarrow> nat \<times> nat" where
  "adler_ref_byte x = (\<lambda>(a, b). ((a + unat x) mod 65521, (b + (a + unat x) mod 65521) mod 65521))"

definition adler_ref :: "u8 list \<Rightarrow> nat" where
  "adler_ref d = (case fold adler_ref_byte d (1, 0) of (a, b) \<Rightarrow> 65536 * b + a)"

lemma adler_byte_pair: "adler_byte x (a, b) = (a + ucast x, b + (a + ucast x))"
  by (simp add: adler_byte_def Let_def)

lemma adler_ref_mod: "adler_ref_byte x (a mod 65521, b mod 65521) = ((a + unat x) mod 65521, (b + a + unat x) mod 65521)"
proof -
  have a: "(a mod 65521 + unat x) mod 65521 = (a + unat x) mod 65521" by (rule mod_add_left_eq)
  have "(b mod 65521 + (a + unat x) mod 65521) mod 65521 = (b + (a + unat x)) mod 65521" by (rule mod_add_eq)
  then show ?thesis unfolding adler_ref_byte_def prod.case a by (simp add: add.assoc)
qed

text \<open>A chunk of at most 5552 bytes does not overflow 32 bits.\<close>

lemma adler_bytes:
  assumes "unat a + 255 * length c < 2 ^ 32"
    and "2 * unat b + 2 * length c * unat a + 255 * length c * (length c + 1) < 2 ^ 33"
    and "fold adler_byte c (a, b) = (a', b')"
    and "fold adler_ref_byte c (unat a mod 65521, unat b mod 65521) = (p, q)"
  shows "unat a' mod 65521 = p \<and> unat b' mod 65521 = q"
  using assms
proof (induction c arbitrary: a b)
  case (Cons x c)
  define n where "n = length c"
  have x: "unat x \<le> 255" using unat_u8_less [of x] by simp
  let ?x = "ucast x :: u32"
  have ux: "unat ?x = unat x" by (simp add: unat_ucast_le)
  have a1: "unat (a + ?x) = unat a + unat x" using Cons.prems(1) x by (simp add: unat_add_small ux)
  have b_bound: "2 * unat b + 2 * (n + 1) * unat a + 255 * (n + 1) * (n + 2) < 2 ^ 33"
    using Cons.prems(2) by (simp add: n_def)
  have expand: "2 * (unat b + unat a + unat x) + 2 * n * (unat a + unat x) + 255 * n * (n + 1)
      \<le> 2 * unat b + 2 * (n + 1) * unat a + 255 * (n + 1) * (n + 2)"
  proof -
    have "2 * unat x + 2 * n * unat x \<le> 2 * 255 + 2 * n * 255" using x by (intro add_mono mult_left_mono) simp_all
    then show ?thesis by (simp add: algebra_simps)
  qed
  moreover have "2 * (unat b + unat a + unat x) \<le> 2 * (unat b + unat a + unat x) + 2 * n * (unat a + unat x) + 255 * n * (n + 1)"
    by simp
  ultimately have "2 * (unat b + unat a + unat x) < 2 ^ 33" using b_bound by (meson le_less_trans)
  then have "unat b + (unat a + unat x) < 2 ^ 32" by simp
  then have b1: "unat (b + (a + ?x)) = unat b + unat a + unat x" by (simp add: unat_add_small a1)
  have 1: "unat (a + ?x) + 255 * length c < 2 ^ 32" using Cons.prems(1) x by (simp add: a1)
  have 2: "2 * unat (b + (a + ?x)) + 2 * length c * unat (a + ?x) + 255 * length c * (length c + 1) < 2 ^ 33"
    using expand b_bound unfolding n_def [symmetric] a1 b1 by linarith
  have 3: "fold adler_byte c (a + ?x, b + (a + ?x)) = (a', b')" using Cons.prems(3) by (simp add: adler_byte_pair)
  have 4: "fold adler_ref_byte c (unat (a + ?x) mod 65521, unat (b + (a + ?x)) mod 65521) = (p, q)"
    using Cons.prems(4) unfolding a1 b1 fold_simps adler_ref_mod .
  show ?case by (rule Cons.IH [OF 1 2 3 4])
qed simp

lemma adler_chunk_ref:
  assumes "length c \<le> 5552" and "unat a < 65521" and "unat b < 65521" and "adler_chunk c (a, b) = (a', b')"
  shows "fold adler_ref_byte c (unat a, unat b) = (unat a', unat b') \<and> unat a' < 65521 \<and> unat b' < 65521"
proof -
  obtain s t where st: "fold adler_byte c (a, b) = (s, t)" by (cases "fold adler_byte c (a, b)")
  obtain p q where pq: "fold adler_ref_byte c (unat a, unat b) = (p, q)" by (cases "fold adler_ref_byte c (unat a, unat b)")
  have "255 * length c * (length c + 1) \<le> 255 * 5552 * (5552 + 1)" using assms(1) by (intro mult_mono) simp_all
  moreover have "2 * length c * unat a \<le> 2 * 5552 * 65520" using assms(1,2) by (intro mult_mono) simp_all
  ultimately have "2 * unat b + 2 * length c * unat a + 255 * length c * (length c + 1) < 2 ^ 33" using assms(3) by simp
  then have "unat s mod 65521 = p \<and> unat t mod 65521 = q"
    using adler_bytes [OF _ _ st, of p q] assms(1-3) pq by simp
  moreover have "unat (s mod 65521) = unat s mod 65521" "unat (t mod 65521) = unat t mod 65521" by (simp_all add: unat_mod)
  ultimately show ?thesis using assms(4) st pq by (auto simp: adler_chunk_def)
qed

lemma adler_chunks_ref:
  assumes "\<forall>c\<in>set cs. length c \<le> 5552" and "unat a < 65521" and "unat b < 65521" and "fold adler_chunk cs (a, b) = (a', b')"
  shows "fold adler_ref_byte (concat cs) (unat a, unat b) = (unat a', unat b') \<and> unat a' < 65521 \<and> unat b' < 65521"
  using assms
proof (induction cs arbitrary: a b)
  case (Cons c cs)
  obtain s t where st: "adler_chunk c (a, b) = (s, t)" by (cases "adler_chunk c (a, b)")
  from adler_chunk_ref [OF _ Cons.prems(2,3) st] Cons.prems(1)
  have s: "fold adler_ref_byte c (unat a, unat b) = (unat s, unat t)" "unat s < 65521" "unat t < 65521" by simp_all
  then show ?case using Cons.IH [OF _ s(2,3)] Cons.prems st by simp
qed simp

lemma adler32_ref: "unat (adler32 d) = adler_ref d"
proof -
  obtain a b where ab: "fold adler_chunk (slice_chunks 5552 d) (1, 0) = (a, b)" by (cases "fold adler_chunk (slice_chunks 5552 d) (1, 0)")
  have "\<forall>c\<in>set (slice_chunks 5552 d). length c \<le> 5552" using length_chunks by blast
  from adler_chunks_ref [OF this _ _ ab] have r: "fold adler_ref_byte d (1, 0) = (unat a, unat b)" "unat a < 65521" "unat b < 65521"
    by (simp_all add: concat_chunks)
  have "unat (push_bit 16 b OR a) = 65536 * unat b + unat a"
    using r(2,3) push_or_add [of a 16 b] by (simp add: unat_add_small unat_push_bit_small)
  then show ?thesis using ab r(1) by (simp add: adler32_def adler_ref_def)
qed

lemma deflate_adler32_same: "deflate_adler32 = adler32"
proof -
  have "(\<lambda>x (a, b). (a + ucast x, b + (a + ucast x))) = adler_byte"
    by (intro ext) (simp add: adler_byte_def Let_def split: prod.split)
  then have "(\<lambda>c ab. case fold (\<lambda>x (a, b). (a + ucast x, b + (a + ucast x))) c ab of (a, b) \<Rightarrow> (a mod 65521, b mod 65521)) = adler_chunk"
    by (intro ext) (simp add: adler_chunk_def)
  then show ?thesis by (intro ext) (simp add: deflate_adler32_def adler32_def)
qed

section \<open>The bound on the output\<close>

lemma length_copy_back [simp]: "length (copy_back n src out) = length out + n"
  by (induction n src out rule: copy_back.induct) simp_all

lemma length_stored_copy: "stored_copy n out r = Inr (v, r') \<Longrightarrow> length v = length out + n"
  by (induction n out r rule: stored_copy.induct) (auto split: sum.splits)

lemma coded_block_bounded: "coded_block lit dt limit out r = Inr (v, r') \<Longrightarrow> length out \<le> limit \<Longrightarrow> length v \<le> limit"
proof (induction lit dt limit out r rule: coded_block.induct)
  case (1 lit dt limit out r)
  note eq = coded_block.simps [of lit dt limit out r]
  obtain s r1 where d: "huffman_decode lit r = Inr (s, r1)" using "1.prems" by (auto simp: eq split: sum.splits)
  consider "s < 256" | "s = 256" | "256 < s" by linarith
  then show ?case
  proof cases
    case 1
    then show ?thesis using "1.IH"(1) [OF d refl] "1.prems" by (auto simp: eq d split: if_splits)
  next
    case 2
    then show ?thesis using "1.prems" by (simp add: eq d)
  next
    case 3
    then obtain len dd r2 where c: "read_match dt s r1 = Inr ((len, dd), r2)" "\<not> length out < dd" "\<not> limit < length out + len"
        "coded_block lit dt limit (copy_back len (length out - dd) out) r2 = Inr (v, r')"
      using "1.prems" by (auto simp: eq d split: sum.splits if_splits)
    then show ?thesis using "1.IH"(2) [OF d refl _ _ c(1) refl refl c(2-4)] 3 by simp
  qed
qed

lemma inflate_block_bounded: "inflate_block kind limit out r = Inr (v, r') \<Longrightarrow> length out \<le> limit \<Longrightarrow> length v \<le> limit"
  by (auto simp: inflate_block_def stored_block_def split: if_splits sum.splits
    dest!: length_stored_copy dest: coded_block_bounded)

lemma inflate_loop_bounded: "inflate_loop limit out r = Inr v \<Longrightarrow> length out \<le> limit \<Longrightarrow> length v \<le> limit"
proof (induction limit out r rule: inflate_loop.induct)
  case (1 limit out r)
  obtain fin r1 kind r2 out' r3 where b: "br_bits 1 r = Inr (fin, r1)" "br_bits 2 r1 = Inr (kind, r2)"
      "inflate_block (unat kind) limit out r2 = Inr (out', r3)"
    using "1.prems"(1) by (subst (asm) inflate_loop.simps) (auto split: sum.splits)
  have "inflate_loop limit out r = (if fin \<noteq> 0 then Inr out' else inflate_loop limit out' r3)"
    by (subst inflate_loop.simps) (simp add: b b(1) [unfolded One_nat_def])
  then show ?case
    using 1(1) [OF b(1) refl b(2) refl b(3) refl] "1.prems" inflate_block_bounded [OF b(3)] by (auto split: if_splits)
qed

lemma zlib_roundtrip:
  assumes "length d \<le> limit"
  shows "inflate (deflate d lv) limit = Inr d \<and> inflate_zlib (deflate_zlib d lv) limit = Inr d"
proof -
  have raw: "inflate (deflate d lv) limit = Inr d"
    using stored_roundtrip [OF assms] fixed_roundtrip [OF assms] by (cases lv) (simp_all add: deflate_def)
  let ?sum = "be_bytes 4 (unat (adler32 d))"
  have z: "deflate_zlib d lv = 0x78 # 0x9c # deflate d lv @ ?sum"
    by (simp add: deflate_zlib_def deflate_def deflate_adler32_same)
  have len: "length ?sum = 4" by (rule be.length_enc)
  have "be_val ?sum = unat (adler32 d)" using unat_lt_exp [of "adler32 d"] by (intro be.dec_enc) simp
  then show ?thesis using raw len by (simp add: inflate_zlib_def z Let_def)
qed

section \<open>Properties\<close>

text \<open>C25: decompressing what either level of compression makes gives the data back, raw or in a zlib stream
  with its header and checksum, under any limit that admits the data.\<close>

theorem deflate_roundtrip:
  assumes "length d \<le> limit"
  shows "inflate (deflate d lv) limit = Inr d \<and> inflate_zlib (deflate_zlib d lv) limit = Inr d"
  by (rule zlib_roundtrip [OF assms])

theorem deflate_roundtrip_witness:
  "inflate (deflate [1, 2, 1, 2, 1, 2, 1, 2] Fixed) 8 = Inr [1, 2, 1, 2, 1, 2, 1, 2]
    \<and> inflate_zlib (deflate_zlib [1, 2, 1, 2, 1, 2, 1, 2] Fixed) 8 = Inr [1, 2, 1, 2, 1, 2, 1, 2]"
  by (rule deflate_roundtrip) simp

text \<open>C26: \<open>Huffman::new\<close> builds a table exactly when no code length exceeds 15 and the canonical codes of
  RFC 1951 fit their lengths, and \<open>decode\<close> then reads the canonical code of each symbol in use.\<close>

theorem huffman_correct:
  assumes "s < length ls" and "ls ! s \<noteq> 0" and "br_ok r" and "br_stream r = code_bits (ls ! s) (canonical_code ls s) @ rest"
  shows "(case huffman_new ls of
      Inl e \<Rightarrow> \<not> complete_lengths ls
    | Inr h \<Rightarrow> complete_lengths ls \<and> (\<exists>r'. huffman_decode h r = Inr (s, r') \<and> br_stream r' = rest \<and> br_ok r'))"
  using table_iff [of ls] huffman_decode_canonical [OF _ assms] by (cases "huffman_new ls") auto

theorem huffman_correct_witness:
  "case huffman_new [1, 2, 2] of
      Inl e \<Rightarrow> \<not> complete_lengths [1, 2, 2]
    | Inr h \<Rightarrow> complete_lengths [1, 2, 2]
        \<and> (\<exists>r'. huffman_decode h (br_new [3]) = Inr (2, r') \<and> br_stream r' = [False, False, False, False, False, False] \<and> br_ok r')"
proof (rule huffman_correct)
  show "br_stream (br_new [3]) = code_bits ([1, 2, 2] ! 2) (canonical_code [1, 2, 2] 2) @ [False, False, False, False, False, False]"
    by code_simp
qed (simp_all add: br_new_ok)

text \<open>C27: what \<open>inflate\<close> returns is never longer than the limit, and \<open>inflate_zlib\<close> returns only data whose
  Adler-32, both sums modulo 65521 at every byte, is the one at the end of the stream: the sums of a
  chunk of 5552 bytes fit 32 bits.\<close>

theorem inflate_checked:
  assumes "inflate_zlib z limit = Inr d"
  shows "length d \<le> limit \<and> 6 \<le> length z \<and> adler_ref d = be_val (drop (length z - 4) z)
    \<and> inflate (take (length z - 6) (drop 2 z)) limit = Inr d"
proof -
  have i: "inflate (take (length z - 6) (drop 2 z)) limit = Inr d" "6 \<le> length z" "unat (adler32 d) = be_val (drop (length z - 4) z)"
    using assms by (auto simp: inflate_zlib_def Let_def split: if_splits sum.splits)
  then have "length d \<le> limit" using inflate_loop_bounded [of limit "[]" _ d] by (simp add: inflate_def)
  then show ?thesis using i by (simp add: adler32_ref)
qed

theorem inflate_checked_witness:
  "length ([7] :: u8 list) \<le> 9 \<and> 6 \<le> length (deflate_zlib [7] Stored)
    \<and> adler_ref [7] = be_val (drop (length (deflate_zlib [7] Stored) - 4) (deflate_zlib [7] Stored))
    \<and> inflate (take (length (deflate_zlib [7] Stored) - 6) (drop 2 (deflate_zlib [7] Stored))) 9 = Inr [7]"
proof -
  have "inflate_zlib (deflate_zlib [7] Stored) 9 = Inr [7]" using zlib_roundtrip [of "[7]" 9 Stored] by simp
  then show ?thesis by (rule inflate_checked)
qed

end
