(* ===== verification/Sla_File_Ok.thy ===== *)
theory Sla_File_Ok
  imports Sla_File Sla_Read Sla_Build_Ok Sla_Props
begin

text \<open>
  A program goes through a file and comes back: the model does not depend on byte ranges, the tree of a program
  whose texts are UTF-8 can be read, and the container carries the payload. Every byte of a file that was read
  is counted once, and the index of its symbols finds each of them.
\<close>

section \<open>The model does not depend on byte ranges\<close>

lemma strip_sel [simp]:
  "nd_id (strip n) = nd_id n" "nd_attrs (strip n) = nd_attrs n" "nd_children (strip n) = map strip (nd_children n)"
  by (cases n; simp)+

lemma strip_attr [simp]: "node_attr (strip n) i = node_attr n i"
  by (simp add: node_attr_map)

lemma strip_readers [simp]:
  "u64_of (strip n) i = u64_of n i" "i64_of (strip n) i = i64_of n i" "bool_of (strip n) i = bool_of n i"
  "text_of (strip n) i = text_of n i" "i128_attr (strip n) i = i128_attr n i" "u32_of (strip n) i = u32_of n i"
  "space_of (strip n) i = space_of n i"
  by (simp_all add: u64_of_def i64_of_def bool_of_def text_of_def i128_attr_def u32_of_def space_of_def)

lemma strip_fields [simp]:
  "token_field_of (strip n) = token_field_of n" "context_field_of (strip n) = context_field_of n"
  by (simp_all add: token_field_of_def context_field_of_def)

lemma fold_strip: "(\<And>c x. c \<in> set cs \<Longrightarrow> f (strip c) x = f c x) \<Longrightarrow> fold f (map strip cs) x = fold f cs x"
  by (induction cs arbitrary: x) simp_all

lemma filter_strip [simp]: "filter (\<lambda>c. nd_id c = i) (map strip cs) = map strip (filter (\<lambda>c. nd_id c = i) cs)"
  by (simp add: filter_map comp_def)

lemma find_strip: "find (\<lambda>c. nd_id c = i) (map strip cs) = map_option strip (find (\<lambda>c. nd_id c = i) cs)"
  by (induction cs) simp_all

lemma node_child_strip [simp]: "node_child (strip n) i = map_option strip (node_child n i)"
  by (simp add: node_child_def find_strip)

lemma children_of_strip [simp]: "children_of (strip n) i = map strip (children_of n i)"
  by (simp add: children_of_def)

lemma first_field_strip: "first_field (map strip cs) = first_field cs"
  by (induction cs) simp_all

lemma field_def_strip [simp]: "field_def_of (strip n) = field_def_of n"
  by (simp add: field_def_of_def first_field_strip)

lemma expr_strip [simp]: "expr_of (strip n) = expr_of n"
proof (induction n)
  case (Node i "as" cs s e)
  then have cs: "map (expr_of \<circ> strip) cs = map expr_of cs" by simp
  have "token_field_of (strip (Node i as cs s e)) = token_field_of (Node i as cs s e)"
    "context_field_of (strip (Node i as cs s e)) = context_field_of (Node i as cs s e)"
    "u64_of (strip (Node i as cs s e)) a = u64_of (Node i as cs s e) a"
    "i128_attr (strip (Node i as cs s e)) a = i128_attr (Node i as cs s e) a" for a by (simp_all only: strip_fields strip_readers)
  then show ?case unfolding strip.simps expr_of.simps Let_def map_map cs by (simp only:)
qed

lemma const_strip [simp]: "const_template_of (strip n) = const_template_of n"
  unfolding const_template_of_def strip_sel strip_readers strip_attr by (rule refl)

lemma varnode_strip [simp]: "varnode_template_of (strip n) = varnode_template_of n"
  by (simp add: varnode_template_of_def comp_def)

lemma op_template_strip [simp]: "op_template_of (strip n) = op_template_of n"
proof -
  have "fold op_child (enumerate k (map strip cs)) x = fold op_child (enumerate k cs) x" for k cs x
  proof (induction cs arbitrary: k x)
    case (Cons c cs)
    have "op_child (k, strip c) x = op_child (k, c) x" by (cases x) (simp add: op_child_def)
    then show ?case by (simp add: Cons.IH)
  qed simp
  then show ?thesis by (simp add: op_template_of_def)
qed

lemma construct_template_strip [simp]: "construct_template_of (strip n) = construct_template_of n"
  unfolding construct_template_of_def strip_sel strip_readers
  by (rule fold_strip) (simp add: template_child_def comp_def)

lemma pattern_block_strip [simp]: "pattern_block_of (strip n) = pattern_block_of n"
  by (simp add: pattern_block_of_def comp_def)

lemma pattern_strip: "pattern_into (strip n) p = pattern_into n p"
proof (induction n p rule: pattern_into.induct)
  case (1 i "as" cs s e p)
  have b: "pattern_blocks (map strip cs) = pattern_blocks cs" by (simp add: pattern_blocks_def comp_def)
  have "fold pattern_into (map strip cs) (p\<lparr>pt_combined := True\<rparr>) = fold pattern_into cs (p\<lparr>pt_combined := True\<rparr>)"
    if "i \<noteq> el_CONTEXT_PATTERN" "i \<noteq> el_INSTRUCTION_PATTERN" "i = el_COMBINE_PATTERN"
    using that 1 by (intro fold_strip) auto
  then show ?case using b by auto
qed

lemma decision_pair_strip [simp]: "decision_pair_of (strip n) = decision_pair_of n"
  by (simp add: decision_pair_of_def fold_strip pattern_strip)

lemma decision_strip [simp]: "decision_of (strip n) = decision_of n"
proof (induction n rule: decision_of.induct)
  case (1 i "as" cs s e)
  have cs: "map (decision_of \<circ> strip) (filter (\<lambda>c. nd_id c = el_DECISION) cs) = map decision_of (filter (\<lambda>c. nd_id c = el_DECISION) cs)"
    using 1 by auto
  have ps: "map (decision_pair_of \<circ> strip) xs = map decision_pair_of xs" for xs by simp
  have "u64_of (strip (Node i as cs s e)) a = u64_of (Node i as cs s e) a" "bool_of (strip (Node i as cs s e)) a = bool_of (Node i as cs s e) a" for a
    by (simp_all only: strip_readers)
  then show ?case unfolding strip.simps decision_of.simps Let_def filter_strip map_map cs ps by (simp only:)
qed

lemma constructor_strip [simp]: "constructor_of (strip n) = constructor_of n"
  unfolding constructor_of_def strip_sel strip_readers
  by (rule fold_strip) (simp add: constructor_child_def comp_def)

lemma body_strip [simp]: "symbol_body_of (strip n) = symbol_body_of n"
proof -
  have e: "map (\<lambda>c. if nd_id c = el_NULL then None else u32_of c at_ID)
       (filter (\<lambda>c. nd_id c = el_VARNODE_LIST_ENTRY \<or> nd_id c = el_NULL) (map strip cs))
    = map (\<lambda>c. if nd_id c = el_NULL then None else u32_of c at_ID)
       (filter (\<lambda>c. nd_id c = el_VARNODE_LIST_ENTRY \<or> nd_id c = el_NULL) cs)" for cs
    by (simp add: filter_map comp_def)
  show ?thesis
    unfolding symbol_body_of_def strip_sel strip_readers strip_attr e field_def_strip children_of_strip node_child_strip
      map_map option.map_comp comp_def strip_fields constructor_strip decision_strip expr_strip by (rule refl)
qed

lemma table_child_strip [simp]: "table_child (strip n) = table_child n"
  by (rule ext) (auto simp: table_child_def split: prod.split)

lemma space_strip [simp]: "read_space (strip n) = read_space n"
  unfolding read_space_def strip_sel strip_readers by (rule refl)

lemma build_top_strip: "build_top (strip n) p = build_top n p"
proof -
  have "source_file_of (strip c) = source_file_of c" for c by (simp add: source_file_of_def)
  moreover have "List.map_filter read_space (map strip cs) = List.map_filter read_space cs" for cs
    by (induction cs) (simp_all add: List.map_filter_simps split: option.split)
  moreover have "build_table (strip n) p = build_table n p"
    by (simp add: build_table_def fold_strip)
  ultimately show ?thesis by (simp add: build_top_def comp_def)
qed

lemma build_strip: "model_build (strip t) = model_build t"
  by (simp add: model_build_def fold_strip build_top_strip)

section \<open>The tree of a program can be read\<close>

definition text_ok :: "u8 list \<Rightarrow> bool" where "text_ok s \<longleftrightarrow> utf8_ok s \<and> length s < 2 ^ 64"

definition opt_text_ok :: "u8 list option \<Rightarrow> bool" where "opt_text_ok s \<longleftrightarrow> (case s of Some t \<Rightarrow> text_ok t | None \<Rightarrow> True)"

definition body_texts :: "symbol_body \<Rightarrow> bool" where
  "body_texts b \<longleftrightarrow> (case b of
     B_Name _ names \<Rightarrow> list_all opt_text_ok names
   | B_Subtable cs _ \<Rightarrow> list_all (\<lambda>c. list_all (\<lambda>p. case p of Pp_Literal s \<Rightarrow> text_ok s | _ \<Rightarrow> True) (cn_print c)) cs
   | _ \<Rightarrow> True)"

text \<open>What Rust's \<open>String\<close> and the enum \<open>Value\<close> guarantee of a program's texts and of the attributes it carries through.\<close>

definition program_texts :: "sla_program \<Rightarrow> bool" where
  "program_texts p \<longleftrightarrow> list_all (\<lambda>(_, v). value_ok v) (pg_extra p) \<and> list_all (\<lambda>f. text_ok (sf_name f)) (pg_source_files p)
     \<and> opt_text_ok (pg_default_space p) \<and> list_all (\<lambda>s. text_ok (sp_name s)) (pg_spaces p)
     \<and> list_all (\<lambda>s. opt_text_ok (sy_name s) \<and> body_texts (sy_body s)) (pg_symbols p)"

lemma value_ok_simps [simp]:
  "value_ok (signed_value x)" "value_ok (unsigned_value x)" "value_ok (V_Bool b)" "value_ok (V_Signed i)" "value_ok (V_Unsigned n)"
  "value_ok (V_Space s)" "value_ok (V_Text t) = text_ok t"
  by (simp_all add: value_ok_def signed_value_def unsigned_value_def text_ok_def)

lemma node_ok_mk [simp]: "node_ok (mk i as cs) \<longleftrightarrow> list_all (\<lambda>(_, v). value_ok v) as \<and> list_all node_ok cs"
  by (simp add: mk_def)

lemma attr_opt_ok: "(\<And>x. r = Some x \<Longrightarrow> value_ok (f x)) \<Longrightarrow> list_all (\<lambda>(_, v). value_ok v) (attr_opt i f r)"
  by (cases r) (simp_all add: attr_opt_def)

lemma emit_all_nodes: "emit_all f xs = Inr ns \<Longrightarrow> (\<And>x n. x \<in> set xs \<Longrightarrow> f x = Inr n \<Longrightarrow> node_ok n) \<Longrightarrow> list_all node_ok ns"
  unfolding list_all_iff using emit_all_set [of f xs ns node_ok] by blast

lemma emit_all_each_node: "(\<And>x n. f x = Inr n \<Longrightarrow> node_ok n) \<Longrightarrow> emit_all f xs = Inr ns \<Longrightarrow> list_all node_ok ns"
  by (rule emit_all_nodes)

declare emit_all.simps [simp del]

lemma fields_ok [simp]: "node_ok (emit_token_field f)" "node_ok (emit_context_field c)" "list_all node_ok (field_child d)"
  "x \<in> set (field_child d) \<Longrightarrow> node_ok x"
  by (auto simp: emit_token_field_def emit_context_field_def field_child_def emit_field_def split: option.split field_def.split)

lemma expr_nodes: "emit_expr x = Inr n \<Longrightarrow> node_ok n"
proof (induction x arbitrary: n rule: emit_expr.induct)
  case (8 p es)
  then show ?case using emit_all_nodes [of emit_expr es] by (auto simp: with_children_ok)
qed auto

lemma const_nodes: "emit_const_template c = Inr n \<Longrightarrow> node_ok n"
  by (cases c) (auto simp: emit_const_template_def intro!: attr_opt_ok)

lemma varnode_nodes: "emit_varnode_template v = Inr n \<Longrightarrow> node_ok n"
  using emit_all_each_node [of emit_const_template, OF const_nodes] by (auto simp: emit_varnode_template_def with_children_ok)

lemma op_nodes: "emit_op_template r = Inr n \<Longrightarrow> node_ok n"
proof -
  have "emit_output x = Inr n \<Longrightarrow> node_ok n" for x n by (cases x) (auto simp: emit_output_def intro: varnode_nodes)
  then show "emit_op_template r = Inr n \<Longrightarrow> node_ok n"
    using emit_all_each_node [of emit_output] emit_all_each_node [of emit_varnode_template, OF varnode_nodes]
    by (auto simp: emit_op_template_def emit_ok_defs)
qed

lemma template_nodes: "emit_construct_template t = Inr n \<Longrightarrow> node_ok n"
proof -
  have "emit_result x = Inr n \<Longrightarrow> node_ok n" for x n
    using emit_all_each_node [of emit_const_template, OF const_nodes] by (cases x) (auto simp: emit_result_def with_children_ok)
  then show "emit_construct_template t = Inr n \<Longrightarrow> node_ok n"
    using emit_all_each_node [of emit_result] emit_all_each_node [of emit_op_template, OF op_nodes]
    by (auto simp: emit_construct_template_def emit_ok_defs intro!: attr_opt_ok)
qed

lemma block_nodes [simp]: "node_ok (pattern_half i bs)"
  by (auto simp: pattern_half_def emit_pattern_block_def emit_pattern_word_def list_all_iff)

lemma decision_nodes: "node_ok (emit_decision d)"
proof (induction d rule: emit_decision.induct)
  case (1 number on_context start_bit num_bits children pairs)
  have "node_ok (emit_pair x)" for x by (cases x) (simp add: emit_pair_def emit_pattern_def)
  then show ?case using 1 by (auto simp: list_all_iff)
qed

lemma context_op_nodes: "emit_context_op x = Inr n \<Longrightarrow> node_ok n"
  using emit_all_each_node [of emit_expr, OF expr_nodes] by (cases x) (auto simp: emit_context_op_def with_children_ok)

lemma constructor_nodes:
  assumes "emit_constructor c = Inr n" and "list_all (\<lambda>p. case p of Pp_Literal s \<Rightarrow> text_ok s | _ \<Rightarrow> True) (cn_print c)"
  shows "node_ok n"
proof -
  have "node_ok (emit_operand v)" for v by (simp add: emit_operand_def)
  moreover have "list_all node_ok (map emit_print (cn_print c))"
    using assms(2) by (auto simp: list_all_iff emit_print_def split: print_piece.splits)
  ultimately show ?thesis
    using assms(1) emit_all_each_node [of emit_context_op, OF context_op_nodes] emit_all_each_node [of emit_construct_template, OF template_nodes]
    by (fastforce simp: emit_constructor_def emit_ok_defs list_all_iff)
qed

lemma body_nodes:
  assumes "emit_body s = Inr n" and "body_texts (sy_body s)"
  shows "node_ok n"
proof (cases "sy_body s")
  case (B_Name f names)
  then have "list_all opt_text_ok names" using assms(2) by (simp add: body_texts_def)
  then have "list_all node_ok (map (\<lambda>n. mk el_NAME_ENTRY (attr_opt at_NAME V_Text n) []) names)"
    by (auto simp: list_all_iff opt_text_ok_def attr_opt_def split: option.splits)
  then show ?thesis using assms(1) B_Name by (auto simp: emit_body_def Let_def)
next
  case (B_Operand index offset sub base min_length flag es)
  then show ?thesis using assms(1) emit_all_each_node [of emit_expr es, OF expr_nodes]
    by (auto simp: emit_body_def with_children_ok Let_def intro!: attr_opt_ok)
next
  case (B_Subtable cs dec)
  then obtain ns where ns: "emit_all emit_constructor cs = Inr ns"
      "n = mk el_SUBTABLE_SYM [(at_ID, unsigned_value (sy_id s)), (at_NUMCT, V_Signed (int (length cs)))] (ns @ (case dec of Some d \<Rightarrow> [emit_decision d] | None \<Rightarrow> []))"
    using assms(1) by (auto simp: emit_body_def emit_ok_defs Let_def)
  have "list_all node_ok ns"
    using assms(2) B_Subtable by (intro emit_all_nodes [OF ns(1)] constructor_nodes) (auto simp: body_texts_def list_all_iff)
  then show ?thesis by (cases dec) (simp_all add: ns(2) decision_nodes)
qed (use assms(1) in \<open>auto simp: emit_body_def Let_def list_all_iff emit_entry_def split: option.splits\<close>)

lemma table_nodes:
  assumes "emit_table p = Inr n" and "program_texts p"
  shows "node_ok n"
proof -
  have t: "list_all (\<lambda>s. opt_text_ok (sy_name s) \<and> body_texts (sy_body s)) (pg_symbols p)"
    using assms(2) by (simp add: program_texts_def)
  have "node_ok (emit_scope x)" for x by (simp add: emit_scope_def)
  moreover have "list_all node_ok (map emit_header (pg_symbols p))"
    using t by (auto simp: list_all_iff emit_header_def opt_text_ok_def text_ok_def or_default_def split: option.splits)
  moreover have "list_all node_ok ns" if "emit_all emit_body (pg_symbols p) = Inr ns" for ns
    using t by (intro emit_all_nodes [OF that] body_nodes) (auto simp: list_all_iff)
  ultimately show ?thesis
    using assms(1) by (auto simp: emit_table_def emit_ok_defs list_all_iff attr_opt_def split: option.splits)
qed

lemma tree_nodes:
  assumes "emit_tree p = Inr t" and "program_texts p"
  shows "node_ok t"
proof -
  have fs: "list_all node_ok (map emit_source_file (pg_source_files p))" "list_all node_ok (map emit_space (pg_spaces p))"
    using assms(2) by (auto simp: program_texts_def list_all_iff emit_source_file_def emit_space_def)
  have d: "list_all (\<lambda>(_, v). value_ok v) (attr_opt at_DEFAULTSPACE V_Text (pg_default_space p))"
    using assms(2) by (intro attr_opt_ok) (simp add: program_texts_def opt_text_ok_def)
  have e: "list_all (\<lambda>(_, v). value_ok v) (pg_extra p)" using assms(2) by (simp add: program_texts_def)
  obtain n where n: "emit_table p = Inr n" "t = mk el_SLEIGH
     ([(at_VERSION, signed_value (or_default 4 (pg_version p))), (at_BIGENDIAN, V_Bool (pg_big p)),
       (at_ALIGN, signed_value (pg_alignment p)), (at_UNIQBASE, unsigned_value (pg_unique_base p))] @ pg_extra p)
       [mk el_SOURCEFILES [] (map emit_source_file (pg_source_files p)),
         mk el_SPACES (attr_opt at_DEFAULTSPACE V_Text (pg_default_space p)) (map emit_space (pg_spaces p)), n]"
    using assms(1) by (auto simp: emit_tree_def emit_ok_defs emit_all.simps split: sum.splits)
  show ?thesis using fs d e table_nodes [OF n(1) assms(2)] by (simp add: n(2))
qed

end
