(* ===== verification/Sla_File_Props.thy ===== *)
theory Sla_File_Props
  imports Sla_File_Ok
begin

text \<open>
  The properties of \<open>.sla\<close> files: a program through a file and back, a file that was read written again, every byte
  counted once, and symbols found by their identifiers.
\<close>

section \<open>The container\<close>

lemma container_read:
  assumes "encode_tree t = Inr payload" and "length payload \<le> limit" and "nd_id t = el_SLEIGH" and "node_ok t"
  shows "\<exists>out s. write_sla t v lv = Inr out \<and> sla_parse_with_limit out limit = Inr s \<and> strip (sla_tree s) = strip t
    \<and> sla_program s = model_build t \<and> sla_version s = v \<and> sla_payload_len s = length payload"
proof -
  let ?out = "sla_magic @ [v] @ deflate_zlib payload lv"
  have w: "write_sla t v lv = Inr ?out" using assms(1) by (simp add: write_sla_def)
  obtain t' where t': "decode_tree payload = Inr t'" "strip t' = strip t" using tree_roundtrip [OF assms(1,4)] by blast
  have i: "nd_id t' = el_SLEIGH" using arg_cong [OF t'(2), of nd_id] assms(3) by simp
  have b: "model_build t' = model_build t" using build_strip [of t'] build_strip [of t] t'(2) by simp
  have h: "\<not> length ?out < 4" "take 3 ?out = sla_magic" "drop 4 ?out = deflate_zlib payload lv" "?out ! 3 = v"
    by (simp_all add: sla_magic_def)
  have z: "inflate_zlib (deflate_zlib payload lv) limit = Inr payload" using zlib_roundtrip [OF assms(2)] by simp
  have "sla_parse_with_limit ?out limit = Inr \<lparr>sla_version = v, sla_payload_len = length payload, sla_tree = t',
      sla_program = model_build t', sla_coverage = coverage_measure t'\<rparr>"
    unfolding sla_parse_with_limit_def h(2-4) z sum.case t'(1) i using h(1) by simp
  then show ?thesis using w t'(2) b by auto
qed

lemma parse_parts:
  assumes "sla_parse_with_limit bytes limit = Inr s"
  shows "\<exists>payload. decode_tree payload = Inr (sla_tree s) \<and> nd_id (sla_tree s) = el_SLEIGH \<and> length payload \<le> limit
    \<and> sla_program s = model_build (sla_tree s) \<and> sla_coverage s = coverage_measure (sla_tree s) \<and> sla_payload_len s = length payload"
proof -
  obtain payload t where p: "inflate_zlib (drop 4 bytes) limit = Inr payload" "decode_tree payload = Inr t" "nd_id t = el_SLEIGH"
      "s = \<lparr>sla_version = bytes ! 3, sla_payload_len = length payload, sla_tree = t, sla_program = model_build t, sla_coverage = coverage_measure t\<rparr>"
    using assms by (auto simp: sla_parse_with_limit_def split: if_splits sum.splits)
  have "length payload \<le> limit"
    using p(1) inflate_loop_bounded [of limit "[]" _ payload]
    by (auto simp: inflate_zlib_def inflate_def Let_def split: if_splits sum.splits)
  then show ?thesis using p by auto
qed

section \<open>Coverage\<close>

lemma count_unknown_bytes: "sum_list (map ue_bytes (count_unknown i own us)) = own + sum_list (map ue_bytes us)"
  by (induction us) simp_all

lemma count_unknown_ids:
  "set (map ue_id (count_unknown i own us)) = insert i (set (map ue_id us))"
  "distinct (map ue_id us) \<Longrightarrow> distinct (map ue_id (count_unknown i own us))"
proof -
  show ids: "set (map ue_id (count_unknown i own us)) = insert i (set (map ue_id us))" for us by (induction us) auto
  show "distinct (map ue_id us) \<Longrightarrow> distinct (map ue_id (count_unknown i own us))"
    using ids by (induction us) auto
qed

lemma measure_sum:
  "cv_interpreted (fold measure_node ns c) + cv_raw (fold measure_node ns c) = cv_interpreted c + cv_raw c + sum_list (map node_own_len ns)"
  by (induction ns arbitrary: c) (simp_all add: measure_node_def)

lemma measure_unknown:
  "cv_raw c = sum_list (map ue_bytes (cv_unknown c)) \<Longrightarrow>
    cv_raw (fold measure_node ns c) = sum_list (map ue_bytes (cv_unknown (fold measure_node ns c)))"
  by (induction ns arbitrary: c) (simp_all add: measure_node_def count_unknown_bytes)

lemma measure_total [simp]: "cv_total (fold measure_node ns c) = cv_total c"
  by (induction ns arbitrary: c) (simp_all add: measure_node_def)

lemma measure_distinct:
  "distinct (map ue_id (cv_unknown c)) \<Longrightarrow> distinct (map ue_id (cv_unknown (fold measure_node ns c)))"
  by (induction ns arbitrary: c) (simp_all add: measure_node_def count_unknown_ids(2))

lemma sort_key_facts:
  fixes us :: "unknown_element list"
  shows "sum_list (map ue_bytes (sort_key ue_id us)) = sum_list (map ue_bytes us)"
  "distinct (map ue_id us) \<Longrightarrow> distinct (map ue_id (sort_key ue_id us))"
proof -
  have m: "mset (map f (sort_key ue_id us)) = mset (map f us)" for f :: "unknown_element \<Rightarrow> 'z"
    unfolding mset_map mset_sort by (rule refl)
  have "sum_mset (mset (map ue_bytes (sort_key ue_id us))) = sum_mset (mset (map ue_bytes us))" by (simp only: m)
  then show "sum_list (map ue_bytes (sort_key ue_id us)) = sum_list (map ue_bytes us)" by (simp only: sum_mset_sum_list)
  show "distinct (map ue_id us) \<Longrightarrow> distinct (map ue_id (sort_key ue_id us))" using m [of ue_id] mset_eq_imp_distinct_iff by metis
qed

lemma coverage_facts:
  assumes "node_read len 0 t" and "nd_start t = 0" and "nd_end t = len" and "c = coverage_measure t"
  shows "cv_total c = len \<and> cv_interpreted c + cv_raw c = len \<and> sum_list (map ue_bytes (cv_unknown c)) = cv_raw c
    \<and> sorted (map ue_id (cv_unknown c)) \<and> distinct (map ue_id (cv_unknown c))"
proof -
  let ?start = "\<lparr>cv_total = node_len t, cv_interpreted = 0, cv_raw = 0, cv_unknown = []\<rparr>"
  let ?c = "fold measure_node (node_visit t) ?start"
  have c: "c = ?c\<lparr>cv_unknown := sort_key ue_id (cv_unknown ?c)\<rparr>" using assms(4) by (simp add: coverage_measure_def Let_def)
  have len: "node_len t = len" using assms(2,3) by (simp add: node_len_def)
  have "cv_interpreted ?c + cv_raw ?c = len"
    using measure_sum [of "node_visit t" ?start] own_len_visit [OF assms(1)] len by simp
  moreover have "cv_raw ?c = sum_list (map ue_bytes (cv_unknown ?c))" by (rule measure_unknown) simp
  moreover have "distinct (map ue_id (cv_unknown ?c))" by (rule measure_distinct) simp
  ultimately show ?thesis using len by (simp add: c sort_key_facts)
qed

section \<open>The index of symbols\<close>

lemma name_symbol_ids: "map sy_id (name_symbol by_id x ss) = map sy_id ss"
proof -
  obtain i n sc where x: "x = (i, n, sc)" by (cases x)
  have "map sy_id (ss[k := (ss ! k)\<lparr>sy_name := a, sy_scope := b\<rparr>]) = map sy_id ss" for k a b
    by (cases "k < length ss") (simp_all add: map_update list_update_same_conv list_update_beyond)
  then show ?thesis by (simp add: x name_symbol_def split: option.split)
qed

lemma names_ids: "map sy_id (fold (name_symbol by_id) xs ss) = map sy_id ss"
  by (induction xs arbitrary: ss) (simp_all add: name_symbol_ids)

lemma build_top_index:
  assumes "pg_symbol_index p = index_symbols (pg_symbols p)"
  shows "pg_symbol_index (build_top n p) = index_symbols (pg_symbols (build_top n p))"
proof -
  have "pg_symbol_index (build_table n p) = index_symbols (pg_symbols (build_table n p))"
    by (auto simp: build_table_def Let_def names_ids intro!: index_keys split: prod.split)
  then show ?thesis using assms by (simp add: build_top_def)
qed

lemma build_index: "pg_symbol_index (model_build t) = index_symbols (pg_symbols (model_build t))"
proof -
  have "pg_symbol_index p = index_symbols (pg_symbols p) \<Longrightarrow>
      pg_symbol_index (fold build_top ns p) = index_symbols (pg_symbols (fold build_top ns p))" for ns p
    by (induction ns arbitrary: p) (simp_all add: build_top_index)
  then show ?thesis by (simp add: model_build_def program_empty_def index_symbols_def)
qed

lemma symbol_found:
  assumes "pg_symbol_index p = index_symbols (pg_symbols p)"
  shows "case program_symbol p i of
      Some s \<Rightarrow> s \<in> set (pg_symbols p) \<and> sy_id s = i \<and> has_symbol p i
    | None \<Rightarrow> i \<notin> sy_id ` set (pg_symbols p) \<and> \<not> has_symbol p i"
proof -
  let ?ix = "index_symbols (pg_symbols p)"
  have ids: "fst ` set ?ix = sy_id ` set (pg_symbols p)" by (force simp: set_index in_set_conv_nth image_iff)
  show ?thesis
  proof (cases "search_by_key fst ?ix i")
    case None
    then have "i \<notin> sy_id ` set (pg_symbols p)" using pair_search.search_iff [OF index_sorted, of "pg_symbols p" i] ids by simp
    then show ?thesis using None by (simp add: program_symbol_def has_symbol_def assms)
  next
    case (Some k)
    then have "k < length ?ix" "fst (?ix ! k) = i" using pair_search.search_found by auto
    then have "?ix ! k \<in> set ?ix" "fst (?ix ! k) = i" by simp_all
    then obtain j where j: "?ix ! k = (i, j)" "j < length (pg_symbols p)" "sy_id (pg_symbols p ! j) = i"
      by (auto simp: set_index)
    then show ?thesis using Some by (simp add: program_symbol_def has_symbol_def assms Let_def)
  qed
qed

section \<open>What a crafted file and an uncommon program bring about\<close>

text \<open>A text said to have \<open>2 ^ 64 - 1\<close> bytes makes the reader panic.\<close>

definition long_text :: "u8 list" where
  "long_text = [0x44, 0xcc, 0x7a, 0x81, 0xff, 0xff, 0xff, 0xff, 0xff, 0xff, 0xff, 0xff, 0xff, 0x84]"

lemma long_text_value: "cur_value long_text 2 = Inl D_panics"
proof -
  have "chunk_loop long_text (Suc (Suc (Suc (Suc (Suc (Suc (Suc (Suc (Suc (Suc 0)))))))))) 0 3 = (18446744073709551615, 13)"
    by (simp add: long_text_def)
  moreover have "Suc (Suc (Suc (Suc (Suc (Suc (Suc (Suc (Suc (Suc 0))))))))) = (10 :: nat)" "length long_text = 14"
    by (simp_all add: long_text_def)
  ultimately have c: "cur_chunks long_text 10 3 = Inr (18446744073709551615, 13)" by (simp only: cur_chunks_def) simp
  have b: "cur_byte long_text 2 = Inr (0x7a, 3)" by (simp add: cur_byte_def long_text_def)
  have k: "drop_bit 4 (0x7a :: u8) = 7" "unat ((0x7a :: u8) AND 0x0f) = 10" by simp_all
  have "typed_value long_text 2 7 18446744073709551615 13 = Inl D_panics" by (simp add: typed_value_def long_text_def)
  then show ?thesis unfolding cur_value_def b sum.case prod.case Let_def k c by simp
qed

lemma long_text_panics: "decode_tree long_text = Inl D_panics"
proof -
  have t: "cur_tag long_text 0 = Inr ((2, 4), 1)" "cur_tag long_text 1 = Inr ((6, 12), 2)"
    by (simp_all add: cur_tag_def cur_byte_def long_text_def Let_def as_u32_def)
  have l: "0 < length long_text" "1 < length long_text" by (simp_all add: long_text_def)
  have "tree_loop long_text 0 [] None = tree_loop long_text 1 [Node 4 [] [] 0 0] None"
    using tree_loop_opening [OF l(1) t(1)] by (simp add: max_depth_def)
  also have "\<dots> = Inl D_panics" using tree_loop_attribute [OF l(2) t(2)] by (simp add: long_text_value)
  finally show ?thesis by (simp add: decode_tree_def long_text_def)
qed

lemma crafted_file_panics:
  "sla_parse_with_limit (sla_magic @ [4] @ deflate_zlib long_text Stored) 100 = Inl (S_Decode D_panics)"
proof -
  have "inflate_zlib (deflate_zlib long_text Stored) 100 = Inr long_text"
    using zlib_roundtrip [of long_text 100 Stored] by (simp add: long_text_def)
  then show ?thesis by (simp add: sla_parse_with_limit_def sla_magic_def long_text_panics)
qed

text \<open>A negative constant of a template can be read and is written as zero, without an error.\<close>

lemma negative_constant_lost:
  "const_template_of (mk el_CONST_REAL [(at_VAL, V_Signed (- 1))] []) = K_Real (- 1)"
  "emit_const_template (K_Real (- 1)) = Inr (mk el_CONST_REAL [(at_VAL, V_Unsigned 0)] [])"
  by (simp_all add: const_template_of_def attr_defs emit_const_template_def u128_or_zero_def)

text \<open>The header of a symbol is one identifier above its body.\<close>

lemma header_above: "header_body_of i = Some b \<Longrightarrow> i = b + 1"
  by (auto simp: header_body_of_def split: if_splits)

section \<open>Properties\<close>

text \<open>C28: a program whose symbols have distinct identifiers, names and scopes, whose template constants are not
  negative and whose texts are UTF-8 comes back unchanged from the file \<open>emit::write\<close> makes of it, at either
  level of compression and under any limit that admits the payload.\<close>

theorem program_file_roundtrip:
  assumes "program_ok p" and "program_texts p" and "emit_tree p = Inr t" and "encode_tree t = Inr payload" and "length payload \<le> limit"
  shows "\<exists>out s. emit_write p v lv = Inr out \<and> sla_parse_with_limit out limit = Inr s
    \<and> sla_program s = p \<and> sla_version s = v \<and> sla_payload_len s = length payload"
proof -
  have "nd_id t = el_SLEIGH" using assms(3) by (auto simp: emit_tree_def with_children_ok)
  then obtain out s where "write_sla t v lv = Inr out" "sla_parse_with_limit out limit = Inr s"
      "sla_program s = model_build t" "sla_version s = v" "sla_payload_len s = length payload"
    using container_read [OF assms(4,5) _ tree_nodes [OF assms(3,2)]] by blast
  then show ?thesis using build_emit [OF assms(3,1)] by (simp add: emit_write_def assms(3))
qed

text \<open>C29: every file that can be read can be written again, and reading that gives the same program, the same
  version and the same elements.\<close>

theorem file_rewrites:
  assumes "sla_parse_with_limit bytes limit = Inr s"
  shows "\<exists>out payload s'. sla_to_bytes s lv = Inr out \<and> encode_tree (sla_tree s) = Inr payload
    \<and> sla_parse_with_limit out (length payload) = Inr s' \<and> sla_program s' = sla_program s \<and> sla_version s' = sla_version s
    \<and> strip (sla_tree s') = strip (sla_tree s)"
proof -
  obtain d where d: "decode_tree d = Inr (sla_tree s)" "nd_id (sla_tree s) = el_SLEIGH" "sla_program s = model_build (sla_tree s)"
    using parse_parts [OF assms] by blast
  have t: "node_read (length d) 0 (sla_tree s)" using decode_tree_read [OF d(1)] by simp
  obtain payload where p: "encode_tree (sla_tree s) = Inr payload" using encode_node_read(1) [OF t] by (auto simp: encode_tree_node)
  show ?thesis
    using container_read [OF p order_refl d(2) node_read_ok [OF t], of "sla_version s" lv] d(3) p by (auto simp: sla_to_bytes_def)
qed

text \<open>C30: in a file that was read the byte ranges of the elements nest inside the payload, so no subtraction of
  \<open>own_len\<close> underflows and \<open>check\<close> reports none, and \<open>Coverage\<close> counts each byte of the payload once: the
  interpreted and the raw bytes make the payload, and the unknown elements, listed once each in order, make the raw
  bytes.\<close>

theorem coverage_correct:
  assumes "sla_parse_with_limit bytes limit = Inr s"
  shows "cv_total (sla_coverage s) = sla_payload_len s
    \<and> cv_interpreted (sla_coverage s) + cv_raw (sla_coverage s) = sla_payload_len s
    \<and> sum_list (map ue_bytes (cv_unknown (sla_coverage s))) = cv_raw (sla_coverage s)
    \<and> sorted (map ue_id (cv_unknown (sla_coverage s))) \<and> distinct (map ue_id (cv_unknown (sla_coverage s)))
    \<and> list_all (\<lambda>n. sum_list (map node_len (nd_children n)) \<le> node_len n \<and> check_node (sla_payload_len s) n = []) (node_visit (sla_tree s))
    \<and> sla_payload_len s \<le> limit"
proof -
  obtain d where d: "decode_tree d = Inr (sla_tree s)" "sla_coverage s = coverage_measure (sla_tree s)" "sla_payload_len s = length d" "length d \<le> limit"
    using parse_parts [OF assms] by metis
  note t = decode_tree_read [OF d(1)]
  have "list_all (\<lambda>n. sum_list (map node_len (nd_children n)) \<le> node_len n \<and> check_node (length d) n = []) (node_visit (sla_tree s))"
    unfolding list_all_iff
  proof
    fix n assume "n \<in> set (node_visit (sla_tree s))"
    from node_read_visit [OF conjunct1 [OF t] this]
    show "sum_list (map node_len (nd_children n)) \<le> node_len n \<and> check_node (length d) n = []"
      by (simp add: check_node_def not_less)
  qed
  moreover note coverage_facts [OF conjunct1 [OF t] conjunct1 [OF conjunct2 [OF t]] conjunct2 [OF conjunct2 [OF t]] d(2)]
  ultimately show ?thesis unfolding d(3) using d(4) by blast
qed

text \<open>C31: in a program that was read, \<open>symbol\<close> returns a symbol with the identifier asked for exactly when there is
  one, and \<open>has_symbol\<close> says whether there is: the binary search runs on the sorted index of the symbols.\<close>

theorem symbol_lookup:
  assumes "sla_parse_with_limit bytes limit = Inr s"
  shows "case program_symbol (sla_program s) i of
      Some y \<Rightarrow> y \<in> set (pg_symbols (sla_program s)) \<and> sy_id y = i \<and> has_symbol (sla_program s) i
    | None \<Rightarrow> i \<notin> sy_id ` set (pg_symbols (sla_program s)) \<and> \<not> has_symbol (sla_program s) i"
proof -
  obtain t where t: "sla_program s = model_build t" using parse_parts [OF assms] by blast
  show ?thesis unfolding t by (rule symbol_found [OF build_index])
qed

section \<open>Witnesses\<close>

definition tiny_program :: sla_program where
  "tiny_program = program_empty\<lparr>pg_version := Some 4, pg_alignment := 1,
     pg_symbols := [\<lparr>sy_id = 7, sy_name = Some [0x72], sy_scope = Some 0, sy_body = B_UserOp 3\<rparr>], pg_symbol_index := [(7, 0)]\<rparr>"

lemma tiny_ok: "program_ok tiny_program" "program_texts tiny_program"
  by (simp_all add: tiny_program_def program_empty_def program_ok_def program_texts_def symbol_ok_def sbody_ok_def index_symbols_def
      opt_text_ok_def body_texts_def text_ok_def)

definition tiny_tree :: sla_node where
  "tiny_tree = mk el_SLEIGH
     [(at_VERSION, V_Signed 4), (at_BIGENDIAN, V_Bool False), (at_ALIGN, V_Signed 1), (at_UNIQBASE, V_Unsigned 0)]
     [mk el_SOURCEFILES [] [], mk el_SPACES [] [],
      mk el_SYMBOL_TABLE [] [mk 26 [(at_NAME, V_Text [0x72]), (at_ID, V_Unsigned 7), (at_SCOPE, V_Unsigned 0)] [],
        mk el_USEROP_SYM [(at_ID, V_Unsigned 7), (at_INDEX, V_Signed 3)] []]]"

lemma tiny_emit: "emit_tree tiny_program = Inr tiny_tree"
  by (simp add: tiny_program_def program_empty_def tiny_tree_def emit_tree_def emit_table_def then_children_def with_children_def
      emit_all.simps emit_body_def emit_header_def body_element_def attr_opt_def signed_value_def unsigned_value_def)

lemma tiny_nodes: "node_ok tiny_tree" by (rule tree_nodes [OF tiny_emit tiny_ok(2)])

definition tiny_payload :: "u8 list" where
  "tiny_payload = (case encode_tree tiny_tree of Inr bs \<Rightarrow> bs | Inl e \<Rightarrow> [])"

lemma tiny_encode: "encode_tree tiny_tree = Inr tiny_payload" "length tiny_payload \<le> 200"
proof -
  have "case encode_tree tiny_tree of Inr bs \<Rightarrow> length bs \<le> 200 | Inl e \<Rightarrow> False" by code_simp
  then show "encode_tree tiny_tree = Inr tiny_payload" "length tiny_payload \<le> 200"
    by (auto simp: tiny_payload_def split: sum.splits)
qed

theorem program_file_roundtrip_witness:
  "\<exists>out s. emit_write tiny_program 4 Fixed = Inr out \<and> sla_parse_with_limit out 200 = Inr s
    \<and> sla_program s = tiny_program \<and> sla_version s = 4 \<and> sla_payload_len s = length tiny_payload"
  by (rule program_file_roundtrip [OF tiny_ok tiny_emit tiny_encode])

definition tiny_file :: "u8 list" where "tiny_file = sla_magic @ [4] @ deflate_zlib tiny_payload Stored"

definition tiny_sla :: sla where
  "tiny_sla = (case sla_parse_with_limit tiny_file 200 of Inr s \<Rightarrow> s
     | Inl e \<Rightarrow> \<lparr>sla_version = 0, sla_payload_len = 0, sla_tree = mk 0 [] [], sla_program = program_empty,
         sla_coverage = coverage_measure (mk 0 [] [])\<rparr>)"

lemma tiny_parse: "sla_parse_with_limit tiny_file 200 = Inr tiny_sla"
proof -
  have "write_sla tiny_tree 4 Stored = Inr tiny_file" by (simp add: write_sla_def tiny_encode tiny_file_def)
  moreover have "nd_id tiny_tree = el_SLEIGH" by (simp add: tiny_tree_def)
  ultimately obtain s where "sla_parse_with_limit tiny_file 200 = Inr s"
    using container_read [OF tiny_encode _ tiny_nodes, of 4 Stored] by auto
  then show ?thesis by (simp add: tiny_sla_def)
qed

theorem file_rewrites_witness:
  "\<exists>out payload s'. sla_to_bytes tiny_sla Fixed = Inr out \<and> encode_tree (sla_tree tiny_sla) = Inr payload
    \<and> sla_parse_with_limit out (length payload) = Inr s' \<and> sla_program s' = sla_program tiny_sla \<and> sla_version s' = sla_version tiny_sla
    \<and> strip (sla_tree s') = strip (sla_tree tiny_sla)"
  by (rule file_rewrites [OF tiny_parse])

theorem coverage_correct_witness:
  "cv_total (sla_coverage tiny_sla) = sla_payload_len tiny_sla
    \<and> cv_interpreted (sla_coverage tiny_sla) + cv_raw (sla_coverage tiny_sla) = sla_payload_len tiny_sla"
  using coverage_correct [OF tiny_parse] by simp

theorem symbol_lookup_witness:
  "case program_symbol (sla_program tiny_sla) 7 of
      Some y \<Rightarrow> y \<in> set (pg_symbols (sla_program tiny_sla)) \<and> sy_id y = 7 \<and> has_symbol (sla_program tiny_sla) 7
    | None \<Rightarrow> 7 \<notin> sy_id ` set (pg_symbols (sla_program tiny_sla)) \<and> \<not> has_symbol (sla_program tiny_sla) 7"
  by (rule symbol_lookup [OF tiny_parse])

end
