(* ===== verification/Spec2Isabelle.thy ===== *)
theory Spec2Isabelle
  imports Ptx_Fp_Props Ptx_Props Core_Props Ir_Props Ir_Exec Sla_File_Props
begin

text \<open>
  A verification library for e5r, a reverse-engineering toolkit in Rust.

  The program. The workspace is a set of crates: readers of container formats, decoders and lifters
  of machine code, a decompiler, and, in \<open>crates/e5r-ptx\<close>, a strict front end and an executable
  semantics for a subset of NVIDIA PTX, on which the proof pipeline of \<open>crates/e5r-verify\<close> rests.
  This library models \<open>e5r-ptx\<close> as a whole, from the text of a module to the result of a launch,
  \<open>crates/e5r-core\<close>, on which every other crate rests (addresses, the memory map, the reader of
  untrusted bytes and the record of evidence), \<open>crates/e5r-sla\<close>, the reader and writer of compiled
  processor specifications, from the bytes of a file to the structured program and back, and of
  \<open>crates/e5r-ir\<close>, the language that machine code is lifted into, its operations, its interpreter, the
  runs of lifted code, its SSA form and the passes over that form.

  The parts, in the order of the code, and the theories that model them.
  \<^item> \<open>fp.rs\<close>, bit-exact floating point. \<open>Ptx_Big\<close>: the unbounded naturals \<open>Big\<close> on 64-bit limbs, with
    every loop and carry. \<open>Ptx_Fmt\<close>: rounding modes, formats, the fields of a pattern, the fraction \<open>Q\<close>,
    \<open>round_at\<close>, \<open>encode\<close>, \<open>round\<close>, saturation. \<open>Ptx_Fp\<close>: \<open>fadd\<close> to \<open>convert\<close>. Their meaning over the reals
    is in \<open>Ptx_Round\<close> (the rounding of a real to a grid, and that \<open>round\<close> implements it), \<open>Ptx_Fp_Ok\<close>
    (extended reals, the exact operation and one rounding), \<open>Ptx_Sqrt\<close>, \<open>Ptx_Order\<close> and \<open>Ptx_Convert\<close>;
    \<open>Ptx_Fp_Props\<close> states the properties.
  \<^item> \<open>ast.rs\<close>: \<open>Ptx_Ast\<close>, one datatype per enum, one record per struct, the tables of spellings with
    the locale \<open>spelling\<close> interpreted for each of them.
  \<^item> \<open>lex.rs\<close>, \<open>parse.rs\<close>, \<open>print.rs\<close>, \<open>lib.rs\<close>: \<open>Ptx_Num\<close> and \<open>Ptx_Lex\<close> (numerals, tokens), \<open>Ptx_Parse\<close>
    (the recursive-descent parser on a token position, refusals with their line, panics as an outer
    option), \<open>Ptx_Check\<close> (the type checker), \<open>Ptx_Print\<close>, \<open>Ptx_Roundtrip\<close>. \<open>Ptx_Parse_Ok\<close> shows that the
    parser never panics and what the modules it returns satisfy.
  \<^item> \<open>interp.rs\<close>: \<open>Ptx_Mem\<close> (the byte memory, with the locale \<open>byte_memory\<close> of its laws), \<open>Ptx_Interp\<close>
    (contexts, allocations, every instruction, \<open>step\<close>), \<open>Ptx_Run\<close> (\<open>run_until_wait\<close>, \<open>run_solo\<close>, and
    \<open>run_grid\<close> with the barriers of a CTA). \<open>Ptx_Sound\<close> proves what one step keeps, \<open>Ptx_Safety\<close> lifts it
    to executions (the relation \<open>tstep\<close>, the locale \<open>step_invariant\<close>) and to launches.

  \<^item> \<open>e5r-core\<close>: \<open>Core_Addr\<close> (\<open>addr.rs\<close>, \<open>error.rs\<close>), \<open>Core_Memory\<close> (\<open>memory.rs\<close>, with the locale \<open>image\<close> of
    what reads and patches promise), \<open>Core_Bytes\<close> and \<open>Core_Reader\<close> (\<open>reader.rs\<close>, with the locales
    \<open>byte_order\<close> and \<open>cursor\<close>), \<open>Core_Leb\<close> (what the reads return), \<open>Core_Provenance\<close> and \<open>Core_Arch\<close>;
    \<open>Core_Props\<close> states the properties and where the code departs from its documentation.

  \<^item> \<open>e5r-ir\<close>: \<open>Ir_Op\<close> (\<open>op.rs\<close>, \<open>space.rs\<close>, \<open>varnode.rs\<close>: the operations and their operands), \<open>Ir_Float\<close>
    (\<open>float.rs\<close>, over the formats of \<open>fp.rs\<close>), \<open>Ir_Interp\<close> (\<open>interp.rs\<close>: the byte-addressed machine state
    and one step), \<open>Ir_Ssa\<close> (\<open>ssa.rs\<close>: values, definitions, functions), and of \<open>opt.rs\<close> one theory per pass:
    \<open>Ir_Arith\<close> and \<open>Ir_Fold\<close> (constant folding), \<open>Ir_Known\<close> (known bits), \<open>Ir_Simplify\<close>, \<open>Ir_Patterns\<close>,
    \<open>Ir_Propagate\<close> (copies and common subexpressions), \<open>Ir_Run\<close> (what these two make of the runs of a
    function: paths of moves along the edges, with the locale \<open>strict_flow\<close> of single assignment and
    strictness), \<open>Ir_Dead\<close> (dead values), \<open>Ir_Divisor\<close> (the divisor
    behind a multiplication by a reciprocal); \<open>Ir_Abi\<close> holds the tables of \<open>abi.rs\<close>. \<open>Ir_Props\<close> states the
    properties. What a value of an SSA function stands for is an environment \<open>u\<close> from identifiers to
    words: \<open>u\<close> models a function under a set \<open>R\<close> of environments when every definition's equation holds
    in \<open>u\<close>, a phi being a value that one of its inputs had in some environment of \<open>R\<close> (the points
    the run passed through). Folding, known bits, simplification and patterns keep the
    models; the passes that rewrite one definition at a time share the locale \<open>rewriting\<close>, interpreted on
    each of them. Copies depend on where control has been, so they are stated over runs.

  \<^item> \<open>exec.rs\<close>: \<open>Ir_Exec\<close>, the run of lifted code one instruction after the other, with a budget of operations
    and a record of calls; decoding and lifting are arguments of the run. What the end of a run needs of a
    decoder is that an instruction lies at its address and inside the bytes it was decoded from.

  \<^item> \<open>e5r-sla\<close>, from the bytes up. \<open>Sla_Inflate\<close> (\<open>inflate.rs\<close>: bit reader, Huffman tables, blocks, the zlib
    wrapper and its checksum) and \<open>Sla_Deflate\<close> (\<open>deflate.rs\<close>: stored blocks, matches found through hash chains,
    fixed codes); a reader stands for the list of the bits it has left, and \<open>Sla_Huffman\<close> relates the
    tables to canonical codes, \<open>Sla_Roundtrip\<close> what is written to what is read. \<open>Sla_Tree\<close> (\<open>decode.rs\<close>,
    \<open>encode.rs\<close>) has the tagged element tree, \<open>Sla_Tree_Ok\<close> its round trip and \<open>Sla_Read\<close> the invariant of the
    reader's stack. \<open>Sla_Ids\<close> (\<open>ids.rs\<close>), \<open>Sla_Model\<close> (\<open>model.rs\<close>) and \<open>Sla_Emit\<close> (\<open>emit.rs\<close>) take a tree to a
    program and a program to a tree, \<open>Sla_File\<close> (\<open>lib.rs\<close>) puts them in the container. \<open>Sla_Emit_Ok\<close> and
    \<open>Sla_Build_Ok\<close> show that reading the tree of a program gives the program, with the locale \<open>key_search\<close>
    of the binary search behind the index of symbols; \<open>Sla_File_Ok\<close> and \<open>Sla_File_Props\<close> compose the layers.

  Conventions. Registers and addresses are 64-bit words, special registers 32-bit words; the
  exponents (\<open>i64\<close>) and significands (\<open>u128\<close>) of \<open>fp.rs\<close> are integers and naturals whose machine bounds
  are far away, except where the code can overflow (\<open>isqrt\<close>, \<open>divrem_small\<close>, \<open>mul\<close>), where the model has
  the overflow as a panic. \<open>'a panics\<close> is \<open>'a option\<close> with \<open>None\<close> for a panic of the code (an assertion,
  an \<open>unwrap\<close>, an overflow of checked arithmetic, an index out of range). Messages are constructors of
  error datatypes. A hash map is a map. The fuel of a run is the argument of the code, not of the model;
  the code's other loops are total functions.

  What the lemmas show. Every floating-point operation is the exact operation on extended reals
  followed by one rounding; the integer and memory instructions keep registers at their width and touch
  only the bytes they report; a kernel that \<open>check\<close> accepts runs without panic and faults only for an
  access that is misaligned or outside its allocations or a program counter past its body; the parser returns only such
  kernels. A memory map returns the bytes its segments hold and, without overlaps, a read after a
  patch is the read before it with the patched bytes laid over; the reader returns the values encoded at its cursor and never leaves its data. Folding,
  simplification and the idiom patterns keep the models of an SSA function whose constants fit their
  sizes, the propagation of copies and of common subexpressions changes no run of it, dead values are
  exactly those that nothing observed needs, and a recognised reciprocal is a division by the divisor
  returned. A run of lifted code over a well-formed image ends under some fuel, and does not panic in
  integer code. Decompression undoes compression; a program that a \<open>.sla\<close> file can
  carry comes back unchanged from the file written for it, every file that can be read can be written again,
  the bytes of a payload are counted once, and symbols are found by their identifiers. The root
  theory composes the PTX part into what a launch of parsed text does.

  Not modelled. \<open>lean.rs\<close> writes text for another prover. Characters of 256 and above, which the lexer
  accepts only inside comments and as white space. Running out of memory, and the panic of an allocation
  above the address range. Of \<open>e5r-sla\<close>, the messages of errors, opening a path and the
  floating-point fraction of \<open>Coverage\<close>. Of \<open>opt.rs\<close>, the recognition of reciprocals and the fixed point over
  all passes; of \<open>ssa.rs\<close>, the construction. The proof search of \<open>crates/e5r-verify\<close> and the other
  crates: see the components of the manifest.
\<close>

section \<open>From the text of a module to its launches\<close>

text \<open>C1: a launch of any kernel of a module that the parser returned runs: \<open>run_grid\<close> does not panic
  under any fuel, ends by finishing, by diverging at a barrier, by exhausting the fuel, or by a fault
  of a memory access (misaligned or outside its allocations) or of a program counter past the
  body, and never writes outside the global allocations. Every float instruction the parser forms has a meaning, every label exists
  and every memory operand has the form its space takes.\<close>

theorem parsed_launch_runs:
  assumes "parse_module s = Some (Inr m)" and "k \<in> set (m_kernels m)" and "cta_size (l_block l) \<noteq> None"
  shows "\<exists>e g' ev. run_grid k l g sh0 fuel = Some (e, g', ev) \<and> benign_end e
    \<and> only_inside (l_alloc l) g g' \<and> events_inside (launch_allocs l k) ev"
proof -
  obtain lines where k: "checked k lines"
    using parse_module_ok [of s] assms(1,2) by (auto simp: module_ok_def list_all_iff kernel_ok_def)
  obtain e g' ev where run: "run_grid k l g sh0 fuel = Some (e, g', ev)" "benign_end e"
    using assms(3) run_grid_good [OF k, of l] by blast
  then show ?thesis using run_grid_safe [OF run(1)] by blast
qed

theorem parsed_launch_runs_witness:
  "\<exists>e g' ev. run_grid demo_kernel demo_launch mem_default mem_default 50 = Some (e, g', ev) \<and> benign_end e
    \<and> only_inside (l_alloc demo_launch) mem_default g' \<and> events_inside (launch_allocs demo_launch demo_kernel) ev"
  by (rule parsed_launch_runs [OF demo_parse]) (simp_all add: demo_module_def demo_cta_size)

end
